(* ===== verification/PS_Base.thy ===== *)
theory PS_Base
  imports Main "HOL-Library.Word"
begin

text \<open>
  Prelude of the ProtoScope development: the machine types the C++ code uses
  (bytes, \<open>size_t\<close> and \<open>int64_t\<close> with their limits), the conversion between
  \<open>char\<close> and byte, the C-locale character classes, and the generic facts on
  lists, options and words that the components share.

  \<^item> \<open>std::uint8_t\<close>, \<open>uint16_t\<close>, \<open>uint32_t\<close>, \<open>uint64_t\<close> are words of that width.
  \<^item> \<open>std::size_t\<close> (64 bits on the supported targets) is \<open>nat\<close>; wherever the
    code guards against overflow the limit \<open>size_max\<close> is written out.
  \<^item> \<open>std::int64_t\<close> is \<open>int\<close>; wherever the code guards against overflow the
    limits \<open>int64_min\<close> and \<open>int64_max\<close> are written out.
  \<^item> \<open>std::string\<close> is a sequence of 8-bit characters, Isabelle's \<open>string\<close>.
\<close>

unbundle bit_operations_syntax

type_synonym u8 = "8 word"
type_synonym u16 = "16 word"
type_synonym u32 = "32 word"
type_synonym u64 = "64 word"
type_synonym bytes = "u8 list"

named_theorems wf_intros "introduction rules of the well-formedness invariants"
named_theorems roundtrip_simps "decode-after-encode equations"

subsection \<open>Limits of the machine integers\<close>

definition size_max :: nat where
  "size_max = 18446744073709551615"

definition int64_min :: int where
  "int64_min = -9223372036854775808"

definition int64_max :: int where
  "int64_max = 9223372036854775807"

definition is_int64 :: "int \<Rightarrow> bool" where
  "is_int64 i \<longleftrightarrow> int64_min \<le> i \<and> i \<le> int64_max"

lemmas int64_defs = is_int64_def int64_min_def int64_max_def

subsection \<open>Characters and bytes\<close>

definition byte_of_char :: "char \<Rightarrow> u8" where
  "byte_of_char c = word_of_nat (of_char c)"

definition char_of_byte :: "u8 \<Rightarrow> char" where
  "char_of_byte b = char_of (unat b)"

lemma unat_u8_less [simp]: "unat (b :: u8) < 256"
  using unsigned_less [of b] by simp

lemma char_of_byte_of_char [simp]: "char_of_byte (byte_of_char c) = c"
  by (simp add: char_of_byte_def byte_of_char_def unat_of_nat char_of_char)

lemma byte_of_char_of_byte [simp]: "byte_of_char (char_of_byte b) = b"
  by (simp add: char_of_byte_def byte_of_char_def of_char_of)

lemma map_char_of_byte_of_char [simp]: "map char_of_byte (map byte_of_char s) = s"
  by (simp add: comp_def)

lemma map_byte_of_char_of_byte [simp]: "map byte_of_char (map char_of_byte bs) = bs"
  by (simp add: comp_def)

text \<open>The character's code, the value of the C++ cast to \<open>unsigned char\<close>.\<close>

definition char_code :: "char \<Rightarrow> nat" where
  "char_code c = of_char c"

lemma char_code_less [simp]: "char_code c < 256"
  by (simp add: char_code_def)

lemma char_code_inj [simp]: "char_code a = char_code b \<longleftrightarrow> a = b"
  by (simp add: char_code_def)

text \<open>\<open>std::isspace\<close> and \<open>std::isprint\<close> in the C locale.\<close>

definition c_isspace :: "char \<Rightarrow> bool" where
  "c_isspace c \<longleftrightarrow> char_code c = 32 \<or> (9 \<le> char_code c \<and> char_code c \<le> 13)"

definition c_isprint :: "char \<Rightarrow> bool" where
  "c_isprint c \<longleftrightarrow> 32 \<le> char_code c \<and> char_code c \<le> 126"

subsection \<open>Lists\<close>

lemma take_eq_self_iff: "take n xs = xs \<longleftrightarrow> length xs \<le> n"
  by (metis length_take min.absorb_iff1 nle_le take_all)

lemma nth_drop_simp: "n + i < length xs \<Longrightarrow> drop n xs ! i = xs ! (n + i)"
  by simp

lemma sum_list_take_drop: "sum_list (take n xs) + sum_list (drop n xs) = sum_list (xs :: nat list)"
  by (metis append_take_drop_id sum_list_append)

lemma map_nth_drop_take:
  "a + n \<le> length xs \<Longrightarrow> map (\<lambda>i. xs ! (a + i)) [0..<n] = take n (drop a xs)"
  by (rule nth_equalityI) auto

lemma take_drop_prefix:
  "n \<le> length xs \<Longrightarrow> take n (xs @ ys) = take n xs"
  by simp

end
