(* ===== verification/Codec.thy ===== *)
theory Codec
  imports PS_Base
begin

text \<open>
  \<open>src/src/protocol_utils/codec.cc\<close>: HEX text to bytes and back, the HEX editor's
  normalisation with its cursor, and the three CRCs of the frame parser. The
  functions are stateless, so each is one HOL function. The CRC section proves
  the bitwise engines injective once, in the locale \<open>crc_engine\<close>, and interprets
  it on the three routines of the code.
\<close>

subsection \<open>HEX text\<close>

definition hex_table :: string where
  "hex_table = ''0123456789ABCDEF''"

definition hex_digit :: "u8 \<Rightarrow> char" where
  "hex_digit n = hex_table ! unat (n AND 0x0F)"

fun bytesToHex :: "bytes \<Rightarrow> bool \<Rightarrow> string" where
  "bytesToHex [] withSpace = []"
| "bytesToHex (byte # bs) withSpace =
     hex_digit (drop_bit 4 byte) # hex_digit byte #
       (if withSpace \<and> bs \<noteq> [] then CHR '' '' # bytesToHex bs withSpace
        else bytesToHex bs withSpace)"

text \<open>\<open>hexNibble\<close> returns \<open>-1\<close> for a character that is no HEX digit.\<close>

definition hexNibble :: "char \<Rightarrow> int" where
  "hexNibble c =
     (let n = int (char_code c) in
      if 48 \<le> n \<and> n \<le> 57 then n - 48
      else if 97 \<le> n \<and> n \<le> 102 then n - 97 + 10
      else if 65 \<le> n \<and> n \<le> 70 then n - 65 + 10
      else -1)"

fun countHexDigits :: "string \<Rightarrow> nat" where
  "countHexDigits [] = 0"
| "countHexDigits (ch # text) =
     (if 0 \<le> hexNibble ch then Suc (countHexDigits text) else countHexDigits text)"

definition compact_text :: "string \<Rightarrow> string" where
  "compact_text text = filter (\<lambda>ch. \<not> c_isspace ch) text"

text \<open>The pair loop of \<open>hexToBytes\<close>; the odd case cannot arise after the length check.\<close>

fun hex_pairs :: "string \<Rightarrow> bytes option" where
  "hex_pairs [] = Some []"
| "hex_pairs [c] = None"
| "hex_pairs (a # b # rest) =
     (let high = hexNibble a; low = hexNibble b in
      if high < 0 \<or> low < 0 then None
      else case hex_pairs rest of
             None \<Rightarrow> None
           | Some out \<Rightarrow> Some (word_of_int (high * 16 + low) # out))"

definition hexToBytes :: "string \<Rightarrow> bytes option" where
  "hexToBytes text =
     (let compact = compact_text text in
      if compact = [] then Some []
      else if length compact mod 2 \<noteq> 0 then None
      else hex_pairs compact)"

subsection \<open>HEX editor normalisation\<close>

record hex_normalization =
  hn_text :: string
  hn_cursorPos :: nat
  hn_digitCount :: nat

definition upper_hex_char :: "int \<Rightarrow> char" where
  "upper_hex_char nibble =
     (if nibble < 10 then char_of (48 + nat nibble) else char_of (65 + nat (nibble - 10)))"

text \<open>
  The scan over the input: \<open>index\<close> is the position of the next character, the result is
  the compacted upper-case digits and the number of digits in front of the cursor.
\<close>

fun normalize_scan :: "string \<Rightarrow> nat \<Rightarrow> nat \<Rightarrow> string \<times> nat" where
  "normalize_scan [] index cursorPos = ([], 0)"
| "normalize_scan (ch # text) index cursorPos =
     (if c_isspace ch then normalize_scan text (Suc index) cursorPos
      else
        let nibble = hexNibble ch in
        if nibble < 0 then normalize_scan text (Suc index) cursorPos
        else
          let (compact, digitsBefore) = normalize_scan text (Suc index) cursorPos in
          (upper_hex_char nibble # compact, if index < cursorPos then Suc digitsBefore else digitsBefore))"

text \<open>Groups of two digits: \<open>i\<close> is the index of the next digit.\<close>

fun group_pairs :: "nat \<Rightarrow> string \<Rightarrow> string" where
  "group_pairs i [] = []"
| "group_pairs i (c # cs) =
     (if i mod 2 = 1 \<and> cs \<noteq> [] then c # CHR '' '' # group_pairs (Suc i) cs
      else c # group_pairs (Suc i) cs)"

definition normalizeHexEditorInput :: "string \<Rightarrow> nat \<Rightarrow> hex_normalization" where
  "normalizeHexEditorInput text cursorPos =
     (let (compact, digitsBeforeCursor) = normalize_scan text 0 cursorPos in
      if compact = [] then \<lparr>hn_text = [], hn_cursorPos = 0, hn_digitCount = 0\<rparr>
      else
        let clamped = min digitsBeforeCursor (length compact);
            cursor = (if 0 < clamped then clamped + (clamped - 1) div 2 else clamped)
        in \<lparr>hn_text = group_pairs 0 compact, hn_cursorPos = cursor,
            hn_digitCount = length compact\<rparr>)"

definition normalizeHexText :: "string \<Rightarrow> string" where
  "normalizeHexText text = hn_text (normalizeHexEditorInput text (length text))"

subsection \<open>CRC routines\<close>

definition crc16Modbus_bit :: "u16 \<Rightarrow> u16" where
  "crc16Modbus_bit crc =
     (let lsb = (crc AND 0x0001 \<noteq> 0); shifted = drop_bit 1 crc in
      if lsb then shifted XOR 0xA001 else shifted)"

definition crc16Modbus :: "bytes \<Rightarrow> u16" where
  "crc16Modbus data = foldl (\<lambda>crc value. (crc16Modbus_bit ^^ 8) (crc XOR ucast value)) 0xFFFF data"

definition crc16CcittFalse_bit :: "u16 \<Rightarrow> u16" where
  "crc16CcittFalse_bit crc =
     (let msb = (crc AND 0x8000 \<noteq> 0); shifted = push_bit 1 crc in
      if msb then shifted XOR 0x1021 else shifted)"

definition crc16CcittFalse :: "bytes \<Rightarrow> u16" where
  "crc16CcittFalse data =
     foldl (\<lambda>crc value. (crc16CcittFalse_bit ^^ 8) (crc XOR push_bit 8 (ucast value))) 0xFFFF data"

definition crc32Ieee_bit :: "u32 \<Rightarrow> u32" where
  "crc32Ieee_bit crc =
     (let lsb = (crc AND 1 \<noteq> 0); shifted = drop_bit 1 crc in
      if lsb then shifted XOR 0xEDB88320 else shifted)"

definition crc32Ieee :: "bytes \<Rightarrow> u32" where
  "crc32Ieee data =
     foldl (\<lambda>crc value. (crc32Ieee_bit ^^ 8) (crc XOR ucast value)) 0xFFFFFFFF data XOR 0xFFFFFFFF"


subsection \<open>Every CRC step is a bijection\<close>

text \<open>
  A shift-and-xor step loses no information when the polynomial has the bit that the
  shift clears: that bit of the result tells which branch was taken.
\<close>

lemma xor_right_cancel_word [simp]: "x XOR p = y XOR p \<longleftrightarrow> x = (y :: 'a::len word)"
  by (metis xor.assoc xor.right_neutral xor_self_eq)

lemma xor_left_cancel_word [simp]: "p XOR x = p XOR y \<longleftrightarrow> x = (y :: 'a::len word)"
  by (metis xor.assoc xor.left_neutral xor_self_eq)

lemma lsb_step_inj:
  fixes poly :: "'a::len word"
  assumes top: "bit poly (LENGTH('a) - 1)"
    and eq: "(if x AND 1 \<noteq> 0 then drop_bit 1 x XOR poly else drop_bit 1 x) =
             (if y AND 1 \<noteq> 0 then drop_bit 1 y XOR poly else drop_bit 1 y)"
  shows "x = y"
proof -
  let ?f = "\<lambda>x. if x AND 1 \<noteq> 0 then drop_bit 1 x XOR poly else drop_bit 1 x"
  have one: "(z AND 1 \<noteq> 0) = bit z 0" for z :: "'a word"
    by (simp add: and_one_eq bit_0 odd_iff_mod_2_eq_one)
  have msb: "bit (?f z) (LENGTH('a) - 1) = bit z 0" for z :: "'a word"
  proof -
    have "\<not> bit (drop_bit 1 z) (LENGTH('a) - 1)"
      by (auto simp: bit_drop_bit_eq dest: bit_imp_le_length)
    then show ?thesis using top by (simp add: one bit_xor_iff)
  qed
  have lsb: "bit x 0 = bit y 0"
    using msb [of x] msb [of y] eq by simp
  then have shifted: "drop_bit 1 x = drop_bit 1 y"
    using eq by (auto simp: one split: if_splits)
  show ?thesis
  proof (rule bit_word_eqI)
    fix n assume "n < LENGTH('a)"
    show "bit x n = bit y n"
    proof (cases n)
      case 0
      then show ?thesis using lsb by simp
    next
      case (Suc m)
      have "bit (drop_bit 1 x) m = bit (drop_bit 1 y) m" using shifted by simp
      then show ?thesis using Suc by (simp add: bit_drop_bit_eq)
    qed
  qed
qed

lemma msb_step_inj:
  fixes poly :: "'a::len word"
  assumes low: "bit poly 0"
    and hi: "hi = push_bit (LENGTH('a) - 1) 1"
    and eq: "(if x AND hi \<noteq> 0 then push_bit 1 x XOR poly else push_bit 1 x) =
             (if y AND hi \<noteq> 0 then push_bit 1 y XOR poly else push_bit 1 y)"
  shows "x = y"
proof -
  let ?f = "\<lambda>x. if x AND hi \<noteq> 0 then push_bit 1 x XOR poly else push_bit 1 x"
  have tst: "(z AND hi \<noteq> 0) = bit z (LENGTH('a) - 1)" for z :: "'a word"
  proof -
    have "bit (z AND hi) n = (n = LENGTH('a) - 1 \<and> bit z n)" for n
      by (auto simp: hi bit_and_iff bit_exp_iff push_bit_eq_mult)
    note bits = this
    show ?thesis
    proof
      assume "z AND hi \<noteq> 0"
      then obtain n where "bit (z AND hi) n" by (metis bit_eqI bit_0_eq bot_apply bot_bool_def)
      then show "bit z (LENGTH('a) - 1)" by (auto simp: bits)
    next
      assume "bit z (LENGTH('a) - 1)"
      then have "bit (z AND hi) (LENGTH('a) - 1)" by (simp add: bits)
      then show "z AND hi \<noteq> 0" by auto
    qed
  qed
  have low_bit: "bit (?f z) 0 = bit z (LENGTH('a) - 1)" for z :: "'a word"
    using low by (simp add: tst bit_xor_iff bit_0 even_xor_iff)
  have msb: "bit x (LENGTH('a) - 1) = bit y (LENGTH('a) - 1)"
    using low_bit [of x] low_bit [of y] eq by simp
  then have shifted: "push_bit 1 x = push_bit 1 y"
    using eq by (auto simp: tst split: if_splits)
  show ?thesis
  proof (rule bit_word_eqI)
    fix n assume n: "n < LENGTH('a)"
    show "bit x n = bit y n"
    proof (cases "n = LENGTH('a) - 1")
      case True
      then show ?thesis using msb by simp
    next
      case False
      have "bit (push_bit 1 x) (Suc n) = bit (push_bit 1 y) (Suc n)" using shifted by (simp only:)
      then show ?thesis using False n unfolding bit_push_bit_iff by auto
    qed
  qed
qed

locale crc_engine =
  fixes bit_step :: "'a::len word \<Rightarrow> 'a word"
    and inject :: "u8 \<Rightarrow> 'a word"
  assumes bit_step_inj: "bit_step x = bit_step y \<Longrightarrow> x = y"
    and inject_inj: "inject a = inject b \<Longrightarrow> a = b"
begin

definition byte_step :: "'a word \<Rightarrow> u8 \<Rightarrow> 'a word" where
  "byte_step crc value = (bit_step ^^ 8) (crc XOR inject value)"

definition run :: "'a word \<Rightarrow> bytes \<Rightarrow> 'a word" where
  "run crc data = foldl byte_step crc data"

lemma bits_inj: "(bit_step ^^ n) x = (bit_step ^^ n) y \<Longrightarrow> x = y"
  by (induction n) (auto dest: bit_step_inj)

lemma byte_step_state_inj: "byte_step x b = byte_step y b \<Longrightarrow> x = y"
  unfolding byte_step_def by (drule bits_inj) simp

lemma byte_step_byte_inj: "byte_step x a = byte_step x b \<Longrightarrow> a = b"
  unfolding byte_step_def
  by (drule bits_inj) (simp add: inject_inj)

lemma run_append: "run crc (xs @ ys) = run (run crc xs) ys"
  by (simp add: run_def)

lemma run_inj: "run x data = run y data \<Longrightarrow> x = y"
  by (induction data arbitrary: x y) (auto simp: run_def dest: byte_step_state_inj)

text \<open>Replacing one byte, wherever it stands, always changes the checksum.\<close>

lemma single_byte_error:
  assumes "a \<noteq> b"
  shows "run crc (xs @ a # ys) \<noteq> run crc (xs @ b # ys)"
proof
  assume "run crc (xs @ a # ys) = run crc (xs @ b # ys)"
  then have "run (byte_step (run crc xs) a) ys = run (byte_step (run crc xs) b) ys"
    by (simp add: run_append run_def)
  then have "byte_step (run crc xs) a = byte_step (run crc xs) b" by (rule run_inj)
  then have "a = b" by (rule byte_step_byte_inj)
  with assms show False by simp
qed

end

lemma ucast_u8_inj:
  assumes "8 \<le> LENGTH('a::len)" and "(ucast a :: 'a word) = ucast (b :: u8)"
  shows "a = b"
proof -
  have "unat (ucast x :: 'a word) = unat x" for x :: u8
  proof -
    have "(2::nat) ^ 8 \<le> 2 ^ LENGTH('a)" using assms(1) by (rule power_increasing) simp
    then have "unat x < 2 ^ LENGTH('a)" by (intro less_le_trans [OF unat_u8_less]) simp
    then show ?thesis by (simp add: unsigned_ucast_eq take_bit_nat_eq_self_iff)
  qed
  then show ?thesis using assms(2) by (metis unsigned_word_eqI)
qed

lemma crc16Modbus_bit_inj: "crc16Modbus_bit x = crc16Modbus_bit y \<Longrightarrow> x = y"
  unfolding crc16Modbus_bit_def Let_def by (rule lsb_step_inj [where poly = "0xA001"]) simp

lemma crc16CcittFalse_bit_inj: "crc16CcittFalse_bit x = crc16CcittFalse_bit y \<Longrightarrow> x = y"
  unfolding crc16CcittFalse_bit_def Let_def
  by (rule msb_step_inj [where poly = "0x1021" and hi = "0x8000"]) simp_all

lemma crc32Ieee_bit_inj: "crc32Ieee_bit x = crc32Ieee_bit y \<Longrightarrow> x = y"
  unfolding crc32Ieee_bit_def Let_def by (rule lsb_step_inj [where poly = "0xEDB88320"]) simp

lemma push_ucast_u8_inj: "push_bit 8 (ucast (a :: u8) :: u16) = push_bit 8 (ucast b) \<Longrightarrow> a = b"
proof -
  assume eq: "push_bit 8 (ucast a :: u16) = push_bit 8 (ucast b)"
  show "a = b"
  proof (rule bit_word_eqI)
    fix n assume n: "n < LENGTH(8)"
    have "bit (push_bit 8 (ucast a :: u16)) (n + 8) = bit (push_bit 8 (ucast b :: u16)) (n + 8)"
      using eq by simp
    then show "bit a n = bit b n" using n by (simp add: bit_push_bit_iff bit_ucast_iff)
  qed
qed

interpretation modbus: crc_engine crc16Modbus_bit "ucast :: u8 \<Rightarrow> u16"
  by unfold_locales (auto dest: crc16Modbus_bit_inj ucast_u8_inj [rotated])

interpretation ccitt: crc_engine crc16CcittFalse_bit "\<lambda>b. push_bit 8 (ucast b :: u16)"
  by unfold_locales (auto dest: crc16CcittFalse_bit_inj push_ucast_u8_inj)

interpretation crc32: crc_engine crc32Ieee_bit "ucast :: u8 \<Rightarrow> u32"
  by unfold_locales (auto dest: crc32Ieee_bit_inj ucast_u8_inj [rotated])

lemma crc16Modbus_run: "crc16Modbus data = modbus.run 0xFFFF data"
  by (simp add: crc16Modbus_def modbus.run_def modbus.byte_step_def [abs_def])

lemma crc16CcittFalse_run: "crc16CcittFalse data = ccitt.run 0xFFFF data"
  by (simp add: crc16CcittFalse_def ccitt.run_def ccitt.byte_step_def [abs_def])

lemma crc32Ieee_run: "crc32Ieee data = crc32.run 0xFFFFFFFF data XOR 0xFFFFFFFF"
  by (simp add: crc32Ieee_def crc32.run_def crc32.byte_step_def [abs_def])

subsection \<open>HEX round trips\<close>

lemma char_code_char_of [simp]: "n < 256 \<Longrightarrow> char_code (char_of n) = n"
  by (simp add: char_code_def of_char_of)

lemma nibble_cases: "n < 16 \<Longrightarrow> n \<in> {15, 7, 11, 3, 13, 5, 9, 1, 14, 6, 10, 2, 12, 4, 8, 0 :: nat}"
  by (simp only: insert_iff empty_iff) arith

lemma hex_table_nibble: "n < 16 \<Longrightarrow> hexNibble (hex_table ! n) = int n"
  by (drule nibble_cases) (elim insertE emptyE; simp add: hex_table_def hexNibble_def char_code_def)

lemma hex_table_not_space: "n < 16 \<Longrightarrow> \<not> c_isspace (hex_table ! n)"
  by (drule nibble_cases) (elim insertE emptyE; simp add: hex_table_def c_isspace_def char_code_def)

lemma hex_table_upper: "n < 16 \<Longrightarrow> hex_table ! n = upper_hex_char (int n)"
  by (drule nibble_cases) (elim insertE emptyE; simp add: hex_table_def upper_hex_char_def flip: char_code_inj; simp add: char_code_def)

lemma unat_low_nibble: "unat (b AND 0x0F :: u8) = unat b mod 16"
proof -
  have "b AND 0x0F = take_bit 4 b" by (simp add: take_bit_eq_mask mask_eq_exp_minus_1)
  then show ?thesis by (simp add: take_bit_eq_mod unat_mod)
qed

lemma unat_high_nibble: "unat (drop_bit 4 b :: u8) = unat b div 16"
  by (simp add: drop_bit_eq_div unat_div)

lemma hexNibble_hex_digit: "hexNibble (hex_digit b) = int (unat b mod 16)"
  by (simp add: hex_digit_def unat_low_nibble hex_table_nibble)

lemma hex_digit_not_space [simp]: "\<not> c_isspace (hex_digit b)"
  by (simp add: hex_digit_def unat_low_nibble hex_table_not_space)

lemma high_nibble_mod [simp]: "unat (b :: u8) div 16 mod 16 = unat b div 16"
  using unat_u8_less [of b] by (simp add: less_mult_imp_div_less)

lemma byte_of_nibbles [simp]:
  "(word_of_int (int (unat b div 16) * 16 + int (unat b mod 16)) :: u8) = b"
proof -
  have "int (unat b div 16) * 16 + int (unat b mod 16) = int (unat b)"
    by (simp flip: of_nat_mult of_nat_add add: zdiv_int zmod_int)
  then show ?thesis by simp
qed

lemma isspace_blank [simp]: "c_isspace CHR '' ''"
  by (simp add: c_isspace_def char_code_def)

lemma compact_bytesToHex: "compact_text (bytesToHex bs sp) = bytesToHex bs False"
  by (induction bs sp rule: bytesToHex.induct) (auto simp: compact_text_def)

lemma length_bytesToHex_False: "length (bytesToHex bs False) = 2 * length bs"
  by (induction bs) auto

lemma hex_pairs_bytesToHex: "hex_pairs (bytesToHex bs False) = Some bs"
  by (induction bs) (simp_all add: Let_def hexNibble_hex_digit unat_high_nibble del: of_int_add of_int_mult)

lemma hexToBytes_bytesToHex [roundtrip_simps]: "hexToBytes (bytesToHex bs sp) = Some bs"
proof (cases "bs = []")
  case True
  then show ?thesis by (simp add: hexToBytes_def compact_text_def)
next
  case False
  then have "bytesToHex bs False \<noteq> []" using length_bytesToHex_False [of bs] by auto
  then show ?thesis
    by (simp add: hexToBytes_def compact_bytesToHex length_bytesToHex_False hex_pairs_bytesToHex)
qed

subsection \<open>The HEX editor normalisation\<close>

text \<open>The digits of a text, in upper case: what the scan collects.\<close>

definition hex_digits :: "string \<Rightarrow> string" where
  "hex_digits text = map (\<lambda>c. upper_hex_char (hexNibble c)) (filter (\<lambda>c. 0 \<le> hexNibble c) text)"

lemma hex_digits_simps [simp]:
  "hex_digits [] = []"
  "hex_digits (c # cs) =
     (if 0 \<le> hexNibble c then upper_hex_char (hexNibble c) # hex_digits cs else hex_digits cs)"
  by (auto simp: hex_digits_def)

lemma hex_digits_append [simp]: "hex_digits (xs @ ys) = hex_digits xs @ hex_digits ys"
  by (simp add: hex_digits_def)

lemma hexNibble_less: "hexNibble c < 16"
  by (simp add: hexNibble_def Let_def)

lemma hexNibble_not_space: "0 \<le> hexNibble c \<Longrightarrow> \<not> c_isspace c"
  by (auto simp: hexNibble_def c_isspace_def Let_def split: if_splits)

lemma hexNibble_space [simp]: "hexNibble CHR '' '' = -1"
  by (simp add: hexNibble_def char_code_def)

lemma hexNibble_upper [simp]: "0 \<le> v \<Longrightarrow> v < 16 \<Longrightarrow> hexNibble (upper_hex_char v) = v"
  using hex_table_nibble [of "nat v"] hex_table_upper [of "nat v"] by simp

lemma countHexDigits_filter: "countHexDigits text = length (hex_digits text)"
  by (induction "text") auto

lemma hex_digits_all: "c \<in> set (hex_digits text) \<Longrightarrow> 0 \<le> hexNibble c \<and> upper_hex_char (hexNibble c) = c"
  by (auto simp: hex_digits_def hexNibble_less)

lemma hex_digits_id:
  "(\<And>c. c \<in> set ds \<Longrightarrow> 0 \<le> hexNibble c \<and> upper_hex_char (hexNibble c) = c) \<Longrightarrow> hex_digits ds = ds"
  by (induction ds) auto

lemma hex_digits_idem [simp]: "hex_digits (hex_digits text) = hex_digits text"
  by (rule hex_digits_id) (rule hex_digits_all)

lemma normalize_scan_eq:
  "normalize_scan text i c = (hex_digits text, countHexDigits (take (c - i) text))"
proof (induction "text" i c rule: normalize_scan.induct)
  case (2 ch s index cursorPos)
  have space: "hexNibble ch < 0" if "c_isspace ch"
    using that hexNibble_not_space [of ch] by force
  have take: "cursorPos - Suc index = n" if "cursorPos - index = Suc n" for n
    using that by simp
  show ?case using "2"
    by (cases "cursorPos - index") (auto simp: Let_def take dest: space split: prod.splits)
qed auto

lemma group_pairs_parity [simp]: "group_pairs (Suc (Suc i)) cs = group_pairs i cs"
  by (induction i cs rule: group_pairs.induct) auto

lemma group_pairs_two:
  "group_pairs 0 (a # b # cs) = a # b # (if cs = [] then [] else CHR '' '' # group_pairs 0 cs)"
  using group_pairs_parity [of 0 cs] by (simp add: numeral_2_eq_2)

lemma hex_digits_group_pairs [simp]: "hex_digits (group_pairs i cs) = hex_digits cs"
  by (induction i cs rule: group_pairs.induct) auto

lemma group_pairs_eq_Nil [simp]: "group_pairs i cs = [] \<longleftrightarrow> cs = []"
  by (cases cs) auto

lemma normalizeHexText_eq: "normalizeHexText text = group_pairs 0 (hex_digits text)"
  by (simp add: normalizeHexText_def normalizeHexEditorInput_def normalize_scan_eq Let_def)

lemma group_pairs_bytesToHex: "group_pairs 0 (bytesToHex bs False) = bytesToHex bs True"
proof (induction bs)
  case (Cons b bs)
  have "bytesToHex bs False = [] \<longleftrightarrow> bs = []" by (cases bs) auto
  then show ?case using Cons by (simp add: group_pairs_two del: group_pairs.simps(2))
qed simp

lemma compact_digits: "hex_digits (compact_text text) = hex_digits text"
  by (induction "text") (auto simp: compact_text_def dest: hexNibble_not_space)

lemma upper_hex_char_table: "0 \<le> v \<Longrightarrow> v < 16 \<Longrightarrow> upper_hex_char v = hex_table ! nat v"
  using hex_table_upper [of "nat v"] by simp

lemma byte_nibbles:
  assumes "0 \<le> high" "high < 16" "0 \<le> low" "low < 16"
  shows "unat (word_of_int (high * 16 + low) :: u8) div 16 = nat high"
    and "unat (word_of_int (high * 16 + low) :: u8) mod 16 = nat low"
proof -
  have "unat (word_of_int (high * 16 + low) :: u8) = nat (high * 16 + low)"
    using assms by (simp add: unsigned_of_int take_bit_eq_mod del: of_int_add of_int_mult)
  moreover have "nat (high * 16 + low) = nat high * 16 + nat low"
    using assms by (simp add: nat_add_distrib nat_mult_distrib)
  moreover have "nat low < 16" using assms by simp
  ultimately show "unat (word_of_int (high * 16 + low) :: u8) div 16 = nat high"
    and "unat (word_of_int (high * 16 + low) :: u8) mod 16 = nat low"
    by simp_all
qed

lemma hex_pairs_digits: "hex_pairs text = Some bs \<Longrightarrow> hex_digits text = bytesToHex bs False"
proof (induction "text" arbitrary: bs rule: hex_pairs.induct)
  case (3 a b rest)
  have nibbles: "0 \<le> hexNibble a" "0 \<le> hexNibble b"
    using "3.prems" by (auto simp: Let_def split: if_splits)
  then obtain out where out: "hex_pairs rest = Some out"
    and bs: "bs = word_of_int (hexNibble a * 16 + hexNibble b) # out"
    using "3.prems" by (auto simp: Let_def split: if_splits option.splits)
  have "hex_digits rest = bytesToHex out False"
    using "3.IH" nibbles out by simp
  moreover have "nat (hexNibble a) mod 16 = nat (hexNibble a)"
    using nibbles hexNibble_less [of a] by simp
  ultimately show ?case using nibbles
    by (simp add: bs hex_digit_def unat_low_nibble unat_high_nibble byte_nibbles hexNibble_less
        upper_hex_char_table del: of_int_add of_int_mult)
qed auto

lemma hexToBytes_canonical: "hexToBytes text = Some bs \<Longrightarrow> normalizeHexText text = bytesToHex bs True"
proof -
  assume h: "hexToBytes text = Some bs"
  have "hex_pairs (compact_text text) = Some bs"
    using h by (auto simp: hexToBytes_def Let_def split: if_splits)
  then have "hex_digits text = bytesToHex bs False"
    using hex_pairs_digits compact_digits by metis
  then show ?thesis by (simp add: normalizeHexText_eq group_pairs_bytesToHex)
qed

subsection \<open>The editor cursor\<close>

definition cursor_of :: "nat \<Rightarrow> nat" where
  "cursor_of k = (if 0 < k then k + (k - 1) div 2 else k)"

lemma take_group_pairs:
  assumes "\<And>c. c \<in> set ds \<Longrightarrow> 0 \<le> hexNibble c" and "k \<le> length ds"
  shows "countHexDigits (take (cursor_of k) (group_pairs 0 ds)) = k
       \<and> cursor_of k \<le> length (group_pairs 0 ds)"
  using assms
proof (induction ds arbitrary: k rule: induct_list012)
  case 1
  then show ?case by (simp add: cursor_of_def)
next
  case (2 x)
  then show ?case by (cases k) (auto simp: cursor_of_def)
next
  case (3 a b ds)
  show ?case
  proof (cases "k \<le> 2")
    case True
    then have "k = 0 \<or> k = 1 \<or> k = 2" by arith
    then show ?thesis using "3.prems"
      by (elim disjE) (simp_all add: cursor_of_def group_pairs_two numeral_2_eq_2 del: group_pairs.simps(2))
  next
    case False
    then obtain m where k: "k = Suc (Suc (Suc m))" by (metis add_2_eq_Suc' le_Suc_ex not_less_eq_eq numeral_2_eq_2 plus_nat.simps(2) add.commute)
    have cur: "cursor_of k = Suc (Suc (Suc (cursor_of (Suc m))))" by (simp add: k cursor_of_def)
    have ds: "ds \<noteq> []" "Suc m \<le> length ds" using "3.prems" k by auto
    have IH: "countHexDigits (take (cursor_of (Suc m)) (group_pairs 0 ds)) = Suc m
       \<and> cursor_of (Suc m) \<le> length (group_pairs 0 ds)"
      using "3.IH"(1) "3.prems" ds by simp
    show ?thesis using IH ds "3.prems" k
      unfolding cur by (simp add: group_pairs_two del: group_pairs.simps(2))
  qed
qed

lemma countHexDigits_take_le: "countHexDigits (take n text) \<le> countHexDigits text"
proof -
  have "hex_digits text = hex_digits (take n text) @ hex_digits (drop n text)"
    by (metis append_take_drop_id hex_digits_append)
  then show ?thesis by (simp add: countHexDigits_filter)
qed

lemma normalizeHexEditorInput_eq:
  "normalizeHexEditorInput text cursorPos =
     \<lparr>hn_text = group_pairs 0 (hex_digits text),
      hn_cursorPos = cursor_of (countHexDigits (take cursorPos text)),
      hn_digitCount = countHexDigits text\<rparr>"
  using countHexDigits_take_le [of cursorPos "text"]
  by (auto simp: normalizeHexEditorInput_def normalize_scan_eq Let_def cursor_of_def
      countHexDigits_filter min_absorb1)

lemma normalize_cursor_stable:
  "countHexDigits (take (hn_cursorPos (normalizeHexEditorInput text cursorPos))
                        (hn_text (normalizeHexEditorInput text cursorPos)))
     = countHexDigits (take cursorPos text) \<and>
   hn_cursorPos (normalizeHexEditorInput text cursorPos)
     \<le> length (hn_text (normalizeHexEditorInput text cursorPos))"
proof -
  have "countHexDigits (take cursorPos text) \<le> length (hex_digits text)"
    using countHexDigits_take_le by (simp add: countHexDigits_filter)
  moreover have "0 \<le> hexNibble c" if "c \<in> set (hex_digits text)" for c
    using that hex_digits_all by blast
  ultimately show ?thesis
    using take_group_pairs by (simp add: normalizeHexEditorInput_eq)
qed

lemma normalizeHexText_idem: "normalizeHexText (normalizeHexText text) = normalizeHexText text"
  by (simp add: normalizeHexText_eq)

subsection \<open>Evaluating the checksums\<close>

lemma funpow_8: "(f ^^ 8) x = f (f (f (f (f (f (f (f x)))))))"
  by (simp add: numeral_eq_Suc)

lemma crc16Modbus_bit_eval:
  "crc16Modbus_bit (numeral n) = (if (numeral n :: u16) AND 1 \<noteq> 0
     then drop_bit 1 (numeral n) XOR 0xA001 else drop_bit 1 (numeral n))"
  "crc16Modbus_bit 0 = 0" "crc16Modbus_bit 1 = 0xA001"
  by (simp_all add: crc16Modbus_bit_def)

lemma crc16CcittFalse_bit_eval:
  "crc16CcittFalse_bit (numeral n) = (if (numeral n :: u16) AND 0x8000 \<noteq> 0
     then push_bit 1 (numeral n) XOR 0x1021 else push_bit 1 (numeral n))"
  "crc16CcittFalse_bit 0 = 0" "crc16CcittFalse_bit 1 = 2"
  by (simp_all add: crc16CcittFalse_bit_def)

lemma crc32Ieee_bit_eval:
  "crc32Ieee_bit (numeral n) = (if (numeral n :: u32) AND 1 \<noteq> 0
     then drop_bit 1 (numeral n) XOR 0xEDB88320 else drop_bit 1 (numeral n))"
  "crc32Ieee_bit 0 = 0" "crc32Ieee_bit 1 = 0xEDB88320"
  by (simp_all add: crc32Ieee_bit_def)

lemmas crc_eval = crc16Modbus_def crc16CcittFalse_def crc32Ieee_def funpow_8
  crc16Modbus_bit_eval crc16CcittFalse_bit_eval crc32Ieee_bit_eval

subsection \<open>Properties\<close>

text \<open>The three checksum routines give the published check values of CRC-16/MODBUS,
  CRC-16/CCITT-FALSE and CRC-32/IEEE on the ASCII digits 1 to 9.\<close>

theorem crc_check_values:
  "crc16Modbus (map byte_of_char ''123456789'') = 0x4B37 \<and>
   crc16CcittFalse (map byte_of_char ''123456789'') = 0x29B1 \<and>
   crc32Ieee (map byte_of_char ''123456789'') = 0xCBF43926"
  by (simp add: crc_eval byte_of_char_def)

text \<open>C15: Replacing one byte of a message, wherever it stands, changes each of the three
  checksums.\<close>

theorem crc_detects_byte:
  assumes "a \<noteq> b"
  shows "crc16Modbus (xs @ a # ys) \<noteq> crc16Modbus (xs @ b # ys) \<and>
    crc16CcittFalse (xs @ a # ys) \<noteq> crc16CcittFalse (xs @ b # ys) \<and>
    crc32Ieee (xs @ a # ys) \<noteq> crc32Ieee (xs @ b # ys)"
  using modbus.single_byte_error [OF assms, of "0xFFFF" xs ys]
    ccitt.single_byte_error [OF assms, of "0xFFFF" xs ys]
    crc32.single_byte_error [OF assms, of "0xFFFFFFFF" xs ys]
  by (simp add: crc16Modbus_run crc16CcittFalse_run crc32Ieee_run)

theorem crc_detects_byte_witness:
  "crc16Modbus ([0x01, 0x03] @ 0x10 # [0x02]) \<noteq> crc16Modbus ([0x01, 0x03] @ 0x11 # [0x02])"
  using crc_detects_byte [of "0x10" "0x11" "[0x01, 0x03]" "[0x02]"] by simp

text \<open>\<open>hexToBytes\<close> reads back what \<open>bytesToHex\<close> prints, with and without the blanks
  between the bytes.\<close>

theorem hex_roundtrip: "hexToBytes (bytesToHex bs withSpace) = Some bs"
  by (rule hexToBytes_bytesToHex)

text \<open>A text that \<open>hexToBytes\<close> accepts is normalised to the canonical printing of its bytes,
  so two texts of the same bytes have one normal form.\<close>

theorem hex_canonical:
  assumes "hexToBytes text = Some bs"
  shows "normalizeHexText text = bytesToHex bs True"
  using assms by (rule hexToBytes_canonical)

theorem hex_canonical_witness: "normalizeHexText ''0a fF'' = bytesToHex [0x0A, 0xFF] True"
  by (rule hex_canonical)
     (simp add: hexToBytes_def compact_text_def c_isspace_def hexNibble_def char_code_def)

text \<open>Normalising the editor's text keeps the number of HEX digits in front of the cursor, keeps
  the cursor inside the text, counts the digits, and a second normalisation changes
  nothing.\<close>

theorem hex_editor_cursor:
  "let n = normalizeHexEditorInput text cursorPos in
     countHexDigits (take (hn_cursorPos n) (hn_text n)) = countHexDigits (take cursorPos text) \<and>
     hn_cursorPos n \<le> length (hn_text n) \<and>
     hn_digitCount n = countHexDigits text \<and> countHexDigits (hn_text n) = countHexDigits text \<and>
     normalizeHexText (hn_text n) = hn_text n"
  using normalize_cursor_stable [of "text" cursorPos]
  by (simp add: Let_def normalizeHexEditorInput_eq countHexDigits_filter normalizeHexText_eq)

end
