(* ===== verification/Ring_Buffer.thy ===== *)
theory Ring_Buffer
  imports PS_Base
begin

text \<open>
  \<open>ByteRingBuffer\<close> of \<open>src/src/scripting/frame_stream_parser.cc\<close>: the circular byte
  store under the frame parser. The state is the C++ object's (\<open>storage_\<close>, \<open>head_\<close>,
  \<open>size_\<close>); the operations keep the wrap-around copies of the code. The locale
  \<open>byte_fifo\<close> states what the parser relies on (a bounded FIFO of bytes that
  reports how many bytes it dropped), and the ring buffer is its interpretation.
  \<open>None\<close> is the \<open>std::out_of_range\<close> exception of \<open>at\<close>.
\<close>

subsection \<open>The operations\<close>

record ring =
  rb_storage :: bytes
  rb_head :: nat
  rb_size :: nat

definition ByteRingBuffer :: "nat \<Rightarrow> ring" where
  "ByteRingBuffer capacity = \<lparr>rb_storage = replicate capacity 0, rb_head = 0, rb_size = 0\<rparr>"

definition rb_reset :: "ring \<Rightarrow> ring" where
  "rb_reset r = r\<lparr>rb_head := 0, rb_size := 0\<rparr>"

definition rb_capacity :: "ring \<Rightarrow> nat" where
  "rb_capacity r = length (rb_storage r)"

definition rb_empty :: "ring \<Rightarrow> bool" where
  "rb_empty r \<longleftrightarrow> rb_size r = 0"

definition rb_at :: "ring \<Rightarrow> nat \<Rightarrow> u8 option" where
  "rb_at r index =
     (if rb_size r \<le> index \<or> rb_storage r = [] then None
      else Some (rb_storage r ! ((rb_head r + index) mod length (rb_storage r))))"

text \<open>The loop that reads \<open>at(offset + 0), at(offset + 1), ...\<close>; an exception ends it.\<close>

fun rb_read_loop :: "ring \<Rightarrow> nat \<Rightarrow> nat \<Rightarrow> bytes option" where
  "rb_read_loop r offset 0 = Some []"
| "rb_read_loop r offset (Suc n) =
     (case rb_at r offset of
        None \<Rightarrow> None
      | Some b \<Rightarrow> map_option (\<lambda>bs. b # bs) (rb_read_loop r (Suc offset) n))"

definition rb_ensureCapacity :: "ring \<Rightarrow> nat \<Rightarrow> ring option" where
  "rb_ensureCapacity r capacity =
     (if capacity \<le> length (rb_storage r) then Some r
      else case rb_read_loop r 0 (rb_size r) of
             None \<Rightarrow> None
           | Some bs \<Rightarrow>
               Some (r\<lparr>rb_storage := bs @ replicate (capacity - rb_size r) 0, rb_head := 0\<rparr>))"

text \<open>\<open>std::copy_n(src, n, dst + pos)\<close> inside the bounds of \<open>dst\<close>.\<close>

definition copy_n_into :: "bytes \<Rightarrow> nat \<Rightarrow> bytes \<Rightarrow> bytes" where
  "copy_n_into dst pos src = take pos dst @ src @ drop (pos + length src) dst"

definition rb_appendContiguous :: "ring \<Rightarrow> bytes \<Rightarrow> ring" where
  "rb_appendContiguous r src =
     (let count = length src in
      if count = 0 \<or> rb_storage r = [] then r
      else
        let bufferCapacity = length (rb_storage r);
            tail = (rb_head r + rb_size r) mod bufferCapacity;
            firstCount = min count (bufferCapacity - tail);
            storage1 = copy_n_into (rb_storage r) tail (take firstCount src);
            storage2 = (if firstCount < count then copy_n_into storage1 0 (drop firstCount src)
                        else storage1)
        in r\<lparr>rb_storage := storage2, rb_size := min bufferCapacity (rb_size r + count)\<rparr>)"

definition rb_discardFront :: "ring \<Rightarrow> nat \<Rightarrow> ring" where
  "rb_discardFront r count =
     (let actual = min count (rb_size r) in
      if actual = 0 \<or> rb_storage r = [] then r
      else r\<lparr>rb_head := (rb_head r + actual) mod length (rb_storage r),
             rb_size := rb_size r - actual\<rparr>)"

definition rb_append :: "ring \<Rightarrow> bytes \<Rightarrow> bool \<Rightarrow> ring \<times> nat" where
  "rb_append r data dropOldest =
     (let bufferCapacity = length (rb_storage r) in
      if bufferCapacity = 0 then (r, length data)
      else if data = [] then (r, 0)
      else if \<not> dropOldest then
        let freeSpace = bufferCapacity - rb_size r;
            accepted = min freeSpace (length data)
        in (rb_appendContiguous r (take accepted data), length data - accepted)
      else if bufferCapacity \<le> length data then
        (rb_appendContiguous (r\<lparr>rb_head := 0, rb_size := 0\<rparr>)
           (drop (length data - bufferCapacity) data),
         length data - bufferCapacity + rb_size r)
      else if bufferCapacity - rb_size r < length data then
        let dropped = length data - (bufferCapacity - rb_size r)
        in (rb_appendContiguous (rb_discardFront r dropped) data, dropped)
      else (rb_appendContiguous r data, 0))"

definition rb_slice :: "ring \<Rightarrow> nat \<Rightarrow> nat \<Rightarrow> bytes option" where
  "rb_slice r offset count =
     (if rb_size r \<le> offset \<or> count = 0 then Some []
      else rb_read_loop r offset (min count (rb_size r - offset)))"

text \<open>
  \<open>linearRead\<close> returns a view: the bytes it shows (\<open>None\<close> for the null pointer of the
  default view) and whether they were copied into the scratch vector.
\<close>

record linear_view =
  lv_data :: "bytes option"
  lv_copied :: bool

definition lv_bytes :: "linear_view \<Rightarrow> bytes" where
  "lv_bytes v = (case lv_data v of None \<Rightarrow> [] | Some bs \<Rightarrow> bs)"

definition rb_linearRead :: "ring \<Rightarrow> nat \<Rightarrow> nat \<Rightarrow> linear_view" where
  "rb_linearRead r offset count =
     (if rb_size r \<le> offset \<or> count = 0 \<or> rb_storage r = []
      then \<lparr>lv_data = None, lv_copied = False\<rparr>
      else
        let actual = min count (rb_size r - offset);
            start = (rb_head r + offset) mod length (rb_storage r);
            contiguous = min actual (length (rb_storage r) - start)
        in if contiguous = actual
           then \<lparr>lv_data = Some (take actual (drop start (rb_storage r))), lv_copied = False\<rparr>
           else \<lparr>lv_data = Some (take contiguous (drop start (rb_storage r)) @
                                 take (actual - contiguous) (rb_storage r)),
                 lv_copied = True\<rparr>)"

subsection \<open>The interface: a bounded FIFO of bytes\<close>

datatype fifo_op = FifoAppend bytes | FifoDiscard nat

locale byte_fifo =
  fixes invar :: "'q \<Rightarrow> bool"
    and contents :: "'q \<Rightarrow> bytes"
    and capacity :: "'q \<Rightarrow> nat"
    and append :: "'q \<Rightarrow> bytes \<Rightarrow> bool \<Rightarrow> 'q \<times> nat"
    and discard :: "'q \<Rightarrow> nat \<Rightarrow> 'q"
  assumes contents_bound: "invar q \<Longrightarrow> length (contents q) \<le> capacity q"
    and append_invar: "invar q \<Longrightarrow> invar (fst (append q bs mode))"
    and append_capacity: "invar q \<Longrightarrow> capacity (fst (append q bs mode)) = capacity q"
    and append_lossless: "invar q \<Longrightarrow>
        contents (fst (append q bs False)) = take (capacity q) (contents q @ bs)"
    and append_drop_oldest: "invar q \<Longrightarrow>
        contents (fst (append q bs True))
          = drop (length (contents q) + length bs - capacity q) (contents q @ bs)"
    and append_dropped: "invar q \<Longrightarrow>
        snd (append q bs mode) = length (contents q) + length bs - capacity q"
    and discard_invar: "invar q \<Longrightarrow> invar (discard q n)"
    and discard_capacity: "invar q \<Longrightarrow> capacity (discard q n) = capacity q"
    and discard_contents: "invar q \<Longrightarrow> contents (discard q n) = drop n (contents q)"
begin

text \<open>No byte is lost without being counted.\<close>

lemma append_conserves:
  "invar q \<Longrightarrow> length (contents (fst (append q bs mode))) + snd (append q bs mode)
     = length (contents q) + length bs"
  using contents_bound [of q]
  by (cases mode) (auto simp: append_lossless append_drop_oldest append_dropped)

lemma append_fits:
  "invar q \<Longrightarrow> length (contents q) + length bs \<le> capacity q \<Longrightarrow>
     contents (fst (append q bs mode)) = contents q @ bs \<and> snd (append q bs mode) = 0"
  by (cases mode) (auto simp: append_lossless append_drop_oldest append_dropped)

lemma discard_length: "invar q \<Longrightarrow> length (contents (discard q n)) = length (contents q) - n"
  by (simp add: discard_contents)

text \<open>
  A run of operations in one overflow mode; the second and third components count the
  dropped and the discarded bytes.
\<close>

fun run :: "bool \<Rightarrow> fifo_op list \<Rightarrow> 'q \<Rightarrow> 'q \<times> nat \<times> nat" where
  "run mode [] q = (q, 0, 0)"
| "run mode (FifoAppend bs # ops) q =
     (case append q bs mode of (q', d) \<Rightarrow>
      case run mode ops q' of (q'', dropped, gone) \<Rightarrow> (q'', d + dropped, gone))"
| "run mode (FifoDiscard n # ops) q =
     (case run mode ops (discard q n) of (q'', dropped, gone) \<Rightarrow>
        (q'', dropped, min n (length (contents q)) + gone))"

fun appended :: "fifo_op list \<Rightarrow> nat" where
  "appended [] = 0"
| "appended (FifoAppend bs # ops) = length bs + appended ops"
| "appended (FifoDiscard n # ops) = appended ops"

lemma run_conserves:
  "invar q \<Longrightarrow> run mode ops q = (q', dropped, gone) \<Longrightarrow>
     invar q' \<and> capacity q' = capacity q \<and>
     length (contents q) + appended ops = length (contents q') + dropped + gone"
proof (induction ops arbitrary: q q' dropped gone)
  case (Cons op ops)
  show ?case
  proof (cases op)
    case (FifoAppend bs)
    obtain q1 d where q1: "append q bs mode = (q1, d)" by fastforce
    obtain dr go where rest: "run mode ops q1 = (q', dr, go)" "dropped = d + dr" "gone = go"
      using Cons.prems(2) FifoAppend q1 by (auto split: prod.splits)
    have "invar q1" "capacity q1 = capacity q"
      "length (contents q1) + d = length (contents q) + length bs"
      using append_invar [of q bs mode] append_capacity [of q bs mode]
        append_conserves [of q bs mode] Cons.prems(1) q1 by simp_all
    then show ?thesis using Cons.IH [OF _ rest(1)] rest FifoAppend by simp
  next
    case (FifoDiscard n)
    obtain dr go where rest: "run mode ops (discard q n) = (q', dr, go)" "dropped = dr"
      "gone = min n (length (contents q)) + go"
      using Cons.prems(2) FifoDiscard by (auto split: prod.splits)
    then show ?thesis
      using Cons.IH [OF discard_invar rest(1)] Cons.prems(1) FifoDiscard
      by (auto simp: discard_capacity discard_contents)
  qed
qed simp

end

subsection \<open>The ring buffer is such a FIFO\<close>

definition rb_wf :: "ring \<Rightarrow> bool" where
  "rb_wf r \<longleftrightarrow> rb_size r \<le> length (rb_storage r) \<and>
     (rb_head r < length (rb_storage r) \<or> rb_storage r = [])"

definition rb_contents :: "ring \<Rightarrow> bytes" where
  "rb_contents r =
     map (\<lambda>i. rb_storage r ! ((rb_head r + i) mod length (rb_storage r))) [0..<rb_size r]"

lemma length_rb_contents [simp]: "length (rb_contents r) = rb_size r"
  by (simp add: rb_contents_def)

lemma rb_contents_nth:
  "i < rb_size r \<Longrightarrow>
     rb_contents r ! i = rb_storage r ! ((rb_head r + i) mod length (rb_storage r))"
  by (simp add: rb_contents_def)

lemma ByteRingBuffer_wf [wf_intros]: "rb_wf (ByteRingBuffer n)"
  by (cases n) (auto simp: rb_wf_def ByteRingBuffer_def)

lemma rb_reset_wf [wf_intros]: "rb_wf r \<Longrightarrow> rb_wf (rb_reset r)"
  by (auto simp: rb_wf_def rb_reset_def)

lemma rb_contents_new [simp]: "rb_contents (ByteRingBuffer n) = []"
  by (simp add: rb_contents_def ByteRingBuffer_def)

lemma rb_contents_reset [simp]: "rb_contents (rb_reset r) = []"
  by (simp add: rb_contents_def rb_reset_def)

lemma length_copy_n_into:
  "pos + length src \<le> length dst \<Longrightarrow> length (copy_n_into dst pos src) = length dst"
  by (simp add: copy_n_into_def)

lemma nth_copy_n_into:
  "pos + length src \<le> length dst \<Longrightarrow> j < length dst \<Longrightarrow>
     copy_n_into dst pos src ! j =
       (if pos \<le> j \<and> j < pos + length src then src ! (j - pos) else dst ! j)"
  by (auto simp: copy_n_into_def nth_append)

lemma mod_wrap: "(a::nat) < c + c \<Longrightarrow> a mod c = (if a < c then a else a - c)"
  by (auto simp: mod_if)

text \<open>What the two copies of \<open>appendContiguous\<close> leave at each ring position.\<close>

definition wrapped_copy :: "bytes \<Rightarrow> nat \<Rightarrow> bytes \<Rightarrow> bytes" where
  "wrapped_copy st tail src =
     (let first = min (length src) (length st - tail);
          st1 = copy_n_into st tail (take first src)
      in if first < length src then copy_n_into st1 0 (drop first src) else st1)"

lemma length_wrapped_copy:
  "tail < length st \<Longrightarrow> length src \<le> length st \<Longrightarrow> length (wrapped_copy st tail src) = length st"
  by (auto simp: wrapped_copy_def Let_def length_copy_n_into)

lemma nth_wrapped_copy:
  assumes "tail < length st" "length src \<le> length st" "j < length st"
  shows "wrapped_copy st tail src ! j =
    (if tail \<le> j \<and> j < tail + length src then src ! (j - tail)
     else if j + length st < tail + length src then src ! (j + length st - tail)
     else st ! j)"
proof -
  let ?first = "min (length src) (length st - tail)"
  let ?st1 = "copy_n_into st tail (take ?first src)"
  have st1: "length ?st1 = length st"
    "?st1 ! j = (if tail \<le> j \<and> j < tail + ?first then src ! (j - tail) else st ! j)"
    using assms by (auto simp: length_copy_n_into nth_copy_n_into intro!: nth_take)
  show ?thesis
  proof (cases "?first < length src")
    case False
    then show ?thesis using st1 assms by (auto simp: wrapped_copy_def Let_def min_def split: if_splits)
  next
    case True
    then have first: "?first = length st - tail" by simp
    have "copy_n_into ?st1 0 (drop ?first src) ! j =
        (if j < length src - ?first then src ! (?first + j) else ?st1 ! j)"
      using st1(1) assms first by (subst nth_copy_n_into) auto
    moreover have "wrapped_copy st tail src = copy_n_into ?st1 0 (drop ?first src)"
      using True by (simp only: wrapped_copy_def Let_def if_True)
    ultimately show ?thesis using st1 assms first True
      by (auto simp: add.commute intro!: arg_cong [where f = "(!) src"])
  qed
qed

lemma rb_appendContiguous_eq:
  assumes "rb_storage r \<noteq> []" "src \<noteq> []"
  shows "rb_appendContiguous r src =
    r\<lparr>rb_storage := wrapped_copy (rb_storage r)
         ((rb_head r + rb_size r) mod length (rb_storage r)) src,
      rb_size := min (length (rb_storage r)) (rb_size r + length src)\<rparr>"
  using assms by (simp add: rb_appendContiguous_def wrapped_copy_def Let_def)

lemma rb_appendContiguous_spec:
  assumes wf: "rb_wf r" and fits: "rb_size r + length src \<le> length (rb_storage r)"
  shows "rb_wf (rb_appendContiguous r src)
    \<and> length (rb_storage (rb_appendContiguous r src)) = length (rb_storage r)
    \<and> rb_contents (rb_appendContiguous r src) = rb_contents r @ src"
proof (cases "src = []")
  case True
  then show ?thesis using wf by (simp add: rb_appendContiguous_def)
next
  case False
  let ?cap = "length (rb_storage r)"
  let ?tail = "(rb_head r + rb_size r) mod ?cap"
  have cap: "0 < ?cap" "rb_storage r \<noteq> []" using False fits by auto
  then have head: "rb_head r < ?cap" using wf by (auto simp: rb_wf_def)
  have tail: "?tail < ?cap" using cap by simp
  have count: "length src \<le> ?cap" using fits by simp
  let ?r = "rb_appendContiguous r src"
  have r: "rb_storage ?r = wrapped_copy (rb_storage r) ?tail src" "rb_head ?r = rb_head r"
    "rb_size ?r = rb_size r + length src"
    using fits by (simp_all add: rb_appendContiguous_eq [OF cap(2) False])
  have len: "length (rb_storage ?r) = ?cap" using r tail count by (simp add: length_wrapped_copy)
  have wf': "rb_wf ?r" using fits head len r by (simp add: rb_wf_def)
  have "rb_contents ?r = rb_contents r @ src"
  proof (rule nth_equalityI)
    show "length (rb_contents ?r) = length (rb_contents r @ src)" using r by simp
  next
    fix i assume "i < length (rb_contents ?r)"
    then have i: "i < rb_size r + length src" using r by simp
    define p where "p = (rb_head r + i) mod ?cap"
    define t where "t = ?tail"
    have pos: "p < ?cap" using cap by (simp add: p_def)
    have at: "rb_contents ?r ! i = wrapped_copy (rb_storage r) t src ! p"
      using i r len by (simp add: rb_contents_nth p_def t_def)
    note written = nth_wrapped_copy [OF tail [folded t_def] count pos]
    have w1: "p = (if rb_head r + i < ?cap then rb_head r + i else rb_head r + i - ?cap)"
      unfolding p_def using head i fits by (intro mod_wrap) simp
    have w2: "t = (if rb_head r + rb_size r < ?cap then rb_head r + rb_size r
                       else rb_head r + rb_size r - ?cap)"
      unfolding t_def using head fits by (intro mod_wrap) simp
    show "rb_contents ?r ! i = (rb_contents r @ src) ! i"
    proof (cases "i < rb_size r")
      case True
      have "\<not> (t \<le> p \<and> p < t + length src)" "\<not> p + ?cap < t + length src"
        unfolding w1 w2 using True head i fits by auto
      then have "wrapped_copy (rb_storage r) t src ! p = rb_storage r ! p"
        using written by auto
      then show ?thesis using True at by (simp add: nth_append rb_contents_nth p_def)
    next
      case False
      have "(t \<le> p \<and> p - t = i - rb_size r) \<or> (p < t \<and> p + ?cap - t = i - rb_size r)"
        unfolding w1 w2 using False head i fits by auto
      then have "wrapped_copy (rb_storage r) t src ! p = src ! (i - rb_size r)"
        using False i written by auto
      then show ?thesis using False i at by (simp add: nth_append)
    qed
  qed
  then show ?thesis using wf' len by simp
qed

lemma rb_discardFront_spec:
  assumes wf: "rb_wf r"
  shows "rb_wf (rb_discardFront r n)
    \<and> length (rb_storage (rb_discardFront r n)) = length (rb_storage r)
    \<and> rb_contents (rb_discardFront r n) = drop n (rb_contents r)"
proof (cases "min n (rb_size r) = 0 \<or> rb_storage r = []")
  case True
  then have "n = 0 \<or> rb_size r = 0" using wf by (auto simp: rb_wf_def min_def split: if_splits)
  then show ?thesis using True wf by (auto simp: rb_discardFront_def Let_def rb_contents_def)
next
  case False
  let ?r = "rb_discardFront r n"
  let ?cap = "length (rb_storage r)"
  have r: "rb_storage ?r = rb_storage r" "rb_head ?r = (rb_head r + min n (rb_size r)) mod ?cap"
    "rb_size ?r = rb_size r - min n (rb_size r)"
    using False by (auto simp: rb_discardFront_def Let_def)
  have "rb_contents ?r = drop n (rb_contents r)"
  proof (rule nth_equalityI)
    show "length (rb_contents ?r) = length (drop n (rb_contents r))" using r by simp
  next
    fix i assume "i < length (rb_contents ?r)"
    then have i: "i < rb_size r - n" "min n (rb_size r) = n" using r by auto
    then show "rb_contents ?r ! i = drop n (rb_contents r) ! i"
      using r by (simp add: rb_contents_nth mod_simps add.assoc)
  qed
  moreover have "rb_wf ?r" using wf False r by (auto simp: rb_wf_def)
  ultimately show ?thesis using r by simp
qed

lemma rb_wf_reset_positions: "rb_wf r \<Longrightarrow> rb_wf (r\<lparr>rb_head := 0, rb_size := 0\<rparr>)"
  by (auto simp: rb_wf_def)

lemma rb_contents_reset_positions [simp]: "rb_contents (r\<lparr>rb_head := 0, rb_size := 0\<rparr>) = []"
  by (simp add: rb_contents_def)

lemma rb_append_spec:
  assumes wf: "rb_wf r"
  shows "rb_wf (fst (rb_append r bs mode))
    \<and> length (rb_storage (fst (rb_append r bs mode))) = length (rb_storage r)
    \<and> snd (rb_append r bs mode) = rb_size r + length bs - length (rb_storage r)
    \<and> rb_contents (fst (rb_append r bs mode)) =
        (if mode then drop (rb_size r + length bs - length (rb_storage r)) (rb_contents r @ bs)
         else take (length (rb_storage r)) (rb_contents r @ bs))"
proof -
  let ?cap = "length (rb_storage r)"
  have size: "rb_size r \<le> ?cap" using wf by (simp add: rb_wf_def)
  consider (empty) "?cap = 0" | (nil) "?cap \<noteq> 0" "bs = []"
    | (lossless) "?cap \<noteq> 0" "bs \<noteq> []" "\<not> mode"
    | (window) "?cap \<noteq> 0" "bs \<noteq> []" "mode" "?cap \<le> length bs"
    | (evict) "?cap \<noteq> 0" "bs \<noteq> []" "mode" "length bs < ?cap" "?cap - rb_size r < length bs"
    | (fits) "?cap \<noteq> 0" "bs \<noteq> []" "mode" "length bs < ?cap" "length bs \<le> ?cap - rb_size r"
    by fastforce
  then show ?thesis
  proof cases
    case empty
    then show ?thesis using wf size by (auto simp: rb_append_def Let_def rb_contents_def)
  next
    case nil
    then show ?thesis using wf size by (auto simp: rb_append_def Let_def)
  next
    case lossless
    let ?acc = "min (?cap - rb_size r) (length bs)"
    have "rb_append r bs mode = (rb_appendContiguous r (take ?acc bs), length bs - ?acc)"
      using lossless by (simp add: rb_append_def Let_def)
    then show ?thesis
      using rb_appendContiguous_spec [OF wf, of "take ?acc bs"] size lossless
      by (auto simp: min_def)
  next
    case window
    then show ?thesis
      using rb_appendContiguous_spec [OF rb_wf_reset_positions [OF wf], of "drop (length bs - ?cap) bs"] size
      by (auto simp: rb_append_def Let_def)
  next
    case evict
    let ?d = "length bs - (?cap - rb_size r)"
    have "rb_append r bs mode = (rb_appendContiguous (rb_discardFront r ?d) bs, ?d)"
      using evict by (simp add: rb_append_def Let_def)
    moreover note disc = rb_discardFront_spec [OF wf, of ?d]
    moreover have "rb_size (rb_discardFront r ?d) = rb_size r - ?d"
      using disc by (metis length_drop length_rb_contents)
    ultimately show ?thesis
      using rb_appendContiguous_spec [of "rb_discardFront r ?d" bs] size evict
      by (auto simp: add.commute)
  next
    case fits
    then show ?thesis
      using rb_appendContiguous_spec [OF wf, of bs] size by (auto simp: rb_append_def Let_def)
  qed
qed

interpretation rb: byte_fifo rb_wf rb_contents rb_capacity rb_append rb_discardFront
proof unfold_locales
  fix q assume "rb_wf q"
  then show "length (rb_contents q) \<le> rb_capacity q" by (simp add: rb_wf_def rb_capacity_def)
qed (use rb_append_spec rb_discardFront_spec in \<open>simp_all add: rb_capacity_def\<close>)

subsection \<open>Reading and growing\<close>

lemma rb_at_contents:
  "rb_wf r \<Longrightarrow> rb_at r i = (if i < rb_size r then Some (rb_contents r ! i) else None)"
  by (auto simp: rb_at_def rb_contents_nth rb_wf_def)

lemma rb_read_loop_contents:
  "rb_wf r \<Longrightarrow> offset + n \<le> rb_size r \<Longrightarrow>
     rb_read_loop r offset n = Some (take n (drop offset (rb_contents r)))"
proof (induction n arbitrary: offset)
  case (Suc n)
  have "drop offset (rb_contents r) = rb_contents r ! offset # drop (Suc offset) (rb_contents r)"
    using Suc.prems by (simp add: Cons_nth_drop_Suc)
  then show ?case using Suc by (simp add: rb_at_contents)
qed simp

lemma rb_slice_contents:
  "rb_wf r \<Longrightarrow> rb_slice r offset count = Some (take count (drop offset (rb_contents r)))"
  by (auto simp: rb_slice_def rb_read_loop_contents min_def)

lemma split_view:
  "(if min a (length xs - s) = a then take a (drop s xs)
    else take (min a (length xs - s)) (drop s xs) @ take (a - min a (length xs - s)) xs)
   = take a (drop s xs) @ take (a - (length xs - s)) xs"
  by (auto simp: min_def)

lemma rb_linearRead_contents:
  assumes wf: "rb_wf r"
  shows "lv_bytes (rb_linearRead r offset count) = take count (drop offset (rb_contents r))"
proof (cases "rb_size r \<le> offset \<or> count = 0 \<or> rb_storage r = []")
  case True
  then show ?thesis using wf by (auto simp: rb_linearRead_def lv_bytes_def rb_wf_def)
next
  case False
  let ?cap = "length (rb_storage r)"
  let ?actual = "min count (rb_size r - offset)"
  let ?start = "(rb_head r + offset) mod ?cap"
  have start: "?start < ?cap" using False by simp
  have size: "rb_size r \<le> ?cap" using wf by (simp add: rb_wf_def)
  have view: "lv_bytes (rb_linearRead r offset count) =
      take ?actual (drop ?start (rb_storage r)) @ take (?actual - (?cap - ?start)) (rb_storage r)"
    using False by (subst split_view [symmetric]) (simp add: rb_linearRead_def lv_bytes_def Let_def)
  have "take ?actual (drop ?start (rb_storage r)) @ take (?actual - (?cap - ?start)) (rb_storage r)
      = take count (drop offset (rb_contents r))"
  proof (rule nth_equalityI)
    show "length (take ?actual (drop ?start (rb_storage r)) @ take (?actual - (?cap - ?start)) (rb_storage r))
        = length (take count (drop offset (rb_contents r)))"
      using start size by (auto simp: min_def)
  next
    fix i assume "i < length (take ?actual (drop ?start (rb_storage r)) @ take (?actual - (?cap - ?start)) (rb_storage r))"
    then have i: "i < ?actual" using start size by (auto simp: min_def split: if_splits)
    have "(rb_head r + (offset + i)) mod ?cap = (?start + i) mod ?cap"
      by (simp add: mod_simps add.assoc)
    also have "\<dots> = (if ?start + i < ?cap then ?start + i else ?start + i - ?cap)"
      using start i size by (intro mod_wrap add_strict_mono) auto
    finally have idx: "(rb_head r + (offset + i)) mod ?cap
        = (if ?start + i < ?cap then ?start + i else ?start + i - ?cap)" .
    have "take count (drop offset (rb_contents r)) ! i = rb_contents r ! (offset + i)"
      using i False by simp
    also have "\<dots> = rb_storage r ! (if ?start + i < ?cap then ?start + i else ?start + i - ?cap)"
      unfolding idx [symmetric] using i by (intro rb_contents_nth) linarith
    finally show "(take ?actual (drop ?start (rb_storage r)) @ take (?actual - (?cap - ?start)) (rb_storage r)) ! i
        = take count (drop offset (rb_contents r)) ! i"
      using i start size by (auto simp: nth_append min_def add.commute split: if_splits)
  qed
  with view show ?thesis by simp
qed

lemma rb_ensureCapacity_spec:
  assumes wf: "rb_wf r"
  shows "\<exists>r'. rb_ensureCapacity r n = Some r' \<and> rb_wf r' \<and> rb_contents r' = rb_contents r
    \<and> rb_size r' = rb_size r \<and> length (rb_storage r') = max n (length (rb_storage r))"
proof (cases "n \<le> length (rb_storage r)")
  case True
  then show ?thesis using wf by (simp add: rb_ensureCapacity_def)
next
  case False
  have size: "rb_size r \<le> length (rb_storage r)" using wf by (simp add: rb_wf_def)
  let ?r = "r\<lparr>rb_storage := rb_contents r @ replicate (n - rb_size r) 0, rb_head := 0\<rparr>"
  have "rb_ensureCapacity r n = Some ?r"
    using False rb_read_loop_contents [OF wf, of 0 "rb_size r"]
    by (simp add: rb_ensureCapacity_def)
  moreover have "rb_contents ?r = rb_contents r"
    using False size by (intro nth_equalityI) (auto simp: rb_contents_nth nth_append)
  ultimately show ?thesis using False size by (auto simp: rb_wf_def)
qed

subsection \<open>Properties\<close>

text \<open>C14: A ring buffer built by the constructor conserves bytes over any sequence of appends and
  discards: what was appended is stored, was reported as dropped, or was discarded by
  the caller, and the capacity never changes.\<close>

theorem ring_conserves_bytes:
  assumes "rb.run mode ops (ByteRingBuffer capacity) = (r, dropped, discarded)"
  shows "rb_capacity r = capacity \<and> rb_size r \<le> capacity \<and>
    rb.appended ops = rb_size r + dropped + discarded"
proof -
  have start: "rb_wf (ByteRingBuffer capacity)" "rb_contents (ByteRingBuffer capacity) = []"
    by (auto simp: rb_wf_def ByteRingBuffer_def rb_contents_def)
  from rb.run_conserves [OF start(1) assms] show ?thesis
    by (auto simp: start(2) rb_wf_def rb_capacity_def ByteRingBuffer_def)
qed

theorem ring_conserves_bytes_witness:
  "rb.appended [FifoAppend [1, 2, 3], FifoDiscard 1, FifoAppend [4, 5, 6]]
     = (let (r, dropped, discarded) =
          rb.run True [FifoAppend [1, 2, 3], FifoDiscard 1, FifoAppend [4, 5, 6]] (ByteRingBuffer 4)
        in rb_size r + dropped + discarded)"
proof -
  obtain r dropped discarded where run:
    "rb.run True [FifoAppend [1, 2, 3], FifoDiscard 1, FifoAppend [4, 5, 6]] (ByteRingBuffer 4)
       = (r, dropped, discarded)" by (metis prod_cases3)
  then show ?thesis using ring_conserves_bytes [OF run] by simp
qed

text \<open>What a reader sees after an append: with \<open>dropOldest\<close> the newest bytes of the old
  contents followed by the new ones, without it the oldest, in a buffer of unchanged
  capacity; and the view \<open>linearRead\<close> is the requested slice of these, wherever the ring
  wraps.\<close>

theorem ring_append_read:
  assumes "rb_wf r"
  shows "let r' = fst (rb_append r bs dropOldest); stream = rb_contents r @ bs in
    rb_wf r' \<and> snd (rb_append r bs dropOldest) = length stream - rb_capacity r \<and>
    lv_bytes (rb_linearRead r' offset count) =
      take count (drop offset
        (if dropOldest then drop (length stream - rb_capacity r) stream
         else take (rb_capacity r) stream))"
  using rb_append_spec [OF assms, of bs dropOldest]
  by (simp add: rb_linearRead_contents rb_capacity_def)

theorem ring_append_read_witness:
  "lv_bytes (rb_linearRead (fst (rb_append (ByteRingBuffer 2) [1, 2, 3] True)) 0 5) = [2, 3]"
proof -
  have "rb_wf (ByteRingBuffer 2)" by (auto simp: rb_wf_def ByteRingBuffer_def)
  from ring_append_read [OF this, of "[1, 2, 3]" True 0 5] show ?thesis
    by (simp add: Let_def rb_contents_def rb_capacity_def ByteRingBuffer_def)
qed

end
