(* ===== verification/Ieee754.thy ===== *)
theory Ieee754
  imports PS_Base
begin

text \<open>
  The IEEE 754 values the code computes with. A \<open>double\<close> is its 64-bit pattern and a
  \<open>float\<close> its 32-bit pattern, as \<open>std::bit_cast\<close> sees them. Modelled are the
  operations the modelled components use: the classification \<open>std::isfinite\<close>, the
  comparisons, the conversion of a size to \<open>double\<close>, the division of two
  non-negative values and the widening of a \<open>float\<close>, all with round to nearest,
  ties to even. Widening a NaN keeps its payload and sets the quiet bit.
\<close>

type_synonym f64 = u64
type_synonym f32 = u32

subsection \<open>Fields and classification\<close>

definition f64_sign :: "f64 \<Rightarrow> bool" where
  "f64_sign b \<longleftrightarrow> 2 ^ 63 \<le> unat b"

definition f64_magnitude :: "f64 \<Rightarrow> nat" where
  "f64_magnitude b = unat b mod 2 ^ 63"

definition f64_exponent :: "f64 \<Rightarrow> nat" where
  "f64_exponent b = f64_magnitude b div 2 ^ 52"

definition f64_mantissa :: "f64 \<Rightarrow> nat" where
  "f64_mantissa b = unat b mod 2 ^ 52"

definition f64_isfinite :: "f64 \<Rightarrow> bool" where
  "f64_isfinite b \<longleftrightarrow> f64_exponent b < 2047"

definition f64_isnan :: "f64 \<Rightarrow> bool" where
  "f64_isnan b \<longleftrightarrow> 2047 * 2 ^ 52 < f64_magnitude b"

subsection \<open>Comparison\<close>

text \<open>
  The order of the non-NaN values is the order of the signed magnitudes; the two zeros
  have the same one. Every comparison with a NaN is false.
\<close>

definition f64_key :: "f64 \<Rightarrow> int" where
  "f64_key b = (if f64_sign b then - int (f64_magnitude b) else int (f64_magnitude b))"

definition f64_less :: "f64 \<Rightarrow> f64 \<Rightarrow> bool" where
  "f64_less a b \<longleftrightarrow> \<not> f64_isnan a \<and> \<not> f64_isnan b \<and> f64_key a < f64_key b"

definition f64_le :: "f64 \<Rightarrow> f64 \<Rightarrow> bool" where
  "f64_le a b \<longleftrightarrow> \<not> f64_isnan a \<and> \<not> f64_isnan b \<and> f64_key a \<le> f64_key b"

lemma f64_isfinite_not_nan: "f64_isfinite b \<Longrightarrow> \<not> f64_isnan b"
proof -
  assume "f64_isfinite b"
  then have "f64_magnitude b div 2 ^ 52 < 2047" by (simp add: f64_isfinite_def f64_exponent_def)
  then show ?thesis by (simp add: f64_isnan_def div_less_iff_less_mult)
qed

lemma f64_less_irrefl: "\<not> f64_less a a"
  by (simp add: f64_less_def)

lemma f64_less_trans: "f64_less a b \<Longrightarrow> f64_less b c \<Longrightarrow> f64_less a c"
  by (simp add: f64_less_def)

lemma f64_less_asym: "f64_less a b \<Longrightarrow> \<not> f64_less b a"
  by (simp add: f64_less_def)

subsection \<open>Rounding a ratio to the nearest double\<close>

fun ilog2 :: "nat \<Rightarrow> nat" where
  "ilog2 n = (if n \<le> 1 then 0 else Suc (ilog2 (n div 2)))"

declare ilog2.simps [simp del]

lemma ilog2_bounds: "0 < n \<Longrightarrow> 2 ^ ilog2 n \<le> n \<and> n < 2 ^ Suc (ilog2 n)"
proof (induction n rule: ilog2.induct)
  case (1 n)
  show ?case
  proof (cases "n \<le> 1")
    case True
    then show ?thesis using "1.prems" by (simp add: ilog2.simps)
  next
    case False
    then have IH: "2 ^ ilog2 (n div 2) \<le> n div 2" "n div 2 < 2 ^ Suc (ilog2 (n div 2))"
      using "1.IH" by simp_all
    have "ilog2 n = Suc (ilog2 (n div 2))" using False by (simp add: ilog2.simps)
    moreover have "2 * (n div 2) \<le> n" "n < 2 * (n div 2) + 2" by presburger+
    ultimately show ?thesis using IH by simp
  qed
qed

definition round_up :: "nat \<Rightarrow> nat \<Rightarrow> nat \<Rightarrow> bool" where
  "round_up q r d \<longleftrightarrow> d < 2 * r \<or> (2 * r = d \<and> odd q)"

definition round_half_even :: "nat \<Rightarrow> nat \<Rightarrow> nat" where
  "round_half_even n d = (if round_up (n div d) (n mod d) d then Suc (n div d) else n div d)"

text \<open>
  \<open>f64_of_ratio s n d\<close> is the double nearest to \<open>n / d\<close> with sign \<open>s\<close>. The binary
  exponent is bounded below by the subnormal range; adding the significand to the
  exponent field carries into it where rounding reaches the next power of two.
\<close>

definition scaled_le :: "nat \<Rightarrow> int \<Rightarrow> nat \<Rightarrow> bool" where
  "scaled_le d k n \<longleftrightarrow> (if 0 \<le> k then d * 2 ^ nat k \<le> n else d \<le> n * 2 ^ nat (- k))"

definition exponent_from :: "nat \<Rightarrow> nat \<Rightarrow> int \<Rightarrow> int" where
  "exponent_from n d k = max (if scaled_le d k n then k else k - 1) (-1022)"

definition significand :: "nat \<Rightarrow> nat \<Rightarrow> int \<Rightarrow> nat" where
  "significand n d e =
     (if 52 \<le> e then round_half_even n (d * 2 ^ nat (e - 52))
      else round_half_even (n * 2 ^ nat (52 - e)) d)"

definition f64_pack :: "bool \<Rightarrow> int \<Rightarrow> nat \<Rightarrow> f64" where
  "f64_pack s e q =
     word_of_nat ((if s then 2 ^ 63 else 0) + min (nat (e + 1022) * 2 ^ 52 + q) (2047 * 2 ^ 52))"

definition f64_round_at :: "bool \<Rightarrow> nat \<Rightarrow> nat \<Rightarrow> int \<Rightarrow> f64" where
  "f64_round_at s n d e = f64_pack s e (significand n d e)"

definition f64_of_ratio :: "bool \<Rightarrow> nat \<Rightarrow> nat \<Rightarrow> f64" where
  "f64_of_ratio s n d =
     (if n = 0 then word_of_nat (if s then 2 ^ 63 else 0)
      else f64_round_at s n d (exponent_from n d (int (ilog2 n) - int (ilog2 d))))"

lemmas f64_round_eval =
  round_up_def round_half_even_def scaled_le_def exponent_from_def significand_def
  f64_pack_def f64_round_at_def f64_of_ratio_def ilog2.simps

text \<open>\<open>static_cast<double>\<close> of a \<open>size_t\<close>.\<close>

definition f64_of_nat :: "nat \<Rightarrow> f64" where
  "f64_of_nat n = f64_of_ratio False n 1"

text \<open>The exact value of a non-negative finite double, as numerator and denominator.\<close>

definition ratio_of_fields :: "nat \<Rightarrow> nat \<Rightarrow> nat \<times> nat" where
  "ratio_of_fields e m =
     (if e = 0 then (m, 2 ^ 1074) else ((2 ^ 52 + m) * 2 ^ (e - 1075), 2 ^ (1075 - e)))"

definition f64_ratio :: "f64 \<Rightarrow> nat \<times> nat" where
  "f64_ratio b = ratio_of_fields (f64_exponent b) (f64_mantissa b)"

text \<open>Division of non-negative finite doubles by a positive one.\<close>

fun divide_ratios :: "nat \<times> nat \<Rightarrow> nat \<times> nat \<Rightarrow> f64" where
  "divide_ratios (na, da) (nb, db) = f64_of_ratio False (na * db) (da * nb)"

definition f64_divide :: "f64 \<Rightarrow> f64 \<Rightarrow> f64" where
  "f64_divide a b = divide_ratios (f64_ratio a) (f64_ratio b)"

lemmas f64_field_eval =
  f64_magnitude_def f64_exponent_def f64_mantissa_def f64_sign_def f64_isfinite_def f64_isnan_def
  f64_key_def f64_less_def f64_le_def f64_ratio_def ratio_of_fields_def f64_divide_def
  f64_of_nat_def

subsection \<open>Widening a float\<close>

definition widen_fields :: "bool \<Rightarrow> nat \<Rightarrow> nat \<Rightarrow> f64" where
  "widen_fields s e m =
     (if e = 255 then
        (if m = 0 then word_of_nat ((if s then 2 ^ 63 else 0) + 2047 * 2 ^ 52)
         else word_of_nat ((if s then 2 ^ 63 else 0) + 2047 * 2 ^ 52 + 2 ^ 51 + (m mod 2 ^ 22) * 2 ^ 29))
      else if e = 0 then f64_of_ratio s m (2 ^ 149)
      else f64_of_ratio s ((2 ^ 23 + m) * 2 ^ (e - 150)) (2 ^ (150 - e)))"

definition f32_to_f64 :: "f32 \<Rightarrow> f64" where
  "f32_to_f64 b =
     widen_fields (2 ^ 31 \<le> unat b) (unat b mod 2 ^ 31 div 2 ^ 23) (unat b mod 2 ^ 23)"

end
