(* ===== verification/Stream_Types.thy ===== *)
theory Stream_Types
  imports PS_Base Ieee754 "HOL-Library.Signed_Division"
begin

text \<open>
  The data model of the schema-driven frame parser
  (\<open>src/include/protoscope/scripting/frame_stream_parser.hpp\<close>): value types with their
  table of widths, decoded field values, count expressions, frame and buffer
  definitions, parsed frames, errors, events and the result batch; and the integer
  helpers at the head of \<open>frame_stream_parser.cc\<close> with their overflow checks.

  Message texts are the constructors of \<open>parse_msg\<close>, one for every string literal of
  the code (with the name the code appends to it, where it does).
\<close>

subsection \<open>Value types\<close>

datatype StreamValueType =
    U8 | I8 | U16Be | U16Le | I16Be | I16Le | U32Be | U32Le | I32Be | I32Le | F32Be | F32Le | Bytes

record type_info =
  ti_type :: StreamValueType
  ti_name :: string
  ti_width :: nat
  ti_isFloat :: bool
  ti_isSigned :: bool
  ti_littleEndian :: bool

definition type_row ::
  "StreamValueType \<Rightarrow> string \<Rightarrow> nat \<Rightarrow> bool \<Rightarrow> bool \<Rightarrow> bool \<Rightarrow> type_info" where
  "type_row t n w fl sg le =
     \<lparr>ti_type = t, ti_name = n, ti_width = w, ti_isFloat = fl, ti_isSigned = sg,
      ti_littleEndian = le\<rparr>"

definition kStreamValueTypes :: "type_info list" where
  "kStreamValueTypes =
    [type_row U8 ''u8'' 1 False False False,
     type_row I8 ''i8'' 1 False True False,
     type_row U16Be ''u16_be'' 2 False False False,
     type_row U16Le ''u16_le'' 2 False False True,
     type_row I16Be ''i16_be'' 2 False True False,
     type_row I16Le ''i16_le'' 2 False True True,
     type_row U32Be ''u32_be'' 4 False False False,
     type_row U32Le ''u32_le'' 4 False False True,
     type_row I32Be ''i32_be'' 4 False True False,
     type_row I32Le ''i32_le'' 4 False True True,
     type_row F32Be ''f32_be'' 4 True False False,
     type_row F32Le ''f32_le'' 4 True False True,
     type_row Bytes ''bytes'' 1 False False False]"

definition streamValueTypeInfo :: "StreamValueType \<Rightarrow> type_info" where
  "streamValueTypeInfo type =
     (case find (\<lambda>info. ti_type info = type) kStreamValueTypes of
        Some info \<Rightarrow> info
      | None \<Rightarrow> hd kStreamValueTypes)"

definition streamValueTypeFromName :: "string \<Rightarrow> StreamValueType option" where
  "streamValueTypeFromName name =
     map_option ti_type (find (\<lambda>info. ti_name info = name) kStreamValueTypes)"

definition streamValueTypeName :: "StreamValueType \<Rightarrow> string" where
  "streamValueTypeName type = ti_name (streamValueTypeInfo type)"

definition streamValueWidth :: "StreamValueType \<Rightarrow> nat" where
  "streamValueWidth type = ti_width (streamValueTypeInfo type)"

definition streamValueTypeIsFloat :: "StreamValueType \<Rightarrow> bool" where
  "streamValueTypeIsFloat type = ti_isFloat (streamValueTypeInfo type)"

definition streamValueTypeIsSigned :: "StreamValueType \<Rightarrow> bool" where
  "streamValueTypeIsSigned type = ti_isSigned (streamValueTypeInfo type)"

subsection \<open>Checksum and length declarations\<close>

datatype StreamLengthMeans = Payload | Frame

datatype StreamCrcType = NoCrc | Crc16Modbus | Crc16CcittFalse | Crc32Ieee

datatype StreamCrcOrder = HiLo | LoHi

fun streamCrcWidth :: "StreamCrcType \<Rightarrow> nat" where
  "streamCrcWidth Crc16Modbus = 2"
| "streamCrcWidth Crc16CcittFalse = 2"
| "streamCrcWidth Crc32Ieee = 4"
| "streamCrcWidth NoCrc = 0"

subsection \<open>Field values\<close>

text \<open>The variant \<open>StreamFieldValue::Storage\<close>.\<close>

datatype StreamFieldValue =
    FvInt int
  | FvDouble f64
  | FvInts "int list"
  | FvDoubles "f64 list"
  | FvBytes bytes

type_synonym StreamFieldMap = "string \<rightharpoonup> StreamFieldValue"

fun isIntegerScalar :: "StreamFieldValue \<Rightarrow> bool" where
  "isIntegerScalar (FvInt i) = True"
| "isIntegerScalar _ = False"

fun integerScalar :: "StreamFieldValue \<Rightarrow> int option" where
  "integerScalar (FvInt i) = Some i"
| "integerScalar _ = None"

subsection \<open>Messages and errors\<close>

datatype parse_msg =
    MsgBufferOverflow
  | MsgNoHeader
  | MsgSkippedNoise
  | MsgProfileLengthMissing
  | MsgLengthOffsetOverflow
  | MsgLengthParse
  | MsgLengthExtraOverflow
  | MsgLengthZero
  | MsgLengthOverCapacity
  | MsgLengthTooSmall
  | MsgCrcMismatch
  | MsgRefMissing
  | MsgRefNotNonNegative
  | MsgRefMissingNamed string
  | MsgRefNotIntegerNamed string
  | MsgOperandMissing string
  | MsgDivByZero
  | MsgDivOverflow
  | MsgSubOverflow
  | MsgMulOverflow
  | MsgRemainingUnit
  | MsgRemainingStart
  | MsgIfFlagMissing
  | MsgCaseNoMatch
  | MsgCountNegative
  | MsgCountTooLarge
  | MsgFieldSizeOverflow
  | MsgFieldOutOfPayload
  | MsgChannelMapMissing
  | MsgProfileUnknownFrame string
  | MsgProfileUndeclared string
  | MsgProfileLengthZero
  | MsgProfileLengthOverCapacity
  | MsgProfileTargetIndexRange
  | MsgProfileTargetLuaRange
  | MsgProfileTargetDuplicate
  | MsgProfileAbsent string

datatype StreamParseErrorCode =
    Overflow | NoiseDiscarded | InvalidLength | CrcMismatch | FieldDecodeFailed | CountResolveFailed

fun streamParseErrorCodeName :: "StreamParseErrorCode \<Rightarrow> string" where
  "streamParseErrorCodeName Overflow = ''overflow''"
| "streamParseErrorCodeName NoiseDiscarded = ''noise_discarded''"
| "streamParseErrorCodeName InvalidLength = ''invalid_length''"
| "streamParseErrorCodeName CrcMismatch = ''crc_mismatch''"
| "streamParseErrorCodeName FieldDecodeFailed = ''field_decode_failed''"
| "streamParseErrorCodeName CountResolveFailed = ''count_resolve_failed''"

record StreamParseError =
  pe_code :: StreamParseErrorCode
  pe_message :: parse_msg
  pe_frameName :: "string option"
  pe_droppedBytes :: nat
  pe_raw :: bytes

subsection \<open>Count expressions\<close>

datatype StreamCountExpressionOp =
  OpConstant | OpField | OpDiv | OpSub | OpMul | OpRemaining | OpIfFlag | OpCase | OpBitCount

text \<open>
  \<open>StreamCountExpression\<close>: a null \<open>shared_ptr\<close> is \<open>None\<close>. The last component is the
  list of cases, each a value with its expression.
\<close>

datatype StreamCountExpression = CountExpr
  (ce_op: StreamCountExpressionOp) (ce_value: int) (ce_argument: int) (ce_fieldName: string)
  (ce_excludeCrc: bool)
  (ce_operand: "StreamCountExpression option")
  (ce_argumentExpression: "StreamCountExpression option")
  (ce_thenExpression: "StreamCountExpression option")
  (ce_elseExpression: "StreamCountExpression option")
  (ce_defaultExpression: "StreamCountExpression option")
  (ce_cases: "(int \<times> StreamCountExpression option) list")

record StreamFieldCount =
  fc_fixed :: "nat option"
  fc_fieldName :: "string option"
  fc_expression :: "StreamCountExpression option"

subsection \<open>Schema definitions\<close>

record StreamFieldDefinition =
  sf_name :: string
  sf_type :: StreamValueType
  sf_offset :: "nat option"
  sf_count :: StreamFieldCount

record StreamLengthDefinition =
  ld_offset :: nat
  ld_type :: StreamValueType
  ld_means :: StreamLengthMeans
  ld_extra :: nat

record StreamCrcDefinition =
  cd_type :: StreamCrcType
  cd_order :: StreamCrcOrder

record StreamFrameDefinition =
  fd_name :: string
  fd_header :: bytes
  fd_size :: "nat option"
  fd_len :: "StreamLengthDefinition option"
  fd_crc :: StreamCrcDefinition
  fd_fields :: "StreamFieldDefinition list"
  fd_runtimeProfile :: bool

record StreamBufferDefinition =
  bd_capacity :: nat
  bd_maxCapacity :: nat
  bd_dropOldest :: bool
  bd_nearOverflowThresholdRatio :: f64
  bd_nearOverflowNotify :: bool
  bd_popupEnabled :: bool

record StreamParsedFrame =
  pf_name :: string
  pf_raw :: bytes
  pf_fields :: StreamFieldMap
  pf_crcOk :: bool
  pf_channelMap :: "nat list"

record StreamRuntimeProfile =
  rp_length :: nat
  rp_channelMap :: "nat list"

text \<open>An event names an index into the frames or the errors of its batch.\<close>

datatype StreamParseEvent = EventFrame nat | EventError nat

record StreamParseBatch =
  pb_frames :: "StreamParsedFrame list"
  pb_errors :: "StreamParseError list"
  pb_bufferSize :: nat
  pb_bufferCapacity :: nat
  pb_nearOverflow :: bool
  pb_overflowed :: bool
  pb_droppedBytes :: nat
  pb_events :: "StreamParseEvent list"

record StreamParseOptions =
  po_includeFrameRaw :: bool

subsection \<open>Integer helpers with their overflow checks\<close>

definition checkedAddSize :: "nat \<Rightarrow> nat \<Rightarrow> nat option" where
  "checkedAddSize left right = (if size_max - right < left then None else Some (left + right))"

definition checkedMultiplySize :: "nat \<Rightarrow> nat \<Rightarrow> nat option" where
  "checkedMultiplySize left right =
     (if left \<noteq> 0 \<and> size_max div left < right then None else Some (left * right))"

definition checkedSubtractInt64 :: "int \<Rightarrow> int \<Rightarrow> int option" where
  "checkedSubtractInt64 left right =
     (if (0 < right \<and> left < int64_min + right) \<or> (right < 0 \<and> int64_max + right < left) then None
      else Some (left - right))"

definition checkedMultiplyInt64 :: "int \<Rightarrow> int \<Rightarrow> int option" where
  "checkedMultiplyInt64 left right =
     (if 0 < left \<and>
          ((0 < right \<and> int64_max sdiv right < left) \<or> (right < 0 \<and> right < int64_min sdiv left))
      then None
      else if left < 0 \<and>
          ((0 < right \<and> left < int64_min sdiv right) \<or> (right < 0 \<and> left < int64_max sdiv right))
      then None
      else Some (left * right))"

subsection \<open>Decoding integers and floats\<close>

text \<open>\<open>readUnsignedValue\<close>: byte \<open>index\<close> of the value counted from its low end.\<close>

definition readUnsignedValue :: "bytes \<Rightarrow> nat \<Rightarrow> bool \<Rightarrow> u32" where
  "readUnsignedValue data width littleEndian =
     fold (\<lambda>index value.
             value OR push_bit (index * 8)
               (ucast (data ! (if littleEndian then index else width - index - 1))))
       [0..<width] 0"

definition sign_extend_width :: "nat \<Rightarrow> u32 \<Rightarrow> int option" where
  "sign_extend_width width rawValue =
     (if width = 1 then Some (sint (ucast rawValue :: 8 word))
      else if width = 2 then Some (sint (ucast rawValue :: 16 word))
      else if width = 4 then Some (sint rawValue)
      else None)"

definition decodeInteger :: "bytes \<Rightarrow> nat \<Rightarrow> nat \<Rightarrow> StreamValueType \<Rightarrow> int option" where
  "decodeInteger raw dataSize offset type =
     (let info = streamValueTypeInfo type in
      if ti_isFloat info \<or> type = Bytes \<or> dataSize < offset \<or> dataSize - offset < ti_width info then None
      else
        let rawValue = readUnsignedValue (drop offset raw) (ti_width info) (ti_littleEndian info) in
        if \<not> ti_isSigned info then Some (uint rawValue)
        else sign_extend_width (ti_width info) rawValue)"

definition decodeFloat :: "bytes \<Rightarrow> nat \<Rightarrow> nat \<Rightarrow> StreamValueType \<Rightarrow> f64 option" where
  "decodeFloat rawBytes dataSize offset type =
     (let info = streamValueTypeInfo type in
      if \<not> ti_isFloat info \<or> dataSize < offset \<or> dataSize - offset < ti_width info then None
      else Some (f32_to_f64
             (readUnsignedValue (drop offset rawBytes) (ti_width info) (ti_littleEndian info))))"

definition readCrcValue :: "bytes \<Rightarrow> nat \<Rightarrow> nat \<Rightarrow> StreamCrcOrder \<Rightarrow> u32" where
  "readCrcValue frameBytes frameLength crcWidth order =
     (let start = frameLength - crcWidth in
      case order of
        LoHi \<Rightarrow> fold (\<lambda>index value. value OR push_bit (index * 8) (ucast (frameBytes ! (start + index))))
                  [0..<crcWidth] 0
      | HiLo \<Rightarrow> fold (\<lambda>index value. push_bit 8 value OR ucast (frameBytes ! (start + index)))
                  [0..<crcWidth] 0)"

subsection \<open>The type table\<close>

lemma type_info_eval [simp]:
  "streamValueTypeInfo U8 = type_row U8 ''u8'' 1 False False False"
  "streamValueTypeInfo I8 = type_row I8 ''i8'' 1 False True False"
  "streamValueTypeInfo U16Be = type_row U16Be ''u16_be'' 2 False False False"
  "streamValueTypeInfo U16Le = type_row U16Le ''u16_le'' 2 False False True"
  "streamValueTypeInfo I16Be = type_row I16Be ''i16_be'' 2 False True False"
  "streamValueTypeInfo I16Le = type_row I16Le ''i16_le'' 2 False True True"
  "streamValueTypeInfo U32Be = type_row U32Be ''u32_be'' 4 False False False"
  "streamValueTypeInfo U32Le = type_row U32Le ''u32_le'' 4 False False True"
  "streamValueTypeInfo I32Be = type_row I32Be ''i32_be'' 4 False True False"
  "streamValueTypeInfo I32Le = type_row I32Le ''i32_le'' 4 False True True"
  "streamValueTypeInfo F32Be = type_row F32Be ''f32_be'' 4 True False False"
  "streamValueTypeInfo F32Le = type_row F32Le ''f32_le'' 4 True False True"
  "streamValueTypeInfo Bytes = type_row Bytes ''bytes'' 1 False False False"
  by (simp_all add: streamValueTypeInfo_def kStreamValueTypes_def type_row_def)

lemma type_row_simps [simp]:
  "ti_type (type_row t n w fl sg le) = t" "ti_name (type_row t n w fl sg le) = n"
  "ti_width (type_row t n w fl sg le) = w" "ti_isFloat (type_row t n w fl sg le) = fl"
  "ti_isSigned (type_row t n w fl sg le) = sg" "ti_littleEndian (type_row t n w fl sg le) = le"
  by (simp_all add: type_row_def)

lemma streamValueTypeFromName_Name [roundtrip_simps]:
  "streamValueTypeFromName (streamValueTypeName type) = Some type"
  by (cases type)
     (simp_all add: streamValueTypeFromName_def streamValueTypeName_def kStreamValueTypes_def)

lemma streamValueWidth_bounds: "1 \<le> streamValueWidth type \<and> streamValueWidth type \<le> 4"
  by (cases type) (simp_all add: streamValueWidth_def)

subsection \<open>The checks are exact\<close>

lemma checkedAddSize_iff:
  "right \<le> size_max \<Longrightarrow>
     checkedAddSize left right = (if left + right \<le> size_max then Some (left + right) else None)"
  by (auto simp: checkedAddSize_def)

lemma checkedMultiplySize_iff:
  "checkedMultiplySize left right =
     (if left * right \<le> size_max then Some (left * right) else None)"
proof (cases "left = 0")
  case False
  then have "size_max div left < right \<longleftrightarrow> size_max < left * right"
    by (simp add: div_less_iff_less_mult mult.commute)
  then show ?thesis using False by (auto simp: checkedMultiplySize_def)
qed (simp add: checkedMultiplySize_def)

lemma checkedSubtractInt64_iff:
  assumes "is_int64 left" "is_int64 right"
  shows "checkedSubtractInt64 left right =
           (if is_int64 (left - right) then Some (left - right) else None)"
  using assms by (auto simp: checkedSubtractInt64_def int64_defs)

lemma sdiv_pos_neg: "0 < (a::int) \<Longrightarrow> b < 0 \<Longrightarrow> a sdiv b = - (a div (- b))"
  by (simp add: signed_divide_int_def)

lemma sdiv_neg_pos: "(a::int) < 0 \<Longrightarrow> 0 < b \<Longrightarrow> a sdiv b = - ((- a) div b)"
  by (simp add: signed_divide_int_def)

lemma sdiv_pos_pos: "0 < (a::int) \<Longrightarrow> 0 < b \<Longrightarrow> a sdiv b = a div b"
  by (simp add: signed_divide_int_def)

lemma mult_bound_div:
  assumes "0 < (b::int)"
  shows "c div b < a \<longleftrightarrow> c < a * b"
proof
  assume "c div b < a"
  then have "(c div b + 1) * b \<le> a * b" using assms by simp
  moreover have "c < (c div b + 1) * b"
  proof -
    have "c = (c div b) * b + c mod b" "c mod b < b" using assms by simp_all
    then show ?thesis unfolding distrib_right by linarith
  qed
  ultimately show "c < a * b" by linarith
next
  assume "c < a * b"
  moreover have "c div b * b \<le> c"
    using assms div_mult_mod_eq [of c b] pos_mod_sign [of b c] by linarith
  ultimately have "c div b * b < a * b" by linarith
  then show "c div b < a" using assms by simp
qed

lemma checkedMultiplyInt64_iff:
  assumes l: "is_int64 left" and r: "is_int64 right"
  shows "checkedMultiplyInt64 left right =
           (if is_int64 (left * right) then Some (left * right) else None)"
proof -
  have signs: "int64_min < 0" "0 < int64_max" by (simp_all add: int64_defs)
  consider "left = 0 \<or> right = 0" | (pp) "0 < left" "0 < right" | (pn) "0 < left" "right < 0"
    | (np) "left < 0" "0 < right" | (nn) "left < 0" "right < 0" by linarith
  then show ?thesis
  proof cases
    case 1
    then show ?thesis by (auto simp: checkedMultiplyInt64_def int64_defs)
  next
    case pp
    have "0 < left * right" using pp by simp
    moreover have "int64_max sdiv right < left \<longleftrightarrow> int64_max < left * right"
      using pp signs by (simp add: sdiv_pos_pos mult_bound_div)
    ultimately have "int64_min \<le> left * right" "int64_max sdiv right < left \<longleftrightarrow> int64_max < left * right"
      using signs by linarith+
    then show ?thesis using pp by (auto simp: checkedMultiplyInt64_def is_int64_def)
  next
    case pn
    have "left * right < 0" using pn by (simp add: mult_less_0_iff)
    moreover have "right < int64_min sdiv left \<longleftrightarrow> left * right < int64_min"
      using pn signs mult_bound_div [of left "- int64_min" "- right"]
      by (simp add: sdiv_neg_pos mult.commute) linarith
    ultimately show ?thesis using pn signs by (auto simp: checkedMultiplyInt64_def is_int64_def)
  next
    case np
    have "left * right < 0" using np by (simp add: mult_less_0_iff)
    moreover have "left < int64_min sdiv right \<longleftrightarrow> left * right < int64_min"
      using np signs mult_bound_div [of right "- int64_min" "- left"]
      by (simp add: sdiv_neg_pos) linarith
    ultimately show ?thesis using np signs by (auto simp: checkedMultiplyInt64_def is_int64_def)
  next
    case nn
    have "0 < left * right" using nn by (simp add: mult_neg_neg)
    moreover have "left < int64_max sdiv right \<longleftrightarrow> int64_max < left * right"
      using nn signs mult_bound_div [of "- right" int64_max "- left"]
      by (simp add: sdiv_pos_neg) linarith
    ultimately show ?thesis using nn signs by (auto simp: checkedMultiplyInt64_def is_int64_def)
  qed
qed

end
