(* ===== verification/Count_Expr.thy ===== *)
theory Count_Expr
  imports Stream_Types
begin

text \<open>
  Count expressions of \<open>frame_stream_parser.cc\<close>: the number of elements of a field,
  computed from the fields decoded before it. One definition per helper of the code;
  the sub-expressions a helper evaluates are given to it as closures
  (\<open>count_eval option\<close>, \<open>None\<close> for a null pointer), so that a helper evaluates exactly
  those the code evaluates, in its order. \<open>Inl\<close> is \<open>std::nullopt\<close> with the error text.

  The lemmas show that the overflow checks make every evaluation a legal
  \<open>int64_t\<close> computation, and that a value the evaluator returns is the one the
  expression denotes over the unbounded integers (\<open>count_denotes\<close>).
\<close>

subsection \<open>The evaluator\<close>

record count_context =
  cx_parsed :: StreamFieldMap
  cx_frameLength :: nat
  cx_readableLimit :: nat
  cx_fieldStart :: nat
  cx_fieldWidth :: nat

type_synonym count_result = "parse_msg + int"
type_synonym count_eval = "count_context \<Rightarrow> count_result"

text \<open>\<open>static_cast<std::int64_t>\<close> of a 64-bit unsigned value.\<close>

definition cast_int64 :: "nat \<Rightarrow> int" where
  "cast_int64 n = sint (word_of_nat n :: u64)"

definition streamCountFieldValue :: "StreamFieldMap \<Rightarrow> string \<Rightarrow> count_result" where
  "streamCountFieldValue parsed fieldName =
     (case parsed fieldName of
        None \<Rightarrow> Inl (MsgRefMissingNamed fieldName)
      | Some fv \<Rightarrow>
          (case integerScalar fv of
             None \<Rightarrow> Inl (MsgRefNotIntegerNamed fieldName)
           | Some v \<Rightarrow> Inr v))"

definition evaluateCountOperand :: "count_eval option \<Rightarrow> count_context \<Rightarrow> string \<Rightarrow> count_result"
  where
  "evaluateCountOperand operand ctx opName =
     (case operand of None \<Rightarrow> Inl (MsgOperandMissing opName) | Some ev \<Rightarrow> ev ctx)"

definition evaluateCountArgument :: "count_eval option \<Rightarrow> int \<Rightarrow> count_context \<Rightarrow> count_result" where
  "evaluateCountArgument argumentExpression argument ctx =
     (case argumentExpression of None \<Rightarrow> Inr argument | Some ev \<Rightarrow> ev ctx)"

definition evaluateDivCountExpression ::
  "count_eval option \<Rightarrow> count_eval option \<Rightarrow> int \<Rightarrow> count_context \<Rightarrow> count_result" where
  "evaluateDivCountExpression operand argumentExpression argument ctx =
     (case evaluateCountOperand operand ctx ''div'' of
        Inl e \<Rightarrow> Inl e
      | Inr value \<Rightarrow>
          (case evaluateCountArgument argumentExpression argument ctx of
             Inl e \<Rightarrow> Inl e
           | Inr arg \<Rightarrow>
               if arg = 0 then Inl MsgDivByZero
               else if value = int64_min \<and> arg = -1 then Inl MsgDivOverflow
               else Inr (value sdiv arg)))"

definition evaluateSubCountExpression ::
  "count_eval option \<Rightarrow> int \<Rightarrow> count_context \<Rightarrow> count_result" where
  "evaluateSubCountExpression operand argument ctx =
     (case evaluateCountOperand operand ctx ''sub'' of
        Inl e \<Rightarrow> Inl e
      | Inr value \<Rightarrow>
          (case checkedSubtractInt64 value argument of
             None \<Rightarrow> Inl MsgSubOverflow
           | Some v \<Rightarrow> Inr v))"

definition evaluateMulCountExpression ::
  "count_eval option \<Rightarrow> count_eval option \<Rightarrow> int \<Rightarrow> count_context \<Rightarrow> count_result" where
  "evaluateMulCountExpression operand argumentExpression argument ctx =
     (case evaluateCountOperand operand ctx ''mul'' of
        Inl e \<Rightarrow> Inl e
      | Inr value \<Rightarrow>
          (case evaluateCountArgument argumentExpression argument ctx of
             Inl e \<Rightarrow> Inl e
           | Inr arg \<Rightarrow>
               (case checkedMultiplyInt64 value arg of
                  None \<Rightarrow> Inl MsgMulOverflow
                | Some v \<Rightarrow> Inr v)))"

definition evaluateRemainingCountExpression :: "bool \<Rightarrow> int \<Rightarrow> count_context \<Rightarrow> count_result" where
  "evaluateRemainingCountExpression excludeCrc argument ctx =
     (let limit = (if excludeCrc then cx_readableLimit ctx else cx_frameLength ctx);
          width = (if 0 < argument then nat argument else cx_fieldWidth ctx)
      in if width = 0 then Inl MsgRemainingUnit
         else if limit < cx_fieldStart ctx then Inl MsgRemainingStart
         else Inr (cast_int64 ((limit - cx_fieldStart ctx) div width)))"

text \<open>The test of \<open>if_flag\<close>: the field and the mask have a common bit, both as \<open>uint64_t\<close>.\<close>

definition flag_selected :: "int \<Rightarrow> int \<Rightarrow> bool" where
  "flag_selected value argument \<longleftrightarrow> (word_of_int value :: u64) AND word_of_int argument \<noteq> 0"

definition evaluateIfFlagCountExpression ::
  "string \<Rightarrow> int \<Rightarrow> count_eval option \<Rightarrow> count_eval option \<Rightarrow> count_context \<Rightarrow> count_result" where
  "evaluateIfFlagCountExpression fieldName argument thenExpression elseExpression ctx =
     (case streamCountFieldValue (cx_parsed ctx) fieldName of
        Inl e \<Rightarrow> Inl e
      | Inr value \<Rightarrow>
          (case (if flag_selected value argument then thenExpression else elseExpression) of
             None \<Rightarrow> Inl MsgIfFlagMissing
           | Some ev \<Rightarrow> ev ctx))"

text \<open>The loop over the cases: the first with the value and a non-null expression.\<close>

fun select_case :: "int \<Rightarrow> (int \<times> 'e option) list \<Rightarrow> 'e option" where
  "select_case value [] = None"
| "select_case value ((v, None) # items) = select_case value items"
| "select_case value ((v, Some ev) # items) =
     (if v = value then Some ev else select_case value items)"

definition evaluateCaseCountExpression ::
  "string \<Rightarrow> (int \<times> count_eval option) list \<Rightarrow> count_eval option \<Rightarrow> count_context \<Rightarrow> count_result"
  where
  "evaluateCaseCountExpression fieldName cases defaultExpression ctx =
     (case streamCountFieldValue (cx_parsed ctx) fieldName of
        Inl e \<Rightarrow> Inl e
      | Inr value \<Rightarrow>
          (case select_case value cases of
             Some ev \<Rightarrow> ev ctx
           | None \<Rightarrow>
               (case defaultExpression of
                  Some ev \<Rightarrow> ev ctx
                | None \<Rightarrow> Inl MsgCaseNoMatch)))"

text \<open>\<open>std::popcount\<close> of a \<open>uint64_t\<close>.\<close>

definition popcount :: "u64 \<Rightarrow> nat" where
  "popcount w = length (filter (bit w) [0..<64])"

definition evaluateBitCountExpression :: "count_eval option \<Rightarrow> count_context \<Rightarrow> count_result" where
  "evaluateBitCountExpression operand ctx =
     (case evaluateCountOperand operand ctx ''bit_count'' of
        Inl e \<Rightarrow> Inl e
      | Inr value \<Rightarrow> Inr (int (popcount (word_of_int value))))"

primrec evaluateStreamCountExpression :: "StreamCountExpression \<Rightarrow> count_eval" where
  "evaluateStreamCountExpression
      (CountExpr oper value argument fieldName excludeCrc operand argumentExpression
         thenExpression elseExpression defaultExpression cases) =
     (\<lambda>ctx. case oper of
        OpConstant \<Rightarrow> Inr value
      | OpField \<Rightarrow> streamCountFieldValue (cx_parsed ctx) fieldName
      | OpDiv \<Rightarrow> evaluateDivCountExpression
                  (map_option evaluateStreamCountExpression operand)
                  (map_option evaluateStreamCountExpression argumentExpression) argument ctx
      | OpSub \<Rightarrow> evaluateSubCountExpression
                  (map_option evaluateStreamCountExpression operand) argument ctx
      | OpMul \<Rightarrow> evaluateMulCountExpression
                  (map_option evaluateStreamCountExpression operand)
                  (map_option evaluateStreamCountExpression argumentExpression) argument ctx
      | OpRemaining \<Rightarrow> evaluateRemainingCountExpression excludeCrc argument ctx
      | OpIfFlag \<Rightarrow> evaluateIfFlagCountExpression fieldName argument
                  (map_option evaluateStreamCountExpression thenExpression)
                  (map_option evaluateStreamCountExpression elseExpression) ctx
      | OpCase \<Rightarrow> evaluateCaseCountExpression fieldName
                  (map (map_prod id (map_option evaluateStreamCountExpression)) cases)
                  (map_option evaluateStreamCountExpression defaultExpression) ctx
      | OpBitCount \<Rightarrow> evaluateBitCountExpression
                  (map_option evaluateStreamCountExpression operand) ctx)"

definition resolveFieldCount ::
  "StreamFieldDefinition \<Rightarrow> StreamFieldMap \<Rightarrow> nat \<Rightarrow> nat \<Rightarrow> nat \<Rightarrow> parse_msg + nat" where
  "resolveFieldCount field parsed frameLength readableLimit fieldStart =
     (case fc_fixed (sf_count field) of
        Some n \<Rightarrow> Inr n
      | None \<Rightarrow>
     (case fc_fieldName (sf_count field) of
        Some ref \<Rightarrow>
          (case parsed ref of
             None \<Rightarrow> Inl MsgRefMissing
           | Some fv \<Rightarrow>
               (case integerScalar fv of
                  None \<Rightarrow> Inl MsgRefNotNonNegative
                | Some v \<Rightarrow> if v < 0 then Inl MsgRefNotNonNegative else Inr (nat v)))
      | None \<Rightarrow>
     (case fc_expression (sf_count field) of
        Some expr \<Rightarrow>
          (case evaluateStreamCountExpression expr
                  \<lparr>cx_parsed = parsed, cx_frameLength = frameLength,
                   cx_readableLimit = readableLimit, cx_fieldStart = fieldStart,
                   cx_fieldWidth = streamValueWidth (sf_type field)\<rparr> of
             Inl e \<Rightarrow> Inl e
           | Inr v \<Rightarrow>
               if v < 0 then Inl MsgCountNegative
               else if int size_max < v then Inl MsgCountTooLarge
               else Inr (nat v))
      | None \<Rightarrow> Inr 1)))"

subsection \<open>Every evaluation is an \<open>int64_t\<close> computation\<close>

text \<open>The integers of the program are \<open>int64_t\<close>: those of an expression and of the fields.\<close>

primrec count_int64 :: "StreamCountExpression \<Rightarrow> bool" where
  "count_int64 (CountExpr oper value argument fieldName excludeCrc operand argumentExpression
         thenExpression elseExpression defaultExpression cases) \<longleftrightarrow>
     is_int64 value \<and> is_int64 argument \<and>
     (case map_option count_int64 operand of None \<Rightarrow> True | Some b \<Rightarrow> b) \<and>
     (case map_option count_int64 argumentExpression of None \<Rightarrow> True | Some b \<Rightarrow> b) \<and>
     (case map_option count_int64 thenExpression of None \<Rightarrow> True | Some b \<Rightarrow> b) \<and>
     (case map_option count_int64 elseExpression of None \<Rightarrow> True | Some b \<Rightarrow> b) \<and>
     (case map_option count_int64 defaultExpression of None \<Rightarrow> True | Some b \<Rightarrow> b) \<and>
     list_all (\<lambda>(v, b). is_int64 v \<and> (case b of None \<Rightarrow> True | Some b \<Rightarrow> b))
       (map (map_prod id (map_option count_int64)) cases)"

definition fields_int64 :: "StreamFieldMap \<Rightarrow> bool" where
  "fields_int64 parsed \<longleftrightarrow> (\<forall>name i. parsed name = Some (FvInt i) \<longrightarrow> is_int64 i)"

lemma cast_int64_is_int64 [simp]: "is_int64 (cast_int64 n)"
  using sint_ge [of "word_of_nat n :: u64"] sint_lt [of "word_of_nat n :: u64"]
  by (simp add: cast_int64_def int64_defs)

lemma cast_int64_id: "int n \<le> int64_max \<Longrightarrow> cast_int64 n = int n"
  unfolding cast_int64_def int64_max_def
  by (simp add: signed_of_nat signed_take_bit_int_eq_self_iff)

lemma integerScalar_Some: "integerScalar fv = Some v \<longleftrightarrow> fv = FvInt v"
  by (cases fv) simp_all

lemma streamCountFieldValue_Inr:
  "streamCountFieldValue parsed name = Inr v \<longleftrightarrow> parsed name = Some (FvInt v)"
  by (auto simp: streamCountFieldValue_def integerScalar_Some split: option.splits)

lemma popcount_le: "popcount w \<le> 64"
  using length_filter_le [of "bit w" "[0..<64]"] by (simp add: popcount_def)

lemma sdiv_is_int64:
  assumes "is_int64 a" "is_int64 b" "\<not> (a = int64_min \<and> b = -1)"
  shows "is_int64 (a sdiv b)"
proof -
  have le: "\<bar>a\<bar> div \<bar>b\<bar> \<le> \<bar>a\<bar>" "0 \<le> \<bar>a\<bar> div \<bar>b\<bar>"
    using zdiv_mono2 [of "\<bar>a\<bar>" 1 "\<bar>b\<bar>"] by (cases "b = 0"; simp add: div_int_pos_iff)+
  show ?thesis
  proof (cases "b = -1")
    case True
    then show ?thesis using assms by (auto simp: signed_divide_int_def int64_defs sgn_if)
  next
    case False
    show ?thesis
    proof (cases "\<bar>a\<bar> \<le> int64_max")
      case True
      then show ?thesis using le
        by (auto simp: signed_divide_int_def int64_defs sgn_if abs_if split: if_splits)
    next
      case False
      then have a: "a = int64_min" using assms by (auto simp: int64_defs)
      show ?thesis
      proof (cases "b = 0 \<or> b = 1")
        case True
        then show ?thesis using assms by auto
      next
        case b: False
        then have "2 \<le> \<bar>b\<bar>" using \<open>b \<noteq> -1\<close> by linarith
        then have "\<bar>a\<bar> div \<bar>b\<bar> \<le> \<bar>a\<bar> div 2" by (intro zdiv_mono2) auto
        then show ?thesis using a le
          by (auto simp: signed_divide_int_def int64_defs sgn_if split: if_splits)
      qed
    qed
  qed
qed

text \<open>The contract of a sub-expression handed to a helper.\<close>

definition eval_int64 :: "count_context \<Rightarrow> count_eval \<Rightarrow> bool" where
  "eval_int64 ctx ev \<longleftrightarrow> (\<forall>v. ev ctx = Inr v \<longrightarrow> is_int64 v)"

lemma checkedSubtractInt64_int64:
  "is_int64 a \<Longrightarrow> is_int64 b \<Longrightarrow> checkedSubtractInt64 a b = Some v \<Longrightarrow> is_int64 v"
  by (auto simp: checkedSubtractInt64_iff split: if_splits)

lemma checkedMultiplyInt64_int64:
  "is_int64 a \<Longrightarrow> is_int64 b \<Longrightarrow> checkedMultiplyInt64 a b = Some v \<Longrightarrow> is_int64 v"
  by (auto simp: checkedMultiplyInt64_iff split: if_splits)

lemma operand_int64:
  "pred_option (eval_int64 ctx) operand \<Longrightarrow> evaluateCountOperand operand ctx nm = Inr v \<Longrightarrow> is_int64 v"
  by (auto simp: evaluateCountOperand_def eval_int64_def split: option.splits)

lemma argument_int64:
  "pred_option (eval_int64 ctx) ae \<Longrightarrow> is_int64 a \<Longrightarrow> evaluateCountArgument ae a ctx = Inr v \<Longrightarrow>
     is_int64 v"
  by (auto simp: evaluateCountArgument_def eval_int64_def split: option.splits)

lemma select_case_in:
  "select_case value cases = Some ev \<Longrightarrow> (value, Some ev) \<in> set cases"
  by (induction "value" cases rule: select_case.induct) (auto split: if_splits)

lemmas op_defs = evaluateDivCountExpression_def evaluateSubCountExpression_def
  evaluateMulCountExpression_def evaluateRemainingCountExpression_def
  evaluateIfFlagCountExpression_def evaluateCaseCountExpression_def
  evaluateBitCountExpression_def

lemma evaluate_int64:
  assumes "fields_int64 (cx_parsed ctx)"
  shows "count_int64 expr \<Longrightarrow> evaluateStreamCountExpression expr ctx = Inr v \<Longrightarrow> is_int64 v"
proof (induction expr arbitrary: v)
  case (CountExpr oper val argument fieldName excludeCrc operand argE thenE elseE defE cases)
  have op: "pred_option (eval_int64 ctx) (map_option evaluateStreamCountExpression operand)"
    "pred_option (eval_int64 ctx) (map_option evaluateStreamCountExpression argE)"
    "pred_option (eval_int64 ctx) (map_option evaluateStreamCountExpression thenE)"
    "pred_option (eval_int64 ctx) (map_option evaluateStreamCountExpression elseE)"
    "pred_option (eval_int64 ctx) (map_option evaluateStreamCountExpression defE)"
    using CountExpr.prems(1) CountExpr.IH(1-5)
    by (auto simp: eval_int64_def pred_option_def split: option.splits)
  have cs: "eval_int64 ctx ev"
    if mem: "(w, Some ev) \<in> set (map (map_prod id (map_option evaluateStreamCountExpression)) cases)" for w ev
  proof -
    obtain e where e: "(w, Some e) \<in> set cases" "ev = evaluateStreamCountExpression e"
      using mem by (auto simp: eq_commute [of "Some ev"])
    have "count_int64 e" using CountExpr.prems(1) e(1) by (fastforce simp: list_all_iff)
    then show ?thesis
      using CountExpr.IH(6) [OF e(1), of "Some e" e] e(2) by (simp add: eval_int64_def)
  qed
  note ev = CountExpr.prems(2)
  have ints: "is_int64 val" "is_int64 argument" using CountExpr.prems(1) by simp_all
  have fld: "is_int64 w" if "streamCountFieldValue (cx_parsed ctx) fieldName = Inr w" for w
    using that assms by (auto simp: streamCountFieldValue_Inr fields_int64_def)
  show ?case
  proof (cases oper)
    case OpConstant
    then show ?thesis using ev ints by simp
  next
    case OpField
    then show ?thesis using ev fld by simp
  next
    case OpDiv
    then show ?thesis using ev operand_int64 [OF op(1)] argument_int64 [OF op(2) ints(2)]
      by (auto simp: evaluateDivCountExpression_def sdiv_is_int64 split: sum.splits if_splits)
  next
    case OpSub
    then obtain x where "evaluateCountOperand (map_option evaluateStreamCountExpression operand) ctx ''sub'' = Inr x"
      "checkedSubtractInt64 x argument = Some v"
      using ev by (auto simp: evaluateSubCountExpression_def split: sum.splits option.splits)
    then show ?thesis
      using checkedSubtractInt64_int64 operand_int64 [OF op(1)] ints(2) by blast
  next
    case OpMul
    then obtain x y where "evaluateCountOperand (map_option evaluateStreamCountExpression operand) ctx ''mul'' = Inr x"
      "evaluateCountArgument (map_option evaluateStreamCountExpression argE) argument ctx = Inr y"
      "checkedMultiplyInt64 x y = Some v"
      using ev by (auto simp: evaluateMulCountExpression_def split: sum.splits option.splits)
    then show ?thesis
      using checkedMultiplyInt64_int64 operand_int64 [OF op(1)] argument_int64 [OF op(2) ints(2)]
      by blast
  next
    case OpRemaining
    then show ?thesis using ev
      by (auto simp: evaluateRemainingCountExpression_def Let_def split: if_splits)
  next
    case OpIfFlag
    then show ?thesis using ev op(3,4)
      by (auto simp: evaluateIfFlagCountExpression_def eval_int64_def
          split: sum.splits option.splits if_splits)
  next
    case OpCase
    then show ?thesis using ev op(5) cs [OF select_case_in]
      by (auto simp: evaluateCaseCountExpression_def eval_int64_def
          split: sum.splits option.splits)
  next
    case OpBitCount
    then obtain w where "v = int (popcount w)"
      using ev by (auto simp: evaluateBitCountExpression_def split: sum.splits)
    then show ?thesis using popcount_le [of w] by (simp add: int64_defs)
  qed
qed

subsection \<open>What an expression denotes\<close>

text \<open>
  The value of an expression over the unbounded integers, with bit tests and the
  population count stated on the two's complement bits. It knows no overflow.
\<close>

definition opt_denotes :: "(count_context \<Rightarrow> int option) option \<Rightarrow> count_context \<Rightarrow> int option" where
  "opt_denotes d ctx = (case d of None \<Rightarrow> None | Some f \<Rightarrow> f ctx)"

definition field_denotes :: "count_context \<Rightarrow> string \<Rightarrow> int option" where
  "field_denotes ctx name = Option.bind (cx_parsed ctx name) integerScalar"

definition argument_denotes ::
  "(count_context \<Rightarrow> int option) option \<Rightarrow> int \<Rightarrow> count_context \<Rightarrow> int option" where
  "argument_denotes d a ctx = (if d = None then Some a else opt_denotes d ctx)"

definition remaining_denotes :: "bool \<Rightarrow> int \<Rightarrow> count_context \<Rightarrow> int option" where
  "remaining_denotes excludeCrc a ctx =
     (let limit = int (if excludeCrc then cx_readableLimit ctx else cx_frameLength ctx);
          left = limit - int (cx_fieldStart ctx);
          width = (if 0 < a then a else int (cx_fieldWidth ctx))
      in if width = 0 \<or> left < 0 then None else Some (left div width))"

primrec count_denotes :: "StreamCountExpression \<Rightarrow> count_context \<Rightarrow> int option" where
  "count_denotes (CountExpr oper val argument fieldName excludeCrc operand argE thenE elseE defE cases) =
     (\<lambda>ctx. case oper of
        OpConstant \<Rightarrow> Some val
      | OpField \<Rightarrow> field_denotes ctx fieldName
      | OpDiv \<Rightarrow> Option.bind (opt_denotes (map_option count_denotes operand) ctx) (\<lambda>v.
                 Option.bind (argument_denotes (map_option count_denotes argE) argument ctx) (\<lambda>a.
                   if a = 0 then None else Some (sgn v * sgn a * (\<bar>v\<bar> div \<bar>a\<bar>))))
      | OpSub \<Rightarrow> map_option (\<lambda>v. v - argument) (opt_denotes (map_option count_denotes operand) ctx)
      | OpMul \<Rightarrow> Option.bind (opt_denotes (map_option count_denotes operand) ctx) (\<lambda>v.
                 map_option (\<lambda>a. v * a)
                   (argument_denotes (map_option count_denotes argE) argument ctx))
      | OpRemaining \<Rightarrow> remaining_denotes excludeCrc argument ctx
      | OpIfFlag \<Rightarrow> Option.bind (field_denotes ctx fieldName) (\<lambda>v.
                 if \<exists>i<64. bit v i \<and> bit argument i
                 then opt_denotes (map_option count_denotes thenE) ctx
                 else opt_denotes (map_option count_denotes elseE) ctx)
      | OpCase \<Rightarrow> Option.bind (field_denotes ctx fieldName) (\<lambda>v.
                 case select_case v (map (map_prod id (map_option count_denotes)) cases) of
                   Some d \<Rightarrow> d ctx
                 | None \<Rightarrow> opt_denotes (map_option count_denotes defE) ctx)
      | OpBitCount \<Rightarrow> map_option (\<lambda>v. int (card {i. i < 64 \<and> bit v i}))
                 (opt_denotes (map_option count_denotes operand) ctx))"

lemma flag_selected_iff: "flag_selected v a \<longleftrightarrow> (\<exists>i<64. bit v i \<and> bit a i)"
  unfolding flag_selected_def
  by (auto simp add: bit_eq_iff bit_and_iff bit_word_of_int_iff)

lemma popcount_word_of_int: "popcount (word_of_int v) = card {i. i < 64 \<and> bit v i}"
proof -
  have "{i. i < 64 \<and> bit v i} = set (filter (bit (word_of_int v :: u64)) [0..<64])"
    by (auto simp: bit_word_of_int_iff)
  then show ?thesis
    by (simp only: popcount_def) (simp add: distinct_card del: set_filter)
qed

lemma select_case_map:
  "select_case v (map (map_prod id (map_option f)) cases) = map_option f (select_case v cases)"
  by (induction v cases rule: select_case.induct) auto

lemma select_case_mem: "select_case v cases = Some e \<Longrightarrow> (v, Some e) \<in> set cases"
  by (rule select_case_in)

text \<open>The contexts the parser builds: limits that an \<open>int64_t\<close> can hold.\<close>

definition context_ok :: "count_context \<Rightarrow> bool" where
  "context_ok ctx \<longleftrightarrow> fields_int64 (cx_parsed ctx) \<and> int (cx_frameLength ctx) \<le> int64_max \<and>
     cx_readableLimit ctx \<le> cx_frameLength ctx"

lemma remaining_denotes_correct:
  assumes "context_ok ctx" "evaluateRemainingCountExpression excl a ctx = Inr v"
  shows "remaining_denotes excl a ctx = Some v"
proof -
  let ?limit = "if excl then cx_readableLimit ctx else cx_frameLength ctx"
  let ?width = "if 0 < a then nat a else cx_fieldWidth ctx"
  have ok: "?width \<noteq> 0" "cx_fieldStart ctx \<le> ?limit"
    "v = cast_int64 ((?limit - cx_fieldStart ctx) div ?width)"
    using assms(2) by (auto simp: evaluateRemainingCountExpression_def Let_def split: if_splits)
  have "?limit \<le> cx_frameLength ctx" "int (cx_frameLength ctx) \<le> int64_max"
    using assms(1) by (auto simp: context_ok_def)
  moreover have "(?limit - cx_fieldStart ctx) div ?width \<le> ?limit"
    by (meson diff_le_self div_le_dividend order_trans)
  ultimately have "int ((?limit - cx_fieldStart ctx) div ?width) \<le> int64_max" by linarith
  then have "v = int (?limit - cx_fieldStart ctx) div int ?width"
    using ok(3) by (simp add: cast_int64_id zdiv_int)
  moreover have "int (?limit - cx_fieldStart ctx) = int ?limit - int (cx_fieldStart ctx)"
    using ok(2) by (rule of_nat_diff)
  moreover have "int ?width = (if 0 < a then a else int (cx_fieldWidth ctx))" by simp
  ultimately show ?thesis using ok(1,2) by (simp add: remaining_denotes_def Let_def)
qed

lemma operand_denotes:
  assumes "\<And>e v. e \<in> set_option operand \<Longrightarrow> evaluateStreamCountExpression e ctx = Inr v \<Longrightarrow>
      count_denotes e ctx = Some v"
    and "evaluateCountOperand (map_option evaluateStreamCountExpression operand) ctx nm = Inr v"
  shows "opt_denotes (map_option count_denotes operand) ctx = Some v"
  using assms by (cases operand) (auto simp: evaluateCountOperand_def opt_denotes_def)

lemma argument_denotes_correct:
  assumes "\<And>e v. e \<in> set_option argE \<Longrightarrow> evaluateStreamCountExpression e ctx = Inr v \<Longrightarrow>
      count_denotes e ctx = Some v"
    and "evaluateCountArgument (map_option evaluateStreamCountExpression argE) a ctx = Inr v"
  shows "argument_denotes (map_option count_denotes argE) a ctx = Some v"
  using assms
  by (cases argE) (auto simp: evaluateCountArgument_def argument_denotes_def opt_denotes_def)

lemma branch_denotes:
  assumes "\<And>e v. e \<in> set_option br \<Longrightarrow> evaluateStreamCountExpression e ctx = Inr v \<Longrightarrow>
      count_denotes e ctx = Some v"
    and "(case map_option evaluateStreamCountExpression br of None \<Rightarrow> Inl m | Some ev \<Rightarrow> ev ctx) = Inr v"
  shows "opt_denotes (map_option count_denotes br) ctx = Some v"
  using assms by (cases br) (auto simp: opt_denotes_def)

lemma field_denotes_iff:
  "streamCountFieldValue (cx_parsed ctx) name = Inr v \<longleftrightarrow> field_denotes ctx name = Some v"
  by (auto simp: streamCountFieldValue_Inr field_denotes_def bind_eq_Some_conv integerScalar_Some)

lemma evaluate_denotes:
  assumes ctx: "context_ok ctx"
  shows "count_int64 expr \<Longrightarrow> evaluateStreamCountExpression expr ctx = Inr v \<Longrightarrow>
           count_denotes expr ctx = Some v"
proof (induction expr arbitrary: v)
  case (CountExpr oper val argument fieldName excludeCrc operand argE thenE elseE defE cases)
  have sub: "\<And>e v. e \<in> set_option operand \<Longrightarrow> evaluateStreamCountExpression e ctx = Inr v \<Longrightarrow>
      count_denotes e ctx = Some v"
    "\<And>e v. e \<in> set_option argE \<Longrightarrow> evaluateStreamCountExpression e ctx = Inr v \<Longrightarrow>
      count_denotes e ctx = Some v"
    "\<And>e v. e \<in> set_option thenE \<Longrightarrow> evaluateStreamCountExpression e ctx = Inr v \<Longrightarrow>
      count_denotes e ctx = Some v"
    "\<And>e v. e \<in> set_option elseE \<Longrightarrow> evaluateStreamCountExpression e ctx = Inr v \<Longrightarrow>
      count_denotes e ctx = Some v"
    "\<And>e v. e \<in> set_option defE \<Longrightarrow> evaluateStreamCountExpression e ctx = Inr v \<Longrightarrow>
      count_denotes e ctx = Some v"
    using CountExpr.prems(1) CountExpr.IH(1-5) by auto
  have cs: "count_denotes e ctx = Some u"
    if mem: "(w, Some e) \<in> set cases" "evaluateStreamCountExpression e ctx = Inr u" for w e u
  proof -
    have "count_int64 e" using CountExpr.prems(1) mem(1) by (fastforce simp: list_all_iff)
    then show ?thesis using CountExpr.IH(6) [OF mem(1), of "Some e" e] mem(2) by simp
  qed
  have ints: "is_int64 argument"
    "\<And>u nm. evaluateCountOperand (map_option evaluateStreamCountExpression operand) ctx nm = Inr u \<Longrightarrow> is_int64 u"
    "\<And>u. evaluateCountArgument (map_option evaluateStreamCountExpression argE) argument ctx = Inr u \<Longrightarrow> is_int64 u"
    using CountExpr.prems(1) ctx evaluate_int64
    by (cases operand; cases argE;
        auto simp: evaluateCountOperand_def evaluateCountArgument_def context_ok_def)+
  note ev = CountExpr.prems(2)
  note opd = operand_denotes [OF sub(1)] and argd = argument_denotes_correct [OF sub(2)]
  show ?case
  proof (cases oper)
    case OpDiv
    then show ?thesis using ev opd argd
      by (auto simp: evaluateDivCountExpression_def signed_divide_int_def
          split: sum.splits if_splits)
  next
    case OpSub
    then show ?thesis using ev opd ints
      by (auto simp: evaluateSubCountExpression_def checkedSubtractInt64_iff
          split: sum.splits option.splits if_splits)
  next
    case OpMul
    then show ?thesis using ev opd argd ints
      by (auto simp: evaluateMulCountExpression_def checkedMultiplyInt64_iff
          split: sum.splits option.splits if_splits)
  next
    case OpRemaining
    then show ?thesis using ev ctx by (simp add: remaining_denotes_correct)
  next
    case OpIfFlag
    then show ?thesis using ev branch_denotes [OF sub(3)] branch_denotes [OF sub(4)]
      by (auto simp: evaluateIfFlagCountExpression_def field_denotes_iff flag_selected_iff
          split: sum.splits if_splits)
  next
    case OpCase
    then show ?thesis using ev branch_denotes [OF sub(5)] cs [OF select_case_mem]
      by (auto simp: evaluateCaseCountExpression_def field_denotes_iff select_case_map
          split: sum.splits option.splits)
  next
    case OpBitCount
    then show ?thesis using ev opd
      by (auto simp: evaluateBitCountExpression_def popcount_word_of_int split: sum.splits)
  qed (use ev in \<open>auto simp: field_denotes_iff\<close>)
qed

subsection \<open>Properties\<close>

text \<open>Evaluating a count expression never leaves \<open>int64_t\<close>: with constants and field values
  of that type every value the evaluator returns is one, so that the guarded division,
  subtraction and multiplication cannot overflow.\<close>

theorem count_no_overflow:
  assumes "fields_int64 (cx_parsed ctx)" "count_int64 expr"
    and "evaluateStreamCountExpression expr ctx = Inr v"
  shows "is_int64 v"
  using evaluate_int64 [OF assms(1) assms(2,3)] .

definition sample_expr :: StreamCountExpression where
  "sample_expr = CountExpr OpDiv 0 2 [] False
     (Some (CountExpr OpMul 0 3 [] False
        (Some (CountExpr OpField 0 0 ''n'' False None None None None None [])) None None None None []))
     None None None None []"

definition sample_context :: count_context where
  "sample_context = \<lparr>cx_parsed = [''n'' \<mapsto> FvInt 5], cx_frameLength = 20, cx_readableLimit = 18,
     cx_fieldStart = 4, cx_fieldWidth = 2\<rparr>"

lemma sample_expr_ok:
  "count_int64 sample_expr" "context_ok sample_context" "fields_int64 (cx_parsed sample_context)"
  by (simp_all add: sample_expr_def sample_context_def context_ok_def fields_int64_def int64_defs)

lemma sample_expr_eval: "evaluateStreamCountExpression sample_expr sample_context = Inr 7"
  by (simp add: sample_expr_def sample_context_def evaluateDivCountExpression_def
      evaluateMulCountExpression_def evaluateCountOperand_def evaluateCountArgument_def
      streamCountFieldValue_def checkedMultiplyInt64_def int64_defs signed_divide_int_def)

theorem count_no_overflow_witness: "is_int64 7"
  by (rule count_no_overflow [OF sample_expr_ok(3,1) sample_expr_eval])

text \<open>C13: A value the evaluator returns is the value of the expression over the unbounded integers,
  with C++'s truncating division, the bit test and the population count on the two's
  complement bits, and the first case of equal value.\<close>

theorem count_refines:
  assumes "context_ok ctx" "count_int64 expr"
    and "evaluateStreamCountExpression expr ctx = Inr v"
  shows "count_denotes expr ctx = Some v"
  using evaluate_denotes [OF assms(1) assms(2,3)] .

theorem count_refines_witness: "count_denotes sample_expr sample_context = Some 7"
  by (rule count_refines [OF sample_expr_ok(2,1) sample_expr_eval])

end
