(* ===== verification/Frame_Parser.thy ===== *)
theory Frame_Parser
  imports Codec Ring_Buffer Count_Expr
begin

text \<open>
  \<open>FrameStreamParser\<close> of \<open>frame_stream_parser.cc\<close> up to the analysis of one frame: the
  object's state, the compiled frame metadata with the header buckets, runtime
  profiles, and the steps of \<open>analyzeFrame\<close> (length, bounds, checksum, fields, channel
  map). The parse loop is in theory Frame_Stream.

  A method that returns \<open>false\<close> after it may have filled its \<open>AnalyzeResult\<close> is a
  function into \<open>analyze_result + 'a\<close>: \<open>Inl r\<close> is "returned false, the result is \<open>r\<close>",
  \<open>Inr x\<close> is "returned true with \<open>x\<close>".
\<close>

subsection \<open>State\<close>

record CompiledFrame =
  cf_index :: nat
  cf_minFrameLength :: nat
  cf_fixedFieldBytes :: nat
  cf_firstHeaderByte :: u8
  cf_hasHeader :: bool

record FrameStreamParser =
  fp_bufferDefinition :: StreamBufferDefinition
  fp_frames :: "StreamFrameDefinition list"
  fp_buffer :: ring
  fp_compiledFrames :: "CompiledFrame list"
  fp_headerFirstByteIndex :: "nat list list"
  fp_sortedHeaderFirstByteIndex :: "nat list list"
  fp_maxHeaderLength :: nat
  fp_runtimeProfiles :: "string \<rightharpoonup> StreamRuntimeProfile"

datatype analyze_action = NeedMore | Parsed | RecoverableError

text \<open>\<open>AnalyzeResult\<close> and \<open>CandidateParseResult\<close> have the same members.\<close>

record analyze_result =
  ar_action :: analyze_action
  ar_frame :: "StreamParsedFrame option"
  ar_error :: "StreamParseError option"
  ar_frameLength :: nat

definition default_result :: analyze_result where
  "default_result = \<lparr>ar_action = NeedMore, ar_frame = None, ar_error = None, ar_frameLength = 0\<rparr>"

record FieldDecodePlan =
  dp_start :: nat
  dp_count :: nat
  dp_width :: nat
  dp_end :: nat

datatype FieldDecodeBoundsAction = BoundsDecode | BoundsSkip | BoundsError analyze_result

subsection \<open>Compiling the frame definitions\<close>

definition applyDeclaredFrameLengthMinimum ::
  "StreamFrameDefinition \<Rightarrow> CompiledFrame \<Rightarrow> CompiledFrame" where
  "applyDeclaredFrameLengthMinimum frame compiled =
     (case fd_size frame of
        Some n \<Rightarrow> compiled\<lparr>cf_minFrameLength := n\<rparr>
      | None \<Rightarrow>
          (case fd_len frame of
             None \<Rightarrow> compiled
           | Some len \<Rightarrow>
               (case checkedAddSize (ld_offset len) (streamValueWidth (ld_type len)) of
                  Some lengthFieldEnd \<Rightarrow>
                    compiled\<lparr>cf_minFrameLength := max (cf_minFrameLength compiled) lengthFieldEnd\<rparr>
                | None \<Rightarrow> compiled\<lparr>cf_minFrameLength := size_max\<rparr>)))"

text \<open>The loop over the fields, which \<open>break\<close>s when the sum no longer fits.\<close>

fun accumulateFixedFieldBytes :: "StreamFieldDefinition list \<Rightarrow> CompiledFrame \<Rightarrow> CompiledFrame" where
  "accumulateFixedFieldBytes [] compiled = compiled"
| "accumulateFixedFieldBytes (field # fds) compiled =
     (case fc_fixed (sf_count field) of
        None \<Rightarrow> accumulateFixedFieldBytes fds compiled
      | Some n \<Rightarrow>
          (case Option.bind (checkedMultiplySize n (streamValueWidth (sf_type field)))
                  (checkedAddSize (cf_fixedFieldBytes compiled)) of
             None \<Rightarrow> compiled\<lparr>cf_fixedFieldBytes := size_max\<rparr>
           | Some newSum \<Rightarrow> accumulateFixedFieldBytes fds (compiled\<lparr>cf_fixedFieldBytes := newSum\<rparr>)))"

definition applyFixedFieldMinimum ::
  "StreamFrameDefinition \<Rightarrow> CompiledFrame \<Rightarrow> CompiledFrame" where
  "applyFixedFieldMinimum frame compiled =
     (case checkedAddSize (length (fd_header frame)) (cf_fixedFieldBytes compiled) of
        Some fixedMinimum \<Rightarrow>
          compiled\<lparr>cf_minFrameLength := max (cf_minFrameLength compiled) fixedMinimum\<rparr>
      | None \<Rightarrow> compiled\<lparr>cf_minFrameLength := size_max\<rparr>)"

definition compileFrameMetadata :: "nat \<Rightarrow> StreamFrameDefinition \<Rightarrow> CompiledFrame" where
  "compileFrameMetadata index frame =
     applyFixedFieldMinimum frame
       (accumulateFixedFieldBytes (fd_fields frame)
          (applyDeclaredFrameLengthMinimum frame
             \<lparr>cf_index = index, cf_minFrameLength = length (fd_header frame), cf_fixedFieldBytes = 0,
              cf_firstHeaderByte = (case fd_header frame of [] \<Rightarrow> 0 | b # _ \<Rightarrow> b),
              cf_hasHeader = (fd_header frame \<noteq> [])\<rparr>))"

definition resetCompiledFrameIndexes :: "FrameStreamParser \<Rightarrow> FrameStreamParser" where
  "resetCompiledFrameIndexes p =
     p\<lparr>fp_compiledFrames := [], fp_maxHeaderLength := 0,
       fp_headerFirstByteIndex := replicate 256 [],
       fp_sortedHeaderFirstByteIndex := replicate 256 []\<rparr>"

definition push_bucket :: "nat list list \<Rightarrow> u8 \<Rightarrow> nat \<Rightarrow> nat list list" where
  "push_bucket buckets b index = buckets[unat b := buckets ! unat b @ [index]]"

definition registerCompiledFrame ::
  "StreamFrameDefinition \<Rightarrow> CompiledFrame \<Rightarrow> FrameStreamParser \<Rightarrow> FrameStreamParser" where
  "registerCompiledFrame frame compiled p =
     (let p1 = p\<lparr>fp_maxHeaderLength := max (fp_maxHeaderLength p) (length (fd_header frame)),
                 fp_compiledFrames := fp_compiledFrames p @ [compiled]\<rparr>
      in if cf_hasHeader compiled then
           p1\<lparr>fp_headerFirstByteIndex :=
                push_bucket (fp_headerFirstByteIndex p1) (cf_firstHeaderByte compiled) (cf_index compiled),
              fp_sortedHeaderFirstByteIndex :=
                push_bucket (fp_sortedHeaderFirstByteIndex p1) (cf_firstHeaderByte compiled)
                  (cf_index compiled)\<rparr>
         else p1)"

text \<open>\<open>std::stable_sort\<close> by descending minimal length is the stable \<open>sort_key\<close> of HOL.\<close>

definition sortCompiledFrameHeaderBuckets :: "FrameStreamParser \<Rightarrow> FrameStreamParser" where
  "sortCompiledFrameHeaderBuckets p =
     p\<lparr>fp_sortedHeaderFirstByteIndex :=
         map (sort_key (\<lambda>i. - int (cf_minFrameLength (fp_compiledFrames p ! i))))
           (fp_sortedHeaderFirstByteIndex p)\<rparr>"

definition buildCompiledFrames :: "FrameStreamParser \<Rightarrow> FrameStreamParser" where
  "buildCompiledFrames p =
     sortCompiledFrameHeaderBuckets
       (fold (\<lambda>index q. registerCompiledFrame (fp_frames p ! index)
                (compileFrameMetadata index (fp_frames p ! index)) q)
          [0..<length (fp_frames p)] (resetCompiledFrameIndexes p))"

definition new_FrameStreamParser ::
  "StreamBufferDefinition \<Rightarrow> StreamFrameDefinition list \<Rightarrow> FrameStreamParser" where
  "new_FrameStreamParser bufferDef frames =
     buildCompiledFrames
       \<lparr>fp_bufferDefinition = bufferDef, fp_frames = frames,
        fp_buffer = ByteRingBuffer (bd_capacity bufferDef), fp_compiledFrames = [],
        fp_headerFirstByteIndex = replicate 256 [], fp_sortedHeaderFirstByteIndex = replicate 256 [],
        fp_maxHeaderLength = 0, fp_runtimeProfiles = Map.empty\<rparr>"

definition parser_reset :: "FrameStreamParser \<Rightarrow> FrameStreamParser" where
  "parser_reset p = p\<lparr>fp_buffer := rb_reset (fp_buffer p)\<rparr>"

subsection \<open>Runtime profiles\<close>

definition clearRuntimeProfiles :: "FrameStreamParser \<Rightarrow> FrameStreamParser" where
  "clearRuntimeProfiles p = p\<lparr>fp_runtimeProfiles := Map.empty\<rparr>"

text \<open>The loop that inserts the targets into a set; \<open>False\<close> when one is there already.\<close>

fun insert_targets :: "nat set \<Rightarrow> nat list \<Rightarrow> bool" where
  "insert_targets usedTargets [] = True"
| "insert_targets usedTargets (target # targets) =
     (if target \<in> usedTargets then False
      else insert_targets (insert target usedTargets) targets)"

definition checkChannelMap :: "nat list \<Rightarrow> parse_msg option" where
  "checkChannelMap channelMap =
     (if channelMap = [] then None
      else
        let maxTarget = fold max channelMap 0 in
        if maxTarget = size_max then Some MsgProfileTargetIndexRange
        else if nat (int64_max - 1) < maxTarget then Some MsgProfileTargetLuaRange
        else if \<not> insert_targets {} channelMap then Some MsgProfileTargetDuplicate
        else None)"

definition setRuntimeProfile ::
  "string \<Rightarrow> StreamRuntimeProfile \<Rightarrow> FrameStreamParser \<Rightarrow> parse_msg + FrameStreamParser" where
  "setRuntimeProfile frameName profile p =
     (case find (\<lambda>frame. fd_name frame = frameName) (fp_frames p) of
        None \<Rightarrow> Inl (MsgProfileUnknownFrame frameName)
      | Some frame \<Rightarrow>
          if \<not> fd_runtimeProfile frame then Inl (MsgProfileUndeclared frameName)
          else if rp_length profile = 0 then Inl MsgProfileLengthZero
          else if 0 < bd_capacity (fp_bufferDefinition p) \<and>
                  bd_capacity (fp_bufferDefinition p) < rp_length profile
          then Inl MsgProfileLengthOverCapacity
          else
            (case checkChannelMap (rp_channelMap profile) of
               Some e \<Rightarrow> Inl e
             | None \<Rightarrow>
                 Inr (p\<lparr>fp_runtimeProfiles := (fp_runtimeProfiles p)(frameName \<mapsto> profile)\<rparr>)))"

definition clearRuntimeProfile ::
  "string option \<Rightarrow> FrameStreamParser \<Rightarrow> parse_msg + FrameStreamParser" where
  "clearRuntimeProfile frameName p =
     (case frameName of
        None \<Rightarrow> Inr (p\<lparr>fp_runtimeProfiles := Map.empty\<rparr>)
      | Some name \<Rightarrow>
          (case fp_runtimeProfiles p name of
             None \<Rightarrow> Inl (MsgProfileAbsent name)
           | Some _ \<Rightarrow> Inr (p\<lparr>fp_runtimeProfiles := (fp_runtimeProfiles p)(name := None)\<rparr>)))"

subsection \<open>Frame length\<close>

definition setInvalidLengthError :: "StreamFrameDefinition \<Rightarrow> parse_msg \<Rightarrow> analyze_result \<Rightarrow> analyze_result"
  where
  "setInvalidLengthError frame message result =
     result\<lparr>ar_action := RecoverableError,
            ar_error := Some \<lparr>pe_code = InvalidLength, pe_message = message,
                               pe_frameName = Some (fd_name frame), pe_droppedBytes = 0, pe_raw = []\<rparr>\<rparr>"

definition resolveRuntimeProfileFrameLength ::
  "FrameStreamParser \<Rightarrow> StreamFrameDefinition \<Rightarrow> analyze_result + nat" where
  "resolveRuntimeProfileFrameLength p frame =
     (case fp_runtimeProfiles p (fd_name frame) of
        None \<Rightarrow> Inl (setInvalidLengthError frame MsgProfileLengthMissing default_result)
      | Some profile \<Rightarrow> Inr (rp_length profile))"

definition resolveLengthFieldFrameLength ::
  "StreamFrameDefinition \<Rightarrow> linear_view \<Rightarrow> analyze_result + nat" where
  "resolveLengthFieldFrameLength frame window =
     (case (lv_data window, fd_len frame) of
        (Some frameBytes, Some len) \<Rightarrow>
          (case checkedAddSize (ld_offset len) (streamValueWidth (ld_type len)) of
             None \<Rightarrow> Inl (setInvalidLengthError frame MsgLengthOffsetOverflow default_result)
           | Some lengthFieldEnd \<Rightarrow>
               if length frameBytes < lengthFieldEnd then Inl default_result
               else
                 (case decodeInteger frameBytes (length frameBytes) (ld_offset len) (ld_type len) of
                    None \<Rightarrow> Inl (setInvalidLengthError frame MsgLengthParse default_result)
                  | Some parsedLength \<Rightarrow>
                      if parsedLength < 0
                      then Inl (setInvalidLengthError frame MsgLengthParse default_result)
                      else if ld_means len = Payload then
                        (case checkedAddSize (nat parsedLength) (ld_extra len) of
                           None \<Rightarrow> Inl (setInvalidLengthError frame MsgLengthExtraOverflow default_result)
                         | Some frameLength \<Rightarrow> Inr frameLength)
                      else Inr (nat parsedLength)))
      | _ \<Rightarrow> Inl default_result)"

definition validateResolvedFrameLength ::
  "FrameStreamParser \<Rightarrow> StreamFrameDefinition \<Rightarrow> nat \<Rightarrow> analyze_result + unit" where
  "validateResolvedFrameLength p frame frameLength =
     (if frameLength = 0 then Inl (setInvalidLengthError frame MsgLengthZero default_result)
      else if bd_capacity (fp_bufferDefinition p) < frameLength \<and> 0 < bd_capacity (fp_bufferDefinition p)
      then Inl (setInvalidLengthError frame MsgLengthOverCapacity default_result)
      else Inr ())"

definition resolveFrameLength ::
  "FrameStreamParser \<Rightarrow> StreamFrameDefinition \<Rightarrow> linear_view \<Rightarrow> analyze_result + nat" where
  "resolveFrameLength p frame window =
     (case lv_data window of
        None \<Rightarrow> Inl default_result
      | Some frameBytes \<Rightarrow>
          (case (if fd_runtimeProfile frame then resolveRuntimeProfileFrameLength p frame
                 else case fd_size frame of
                        Some n \<Rightarrow> Inr n
                      | None \<Rightarrow>
                          (case fd_len frame of
                             Some _ \<Rightarrow> resolveLengthFieldFrameLength frame window
                           | None \<Rightarrow> Inr 0)) of
             Inl r \<Rightarrow> Inl r
           | Inr frameLength \<Rightarrow>
               (case validateResolvedFrameLength p frame frameLength of
                  Inl r \<Rightarrow> Inl r
                | Inr _ \<Rightarrow> Inr frameLength)))"

subsection \<open>Bounds and checksum\<close>

definition frame_error ::
  "StreamParseErrorCode \<Rightarrow> parse_msg \<Rightarrow> StreamFrameDefinition \<Rightarrow> bytes \<Rightarrow> nat \<Rightarrow> analyze_result" where
  "frame_error code message frame frameBytes frameLength =
     default_result\<lparr>ar_action := RecoverableError,
       ar_error := Some \<lparr>pe_code = code, pe_message = message, pe_frameName = Some (fd_name frame),
                          pe_droppedBytes = 0, pe_raw = take frameLength frameBytes\<rparr>\<rparr>"

definition validateFrameBounds ::
  "StreamFrameDefinition \<Rightarrow> bytes \<Rightarrow> nat \<Rightarrow> nat \<Rightarrow> analyze_result + unit" where
  "validateFrameBounds frame frameBytes frameLength crcWidth =
     (if length frameBytes < frameLength then Inl default_result
      else if frameLength < length (fd_header frame) + crcWidth
      then Inl (frame_error InvalidLength MsgLengthTooSmall frame frameBytes frameLength)
      else Inr ())"

definition expected_crc :: "StreamCrcType \<Rightarrow> bytes \<Rightarrow> u32" where
  "expected_crc type data =
     (case type of
        Crc16Modbus \<Rightarrow> ucast (crc16Modbus data)
      | Crc16CcittFalse \<Rightarrow> ucast (crc16CcittFalse data)
      | Crc32Ieee \<Rightarrow> crc32Ieee data
      | NoCrc \<Rightarrow> 0)"

definition validateFrameCrc ::
  "StreamFrameDefinition \<Rightarrow> bytes \<Rightarrow> nat \<Rightarrow> nat \<Rightarrow> analyze_result + unit" where
  "validateFrameCrc frame frameBytes frameLength crcWidth =
     (if crcWidth = 0 then Inr ()
      else if expected_crc (cd_type (fd_crc frame)) (take (frameLength - crcWidth) frameBytes)
              = readCrcValue frameBytes frameLength crcWidth (cd_order (fd_crc frame))
      then Inr ()
      else Inl (frame_error CrcMismatch MsgCrcMismatch frame frameBytes frameLength))"

subsection \<open>Fields\<close>

definition resolveFieldDecodePlan ::
  "StreamFrameDefinition \<Rightarrow> StreamFieldDefinition \<Rightarrow> bytes \<Rightarrow> nat \<Rightarrow> nat \<Rightarrow> nat \<Rightarrow> StreamFieldMap
     \<Rightarrow> analyze_result + FieldDecodePlan" where
  "resolveFieldDecodePlan frame field frameBytes frameLength readableLimit cursor parsedFields =
     (let start = (case sf_offset field of None \<Rightarrow> cursor | Some off \<Rightarrow> off);
          width = streamValueWidth (sf_type field)
      in case resolveFieldCount field parsedFields frameLength readableLimit start of
           Inl countError \<Rightarrow>
             Inl (frame_error CountResolveFailed countError frame frameBytes frameLength)
         | Inr count \<Rightarrow>
             (case Option.bind (checkedMultiplySize count width) (checkedAddSize start) of
                None \<Rightarrow> Inl (frame_error FieldDecodeFailed MsgFieldSizeOverflow frame frameBytes frameLength)
              | Some fieldEnd \<Rightarrow>
                  Inr \<lparr>dp_start = start, dp_count = count, dp_width = width, dp_end = fieldEnd\<rparr>))"

definition validateFieldDecodeBounds ::
  "StreamFrameDefinition \<Rightarrow> bytes \<Rightarrow> nat \<Rightarrow> nat \<Rightarrow> FieldDecodePlan \<Rightarrow> FieldDecodeBoundsAction" where
  "validateFieldDecodeBounds frame frameBytes frameLength readableLimit plan =
     (if dp_start plan \<le> readableLimit \<and> dp_end plan \<le> readableLimit then BoundsDecode
      else if fd_runtimeProfile frame then BoundsSkip
      else BoundsError (frame_error FieldDecodeFailed MsgFieldOutOfPayload frame frameBytes frameLength))"

definition value_or :: "'a option \<Rightarrow> 'a \<Rightarrow> 'a" where
  "value_or x d = (case x of None \<Rightarrow> d | Some v \<Rightarrow> v)"

definition decodeFieldValue ::
  "StreamFieldDefinition \<Rightarrow> bytes \<Rightarrow> nat \<Rightarrow> FieldDecodePlan \<Rightarrow> StreamFieldMap \<Rightarrow> StreamFieldMap" where
  "decodeFieldValue field frameBytes frameLength plan parsedFields =
     parsedFields(sf_name field \<mapsto>
       (let float_at = (\<lambda>offset. value_or (decodeFloat frameBytes frameLength offset (sf_type field)) 0);
            int_at = (\<lambda>offset. value_or (decodeInteger frameBytes frameLength offset (sf_type field)) 0);
            offsets = map (\<lambda>index. dp_start plan + index * dp_width plan) [0..<dp_count plan]
        in if sf_type field = Bytes then
             FvBytes (take (dp_count plan) (drop (dp_start plan) frameBytes))
           else if streamValueTypeIsFloat (sf_type field) then
             (if dp_count plan = 1 then FvDouble (float_at (dp_start plan))
              else FvDoubles (map float_at offsets))
           else
             (if dp_count plan = 1 then FvInt (int_at (dp_start plan))
              else FvInts (map int_at offsets))))"

text \<open>The loop over the fields, with its local \<open>cursor\<close>.\<close>

fun decodeFrameFields ::
  "StreamFrameDefinition \<Rightarrow> bytes \<Rightarrow> nat \<Rightarrow> nat \<Rightarrow> StreamFieldDefinition list \<Rightarrow> nat \<Rightarrow> StreamFieldMap
     \<Rightarrow> analyze_result + StreamFieldMap" where
  "decodeFrameFields frame frameBytes frameLength crcWidth [] cursor parsedFields = Inr parsedFields"
| "decodeFrameFields frame frameBytes frameLength crcWidth (field # fds) cursor parsedFields =
     (case resolveFieldDecodePlan frame field frameBytes frameLength (frameLength - crcWidth) cursor
             parsedFields of
        Inl r \<Rightarrow> Inl r
      | Inr plan \<Rightarrow>
          (case validateFieldDecodeBounds frame frameBytes frameLength (frameLength - crcWidth) plan of
             BoundsError r \<Rightarrow> Inl r
           | BoundsSkip \<Rightarrow>
               decodeFrameFields frame frameBytes frameLength crcWidth fds cursor parsedFields
           | BoundsDecode \<Rightarrow>
               decodeFrameFields frame frameBytes frameLength crcWidth fds (max cursor (dp_end plan))
                 (decodeFieldValue field frameBytes frameLength plan parsedFields)))"

subsection \<open>Analysing a frame\<close>

definition applyRuntimeChannelMap ::
  "FrameStreamParser \<Rightarrow> StreamFrameDefinition \<Rightarrow> StreamParsedFrame \<Rightarrow> parse_msg + StreamParsedFrame"
  where
  "applyRuntimeChannelMap p defn frame =
     (if \<not> fd_runtimeProfile defn then Inr frame
      else case fp_runtimeProfiles p (fd_name defn) of
             None \<Rightarrow> Inl MsgChannelMapMissing
           | Some profile \<Rightarrow> Inr (frame\<lparr>pf_channelMap := rp_channelMap profile\<rparr>))"

definition analyzeFrame ::
  "FrameStreamParser \<Rightarrow> CompiledFrame \<Rightarrow> linear_view \<Rightarrow> StreamParseOptions \<Rightarrow> analyze_result" where
  "analyzeFrame p compiled window options =
     (let frame = fp_frames p ! cf_index compiled;
          crcWidth = streamCrcWidth (cd_type (fd_crc frame))
      in case lv_data window of
           None \<Rightarrow> default_result
         | Some frameBytes \<Rightarrow>
     (case resolveFrameLength p frame window of
        Inl r \<Rightarrow> r
      | Inr frameLength \<Rightarrow>
     (case validateFrameBounds frame frameBytes frameLength crcWidth of
        Inl r \<Rightarrow> r
      | Inr _ \<Rightarrow>
     (case validateFrameCrc frame frameBytes frameLength crcWidth of
        Inl r \<Rightarrow> r
      | Inr _ \<Rightarrow>
     (case decodeFrameFields frame frameBytes frameLength crcWidth (fd_fields frame) 0 Map.empty of
        Inl r \<Rightarrow> r
      | Inr parsedFields \<Rightarrow>
     (case applyRuntimeChannelMap p frame
             \<lparr>pf_name = fd_name frame,
              pf_raw = (if po_includeFrameRaw options then take frameLength frameBytes else []),
              pf_fields = parsedFields, pf_crcOk = True, pf_channelMap = []\<rparr> of
        Inl mapError \<Rightarrow>
          (frame_error FieldDecodeFailed mapError frame frameBytes frameLength)
            \<lparr>ar_frameLength := frameLength\<rparr>
      | Inr parsed \<Rightarrow>
          \<lparr>ar_action = Parsed, ar_frame = Some parsed, ar_error = None,
           ar_frameLength = frameLength\<rparr>))))))"

subsection \<open>Candidates\<close>

text \<open>The header test at \<open>start\<close>; the bucket has compared the first byte already.\<close>

definition header_matches :: "bytes \<Rightarrow> nat \<Rightarrow> bytes \<Rightarrow> bool" where
  "header_matches window start header \<longleftrightarrow>
     header \<noteq> [] \<and> start + length header \<le> length window \<and>
     (\<forall>headerIndex \<in> set [1..<length header].
        window ! (start + headerIndex) = header ! headerIndex)"

definition matched_candidates :: "FrameStreamParser \<Rightarrow> bytes \<Rightarrow> nat \<Rightarrow> nat list" where
  "matched_candidates p window start =
     filter (\<lambda>index. header_matches window start (fd_header (fp_frames p ! index)))
       (fp_sortedHeaderFirstByteIndex p ! unat (window ! start))"

text \<open>The scan of the window from \<open>start\<close> over its last \<open>n\<close> bytes.\<close>

fun candidate_from :: "FrameStreamParser \<Rightarrow> bytes \<Rightarrow> nat \<Rightarrow> nat \<Rightarrow> (nat \<times> nat list) option" where
  "candidate_from p window start 0 = None"
| "candidate_from p window start (Suc n) =
     (let matched = matched_candidates p window start in
      if matched \<noteq> [] then Some (start, matched) else candidate_from p window (Suc start) n)"

definition ensureLinearWindow :: "FrameStreamParser \<Rightarrow> nat \<Rightarrow> linear_view" where
  "ensureLinearWindow p count = rb_linearRead (fp_buffer p) 0 count"

definition findCandidate :: "FrameStreamParser \<Rightarrow> (nat \<times> nat list) option" where
  "findCandidate p =
     (let window = lv_bytes (ensureLinearWindow p (rb_size (fp_buffer p)))
      in candidate_from p window 0 (length window))"

text \<open>The loop over the candidates: the first that parses, else what the others said.\<close>

fun analyze_candidates ::
  "FrameStreamParser \<Rightarrow> linear_view \<Rightarrow> StreamParseOptions \<Rightarrow> nat list \<Rightarrow> bool \<Rightarrow> StreamParseError option
     \<Rightarrow> analyze_result" where
  "analyze_candidates p window options [] needMore firstError =
     (if needMore then default_result
      else \<lparr>ar_action = RecoverableError, ar_frame = None, ar_error = firstError, ar_frameLength = 0\<rparr>)"
| "analyze_candidates p window options (index # indexes) needMore firstError =
     (let result = analyzeFrame p (fp_compiledFrames p ! index) window options in
      if ar_action result = Parsed \<and> ar_frame result \<noteq> None then
        \<lparr>ar_action = Parsed, ar_frame = ar_frame result, ar_error = None,
         ar_frameLength = ar_frameLength result\<rparr>
      else if ar_action result = NeedMore then
        analyze_candidates p window options indexes True firstError
      else
        analyze_candidates p window options indexes needMore
          (if firstError = None \<and> ar_error result \<noteq> None then ar_error result else firstError))"

definition analyzeCandidateFrames ::
  "FrameStreamParser \<Rightarrow> nat list \<Rightarrow> StreamParseOptions \<Rightarrow> analyze_result" where
  "analyzeCandidateFrames p indexes options =
     analyze_candidates p (ensureLinearWindow p (rb_size (fp_buffer p))) options indexes False None"

end
