(* ===== verification/Frame_Analysis.thy ===== *)
theory Frame_Analysis
  imports Frame_Parser
begin

text \<open>
  Lemmas on \<open>analyzeFrame\<close> of theory Frame_Parser: what it accepts, and that its verdict
  depends on the bytes of the frame only, so that it does not change when more
  bytes arrive.
\<close>

subsection \<open>The readers look at their own bytes only\<close>

lemma fold_cong_upt:
  "(\<And>i acc. i < n \<Longrightarrow> f i acc = g i acc) \<Longrightarrow> fold f [0..<n] a = fold g [0..<n] a"
  by (rule fold_cong) auto

lemma readUnsignedValue_take:
  "w \<le> n \<Longrightarrow> n \<le> length bs \<Longrightarrow> readUnsignedValue (take n bs) w le = readUnsignedValue bs w le"
  unfolding readUnsignedValue_def by (rule fold_cong_upt) (auto split: if_splits)

lemma readUnsignedValue_drop_take:
  assumes "offset + w \<le> n" "n \<le> length bs"
  shows "readUnsignedValue (drop offset (take n bs)) w le = readUnsignedValue (drop offset bs) w le"
  using assms by (simp add: drop_take readUnsignedValue_take)

lemma decodeInteger_take:
  "n \<le> length bs \<Longrightarrow> decodeInteger (take n bs) n offset ty = decodeInteger bs n offset ty"
  by (auto simp: decodeInteger_def Let_def readUnsignedValue_drop_take)

lemma decodeFloat_take:
  "n \<le> length bs \<Longrightarrow> decodeFloat (take n bs) n offset ty = decodeFloat bs n offset ty"
  by (auto simp: decodeFloat_def Let_def readUnsignedValue_drop_take)

lemma readCrcValue_take:
  "w \<le> n \<Longrightarrow> n \<le> length bs \<Longrightarrow> readCrcValue (take n bs) n w order = readCrcValue bs n w order"
  unfolding readCrcValue_def Let_def
  by (cases order) (auto intro!: fold_cong_upt)

text \<open>The length field is read from the window, whose end may lie anywhere behind it.\<close>

lemma decodeInteger_append:
  assumes "offset + streamValueWidth ty \<le> length bs"
  shows "decodeInteger (bs @ ext) (length (bs @ ext)) offset ty = decodeInteger bs (length bs) offset ty"
proof -
  have "readUnsignedValue (drop offset (bs @ ext)) w le = readUnsignedValue (drop offset bs) w le"
    if "w \<le> length bs - offset" for w le
    using that readUnsignedValue_take [of w "length bs - offset" "drop offset (bs @ ext)" le] assms
    by simp
  then show ?thesis
    using assms by (simp add: decodeInteger_def Let_def streamValueWidth_def)
qed

subsection \<open>The steps look at the frame's bytes only\<close>

lemma frame_error_take:
  "frame_error c m frame (take n bs) n = frame_error c m frame bs n"
  by (simp add: frame_error_def)

lemma validateFrameCrc_take:
  "w \<le> n \<Longrightarrow> n \<le> length bs \<Longrightarrow>
     validateFrameCrc frame (take n bs) n w = validateFrameCrc frame bs n w"
  by (simp add: validateFrameCrc_def readCrcValue_take frame_error_take min_def)

lemma resolveFieldDecodePlan_take:
  "resolveFieldDecodePlan frame field (take n bs) n limit cursor parsed
     = resolveFieldDecodePlan frame field bs n limit cursor parsed"
  by (simp add: resolveFieldDecodePlan_def frame_error_take Let_def split: sum.splits option.splits)

lemma validateFieldDecodeBounds_take:
  "validateFieldDecodeBounds frame (take n bs) n limit plan
     = validateFieldDecodeBounds frame bs n limit plan"
  by (simp add: validateFieldDecodeBounds_def frame_error_take)

text \<open>A plan's end lies its width times its count behind its start.\<close>

lemma resolveFieldDecodePlan_end:
  "resolveFieldDecodePlan frame field bs n limit cursor parsed = Inr plan \<Longrightarrow>
     dp_end plan = dp_start plan + dp_count plan * streamValueWidth (sf_type field) \<and>
     dp_width plan = streamValueWidth (sf_type field)"
  by (auto simp: resolveFieldDecodePlan_def Let_def checkedAddSize_def checkedMultiplySize_def
      bind_eq_Some_conv split: sum.splits option.splits bind_splits if_splits)

lemma decodeFieldValue_take:
  assumes "n \<le> length bs" "dp_end plan \<le> n"
    "dp_end plan = dp_start plan + dp_count plan * streamValueWidth (sf_type field)"
  shows "decodeFieldValue field (take n bs) n plan parsed = decodeFieldValue field bs n plan parsed"
proof -
  have "take (dp_count plan) (drop (dp_start plan) (take n bs))
      = take (dp_count plan) (drop (dp_start plan) bs)" if "sf_type field = Bytes"
    using that assms by (simp add: drop_take streamValueWidth_def min_def)
  then show ?thesis
    using assms(1) by (auto simp: decodeFieldValue_def Let_def decodeInteger_take decodeFloat_take)
qed

lemma validateFieldDecodeBounds_decode:
  "validateFieldDecodeBounds frame bs n limit plan = BoundsDecode \<longleftrightarrow>
     dp_start plan \<le> limit \<and> dp_end plan \<le> limit"
  by (simp add: validateFieldDecodeBounds_def)

lemma decodeFrameFields_take:
  assumes "n \<le> length bs"
  shows "decodeFrameFields frame (take n bs) n w fds cursor parsed
           = decodeFrameFields frame bs n w fds cursor parsed"
proof (induction fds arbitrary: cursor parsed)
  case (Cons field fds)
  show ?case
  proof (cases "resolveFieldDecodePlan frame field bs n (n - w) cursor parsed")
    case (Inr plan)
    note plan = resolveFieldDecodePlan_end [OF Inr]
    show ?thesis
    proof (cases "validateFieldDecodeBounds frame bs n (n - w) plan")
      case BoundsDecode
      then have "dp_end plan \<le> n" by (auto simp: validateFieldDecodeBounds_decode)
      then have "decodeFieldValue field (take n bs) n plan parsed = decodeFieldValue field bs n plan parsed"
        using assms plan by (intro decodeFieldValue_take) auto
      then show ?thesis using BoundsDecode Inr Cons.IH
        by (simp add: resolveFieldDecodePlan_take validateFieldDecodeBounds_take)
    qed (use Inr Cons.IH in \<open>simp_all add: resolveFieldDecodePlan_take validateFieldDecodeBounds_take\<close>)
  qed (simp add: resolveFieldDecodePlan_take)
qed simp

subsection \<open>The verdict does not change when more bytes arrive\<close>

definition view_of :: "bytes \<Rightarrow> linear_view" where
  "view_of bs = \<lparr>lv_data = Some bs, lv_copied = False\<rparr>"

lemma resolveLengthField_view: "lv_data window = Some bs \<Longrightarrow>
    resolveLengthFieldFrameLength frame window = resolveLengthFieldFrameLength frame (view_of bs)"
  by (simp add: view_of_def resolveLengthFieldFrameLength_def)

lemma resolveFrameLength_view: "lv_data window = Some bs \<Longrightarrow>
    resolveFrameLength p frame window = resolveFrameLength p frame (view_of bs)"
  by (simp add: resolveLengthField_view [of window bs] resolveFrameLength_def view_of_def
      cong: option.case_cong)

lemma analyzeFrame_view: "lv_data window = Some bs \<Longrightarrow>
    analyzeFrame p c window options = analyzeFrame p c (view_of bs) options"
  by (simp add: analyzeFrame_def resolveFrameLength_view [of window bs] Let_def)
     (simp add: view_of_def)

lemma checkedAddSize_Some: "checkedAddSize a b = Some c \<Longrightarrow> c = a + b"
  by (auto simp: checkedAddSize_def split: if_splits)

lemma resolveLengthField_append:
  assumes "resolveLengthFieldFrameLength frame (view_of bs) \<noteq> Inl default_result"
  shows "resolveLengthFieldFrameLength frame (view_of (bs @ ext))
           = resolveLengthFieldFrameLength frame (view_of bs)"
proof -
  obtain len where len: "fd_len frame = Some len"
    using assms by (cases "fd_len frame") (auto simp: resolveLengthFieldFrameLength_def view_of_def)
  show ?thesis
  proof (cases "checkedAddSize (ld_offset len) (streamValueWidth (ld_type len))")
    case (Some e)
    then have "e \<le> length bs"
      using assms len
      by (auto simp: resolveLengthFieldFrameLength_def view_of_def linorder_not_less split: if_splits)
    moreover from this have "ld_offset len + streamValueWidth (ld_type len) \<le> length bs"
      using checkedAddSize_Some [OF Some] by simp
    ultimately show ?thesis
      using len Some decodeInteger_append [of "ld_offset len" "ld_type len" bs ext]
      by (simp add: resolveLengthFieldFrameLength_def view_of_def)
  qed (use len in \<open>simp add: resolveLengthFieldFrameLength_def view_of_def\<close>)
qed

lemma resolveFrameLength_append:
  assumes "resolveFrameLength p frame (view_of bs) \<noteq> Inl default_result"
  shows "resolveFrameLength p frame (view_of (bs @ ext)) = resolveFrameLength p frame (view_of bs)"
proof (cases "\<not> fd_runtimeProfile frame \<and> fd_size frame = None \<and> fd_len frame \<noteq> None")
  case True
  then have "resolveLengthFieldFrameLength frame (view_of bs) \<noteq> Inl default_result"
    using assms by (auto simp: resolveFrameLength_def view_of_def split: sum.splits)
  from resolveLengthField_append [OF this, of ext] show ?thesis using True
    by (auto simp: resolveFrameLength_def view_of_def split: option.splits)
next
  case False
  then show ?thesis
    by (auto simp: resolveFrameLength_def view_of_def split: option.splits)
qed

text \<open>The rest of \<open>analyzeFrame\<close> once the length is known, over the bytes of the frame.\<close>

definition judge_frame ::
  "FrameStreamParser \<Rightarrow> StreamFrameDefinition \<Rightarrow> bytes \<Rightarrow> StreamParseOptions \<Rightarrow> analyze_result" where
  "judge_frame p frame raw options =
     (let crcWidth = streamCrcWidth (cd_type (fd_crc frame)); n = length raw in
      if n < length (fd_header frame) + crcWidth
      then frame_error InvalidLength MsgLengthTooSmall frame raw n
      else case validateFrameCrc frame raw n crcWidth of
             Inl r \<Rightarrow> r
           | Inr _ \<Rightarrow>
          (case decodeFrameFields frame raw n crcWidth (fd_fields frame) 0 Map.empty of
             Inl r \<Rightarrow> r
           | Inr parsedFields \<Rightarrow>
          (case applyRuntimeChannelMap p frame
                  \<lparr>pf_name = fd_name frame,
                   pf_raw = (if po_includeFrameRaw options then raw else []),
                   pf_fields = parsedFields, pf_crcOk = True, pf_channelMap = []\<rparr> of
             Inl mapError \<Rightarrow>
               (frame_error FieldDecodeFailed mapError frame raw n)\<lparr>ar_frameLength := n\<rparr>
           | Inr parsed \<Rightarrow>
               \<lparr>ar_action = Parsed, ar_frame = Some parsed, ar_error = None, ar_frameLength = n\<rparr>)))"

lemma analyzeFrame_eq:
  "analyzeFrame p c (view_of bs) options =
     (let frame = fp_frames p ! cf_index c in
      case resolveFrameLength p frame (view_of bs) of
        Inl r \<Rightarrow> r
      | Inr n \<Rightarrow> if length bs < n then default_result else judge_frame p frame (take n bs) options)"
proof (cases "resolveFrameLength p (fp_frames p ! cf_index c) (view_of bs)")
  case (Inr n)
  let ?frame = "fp_frames p ! cf_index c"
  let ?w = "streamCrcWidth (cd_type (fd_crc ?frame))"
  show ?thesis
  proof (cases "length bs < n \<or> n < length (fd_header ?frame) + ?w")
    case True
    then show ?thesis using Inr
      by (auto simp: analyzeFrame_def judge_frame_def Let_def view_of_def validateFrameBounds_def
          frame_error_take min_def)
  next
    case False
    then have le: "n \<le> length bs" "?w \<le> n" by auto
    have "validateFrameBounds ?frame bs n ?w = Inr ()"
      using False by (simp add: validateFrameBounds_def)
    then show ?thesis using Inr False le
      by (simp add: analyzeFrame_def judge_frame_def Let_def view_of_def
          validateFrameCrc_take [OF le(2,1)] decodeFrameFields_take [OF le(1)] frame_error_take min_absorb2
          cong: sum.case_cong)
  qed
qed (simp add: analyzeFrame_def view_of_def)

lemma analyzeFrame_append:
  assumes "ar_action (analyzeFrame p c (view_of bs) options) \<noteq> NeedMore"
  shows "analyzeFrame p c (view_of (bs @ ext)) options = analyzeFrame p c (view_of bs) options"
proof -
  have "resolveFrameLength p (fp_frames p ! cf_index c) (view_of bs) \<noteq> Inl default_result"
    using assms by (auto simp: analyzeFrame_eq default_result_def)
  from resolveFrameLength_append [OF this, of ext] assms show ?thesis
    by (auto simp: analyzeFrame_eq default_result_def Let_def split: sum.splits if_splits)
qed

subsection \<open>What a parsed frame guarantees\<close>

lemma frame_error_action [simp]:
  "ar_action (frame_error c m frame bs n) = RecoverableError"
  "ar_action (setInvalidLengthError frame m r) = RecoverableError"
  "ar_action default_result = NeedMore"
  by (simp_all add: frame_error_def setInvalidLengthError_def default_result_def)

lemma resolveFieldDecodePlan_Inl:
  "resolveFieldDecodePlan frame field bs n limit cursor parsed = Inl r \<Longrightarrow> ar_action r = RecoverableError"
  by (auto simp: resolveFieldDecodePlan_def Let_def split: sum.splits option.splits)

lemma validateFieldDecodeBounds_error:
  "validateFieldDecodeBounds frame bs n limit plan = BoundsError r \<Longrightarrow> ar_action r = RecoverableError"
  by (auto simp: validateFieldDecodeBounds_def split: if_splits)

lemma decodeFrameFields_Inl:
  "decodeFrameFields frame bs n w fds cursor parsed = Inl r \<Longrightarrow> ar_action r = RecoverableError"
  by (induction fds arbitrary: cursor parsed)
     (auto split: sum.splits FieldDecodeBoundsAction.splits
       dest: resolveFieldDecodePlan_Inl validateFieldDecodeBounds_error)

lemma resolveFrameLength_Inl:
  "resolveFrameLength p frame window = Inl r \<Longrightarrow> ar_action r \<noteq> Parsed"
  by (auto simp: resolveFrameLength_def resolveRuntimeProfileFrameLength_def
      resolveLengthFieldFrameLength_def validateResolvedFrameLength_def
      split: option.splits sum.splits if_splits)

lemma resolveFrameLength_Inr:
  "resolveFrameLength p frame window = Inr n \<Longrightarrow>
     0 < n \<and> (0 < bd_capacity (fp_bufferDefinition p) \<longrightarrow> n \<le> bd_capacity (fp_bufferDefinition p))"
  by (auto simp: resolveFrameLength_def validateResolvedFrameLength_def
      split: option.splits sum.splits if_splits)

definition crc_matches :: "StreamFrameDefinition \<Rightarrow> bytes \<Rightarrow> bool" where
  "crc_matches frame raw \<longleftrightarrow>
     (let w = streamCrcWidth (cd_type (fd_crc frame)) in
      w = 0 \<or> expected_crc (cd_type (fd_crc frame)) (take (length raw - w) raw)
                = readCrcValue raw (length raw) w (cd_order (fd_crc frame)))"

lemma validateFrameCrc_iff:
  "validateFrameCrc frame raw (length raw) (streamCrcWidth (cd_type (fd_crc frame)))
     = (if crc_matches frame raw then Inr ()
        else Inl (frame_error CrcMismatch MsgCrcMismatch frame raw (length raw)))"
  by (simp add: validateFrameCrc_def crc_matches_def Let_def)

lemma judge_frame_not_NeedMore: "ar_action (judge_frame p frame raw options) \<noteq> NeedMore"
  by (auto simp: judge_frame_def Let_def validateFrameCrc_iff split: sum.splits
      dest: decodeFrameFields_Inl)

text \<open>
  \<open>frame_ok\<close>: \<open>raw\<close> is a frame of the definition and \<open>f\<close> its parse, said once and for
  all without the order of the checks.
\<close>

definition frame_ok ::
  "FrameStreamParser \<Rightarrow> StreamFrameDefinition \<Rightarrow> StreamParseOptions \<Rightarrow> bytes \<Rightarrow> StreamParsedFrame \<Rightarrow> bool" where
  "frame_ok p frame options raw f \<longleftrightarrow>
     length (fd_header frame) + streamCrcWidth (cd_type (fd_crc frame)) \<le> length raw \<and>
     crc_matches frame raw \<and>
     decodeFrameFields frame raw (length raw) (streamCrcWidth (cd_type (fd_crc frame)))
       (fd_fields frame) 0 Map.empty = Inr (pf_fields f) \<and>
     pf_name f = fd_name frame \<and> pf_crcOk f \<and>
     pf_raw f = (if po_includeFrameRaw options then raw else []) \<and>
     (if fd_runtimeProfile frame
      then \<exists>profile. fp_runtimeProfiles p (fd_name frame) = Some profile \<and>
             pf_channelMap f = rp_channelMap profile
      else pf_channelMap f = [])"

lemma judge_frame_Parsed:
  "judge_frame p frame raw options =
       \<lparr>ar_action = Parsed, ar_frame = Some f, ar_error = None, ar_frameLength = length raw\<rparr>
     \<longleftrightarrow> frame_ok p frame options raw f"
  by (cases f) (auto simp: judge_frame_def frame_ok_def Let_def validateFrameCrc_iff
      applyRuntimeChannelMap_def frame_error_def default_result_def not_less
      split: sum.splits option.splits dest: decodeFrameFields_Inl)

lemma judge_frame_action:
  "ar_action (judge_frame p frame raw options) = Parsed \<longleftrightarrow> (\<exists>f. frame_ok p frame options raw f)"
proof
  assume "ar_action (judge_frame p frame raw options) = Parsed"
  then obtain f where "judge_frame p frame raw options =
       \<lparr>ar_action = Parsed, ar_frame = Some f, ar_error = None, ar_frameLength = length raw\<rparr>"
    by (auto simp: judge_frame_def Let_def validateFrameCrc_iff split: sum.splits if_splits
        dest: decodeFrameFields_Inl)
  then show "\<exists>f. frame_ok p frame options raw f" by (auto simp: judge_frame_Parsed)
next
  assume "\<exists>f. frame_ok p frame options raw f"
  then show "ar_action (judge_frame p frame raw options) = Parsed"
    by (auto simp: judge_frame_Parsed [symmetric])
qed

end
