(* ===== verification/Frame_Buckets.thy ===== *)
theory Frame_Buckets
  imports Frame_Analysis
begin

text \<open>
  The invariant of the parser object: the ring is well formed, the compiled metadata
  and the header buckets are those of the frame definitions, the capacity lies
  between the configured one and the growth limit. The constructor establishes it, the
  profile operations keep it; the buckets make \<open>findCandidate\<close> the search for the first
  position at which some header stands in full.
\<close>

subsection \<open>Compiled metadata\<close>

lemma accumulate_keeps [simp]:
  "cf_index (accumulateFixedFieldBytes fds c) = cf_index c"
  "cf_hasHeader (accumulateFixedFieldBytes fds c) = cf_hasHeader c"
  "cf_firstHeaderByte (accumulateFixedFieldBytes fds c) = cf_firstHeaderByte c"
  "cf_minFrameLength (accumulateFixedFieldBytes fds c) = cf_minFrameLength c"
  by (induction fds arbitrary: c) (auto split: option.splits)

lemma compile_keeps [simp]:
  "cf_index (compileFrameMetadata i frame) = i"
  "cf_hasHeader (compileFrameMetadata i frame) \<longleftrightarrow> fd_header frame \<noteq> []"
  "fd_header frame \<noteq> [] \<Longrightarrow> cf_firstHeaderByte (compileFrameMetadata i frame) = hd (fd_header frame)"
  by (auto simp: compileFrameMetadata_def applyFixedFieldMinimum_def
      applyDeclaredFrameLengthMinimum_def split: option.splits list.splits)

text \<open>The sum of the fixed fields, unbounded: what \<open>accumulateFixedFieldBytes\<close> computes.\<close>

definition fixed_bytes :: "StreamFieldDefinition list \<Rightarrow> nat" where
  "fixed_bytes fds = sum_list (map (\<lambda>f. case fc_fixed (sf_count f) of
       None \<Rightarrow> 0 | Some n \<Rightarrow> n * streamValueWidth (sf_type f)) fds)"

lemma accumulate_fixed_bytes:
  "cf_fixedFieldBytes c \<le> size_max \<Longrightarrow>
     cf_fixedFieldBytes (accumulateFixedFieldBytes fds c)
       = min size_max (cf_fixedFieldBytes c + fixed_bytes fds)"
proof (induction fds arbitrary: c)
  case (Cons f fds)
  show ?case
  proof (cases "fc_fixed (sf_count f)")
    case (Some n)
    let ?b = "n * streamValueWidth (sf_type f)"
    have "Option.bind (checkedMultiplySize n (streamValueWidth (sf_type f)))
            (checkedAddSize (cf_fixedFieldBytes c))
        = (if cf_fixedFieldBytes c + ?b \<le> size_max then Some (cf_fixedFieldBytes c + ?b) else None)"
      by (auto simp: checkedMultiplySize_iff checkedAddSize_iff)
    then show ?thesis using Some Cons by (simp add: fixed_bytes_def add.assoc)
  qed (use Cons in \<open>simp add: fixed_bytes_def\<close>)
qed (simp add: fixed_bytes_def)

subsection \<open>The invariant\<close>

definition min_length :: "StreamFrameDefinition list \<Rightarrow> nat \<Rightarrow> nat" where
  "min_length frames i = cf_minFrameLength (compileFrameMetadata i (frames ! i))"

definition header_bucket :: "StreamFrameDefinition list \<Rightarrow> u8 \<Rightarrow> nat list" where
  "header_bucket frames b =
     filter (\<lambda>i. fd_header (frames ! i) \<noteq> [] \<and> hd (fd_header (frames ! i)) = b) [0..<length frames]"

definition compiled_ok :: "FrameStreamParser \<Rightarrow> bool" where
  "compiled_ok p \<longleftrightarrow>
     fp_compiledFrames p =
       map (\<lambda>i. compileFrameMetadata i (fp_frames p ! i)) [0..<length (fp_frames p)] \<and>
     length (fp_headerFirstByteIndex p) = 256 \<and> length (fp_sortedHeaderFirstByteIndex p) = 256 \<and>
     (\<forall>b. fp_headerFirstByteIndex p ! unat b = header_bucket (fp_frames p) b) \<and>
     (\<forall>b. fp_sortedHeaderFirstByteIndex p ! unat b
            = sort_key (\<lambda>i. - int (min_length (fp_frames p) i)) (header_bucket (fp_frames p) b)) \<and>
     fp_maxHeaderLength p = fold max (map (\<lambda>f. length (fd_header f)) (fp_frames p)) 0"

definition parser_wf :: "FrameStreamParser \<Rightarrow> bool" where
  "parser_wf p \<longleftrightarrow> compiled_ok p \<and> rb_wf (fp_buffer p) \<and>
     bd_capacity (fp_bufferDefinition p) \<le> rb_capacity (fp_buffer p) \<and>
     rb_capacity (fp_buffer p)
       \<le> max (bd_capacity (fp_bufferDefinition p)) (bd_maxCapacity (fp_bufferDefinition p))"

subsection \<open>The constructor establishes it\<close>

definition register_step :: "StreamFrameDefinition list \<Rightarrow> nat \<Rightarrow> FrameStreamParser \<Rightarrow> FrameStreamParser"
  where "register_step frames i =
           registerCompiledFrame (frames ! i) (compileFrameMetadata i (frames ! i))"

definition registered :: "FrameStreamParser \<Rightarrow> nat \<Rightarrow> FrameStreamParser \<Rightarrow> bool" where
  "registered p n q \<longleftrightarrow>
     fp_frames q = fp_frames p \<and> fp_buffer q = fp_buffer p \<and>
     fp_bufferDefinition q = fp_bufferDefinition p \<and> fp_runtimeProfiles q = fp_runtimeProfiles p \<and>
     fp_compiledFrames q = map (\<lambda>i. compileFrameMetadata i (fp_frames p ! i)) [0..<n] \<and>
     length (fp_headerFirstByteIndex q) = 256 \<and> length (fp_sortedHeaderFirstByteIndex q) = 256 \<and>
     (\<forall>b. fp_headerFirstByteIndex q ! unat b = header_bucket (take n (fp_frames p)) b) \<and>
     (\<forall>b. fp_sortedHeaderFirstByteIndex q ! unat b = header_bucket (take n (fp_frames p)) b) \<and>
     fp_maxHeaderLength q = fold max (map (\<lambda>f. length (fd_header f)) (take n (fp_frames p))) 0"

lemma header_bucket_Suc:
  assumes "n < length frames"
  shows "header_bucket (take (Suc n) frames) b =
    header_bucket (take n frames) b @
      (if fd_header (frames ! n) \<noteq> [] \<and> hd (fd_header (frames ! n)) = b then [n] else [])"
proof -
  have "header_bucket (take m frames) b =
      filter (\<lambda>i. fd_header (frames ! i) \<noteq> [] \<and> hd (fd_header (frames ! i)) = b) [0..<m]"
    if "m \<le> length frames" for m
    using that unfolding header_bucket_def by (intro filter_cong) auto
  from this [of n] this [of "Suc n"] assms show ?thesis by simp
qed

lemma unat_u8_eq [simp]: "unat (a :: u8) = unat b \<longleftrightarrow> a = b"
  by (simp add: word_unat_eq_iff)

lemma push_bucket_nth:
  "length bs = 256 \<Longrightarrow>
     push_bucket bs b i ! unat c = (if b = c then bs ! unat c @ [i] else bs ! unat c)"
  by (simp add: push_bucket_def nth_list_update)

lemma registered_step:
  assumes reg: "registered p n q" and n: "n < length (fp_frames p)"
  shows "registered p (Suc n) (register_step (fp_frames p) n q)"
proof -
  have "take (Suc n) (fp_frames p) = take n (fp_frames p) @ [fp_frames p ! n]"
    using n by (simp add: take_Suc_conv_app_nth)
  then have fold: "fold max (map (\<lambda>f. length (fd_header f)) (take (Suc n) (fp_frames p))) 0
      = max (fold max (map (\<lambda>f. length (fd_header f)) (take n (fp_frames p))) 0)
          (length (fd_header (fp_frames p ! n)))"
    by (simp add: max.commute)
  have len: "length (push_bucket bs b i) = length bs" for bs b i by (simp add: push_bucket_def)
  show ?thesis
    using reg unfolding registered_def fold register_step_def registerCompiledFrame_def Let_def
    by (cases "fd_header (fp_frames p ! n) = []")
       (auto simp: len header_bucket_Suc [OF n] push_bucket_nth)
qed

lemma registered_fold:
  "registered p 0 q \<Longrightarrow> n \<le> length (fp_frames p) \<Longrightarrow>
     registered p n (fold (register_step (fp_frames p)) [0..<n] q)"
  by (induction n) (simp_all add: registered_step)

lemma insort_key_cong:
  "(\<And>y. y \<in> insert x (set ys) \<Longrightarrow> f y = g y) \<Longrightarrow> insort_key f x ys = insort_key g x ys"
  by (induction ys) auto

lemma sort_key_cong:
  "(\<And>x. x \<in> set xs \<Longrightarrow> f x = g x) \<Longrightarrow> sort_key f xs = sort_key g xs"
proof (induction xs)
  case (Cons x xs)
  then have "sort_key f xs = sort_key g xs" by simp
  moreover have "insort_key f x (sort_key g xs) = insort_key g x (sort_key g xs)"
    using Cons.prems by (intro insort_key_cong) auto
  ultimately show ?case by simp
qed simp

lemma buildCompiledFrames_ok:
  "compiled_ok (buildCompiledFrames p) \<and> fp_frames (buildCompiledFrames p) = fp_frames p \<and>
   fp_buffer (buildCompiledFrames p) = fp_buffer p \<and>
   fp_bufferDefinition (buildCompiledFrames p) = fp_bufferDefinition p \<and>
   fp_runtimeProfiles (buildCompiledFrames p) = fp_runtimeProfiles p"
proof -
  let ?n = "length (fp_frames p)"
  let ?q = "fold (register_step (fp_frames p)) [0..<?n] (resetCompiledFrameIndexes p)"
  have start: "registered p 0 (resetCompiledFrameIndexes p)"
    using less_le_trans [OF unat_u8_less]
    by (auto simp: registered_def resetCompiledFrameIndexes_def header_bucket_def)
  note reg = registered_fold [OF start order_refl]
  have sort: "map (sort_key (\<lambda>i. - int (cf_minFrameLength (fp_compiledFrames ?q ! i))))
        (fp_sortedHeaderFirstByteIndex ?q) ! unat b
      = sort_key (\<lambda>i. - int (min_length (fp_frames p) i)) (header_bucket (fp_frames p) b)" for b
  proof -
    have "sort_key (\<lambda>i. - int (cf_minFrameLength (fp_compiledFrames ?q ! i))) (header_bucket (fp_frames p) b)
        = sort_key (\<lambda>i. - int (min_length (fp_frames p) i)) (header_bucket (fp_frames p) b)"
      using reg by (intro sort_key_cong) (auto simp: registered_def min_length_def header_bucket_def)
    then show ?thesis using reg by (simp add: registered_def)
  qed
  have "buildCompiledFrames p = sortCompiledFrameHeaderBuckets ?q"
    by (simp add: buildCompiledFrames_def register_step_def [abs_def])
  then show ?thesis using reg sort
    by (simp add: sortCompiledFrameHeaderBuckets_def compiled_ok_def registered_def)
qed

lemma new_parser_wf [wf_intros]: "parser_wf (new_FrameStreamParser bufferDef frames)"
  using buildCompiledFrames_ok
  by (auto simp: new_FrameStreamParser_def parser_wf_def ByteRingBuffer_def rb_wf_def rb_capacity_def)

lemma new_parser_empty: "rb_contents (fp_buffer (new_FrameStreamParser bufferDef frames)) = []"
  using buildCompiledFrames_ok
  by (simp add: new_FrameStreamParser_def ByteRingBuffer_def rb_contents_def)

subsection \<open>The other operations keep it\<close>

lemma compiled_ok_profiles [simp]:
  "compiled_ok (p\<lparr>fp_runtimeProfiles := m\<rparr>) = compiled_ok p"
  "compiled_ok (p\<lparr>fp_buffer := r\<rparr>) = compiled_ok p"
  by (simp_all add: compiled_ok_def)

lemma parser_wf_profiles [simp]: "parser_wf (p\<lparr>fp_runtimeProfiles := m\<rparr>) = parser_wf p"
  by (simp add: parser_wf_def)

lemma parser_reset_wf [wf_intros]: "parser_wf p \<Longrightarrow> parser_wf (parser_reset p)"
  by (auto simp: parser_wf_def parser_reset_def rb_reset_def rb_wf_def rb_capacity_def)

lemma clearRuntimeProfiles_wf [wf_intros]: "parser_wf p \<Longrightarrow> parser_wf (clearRuntimeProfiles p)"
  by (simp add: clearRuntimeProfiles_def)

lemma setRuntimeProfile_wf [wf_intros]:
  "parser_wf p \<Longrightarrow> setRuntimeProfile nm profile p = Inr p' \<Longrightarrow> parser_wf p'"
  by (auto simp: setRuntimeProfile_def split: option.splits if_splits)

lemma clearRuntimeProfile_wf [wf_intros]:
  "parser_wf p \<Longrightarrow> clearRuntimeProfile nm p = Inr p' \<Longrightarrow> parser_wf p'"
  by (auto simp: clearRuntimeProfile_def split: option.splits)

text \<open>A channel map is accepted when its targets are distinct and small enough for Lua.\<close>

lemma insert_targets_iff: "insert_targets S xs \<longleftrightarrow> distinct xs \<and> S \<inter> set xs = {}"
  by (induction S xs rule: insert_targets.induct) auto

lemma fold_max_bound: "fold max xs (a :: nat) \<le> m \<longleftrightarrow> a \<le> m \<and> (\<forall>x \<in> set xs. x \<le> m)"
  by (induction xs arbitrary: a) auto

lemma checkChannelMap_None:
  "checkChannelMap xs = None \<longleftrightarrow> distinct xs \<and> (\<forall>x \<in> set xs. int x < int64_max)"
proof (cases "xs = []")
  case False
  have "size_max > nat (int64_max - 1)" by (simp add: size_max_def int64_max_def)
  then have "checkChannelMap xs = None \<longleftrightarrow> fold max xs 0 \<le> nat (int64_max - 1) \<and> distinct xs"
    using False by (auto simp: checkChannelMap_def Let_def insert_targets_iff split: if_splits)
  moreover have bound: "x \<le> nat (int64_max - 1) \<longleftrightarrow> int x < int64_max" for x
  proof -
    have "0 < int64_max" by (simp add: int64_max_def)
    then have "x \<le> nat (int64_max - 1) \<longleftrightarrow> int x \<le> int64_max - 1" by (subst le_nat_iff) auto
    then show ?thesis by simp
  qed
  ultimately show ?thesis unfolding fold_max_bound by blast
qed (simp add: checkChannelMap_def)

text \<open>Every stored profile is a legal one.\<close>

definition profiles_ok :: "FrameStreamParser \<Rightarrow> bool" where
  "profiles_ok p \<longleftrightarrow> (\<forall>nm profile. fp_runtimeProfiles p nm = Some profile \<longrightarrow>
     0 < rp_length profile \<and>
     (0 < bd_capacity (fp_bufferDefinition p) \<longrightarrow> rp_length profile \<le> bd_capacity (fp_bufferDefinition p)) \<and>
     distinct (rp_channelMap profile) \<and> (\<forall>x \<in> set (rp_channelMap profile). int x < int64_max) \<and>
     (\<exists>frame \<in> set (fp_frames p). fd_name frame = nm \<and> fd_runtimeProfile frame))"

lemma new_profiles_ok: "profiles_ok (new_FrameStreamParser bufferDef frames)"
  using buildCompiledFrames_ok by (simp add: profiles_ok_def new_FrameStreamParser_def)

lemma setRuntimeProfile_ok:
  assumes ok: "profiles_ok p" and set: "setRuntimeProfile nm profile p = Inr p'"
  shows "profiles_ok p' \<and> fp_runtimeProfiles p' = (fp_runtimeProfiles p)(nm \<mapsto> profile)"
proof -
  obtain frame where frame: "find (\<lambda>frame. fd_name frame = nm) (fp_frames p) = Some frame"
    using set by (auto simp: setRuntimeProfile_def split: option.splits)
  then have "frame \<in> set (fp_frames p)" "fd_name frame = nm"
    by (auto simp: find_Some_iff)
  then show ?thesis using ok set frame
    by (auto simp: setRuntimeProfile_def profiles_ok_def checkChannelMap_None
        split: option.splits if_splits)
qed

lemma clearRuntimeProfile_ok:
  "profiles_ok p \<Longrightarrow> clearRuntimeProfile nm p = Inr p' \<Longrightarrow> profiles_ok p'"
  by (auto simp: clearRuntimeProfile_def profiles_ok_def split: option.splits if_splits)

subsection \<open>The buckets\<close>

text \<open>The definitions of a bucket, longest minimal length first, ties in declaration order.\<close>

lemma set_bucket:
  "compiled_ok p \<Longrightarrow> set (fp_sortedHeaderFirstByteIndex p ! unat (b :: u8)) =
     {i. i < length (fp_frames p) \<and> fd_header (fp_frames p ! i) \<noteq> [] \<and> hd (fd_header (fp_frames p ! i)) = b}"
  by (auto simp: compiled_ok_def header_bucket_def)

lemma bucket_sorted:
  "compiled_ok p \<Longrightarrow>
     sorted_wrt (\<lambda>i j. min_length (fp_frames p) j \<le> min_length (fp_frames p) i)
       (fp_sortedHeaderFirstByteIndex p ! unat (b :: u8))"
proof -
  let ?f = "\<lambda>i. - int (min_length (fp_frames p) i)"
  assume "compiled_ok p"
  moreover have "sorted (map ?f (sort_key ?f (header_bucket (fp_frames p) b)))" by simp
  ultimately show ?thesis by (simp add: compiled_ok_def sorted_wrt_map)
qed

lemma bucket_stable:
  "compiled_ok p \<Longrightarrow>
     filter (\<lambda>i. min_length (fp_frames p) i = k) (fp_sortedHeaderFirstByteIndex p ! unat (b :: u8))
       = filter (\<lambda>i. min_length (fp_frames p) i = k) (fp_headerFirstByteIndex p ! unat b)"
  using sort_key_stable [of "\<lambda>i. - int (min_length (fp_frames p) i)" "- int k" "header_bucket (fp_frames p) b"]
  by (simp add: compiled_ok_def)

subsection \<open>The candidates\<close>

definition header_at :: "FrameStreamParser \<Rightarrow> bytes \<Rightarrow> nat \<Rightarrow> nat \<Rightarrow> bool" where
  "header_at p window start i \<longleftrightarrow> i < length (fp_frames p) \<and> fd_header (fp_frames p ! i) \<noteq> [] \<and>
     take (length (fd_header (fp_frames p ! i))) (drop start window) = fd_header (fp_frames p ! i)"

lemma header_matches_iff:
  assumes "start < length window"
  shows "header_matches window start header \<and> hd header = window ! start \<longleftrightarrow>
    header \<noteq> [] \<and> take (length header) (drop start window) = header"
proof
  assume *: "header_matches window start header \<and> hd header = window ! start"
  then have len: "header \<noteq> []" "start + length header \<le> length window"
    by (auto simp: header_matches_def)
  have "window ! (start + i) = header ! i" if "i < length header" for i
  proof (cases i)
    case 0
    then show ?thesis using * len by (simp add: hd_conv_nth)
  next
    case (Suc j)
    then have "i \<in> set [1..<length header]" using that by simp
    then show ?thesis using * by (simp add: header_matches_def)
  qed
  then show "header \<noteq> [] \<and> take (length header) (drop start window) = header"
    using len by (auto intro!: nth_equalityI)
next
  assume *: "header \<noteq> [] \<and> take (length header) (drop start window) = header"
  then have "length (take (length header) (drop start window)) = length header" by simp
  then have len: "length header \<le> length window - start" by simp
  have nth: "window ! (start + i) = header ! i" if "i < length header" for i
    using * that len assms by (metis nth_drop nth_take less_imp_le)
  show "header_matches window start header \<and> hd header = window ! start"
    using * len nth nth [of 0] assms by (auto simp: header_matches_def hd_conv_nth)
qed

lemma set_matched_candidates:
  "compiled_ok p \<Longrightarrow> start < length window \<Longrightarrow>
     set (matched_candidates p window start) = {i. header_at p window start i}"
  using header_matches_iff [of start window]
  by (auto simp: matched_candidates_def set_bucket header_at_def)

lemma candidate_from_spec:
  assumes "start + n = length window"
  shows "candidate_from p window start n =
    (case find (\<lambda>s. matched_candidates p window s \<noteq> []) [start..<length window] of
       None \<Rightarrow> None | Some s \<Rightarrow> Some (s, matched_candidates p window s))"
  using assms
proof (induction n arbitrary: start)
  case (Suc n)
  then have "[start..<length window] = start # [Suc start..<length window]"
    by (simp add: upt_conv_Cons)
  then show ?case using Suc by (simp add: Let_def)
qed simp

text \<open>The search over a window, as a function of its bytes.\<close>

definition candidate_in :: "FrameStreamParser \<Rightarrow> bytes \<Rightarrow> (nat \<times> nat list) option" where
  "candidate_in p bs = candidate_from p bs 0 (length bs)"

lemma findCandidate_contents:
  "parser_wf p \<Longrightarrow> findCandidate p = candidate_in p (rb_contents (fp_buffer p))"
  by (simp add: findCandidate_def candidate_in_def ensureLinearWindow_def Let_def parser_wf_def
      rb_linearRead_contents)

lemma matched_empty_iff:
  "compiled_ok p \<Longrightarrow> s < length bs \<Longrightarrow>
     matched_candidates p bs s = [] \<longleftrightarrow> (\<forall>i. \<not> header_at p bs s i)"
  using set_matched_candidates [of p s bs] by (metis Collect_empty_eq set_empty)

lemma candidate_in_Some:
  assumes "compiled_ok p"
  shows "candidate_in p bs = Some (s, idxs) \<longleftrightarrow>
    s < length bs \<and> idxs = matched_candidates p bs s \<and> (\<exists>i. header_at p bs s i) \<and>
    (\<forall>s' < s. \<forall>i. \<not> header_at p bs s' i)"
proof -
  have "candidate_in p bs = Some (s, idxs) \<longleftrightarrow>
      find (\<lambda>s. matched_candidates p bs s \<noteq> []) [0..<length bs] = Some s \<and>
      idxs = matched_candidates p bs s"
    by (auto simp: candidate_in_def candidate_from_spec split: option.splits)
  also have "\<dots> \<longleftrightarrow> s < length bs \<and> matched_candidates p bs s \<noteq> [] \<and>
      (\<forall>s' < s. matched_candidates p bs s' = []) \<and> idxs = matched_candidates p bs s"
    by (auto simp: find_Some_iff)
  also have "\<dots> \<longleftrightarrow> s < length bs \<and> idxs = matched_candidates p bs s \<and> (\<exists>i. header_at p bs s i) \<and>
    (\<forall>s' < s. \<forall>i. \<not> header_at p bs s' i)"
    using matched_empty_iff [OF assms] by (meson less_trans)
  finally show ?thesis .
qed

lemma candidate_in_None:
  assumes "compiled_ok p"
  shows "candidate_in p bs = None \<longleftrightarrow> (\<forall>s i. s < length bs \<longrightarrow> \<not> header_at p bs s i)"
proof -
  have "candidate_in p bs = None \<longleftrightarrow>
      find (\<lambda>s. matched_candidates p bs s \<noteq> []) [0..<length bs] = None"
    by (auto simp: candidate_in_def candidate_from_spec split: option.splits)
  also have "\<dots> \<longleftrightarrow> (\<forall>s < length bs. matched_candidates p bs s = [])"
    by (auto simp: find_None_iff)
  finally show ?thesis using matched_empty_iff [OF assms] by auto
qed

end
