(* ===== verification/Frame_Stream.thy ===== *)
theory Frame_Stream
  imports Frame_Buckets
begin

text \<open>
  The parse loop of \<open>FrameStreamParser::pushBytes\<close> (\<open>frame_stream_parser.cc\<close>) and its
  specification. The loop is a partial function over the parser and the batch it
  fills: \<open>None\<close> would be a run that does not end (or the exception of \<open>at\<close>). The
  specification \<open>parse_stream\<close> is a terminating function over the buffered bytes,
  which cuts them into items (noise, one byte given up on, a frame) and a rest; the loop
  refines it.
\<close>

subsection \<open>The code\<close>

definition ensureAppendCapacity :: "FrameStreamParser \<Rightarrow> nat \<Rightarrow> FrameStreamParser option" where
  "ensureAppendCapacity p incomingSize =
     (if bd_dropOldest (fp_bufferDefinition p) then Some p
      else
        let availableCapacity = size_max - rb_size (fp_buffer p);
            requiredCapacity = (if availableCapacity < incomingSize then size_max
                                else rb_size (fp_buffer p) + incomingSize);
            capacity = rb_capacity (fp_buffer p);
            maxCapacity = bd_maxCapacity (fp_bufferDefinition p)
        in if capacity < requiredCapacity \<and> capacity < maxCapacity
           then map_option (\<lambda>r. p\<lparr>fp_buffer := r\<rparr>)
                  (rb_ensureCapacity (fp_buffer p) (min requiredCapacity maxCapacity))
           else Some p)"

definition push_error :: "StreamParseError \<Rightarrow> StreamParseBatch \<Rightarrow> StreamParseBatch" where
  "push_error e batch =
     batch\<lparr>pb_events := pb_events batch @ [EventError (length (pb_errors batch))],
           pb_errors := pb_errors batch @ [e]\<rparr>"

definition push_frame :: "StreamParsedFrame \<Rightarrow> StreamParseBatch \<Rightarrow> StreamParseBatch" where
  "push_frame f batch =
     batch\<lparr>pb_events := pb_events batch @ [EventFrame (length (pb_frames batch))],
           pb_frames := pb_frames batch @ [f]\<rparr>"

definition stream_error :: "StreamParseErrorCode \<Rightarrow> parse_msg \<Rightarrow> nat \<Rightarrow> StreamParseError" where
  "stream_error code message dropped =
     \<lparr>pe_code = code, pe_message = message, pe_frameName = None, pe_droppedBytes = dropped,
      pe_raw = []\<rparr>"

definition updateNearOverflowStatus :: "FrameStreamParser \<Rightarrow> StreamParseBatch \<Rightarrow> StreamParseBatch" where
  "updateNearOverflowStatus p batch =
     (if bd_nearOverflowNotify (fp_bufferDefinition p) \<and> 0 < pb_bufferCapacity batch \<and>
         \<not> pb_overflowed batch
      then let ratio = f64_divide (f64_of_nat (pb_bufferSize batch)) (f64_of_nat (pb_bufferCapacity batch))
           in batch\<lparr>pb_nearOverflow :=
                f64_le (bd_nearOverflowThresholdRatio (fp_bufferDefinition p)) ratio\<rparr>
      else batch)"

definition empty_batch :: StreamParseBatch where
  "empty_batch = \<lparr>pb_frames = [], pb_errors = [], pb_bufferSize = 0, pb_bufferCapacity = 0,
     pb_nearOverflow = False, pb_overflowed = False, pb_droppedBytes = 0, pb_events = []\<rparr>"

definition appendIncomingBytes ::
  "FrameStreamParser \<Rightarrow> bytes \<Rightarrow> (FrameStreamParser \<times> StreamParseBatch) option" where
  "appendIncomingBytes p data =
     (case ensureAppendCapacity p (length data) of
        None \<Rightarrow> None
      | Some p1 \<Rightarrow>
          let appended = rb_append (fp_buffer p1) data (bd_dropOldest (fp_bufferDefinition p1));
              p2 = p1\<lparr>fp_buffer := fst appended\<rparr>;
              dropped = snd appended;
              batch = empty_batch\<lparr>pb_bufferSize := rb_size (fp_buffer p2),
                        pb_bufferCapacity := rb_capacity (fp_buffer p2),
                        pb_droppedBytes := dropped, pb_overflowed := (0 < dropped)\<rparr>;
              batch1 = (if 0 < dropped
                        then push_error (stream_error Overflow MsgBufferOverflow dropped) batch
                        else batch)
          in Some (p2, updateNearOverflowStatus p2 batch1))"

definition discardUnmatchedPrefix ::
  "FrameStreamParser \<Rightarrow> StreamParseBatch \<Rightarrow> FrameStreamParser \<times> StreamParseBatch" where
  "discardUnmatchedPrefix p batch =
     (let keep = (if 0 < fp_maxHeaderLength p then fp_maxHeaderLength p - 1 else 0) in
      if rb_size (fp_buffer p) \<le> keep then (p, batch)
      else
        let droppedNoise = rb_size (fp_buffer p) - keep
        in (p\<lparr>fp_buffer := rb_discardFront (fp_buffer p) droppedNoise\<rparr>,
            push_error (stream_error NoiseDiscarded MsgNoHeader droppedNoise) batch))"

definition discardCandidatePrefix ::
  "FrameStreamParser \<Rightarrow> nat \<Rightarrow> StreamParseBatch \<Rightarrow> (FrameStreamParser \<times> StreamParseBatch) option" where
  "discardCandidatePrefix p start batch =
     (if start = 0 then None
      else Some (p\<lparr>fp_buffer := rb_discardFront (fp_buffer p) start\<rparr>,
                 push_error (stream_error NoiseDiscarded MsgSkippedNoise start) batch))"

partial_function (option) push_loop ::
  "FrameStreamParser \<Rightarrow> StreamParseOptions \<Rightarrow> StreamParseBatch
     \<Rightarrow> (FrameStreamParser \<times> StreamParseBatch) option" where
  "push_loop p options batch =
     (if rb_empty (fp_buffer p) then Some (p, batch)
      else case findCandidate p of
        None \<Rightarrow> Some (discardUnmatchedPrefix p batch)
      | Some (start, indexes) \<Rightarrow>
          (case discardCandidatePrefix p start batch of
             Some (p1, batch1) \<Rightarrow> push_loop p1 options batch1
           | None \<Rightarrow>
               let r = analyzeCandidateFrames p indexes options in
               if ar_action r = Parsed \<and> ar_frame r \<noteq> None then
                 push_loop (p\<lparr>fp_buffer := rb_discardFront (fp_buffer p) (ar_frameLength r)\<rparr>) options
                   (push_frame (the (ar_frame r)) batch)
               else if ar_action r = NeedMore then Some (p, batch)
               else push_loop (p\<lparr>fp_buffer := rb_discardFront (fp_buffer p) 1\<rparr>) options
                      (case ar_error r of None \<Rightarrow> batch | Some e \<Rightarrow> push_error e batch)))"

definition pushBytes ::
  "FrameStreamParser \<Rightarrow> bytes \<Rightarrow> StreamParseOptions \<Rightarrow> (FrameStreamParser \<times> StreamParseBatch) option"
  where
  "pushBytes p data options =
     (if data = [] then
        Some (p, empty_batch\<lparr>pb_bufferSize := rb_size (fp_buffer p),
                             pb_bufferCapacity := rb_capacity (fp_buffer p)\<rparr>)
      else case appendIncomingBytes p data of
        None \<Rightarrow> None
      | Some (p1, batch) \<Rightarrow>
          if fp_frames p1 = [] then Some (p1, batch)
          else map_option (\<lambda>(p2, batch2). (p2, batch2\<lparr>pb_bufferSize := rb_size (fp_buffer p2)\<rparr>))
                 (push_loop p1 options batch))"

subsection \<open>The specification\<close>

text \<open>The candidates' verdict on the buffered bytes.\<close>

definition verdict :: "FrameStreamParser \<Rightarrow> bytes \<Rightarrow> nat list \<Rightarrow> StreamParseOptions \<Rightarrow> analyze_result" where
  "verdict p bs indexes options = analyze_candidates p (view_of bs) options indexes False None"

lemma analyze_candidates_view:
  "lv_data window = Some bs \<Longrightarrow>
     analyze_candidates p window options idxs nm fe
       = analyze_candidates p (view_of bs) options idxs nm fe"
  by (induction idxs arbitrary: nm fe) (simp_all only: analyze_candidates.simps analyzeFrame_view [of window bs])

lemma linear_window_data:
  assumes "parser_wf p" "rb_contents (fp_buffer p) \<noteq> []"
  shows "lv_data (ensureLinearWindow p (rb_size (fp_buffer p))) = Some (rb_contents (fp_buffer p))"
proof -
  have "lv_bytes (ensureLinearWindow p (rb_size (fp_buffer p))) = rb_contents (fp_buffer p)"
    using assms by (simp add: ensureLinearWindow_def parser_wf_def rb_linearRead_contents)
  then show ?thesis using assms by (auto simp: lv_bytes_def split: option.splits)
qed

lemma analyzeCandidateFrames_contents:
  "parser_wf p \<Longrightarrow> rb_contents (fp_buffer p) \<noteq> [] \<Longrightarrow>
     analyzeCandidateFrames p idxs options = verdict p (rb_contents (fp_buffer p)) idxs options"
  by (simp add: analyzeCandidateFrames_def verdict_def
      analyze_candidates_view [OF linear_window_data])

lemma view_of_data [simp]: "lv_data (view_of bs) = Some bs"
  by (simp add: view_of_def)

text \<open>A parsed frame has a length the window holds, and is one of the candidates'.\<close>

lemma analyzeFrame_Parsed:
  "ar_action (analyzeFrame p c (view_of bs) options) = Parsed \<longleftrightarrow>
     (\<exists>n f. resolveFrameLength p (fp_frames p ! cf_index c) (view_of bs) = Inr n \<and> n \<le> length bs \<and>
        frame_ok p (fp_frames p ! cf_index c) options (take n bs) f \<and>
        analyzeFrame p c (view_of bs) options =
          \<lparr>ar_action = Parsed, ar_frame = Some f, ar_error = None, ar_frameLength = n\<rparr>)"
  (is "?L \<longleftrightarrow> ?R")
proof
  assume ?L
  then obtain n where n: "resolveFrameLength p (fp_frames p ! cf_index c) (view_of bs) = Inr n"
    "n \<le> length bs" "ar_action (judge_frame p (fp_frames p ! cf_index c) (take n bs) options) = Parsed"
    by (auto simp: analyzeFrame_eq Let_def split: sum.splits if_splits dest: resolveFrameLength_Inl)
  then obtain f where "frame_ok p (fp_frames p ! cf_index c) options (take n bs) f"
    by (auto simp: judge_frame_action)
  then show ?R using n judge_frame_Parsed [of p "fp_frames p ! cf_index c" "take n bs" options f]
    by (auto simp: analyzeFrame_eq min_def)
qed auto

lemma analyze_candidates_Parsed:
  assumes "ar_action (analyze_candidates p (view_of bs) options idxs nm fe) = Parsed"
  shows "\<exists>i f. i \<in> set idxs \<and>
    analyze_candidates p (view_of bs) options idxs nm fe
      = analyzeFrame p (fp_compiledFrames p ! i) (view_of bs) options \<and>
    ar_action (analyzeFrame p (fp_compiledFrames p ! i) (view_of bs) options) = Parsed"
  using assms
proof (induction idxs arbitrary: nm fe)
  case Nil
  then show ?case by (auto split: if_splits)
next
  case (Cons i idxs)
  let ?r = "analyzeFrame p (fp_compiledFrames p ! i) (view_of bs) options"
  show ?case
  proof (cases "ar_action ?r = Parsed")
    case True
    then obtain n f where "?r = \<lparr>ar_action = Parsed, ar_frame = Some f, ar_error = None, ar_frameLength = n\<rparr>"
      using iffD1 [OF analyzeFrame_Parsed] by blast
    then show ?thesis by (intro exI [of _ i]) simp
  next
    case False
    obtain nm' fe' where step: "analyze_candidates p (view_of bs) options (i # idxs) nm fe
        = analyze_candidates p (view_of bs) options idxs nm' fe'"
    proof (cases "ar_action ?r = NeedMore")
      case True
      then show thesis by (intro that [of True fe]) (simp only: analyze_candidates.simps Let_def simp_thms analyze_action.simps if_True if_False)
    next
      case not_more: False
      show thesis using not_more False
        by (intro that [of nm "if fe = None \<and> ar_error ?r \<noteq> None then ar_error ?r else fe"])
           (simp only: analyze_candidates.simps Let_def simp_thms if_False)
    qed
    have "ar_action (analyze_candidates p (view_of bs) options idxs nm' fe') = Parsed"
      using Cons.prems unfolding step .
    from Cons.IH [OF this] show ?thesis unfolding step by (metis list.set_intros(2))
  qed
qed

lemma compiled_index:
  "compiled_ok p \<Longrightarrow> i < length (fp_frames p) \<Longrightarrow> cf_index (fp_compiledFrames p ! i) = i"
  by (simp add: compiled_ok_def)

lemma verdict_Parsed:
  assumes ok: "compiled_ok p" and cand: "candidate_in p bs = Some (0, idxs)"
    and parsed: "ar_action (verdict p bs idxs options) = Parsed"
  shows "\<exists>i n f. header_at p bs 0 i \<and>
    resolveFrameLength p (fp_frames p ! i) (view_of bs) = Inr n \<and> 0 < n \<and> n \<le> length bs \<and>
    frame_ok p (fp_frames p ! i) options (take n bs) f \<and>
    verdict p bs idxs options
      = \<lparr>ar_action = Parsed, ar_frame = Some f, ar_error = None, ar_frameLength = n\<rparr>"
proof -
  obtain i where i: "i \<in> set idxs"
    "verdict p bs idxs options = analyzeFrame p (fp_compiledFrames p ! i) (view_of bs) options"
    "ar_action (analyzeFrame p (fp_compiledFrames p ! i) (view_of bs) options) = Parsed"
    using analyze_candidates_Parsed [OF parsed [unfolded verdict_def]] by (auto simp: verdict_def)
  have "0 < length bs" "idxs = matched_candidates p bs 0"
    using cand by (simp_all add: candidate_in_Some [OF ok])
  then have at: "header_at p bs 0 i" using i(1) ok by (auto simp: set_matched_candidates)
  then have "cf_index (fp_compiledFrames p ! i) = i"
    using compiled_index [OF ok] by (auto simp: header_at_def)
  with i at iffD1 [OF analyzeFrame_Parsed i(3)] show ?thesis
    by (metis resolveFrameLength_Inr)
qed

text \<open>What the stream is cut into. The flag of \<open>SkipNoise\<close> tells the two causes apart.\<close>

datatype stream_item =
    SkipNoise bool nat
  | GiveUp "StreamParseError option"
  | TakeFrame StreamParsedFrame nat

fun item_size :: "stream_item \<Rightarrow> nat" where
  "item_size (SkipNoise b n) = n"
| "item_size (GiveUp e) = 1"
| "item_size (TakeFrame f n) = n"

fun item_frame :: "stream_item \<Rightarrow> StreamParsedFrame option" where
  "item_frame (TakeFrame f n) = Some f"
| "item_frame _ = None"

fun item_apply :: "stream_item \<Rightarrow> StreamParseBatch \<Rightarrow> StreamParseBatch" where
  "item_apply (SkipNoise b n) batch =
     push_error (stream_error NoiseDiscarded (if b then MsgSkippedNoise else MsgNoHeader) n) batch"
| "item_apply (GiveUp e) batch = (case e of None \<Rightarrow> batch | Some e \<Rightarrow> push_error e batch)"
| "item_apply (TakeFrame f n) batch = push_frame f batch"

text \<open>One iteration of the loop on the buffered bytes: \<open>None\<close> when it stops there.\<close>

definition next_item :: "FrameStreamParser \<Rightarrow> StreamParseOptions \<Rightarrow> bytes \<Rightarrow> stream_item option" where
  "next_item p options bs =
     (case candidate_in p bs of
        None \<Rightarrow>
          let keep = fp_maxHeaderLength p - 1
          in if length bs \<le> keep then None else Some (SkipNoise False (length bs - keep))
      | Some (start, indexes) \<Rightarrow>
          if start \<noteq> 0 then Some (SkipNoise True start)
          else
            let r = verdict p bs indexes options in
            if ar_action r = Parsed then Some (TakeFrame (the (ar_frame r)) (ar_frameLength r))
            else if ar_action r = NeedMore then None
            else Some (GiveUp (ar_error r)))"

text \<open>The loop stops after the noise of an unmatched buffer is gone.\<close>

definition last_item :: "stream_item \<Rightarrow> bool" where
  "last_item item \<longleftrightarrow> (\<exists>n. item = SkipNoise False n)"

function parse_stream ::
  "FrameStreamParser \<Rightarrow> StreamParseOptions \<Rightarrow> bytes \<Rightarrow> stream_item list \<times> bytes" where
  "parse_stream p options bs =
     (case next_item p options bs of
        None \<Rightarrow> ([], bs)
      | Some item \<Rightarrow>
          if item_size item = 0 \<or> bs = [] then ([], bs)
          else if last_item item then ([item], drop (item_size item) bs)
          else (item # fst (parse_stream p options (drop (item_size item) bs)),
                snd (parse_stream p options (drop (item_size item) bs))))"
  by pat_completeness auto
termination by (relation "measure (\<lambda>(p, options, bs). length bs)") auto

declare parse_stream.simps [simp del]

definition stream_frames :: "stream_item list \<Rightarrow> StreamParsedFrame list" where
  "stream_frames items = List.map_filter item_frame items"

lemma next_item_positive:
  assumes ok: "compiled_ok p" and item: "next_item p options bs = Some item"
  shows "bs \<noteq> [] \<longrightarrow> 0 < item_size item \<and> item_size item \<le> length bs"
proof (cases "candidate_in p bs")
  case None
  then show ?thesis using item by (auto simp: next_item_def Let_def split: if_splits)
next
  case (Some c)
  then obtain start idxs where c: "candidate_in p bs = Some (start, idxs)" by (cases c) auto
  then have start: "start < length bs" by (simp add: candidate_in_Some [OF ok])
  show ?thesis
  proof (cases "start = 0")
    case False
    then show ?thesis using item c start by (auto simp: next_item_def)
  next
    case True
    show ?thesis
    proof (cases "ar_action (verdict p bs idxs options) = Parsed")
      case True
      with verdict_Parsed [OF ok c [unfolded \<open>start = 0\<close>] True] item c \<open>start = 0\<close>
      show ?thesis by (auto simp: next_item_def)
    next
      case False
      then show ?thesis using item c \<open>start = 0\<close> start
        by (cases bs) (auto simp: next_item_def Let_def split: if_splits)
    qed
  qed
qed

lemma parse_stream_step:
  assumes "compiled_ok p" "bs \<noteq> []"
  shows "parse_stream p options bs =
     (case next_item p options bs of
        None \<Rightarrow> ([], bs)
      | Some item \<Rightarrow>
          if last_item item then ([item], drop (item_size item) bs)
          else (item # fst (parse_stream p options (drop (item_size item) bs)),
                snd (parse_stream p options (drop (item_size item) bs))))"
proof (cases "next_item p options bs")
  case (Some item)
  then have "item_size item \<noteq> 0" using next_item_positive [OF assms(1) Some] assms(2) by simp
  then show ?thesis using Some assms(2) by (subst parse_stream.simps) simp
qed (use assms(2) in \<open>subst parse_stream.simps, simp\<close>)

lemma candidate_in_Nil [simp]: "candidate_in p [] = None"
  by (simp add: candidate_in_def)

lemma parse_stream_Nil [simp]: "parse_stream p options [] = ([], [])"
  by (subst parse_stream.simps) (auto split: option.splits)

subsection \<open>The loop refines the specification\<close>

lemma static_length:
  "resolveRuntimeProfileFrameLength (p\<lparr>fp_buffer := r\<rparr>) frame = resolveRuntimeProfileFrameLength p frame"
  "validateResolvedFrameLength (p\<lparr>fp_buffer := r\<rparr>) frame n = validateResolvedFrameLength p frame n"
  by (simp_all add: resolveRuntimeProfileFrameLength_def validateResolvedFrameLength_def)

lemma static_buffer [simp]:
  "matched_candidates (p\<lparr>fp_buffer := r\<rparr>) bs s = matched_candidates p bs s"
  "resolveFrameLength (p\<lparr>fp_buffer := r\<rparr>) frame w = resolveFrameLength p frame w"
  "applyRuntimeChannelMap (p\<lparr>fp_buffer := r\<rparr>) frame f = applyRuntimeChannelMap p frame f"
  unfolding resolveFrameLength_def static_length
  by (simp_all add: matched_candidates_def applyRuntimeChannelMap_def)

lemma static_buffer2 [simp]:
  "candidate_in (p\<lparr>fp_buffer := r\<rparr>) bs = candidate_in p bs"
  "analyzeFrame (p\<lparr>fp_buffer := r\<rparr>) c w options = analyzeFrame p c w options"
proof -
  have "candidate_from (p\<lparr>fp_buffer := r\<rparr>) bs s n = candidate_from p bs s n" for s n
    by (induction n arbitrary: s) (simp_all only: candidate_from.simps static_buffer)
  then show "candidate_in (p\<lparr>fp_buffer := r\<rparr>) bs = candidate_in p bs" by (simp add: candidate_in_def)
  show "analyzeFrame (p\<lparr>fp_buffer := r\<rparr>) c w options = analyzeFrame p c w options"
    unfolding analyzeFrame_def static_buffer by simp
qed

lemma static_verdict [simp]: "verdict (p\<lparr>fp_buffer := r\<rparr>) bs idxs options = verdict p bs idxs options"
proof -
  have compiled: "fp_compiledFrames (p\<lparr>fp_buffer := r\<rparr>) = fp_compiledFrames p" by simp
  have "analyze_candidates (p\<lparr>fp_buffer := r\<rparr>) w options idxs nm fe
      = analyze_candidates p w options idxs nm fe" for w nm fe
    by (induction idxs arbitrary: nm fe)
       (simp_all only: analyze_candidates.simps static_buffer2 compiled)
  then show ?thesis by (simp add: verdict_def)
qed

lemma static_next_item [simp]: "next_item (p\<lparr>fp_buffer := r\<rparr>) options bs = next_item p options bs"
proof -
  have header: "fp_maxHeaderLength (p\<lparr>fp_buffer := r\<rparr>) = fp_maxHeaderLength p" by simp
  show ?thesis unfolding next_item_def static_buffer2 static_verdict header ..
qed

lemma static_parse_stream [simp]:
  "parse_stream (p\<lparr>fp_buffer := r\<rparr>) options bs = parse_stream p options bs"
proof (induction "length bs" arbitrary: bs rule: less_induct)
  case less
  show ?case
  proof (cases "next_item p options bs")
    case None
    then show ?thesis by (simp add: parse_stream.simps)
  next
    case (Some item)
    show ?thesis
    proof (cases "item_size item = 0 \<or> bs = []")
      case True
      then show ?thesis using Some by (subst (1 2) parse_stream.simps) auto
    next
      case False
      then have "parse_stream (p\<lparr>fp_buffer := r\<rparr>) options (drop (item_size item) bs)
          = parse_stream p options (drop (item_size item) bs)" by (intro less) auto
      then show ?thesis using Some by (subst (1 2) parse_stream.simps) auto
    qed
  qed
qed

text \<open>The parser after the loop: only the ring has moved.\<close>

definition buffer_moved :: "FrameStreamParser \<Rightarrow> bytes \<Rightarrow> FrameStreamParser \<Rightarrow> bool" where
  "buffer_moved p rest p' \<longleftrightarrow>
     (\<exists>r. p' = p\<lparr>fp_buffer := r\<rparr> \<and> rb_wf r \<and> rb_contents r = rest \<and>
          rb_capacity r = rb_capacity (fp_buffer p))"

lemma buffer_moved_wf: "buffer_moved p rest p' \<Longrightarrow> parser_wf p \<Longrightarrow> parser_wf p'"
  by (auto simp: buffer_moved_def parser_wf_def)

lemma buffer_moved_discard:
  "parser_wf p \<Longrightarrow>
     buffer_moved p (drop n (rb_contents (fp_buffer p)))
       (p\<lparr>fp_buffer := rb_discardFront (fp_buffer p) n\<rparr>)"
  by (auto simp: buffer_moved_def parser_wf_def rb.discard_invar rb.discard_contents rb.discard_capacity)

lemma buffer_moved_trans:
  "buffer_moved p bs p1 \<Longrightarrow> buffer_moved p1 rest p2 \<Longrightarrow> buffer_moved p rest p2"
  by (auto simp: buffer_moved_def)

lemma buffer_moved_static:
  "buffer_moved p bs p1 \<Longrightarrow> parse_stream p1 options = parse_stream p options"
  by (auto simp: buffer_moved_def fun_eq_iff)

text \<open>One turn of the loop is one item of the specification.\<close>

lemma push_loop_step:
  assumes wf: "parser_wf p" and ne: "rb_contents (fp_buffer p) \<noteq> []"
  shows "push_loop p options batch =
    (case next_item p options (rb_contents (fp_buffer p)) of
       None \<Rightarrow> Some (p, batch)
     | Some item \<Rightarrow>
         let p1 = p\<lparr>fp_buffer := rb_discardFront (fp_buffer p) (item_size item)\<rparr> in
         if last_item item then Some (p1, item_apply item batch)
         else push_loop p1 options (item_apply item batch))"
proof -
  let ?bs = "rb_contents (fp_buffer p)"
  have ok: "compiled_ok p" using wf by (simp add: parser_wf_def)
  have size: "rb_size (fp_buffer p) = length ?bs" by simp
  have nonempty: "\<not> rb_empty (fp_buffer p)" using ne size by (auto simp: rb_empty_def simp del: length_rb_contents)
  show ?thesis
  proof (cases "candidate_in p ?bs")
    case None
    then show ?thesis using nonempty wf
      by (subst push_loop.simps)
         (auto simp: findCandidate_contents next_item_def discardUnmatchedPrefix_def Let_def last_item_def)
  next
    case (Some c)
    then obtain start idxs where c: "candidate_in p ?bs = Some (start, idxs)" by (cases c) auto
    have find: "findCandidate p = Some (start, idxs)" using c wf by (simp add: findCandidate_contents)
    show ?thesis
    proof (cases "start = 0")
      case False
      then show ?thesis using nonempty find c
        by (subst push_loop.simps)
           (simp add: next_item_def discardCandidatePrefix_def last_item_def Let_def)
    next
      case True
      let ?r = "verdict p ?bs idxs options"
      have r: "analyzeCandidateFrames p idxs options = ?r"
        using wf ne by (simp add: analyzeCandidateFrames_contents)
      have unroll: "push_loop p options batch =
         (if ar_action ?r = Parsed \<and> ar_frame ?r \<noteq> None then
            push_loop (p\<lparr>fp_buffer := rb_discardFront (fp_buffer p) (ar_frameLength ?r)\<rparr>) options
              (push_frame (the (ar_frame ?r)) batch)
          else if ar_action ?r = NeedMore then Some (p, batch)
          else push_loop (p\<lparr>fp_buffer := rb_discardFront (fp_buffer p) 1\<rparr>) options
                 (case ar_error ?r of None \<Rightarrow> batch | Some e \<Rightarrow> push_error e batch))"
        using nonempty find True
        by (subst push_loop.simps) (auto simp add: discardCandidatePrefix_def r Let_def)
      have frame: "ar_action ?r = Parsed \<Longrightarrow> ar_frame ?r \<noteq> None"
        using verdict_Parsed [OF ok c [unfolded True]] by fastforce
      consider "ar_action ?r = Parsed" | "ar_action ?r = NeedMore" | "ar_action ?r = RecoverableError"
        by (cases "ar_action ?r") auto
      then show ?thesis
        using c True frame unfolding unroll
        by cases (simp_all add: next_item_def last_item_def Let_def)
    qed
  qed
qed

theorem push_loop_refines:
  "parser_wf p \<Longrightarrow> parse_stream p options (rb_contents (fp_buffer p)) = (items, rest) \<Longrightarrow>
     \<exists>p'. push_loop p options batch = Some (p', fold item_apply items batch) \<and> buffer_moved p rest p'"
proof (induction "length (rb_contents (fp_buffer p))" arbitrary: p batch items rest rule: less_induct)
  case less
  let ?bs = "rb_contents (fp_buffer p)"
  have ok: "compiled_ok p" using less.prems by (simp add: parser_wf_def)
  have same: "buffer_moved p ?bs p"
    using less.prems by (auto simp: buffer_moved_def parser_wf_def intro!: exI [of _ "fp_buffer p"])
  show ?case
  proof (cases "?bs = []")
    case True
    then have "rb_size (fp_buffer p) = 0" by (metis length_rb_contents list.size(3))
    then have "push_loop p options batch = Some (p, batch)"
      by (subst push_loop.simps) (simp add: rb_empty_def)
    then show ?thesis using less.prems(2) True same by simp
  next
    case ne: False
    note loop = push_loop_step [OF less.prems(1) ne] and spec = parse_stream_step [OF ok ne]
    show ?thesis
    proof (cases "next_item p options ?bs")
      case None
      then show ?thesis using less.prems(2) same by (simp add: loop spec)
    next
      case (Some item)
      let ?p1 = "p\<lparr>fp_buffer := rb_discardFront (fp_buffer p) (item_size item)\<rparr>"
      note pos = next_item_positive [OF ok Some, rule_format, OF ne]
      have moved: "buffer_moved p (drop (item_size item) ?bs) ?p1"
        by (rule buffer_moved_discard [OF less.prems(1)])
      show ?thesis
      proof (cases "last_item item")
        case True
        then show ?thesis using less.prems(2) Some moved by (auto simp: loop spec Let_def)
      next
        case False
        have wf1: "parser_wf ?p1" by (rule buffer_moved_wf [OF moved less.prems(1)])
        have bs1: "rb_contents (fp_buffer ?p1) = drop (item_size item) ?bs"
          using less.prems(1) by (simp add: parser_wf_def rb.discard_contents)
        obtain items1 where items: "items = item # items1"
          "parse_stream p options (drop (item_size item) ?bs) = (items1, rest)"
          using less.prems(2) Some False by (auto simp: spec prod_eq_iff)
        have "parse_stream ?p1 options (rb_contents (fp_buffer ?p1)) = (items1, rest)"
          using items(2) unfolding bs1 static_parse_stream .
        moreover have "length (rb_contents (fp_buffer ?p1)) < length ?bs"
          unfolding bs1 length_drop using pos ne by (cases ?bs) auto
        ultimately obtain p' where p': "push_loop ?p1 options (item_apply item batch)
            = Some (p', fold item_apply items1 (item_apply item batch))" "buffer_moved ?p1 rest p'"
          using less.hyps wf1 by blast
        then show ?thesis using Some False items buffer_moved_trans [OF moved p'(2)]
          by (simp add: loop Let_def)
      qed
    qed
  qed
qed

end
