(* ===== verification/Stream_Correct.thy ===== *)
theory Stream_Correct
  imports Frame_Stream
begin

text \<open>
  Consequences of the refinement of theory Frame_Stream: what a call of \<open>pushBytes\<close> does
  to the buffered bytes and what its batch says of them.
\<close>

subsection \<open>Appending\<close>

definition grown_capacity :: "FrameStreamParser \<Rightarrow> nat \<Rightarrow> nat" where
  "grown_capacity p incoming =
     (if bd_dropOldest (fp_bufferDefinition p) then rb_capacity (fp_buffer p)
      else max (rb_capacity (fp_buffer p))
             (min (min size_max (rb_size (fp_buffer p) + incoming))
                  (bd_maxCapacity (fp_bufferDefinition p))))"

text \<open>The buffered bytes after the append: the window of the capacity, at the end that the mode keeps.\<close>

definition buffered :: "FrameStreamParser \<Rightarrow> bytes \<Rightarrow> bytes" where
  "buffered p data =
     (let stream = rb_contents (fp_buffer p) @ data; cap = grown_capacity p (length data) in
      if bd_dropOldest (fp_bufferDefinition p) then drop (length stream - cap) stream
      else take cap stream)"

definition overflow :: "FrameStreamParser \<Rightarrow> bytes \<Rightarrow> nat" where
  "overflow p data =
     length (rb_contents (fp_buffer p) @ data) - grown_capacity p (length data)"

definition same_parser :: "FrameStreamParser \<Rightarrow> FrameStreamParser \<Rightarrow> bool" where
  "same_parser p p' \<longleftrightarrow> (\<exists>r. p' = p\<lparr>fp_buffer := r\<rparr>)"

lemma required_capacity:
  "(if size_max - n < k then size_max else n + k) = min size_max (n + k)" if "n \<le> size_max"
  using that by (auto simp: min_def)

lemma ensureAppendCapacity_spec:
  assumes wf: "parser_wf p" and fits: "rb_size (fp_buffer p) \<le> size_max"
  shows "\<exists>r. ensureAppendCapacity p n = Some (p\<lparr>fp_buffer := r\<rparr>) \<and> rb_wf r \<and>
    rb_contents r = rb_contents (fp_buffer p) \<and> rb_capacity r = grown_capacity p n"
proof -
  have ring: "rb_wf (fp_buffer p)" using wf by (simp add: parser_wf_def)
  let ?need = "min (min size_max (rb_size (fp_buffer p) + n)) (bd_maxCapacity (fp_bufferDefinition p))"
  obtain r where r: "rb_ensureCapacity (fp_buffer p) ?need = Some r" "rb_wf r"
    "rb_contents r = rb_contents (fp_buffer p)" "rb_capacity r = max ?need (rb_capacity (fp_buffer p))"
    using rb_ensureCapacity_spec [OF ring, of ?need] by (auto simp: rb_capacity_def)
  show ?thesis
  proof (cases "\<not> bd_dropOldest (fp_bufferDefinition p) \<and> rb_capacity (fp_buffer p) < ?need")
    case True
    then have "ensureAppendCapacity p n = Some (p\<lparr>fp_buffer := r\<rparr>)"
      using r(1) by (simp add: ensureAppendCapacity_def Let_def required_capacity [OF fits])
    then show ?thesis using r True by (auto simp: grown_capacity_def max.commute)
  next
    case False
    have "p\<lparr>fp_buffer := fp_buffer p\<rparr> = p" by simp
    then have "ensureAppendCapacity p n = Some (p\<lparr>fp_buffer := fp_buffer p\<rparr>)"
      using False
      unfolding ensureAppendCapacity_def Let_def required_capacity [OF fits] min_less_iff_conj
      by (simp only: if_split, simp, blast)
    moreover have "grown_capacity p n = rb_capacity (fp_buffer p)"
    proof (cases "bd_dropOldest (fp_bufferDefinition p)")
      case no_growth: False
      then have "?need \<le> rb_capacity (fp_buffer p)" using False by (simp only: not_less simp_thms)
      then have "max (rb_capacity (fp_buffer p)) ?need = rb_capacity (fp_buffer p)" by (rule max_absorb1)
      with no_growth show ?thesis unfolding grown_capacity_def by (simp only: if_False)
    qed (simp add: grown_capacity_def)
    ultimately show ?thesis using ring by (intro exI [of _ "fp_buffer p"] conjI refl) simp_all
  qed
qed

lemma grown_capacity_bounds:
  "parser_wf p \<Longrightarrow> bd_capacity (fp_bufferDefinition p) \<le> grown_capacity p n \<and>
     grown_capacity p n \<le> max (bd_capacity (fp_bufferDefinition p)) (bd_maxCapacity (fp_bufferDefinition p))"
  by (auto simp: grown_capacity_def parser_wf_def)

lemma buffered_length: "length (buffered p data) = length (rb_contents (fp_buffer p) @ data) - overflow p data"
  by (auto simp: buffered_def overflow_def Let_def min_def)

lemma overflow_le: "overflow p data \<le> length (rb_contents (fp_buffer p) @ data)"
  by (simp add: overflow_def)

lemma buffered_fits:
  "overflow p data = 0 \<Longrightarrow> buffered p data = rb_contents (fp_buffer p) @ data"
  by (auto simp: buffered_def overflow_def Let_def)

text \<open>The batch that \<open>appendIncomingBytes\<close> starts.\<close>

lemma appendIncomingBytes_spec:
  assumes wf: "parser_wf p" and fits: "rb_size (fp_buffer p) \<le> size_max"
  shows "\<exists>p1 batch. appendIncomingBytes p data = Some (p1, batch) \<and> parser_wf p1 \<and>
    same_parser p p1 \<and> rb_contents (fp_buffer p1) = buffered p data \<and>
    rb_capacity (fp_buffer p1) = grown_capacity p (length data) \<and>
    pb_frames batch = [] \<and> pb_droppedBytes batch = overflow p data \<and>
    pb_overflowed batch = (0 < overflow p data) \<and> pb_bufferSize batch = length (buffered p data) \<and>
    pb_bufferCapacity batch = grown_capacity p (length data) \<and>
    pb_errors batch = (if 0 < overflow p data
      then [stream_error Overflow MsgBufferOverflow (overflow p data)] else []) \<and>
    pb_events batch = (if 0 < overflow p data then [EventError 0] else [])"
proof -
  obtain r where r: "ensureAppendCapacity p (length data) = Some (p\<lparr>fp_buffer := r\<rparr>)" "rb_wf r"
    "rb_contents r = rb_contents (fp_buffer p)" "rb_capacity r = grown_capacity p (length data)"
    using ensureAppendCapacity_spec [OF wf fits] by blast
  let ?drop = "bd_dropOldest (fp_bufferDefinition p)"
  let ?r = "fst (rb_append r data ?drop)"
  let ?p1 = "p\<lparr>fp_buffer := ?r\<rparr>"
  have len: "length (rb_contents (fp_buffer p)) = rb_size (fp_buffer p)" by simp
  have contents: "rb_contents ?r = buffered p data"
    using r(2-4) by (cases ?drop) (simp_all add: buffered_def Let_def rb.append_lossless rb.append_drop_oldest)
  have dropped: "snd (rb_append r data ?drop) = overflow p data"
    using r(2-4) by (simp add: rb.append_dropped overflow_def len del: length_rb_contents)
  have cap: "rb_capacity ?r = grown_capacity p (length data)"
    using r by (simp add: rb.append_capacity)
  have size: "rb_size ?r = length (buffered p data)"
    using contents by (metis length_rb_contents)
  have ring: "rb_wf ?r" using r by (simp add: rb.append_invar)
  have wf1: "parser_wf ?p1"
    using wf ring cap grown_capacity_bounds [OF wf, of "length data"] by (simp add: parser_wf_def)
  show ?thesis
    using r(1) wf1 contents cap size dropped
    by (auto simp: appendIncomingBytes_def Let_def same_parser_def updateNearOverflowStatus_def
        push_error_def empty_batch_def)
qed

lemma same_parser_static:
  "same_parser p p1 \<Longrightarrow> parse_stream p1 options = parse_stream p options"
  "same_parser p p1 \<Longrightarrow> fp_frames p1 = fp_frames p"
  by (auto simp: same_parser_def fun_eq_iff)

subsection \<open>What the items do to a batch\<close>

fun item_error :: "stream_item \<Rightarrow> StreamParseError option" where
  "item_error (SkipNoise b n) =
     Some (stream_error NoiseDiscarded (if b then MsgSkippedNoise else MsgNoHeader) n)"
| "item_error (GiveUp e) = e"
| "item_error (TakeFrame f n) = None"

definition stream_errors :: "stream_item list \<Rightarrow> StreamParseError list" where
  "stream_errors items = List.map_filter item_error items"

lemma map_filter_Cons:
  "List.map_filter f (x # xs) = (case f x of None \<Rightarrow> [] | Some y \<Rightarrow> [y]) @ List.map_filter f xs"
  by (simp add: List.map_filter_def split: option.splits)

lemma map_filter_append: "List.map_filter f (xs @ ys) = List.map_filter f xs @ List.map_filter f ys"
  by (simp add: List.map_filter_def)

lemma fold_item_apply:
  "pb_frames (fold item_apply items batch) = pb_frames batch @ stream_frames items"
  "pb_errors (fold item_apply items batch) = pb_errors batch @ stream_errors items"
  "pb_droppedBytes (fold item_apply items batch) = pb_droppedBytes batch"
  "pb_overflowed (fold item_apply items batch) = pb_overflowed batch"
  "pb_nearOverflow (fold item_apply items batch) = pb_nearOverflow batch"
  "pb_bufferCapacity (fold item_apply items batch) = pb_bufferCapacity batch"
proof (induction items arbitrary: batch)
  case (Cons item items)
  { case 1 then show ?case using Cons(1) by (cases item)
      (auto simp: stream_frames_def map_filter_Cons push_error_def push_frame_def split: option.splits) }
  { case 2 then show ?case using Cons(2) by (cases item)
      (auto simp: stream_errors_def map_filter_Cons push_error_def push_frame_def split: option.splits) }
  { case 3 then show ?case using Cons(3) by (cases item)
      (auto simp: push_error_def push_frame_def split: option.splits) }
  { case 4 then show ?case using Cons(4) by (cases item)
      (auto simp: push_error_def push_frame_def split: option.splits) }
  { case 5 then show ?case using Cons(5) by (cases item)
      (auto simp: push_error_def push_frame_def split: option.splits) }
  { case 6 then show ?case using Cons(6) by (cases item)
      (auto simp: push_error_def push_frame_def split: option.splits) }
qed (simp_all add: stream_frames_def stream_errors_def List.map_filter_def)

text \<open>Every frame and every error is named by one event, in the order of its container.\<close>

definition events_ok :: "StreamParseBatch \<Rightarrow> bool" where
  "events_ok batch \<longleftrightarrow>
     [k. EventFrame k \<leftarrow> pb_events batch] = [0..<length (pb_frames batch)] \<and>
     [k. EventError k \<leftarrow> pb_events batch] = [0..<length (pb_errors batch)]"

lemma events_ok_push:
  "events_ok batch \<Longrightarrow> events_ok (push_error e batch)"
  "events_ok batch \<Longrightarrow> events_ok (push_frame f batch)"
  by (simp_all add: events_ok_def push_error_def push_frame_def)

lemma events_ok_fold: "events_ok batch \<Longrightarrow> events_ok (fold item_apply items batch)"
proof (induction items arbitrary: batch)
  case (Cons item items)
  then show ?case by (cases item) (auto simp: events_ok_push split: option.splits)
qed simp

subsection \<open>What the items are\<close>

lemma next_item_shape:
  assumes ok: "compiled_ok p" and item: "next_item p options bs = Some item"
  shows "(\<exists>n. item = SkipNoise True n \<and> 0 < n \<and> n < length bs \<and> (\<exists>i. header_at p bs n i) \<and>
            (\<forall>m < n. \<forall>i. \<not> header_at p bs m i))
       \<or> (\<exists>n. item = SkipNoise False n \<and> n = length bs - (fp_maxHeaderLength p - 1) \<and> n \<le> length bs \<and>
            (\<forall>m < length bs. \<forall>i. \<not> header_at p bs m i))
       \<or> (\<exists>e. item = GiveUp e \<and> (\<exists>i. header_at p bs 0 i))
       \<or> (\<exists>i n f. item = TakeFrame f n \<and> header_at p bs 0 i \<and>
            resolveFrameLength p (fp_frames p ! i) (view_of bs) = Inr n \<and> 0 < n \<and> n \<le> length bs \<and>
            frame_ok p (fp_frames p ! i) options (take n bs) f)"
proof (cases "candidate_in p bs")
  case None
  then show ?thesis using item candidate_in_None [OF ok, of bs]
    by (auto simp: next_item_def Let_def split: if_splits)
next
  case (Some c)
  then obtain start idxs where c: "candidate_in p bs = Some (start, idxs)" by (cases c) auto
  note spec = iffD1 [OF candidate_in_Some [OF ok] c]
  show ?thesis
  proof (cases "start = 0")
    case False
    then show ?thesis using item c spec by (auto simp: next_item_def)
  next
    case True
    show ?thesis
    proof (cases "ar_action (verdict p bs idxs options) = Parsed")
      case parsed: True
      obtain i n f where "header_at p bs 0 i"
        "resolveFrameLength p (fp_frames p ! i) (view_of bs) = Inr n" "0 < n" "n \<le> length bs"
        "frame_ok p (fp_frames p ! i) options (take n bs) f"
        "verdict p bs idxs options
          = \<lparr>ar_action = Parsed, ar_frame = Some f, ar_error = None, ar_frameLength = n\<rparr>"
        using verdict_Parsed [OF ok c [unfolded True] parsed] by blast
      then show ?thesis using item c True by (auto simp: next_item_def)
    next
      case False
      then show ?thesis using item c True spec
        by (auto simp: next_item_def Let_def split: if_splits)
    qed
  qed
qed

text \<open>An item describes the bytes at the front of the buffer; a run of items the whole buffer.\<close>

definition item_sound :: "FrameStreamParser \<Rightarrow> StreamParseOptions \<Rightarrow> bytes \<Rightarrow> stream_item \<Rightarrow> bool" where
  "item_sound p options bs item \<longleftrightarrow> 0 < item_size item \<and> item_size item \<le> length bs \<and>
     (case item of
        SkipNoise _ n \<Rightarrow> \<forall>m < n. \<forall>i. \<not> header_at p bs m i
      | GiveUp _ \<Rightarrow> \<exists>i. header_at p bs 0 i
      | TakeFrame f n \<Rightarrow> \<exists>i. header_at p bs 0 i \<and>
            resolveFrameLength p (fp_frames p ! i) (view_of bs) = Inr n \<and>
            frame_ok p (fp_frames p ! i) options (take n bs) f)"

fun items_sound ::
  "FrameStreamParser \<Rightarrow> StreamParseOptions \<Rightarrow> bytes \<Rightarrow> stream_item list \<Rightarrow> bytes \<Rightarrow> bool" where
  "items_sound p options bs [] rest \<longleftrightarrow> rest = bs"
| "items_sound p options bs (item # items) rest \<longleftrightarrow>
     item_sound p options bs item \<and> items_sound p options (drop (item_size item) bs) items rest"

lemma next_item_sound:
  "compiled_ok p \<Longrightarrow> bs \<noteq> [] \<Longrightarrow> next_item p options bs = Some item \<Longrightarrow> item_sound p options bs item"
  using next_item_positive [of p options bs item] next_item_shape [of p options bs item]
  by (auto simp: item_sound_def)

lemma parse_stream_sound:
  "compiled_ok p \<Longrightarrow>
     items_sound p options bs (fst (parse_stream p options bs)) (snd (parse_stream p options bs))"
proof (induction "length bs" arbitrary: bs rule: less_induct)
  case less
  show ?case
  proof (cases "bs = [] \<or> next_item p options bs = None")
    case True
    then show ?thesis by (cases "bs = []") (simp_all add: parse_stream_step [OF less.prems])
  next
    case False
    then obtain item where item: "next_item p options bs = Some item" by auto
    have sound: "item_sound p options bs item"
      using next_item_sound [OF less.prems] False item by blast
    then have "length (drop (item_size item) bs) < length bs" by (auto simp: item_sound_def)
    from less.hyps [OF this less.prems] show ?thesis
      using item sound False by (simp add: parse_stream_step [OF less.prems])
  qed
qed

lemma items_sound_conserve:
  "items_sound p options bs items rest \<Longrightarrow>
     sum_list (map item_size items) + length rest = length bs"
proof (induction items arbitrary: bs)
  case (Cons item items)
  then have "item_size item \<le> length bs" by (simp add: item_sound_def)
  with Cons.IH [of "drop (item_size item) bs"] Cons.prems show ?case by simp
qed simp

text \<open>Where the loop stops, another run would do nothing.\<close>

lemma header_at_drop: "header_at p (drop d bs) s i = header_at p bs (d + s) i"
  by (simp add: header_at_def add.commute)

lemma parse_stream_quiescent:
  "compiled_ok p \<Longrightarrow> parse_stream p options (snd (parse_stream p options bs))
     = ([], snd (parse_stream p options bs))"
proof (induction "length bs" arbitrary: bs rule: less_induct)
  case less
  note ok = less.prems
  show ?case
  proof (cases "bs = [] \<or> next_item p options bs = None")
    case True
    then show ?thesis by (cases "bs = []") (simp_all add: parse_stream_step [OF ok])
  next
    case False
    then obtain item where item: "next_item p options bs = Some item" by auto
    have sound: "item_sound p options bs item"
      using next_item_sound [OF ok] False item by blast
    show ?thesis
    proof (cases "last_item item")
      case last: True
      then obtain n where n: "item = SkipNoise False n" by (auto simp: last_item_def)
      let ?rest = "drop n bs"
      have noise: "n = length bs - (fp_maxHeaderLength p - 1)" "\<forall>m < length bs. \<forall>i. \<not> header_at p bs m i"
        using next_item_shape [OF ok item] n by auto
      have "candidate_in p ?rest = None"
        using noise(2) by (auto simp: candidate_in_None [OF ok] header_at_drop)
      moreover have "length ?rest \<le> fp_maxHeaderLength p - 1" using noise(1) by simp
      ultimately have "next_item p options ?rest = None" by (simp add: next_item_def)
      then have "parse_stream p options ?rest = ([], ?rest)"
        by (cases "?rest = []") (simp_all add: parse_stream_step [OF ok])
      then show ?thesis using False item last n by (simp add: parse_stream_step [OF ok])
    next
      case no_last: False
      have "length (drop (item_size item) bs) < length bs" using sound False by (auto simp: item_sound_def)
      from less.hyps [OF this ok] show ?thesis
        using False item no_last by (simp add: parse_stream_step [OF ok, of bs])
    qed
  qed
qed

subsection \<open>A call of pushBytes\<close>

lemma pushBytes_Nil:
  "pushBytes p [] options = Some (p, empty_batch\<lparr>pb_bufferSize := rb_size (fp_buffer p),
     pb_bufferCapacity := rb_capacity (fp_buffer p)\<rparr>)"
  by (simp add: pushBytes_def)

text \<open>The parser has items and a rest even when it knows no frame: then it keeps every byte.\<close>

definition push_items :: "FrameStreamParser \<Rightarrow> StreamParseOptions \<Rightarrow> bytes \<Rightarrow> stream_item list \<times> bytes" where
  "push_items p options data =
     (if fp_frames p = [] \<or> data = [] then ([], buffered p data)
      else parse_stream p options (buffered p data))"

definition overflow_errors :: "nat \<Rightarrow> StreamParseError list" where
  "overflow_errors n = (if 0 < n then [stream_error Overflow MsgBufferOverflow n] else [])"

lemma grown_capacity_0:
  "parser_wf p \<Longrightarrow> rb_size (fp_buffer p) \<le> grown_capacity p k"
  by (auto simp: parser_wf_def rb_wf_def rb_capacity_def grown_capacity_def)

lemma overflow_Nil: "parser_wf p \<Longrightarrow> overflow p [] = 0"
  using grown_capacity_0 [of p 0] by (simp add: overflow_def)

theorem pushBytes_spec:
  assumes wf: "parser_wf p" and fits: "rb_size (fp_buffer p) \<le> size_max"
    and items: "push_items p options data = (items, rest)"
  shows "\<exists>p' batch. pushBytes p data options = Some (p', batch) \<and>
    parser_wf p' \<and> same_parser p p' \<and> rb_contents (fp_buffer p') = rest \<and>
    pb_frames batch = stream_frames items \<and>
    pb_errors batch = overflow_errors (overflow p data) @ stream_errors items \<and>
    events_ok batch \<and> pb_droppedBytes batch = overflow p data \<and>
    pb_overflowed batch = (0 < overflow p data) \<and>
    pb_bufferSize batch = length rest \<and> pb_bufferCapacity batch = rb_capacity (fp_buffer p')"
proof (cases "data = []")
  case True
  have "same_parser p p" by (auto simp: same_parser_def intro!: exI [of _ "fp_buffer p"])
  moreover have "rb_size (fp_buffer p) = length (rb_contents (fp_buffer p))" by simp
  ultimately show ?thesis
    using True wf items buffered_fits [OF overflow_Nil [OF wf]]
    by (simp add: pushBytes_Nil push_items_def overflow_Nil overflow_errors_def empty_batch_def
        events_ok_def stream_frames_def stream_errors_def List.map_filter_def del: length_rb_contents)
next
  case data: False
  obtain p1 b where spec: "appendIncomingBytes p data = Some (p1, b) \<and> parser_wf p1 \<and>
    same_parser p p1 \<and> rb_contents (fp_buffer p1) = buffered p data \<and>
    rb_capacity (fp_buffer p1) = grown_capacity p (length data) \<and>
    pb_frames b = [] \<and> pb_droppedBytes b = overflow p data \<and>
    pb_overflowed b = (0 < overflow p data) \<and> pb_bufferSize b = length (buffered p data) \<and>
    pb_bufferCapacity b = grown_capacity p (length data) \<and>
    pb_errors b = overflow_errors (overflow p data) \<and>
    pb_events b = (if 0 < overflow p data then [EventError 0] else [])"
    using appendIncomingBytes_spec [OF wf fits, of data] unfolding overflow_errors_def
    apply (elim exE)
    subgoal premises prems for p1 batch by (rule prems(1) [OF prems(2)])
    done
  then have app: "appendIncomingBytes p data = Some (p1, b)" "parser_wf p1" "same_parser p p1"
    "rb_contents (fp_buffer p1) = buffered p data"
    "rb_capacity (fp_buffer p1) = grown_capacity p (length data)"
    "pb_frames b = []" "pb_droppedBytes b = overflow p data" "pb_overflowed b = (0 < overflow p data)"
    "pb_bufferSize b = length (buffered p data)"
    "pb_bufferCapacity b = grown_capacity p (length data)"
    "pb_errors b = overflow_errors (overflow p data)"
    "pb_events b = (if 0 < overflow p data then [EventError 0] else [])"
    by blast+
  have ev: "events_ok b" using app(6,11,12) by (simp add: events_ok_def overflow_errors_def)
  show ?thesis
  proof (cases "fp_frames p = []")
    case True
    then have none: "items = []" "rest = buffered p data" using items by (auto simp: push_items_def)
    have "pushBytes p data options = Some (p1, b)"
      using data app(1) True same_parser_static(2) [OF app(3)] by (simp add: pushBytes_def)
    then show ?thesis using app ev none
      by (simp add: stream_frames_def stream_errors_def List.map_filter_def)
  next
    case False
    then have "parse_stream p1 options (rb_contents (fp_buffer p1)) = (items, rest)"
      using items data app(4) same_parser_static(1) [OF app(3)] by (simp add: push_items_def)
    from push_loop_refines [OF app(2) this, of b] obtain p2 where
      p2: "push_loop p1 options b = Some (p2, fold item_apply items b)" "buffer_moved p1 rest p2" by blast
    let ?b = "(fold item_apply items b)\<lparr>pb_bufferSize := rb_size (fp_buffer p2)\<rparr>"
    have "pushBytes p data options = Some (p2, ?b)"
      using data app(1) False same_parser_static(2) [OF app(3)] p2(1) by (simp add: pushBytes_def)
    moreover have "same_parser p p2" "rb_contents (fp_buffer p2) = rest"
      "rb_capacity (fp_buffer p2) = grown_capacity p (length data)"
      using app(3,5) p2(2) by (auto simp: same_parser_def buffer_moved_def)
    moreover have "rb_size (fp_buffer p2) = length rest"
      using calculation(3) by (metis length_rb_contents)
    moreover have "events_ok ?b"
      using events_ok_fold [OF ev, of items] by (simp add: events_ok_def)
    ultimately show ?thesis using app buffer_moved_wf [OF p2(2) app(2)]
      by (simp add: fold_item_apply)
  qed
qed

lemma push_items_cases:
  assumes "push_items p options data = (items, rest)"
  shows "(items = [] \<and> rest = buffered p data) \<or> parse_stream p options (buffered p data) = (items, rest)"
  using assms by (auto simp: push_items_def split: if_splits)

lemma push_items_sound:
  assumes "parser_wf p" "push_items p options data = (items, rest)"
  shows "items_sound p options (buffered p data) items rest"
  using push_items_cases [OF assms(2)] parse_stream_sound [of p options "buffered p data"] assms(1)
  by (auto simp: parser_wf_def)

subsection \<open>Accounting for every byte\<close>

text \<open>The bytes an error stands for: those it says it dropped, or the one the loop gave up on.\<close>

definition error_bytes :: "StreamParseError \<Rightarrow> nat" where
  "error_bytes e =
     (if pe_code e = Overflow \<or> pe_code e = NoiseDiscarded then pe_droppedBytes e else 1)"

definition frame_error_code :: "StreamParseErrorCode \<Rightarrow> bool" where
  "frame_error_code c \<longleftrightarrow> c \<noteq> Overflow \<and> c \<noteq> NoiseDiscarded"

definition recoverable_ok :: "analyze_result \<Rightarrow> bool" where
  "recoverable_ok r \<longleftrightarrow> (ar_action r = RecoverableError \<longrightarrow>
     (\<exists>e. ar_error r = Some e \<and> frame_error_code (pe_code e)))"

lemma recoverable_ok_simps [simp]:
  "recoverable_ok default_result"
  "recoverable_ok (setInvalidLengthError frame m r)"
  "frame_error_code c \<Longrightarrow> recoverable_ok (frame_error c m frame bs n)"
  "frame_error_code c \<Longrightarrow> recoverable_ok ((frame_error c m frame bs n)\<lparr>ar_frameLength := k\<rparr>)"
  "recoverable_ok \<lparr>ar_action = Parsed, ar_frame = f, ar_error = e, ar_frameLength = k\<rparr>"
  by (simp_all add: recoverable_ok_def default_result_def setInvalidLengthError_def frame_error_def
      frame_error_code_def)

lemma frame_error_code_simps [simp]:
  "frame_error_code InvalidLength" "frame_error_code CrcMismatch"
  "frame_error_code FieldDecodeFailed" "frame_error_code CountResolveFailed"
  by (simp_all add: frame_error_code_def)

lemma decodeFrameFields_recoverable:
  "decodeFrameFields frame bs n w fds cursor parsed = Inl r \<Longrightarrow> recoverable_ok r"
  by (induction fds arbitrary: cursor parsed)
     (auto simp: resolveFieldDecodePlan_def validateFieldDecodeBounds_def Let_def
       split: sum.splits option.splits if_splits)

lemma resolveFrameLength_recoverable:
  "resolveFrameLength p frame window = Inl r \<Longrightarrow> recoverable_ok r"
  by (auto simp: resolveFrameLength_def resolveRuntimeProfileFrameLength_def
      resolveLengthFieldFrameLength_def validateResolvedFrameLength_def
      split: option.splits sum.splits if_splits)

lemma judge_frame_recoverable: "recoverable_ok (judge_frame p frame raw options)"
  by (auto simp: judge_frame_def Let_def validateFrameCrc_iff split: sum.splits
      dest: decodeFrameFields_recoverable)

lemma analyzeFrame_recoverable: "recoverable_ok (analyzeFrame p c (view_of bs) options)"
  by (auto simp: analyzeFrame_eq Let_def judge_frame_recoverable split: sum.splits
      dest: resolveFrameLength_recoverable)

lemma analyze_candidates_recoverable:
  assumes "idxs \<noteq> [] \<or> (\<exists>e. fe = Some e)" "\<forall>e. fe = Some e \<longrightarrow> frame_error_code (pe_code e)"
  shows "recoverable_ok (analyze_candidates p (view_of bs) options idxs nm fe)"
  using assms
proof (induction idxs arbitrary: nm fe)
  case Nil
  then show ?case by (auto simp: recoverable_ok_def)
next
  case (Cons i idxs)
  let ?r = "analyzeFrame p (fp_compiledFrames p ! i) (view_of bs) options"
  have r: "recoverable_ok ?r" by (rule analyzeFrame_recoverable)
  have none: "ar_action ?r = Parsed \<Longrightarrow> ar_frame ?r \<noteq> None"
    using iffD1 [OF analyzeFrame_Parsed] by fastforce
  show ?case
  proof (cases "ar_action ?r")
    case Parsed
    then show ?thesis using none by (simp add: Let_def)
  next
    case NeedMore
    have "recoverable_ok (analyze_candidates p (view_of bs) options idxs True fe)"
    proof (cases "idxs = []")
      case False
      then show ?thesis using Cons.IH [of fe True] Cons.prems(2) by blast
    qed simp
    then show ?thesis using NeedMore by (simp add: Let_def)
  next
    case RecoverableError
    then obtain e where e: "ar_error ?r = Some e" "frame_error_code (pe_code e)"
      using r by (auto simp: recoverable_ok_def)
    have "recoverable_ok (analyze_candidates p (view_of bs) options idxs nm
        (if fe = None \<and> ar_error ?r \<noteq> None then ar_error ?r else fe))"
      using e Cons.prems(2) by (intro Cons.IH) auto
    then show ?thesis using RecoverableError
      by (simp only: analyze_candidates.simps Let_def analyze_action.simps simp_thms if_False)
  qed
qed

lemma give_up_error:
  assumes ok: "compiled_ok p" and item: "next_item p options bs = Some (GiveUp e)"
  shows "\<exists>err. e = Some err \<and> error_bytes err = 1"
proof -
  obtain start idxs where c: "candidate_in p bs = Some (start, idxs)"
    using item by (cases "candidate_in p bs") (auto simp: next_item_def Let_def split: if_splits)
  have spec: "start < length bs" "idxs = matched_candidates p bs start" "\<exists>i. header_at p bs start i"
    using c by (simp_all add: candidate_in_Some [OF ok])
  then have "set idxs \<noteq> {}" using set_matched_candidates [OF ok spec(1)] by auto
  then have "idxs \<noteq> []" by auto
  then have "recoverable_ok (verdict p bs idxs options)"
    unfolding verdict_def by (intro analyze_candidates_recoverable) auto
  moreover have "ar_action (verdict p bs idxs options) = RecoverableError"
    "e = ar_error (verdict p bs idxs options)"
    using item c by (cases "ar_action (verdict p bs idxs options)";
        auto simp: next_item_def Let_def split: if_splits)+
  ultimately show ?thesis by (auto simp: recoverable_ok_def frame_error_code_def error_bytes_def)
qed

text \<open>What an item hands to the caller accounts for its bytes.\<close>

definition item_accounted :: "stream_item \<Rightarrow> bool" where
  "item_accounted item \<longleftrightarrow> item_size item =
     (case item_error item of None \<Rightarrow> 0 | Some e \<Rightarrow> error_bytes e) +
     (case item_frame item of None \<Rightarrow> 0 | Some f \<Rightarrow> length (pf_raw f))"

lemma next_item_accounted:
  assumes ok: "compiled_ok p" and raw: "po_includeFrameRaw options"
    and item: "next_item p options bs = Some item"
  shows "item_accounted item"
proof (cases item)
  case (GiveUp e)
  then obtain err where "e = Some err" "error_bytes err = 1"
    using give_up_error [OF ok] item by blast
  then show ?thesis using GiveUp by (simp add: item_accounted_def)
next
  case (TakeFrame f n)
  then show ?thesis using next_item_shape [OF ok item] raw
    by (auto simp: item_accounted_def frame_ok_def)
qed (simp add: item_accounted_def stream_error_def error_bytes_def)

lemma list_all_nil: "list_all P []"
  by simp

lemma parse_stream_accounted:
  assumes ok: "compiled_ok p" and raw: "po_includeFrameRaw options"
  shows "list_all item_accounted (fst (parse_stream p options bs))"
proof (induction "length bs" arbitrary: bs rule: less_induct)
  case less
  show ?case
  proof (cases "bs = [] \<or> next_item p options bs = None")
    case True
    then show ?thesis by (cases "bs = []") (simp_all add: parse_stream_step [OF ok])
  next
    case False
    then obtain item where item: "next_item p options bs = Some item" by auto
    have "length (drop (item_size item) bs) < length bs"
      using next_item_positive [OF ok item] False by auto
    from less.hyps [OF this] next_item_accounted [OF ok raw item] show ?thesis
      using item False by (simp add: parse_stream_step [OF ok])
  qed
qed

lemma accounted_sum:
  "list_all item_accounted items \<Longrightarrow>
     sum_list (map item_size items) = sum_list (map error_bytes (stream_errors items))
       + sum_list (map (\<lambda>f. length (pf_raw f)) (stream_frames items))"
  by (induction items)
     (auto simp: item_accounted_def stream_errors_def stream_frames_def map_filter_Cons
       List.map_filter_def split: option.splits)

theorem pushBytes_accounts:
  assumes wf: "parser_wf p" and fits: "rb_size (fp_buffer p) \<le> size_max"
    and raw: "po_includeFrameRaw options" and push: "pushBytes p data options = Some (p', batch)"
  shows "rb_size (fp_buffer p) + length data =
    sum_list (map (\<lambda>f. length (pf_raw f)) (pb_frames batch)) +
    sum_list (map error_bytes (pb_errors batch)) + rb_size (fp_buffer p')"
proof -
  obtain items rest where items: "push_items p options data = (items, rest)" by fastforce
  from pushBytes_spec [OF wf fits items] push have spec:
    "rb_contents (fp_buffer p') = rest" "pb_frames batch = stream_frames items"
    "pb_errors batch = overflow_errors (overflow p data) @ stream_errors items" by auto
  have "list_all item_accounted items"
    using push_items_cases [OF items] parse_stream_accounted [OF _ raw] wf
    by (metis fst_conv list_all_nil parser_wf_def)
  note sum = accounted_sum [OF this]
  have "sum_list (map item_size items) + length rest = length (buffered p data)"
    by (rule items_sound_conserve [OF push_items_sound [OF wf items]])
  moreover have "length (buffered p data) + overflow p data = rb_size (fp_buffer p) + length data"
    using overflow_le [of p data] by (simp add: buffered_length)
  moreover have "sum_list (map error_bytes (overflow_errors (overflow p data))) = overflow p data"
    by (simp add: overflow_errors_def error_bytes_def stream_error_def)
  moreover have "rb_size (fp_buffer p') = length rest" using spec(1) by (metis length_rb_contents)
  ultimately show ?thesis using sum spec by simp
qed

end
