(* ===== verification/Stream_Chunks.thy ===== *)
theory Stream_Chunks
  imports Stream_Correct
begin

text \<open>
  How the frames found depend on the way the stream is cut into calls of
  \<open>pushBytes\<close>. For a schema whose headers are distinct and of one length the frames are
  those of the concatenated stream, and a stream of valid frames is parsed into
  exactly these frames. The last part concerns the checksums.
\<close>

subsection \<open>Schemas with distinct headers of one length\<close>

definition uniform_headers :: "StreamFrameDefinition list \<Rightarrow> nat \<Rightarrow> bool" where
  "uniform_headers frames L \<longleftrightarrow> 0 < L \<and> (\<forall>f \<in> set frames. length (fd_header f) = L) \<and>
     distinct (map fd_header frames)"

lemma uniform_header_at:
  assumes "uniform_headers (fp_frames p) L"
  shows "header_at p bs s i \<longleftrightarrow>
    i < length (fp_frames p) \<and> take L (drop s bs) = fd_header (fp_frames p ! i)"
  using assms by (auto simp: header_at_def uniform_headers_def)

lemma uniform_header_length:
  assumes "uniform_headers (fp_frames p) L" "header_at p bs s i"
  shows "s + L \<le> length bs"
proof -
  have "length (take L (drop s bs)) = L"
    using assms by (metis nth_mem uniform_header_at uniform_headers_def)
  moreover have "0 < L" using assms(1) by (simp add: uniform_headers_def)
  ultimately show ?thesis by simp
qed

lemma uniform_header_unique:
  assumes "uniform_headers (fp_frames p) L" "header_at p bs s i" "header_at p bs s j"
  shows "i = j"
  using assms nth_eq_iff_index_eq [of "map fd_header (fp_frames p)" i j]
  by (auto simp: uniform_header_at [OF assms(1)] uniform_headers_def)

lemma uniform_header_append:
  assumes "uniform_headers (fp_frames p) L" "s + L \<le> length bs"
  shows "header_at p (bs @ ext) s i \<longleftrightarrow> header_at p bs s i"
  using assms by (simp add: uniform_header_at [OF assms(1)])

lemma fold_max_const:
  "xs \<noteq> [] \<Longrightarrow> \<forall>x \<in> set xs. x = L \<Longrightarrow> fold max xs (0 :: nat) = L"
proof -
  have "\<forall>x \<in> set xs. x = L \<Longrightarrow> fold max xs L = L" for xs :: "nat list"
    by (induction xs) auto
  then show "xs \<noteq> [] \<Longrightarrow> \<forall>x \<in> set xs. x = L \<Longrightarrow> fold max xs (0 :: nat) = L" by (cases xs) auto
qed

lemma uniform_max_header:
  assumes "compiled_ok p" "uniform_headers (fp_frames p) L" "fp_frames p \<noteq> []"
  shows "fp_maxHeaderLength p = L"
  using assms fold_max_const [of "map (\<lambda>f. length (fd_header f)) (fp_frames p)" L]
  by (auto simp: compiled_ok_def uniform_headers_def)

lemma distinct_matched: "compiled_ok p \<Longrightarrow> distinct (matched_candidates p bs s)"
  by (simp add: matched_candidates_def compiled_ok_def header_bucket_def)

lemma distinct_singleton:
  assumes "distinct xs" "set xs = {i}"
  shows "xs = [i]"
proof (cases xs)
  case (Cons a ys)
  then have "a = i" "set ys \<subseteq> {i}" "i \<notin> set ys" using assms by auto
  then have "set ys = {}" by (metis insertI1 subset_singletonD)
  then show ?thesis using Cons \<open>a = i\<close> by simp
qed (use assms in simp)

lemma uniform_matched:
  assumes "compiled_ok p" "uniform_headers (fp_frames p) L" "s < length bs" "header_at p bs s i"
  shows "matched_candidates p bs s = [i]"
proof -
  have "set (matched_candidates p bs s) = {i}"
    unfolding set_matched_candidates [OF assms(1,3)]
    using uniform_header_unique [OF assms(2) _ assms(4)] assms(4) by blast
  with distinct_matched [OF assms(1), of bs s] show ?thesis by (rule distinct_singleton)
qed

subsection \<open>The items do not change when more bytes arrive\<close>

lemma verdict_single:
  "verdict p bs [i] options =
     (let r = analyzeFrame p (fp_compiledFrames p ! i) (view_of bs) options in
      if ar_action r = Parsed \<and> ar_frame r \<noteq> None then
        \<lparr>ar_action = Parsed, ar_frame = ar_frame r, ar_error = None, ar_frameLength = ar_frameLength r\<rparr>
      else if ar_action r = NeedMore then default_result
      else \<lparr>ar_action = RecoverableError, ar_frame = None, ar_error = ar_error r, ar_frameLength = 0\<rparr>)"
  by (simp add: verdict_def Let_def)

lemma verdict_single_append:
  assumes "ar_action (verdict p bs [i] options) \<noteq> NeedMore"
  shows "verdict p (bs @ ext) [i] options = verdict p bs [i] options"
proof -
  have "ar_action (analyzeFrame p (fp_compiledFrames p ! i) (view_of bs) options) \<noteq> NeedMore"
    using assms by (auto simp: verdict_single Let_def)
  then show ?thesis by (simp add: verdict_single analyzeFrame_append)
qed

lemma next_item_append:
  assumes ok: "compiled_ok p" and uni: "uniform_headers (fp_frames p) L"
    and item: "next_item p options bs = Some item" and more: "\<not> last_item item"
  shows "next_item p options (bs @ ext) = Some item"
proof -
  obtain s idxs where c: "candidate_in p bs = Some (s, idxs)"
    using item more by (cases "candidate_in p bs")
      (auto simp: next_item_def Let_def last_item_def split: if_splits)
  then obtain i where at: "s < length bs" "header_at p bs s i" "idxs = matched_candidates p bs s"
    "\<forall>s' < s. \<forall>i. \<not> header_at p bs s' i"
    by (auto simp: candidate_in_Some [OF ok])
  have single: "idxs = [i]" using at uniform_matched [OF ok uni] by simp
  have len: "s + L \<le> length bs" by (rule uniform_header_length [OF uni at(2)])
  then have at': "header_at p (bs @ ext) s i" "\<forall>s' < s. \<forall>i. \<not> header_at p (bs @ ext) s' i"
    using at uniform_header_append [OF uni, of _ bs ext] by auto
  then have "candidate_in p (bs @ ext) = Some (s, [i])"
    using at(1) uniform_matched [OF ok uni _ at'(1)] by (auto simp: candidate_in_Some [OF ok])
  then show ?thesis
    using item c single verdict_single_append [of p bs i options ext]
    by (auto simp: next_item_def Let_def split: if_splits)
qed

definition frames_of :: "FrameStreamParser \<Rightarrow> StreamParseOptions \<Rightarrow> bytes \<Rightarrow> StreamParsedFrame list" where
  "frames_of p options bs = stream_frames (fst (parse_stream p options bs))"

definition rest_of :: "FrameStreamParser \<Rightarrow> StreamParseOptions \<Rightarrow> bytes \<Rightarrow> bytes" where
  "rest_of p options bs = snd (parse_stream p options bs)"

lemma frames_rest_Nil [simp]: "frames_of p options [] = []" "rest_of p options [] = []"
  by (simp_all add: frames_of_def rest_of_def stream_frames_def List.map_filter_def)

definition opt_list :: "'a option \<Rightarrow> 'a list" where
  "opt_list x = (case x of None \<Rightarrow> [] | Some a \<Rightarrow> [a])"

lemma frames_rest_item:
  assumes "compiled_ok p" "bs \<noteq> []" "next_item p options bs = Some item" "\<not> last_item item"
  shows "frames_of p options bs = opt_list (item_frame item) @ frames_of p options (drop (item_size item) bs)"
    "rest_of p options bs = rest_of p options (drop (item_size item) bs)"
  using assms by (simp_all add: frames_of_def rest_of_def parse_stream_step stream_frames_def
      map_filter_Cons opt_list_def split: option.split)

lemma frames_rest_last:
  assumes "compiled_ok p" "bs \<noteq> []" "next_item p options bs = Some item" "last_item item"
  shows "frames_of p options bs = [] \<and> rest_of p options bs = drop (item_size item) bs"
  using assms by (auto simp: frames_of_def rest_of_def parse_stream_step stream_frames_def
      last_item_def List.map_filter_def)

lemma frames_rest_stop:
  assumes "compiled_ok p" "next_item p options bs = None"
  shows "frames_of p options bs = [] \<and> rest_of p options bs = bs"
  using assms by (cases "bs = []")
    (auto simp: frames_of_def rest_of_def parse_stream_step stream_frames_def List.map_filter_def)

lemma next_item_noise:
  assumes ok: "compiled_ok p" and none: "\<forall>m < n. \<forall>i. \<not> header_at p bs m i"
    and keep: "n + (fp_maxHeaderLength p - 1) \<le> length bs"
  shows "frames_of p options bs = frames_of p options (drop n bs) \<and>
    rest_of p options bs = rest_of p options (drop n bs)"
proof (cases "n = 0")
  case False
  then have ne: "bs \<noteq> []" using keep by auto
  let ?keep = "fp_maxHeaderLength p - 1"
  show ?thesis
  proof (cases "candidate_in p bs")
    case None
    have noise: "next_item p options bs = Some (SkipNoise False (length bs - ?keep))"
      using None keep False by (simp add: next_item_def)
    have none': "candidate_in p (drop n bs) = None"
      using None by (auto simp: candidate_in_None [OF ok] header_at_drop)
    have whole: "frames_of p options bs = []" "rest_of p options bs = drop (length bs - ?keep) bs"
      using frames_rest_last [OF ok ne noise] by (auto simp: last_item_def)
    show ?thesis
    proof (cases "length (drop n bs) \<le> ?keep")
      case True
      then have "length bs - ?keep = n" using keep by simp
      moreover have "next_item p options (drop n bs) = None"
        using True none' by (simp add: next_item_def)
      ultimately show ?thesis using whole frames_rest_stop [OF ok] by simp
    next
      case False
      then have "next_item p options (drop n bs) = Some (SkipNoise False (length (drop n bs) - ?keep))"
        using none' by (simp add: next_item_def)
      moreover have "drop n bs \<noteq> []" using False by auto
      ultimately have "frames_of p options (drop n bs) = []"
        "rest_of p options (drop n bs) = drop (length (drop n bs) - ?keep) (drop n bs)"
        using frames_rest_last [OF ok] by (auto simp: last_item_def)
      moreover have "length (drop n bs) - ?keep + n = length bs - ?keep" using False by simp
      ultimately show ?thesis using whole by simp
    qed
  next
    case (Some c)
    then obtain s idxs where c: "candidate_in p bs = Some (s, idxs)" by (cases c) auto
    then have s: "s < length bs" "\<exists>i. header_at p bs s i" "\<forall>s' < s. \<forall>i. \<not> header_at p bs s' i"
      by (auto simp: candidate_in_Some [OF ok])
    have "n \<le> s" using s(2) none by (meson not_less)
    have item: "next_item p options bs = Some (SkipNoise True s)"
      using c \<open>n \<le> s\<close> False by (simp add: next_item_def)
    have whole: "frames_of p options bs = frames_of p options (drop s bs)"
      "rest_of p options bs = rest_of p options (drop s bs)"
      using frames_rest_item [OF ok ne item] by (simp_all add: last_item_def opt_list_def)
    show ?thesis
    proof (cases "s = n")
      case True
      then show ?thesis using whole by simp
    next
      case False
      then have less: "n < s" using \<open>n \<le> s\<close> by simp
      have "candidate_in p (drop n bs) = Some (s - n, matched_candidates p (drop n bs) (s - n))"
        using s less by (auto simp: candidate_in_Some [OF ok] header_at_drop)
      then have item': "next_item p options (drop n bs) = Some (SkipNoise True (s - n))"
        using less by (simp add: next_item_def)
      moreover have "drop n bs \<noteq> []" using less s(1) by simp
      ultimately show ?thesis using frames_rest_item [OF ok _ item'] whole less
        by (simp add: last_item_def opt_list_def)
    qed
  qed
qed simp

theorem frames_chunk:
  assumes ok: "compiled_ok p" and uni: "uniform_headers (fp_frames p) L" and ne: "fp_frames p \<noteq> []"
  shows "frames_of p options (bs @ ext)
      = frames_of p options bs @ frames_of p options (rest_of p options bs @ ext) \<and>
    rest_of p options (bs @ ext) = rest_of p options (rest_of p options bs @ ext)"
proof (induction "length bs" arbitrary: bs rule: less_induct)
  case less
  show ?case
  proof (cases "bs = [] \<or> next_item p options bs = None")
    case True
    then show ?thesis using frames_rest_stop [OF ok, of options bs] by auto
  next
    case False
    then obtain item where item: "next_item p options bs = Some item" by auto
    note pos = next_item_positive [OF ok item]
    show ?thesis
    proof (cases "last_item item")
      case False
      have "next_item p options (bs @ ext) = Some item" by (rule next_item_append [OF ok uni item False])
      from frames_rest_item [OF ok _ this False]
      have "frames_of p options (bs @ ext)
          = opt_list (item_frame item) @ frames_of p options (drop (item_size item) bs @ ext)"
        "rest_of p options (bs @ ext) = rest_of p options (drop (item_size item) bs @ ext)"
        using pos \<open>\<not> (bs = [] \<or> _)\<close> by auto
      moreover have "length (drop (item_size item) bs) < length bs"
        using pos \<open>\<not> (bs = [] \<or> _)\<close> by auto
      ultimately show ?thesis
        using less.hyps frames_rest_item [OF ok _ item False] \<open>\<not> (bs = [] \<or> _)\<close> by simp
    next
      case last: True
      then obtain n where n: "item = SkipNoise False n" by (auto simp: last_item_def)
      then have noise: "n = length bs - (fp_maxHeaderLength p - 1)" "\<forall>m < length bs. \<forall>i. \<not> header_at p bs m i"
        using next_item_shape [OF ok item] by auto
      have L: "fp_maxHeaderLength p = L" by (rule uniform_max_header [OF ok uni ne])
      have "\<not> header_at p (bs @ ext) m i" if "m < n" for m i
        using that noise uniform_header_append [OF uni, of m bs ext] L by auto
      moreover have "n + (fp_maxHeaderLength p - 1) \<le> length bs" using pos n noise False by auto
      ultimately have "frames_of p options (bs @ ext) = frames_of p options (drop n (bs @ ext)) \<and>
          rest_of p options (bs @ ext) = rest_of p options (drop n (bs @ ext))"
        by (intro next_item_noise [OF ok]) auto
      moreover have "n \<le> length bs" using noise by simp
      ultimately show ?thesis using frames_rest_last [OF ok _ item last] n False by simp
    qed
  qed
qed

subsection \<open>Any way of cutting the stream into calls finds the same frames\<close>

fun feed :: "FrameStreamParser \<Rightarrow> StreamParseOptions \<Rightarrow> bytes list
    \<Rightarrow> (FrameStreamParser \<times> StreamParsedFrame list) option" where
  "feed p options [] = Some (p, [])"
| "feed p options (chunk # chunks) =
     (case pushBytes p chunk options of
        None \<Rightarrow> None
      | Some (p1, batch) \<Rightarrow>
          map_option (\<lambda>(p2, frames). (p2, pb_frames batch @ frames)) (feed p1 options chunks))"

lemma frames_of_static:
  "same_parser p p1 \<Longrightarrow> frames_of p1 options = frames_of p options"
  "same_parser p p1 \<Longrightarrow> rest_of p1 options = rest_of p options"
  by (simp_all add: frames_of_def rest_of_def same_parser_static fun_eq_iff)

lemma same_parser_trans: "same_parser p q \<Longrightarrow> same_parser q r \<Longrightarrow> same_parser p r"
  by (auto simp: same_parser_def)

lemma same_parser_buffer: "same_parser p q \<Longrightarrow> fp_bufferDefinition q = fp_bufferDefinition p"
  by (auto simp: same_parser_def)

lemma rest_of_le: "compiled_ok p \<Longrightarrow> length (rest_of p options bs) \<le> length bs"
  using items_sound_conserve [OF parse_stream_sound, of p options bs] by (simp add: rest_of_def)

lemma pushBytes_frames:
  assumes wf: "parser_wf p" and ne: "fp_frames p \<noteq> []" "data \<noteq> []"
    and room: "rb_size (fp_buffer p) + length data \<le> bd_capacity (fp_bufferDefinition p)"
    and max: "bd_capacity (fp_bufferDefinition p) \<le> size_max"
  shows "\<exists>p' batch. pushBytes p data options = Some (p', batch) \<and> parser_wf p' \<and> same_parser p p' \<and>
    rb_contents (fp_buffer p') = rest_of p options (rb_contents (fp_buffer p) @ data) \<and>
    pb_frames batch = frames_of p options (rb_contents (fp_buffer p) @ data) \<and>
    pb_errors batch = stream_errors (fst (parse_stream p options (rb_contents (fp_buffer p) @ data))) \<and>
    pb_droppedBytes batch = 0"
proof -
  let ?bs = "rb_contents (fp_buffer p) @ data"
  have "length ?bs \<le> grown_capacity p (length data)"
    using grown_capacity_bounds [OF wf, of "length data"] room by simp
  then have over: "overflow p data = 0" by (simp add: overflow_def)
  then have items: "push_items p options data
      = (fst (parse_stream p options ?bs), snd (parse_stream p options ?bs))"
    using ne by (simp add: push_items_def buffered_fits)
  have fits: "rb_size (fp_buffer p) \<le> size_max" using room max by simp
  from pushBytes_spec [OF wf fits items] over show ?thesis
    by (auto simp: frames_of_def rest_of_def overflow_errors_def)
qed

theorem feed_concat:
  assumes "parser_wf p" "uniform_headers (fp_frames p) L" "fp_frames p \<noteq> []"
    and "rb_size (fp_buffer p) + length (concat chunks) \<le> bd_capacity (fp_bufferDefinition p)"
    and "bd_capacity (fp_bufferDefinition p) \<le> size_max"
  shows "\<exists>p'. feed p options chunks = Some (p',
           if concat chunks = [] then [] else frames_of p options (rb_contents (fp_buffer p) @ concat chunks))
     \<and> rb_contents (fp_buffer p') = (if concat chunks = [] then rb_contents (fp_buffer p)
           else rest_of p options (rb_contents (fp_buffer p) @ concat chunks))"
  using assms
proof (induction chunks arbitrary: p)
  case (Cons c cs)
  have ok: "compiled_ok p" using Cons.prems(1) by (simp add: parser_wf_def)
  show ?case
  proof (cases "c = []")
    case True
    then show ?thesis using Cons.IH [OF Cons.prems(1-3) _ Cons.prems(5)] Cons.prems(4)
      by (auto simp: pushBytes_Nil empty_batch_def)
  next
    case c: False
    let ?bs = "rb_contents (fp_buffer p) @ c"
    have size: "rb_size (fp_buffer p) = length (rb_contents (fp_buffer p))" by simp
    obtain p1 batch where p1: "pushBytes p c options = Some (p1, batch)" "parser_wf p1" "same_parser p p1"
      "rb_contents (fp_buffer p1) = rest_of p options ?bs" "pb_frames batch = frames_of p options ?bs"
      using pushBytes_frames [OF Cons.prems(1,3) c _ Cons.prems(5), of options] Cons.prems(4) by auto
    have size1: "rb_size (fp_buffer p1) = length (rest_of p options ?bs)"
      using p1(4) by (metis length_rb_contents)
    have "length (rest_of p options ?bs) \<le> length ?bs" by (rule rest_of_le [OF ok])
    then have room: "rb_size (fp_buffer p1) + length (concat cs) \<le> bd_capacity (fp_bufferDefinition p1)"
      using Cons.prems(4) size1 same_parser_buffer [OF p1(3)] by simp
    obtain p2 where p2: "feed p1 options cs = Some (p2,
          if concat cs = [] then [] else frames_of p1 options (rb_contents (fp_buffer p1) @ concat cs))"
      "rb_contents (fp_buffer p2) = (if concat cs = [] then rb_contents (fp_buffer p1)
           else rest_of p1 options (rb_contents (fp_buffer p1) @ concat cs))"
      using Cons.IH [OF p1(2)] Cons.prems(2,3,5) room same_parser_static(2) [OF p1(3)]
        same_parser_buffer [OF p1(3)] by auto
    note chunk = frames_chunk [OF ok Cons.prems(2,3), of options ?bs "concat cs"]
    show ?thesis using p1 p2 c chunk frames_of_static [OF p1(3)] by (cases "concat cs = []") (auto simp del: concat_eq_Nil_conv)
  qed
qed simp

subsection \<open>Valid frames are found\<close>

definition valid_frame ::
  "FrameStreamParser \<Rightarrow> StreamParseOptions \<Rightarrow> bytes \<Rightarrow> StreamParsedFrame \<Rightarrow> bool" where
  "valid_frame p options raw f \<longleftrightarrow> (\<exists>i. header_at p raw 0 i \<and>
     resolveFrameLength p (fp_frames p ! i) (view_of raw) = Inr (length raw) \<and>
     frame_ok p (fp_frames p ! i) options raw f)"

lemma next_item_valid:
  assumes ok: "compiled_ok p" and uni: "uniform_headers (fp_frames p) L"
    and valid: "valid_frame p options raw f"
  shows "next_item p options (raw @ ext) = Some (TakeFrame f (length raw))"
proof -
  obtain i where i: "header_at p raw 0 i"
    "resolveFrameLength p (fp_frames p ! i) (view_of raw) = Inr (length raw)"
    "frame_ok p (fp_frames p ! i) options raw f" using valid by (auto simp: valid_frame_def)
  have "0 + L \<le> length raw" by (rule uniform_header_length [OF uni i(1)])
  then have at: "header_at p (raw @ ext) 0 i" using uniform_header_append [OF uni, of 0 raw ext] i(1) by blast
  have pos: "0 < length raw" using resolveFrameLength_Inr [OF i(2)] by simp
  then have cand: "candidate_in p (raw @ ext) = Some (0, [i])"
    using at uniform_matched [OF ok uni _ at] by (auto simp: candidate_in_Some [OF ok])
  have idx: "cf_index (fp_compiledFrames p ! i) = i"
    using compiled_index [OF ok] i(1) by (auto simp: header_at_def)
  have "analyzeFrame p (fp_compiledFrames p ! i) (view_of raw) options
      = judge_frame p (fp_frames p ! i) raw options"
    using i(2) idx by (simp add: analyzeFrame_eq)
  then have raw: "analyzeFrame p (fp_compiledFrames p ! i) (view_of raw) options
      = \<lparr>ar_action = Parsed, ar_frame = Some f, ar_error = None, ar_frameLength = length raw\<rparr>"
    using i(3) by (simp add: judge_frame_Parsed [symmetric])
  then have "analyzeFrame p (fp_compiledFrames p ! i) (view_of (raw @ ext)) options
      = \<lparr>ar_action = Parsed, ar_frame = Some f, ar_error = None, ar_frameLength = length raw\<rparr>"
    by (subst analyzeFrame_append) simp_all
  then show ?thesis using cand by (simp add: next_item_def verdict_single Let_def)
qed

theorem valid_frames_parsed:
  assumes ok: "compiled_ok p" and uni: "uniform_headers (fp_frames p) L"
    and valid: "\<forall>(raw, f) \<in> set rs. valid_frame p options raw f"
  shows "parse_stream p options (concat (map fst rs)) = (map (\<lambda>(raw, f). TakeFrame f (length raw)) rs, [])"
  using valid
proof (induction rs)
  case (Cons r rs)
  obtain raw f where r: "r = (raw, f)" by (cases r) auto
  then have "valid_frame p options raw f" using Cons.prems by auto
  then have nxt: "next_item p options (raw @ concat (map fst rs)) = Some (TakeFrame f (length raw))"
    by (rule next_item_valid [OF ok uni])
  have "raw \<noteq> []"
    using \<open>valid_frame p options raw f\<close> by (auto simp: valid_frame_def dest: resolveFrameLength_Inr)
  then show ?case using Cons r
    by (simp add: parse_stream_step [OF ok] last_item_def nxt)
qed simp

subsection \<open>Checksums\<close>

lemma ucast_u16_inj [simp]: "(ucast (a :: u16) :: u32) = ucast b \<longleftrightarrow> a = b"
  by transfer simp

lemma expected_crc_single_byte:
  assumes "ty \<noteq> NoCrc" "a \<noteq> b"
  shows "expected_crc ty (xs @ a # ys) \<noteq> expected_crc ty (xs @ b # ys)"
  using assms modbus.single_byte_error [OF assms(2), of "0xFFFF" xs ys]
    ccitt.single_byte_error [OF assms(2), of "0xFFFF" xs ys]
    crc32.single_byte_error [OF assms(2), of "0xFFFFFFFF" xs ys]
  by (cases ty) (auto simp: expected_crc_def crc16Modbus_run crc16CcittFalse_run crc32Ieee_run)

lemma readCrcValue_tail:
  assumes "length a = length b" "w \<le> length crc"
  shows "readCrcValue (a @ crc) (length (a @ crc)) w order = readCrcValue (b @ crc) (length (b @ crc)) w order"
  using assms unfolding readCrcValue_def Let_def
  by (cases order) (auto intro!: fold_cong_upt simp: nth_append)

text \<open>One wrong byte before the checksum is always noticed.\<close>

lemma crc_single_byte:
  assumes crc: "cd_type (fd_crc frame) \<noteq> NoCrc" and ne: "a \<noteq> b"
    and ok: "crc_matches frame (xs @ a # ys @ crc)"
    and len: "length crc = streamCrcWidth (cd_type (fd_crc frame))"
  shows "\<not> crc_matches frame (xs @ b # ys @ crc)"
proof -
  have w: "streamCrcWidth (cd_type (fd_crc frame)) \<noteq> 0"
    using crc by (cases "cd_type (fd_crc frame)") auto
  have "readCrcValue ((xs @ a # ys) @ crc) (length ((xs @ a # ys) @ crc)) (length crc) (cd_order (fd_crc frame))
      = readCrcValue ((xs @ b # ys) @ crc) (length ((xs @ b # ys) @ crc)) (length crc) (cd_order (fd_crc frame))"
    by (rule readCrcValue_tail) simp_all
  then show ?thesis
    using ok w expected_crc_single_byte [OF crc ne, of xs ys]
    by (auto simp: crc_matches_def Let_def len [symmetric])
qed

end
