(* ===== verification/Parser_Properties.thy ===== *)
theory Parser_Properties
  imports Stream_Chunks
begin

text \<open>
  The properties of the frame parser, each stated over the parser's own operations and
  proved from the lemmas of the theories below, with a sample schema on which the
  hypotheses hold.
\<close>

subsection \<open>A sample schema\<close>

definition no_count :: StreamFieldCount where
  "no_count = \<lparr>fc_fixed = None, fc_fieldName = None, fc_expression = None\<rparr>"

definition sample_field :: StreamFieldDefinition where
  "sample_field = \<lparr>sf_name = ''v'', sf_type = U8, sf_offset = Some 1, sf_count = no_count\<rparr>"

text \<open>Four bytes: the header \<open>AA\<close>, one value, CRC16/MODBUS low byte first.\<close>

definition sample_frame :: StreamFrameDefinition where
  "sample_frame = \<lparr>fd_name = ''s'', fd_header = [0xAA], fd_size = Some 4, fd_len = None,
     fd_crc = \<lparr>cd_type = Crc16Modbus, cd_order = LoHi\<rparr>, fd_fields = [sample_field],
     fd_runtimeProfile = False\<rparr>"

definition sample_buffer :: StreamBufferDefinition where
  "sample_buffer = \<lparr>bd_capacity = 16, bd_maxCapacity = 32, bd_dropOldest = False,
     bd_nearOverflowThresholdRatio = 0, bd_nearOverflowNotify = False, bd_popupEnabled = True\<rparr>"

definition sample_parser :: FrameStreamParser where
  "sample_parser = new_FrameStreamParser sample_buffer [sample_frame]"

definition sample_options :: StreamParseOptions where
  "sample_options = \<lparr>po_includeFrameRaw = True\<rparr>"

definition sample_raw :: bytes where
  "sample_raw = [0xAA, 0x07, 0x3E, 0xD2]"

definition sample_parsed :: StreamParsedFrame where
  "sample_parsed = \<lparr>pf_name = ''s'', pf_raw = sample_raw, pf_fields = [''v'' \<mapsto> FvInt 7],
     pf_crcOk = True, pf_channelMap = []\<rparr>"

subsection \<open>Every parser the program can build\<close>

text \<open>The states of a parser object: the constructor, then any sequence of its operations.\<close>

inductive reachable ::
  "StreamBufferDefinition \<Rightarrow> StreamFrameDefinition list \<Rightarrow> FrameStreamParser \<Rightarrow> bool" where
  reach_new: "reachable bd frames (new_FrameStreamParser bd frames)"
| reach_reset: "reachable bd frames p \<Longrightarrow> reachable bd frames (parser_reset p)"
| reach_clear: "reachable bd frames p \<Longrightarrow> reachable bd frames (clearRuntimeProfiles p)"
| reach_set: "reachable bd frames p \<Longrightarrow> setRuntimeProfile nm profile p = Inr p' \<Longrightarrow>
    reachable bd frames p'"
| reach_unset: "reachable bd frames p \<Longrightarrow> clearRuntimeProfile nm' p = Inr p' \<Longrightarrow>
    reachable bd frames p'"
| reach_push: "reachable bd frames p \<Longrightarrow> pushBytes p data options = Some (p', batch) \<Longrightarrow>
    reachable bd frames p'"

text \<open>Capacities are \<open>size_t\<close> values.\<close>

definition limits_ok :: "StreamBufferDefinition \<Rightarrow> bool" where
  "limits_ok bd \<longleftrightarrow> bd_capacity bd \<le> size_max \<and> bd_maxCapacity bd \<le> size_max"

definition parser_inv ::
  "StreamBufferDefinition \<Rightarrow> StreamFrameDefinition list \<Rightarrow> FrameStreamParser \<Rightarrow> bool" where
  "parser_inv bd frames p \<longleftrightarrow> parser_wf p \<and> profiles_ok p \<and> fp_frames p = frames \<and>
     fp_bufferDefinition p = bd"

lemma parser_size:
  assumes "parser_wf p" "limits_ok (fp_bufferDefinition p)"
  shows "rb_size (fp_buffer p) \<le> size_max"
proof -
  have "rb_size (fp_buffer p) \<le> rb_capacity (fp_buffer p)"
    using assms(1) by (auto simp: parser_wf_def rb_wf_def rb_capacity_def)
  then show ?thesis using assms by (auto simp: parser_wf_def limits_ok_def)
qed

lemma pushBytes_inv:
  assumes "parser_wf p" "limits_ok (fp_bufferDefinition p)" "pushBytes p data options = Some (p', batch)"
  shows "parser_wf p' \<and> same_parser p p'"
proof -
  obtain items rest where "push_items p options data = (items, rest)" by fastforce
  from pushBytes_spec [OF assms(1) parser_size [OF assms(1,2)] this] assms(3) show ?thesis by auto
qed

lemma reachable_inv:
  "reachable bd frames p \<Longrightarrow> limits_ok bd \<Longrightarrow> parser_inv bd frames p"
proof (induction rule: reachable.induct)
  case (reach_new bd frames)
  then show ?case using buildCompiledFrames_ok new_parser_wf new_profiles_ok
    by (simp add: parser_inv_def) (simp add: new_FrameStreamParser_def)
next
  case (reach_reset bd frames p)
  then show ?case using parser_reset_wf
    by (auto simp: parser_inv_def profiles_ok_def parser_reset_def)
next
  case (reach_clear bd frames p)
  then show ?case using clearRuntimeProfiles_wf
    by (auto simp: parser_inv_def profiles_ok_def clearRuntimeProfiles_def)
next
  case (reach_set bd frames p nm profile p')
  then have "profiles_ok p'" "parser_wf p'"
    using setRuntimeProfile_ok setRuntimeProfile_wf by (auto simp: parser_inv_def)
  moreover have "fp_frames p' = fp_frames p" "fp_bufferDefinition p' = fp_bufferDefinition p"
    using reach_set.hyps(2) by (auto simp: setRuntimeProfile_def split: option.splits if_splits)
  ultimately show ?case using reach_set by (simp add: parser_inv_def)
next
  case (reach_unset bd frames p nm p')
  then have "profiles_ok p'" "parser_wf p'"
    using clearRuntimeProfile_ok clearRuntimeProfile_wf by (auto simp: parser_inv_def)
  moreover have "fp_frames p' = fp_frames p" "fp_bufferDefinition p' = fp_bufferDefinition p"
    using reach_unset.hyps(2) by (auto simp: clearRuntimeProfile_def split: option.splits)
  ultimately show ?case using reach_unset by (simp add: parser_inv_def)
next
  case (reach_push bd frames p data options p' batch)
  then have "parser_wf p'" "same_parser p p'"
    using pushBytes_inv by (auto simp: parser_inv_def)
  then show ?case using reach_push by (auto simp: parser_inv_def profiles_ok_def same_parser_def)
qed

lemma reachable_facts:
  assumes "reachable bd frames p" "limits_ok bd"
  shows "parser_wf p" "profiles_ok p" "compiled_ok p" "fp_frames p = frames"
    "fp_bufferDefinition p = bd" "rb_size (fp_buffer p) \<le> size_max"
  using reachable_inv [OF assms] parser_size [of p] assms(2)
  by (auto simp: parser_inv_def parser_wf_def)

text \<open>The sample parser and its frame satisfy the hypotheses used below.\<close>

lemma sample_reachable: "reachable sample_buffer [sample_frame] sample_parser"
  unfolding sample_parser_def by (rule reach_new)

lemma sample_limits: "limits_ok sample_buffer"
  by (simp add: limits_ok_def sample_buffer_def size_max_def)

lemma sample_static [simp]:
  "fp_frames sample_parser = [sample_frame]" "fp_bufferDefinition sample_parser = sample_buffer"
  using reachable_facts [OF sample_reachable sample_limits] by simp_all

lemma sample_empty [simp]: "rb_contents (fp_buffer sample_parser) = []" "rb_size (fp_buffer sample_parser) = 0"
proof -
  show "rb_contents (fp_buffer sample_parser) = []"
    unfolding sample_parser_def by (rule new_parser_empty)
  then show "rb_size (fp_buffer sample_parser) = 0" by (metis length_rb_contents list.size(3))
qed

lemma sample_frame_simps [simp]:
  "fd_header sample_frame = [0xAA]" "fd_name sample_frame = ''s''" "fd_size sample_frame = Some 4"
  "fd_len sample_frame = None" "fd_crc sample_frame = \<lparr>cd_type = Crc16Modbus, cd_order = LoHi\<rparr>"
  "fd_fields sample_frame = [sample_field]" "\<not> fd_runtimeProfile sample_frame"
  "length sample_raw = 4"
  by (simp_all add: sample_frame_def sample_raw_def)

lemma sample_uniform: "uniform_headers [sample_frame] 1"
  by (simp add: uniform_headers_def sample_frame_def)

lemma sample_crc: "crc_matches sample_frame sample_raw"
  by (simp add: crc_matches_def sample_frame_def sample_raw_def expected_crc_def readCrcValue_def
      crc_eval upt_conv_Cons)

lemma sample_fields: "decodeFrameFields sample_frame sample_raw 4 2 [sample_field] 0 Map.empty
    = Inr [''v'' \<mapsto> FvInt 7]"
  by (simp add: sample_frame_def sample_raw_def sample_field_def no_count_def resolveFieldDecodePlan_def
      resolveFieldCount_def streamValueWidth_def checkedMultiplySize_def checkedAddSize_def size_max_def
      validateFieldDecodeBounds_def decodeFieldValue_def decodeInteger_def readUnsignedValue_def
      value_or_def streamValueTypeIsFloat_def)

lemma sample_valid: "valid_frame sample_parser sample_options sample_raw sample_parsed"
proof -
  have "resolveFrameLength sample_parser sample_frame (view_of sample_raw) = Inr 4"
    by (simp add: resolveFrameLength_def view_of_def validateResolvedFrameLength_def sample_frame_def
        sample_buffer_def)
  moreover have "frame_ok sample_parser sample_frame sample_options sample_raw sample_parsed"
    using sample_crc sample_fields by (simp add: frame_ok_def sample_options_def sample_parsed_def)
  moreover have "header_at sample_parser sample_raw 0 0"
    by (simp add: header_at_def) (simp add: sample_raw_def)
  ultimately show ?thesis unfolding valid_frame_def by (intro exI [of _ 0]) simp
qed

subsection \<open>Properties\<close>

text \<open>C1: A call of \<open>pushBytes\<close> on any parser the program can build returns (the parse loop ends and
  the ring never throws), and it computes what the specification says: the frames and
  errors of the items of the buffered bytes in order, and the rest as the new
  buffer contents; the new parser is again a legal one.\<close>

theorem push_returns_spec:
  assumes "reachable bd frames p" "limits_ok bd"
  shows "\<exists>p' batch items rest. pushBytes p data options = Some (p', batch) \<and> reachable bd frames p' \<and>
    push_items p options data = (items, rest) \<and> rb_contents (fp_buffer p') = rest \<and>
    pb_frames batch = stream_frames items \<and>
    pb_errors batch = overflow_errors (overflow p data) @ stream_errors items \<and>
    pb_droppedBytes batch = overflow p data \<and> pb_bufferSize batch = length rest"
proof -
  note facts = reachable_facts [OF assms]
  obtain items rest where items: "push_items p options data = (items, rest)" by fastforce
  from pushBytes_spec [OF facts(1,6) items] obtain p' batch where
    "pushBytes p data options = Some (p', batch)" "rb_contents (fp_buffer p') = rest"
    "pb_frames batch = stream_frames items"
    "pb_errors batch = overflow_errors (overflow p data) @ stream_errors items"
    "pb_droppedBytes batch = overflow p data" "pb_bufferSize batch = length rest" by auto
  then show ?thesis using items reach_push [OF assms(1)] by blast
qed

theorem push_returns_spec_witness:
  "\<exists>p' batch. pushBytes sample_parser sample_raw sample_options = Some (p', batch)"
  using push_returns_spec [OF sample_reachable sample_limits, of sample_raw sample_options] by blast



lemma items_sound_frames:
  "items_sound p options bs items rest \<Longrightarrow> f \<in> set (stream_frames items) \<Longrightarrow>
    \<exists>pre raw post i. bs = pre @ raw @ post \<and> header_at p (raw @ post) 0 i \<and>
      resolveFrameLength p (fp_frames p ! i) (view_of (raw @ post)) = Inr (length raw) \<and>
      frame_ok p (fp_frames p ! i) options raw f"
proof (induction items arbitrary: bs)
  case Nil
  then show ?case by (simp add: stream_frames_def List.map_filter_def)
next
  case (Cons item items)
  show ?case
  proof (cases "item_frame item = Some f")
    case True
    then obtain n where item: "item = TakeFrame f n" by (cases item) auto
    with Cons.prems obtain i where i: "header_at p bs 0 i" "n \<le> length bs"
      "resolveFrameLength p (fp_frames p ! i) (view_of bs) = Inr n"
      "frame_ok p (fp_frames p ! i) options (take n bs) f" by (auto simp: item_sound_def)
    show ?thesis
      using i by (intro exI [of _ "[]"] exI [of _ "take n bs"] exI [of _ "drop n bs"] exI [of _ i])
        (simp add: min_absorb2)
  next
    case False
    then have "f \<in> set (stream_frames items)" using Cons.prems(2)
      by (cases item) (auto simp: stream_frames_def map_filter_Cons)
    moreover have "items_sound p options (drop (item_size item) bs) items rest"
      using Cons.prems(1) by simp
    ultimately obtain pre raw post i where
      "drop (item_size item) bs = pre @ raw @ post" "header_at p (raw @ post) 0 i"
      "resolveFrameLength p (fp_frames p ! i) (view_of (raw @ post)) = Inr (length raw)"
      "frame_ok p (fp_frames p ! i) options raw f" using Cons.IH by blast
    moreover from this have "bs = (take (item_size item) bs @ pre) @ raw @ post"
      by (metis append.assoc append_take_drop_id)
    ultimately show ?thesis by blast
  qed
qed

text \<open>C3: Every frame a call returns was in the stream: some slice of the buffered bytes starts with the
  header of a definition, has the length this definition resolves to, carries a matching
  checksum and decodes to exactly the fields returned.\<close>

theorem push_frames_sound:
  assumes "reachable bd frames p" "limits_ok bd"
    and "pushBytes p data options = Some (p', batch)" "f \<in> set (pb_frames batch)"
  shows "\<exists>pre raw post i. buffered p data = pre @ raw @ post \<and> i < length frames \<and>
    take (length (fd_header (frames ! i))) (raw @ post) = fd_header (frames ! i) \<and>
    resolveFrameLength p (frames ! i) (view_of (raw @ post)) = Inr (length raw) \<and>
    frame_ok p (frames ! i) options raw f"
proof -
  note facts = reachable_facts [OF assms(1,2)]
  obtain items rest where items: "push_items p options data = (items, rest)" by fastforce
  have "f \<in> set (stream_frames items)"
    using pushBytes_spec [OF facts(1,6) items] assms(3,4) by auto
  from items_sound_frames [OF push_items_sound [OF facts(1) items] this] show ?thesis
    unfolding header_at_def facts(4) by (metis drop0)
qed

lemma sample_pushed:
  "\<exists>p' batch. pushBytes sample_parser sample_raw sample_options = Some (p', batch) \<and>
     pb_frames batch = [sample_parsed]"
proof -
  note facts = reachable_facts [OF sample_reachable sample_limits]
  have uni: "uniform_headers (fp_frames sample_parser) 1" using sample_uniform by simp
  have "parse_stream sample_parser sample_options (concat (map fst [(sample_raw, sample_parsed)]))
      = (map (\<lambda>(raw, f). TakeFrame f (length raw)) [(sample_raw, sample_parsed)], [])"
    using sample_valid by (intro valid_frames_parsed [OF facts(3) uni]) auto
  then have "frames_of sample_parser sample_options sample_raw = [sample_parsed]"
    by (simp add: frames_of_def stream_frames_def List.map_filter_def)
  moreover have "sample_raw \<noteq> []" "rb_size (fp_buffer sample_parser) + length sample_raw \<le> 16"
    by (simp_all add: sample_raw_def)
  ultimately show ?thesis
    using pushBytes_frames [OF facts(1), of sample_raw sample_options]
    by (auto simp: sample_buffer_def size_max_def)
qed

theorem push_frames_sound_witness:
  "\<exists>pre raw post. sample_raw = pre @ raw @ post \<and> crc_matches sample_frame raw"
proof -
  obtain p' batch where push: "pushBytes sample_parser sample_raw sample_options = Some (p', batch)"
    "sample_parsed \<in> set (pb_frames batch)" using sample_pushed by auto
  have "overflow sample_parser sample_raw = 0"
    by (simp add: overflow_def grown_capacity_def sample_buffer_def size_max_def)
  then have "buffered sample_parser sample_raw = sample_raw" by (simp add: buffered_fits)
  with push_frames_sound [OF sample_reachable sample_limits push] show ?thesis
    by (auto simp: frame_ok_def less_Suc_eq)
qed







text \<open>C7: Nothing complete is left behind: after a call with bytes the specification finds no further
  item in the buffer, so the same buffer parsed again gives no frame, no error and no
  discarded byte.\<close>

theorem push_leaves_nothing_to_parse:
  assumes "reachable bd frames p" "limits_ok bd" "frames \<noteq> []" "data \<noteq> []"
    and "pushBytes p data options = Some (p', batch)"
  shows "parse_stream p' options (rb_contents (fp_buffer p')) = ([], rb_contents (fp_buffer p'))"
proof -
  note facts = reachable_facts [OF assms(1,2)]
  obtain items rest where items: "push_items p options data = (items, rest)" by fastforce
  have p': "same_parser p p'" "rb_contents (fp_buffer p') = rest"
    using pushBytes_spec [OF facts(1,6) items] assms(5) by auto
  have "rest = snd (parse_stream p options (buffered p data))"
    using items assms(3,4) facts(4) by (simp add: push_items_def)
  then show ?thesis
    using parse_stream_quiescent [OF facts(3), of options "buffered p data"] p'
    by (simp add: same_parser_static(1))
qed

theorem push_leaves_nothing_to_parse_witness:
  "\<exists>p' batch. pushBytes sample_parser sample_raw sample_options = Some (p', batch) \<and>
     parse_stream p' sample_options (rb_contents (fp_buffer p')) = ([], rb_contents (fp_buffer p'))"
proof -
  obtain p' batch where push: "pushBytes sample_parser sample_raw sample_options = Some (p', batch)"
    using sample_pushed by blast
  have "sample_raw \<noteq> []" by (simp add: sample_raw_def)
  with push push_leaves_nothing_to_parse [OF sample_reachable sample_limits _ this push]
  show ?thesis by blast
qed

end
