(* ===== verification/Data_Prelude.thy ===== *)
theory Data_Prelude
  imports PS_Base "HOL-Library.Char_ord" "HOL-Library.List_Lexorder"
begin

text \<open>
  Prelude of the \<open>data\<close> module: computations that may throw (\<open>bindE\<close>, \<open>rejectE\<close> on the sum type,
  \<open>Inl\<close> the exception), \<open>std::map\<close> as a list of entries in ascending key order, and
  little-endian integers. An exception is its standard class with its message; the messages
  that the source has in Chinese are given in English.
\<close>

datatype exn =
    InvalidArgument string
  | RuntimeError string
  | LogicError string
  | OverflowError string
  | BadVariantAccess
  | OutOfRange

subsection \<open>Computations that may throw\<close>

definition bindE :: "'e + 'a \<Rightarrow> ('a \<Rightarrow> 'e + 'b) \<Rightarrow> 'e + 'b" where
  "bindE m f = (case m of Inl e \<Rightarrow> Inl e | Inr x \<Rightarrow> f x)"

definition rejectE :: "bool \<Rightarrow> 'e \<Rightarrow> 'e + unit" where
  "rejectE bad e = (if bad then Inl e else Inr ())"

lemma bindE_simps [simp]:
  "bindE (Inl e) f = Inl e" "bindE (Inr x) f = f x"
  by (simp_all add: bindE_def)

lemma bindE_Inr_iff [simp]: "bindE m f = Inr y \<longleftrightarrow> (\<exists>x. m = Inr x \<and> f x = Inr y)"
  by (cases m) simp_all

lemma bindE_cong [fundef_cong]:
  "m = m' \<Longrightarrow> (\<And>x. m' = Inr x \<Longrightarrow> f x = f' x) \<Longrightarrow> bindE m f = bindE m' f'"
  by (cases m') simp_all

lemma bindE_assoc: "bindE (bindE m f) g = bindE m (\<lambda>x. bindE (f x) g)"
  by (cases m) simp_all

lemma rejectE_simps [simp]:
  "rejectE True e = Inl e" "rejectE False e = Inr ()"
  "rejectE b e = Inr u \<longleftrightarrow> \<not> b"
  by (simp_all add: rejectE_def)

text \<open>The loop that runs a fallible body over a list with a state.\<close>

fun foldE :: "('a \<Rightarrow> 's \<Rightarrow> 'e + 's) \<Rightarrow> 'a list \<Rightarrow> 's \<Rightarrow> 'e + 's" where
  "foldE f [] s = Inr s"
| "foldE f (x # xs) s = bindE (f x s) (foldE f xs)"

fun mapE :: "('a \<Rightarrow> 'e + 'b) \<Rightarrow> 'a list \<Rightarrow> 'e + 'b list" where
  "mapE f [] = Inr []"
| "mapE f (x # xs) = bindE (f x) (\<lambda>y. bindE (mapE f xs) (\<lambda>ys. Inr (y # ys)))"

lemma foldE_append: "foldE f (xs @ ys) s = bindE (foldE f xs s) (foldE f ys)"
  by (induction xs arbitrary: s) (auto simp: bindE_def split: sum.splits)

lemma mapE_Inr_iff: "mapE f xs = Inr ys \<longleftrightarrow> list_all2 (\<lambda>x y. f x = Inr y) xs ys"
proof (induction xs arbitrary: ys)
  case (Cons x xs)
  then show ?case by (cases ys) auto
qed auto

lemma mapE_cong [fundef_cong]:
  "xs = ys \<Longrightarrow> (\<And>x. x \<in> set ys \<Longrightarrow> f x = g x) \<Longrightarrow> mapE f xs = mapE g ys"
  by (induction ys arbitrary: xs) simp_all

lemma mapE_map: "mapE f (map g xs) = mapE (\<lambda>x. f (g x)) xs"
  by (induction xs) simp_all

lemma mapE_Inr: "(\<And>x. x \<in> set xs \<Longrightarrow> f x = Inr (g x)) \<Longrightarrow> mapE f xs = Inr (map g xs)"
  by (induction xs) simp_all

subsection \<open>Ordered maps\<close>

text \<open>\<open>std::map\<close>: its entries in key order. \<open>map_emplace\<close> is \<open>emplace\<close>, \<open>None\<close> when the key is there.\<close>

type_synonym ('k, 'v) omap = "('k \<times> 'v) list"

fun map_emplace :: "'k::linorder \<Rightarrow> 'v \<Rightarrow> ('k, 'v) omap \<Rightarrow> ('k, 'v) omap option" where
  "map_emplace k v [] = Some [(k, v)]"
| "map_emplace k v ((k', v') # m) =
     (if k < k' then Some ((k, v) # (k', v') # m)
      else if k = k' then None
      else map_option (\<lambda>m'. (k', v') # m') (map_emplace k v m))"

definition map_keys :: "('k, 'v) omap \<Rightarrow> 'k list" where
  "map_keys m = map fst m"

definition map_wf :: "('k::linorder, 'v) omap \<Rightarrow> bool" where
  "map_wf m \<longleftrightarrow> sorted_wrt (<) (map_keys m)"

lemma map_wf_simps [simp]:
  "map_wf []" "map_wf ((k, v) # m) \<longleftrightarrow> (\<forall>k' \<in> fst ` set m. k < k') \<and> map_wf m"
  by (auto simp: map_wf_def map_keys_def)

text \<open>The contract of such a map, as a finite map with an order on its entries.\<close>

locale ordered_map =
  fixes invar :: "'m \<Rightarrow> bool"
    and lookup :: "'m \<Rightarrow> 'k::linorder \<Rightarrow> 'v option"
    and emplace :: "'k \<Rightarrow> 'v \<Rightarrow> 'm \<Rightarrow> 'm option"
    and keys :: "'m \<Rightarrow> 'k list"
  assumes emplace_present: "invar m \<Longrightarrow> emplace k v m = None \<longleftrightarrow> lookup m k \<noteq> None"
    and emplace_invar: "invar m \<Longrightarrow> emplace k v m = Some m' \<Longrightarrow> invar m'"
    and emplace_lookup: "invar m \<Longrightarrow> emplace k v m = Some m' \<Longrightarrow> lookup m' = (lookup m)(k \<mapsto> v)"
    and keys_lookup: "invar m \<Longrightarrow> set (keys m) = {k. lookup m k \<noteq> None}"
    and keys_sorted: "invar m \<Longrightarrow> sorted_wrt (<) (keys m)"
begin

text \<open>Building a map from entries: the loop of the code that rejects a duplicate key.\<close>

fun build :: "('k \<times> 'v) list \<Rightarrow> 'm \<Rightarrow> 'm option" where
  "build [] m = Some m"
| "build ((k, v) # es) m = Option.bind (emplace k v m) (build es)"

lemma build_lookup:
  "invar m \<Longrightarrow> build es m = Some m' \<Longrightarrow>
     invar m' \<and> distinct (map fst es) \<and> (\<forall>k \<in> fst ` set es. lookup m k = None) \<and>
     lookup m' = (lookup m) ++ map_of es"
proof (induction es arbitrary: m)
  case (Cons e es)
  obtain k v where e: "e = (k, v)" by (cases e)
  with Cons.prems(2) obtain m1 where m1: "emplace k v m = Some m1" "build es m1 = Some m'"
    by (auto simp: bind_eq_Some_conv)
  have inv: "invar m1" "lookup m1 = (lookup m)(k \<mapsto> v)" "lookup m k = None"
    using emplace_invar [OF Cons.prems(1) m1(1)] emplace_lookup [OF Cons.prems(1) m1(1)]
      emplace_present [OF Cons.prems(1), of k v] m1(1) by auto
  from Cons.IH [OF inv(1) m1(2)] have ih: "invar m'" "distinct (map fst es)"
    "\<forall>j \<in> fst ` set es. lookup m1 j = None" "lookup m' = lookup m1 ++ map_of es" by auto
  have "k \<notin> fst ` set es" using ih(3) inv(2) by (auto split: if_splits)
  then have "map_of es k = None" by (simp add: map_of_eq_None_iff)
  then have "lookup m' j = (lookup m ++ map_of (e # es)) j" for j
    using ih(4) inv(2) e by (cases "j = k") (simp_all add: map_add_def split: option.split)
  then have lk: "lookup m' = lookup m ++ map_of (e # es)" by (rule ext)
  have none: "\<forall>j \<in> fst ` set (e # es). lookup m j = None"
    using ih(3) inv e by (auto split: if_splits)
  have dist: "distinct (map fst (e # es))" using ih(2) \<open>k \<notin> fst ` set es\<close> e by simp
  show ?case by (intro conjI ih(1) dist none lk)
qed simp

lemma sorted_keys_unique:
  assumes "invar m" "invar m'" "lookup m = lookup m'"
  shows "keys m = keys m'"
  using assms keys_lookup keys_sorted by (metis strict_sorted_equal)

end

lemma map_emplace_keys:
  "map_emplace k v m = Some m' \<Longrightarrow> fst ` set m' = insert k (fst ` set m)"
proof (induction m arbitrary: m')
  case (Cons e m)
  obtain k' v' where e: "e = (k', v')" by (cases e)
  show ?case
  proof (cases "k < k'")
    case False
    then obtain m1 where "map_emplace k v m = Some m1" "m' = (k', v') # m1"
      using Cons.prems e by (auto split: if_splits)
    with Cons.IH [of m1] e show ?thesis by (simp add: insert_commute)
  qed (use Cons.prems e in auto)
qed auto

lemma map_emplace_wf: "map_wf m \<Longrightarrow> map_emplace k v m = Some m' \<Longrightarrow> map_wf m'"
proof (induction m arbitrary: m')
  case (Cons e m)
  obtain k' v' where e: "e = (k', v')" by (cases e)
  show ?case
  proof (cases "k < k'")
    case True
    have "\<forall>x \<in> set m. k' < fst x" using Cons.prems(1) e by simp
    then have "\<forall>x \<in> set m. k < fst x" using True by (meson less_trans)
    then show ?thesis using Cons.prems e True by auto
  next
    case False
    then obtain m1 where m1: "map_emplace k v m = Some m1" "m' = (k', v') # m1" "k' < k"
      using Cons.prems(2) e by (auto split: if_splits)
    have "map_wf m1" using Cons.IH [OF _ m1(1)] Cons.prems(1) e by simp
    moreover have "\<forall>x \<in> fst ` set m1. k' < x"
      unfolding map_emplace_keys [OF m1(1)] using Cons.prems(1) e m1(3) by simp
    ultimately show ?thesis unfolding m1(2) map_wf_simps by (intro conjI)
  qed
qed simp

lemma map_emplace_lookup:
  "map_emplace k v m = Some m' \<Longrightarrow> map_of m' = (map_of m)(k \<mapsto> v)"
proof (induction m arbitrary: m')
  case (Cons e m)
  obtain k' v' where e: "e = (k', v')" by (cases e)
  show ?case
  proof (cases "k < k'")
    case False
    then obtain m1 where "map_emplace k v m = Some m1" "m' = (k', v') # m1" "k \<noteq> k'"
      using Cons.prems e by (auto split: if_splits)
    with Cons.IH [of m1] e show ?thesis by (auto simp: fun_eq_iff)
  qed (use Cons.prems e in auto)
qed auto

lemma map_of_less: "\<forall>k' \<in> fst ` set m. k < k' \<Longrightarrow> map_of m (k :: 'k :: linorder) = None"
  by (induction m) auto

lemma map_emplace_None: "map_wf m \<Longrightarrow> map_emplace k v m = None \<longleftrightarrow> map_of m k \<noteq> None"
proof (induction m)
  case (Cons e m)
  obtain k' v' where e: "e = (k', v')" by (cases e)
  consider "k < k'" | "k = k'" | "k' < k" by (rule linorder_cases)
  then show ?case
  proof cases
    case 1
    have "\<forall>x \<in> set m. k' < fst x" using Cons.prems e by simp
    then have "map_of m k = None" using 1 by (intro map_of_less) (auto intro: less_trans)
    then show ?thesis using 1 e by simp
  next
    case 3
    then show ?thesis using Cons e by auto
  qed (simp add: e)
qed simp

interpretation om: ordered_map map_wf map_of map_emplace map_keys
proof unfold_locales
  fix m :: "('a, 'b) omap" and k v
  assume "map_wf m"
  then show "map_emplace k v m = None \<longleftrightarrow> map_of m k \<noteq> None" by (rule map_emplace_None)
next
  fix m m' :: "('a, 'b) omap" and k v
  assume "map_wf m" "map_emplace k v m = Some m'"
  then show "map_wf m'" by (rule map_emplace_wf)
next
  fix m m' :: "('a, 'b) omap" and k v
  assume "map_wf m" "map_emplace k v m = Some m'"
  then show "map_of m' = (map_of m)(k \<mapsto> v)" by (simp add: map_emplace_lookup)
next
  fix m :: "('a, 'b) omap"
  show "set (map_keys m) = {k. map_of m k \<noteq> None}"
    by (simp add: map_keys_def map_of_eq_None_iff)
next
  fix m :: "('a, 'b) omap"
  assume "map_wf m"
  then show "sorted_wrt (<) (map_keys m)" by (simp add: map_wf_def)
qed

text \<open>Entries emplaced in ascending order give back the list of entries.\<close>

lemma map_emplace_last:
  "\<forall>k' \<in> fst ` set m. k' < k \<Longrightarrow> map_emplace k v m = Some (m @ [(k, v)])"
  by (induction m) auto

lemma build_sorted: "map_wf (m @ es) \<Longrightarrow> om.build es m = Some (m @ es)"
proof (induction es arbitrary: m)
  case (Cons e es)
  obtain k v where e: "e = (k, v)" by (cases e)
  have "\<forall>k' \<in> fst ` set m. k' < k"
    using Cons.prems e by (auto simp: map_wf_def map_keys_def sorted_wrt_append)
  from map_emplace_last [OF this, of v] show ?case using Cons e by simp
qed simp

subsection \<open>Little-endian integers\<close>

fun le_bytes :: "nat \<Rightarrow> u64 \<Rightarrow> bytes" where
  "le_bytes 0 w = []"
| "le_bytes (Suc n) w = ucast w # le_bytes n (drop_bit 8 w)"

fun le_value :: "bytes \<Rightarrow> u64" where
  "le_value [] = 0"
| "le_value (b # bs) = ucast b OR push_bit 8 (le_value bs)"

lemma length_le_bytes [simp]: "length (le_bytes n w) = n"
  by (induction n arbitrary: w) simp_all

lemma low_byte_or: "ucast (ucast w :: u8) OR push_bit 8 (drop_bit 8 w) = (w :: u64)"
proof (rule bit_word_eqI)
  fix n assume "n < LENGTH(64)"
  then show "bit (ucast (ucast w :: u8) OR push_bit 8 (drop_bit 8 w)) n = bit w n"
    by (cases "n < 8") (auto simp: bit_simps)
qed

lemma take_bit_split:
  "ucast (ucast w :: u8) OR push_bit 8 (take_bit n (drop_bit 8 w)) = take_bit (8 + n) (w :: u64)"
proof (rule bit_word_eqI)
  fix i assume "i < LENGTH(64)"
  then show "bit (ucast (ucast w :: u8) OR push_bit 8 (take_bit n (drop_bit 8 w))) i
      = bit (take_bit (8 + n) w) i"
    by (cases "i < 8") (auto simp: bit_simps)
qed

lemma le_value_le_bytes: "le_value (le_bytes n w) = take_bit (8 * n) w"
proof (induction n arbitrary: w)
  case (Suc n)
  have "8 * Suc n = 8 + 8 * n" by simp
  then show ?case using Suc by (simp only: le_bytes.simps le_value.simps take_bit_split)
qed simp

lemma le_value_8 [roundtrip_simps]: "le_value (le_bytes 8 w) = w"
  by (simp add: le_value_le_bytes take_bit_word_eq_self)

lemma le_value_4 [roundtrip_simps]: "unat w < 2 ^ 32 \<Longrightarrow> le_value (le_bytes 4 w) = w"
  by (simp add: le_value_le_bytes word_unat_eq_iff unsigned_take_bit_eq take_bit_nat_eq_self)

end
