(* ===== verification/Streams.thy ===== *)
theory Streams
  imports Data_Prelude
begin

text \<open>
  What the file formats use of the standard streams and of \<open>std::stop_token\<close>. An input stream is
  the bytes still to come with its state flags; \<open>is_fault\<close> says that the device fails where the bytes
  end. An output stream is what was written with the room left on the device. A stop token is the
  number of polls until a stop is requested, \<open>None\<close> for a task that is never stopped.
\<close>

section \<open>Stop tokens\<close>

type_synonym stop_token = "nat option"

definition poll_stop :: "stop_token \<Rightarrow> bool \<times> stop_token" where
  "poll_stop s = (case s of
     None \<Rightarrow> (False, None) | Some 0 \<Rightarrow> (True, Some 0) | Some (Suc n) \<Rightarrow> (False, Some n))"

lemma poll_never [simp]: "poll_stop None = (False, None)"
  by (simp add: poll_stop_def)

section \<open>Input streams\<close>

record istream =
  is_rest :: string
  is_fault :: bool
  is_eof :: bool
  is_fail :: bool
  is_bad :: bool

definition istream_of :: "string \<Rightarrow> istream" where
  "istream_of s = \<lparr>is_rest = s, is_fault = False, is_eof = False, is_fail = False, is_bad = False\<rparr>"

definition is_good :: "istream \<Rightarrow> bool" where
  "is_good s \<longleftrightarrow> \<not> is_eof s \<and> \<not> is_fail s \<and> \<not> is_bad s"

definition is_end :: "istream \<Rightarrow> istream" where
  "is_end s = (if is_fault s then s\<lparr>is_bad := True\<rparr> else s\<lparr>is_eof := True\<rparr>)"

definition stream_peek :: "istream \<Rightarrow> char option \<times> istream" where
  "stream_peek s =
     (if \<not> is_good s then (None, s\<lparr>is_fail := True\<rparr>)
      else case is_rest s of [] \<Rightarrow> (None, is_end s) | c # _ \<Rightarrow> (Some c, s))"

definition stream_get :: "istream \<Rightarrow> char option \<times> istream" where
  "stream_get s =
     (if \<not> is_good s then (None, s\<lparr>is_fail := True\<rparr>)
      else case is_rest s of
        [] \<Rightarrow> (None, (is_end s)\<lparr>is_fail := True\<rparr>) | c # cs \<Rightarrow> (Some c, s\<lparr>is_rest := cs\<rparr>))"

text \<open>\<open>read\<close> of \<open>n\<close> bytes: the bytes extracted (\<open>gcount\<close> of them) and the stream after it.\<close>

definition stream_read :: "nat \<Rightarrow> istream \<Rightarrow> string \<times> istream" where
  "stream_read n s =
     (if \<not> is_good s then ([], s\<lparr>is_fail := True\<rparr>)
      else if length (is_rest s) < n
      then (is_rest s, (is_end s)\<lparr>is_rest := [], is_fail := True\<rparr>)
      else (take n (is_rest s), s\<lparr>is_rest := drop n (is_rest s)\<rparr>))"

text \<open>The conversion of a stream to \<open>bool\<close>.\<close>

definition is_usable :: "istream \<Rightarrow> bool" where
  "is_usable s \<longleftrightarrow> \<not> is_fail s \<and> \<not> is_bad s"

lemma is_good_istream_of [simp]: "is_good (istream_of s)"
  by (simp add: is_good_def istream_of_def)

lemma stream_get_rest [simp]:
  "is_good s \<Longrightarrow> is_rest s = c # cs \<Longrightarrow> stream_get s = (Some c, s\<lparr>is_rest := cs\<rparr>)"
  by (simp add: stream_get_def)

lemma stream_get_length:
  "stream_get s = (Some c, s') \<Longrightarrow> length (is_rest s) = Suc (length (is_rest s'))"
  by (auto simp: stream_get_def split: if_splits list.splits)

lemma stream_get_le: "stream_get s = (x, s') \<Longrightarrow> length (is_rest s') \<le> length (is_rest s)"
  by (auto simp: stream_get_def is_end_def split: if_splits list.splits)

lemma stream_peek_rest [simp]: "is_rest (snd (stream_peek s)) = is_rest s"
  by (auto simp: stream_peek_def is_end_def split: list.splits)

section \<open>Output streams\<close>

record ostream =
  os_data :: string
  os_room :: nat
  os_ok :: bool
  os_flushes :: bool

definition stream_write :: "string \<Rightarrow> ostream \<Rightarrow> ostream" where
  "stream_write cs s =
     (if \<not> os_ok s then s
      else if os_room s < length cs
      then s\<lparr>os_data := os_data s @ take (os_room s) cs, os_room := 0, os_ok := False\<rparr>
      else s\<lparr>os_data := os_data s @ cs, os_room := os_room s - length cs\<rparr>)"

definition stream_put :: "char \<Rightarrow> ostream \<Rightarrow> ostream" where
  "stream_put c = stream_write [c]"

definition stream_flush :: "ostream \<Rightarrow> ostream" where
  "stream_flush s = (if os_flushes s then s else s\<lparr>os_ok := False\<rparr>)"

text \<open>What was put into a stream that is still good.\<close>

definition wrote :: "ostream \<Rightarrow> string \<Rightarrow> ostream \<Rightarrow> bool" where
  "wrote s cs s' \<longleftrightarrow> os_ok s \<and> length cs \<le> os_room s \<and>
     s' = s\<lparr>os_data := os_data s @ cs, os_room := os_room s - length cs\<rparr>"

lemma wrote_ok: "wrote s cs s' \<Longrightarrow> os_ok s'"
  by (simp add: wrote_def)

lemma wrote_trans: "wrote s a s' \<Longrightarrow> wrote s' b s'' \<Longrightarrow> wrote s (a @ b) s''"
  by (auto simp: wrote_def)

lemma wrote_nil [simp]: "os_ok s \<Longrightarrow> wrote s [] s' \<longleftrightarrow> s' = s"
  by (auto simp: wrote_def)

lemma wrote_data: "wrote s cs s' \<Longrightarrow> os_data s' = os_data s @ cs"
  by (simp add: wrote_def)

lemma stream_write_ok: "os_ok (stream_write cs s) \<longleftrightarrow> os_ok s \<and> length cs \<le> os_room s"
  by (auto simp: stream_write_def)

lemma stream_write_wrote: "os_ok (stream_write cs s) \<Longrightarrow> wrote s cs (stream_write cs s)"
  by (auto simp: stream_write_def wrote_def split: if_splits)

lemma stream_write_room: "os_ok s \<Longrightarrow> length cs \<le> os_room s \<Longrightarrow> wrote s cs (stream_write cs s)"
  by (simp add: stream_write_def wrote_def)

section \<open>Computations with a state that may throw\<close>

text \<open>The state reached is kept when an exception is thrown.\<close>

type_synonym ('s, 'a) task = "'s \<Rightarrow> (exn + 'a) \<times> 's"

definition returnT :: "'a \<Rightarrow> ('s, 'a) task" where
  "returnT x s = (Inr x, s)"

definition throwT :: "exn \<Rightarrow> ('s, 'a) task" where
  "throwT e s = (Inl e, s)"

definition bindT :: "('s, 'a) task \<Rightarrow> ('a \<Rightarrow> ('s, 'b) task) \<Rightarrow> ('s, 'b) task" where
  "bindT m f s = (case m s of (Inl e, s') \<Rightarrow> (Inl e, s') | (Inr x, s') \<Rightarrow> f x s')"

definition thenT :: "('s, 'a) task \<Rightarrow> ('s, 'b) task \<Rightarrow> ('s, 'b) task" where
  "thenT m k = bindT m (\<lambda>_. k)"

definition liftT :: "exn + 'a \<Rightarrow> ('s, 'a) task" where
  "liftT r s = (r, s)"

definition rejectT :: "bool \<Rightarrow> exn \<Rightarrow> ('s, unit) task" where
  "rejectT bad e = (if bad then throwT e else returnT ())"

fun forT :: "('a \<Rightarrow> ('s, unit) task) \<Rightarrow> 'a list \<Rightarrow> ('s, unit) task" where
  "forT f [] = returnT ()"
| "forT f (x # xs) = thenT (f x) (forT f xs)"

lemma returnT_iff [simp]: "returnT x s = (Inr y, s') \<longleftrightarrow> x = y \<and> s = s'"
  by (simp add: returnT_def)

lemma throwT_iff [simp]: "throwT e s \<noteq> (Inr y, s')"
  by (simp add: throwT_def)

lemma liftT_iff [simp]: "liftT r s = (Inr y, s') \<longleftrightarrow> r = Inr y \<and> s = s'"
  by (simp add: liftT_def)

lemma rejectT_iff [simp]: "rejectT b e s = (Inr y, s') \<longleftrightarrow> \<not> b \<and> s = s'"
  by (simp add: rejectT_def)

lemma bindT_iff [simp]: "bindT m f s = (Inr y, s') \<longleftrightarrow> (\<exists>x s1. m s = (Inr x, s1) \<and> f x s1 = (Inr y, s'))"
  by (auto simp: bindT_def split: prod.splits sum.splits)

lemma thenT_iff [simp]: "thenT m k s = (Inr y, s') \<longleftrightarrow> (\<exists>x s1. m s = (Inr x, s1) \<and> k s1 = (Inr y, s'))"
  by (simp add: thenT_def)

section \<open>Output tasks\<close>

record sink =
  sink_out :: ostream
  sink_stop :: stop_token

definition sink_check_stop :: "exn \<Rightarrow> (sink, unit) task" where
  "sink_check_stop e k =
     (let (stopped, t) = poll_stop (sink_stop k); k = k\<lparr>sink_stop := t\<rparr> in
      if stopped then (Inl e, k) else (Inr (), k))"

definition sink_write :: "string \<Rightarrow> (sink, unit) task" where
  "sink_write cs k = (Inr (), k\<lparr>sink_out := stream_write cs (sink_out k)\<rparr>)"

definition sink_check :: "exn \<Rightarrow> (sink, unit) task" where
  "sink_check e k = (if os_ok (sink_out k) then (Inr (), k) else (Inl e, k))"

definition sink_flush :: "(sink, unit) task" where
  "sink_flush k = (Inr (), k\<lparr>sink_out := stream_flush (sink_out k)\<rparr>)"

text \<open>A sequence of writes of \<open>cs\<close> on a task that is never stopped.\<close>

definition sink_wrote :: "sink \<Rightarrow> string \<Rightarrow> sink \<Rightarrow> bool" where
  "sink_wrote k cs k' \<longleftrightarrow> sink_stop k = None \<and> k' = k\<lparr>sink_out := stream_write cs (sink_out k)\<rparr>"

lemma stream_write_append: "stream_write (a @ b) s = stream_write b (stream_write a s)"
  by (auto simp: stream_write_def)

lemma stream_write_Nil [simp]: "stream_write [] s = s"
  by (simp add: stream_write_def)

lemma sink_wrote_trans: "sink_wrote k a k' \<Longrightarrow> sink_wrote k' b k'' \<Longrightarrow> sink_wrote k (a @ b) k''"
  by (auto simp: sink_wrote_def stream_write_append)

lemma sink_wrote_nil [simp]: "sink_stop k = None \<Longrightarrow> sink_wrote k [] k' \<longleftrightarrow> k' = k"
  by (auto simp: sink_wrote_def)

lemma sink_wrote_stop: "sink_wrote k cs k' \<Longrightarrow> sink_stop k' = None"
  by (simp add: sink_wrote_def)

lemma sink_check_stop_never:
  "sink_stop k = None \<Longrightarrow> sink_check_stop e k = (Inr (), k)"
  by (simp add: sink_check_stop_def)

lemma sink_write_wrote: "sink_stop k = None \<Longrightarrow> sink_write cs k = (Inr (), k') \<longleftrightarrow> sink_wrote k cs k'"
  by (auto simp: sink_write_def sink_wrote_def)

lemma sink_check_iff [simp]: "sink_check e k = (Inr u, k') \<longleftrightarrow> os_ok (sink_out k) \<and> k' = k"
  by (auto simp: sink_check_def)

text \<open>The chunks of at most 65536 characters in which a text is written.\<close>

function write_chunks :: "exn \<Rightarrow> exn \<Rightarrow> string \<Rightarrow> (sink, unit) task" where
  "write_chunks stopped failed cs =
     (if cs = [] then returnT ()
      else
        thenT (sink_check_stop stopped)
          (thenT (sink_write (take 65536 cs))
            (thenT (sink_check failed) (write_chunks stopped failed (drop 65536 cs)))))"
  by pat_completeness auto
termination
  by (relation "measure (\<lambda>(a, b, cs). length cs)") auto

declare write_chunks.simps [simp del]

lemma write_chunks_iff:
  "sink_stop k = None \<Longrightarrow> write_chunks e e' cs k = (Inr u, k') \<longleftrightarrow>
     sink_wrote k cs k' \<and> (cs \<noteq> [] \<longrightarrow> os_ok (sink_out k'))"
proof (induction e e' cs arbitrary: k rule: write_chunks.induct)
  case (1 e e' cs)
  show ?case
  proof (cases "cs = []")
    case False
    let ?k1 = "k\<lparr>sink_out := stream_write (take 65536 cs) (sink_out k)\<rparr>"
    have k1: "sink_wrote k (take 65536 cs) ?k1" "sink_stop ?k1 = None"
      using "1.prems" by (simp_all add: sink_wrote_def)
    have "write_chunks e e' cs k = (Inr u, k') \<longleftrightarrow>
        os_ok (sink_out ?k1) \<and> write_chunks e e' (drop 65536 cs) ?k1 = (Inr u, k')"
      using False "1.prems" by (subst write_chunks.simps) (simp add: sink_check_stop_never sink_write_def)
    also have "\<dots> \<longleftrightarrow> os_ok (sink_out ?k1) \<and> sink_wrote ?k1 (drop 65536 cs) k' \<and>
        (drop 65536 cs \<noteq> [] \<longrightarrow> os_ok (sink_out k'))"
      using "1.IH" [OF False k1(2)] by simp
    also have "\<dots> \<longleftrightarrow> sink_wrote k cs k' \<and> os_ok (sink_out k')"
      using "1.prems" stream_write_append [of "take 65536 cs" "drop 65536 cs" "sink_out k"]
      by (auto simp: sink_wrote_def stream_write_ok)
    finally show ?thesis using False by simp
  qed (simp add: write_chunks.simps sink_wrote_def "1.prems" sink_wrote_nil eq_commute)
qed

end
