(* ===== verification/Data_Model.thy ===== *)
theory Data_Model
  imports Data_Prelude Ieee754
begin

text \<open>
  The dynamic values, schemas and records of \<open>data/model.hpp\<close> and \<open>data/model.cc\<close>: the tagged
  binary encoding with its three limits (bytes, nesting depth, nodes), the validation of schemas
  and records, and their representation as structured values. \<open>std::map\<close> objects are entry lists
  in ascending key order (\<open>value_ok\<close>), a \<open>double\<close> is its bit pattern. An enumeration is its
  underlying integer with named constants, since the code checks for values outside of it.
\<close>

section \<open>The data types\<close>

datatype Value =
    VNull
  | VInt int
  | VDouble f64
  | VBool bool
  | VString string
  | VBytes bytes
  | VArray "Value list"
  | VObject "(string \<times> Value) list"

fun value_index :: "Value \<Rightarrow> nat" where
  "value_index VNull = 0"
| "value_index (VInt _) = 1"
| "value_index (VDouble _) = 2"
| "value_index (VBool _) = 3"
| "value_index (VString _) = 4"
| "value_index (VBytes _) = 5"
| "value_index (VArray _) = 6"
| "value_index (VObject _) = 7"

type_synonym FieldType = u8

definition FieldType_Int64 :: FieldType where "FieldType_Int64 = 1"
definition FieldType_Double :: FieldType where "FieldType_Double = 2"
definition FieldType_Bool :: FieldType where "FieldType_Bool = 3"
definition FieldType_String :: FieldType where "FieldType_String = 4"
definition FieldType_Bytes :: FieldType where "FieldType_Bytes = 5"

lemmas field_type_defs =
  FieldType_Int64_def FieldType_Double_def FieldType_Bool_def FieldType_String_def FieldType_Bytes_def

record Field =
  fld_name :: string
  fld_type :: FieldType
  fld_nullable :: bool

record Schema =
  sch_dataset :: string
  sch_fields :: "Field list"

record Record =
  rec_protocol :: string
  rec_dataset :: string
  rec_device :: string
  rec_receivedAtUs :: int
  rec_deviceTimeUs :: "int option"
  rec_schemaVersion :: u64
  rec_values :: "Value list"

record ValueLimits =
  maxBytes :: nat
  maxDepth :: nat
  maxNodes :: nat

definition default_limits :: ValueLimits where
  "default_limits = \<lparr>maxBytes = 256 * 1024, maxDepth = 16, maxNodes = size_max\<rparr>"

section \<open>Encoding\<close>

record Encoder =
  enc_result :: bytes
  enc_nodes :: nat

definition encoder_byte :: "ValueLimits \<Rightarrow> u8 \<Rightarrow> Encoder \<Rightarrow> exn + Encoder" where
  "encoder_byte L b e =
     (if maxBytes L \<le> length (enc_result e) then Inl (InvalidArgument ''value exceeds byte limit'')
      else Inr (e\<lparr>enc_result := enc_result e @ [b]\<rparr>))"

definition encoder_integer :: "ValueLimits \<Rightarrow> u64 \<Rightarrow> Encoder \<Rightarrow> exn + Encoder" where
  "encoder_integer L w = foldE (encoder_byte L) (map (\<lambda>i. ucast (drop_bit (8 * i) w)) [0..<8])"

definition encoder_bytes :: "ValueLimits \<Rightarrow> bytes \<Rightarrow> Encoder \<Rightarrow> exn + Encoder" where
  "encoder_bytes L bs e =
     bindE (encoder_integer L (of_nat (length bs)) e) (\<lambda>e.
       if maxBytes L - length (enc_result e) < length bs
       then Inl (InvalidArgument ''value exceeds byte limit'')
       else Inr (e\<lparr>enc_result := enc_result e @ bs\<rparr>))"

definition encoder_text :: "ValueLimits \<Rightarrow> string \<Rightarrow> Encoder \<Rightarrow> exn + Encoder" where
  "encoder_text L s = encoder_bytes L (map byte_of_char s)"

text \<open>The guards and the tag that open every value.\<close>

definition encoder_enter :: "ValueLimits \<Rightarrow> nat \<Rightarrow> nat \<Rightarrow> Encoder \<Rightarrow> exn + Encoder" where
  "encoder_enter L tag depth e =
     (if maxNodes L \<le> enc_nodes e then Inl (InvalidArgument ''value exceeds node limit'')
      else if maxDepth L < depth then Inl (InvalidArgument ''value exceeds depth limit'')
      else encoder_byte L (of_nat tag) (e\<lparr>enc_nodes := Suc (enc_nodes e)\<rparr>))"

fun encoder_encode :: "ValueLimits \<Rightarrow> Value \<Rightarrow> nat \<Rightarrow> Encoder \<Rightarrow> exn + Encoder"
  and encoder_values :: "ValueLimits \<Rightarrow> Value list \<Rightarrow> nat \<Rightarrow> Encoder \<Rightarrow> exn + Encoder"
  and encoder_members :: "ValueLimits \<Rightarrow> (string \<times> Value) list \<Rightarrow> nat \<Rightarrow> Encoder \<Rightarrow> exn + Encoder"
where
  "encoder_encode L v depth e =
     bindE (encoder_enter L (value_index v) depth e) (\<lambda>e.
       case v of
         VNull \<Rightarrow> Inr e
       | VInt i \<Rightarrow> encoder_integer L (word_of_int i) e
       | VDouble d \<Rightarrow>
           (if \<not> f64_isfinite d then Inl (InvalidArgument ''non-finite number'')
            else encoder_integer L d e)
       | VBool b \<Rightarrow> encoder_byte L (if b then 1 else 0) e
       | VString s \<Rightarrow> encoder_text L s e
       | VBytes bs \<Rightarrow> encoder_bytes L bs e
       | VArray vs \<Rightarrow>
           bindE (encoder_integer L (of_nat (length vs)) e) (encoder_values L vs (Suc depth))
       | VObject ms \<Rightarrow>
           bindE (encoder_integer L (of_nat (length ms)) e) (encoder_members L ms (Suc depth)))"
| "encoder_values L [] depth e = Inr e"
| "encoder_values L (v # vs) depth e =
     bindE (encoder_encode L v depth e) (encoder_values L vs depth)"
| "encoder_members L [] depth e = Inr e"
| "encoder_members L ((key, v) # ms) depth e =
     bindE (encoder_text L key e) (\<lambda>e.
       bindE (encoder_encode L v depth e) (encoder_members L ms depth))"

definition encodeValue :: "Value \<Rightarrow> ValueLimits \<Rightarrow> exn + bytes" where
  "encodeValue v L =
     bindE (encoder_encode L v 0 \<lparr>enc_result = [], enc_nodes = 0\<rparr>) (\<lambda>e. Inr (enc_result e))"

section \<open>Decoding\<close>

record Decoder =
  dec_remaining :: bytes
  dec_nodes :: nat

definition decoder_byte :: "Decoder \<Rightarrow> exn + (u8 \<times> Decoder)" where
  "decoder_byte d =
     (case dec_remaining d of
        [] \<Rightarrow> Inl (InvalidArgument ''value data is truncated'')
      | b # rest \<Rightarrow> Inr (b, d\<lparr>dec_remaining := rest\<rparr>))"

text \<open>The loop over the eight bytes, from byte \<open>i\<close> on, with the value so far.\<close>

fun decoder_integer_from :: "nat list \<Rightarrow> u64 \<Rightarrow> Decoder \<Rightarrow> exn + (u64 \<times> Decoder)" where
  "decoder_integer_from [] w d = Inr (w, d)"
| "decoder_integer_from (i # is) w d =
     bindE (decoder_byte d) (\<lambda>(b, d). decoder_integer_from is (w OR push_bit (8 * i) (ucast b)) d)"

definition decoder_integer :: "Decoder \<Rightarrow> exn + (u64 \<times> Decoder)" where
  "decoder_integer = decoder_integer_from [0..<8] 0"

definition decoder_count :: "Decoder \<Rightarrow> exn + (nat \<times> Decoder)" where
  "decoder_count d =
     bindE (decoder_integer d) (\<lambda>(w, d).
       if length (dec_remaining d) < unat w
       then Inl (InvalidArgument ''value length exceeds input'')
       else Inr (unat w, d))"

definition decoder_bytes :: "Decoder \<Rightarrow> exn + (bytes \<times> Decoder)" where
  "decoder_bytes d =
     bindE (decoder_count d) (\<lambda>(n, d).
       Inr (take n (dec_remaining d), d\<lparr>dec_remaining := drop n (dec_remaining d)\<rparr>))"

definition decoder_text :: "Decoder \<Rightarrow> exn + (string \<times> Decoder)" where
  "decoder_text d = bindE (decoder_bytes d) (\<lambda>(bs, d). Inr (map char_of_byte bs, d))"

definition decoder_enter :: "ValueLimits \<Rightarrow> nat \<Rightarrow> Decoder \<Rightarrow> exn + (u8 \<times> Decoder)" where
  "decoder_enter L depth d =
     (if maxNodes L \<le> dec_nodes d then Inl (InvalidArgument ''value exceeds node limit'')
      else if maxDepth L < depth then Inl (InvalidArgument ''value exceeds depth limit'')
      else decoder_byte (d\<lparr>dec_nodes := Suc (dec_nodes d)\<rparr>))"

text \<open>The values without parts, by their tag.\<close>

definition decoder_scalar :: "u8 \<Rightarrow> Decoder \<Rightarrow> exn + (Value \<times> Decoder)" where
  "decoder_scalar tag d =
     (if tag = 0 then Inr (VNull, d)
      else if tag = 1 then bindE (decoder_integer d) (\<lambda>(w, d). Inr (VInt (sint w), d))
      else if tag = 2 then
        bindE (decoder_integer d) (\<lambda>(w, d).
          if \<not> f64_isfinite w then Inl (InvalidArgument ''non-finite number'') else Inr (VDouble w, d))
      else if tag = 3 then
        bindE (decoder_byte d) (\<lambda>(b, d).
          if 1 < b then Inl (InvalidArgument ''invalid boolean'') else Inr (VBool (b \<noteq> 0), d))
      else if tag = 4 then bindE (decoder_text d) (\<lambda>(s, d). Inr (VString s, d))
      else if tag = 5 then bindE (decoder_bytes d) (\<lambda>(bs, d). Inr (VBytes bs, d))
      else Inl (InvalidArgument ''unknown value type''))"

function decoder_decode :: "ValueLimits \<Rightarrow> nat \<Rightarrow> Decoder \<Rightarrow> exn + (Value \<times> Decoder)"
  and decoder_values :: "ValueLimits \<Rightarrow> nat \<Rightarrow> nat \<Rightarrow> Decoder \<Rightarrow> exn + (Value list \<times> Decoder)"
  and decoder_members :: "ValueLimits \<Rightarrow> nat \<Rightarrow> nat \<Rightarrow> (string, Value) omap \<Rightarrow> Decoder
        \<Rightarrow> exn + ((string, Value) omap \<times> Decoder)"
where
  "decoder_decode L depth d =
     bindE (decoder_enter L depth d) (\<lambda>(tag, d).
       if tag = 6 then
         bindE (decoder_count d) (\<lambda>(n, d).
           bindE (decoder_values L n (Suc depth) d) (\<lambda>(vs, d). Inr (VArray vs, d)))
       else if tag = 7 then
         bindE (decoder_count d) (\<lambda>(n, d).
           bindE (decoder_members L n (Suc depth) [] d) (\<lambda>(ms, d). Inr (VObject ms, d)))
       else decoder_scalar tag d)"
| "decoder_values L 0 depth d = Inr ([], d)"
| "decoder_values L (Suc n) depth d =
     bindE (decoder_decode L depth d) (\<lambda>(v, d).
       bindE (decoder_values L n depth d) (\<lambda>(vs, d). Inr (v # vs, d)))"
| "decoder_members L 0 depth ms d = Inr (ms, d)"
| "decoder_members L (Suc n) depth ms d =
     bindE (decoder_text d) (\<lambda>(key, d).
       bindE (decoder_decode L depth d) (\<lambda>(v, d).
         case map_emplace key v ms of
           None \<Rightarrow> Inl (InvalidArgument ''duplicate object key'')
         | Some ms \<Rightarrow> decoder_members L n depth ms d))"
  by pat_completeness auto

text \<open>
  Every nested call is one level deeper and the depth is limited; the loops over elements and
  members count down.
\<close>

termination
  by (relation "inv_image (less_than <*lex*> less_than)
        (case_sum (\<lambda>(L, depth, d). (Suc (Suc (maxDepth L)) - depth, 0))
          (case_sum (\<lambda>(L, n, depth, d). (Suc (Suc (maxDepth L)) - depth, Suc n))
            (\<lambda>(L, n, depth, ms, d). (Suc (Suc (maxDepth L)) - depth, Suc n))))")
    (auto simp: decoder_enter_def split: if_splits)

definition decodeValue :: "bytes \<Rightarrow> ValueLimits \<Rightarrow> exn + Value" where
  "decodeValue bs L =
     (if maxBytes L < length bs then Inl (InvalidArgument ''value exceeds byte limit'')
      else bindE (decoder_decode L 0 \<lparr>dec_remaining = bs, dec_nodes = 0\<rparr>) (\<lambda>(v, d).
        if dec_remaining d \<noteq> [] then Inl (InvalidArgument ''value data has a trailing part'')
        else Inr v))"

section \<open>Schemas and records\<close>

definition checkName :: "string \<Rightarrow> exn + unit" where
  "checkName name =
     rejectE (name = [] \<or> 128 < length name \<or> CHR 0x00 \<in> set name) (InvalidArgument ''invalid name'')"

fun validate_fields :: "Field list \<Rightarrow> string set \<Rightarrow> exn + unit" where
  "validate_fields [] names = Inr ()"
| "validate_fields (f # fs) names =
     bindE (checkName (fld_name f)) (\<lambda>_.
       if fld_name f \<in> names then Inl (InvalidArgument ''duplicate field name'')
       else if fld_type f < FieldType_Int64 \<or> FieldType_Bytes < fld_type f
       then Inl (InvalidArgument ''unsupported field type'')
       else validate_fields fs (insert (fld_name f) names))"

definition validateSchema :: "Schema \<Rightarrow> exn + unit" where
  "validateSchema s =
     bindE (checkName (sch_dataset s)) (\<lambda>_.
       if sch_fields s = [] \<or> 1024 < length (sch_fields s)
       then Inl (InvalidArgument ''field count must be 1 to 1024'')
       else validate_fields (sch_fields s) {})"

definition validate_value :: "Field \<Rightarrow> Value \<Rightarrow> exn + unit" where
  "validate_value f v =
     bindE (if value_index v = 0
            then rejectE (\<not> fld_nullable f) (InvalidArgument ''required field is null'')
            else rejectE (value_index v \<noteq> unat (fld_type f)) (InvalidArgument ''field type mismatch''))
       (\<lambda>_. case v of
          VDouble d \<Rightarrow> rejectE (\<not> f64_isfinite d) (InvalidArgument ''non-finite number in record'')
        | _ \<Rightarrow> Inr ())"

fun validate_values :: "(Field \<times> Value) list \<Rightarrow> exn + unit" where
  "validate_values [] = Inr ()"
| "validate_values ((f, v) # fvs) = bindE (validate_value f v) (\<lambda>_. validate_values fvs)"

definition validateRecord :: "Schema \<Rightarrow> Record \<Rightarrow> exn + unit" where
  "validateRecord s r =
     bindE (validateSchema s) (\<lambda>_.
       if rec_protocol r = [] \<or> 4096 < length (rec_protocol r) \<or> 4096 < length (rec_device r)
       then Inl (InvalidArgument ''invalid protocol or device'')
       else if rec_dataset r \<noteq> sch_dataset s \<or> length (rec_values r) \<noteq> length (sch_fields s)
       then Inl (InvalidArgument ''record does not match schema'')
       else validate_values (zip (sch_fields s) (rec_values r)))"

section \<open>Schemas and records as structured values\<close>

definition mismatch :: exn where
  "mismatch = InvalidArgument ''structured value type mismatch''"

definition as_int :: "Value \<Rightarrow> exn + int" where
  "as_int v = (case v of VInt i \<Rightarrow> Inr i | _ \<Rightarrow> Inl mismatch)"

definition as_bool :: "Value \<Rightarrow> exn + bool" where
  "as_bool v = (case v of VBool b \<Rightarrow> Inr b | _ \<Rightarrow> Inl mismatch)"

definition as_string :: "Value \<Rightarrow> exn + string" where
  "as_string v = (case v of VString s \<Rightarrow> Inr s | _ \<Rightarrow> Inl mismatch)"

definition as_array :: "Value \<Rightarrow> exn + Value list" where
  "as_array v = (case v of VArray vs \<Rightarrow> Inr vs | _ \<Rightarrow> Inl mismatch)"

lemmas as_defs = as_int_def as_bool_def as_string_def as_array_def

definition array_of :: "Value \<Rightarrow> nat \<Rightarrow> exn + Value list" where
  "array_of v n =
     bindE (as_array v) (\<lambda>vs.
       if length vs \<noteq> n then Inl (InvalidArgument ''structured value field count mismatch'') else Inr vs)"

definition field_value :: "Field \<Rightarrow> Value" where
  "field_value f = VArray [VString (fld_name f), VInt (uint (fld_type f)), VBool (fld_nullable f)]"

definition schemaValue :: "Schema \<Rightarrow> exn + Value" where
  "schemaValue s =
     bindE (validateSchema s) (\<lambda>_.
       Inr (VArray [VString (sch_dataset s), VArray (map field_value (sch_fields s))]))"

definition field_from_value :: "Value \<Rightarrow> exn + Field" where
  "field_from_value v =
     bindE (array_of v 3) (\<lambda>field.
       bindE (as_int (field ! 1)) (\<lambda>type.
         if type < 1 \<or> 5 < type then Inl (InvalidArgument ''unsupported field type'')
         else
           bindE (as_string (field ! 0)) (\<lambda>name.
             bindE (as_bool (field ! 2)) (\<lambda>nullable.
               Inr \<lparr>fld_name = name, fld_type = word_of_int type, fld_nullable = nullable\<rparr>))))"

definition schemaFromValue :: "Value \<Rightarrow> exn + Schema" where
  "schemaFromValue v =
     bindE (array_of v 2) (\<lambda>parts.
       bindE (as_string (parts ! 0)) (\<lambda>dataset.
         bindE (as_array (parts ! 1)) (\<lambda>encoded.
           bindE (mapE field_from_value encoded) (\<lambda>fields.
             let schema = \<lparr>sch_dataset = dataset, sch_fields = fields\<rparr> in
             bindE (validateSchema schema) (\<lambda>_. Inr schema)))))"

definition recordValue :: "Record \<Rightarrow> exn + Value" where
  "recordValue r =
     (if int64_max < uint (rec_schemaVersion r) then Inl (InvalidArgument ''schema version out of range'')
      else Inr (VArray [VString (rec_protocol r), VString (rec_dataset r), VString (rec_device r),
             VInt (rec_receivedAtUs r),
             (case rec_deviceTimeUs r of Some t \<Rightarrow> VInt t | None \<Rightarrow> VNull),
             VInt (uint (rec_schemaVersion r)), VArray (rec_values r)]))"

definition recordFromValue :: "Value \<Rightarrow> exn + Record" where
  "recordFromValue v =
     bindE (array_of v 7) (\<lambda>parts.
       bindE (as_int (parts ! 5)) (\<lambda>version.
         if version < 0 then Inl (InvalidArgument ''schema version is negative'')
         else
           bindE (as_string (parts ! 0)) (\<lambda>protocol.
             bindE (as_string (parts ! 1)) (\<lambda>dataset.
               bindE (as_string (parts ! 2)) (\<lambda>device.
                 bindE (as_int (parts ! 3)) (\<lambda>receivedAtUs.
                   bindE (as_array (parts ! 6)) (\<lambda>values.
                     bindE (if value_index (parts ! 4) \<noteq> 0
                            then bindE (as_int (parts ! 4)) (\<lambda>t. Inr (Some t)) else Inr None)
                       (\<lambda>deviceTimeUs.
                         Inr \<lparr>rec_protocol = protocol, rec_dataset = dataset, rec_device = device,
                              rec_receivedAtUs = receivedAtUs, rec_deviceTimeUs = deviceTimeUs,
                              rec_schemaVersion = word_of_int version, rec_values = values\<rparr>))))))))"

end
