(* ===== verification/Data_Codec.thy ===== *)
theory Data_Codec
  imports Data_Model
begin

text \<open>
  Correctness of the value encoding of \<open>data/model.cc\<close>. The specification is the layout
  \<open>value_bytes\<close> of a value with its node count \<open>value_nodes\<close> and depth \<open>value_depth\<close>; the encoder
  produces it exactly when the three limits allow it, the decoder reads it back, and whatever
  the decoder accepts is a well-formed value within the limits.
\<close>

section \<open>The layout of a value\<close>

fun value_bytes :: "Value \<Rightarrow> bytes" where
  "value_bytes VNull = [0]"
| "value_bytes (VInt i) = 1 # le_bytes 8 (word_of_int i)"
| "value_bytes (VDouble d) = 2 # le_bytes 8 d"
| "value_bytes (VBool b) = [3, if b then 1 else 0]"
| "value_bytes (VString s) = 4 # le_bytes 8 (of_nat (length s)) @ map byte_of_char s"
| "value_bytes (VBytes bs) = 5 # le_bytes 8 (of_nat (length bs)) @ bs"
| "value_bytes (VArray vs) = 6 # le_bytes 8 (of_nat (length vs)) @ concat (map value_bytes vs)"
| "value_bytes (VObject ms) = 7 # le_bytes 8 (of_nat (length ms)) @
     concat (map (\<lambda>(k, v). le_bytes 8 (of_nat (length k)) @ map byte_of_char k @ value_bytes v) ms)"

fun value_nodes :: "Value \<Rightarrow> nat" where
  "value_nodes (VArray vs) = Suc (sum_list (map value_nodes vs))"
| "value_nodes (VObject ms) = Suc (sum_list (map (\<lambda>(k, v). value_nodes v) ms))"
| "value_nodes v = 1"

fun value_depth :: "Value \<Rightarrow> nat" where
  "value_depth (VArray vs) = foldr (\<lambda>v. max (Suc (value_depth v))) vs 0"
| "value_depth (VObject ms) = foldr (\<lambda>(k, v). max (Suc (value_depth v))) ms 0"
| "value_depth v = 0"

fun value_finite :: "Value \<Rightarrow> bool" where
  "value_finite (VDouble d) \<longleftrightarrow> f64_isfinite d"
| "value_finite (VArray vs) \<longleftrightarrow> list_all value_finite vs"
| "value_finite (VObject ms) \<longleftrightarrow> list_all (\<lambda>(k, v). value_finite v) ms"
| "value_finite v \<longleftrightarrow> True"

text \<open>The values the C++ type can hold: 64-bit integers, objects with their keys in order.\<close>

fun value_ok :: "Value \<Rightarrow> bool" where
  "value_ok (VInt i) \<longleftrightarrow> is_int64 i"
| "value_ok (VArray vs) \<longleftrightarrow> list_all value_ok vs"
| "value_ok (VObject ms) \<longleftrightarrow> map_wf ms \<and> list_all (\<lambda>(k, v). value_ok v) ms"
| "value_ok v \<longleftrightarrow> True"

definition key_bytes :: "string \<Rightarrow> bytes" where
  "key_bytes k = le_bytes 8 (of_nat (length k)) @ map byte_of_char k"

definition member_bytes :: "string \<times> Value \<Rightarrow> bytes" where
  "member_bytes m = key_bytes (fst m) @ value_bytes (snd m)"

lemma member_bytes_Pair: "member_bytes (k, v) = key_bytes k @ value_bytes v"
  by (simp add: member_bytes_def)

lemma value_bytes_VObject [simp]:
  "value_bytes (VObject ms) = 7 # le_bytes 8 (of_nat (length ms)) @ concat (map member_bytes ms)"
  by (simp add: member_bytes_def [abs_def] key_bytes_def case_prod_unfold)

declare value_bytes.simps(8) [simp del]

lemma members_simps [simp]:
  "value_nodes (VObject ms) = Suc (sum_list (map (value_nodes \<circ> snd) ms))"
  "value_finite (VObject ms) \<longleftrightarrow> list_all (value_finite \<circ> snd) ms"
  "value_ok (VObject ms) \<longleftrightarrow> map_wf ms \<and> list_all (value_ok \<circ> snd) ms"
  by (simp_all add: case_prod_unfold comp_def)

declare value_nodes.simps(2) [simp del] value_finite.simps(3) [simp del] value_ok.simps(3) [simp del]

lemma value_bytes_pos [simp]: "0 < length (value_bytes v)" "value_bytes v \<noteq> []"
  by (cases v; simp)+

lemma value_nodes_pos [simp]: "0 < value_nodes v"
  by (cases v) simp_all

lemma foldr_max_le:
  "d + foldr (\<lambda>v. max (Suc (f v))) vs (0 :: nat) \<le> D \<longleftrightarrow>
     d \<le> D \<and> (\<forall>v \<in> set vs. Suc d + f v \<le> D)"
  by (induction vs) (auto simp: max_def)

lemma value_depth_le [simp]:
  "d + value_depth (VArray vs) \<le> D \<longleftrightarrow> d \<le> D \<and> (\<forall>v \<in> set vs. Suc d + value_depth v \<le> D)"
  "d + value_depth (VObject ms) \<le> D \<longleftrightarrow> d \<le> D \<and> (\<forall>m \<in> set ms. Suc d + value_depth (snd m) \<le> D)"
  using foldr_max_le [of d value_depth vs D] foldr_max_le [of d "value_depth \<circ> snd" ms D]
  by (simp_all add: case_prod_unfold comp_def)

declare value_depth.simps(1,2) [simp del]

text \<open>No more nodes than bytes, and no fewer elements than bytes.\<close>

lemma sum_list_le_concat:
  "(\<And>x. x \<in> set xs \<Longrightarrow> f x \<le> length (g x)) \<Longrightarrow> sum_list (map f xs) \<le> length (concat (map g xs))"
  by (induction xs) (auto intro: add_mono)

lemma length_le_concat:
  "(\<And>x. x \<in> set xs \<Longrightarrow> g x \<noteq> []) \<Longrightarrow> length xs \<le> length (concat (map g xs))"
proof (induction xs)
  case (Cons x xs)
  then have "length xs \<le> length (concat (map g xs))" "g x \<noteq> []" by simp_all
  then show ?case by (cases "g x") simp_all
qed simp

lemma value_nodes_le_bytes: "value_nodes v \<le> length (value_bytes v)"
proof (induction v)
  case (VArray vs)
  then show ?case using sum_list_le_concat [of vs value_nodes value_bytes] by simp
next
  case (VObject ms)
  have "(value_nodes \<circ> snd) m \<le> length (member_bytes m)" if "m \<in> set ms" for m
    using VObject.IH [of m "snd m"] that by (simp add: member_bytes_def snds.simps)
  then show ?case using sum_list_le_concat [of ms "value_nodes \<circ> snd" member_bytes] by simp
qed simp_all

section \<open>What the encoder writes\<close>

declare encoder_encode.simps [simp del]

definition enc_ok :: "ValueLimits \<Rightarrow> Encoder \<Rightarrow> bool" where
  "enc_ok L e \<longleftrightarrow> length (enc_result e) \<le> maxBytes L \<and> enc_nodes e \<le> maxNodes L"

definition enc_step :: "ValueLimits \<Rightarrow> Encoder \<Rightarrow> bytes \<Rightarrow> nat \<Rightarrow> Encoder \<Rightarrow> bool" where
  "enc_step L e bs n e' \<longleftrightarrow>
     length (enc_result e) + length bs \<le> maxBytes L \<and> enc_nodes e + n \<le> maxNodes L \<and>
     e' = \<lparr>enc_result = enc_result e @ bs, enc_nodes = enc_nodes e + n\<rparr>"

lemma enc_step_ok: "enc_step L e bs n e' \<Longrightarrow> enc_ok L e'"
  by (simp add: enc_step_def enc_ok_def)

lemma enc_step_nil [simp]: "enc_ok L e \<Longrightarrow> enc_step L e [] 0 e' \<longleftrightarrow> e' = e"
  by (auto simp: enc_step_def enc_ok_def)

lemma enc_step_append:
  "(\<exists>e1. enc_step L e bs n e1 \<and> enc_step L e1 bs' n' e2) \<longleftrightarrow> enc_step L e (bs @ bs') (n + n') e2"
  by (auto simp: enc_step_def)

text \<open>Sequential composition of two pieces.\<close>

lemma bindE_enc_step:
  assumes "\<And>e1. m = Inr e1 \<longleftrightarrow> A \<and> enc_step L e bs n e1"
    and "\<And>e1. enc_ok L e1 \<Longrightarrow> f e1 = Inr e2 \<longleftrightarrow> B \<and> enc_step L e1 bs' n' e2"
  shows "bindE m f = Inr e2 \<longleftrightarrow> A \<and> B \<and> enc_step L e (bs @ bs') (n + n') e2"
  unfolding bindE_Inr_iff assms(1) enc_step_append [symmetric]
  using assms(2) enc_step_ok by blast

lemma encoder_byte_iff:
  "enc_ok L e \<Longrightarrow> encoder_byte L b e = Inr e' \<longleftrightarrow> enc_step L e [b] 0 e'"
  by (auto simp: encoder_byte_def enc_step_def enc_ok_def)

lemma le_bytes_map: "map (\<lambda>i. ucast (drop_bit (8 * i) w)) [0..<n] = le_bytes n w"
proof (induction n arbitrary: w)
  case (Suc n)
  have "map (\<lambda>i. ucast (drop_bit (8 * i) w)) [0..<Suc n] =
      (ucast w # map (\<lambda>i. ucast (drop_bit (8 * i) (drop_bit 8 w))) [0..<n] :: bytes)"
    by (rule nth_equalityI) (auto simp: nth_Cons nth_append drop_bit_drop_bit less_Suc_eq algebra_simps split: nat.split)
  then show ?case by (simp only: Suc le_bytes.simps)
qed simp

lemma foldE_byte_iff:
  "enc_ok L e \<Longrightarrow> foldE (encoder_byte L) bs e = Inr e' \<longleftrightarrow> enc_step L e bs 0 e'"
proof (induction bs arbitrary: e)
  case (Cons b bs)
  have "foldE (encoder_byte L) (b # bs) e = Inr e' \<longleftrightarrow> True \<and> True \<and> enc_step L e ([b] @ bs) (0 + 0) e'"
    unfolding foldE.simps
    by (rule bindE_enc_step) (simp_all add: encoder_byte_iff Cons)
  then show ?case by simp
qed auto

lemma encoder_integer_iff:
  "enc_ok L e \<Longrightarrow> encoder_integer L w e = Inr e' \<longleftrightarrow> enc_step L e (le_bytes 8 w) 0 e'"
  by (simp add: encoder_integer_def le_bytes_map foldE_byte_iff)

lemma encoder_bytes_iff:
  assumes "enc_ok L e"
  shows "encoder_bytes L bs e = Inr e' \<longleftrightarrow>
     enc_step L e (le_bytes 8 (of_nat (length bs)) @ bs) 0 e'"
proof -
  have "encoder_bytes L bs e = Inr e' \<longleftrightarrow>
      True \<and> True \<and> enc_step L e (le_bytes 8 (of_nat (length bs)) @ bs) (0 + 0) e'"
    unfolding encoder_bytes_def
    by (rule bindE_enc_step) (auto simp: encoder_integer_iff [OF assms] enc_step_def enc_ok_def)
  then show ?thesis by simp
qed

lemma encoder_text_iff:
  "enc_ok L e \<Longrightarrow> encoder_text L s e = Inr e' \<longleftrightarrow> enc_step L e (key_bytes s) 0 e'"
  by (simp add: encoder_text_def encoder_bytes_iff key_bytes_def)

lemma encoder_enter_iff:
  assumes "enc_ok L e"
  shows "encoder_enter L tag depth e = Inr e' \<longleftrightarrow>
     depth \<le> maxDepth L \<and> enc_step L e [of_nat tag] 1 e'"
  using assms by (auto simp: encoder_enter_def encoder_byte_def enc_step_def enc_ok_def)

text \<open>The condition under which a value is encoded, and the two loops over parts.\<close>

definition enc_cond :: "ValueLimits \<Rightarrow> nat \<Rightarrow> Value \<Rightarrow> bool" where
  "enc_cond L depth v \<longleftrightarrow> value_finite v \<and> depth + value_depth v \<le> maxDepth L"

lemma encoder_values_iff:
  assumes "\<And>v e e'. v \<in> set vs \<Longrightarrow> enc_ok L e \<Longrightarrow>
      encoder_encode L v depth e = Inr e' \<longleftrightarrow>
        enc_cond L depth v \<and> enc_step L e (value_bytes v) (value_nodes v) e'"
    and "enc_ok L e"
  shows "encoder_values L vs depth e = Inr e' \<longleftrightarrow>
     (\<forall>v \<in> set vs. enc_cond L depth v) \<and>
     enc_step L e (concat (map value_bytes vs)) (sum_list (map value_nodes vs)) e'"
  using assms
proof (induction vs arbitrary: e)
  case (Cons v vs)
  have "encoder_values L (v # vs) depth e = Inr e' \<longleftrightarrow>
      enc_cond L depth v \<and> (\<forall>v \<in> set vs. enc_cond L depth v) \<and>
      enc_step L e (value_bytes v @ concat (map value_bytes vs))
        (value_nodes v + sum_list (map value_nodes vs)) e'"
    unfolding encoder_values.simps
    by (rule bindE_enc_step) (use Cons in auto)
  then show ?case by auto
qed auto

lemma encoder_members_iff:
  assumes "\<And>m e e'. m \<in> set ms \<Longrightarrow> enc_ok L e \<Longrightarrow>
      encoder_encode L (snd m) depth e = Inr e' \<longleftrightarrow>
        enc_cond L depth (snd m) \<and> enc_step L e (value_bytes (snd m)) (value_nodes (snd m)) e'"
    and "enc_ok L e"
  shows "encoder_members L ms depth e = Inr e' \<longleftrightarrow>
     (\<forall>m \<in> set ms. enc_cond L depth (snd m)) \<and>
     enc_step L e (concat (map member_bytes ms)) (sum_list (map (value_nodes \<circ> snd) ms)) e'"
  using assms
proof (induction ms arbitrary: e)
  case (Cons m ms)
  obtain k v where m: "m = (k, v)" by (cases m)
  have v: "enc_ok L e1 \<Longrightarrow> encoder_encode L v depth e1 = Inr e2 \<longleftrightarrow>
      enc_cond L depth v \<and> enc_step L e1 (value_bytes v) (value_nodes v) e2" for e1 e2
    using Cons.prems(1) [of m] m by simp
  have tl: "enc_ok L e1 \<Longrightarrow> encoder_members L ms depth e1 = Inr e' \<longleftrightarrow>
      (\<forall>m \<in> set ms. enc_cond L depth (snd m)) \<and>
      enc_step L e1 (concat (map member_bytes ms)) (sum_list (map (value_nodes \<circ> snd) ms)) e'" for e1
    using Cons.IH [of e1] Cons.prems(1) by (simp add: comp_def)
  have rest: "bindE (encoder_encode L v depth e1) (encoder_members L ms depth) = Inr e' \<longleftrightarrow>
      enc_cond L depth v \<and> (\<forall>m \<in> set ms. enc_cond L depth (snd m)) \<and>
      enc_step L e1 (value_bytes v @ concat (map member_bytes ms))
        (value_nodes v + sum_list (map (value_nodes \<circ> snd) ms)) e'" if "enc_ok L e1" for e1
    by (rule bindE_enc_step) (simp_all only: v [OF that] tl simp_thms)
  have "encoder_members L (m # ms) depth e = Inr e' \<longleftrightarrow>
      True \<and> (enc_cond L depth v \<and> (\<forall>m \<in> set ms. enc_cond L depth (snd m))) \<and>
      enc_step L e (key_bytes k @ (value_bytes v @ concat (map member_bytes ms)))
        (0 + (value_nodes v + sum_list (map (value_nodes \<circ> snd) ms))) e'"
    unfolding m encoder_members.simps
    by (rule bindE_enc_step) (simp_all only: encoder_text_iff [OF Cons.prems(2)] rest simp_thms conj_assoc)
  moreover have "concat (map member_bytes (m # ms)) = key_bytes k @ value_bytes v @ concat (map member_bytes ms)"
    "sum_list (map (value_nodes \<circ> snd) (m # ms)) = value_nodes v + sum_list (map (value_nodes \<circ> snd) ms)"
    "(\<forall>m \<in> set (m # ms). enc_cond L depth (snd m)) \<longleftrightarrow>
       enc_cond L depth v \<and> (\<forall>m \<in> set ms. enc_cond L depth (snd m))"
    using m by (simp_all add: member_bytes_def)
  ultimately show ?case by (simp only: simp_thms add_0)
qed auto

lemma encoder_leaf:
  assumes "enc_ok L e" and "\<And>e1. enc_ok L e1 \<Longrightarrow> f e1 = Inr e' \<longleftrightarrow> B \<and> enc_step L e1 bs 0 e'"
  shows "bindE (encoder_enter L tag depth e) f = Inr e' \<longleftrightarrow>
     (B \<and> depth \<le> maxDepth L) \<and> enc_step L e (of_nat tag # bs) 1 e'"
proof -
  have "bindE (encoder_enter L tag depth e) f = Inr e' \<longleftrightarrow>
      depth \<le> maxDepth L \<and> B \<and> enc_step L e ([of_nat tag] @ bs) (1 + 0) e'"
    by (rule bindE_enc_step) (simp_all only: encoder_enter_iff [OF assms(1)] assms(2))
  then show ?thesis by auto
qed

lemma encoder_encode_iff:
  "enc_ok L e \<Longrightarrow> encoder_encode L v depth e = Inr e' \<longleftrightarrow>
     enc_cond L depth v \<and> enc_step L e (value_bytes v) (value_nodes v) e'"
proof (induction v arbitrary: depth e e')
  case (VArray vs)
  have body: "bindE (encoder_integer L (of_nat (length vs)) e1) (encoder_values L vs (Suc depth)) = Inr e' \<longleftrightarrow>
      True \<and> (\<forall>v \<in> set vs. enc_cond L (Suc depth) v) \<and>
      enc_step L e1 (le_bytes 8 (of_nat (length vs)) @ concat (map value_bytes vs))
        (0 + sum_list (map value_nodes vs)) e'" if "enc_ok L e1" for e1
    by (rule bindE_enc_step)
      (simp_all only: encoder_integer_iff [OF that] encoder_values_iff [OF VArray.IH] simp_thms)
  have "encoder_encode L (VArray vs) depth e = Inr e' \<longleftrightarrow>
      depth \<le> maxDepth L \<and> (\<forall>v \<in> set vs. enc_cond L (Suc depth) v) \<and>
      enc_step L e ([of_nat 6] @ (le_bytes 8 (of_nat (length vs)) @ concat (map value_bytes vs)))
        (1 + sum_list (map value_nodes vs)) e'"
    unfolding encoder_encode.simps value_index.simps Value.case
    by (rule bindE_enc_step) (simp_all only: encoder_enter_iff [OF VArray.prems] body simp_thms, simp)
  then show ?case by (auto simp: enc_cond_def list_all_iff)
next
  case (VObject ms)
  have IH: "enc_ok L e1 \<Longrightarrow> m \<in> set ms \<Longrightarrow> encoder_encode L (snd m) d e1 = Inr e2 \<longleftrightarrow>
      enc_cond L d (snd m) \<and> enc_step L e1 (value_bytes (snd m)) (value_nodes (snd m)) e2" for m d e1 e2
    using VObject.IH [of m "snd m"] by (simp add: snds.simps)
  have body: "bindE (encoder_integer L (of_nat (length ms)) e1) (encoder_members L ms (Suc depth)) = Inr e' \<longleftrightarrow>
      True \<and> (\<forall>m \<in> set ms. enc_cond L (Suc depth) (snd m)) \<and>
      enc_step L e1 (le_bytes 8 (of_nat (length ms)) @ concat (map member_bytes ms))
        (0 + sum_list (map (value_nodes \<circ> snd) ms)) e'" if "enc_ok L e1" for e1
    by (rule bindE_enc_step)
      (simp_all only: encoder_integer_iff [OF that] encoder_members_iff [OF IH] simp_thms)
  have "encoder_encode L (VObject ms) depth e = Inr e' \<longleftrightarrow>
      depth \<le> maxDepth L \<and> (\<forall>m \<in> set ms. enc_cond L (Suc depth) (snd m)) \<and>
      enc_step L e ([of_nat 7] @ (le_bytes 8 (of_nat (length ms)) @ concat (map member_bytes ms)))
        (1 + sum_list (map (value_nodes \<circ> snd) ms)) e'"
    unfolding encoder_encode.simps value_index.simps Value.case
    by (rule bindE_enc_step) (simp_all only: encoder_enter_iff [OF VObject.prems] body simp_thms, simp)
  then show ?case by (auto simp: enc_cond_def list_all_iff)
next
  case VNull
  show ?case unfolding encoder_encode.simps Value.case
    by (subst encoder_leaf [where B = True and bs = "[]"]) (auto simp: VNull enc_cond_def)
next
  case (VInt i)
  show ?case unfolding encoder_encode.simps Value.case
    by (subst encoder_leaf [where B = True]) (auto simp: VInt encoder_integer_iff enc_cond_def)
next
  case (VDouble x)
  show ?case unfolding encoder_encode.simps Value.case
    by (subst encoder_leaf [where B = "f64_isfinite x"])
      (auto simp: VDouble encoder_integer_iff enc_cond_def)
next
  case (VBool b)
  show ?case unfolding encoder_encode.simps Value.case
    by (subst encoder_leaf [where B = True]) (auto simp: VBool encoder_byte_iff enc_cond_def)
next
  case (VString s)
  show ?case unfolding encoder_encode.simps Value.case
    by (subst encoder_leaf [where B = True])
      (auto simp: VString encoder_text_iff enc_cond_def key_bytes_def)
next
  case (VBytes bs)
  show ?case unfolding encoder_encode.simps Value.case
    by (subst encoder_leaf [where B = True]) (auto simp: VBytes encoder_bytes_iff enc_cond_def)
qed


text \<open>
  The encoder succeeds exactly when the value is finite and within the three limits, and then
  writes the layout.
\<close>

lemma encodeValue_iff:
  "encodeValue v L = Inr bs \<longleftrightarrow>
     value_finite v \<and> value_depth v \<le> maxDepth L \<and> value_nodes v \<le> maxNodes L \<and>
     length (value_bytes v) \<le> maxBytes L \<and> bs = value_bytes v"
proof -
  have "enc_ok L \<lparr>enc_result = [], enc_nodes = 0\<rparr>" by (simp add: enc_ok_def)
  from encoder_encode_iff [OF this] show ?thesis
    by (auto simp: encodeValue_def enc_step_def enc_cond_def)
qed

section \<open>What the decoder reads\<close>

declare decoder_decode.simps [simp del]

lemma decoder_integer_from_eq:
  "decoder_integer_from [k..<k + n] w d =
     (if n \<le> length (dec_remaining d)
      then Inr (w OR push_bit (8 * k) (le_value (take n (dec_remaining d))),
                d\<lparr>dec_remaining := drop n (dec_remaining d)\<rparr>)
      else Inl (InvalidArgument ''value data is truncated''))"
proof (induction n arbitrary: k w d)
  case (Suc n)
  have upt: "[k..<k + Suc n] = k # [Suc k..<Suc k + n]" by (simp add: upt_conv_Cons del: upt_Suc)
  show ?case
  proof (cases "dec_remaining d")
    case (Cons b r)
    have "push_bit (8 * k) (ucast b) OR push_bit (8 * Suc k) x =
        push_bit (8 * k) (ucast b OR push_bit 8 x)" for x :: u64
      by (simp add: push_bit_or push_bit_push_bit algebra_simps)
    note or = this
    have "decoder_integer_from [k..<k + Suc n] w d =
        decoder_integer_from [Suc k..<Suc k + n] (w OR push_bit (8 * k) (ucast b)) (d\<lparr>dec_remaining := r\<rparr>)"
      unfolding upt by (simp add: decoder_byte_def Cons del: upt_Suc)
    then show ?thesis using Cons unfolding Suc.IH by (simp add: or.assoc or [symmetric] del: push_bit_or)
  next
    case Nil
    then show ?thesis unfolding upt by (simp add: decoder_byte_def)
  qed
qed simp

lemma decoder_integer_eq:
  "decoder_integer d =
     (if 8 \<le> length (dec_remaining d)
      then Inr (le_value (take 8 (dec_remaining d)), d\<lparr>dec_remaining := drop 8 (dec_remaining d)\<rparr>)
      else Inl (InvalidArgument ''value data is truncated''))"
  using decoder_integer_from_eq [of 0 8 0 d] by (simp add: decoder_integer_def)

lemma decoder_integer_read:
  "decoder_integer \<lparr>dec_remaining = le_bytes 8 w @ rest, dec_nodes = n\<rparr> =
     Inr (w, \<lparr>dec_remaining = rest, dec_nodes = n\<rparr>)"
  by (simp add: decoder_integer_eq le_value_8)

lemma decoder_count_read:
  "k \<le> length rest \<Longrightarrow> length rest \<le> size_max \<Longrightarrow>
   decoder_count \<lparr>dec_remaining = le_bytes 8 (of_nat k) @ rest, dec_nodes = n\<rparr> =
     Inr (k, \<lparr>dec_remaining = rest, dec_nodes = n\<rparr>)"
  by (simp add: decoder_count_def decoder_integer_read unat_of_nat size_max_def)

lemma decoder_bytes_read:
  "length bs + length rest \<le> size_max \<Longrightarrow>
   decoder_bytes \<lparr>dec_remaining = le_bytes 8 (of_nat (length bs)) @ bs @ rest, dec_nodes = n\<rparr> =
     Inr (bs, \<lparr>dec_remaining = rest, dec_nodes = n\<rparr>)"
  by (simp add: decoder_bytes_def decoder_count_read)

lemma decoder_text_read:
  "length (key_bytes s) + length rest \<le> size_max \<Longrightarrow>
   decoder_text \<lparr>dec_remaining = key_bytes s @ rest, dec_nodes = n\<rparr> =
     Inr (s, \<lparr>dec_remaining = rest, dec_nodes = n\<rparr>)"
  using decoder_bytes_read [of "map byte_of_char s" rest n]
  by (simp add: decoder_text_def key_bytes_def comp_def)

lemma decoder_enter_read:
  "n < maxNodes L \<Longrightarrow> depth \<le> maxDepth L \<Longrightarrow>
   decoder_enter L depth \<lparr>dec_remaining = tag # rest, dec_nodes = n\<rparr> =
     Inr (tag, \<lparr>dec_remaining = rest, dec_nodes = Suc n\<rparr>)"
  by (simp add: decoder_enter_def decoder_byte_def)

definition reads :: "ValueLimits \<Rightarrow> nat \<Rightarrow> Value \<Rightarrow> bool" where
  "reads L depth v \<longleftrightarrow>
     (\<forall>rest n. n + value_nodes v \<le> maxNodes L \<longrightarrow> length (value_bytes v) + length rest \<le> size_max \<longrightarrow>
        decoder_decode L depth \<lparr>dec_remaining = value_bytes v @ rest, dec_nodes = n\<rparr> =
          Inr (v, \<lparr>dec_remaining = rest, dec_nodes = n + value_nodes v\<rparr>))"

lemma readsD:
  "reads L depth v \<Longrightarrow> n + value_nodes v \<le> maxNodes L \<Longrightarrow> length (value_bytes v) + length rest \<le> size_max \<Longrightarrow>
     decoder_decode L depth \<lparr>dec_remaining = value_bytes v @ rest, dec_nodes = n\<rparr> =
       Inr (v, \<lparr>dec_remaining = rest, dec_nodes = n + value_nodes v\<rparr>)"
  by (simp add: reads_def)

lemma decoder_values_read:
  "\<forall>v \<in> set vs. reads L depth v \<Longrightarrow> n + sum_list (map value_nodes vs) \<le> maxNodes L \<Longrightarrow>
   length (concat (map value_bytes vs)) + length rest \<le> size_max \<Longrightarrow>
   decoder_values L (length vs) depth
       \<lparr>dec_remaining = concat (map value_bytes vs) @ rest, dec_nodes = n\<rparr> =
     Inr (vs, \<lparr>dec_remaining = rest, dec_nodes = n + sum_list (map value_nodes vs)\<rparr>)"
proof (induction vs arbitrary: n)
  case (Cons v vs)
  have "decoder_decode L depth
      \<lparr>dec_remaining = value_bytes v @ concat (map value_bytes vs) @ rest, dec_nodes = n\<rparr> =
    Inr (v, \<lparr>dec_remaining = concat (map value_bytes vs) @ rest, dec_nodes = n + value_nodes v\<rparr>)"
    using Cons.prems by (intro readsD) auto
  then show ?case using Cons.IH [of "n + value_nodes v"] Cons.prems by (simp add: add.assoc)
qed simp

lemma decoder_members_read:
  "\<forall>m \<in> set ms. reads L depth (snd m) \<Longrightarrow> map_wf (acc @ ms) \<Longrightarrow>
   n + sum_list (map (value_nodes \<circ> snd) ms) \<le> maxNodes L \<Longrightarrow>
   length (concat (map member_bytes ms)) + length rest \<le> size_max \<Longrightarrow>
   decoder_members L (length ms) depth acc
       \<lparr>dec_remaining = concat (map member_bytes ms) @ rest, dec_nodes = n\<rparr> =
     Inr (acc @ ms, \<lparr>dec_remaining = rest, dec_nodes = n + sum_list (map (value_nodes \<circ> snd) ms)\<rparr>)"
proof (induction ms arbitrary: acc n)
  case (Cons m ms)
  obtain k v where m: "m = (k, v)" by (cases m)
  have keyr: "decoder_text
      \<lparr>dec_remaining = key_bytes k @ value_bytes v @ concat (map member_bytes ms) @ rest, dec_nodes = n\<rparr> =
    Inr (k, \<lparr>dec_remaining = value_bytes v @ concat (map member_bytes ms) @ rest, dec_nodes = n\<rparr>)"
    using Cons.prems(4) m by (intro decoder_text_read) (simp add: member_bytes_Pair)
  have val: "decoder_decode L depth
      \<lparr>dec_remaining = value_bytes v @ concat (map member_bytes ms) @ rest, dec_nodes = n\<rparr> =
    Inr (v, \<lparr>dec_remaining = concat (map member_bytes ms) @ rest, dec_nodes = n + value_nodes v\<rparr>)"
    using Cons.prems m by (intro readsD) (auto simp: member_bytes_Pair)
  have "map_emplace k v acc = Some (acc @ [(k, v)])"
    using Cons.prems(2) m by (intro map_emplace_last) (auto simp: map_wf_def map_keys_def sorted_wrt_append)
  then show ?case
    using Cons.IH [of "acc @ [(k, v)]" "n + value_nodes v"] Cons.prems m keyr val
    by (simp add: member_bytes_Pair add.assoc)
qed simp

lemma value_reads:
  "value_ok v \<Longrightarrow> value_finite v \<Longrightarrow> depth + value_depth v \<le> maxDepth L \<Longrightarrow> reads L depth v"
proof (induction v arbitrary: depth)
  case (VArray vs)
  have IH: "\<forall>v \<in> set vs. reads L (Suc depth) v" using VArray by (auto simp: list_all_iff)
  have len: "length vs \<le> length (concat (map value_bytes vs))" by (rule length_le_concat) simp
  have depth: "depth \<le> maxDepth L" using VArray.prems by simp
  show ?case unfolding reads_def
  proof (intro allI impI)
    fix rest :: bytes and n
    assume *: "n + value_nodes (VArray vs) \<le> maxNodes L"
      "length (value_bytes (VArray vs)) + length rest \<le> size_max"
    show "decoder_decode L depth \<lparr>dec_remaining = value_bytes (VArray vs) @ rest, dec_nodes = n\<rparr> =
        Inr (VArray vs, \<lparr>dec_remaining = rest, dec_nodes = n + value_nodes (VArray vs)\<rparr>)"
      using * len decoder_values_read [OF IH, of "Suc n" rest]
      by (simp add: decoder_decode.simps decoder_enter_read depth decoder_count_read)
  qed
next
  case (VObject ms)
  have IH: "\<forall>m \<in> set ms. reads L (Suc depth) (snd m)"
    using VObject by (auto simp: list_all_iff snds.simps)
  have len: "length ms \<le> length (concat (map member_bytes ms))"
    by (rule length_le_concat) (simp add: member_bytes_def)
  have depth: "depth \<le> maxDepth L" and wf: "map_wf ([] @ ms)" using VObject.prems by simp_all
  show ?case unfolding reads_def
  proof (intro allI impI)
    fix rest :: bytes and n
    assume *: "n + value_nodes (VObject ms) \<le> maxNodes L"
      "length (value_bytes (VObject ms)) + length rest \<le> size_max"
    show "decoder_decode L depth \<lparr>dec_remaining = value_bytes (VObject ms) @ rest, dec_nodes = n\<rparr> =
        Inr (VObject ms, \<lparr>dec_remaining = rest, dec_nodes = n + value_nodes (VObject ms)\<rparr>)"
      using * len decoder_members_read [OF IH wf, of "Suc n" rest]
      by (simp add: decoder_decode.simps decoder_enter_read depth decoder_count_read)
  qed
next
  case (VInt i)
  then have "sint (word_of_int i :: u64) = i"
    by (simp add: int64_defs signed_of_int signed_take_bit_int_eq_self)
  with VInt show ?case
    by (simp add: reads_def decoder_decode.simps decoder_enter_read decoder_scalar_def decoder_integer_read)
next
  case (VString s)
  then show ?case using decoder_text_read [of s]
    by (simp add: reads_def decoder_decode.simps decoder_enter_read decoder_scalar_def key_bytes_def)
qed (simp_all add: reads_def decoder_decode.simps decoder_enter_read decoder_scalar_def
      decoder_integer_read decoder_byte_def decoder_bytes_read)


section \<open>Whatever is decoded is within the limits\<close>

lemma map_emplace_split:
  "map_emplace k v m = Some m' \<Longrightarrow> \<exists>a b. m = a @ b \<and> m' = a @ (k, v) # b"
proof (induction m arbitrary: m')
  case (Cons e m)
  obtain k' v' where e: "e = (k', v')" by (cases e)
  show ?case
  proof (cases "k < k'")
    case True
    then show ?thesis using Cons.prems e by (intro exI [of _ "[]"] exI [of _ "e # m"]) simp
  next
    case False
    then obtain m1 where m1: "map_emplace k v m = Some m1" "m' = (k', v') # m1"
      using Cons.prems e by (auto split: if_splits)
    from Cons.IH [OF m1(1)] obtain a b where "m = a @ b" "m1 = a @ (k, v) # b" by blast
    then show ?thesis using m1 e by (intro exI [of _ "e # a"] exI [of _ b]) simp
  qed
qed auto

definition consumed :: "Decoder \<Rightarrow> Decoder \<Rightarrow> nat \<Rightarrow> nat \<Rightarrow> bool" where
  "consumed d d' bs n \<longleftrightarrow>
     bs \<le> length (dec_remaining d) \<and> dec_remaining d' = drop bs (dec_remaining d) \<and>
     dec_nodes d' = dec_nodes d + n"

lemma consumed_trans:
  "consumed d d1 a n \<Longrightarrow> consumed d1 d2 b k \<Longrightarrow> consumed d d2 (a + b) (n + k)"
  by (auto simp: consumed_def add.commute)

lemma consumed_refl [simp]: "consumed d d 0 0"
  by (simp add: consumed_def)

lemma decoder_byte_consumed: "decoder_byte d = Inr (b, d') \<Longrightarrow> consumed d d' 1 0"
  by (auto simp: decoder_byte_def consumed_def split: list.splits)

lemma decoder_integer_consumed: "decoder_integer d = Inr (w, d') \<Longrightarrow> consumed d d' 8 0"
  by (auto simp: decoder_integer_eq consumed_def split: if_splits)

lemma decoder_count_consumed:
  "decoder_count d = Inr (n, d') \<Longrightarrow> consumed d d' 8 0 \<and> n \<le> length (dec_remaining d')"
  by (auto simp: decoder_count_def decoder_integer_eq consumed_def split: if_splits)

lemma decoder_bytes_consumed:
  "decoder_bytes d = Inr (bs, d') \<Longrightarrow> consumed d d' (8 + length bs) 0"
  by (auto simp: decoder_bytes_def consumed_def add.commute dest!: decoder_count_consumed)

lemma decoder_text_consumed:
  "decoder_text d = Inr (s, d') \<Longrightarrow> consumed d d' (length (key_bytes s)) 0"
  by (auto simp: decoder_text_def key_bytes_def dest!: decoder_bytes_consumed)

lemma decoder_enter_consumed:
  "decoder_enter L depth d = Inr (tag, d') \<Longrightarrow>
     consumed d d' 1 1 \<and> depth \<le> maxDepth L \<and> dec_nodes d' \<le> maxNodes L"
  by (auto simp: decoder_enter_def decoder_byte_def consumed_def split: if_splits list.splits)

definition decoded :: "ValueLimits \<Rightarrow> nat \<Rightarrow> Value \<Rightarrow> bool" where
  "decoded L depth v \<longleftrightarrow> value_ok v \<and> enc_cond L depth v"

lemma decoder_scalar_sound:
  "decoder_scalar tag d = Inr (v, d') \<Longrightarrow> depth \<le> maxDepth L \<Longrightarrow>
     decoded L depth v \<and> value_nodes v = 1 \<and> consumed d d' (length (value_bytes v) - 1) 0"
proof -
  assume *: "decoder_scalar tag d = Inr (v, d')" "depth \<le> maxDepth L"
  have int: "is_int64 (sint w)" for w :: u64
    using sint_range_size [of w] by (simp add: int64_defs word_size)
  show ?thesis
    using * by (auto simp: decoder_scalar_def decoded_def enc_cond_def int key_bytes_def
        split: if_splits
        dest!: decoder_integer_consumed decoder_byte_consumed decoder_text_consumed decoder_bytes_consumed)
qed

lemma decoder_sound:
  "decoder_decode L depth d = Inr (v, d') \<Longrightarrow>
     decoded L depth v \<and> consumed d d' (length (value_bytes v)) (value_nodes v) \<and>
     dec_nodes d' \<le> maxNodes L"
  "decoder_values L n depth d = Inr (vs, d') \<Longrightarrow>
     length vs = n \<and> (\<forall>v \<in> set vs. decoded L depth v) \<and>
     consumed d d' (length (concat (map value_bytes vs))) (sum_list (map value_nodes vs)) \<and>
     (dec_nodes d \<le> maxNodes L \<longrightarrow> dec_nodes d' \<le> maxNodes L)"
  "decoder_members L n depth ms d = Inr (ms', d') \<Longrightarrow>
     map_wf ms \<longrightarrow>
     map_wf ms' \<and> (\<exists>bs k. length ms' = length ms + n \<and>
       ((\<forall>m \<in> set ms. decoded L depth (snd m)) \<longrightarrow> (\<forall>m \<in> set ms'. decoded L depth (snd m))) \<and>
       length (concat (map member_bytes ms')) = length (concat (map member_bytes ms)) + bs \<and>
       sum_list (map (value_nodes \<circ> snd) ms') = sum_list (map (value_nodes \<circ> snd) ms) + k \<and>
       consumed d d' bs k) \<and>
     (dec_nodes d \<le> maxNodes L \<longrightarrow> dec_nodes d' \<le> maxNodes L)"
proof (induction L depth d and L n depth d and L n depth ms d
    arbitrary: v d' and vs d' and ms' d'
    rule: decoder_decode_decoder_values_decoder_members.induct)
  case (1 L depth d)
  from "1.prems" obtain tag d1 where enter: "decoder_enter L depth d = Inr (tag, d1)"
    by (auto simp: decoder_decode.simps)
  note e = decoder_enter_consumed [OF enter]
  consider (array) "tag = 6" | (object) "tag = 7" | (scalar) "tag \<noteq> 6" "tag \<noteq> 7" by blast
  then show ?case
  proof cases
    case array
    with "1.prems" enter obtain n d2 vs where c: "decoder_count d1 = Inr (n, d2)"
      "decoder_values L n (Suc depth) d2 = Inr (vs, d')" "v = VArray vs"
      by (auto simp: decoder_decode.simps)
    have count: "consumed d1 d2 8 0" using decoder_count_consumed [OF c(1)] by simp
    have IH: "length vs = n" "\<forall>v \<in> set vs. decoded L (Suc depth) v"
      "consumed d2 d' (length (concat (map value_bytes vs))) (sum_list (map value_nodes vs))"
      "dec_nodes d2 \<le> maxNodes L \<longrightarrow> dec_nodes d' \<le> maxNodes L"
      using "1.IH"(1) [OF enter refl array c(1) refl c(2)] by simp_all
    have "consumed d d' (1 + 8 + length (concat (map value_bytes vs)))
        (1 + 0 + sum_list (map value_nodes vs))"
      using consumed_trans [OF consumed_trans [OF conjunct1 [OF e] count] IH(3)] .
    moreover have "dec_nodes d2 = dec_nodes d1" using count by (simp add: consumed_def)
    ultimately show ?thesis using IH e c(3)
      by (auto simp: decoded_def enc_cond_def list_all_iff)
  next
    case object
    with "1.prems" enter obtain n d2 ms where c: "decoder_count d1 = Inr (n, d2)"
      "decoder_members L n (Suc depth) [] d2 = Inr (ms, d')" "v = VObject ms"
      by (auto simp: decoder_decode.simps)
    have count: "consumed d1 d2 8 0" using decoder_count_consumed [OF c(1)] by simp
    have IH: "map_wf ms" "length ms = n" "\<forall>m \<in> set ms. decoded L (Suc depth) (snd m)"
      "consumed d2 d' (length (concat (map member_bytes ms))) (sum_list (map (value_nodes \<circ> snd) ms))"
      "dec_nodes d2 \<le> maxNodes L \<longrightarrow> dec_nodes d' \<le> maxNodes L"
      using "1.IH"(2) [OF enter refl _ object c(1) refl c(2)] object by (auto simp: comp_def)
    have "consumed d d' (1 + 8 + length (concat (map member_bytes ms)))
        (1 + 0 + sum_list (map (value_nodes \<circ> snd) ms))"
      using consumed_trans [OF consumed_trans [OF conjunct1 [OF e] count] IH(4)] .
    moreover have "dec_nodes d2 = dec_nodes d1" using count by (simp add: consumed_def)
    ultimately show ?thesis using IH e c(3)
      by (auto simp: decoded_def enc_cond_def list_all_iff)
  next
    case scalar
    with "1.prems" enter have s: "decoder_scalar tag d1 = Inr (v, d')"
      by (auto simp: decoder_decode.simps)
    have "depth \<le> maxDepth L" using e by simp
    note sc = decoder_scalar_sound [OF s this]
    have "consumed d d' (1 + (length (value_bytes v) - 1)) (1 + 0)"
      using consumed_trans [OF conjunct1 [OF e], of d' "length (value_bytes v) - 1" 0] sc by simp
    moreover have "dec_nodes d' = dec_nodes d1" using sc by (simp add: consumed_def)
    moreover have "0 < length (value_bytes v)" by simp
    ultimately show ?thesis using sc e by (simp del: value_bytes_pos)
  qed
next
  case (3 L n depth d)
  from "3.prems" obtain v d1 ws where c: "decoder_decode L depth d = Inr (v, d1)"
    "decoder_values L n depth d1 = Inr (ws, d')" "vs = v # ws" by auto
  note a = "3.IH"(1) [OF c(1)] and b = "3.IH"(2) [OF c(1) refl c(2)]
  have "consumed d d' (length (value_bytes v) + length (concat (map value_bytes ws)))
      (value_nodes v + sum_list (map value_nodes ws))"
    using consumed_trans a b by blast
  then show ?case using a b c(3) by auto
next
  case (5 L n depth ms d)
  from "5.prems" obtain key d1 v d2 ms1 where c: "decoder_text d = Inr (key, d1)"
    "decoder_decode L depth d1 = Inr (v, d2)" "map_emplace key v ms = Some ms1"
    "decoder_members L n depth ms1 d2 = Inr (ms', d')"
    by (auto split: option.splits)
  note a = decoder_text_consumed [OF c(1)]
  note b = "5.IH"(1) [OF c(1) refl c(2)]
  note t = "5.IH"(2) [OF c(1) refl c(2) refl c(3) c(4)]
  obtain xs ys where split: "ms = xs @ ys" "ms1 = xs @ (key, v) # ys"
    using map_emplace_split [OF c(3)] by blast
  have cons: "consumed d d2 (length (key_bytes key) + length (value_bytes v)) (0 + value_nodes v)"
    using consumed_trans [OF a] b by blast
  have nodes: "dec_nodes d2 \<le> maxNodes L" using b by simp
  show ?case
  proof (intro impI conjI)
    assume wf: "map_wf ms"
    have wf1: "map_wf ms1" using map_emplace_wf [OF wf c(3)] .
    with t show "map_wf ms'" by blast
    from t wf1 obtain bs k where t':
      "length ms' = length ms1 + n"
      "(\<forall>m \<in> set ms1. decoded L depth (snd m)) \<longrightarrow> (\<forall>m \<in> set ms'. decoded L depth (snd m))"
      "length (concat (map member_bytes ms')) = length (concat (map member_bytes ms1)) + bs"
      "sum_list (map (value_nodes \<circ> snd) ms') = sum_list (map (value_nodes \<circ> snd) ms1) + k"
      "consumed d2 d' bs k"
      by blast
    show "\<exists>bs k. length ms' = length ms + Suc n \<and>
       ((\<forall>m \<in> set ms. decoded L depth (snd m)) \<longrightarrow> (\<forall>m \<in> set ms'. decoded L depth (snd m))) \<and>
       length (concat (map member_bytes ms')) = length (concat (map member_bytes ms)) + bs \<and>
       sum_list (map (value_nodes \<circ> snd) ms') = sum_list (map (value_nodes \<circ> snd) ms) + k \<and>
       consumed d d' bs k"
      using consumed_trans [OF cons t'(5)] t'(1-4) b split
      by (intro exI [of _ "length (key_bytes key) + length (value_bytes v) + bs"] exI [of _ "0 + value_nodes v + k"])
        (auto simp: member_bytes_Pair)
  next
    assume "map_wf ms" "dec_nodes d \<le> maxNodes L"
    then show "dec_nodes d' \<le> maxNodes L" using t nodes map_emplace_wf [OF _ c(3)] by blast
  qed
qed auto


lemma decodeValue_sound:
  assumes "decodeValue bs L = Inr v"
  shows "value_ok v \<and> value_finite v \<and> value_depth v \<le> maxDepth L \<and> value_nodes v \<le> maxNodes L \<and>
     length (value_bytes v) = length bs \<and> length bs \<le> maxBytes L"
proof -
  obtain d' where d: "decoder_decode L 0 \<lparr>dec_remaining = bs, dec_nodes = 0\<rparr> = Inr (v, d')"
    "dec_remaining d' = []" "length bs \<le> maxBytes L"
    using assms by (auto simp: decodeValue_def split: if_splits)
  from decoder_sound(1) [OF d(1)] d(2,3) show ?thesis
    by (auto simp: decoded_def enc_cond_def consumed_def)
qed

lemma decodeValue_encodeValue:
  assumes "encodeValue v L = Inr bs" "value_ok v" "maxBytes L \<le> size_max"
  shows "decodeValue bs L = Inr v"
proof -
  have e: "value_finite v" "value_depth v \<le> maxDepth L" "value_nodes v \<le> maxNodes L"
    "length bs \<le> maxBytes L" "bs = value_bytes v"
    using assms(1) by (auto simp: encodeValue_iff)
  have "reads L 0 v" using e assms(2) by (intro value_reads) auto
  from readsD [OF this, of 0 "[]"] show ?thesis
    using e assms(3) by (simp add: decodeValue_def)
qed

section \<open>Schemas and records\<close>

definition name_ok :: "string \<Rightarrow> bool" where
  "name_ok s \<longleftrightarrow> s \<noteq> [] \<and> length s \<le> 128 \<and> CHR 0x00 \<notin> set s"

definition schema_ok :: "Schema \<Rightarrow> bool" where
  "schema_ok s \<longleftrightarrow>
     name_ok (sch_dataset s) \<and> sch_fields s \<noteq> [] \<and> length (sch_fields s) \<le> 1024 \<and>
     distinct (map fld_name (sch_fields s)) \<and>
     (\<forall>f \<in> set (sch_fields s). name_ok (fld_name f) \<and> fld_type f \<noteq> 0 \<and> fld_type f \<le> 5)"

lemma checkName_iff: "checkName s = Inr u \<longleftrightarrow> name_ok s"
  by (auto simp: checkName_def name_ok_def)

lemma validate_fields_iff:
  "validate_fields fs names = Inr u \<longleftrightarrow>
     distinct (map fld_name fs) \<and> names \<inter> fld_name ` set fs = {} \<and>
     (\<forall>f \<in> set fs. name_ok (fld_name f) \<and> fld_type f \<noteq> 0 \<and> fld_type f \<le> 5)"
  by (induction fs arbitrary: names) (auto simp: checkName_iff field_type_defs)

lemma validateSchema_iff: "validateSchema s = Inr u \<longleftrightarrow> schema_ok s"
  by (auto simp: validateSchema_def schema_ok_def validate_fields_iff checkName_iff not_le)

definition value_matches :: "Field \<Rightarrow> Value \<Rightarrow> bool" where
  "value_matches f v \<longleftrightarrow>
     (if v = VNull then fld_nullable f else value_index v = unat (fld_type f)) \<and> value_finite v"

text \<open>A field type is at most 5, so a value of it has no parts.\<close>

lemma validate_value_iff:
  assumes "fld_type f \<le> 5"
  shows "validate_value f v = Inr u \<longleftrightarrow> value_matches f v"
proof -
  have "unat (fld_type f) \<le> 5" using assms by (simp add: word_le_nat_alt)
  then show ?thesis
    by (cases v) (auto simp: validate_value_def value_matches_def)
qed

lemma validate_values_iff:
  "\<forall>(f, v) \<in> set fvs. fld_type f \<le> 5 \<Longrightarrow>
   validate_values fvs = Inr u \<longleftrightarrow> (\<forall>(f, v) \<in> set fvs. value_matches f v)"
  by (induction fvs) (auto simp: validate_value_iff)

definition record_ok :: "Schema \<Rightarrow> Record \<Rightarrow> bool" where
  "record_ok s r \<longleftrightarrow>
     schema_ok s \<and> rec_dataset r = sch_dataset s \<and> rec_protocol r \<noteq> [] \<and>
     length (rec_protocol r) \<le> 4096 \<and> length (rec_device r) \<le> 4096 \<and>
     list_all2 value_matches (sch_fields s) (rec_values r)"

lemma validateRecord_iff: "validateRecord s r = Inr u \<longleftrightarrow> record_ok s r"
proof (cases "schema_ok s \<and> length (rec_values r) = length (sch_fields s)")
  case True
  have "\<forall>(f, v) \<in> set (zip (sch_fields s) (rec_values r)). fld_type f \<le> 5"
    using True by (auto simp: schema_ok_def dest: set_zip_leftD)
  from validate_values_iff [OF this] True show ?thesis
    by (auto simp: validateRecord_def validateSchema_iff record_ok_def list_all2_iff not_le)
next
  case False
  then show ?thesis
    by (auto simp: validateRecord_def validateSchema_iff record_ok_def dest: list_all2_lengthD)
qed

lemma length_eq_numeral:
  "length xs = 2 \<longleftrightarrow> (\<exists>a b. xs = [a, b])"
  "length xs = 3 \<longleftrightarrow> (\<exists>a b c. xs = [a, b, c])"
  "length xs = 7 \<longleftrightarrow> (\<exists>a b c d e f g. xs = [a, b, c, d, e, f, g])"
  by (auto simp: numeral_eq_Suc length_Suc_conv)

lemma as_Inr_iff [simp]:
  "as_int v = Inr i \<longleftrightarrow> v = VInt i" "as_bool v = Inr b \<longleftrightarrow> v = VBool b"
  "as_string v = Inr s \<longleftrightarrow> v = VString s" "as_array v = Inr vs \<longleftrightarrow> v = VArray vs"
  by (auto simp: as_defs split: Value.splits)

lemma array_of_Inr_iff [simp]: "array_of v n = Inr vs \<longleftrightarrow> v = VArray vs \<and> length vs = n"
  by (auto simp: array_of_def)

lemma field_from_value_iff:
  "field_from_value v = Inr f \<longleftrightarrow> v = field_value f \<and> fld_type f \<noteq> 0 \<and> fld_type f \<le> 5"
proof
  assume "field_from_value v = Inr f"
  then obtain n i b where v: "v = VArray [VString n, VInt i, VBool b]" "1 \<le> i" "i \<le> 5"
    "f = \<lparr>fld_name = n, fld_type = word_of_int i, fld_nullable = b\<rparr>"
    by (auto simp: field_from_value_def length_eq_numeral split: if_splits)
  have u: "uint (word_of_int i :: u8) = i" using v by (simp add: uint_word_of_int_eq take_bit_int_eq_self)
  then show "v = field_value f \<and> fld_type f \<noteq> 0 \<and> fld_type f \<le> 5"
    using v by (auto simp: field_value_def word_le_def word_uint_eq_iff)
next
  assume *: "v = field_value f \<and> fld_type f \<noteq> 0 \<and> fld_type f \<le> 5"
  moreover from * have "uint (fld_type f) \<noteq> 0" "uint (fld_type f) \<le> 5"
    by (auto simp: word_le_def uint_0_iff)
  moreover have "0 \<le> uint (fld_type f)" by simp
  ultimately have "1 \<le> uint (fld_type f)" "uint (fld_type f) \<le> 5" by linarith+
  with * show "field_from_value v = Inr f"
    by (simp add: field_from_value_def field_value_def array_of_def as_defs not_less)
qed

lemma fields_from_values_iff:
  "mapE field_from_value vs = Inr fs \<longleftrightarrow>
     vs = map field_value fs \<and> (\<forall>f \<in> set fs. fld_type f \<noteq> 0 \<and> fld_type f \<le> 5)"
proof (induction fs arbitrary: vs)
  case (Cons f fs)
  then show ?case by (cases vs) (auto simp: field_from_value_iff)
next
  case Nil
  then show ?case by (cases vs) auto
qed


lemma value_index_0 [simp]: "value_index v = 0 \<longleftrightarrow> v = VNull"
  by (cases v) simp_all

lemma schemaFromValue_iff: "schemaFromValue v = Inr s \<longleftrightarrow> schemaValue s = Inr v"
proof
  assume "schemaFromValue v = Inr s"
  then show "schemaValue s = Inr v"
    by (auto simp: schemaFromValue_def schemaValue_def length_eq_numeral fields_from_values_iff Let_def)
next
  assume "schemaValue s = Inr v"
  then have s: "schema_ok s" "v = VArray [VString (sch_dataset s), VArray (map field_value (sch_fields s))]"
    by (auto simp: schemaValue_def validateSchema_iff)
  have "mapE field_from_value (map field_value (sch_fields s)) = Inr (sch_fields s)"
    using s(1) by (simp add: fields_from_values_iff schema_ok_def)
  moreover have "validateSchema s = Inr ()" using s(1) by (simp add: validateSchema_iff)
  ultimately show "schemaFromValue v = Inr s"
    using s(2) by (cases s) (simp add: schemaFromValue_def array_of_def as_defs Let_def)
qed

text \<open>The integers of a record the C++ type can hold.\<close>

definition record_typed :: "Record \<Rightarrow> bool" where
  "record_typed r \<longleftrightarrow> is_int64 (rec_receivedAtUs r) \<and> (\<forall>t. rec_deviceTimeUs r = Some t \<longrightarrow> is_int64 t) \<and>
     list_all value_ok (rec_values r)"

lemma record_fields_eq:
  "r = \<lparr>rec_protocol = a, rec_dataset = b, rec_device = c, rec_receivedAtUs = d,
        rec_deviceTimeUs = e, rec_schemaVersion = f, rec_values = g\<rparr> \<longleftrightarrow>
     rec_protocol r = a \<and> rec_dataset r = b \<and> rec_device r = c \<and> rec_receivedAtUs r = d \<and>
     rec_deviceTimeUs r = e \<and> rec_schemaVersion r = f \<and> rec_values r = g"
  by (cases r) auto

lemma recordValue_shape:
  "recordValue r = Inr v \<longleftrightarrow> uint (rec_schemaVersion r) \<le> int64_max \<and>
     v = VArray [VString (rec_protocol r), VString (rec_dataset r), VString (rec_device r),
       VInt (rec_receivedAtUs r), (case rec_deviceTimeUs r of Some t \<Rightarrow> VInt t | None \<Rightarrow> VNull),
       VInt (uint (rec_schemaVersion r)), VArray (rec_values r)]"
  by (auto simp: recordValue_def)

lemma recordFromValue_iff:
  assumes "value_ok v"
  shows "recordFromValue v = Inr r \<longleftrightarrow> recordValue r = Inr v"
proof
  assume "recordFromValue v = Inr r"
  then obtain a b c d e f g where p: "v = VArray [a, b, c, d, e, f, g]"
    by (auto simp: recordFromValue_def length_eq_numeral)
  with \<open>recordFromValue v = Inr r\<close> obtain sa sb sc t i vs t' where
    v: "v = VArray [VString sa, VString sb, VString sc, VInt t, e, VInt i, VArray vs]" "0 \<le> i"
    and e: "(e = VNull \<and> t' = None) \<or> (\<exists>u. e = VInt u \<and> t' = Some u)"
    and r: "r = \<lparr>rec_protocol = sa, rec_dataset = sb, rec_device = sc, rec_receivedAtUs = t,
        rec_deviceTimeUs = t', rec_schemaVersion = word_of_int i, rec_values = vs\<rparr>"
    by (auto simp: recordFromValue_def not_less split: if_split_asm)
  have "i \<le> int64_max" using assms v(1) by (simp add: int64_defs)
  moreover have "uint (word_of_int i :: u64) = i"
    using v(2) calculation by (simp add: uint_word_of_int_eq take_bit_int_eq_self int64_max_def)
  ultimately show "recordValue r = Inr v" using v e r by (auto simp: recordValue_shape)
next
  assume "recordValue r = Inr v"
  then show "recordFromValue v = Inr r"
    by (auto simp: recordValue_shape recordFromValue_def array_of_def as_defs not_less
        record_fields_eq split: option.splits)
qed

lemma record_value_ok:
  "recordValue r = Inr v \<Longrightarrow> record_typed r \<Longrightarrow> value_ok v"
  by (auto simp: recordValue_shape record_typed_def int64_defs split: option.splits)
    (rule order_trans [OF _ uint_ge_0], simp)+

lemma schemaValue_ok: "schemaValue s = Inr v \<Longrightarrow> value_ok v"
proof -
  assume "schemaValue s = Inr v"
  moreover have "value_ok (field_value f)" for f
  proof -
    have "uint (fld_type f) < 2 ^ LENGTH(8)" by (rule unsigned_less)
    then have "uint (fld_type f) < 256" "0 \<le> uint (fld_type f)" by simp_all
    then have "is_int64 (uint (fld_type f))" unfolding int64_defs by linarith
    then show ?thesis by (simp add: field_value_def)
  qed
  ultimately show ?thesis by (auto simp: schemaValue_def list_all_iff)
qed

end
