(* ===== verification/Psrec.thy ===== *)
theory Psrec
  imports Streams Data_Codec Codec
begin

text \<open>
  The record exchange format of \<open>data/psrec.hpp\<close> and \<open>data/psrec.cc\<close>: a signature, a block of
  schemas, one block per record and an end block with the record count, each block framed by its
  type, size and sequence number and closed by a CRC-32. The size of the C++ type \<open>Value\<close> is the
  parameter \<open>sizeof_value\<close>.
\<close>

section \<open>Constants and the table-driven CRC\<close>

definition psrec_limits :: ValueLimits where
  "psrec_limits = \<lparr>maxBytes = 32 * 1024 * 1024, maxDepth = 16, maxNodes = 131072\<rparr>"

definition psrec_header :: bytes where
  "psrec_header = map byte_of_char ''PSREC'' @ [0x0D, 0x0A, 0x1A, 1, 0, 0, 0]"

definition metadataBlock :: u32 where "metadataBlock = 1"
definition recordBlock :: u32 where "recordBlock = 2"
definition endBlock :: u32 where "endBlock = 3"

lemmas block_defs = metadataBlock_def recordBlock_def endBlock_def

definition crc_table_bit :: "u32 \<Rightarrow> u32" where
  "crc_table_bit v = drop_bit 1 v XOR (if v AND 1 \<noteq> 0 then 0xEDB88320 else 0)"

definition crcTable :: "u32 list" where
  "crcTable = map (\<lambda>i. (crc_table_bit ^^ 8) (of_nat i)) [0..<256]"

definition psrec_canceled :: exn where
  "psrec_canceled = RuntimeError ''psrec task canceled''"

definition psrec_check_stop :: "(stop_token, unit) task" where
  "psrec_check_stop t =
     (let (stopped, t) = poll_stop t in (if stopped then Inl psrec_canceled else Inr (), t))"

fun psrec_crc_from :: "nat \<Rightarrow> u32 \<Rightarrow> bytes \<Rightarrow> (stop_token, u32) task" where
  "psrec_crc_from i v [] = returnT v"
| "psrec_crc_from i v (b # bs) =
     thenT (if i mod 65536 = 0 then psrec_check_stop else returnT ())
       (psrec_crc_from (Suc i) (crcTable ! unat ((v XOR ucast b) AND 255) XOR drop_bit 8 v) bs)"

definition psrec_crc :: "u32 \<Rightarrow> bytes \<Rightarrow> (stop_token, u32) task" where
  "psrec_crc = psrec_crc_from 0"

text \<open>The checksum of a block: over its prefix and then its payload.\<close>

definition block_checksum :: "bytes \<Rightarrow> bytes \<Rightarrow> (stop_token, u32) task" where
  "block_checksum prefix payload =
     bindT (psrec_crc 0xFFFFFFFF prefix) (\<lambda>v.
       bindT (psrec_crc v payload) (\<lambda>v. returnT (v XOR 0xFFFFFFFF)))"

section \<open>Blocks\<close>

record source =
  src_in :: istream
  src_stop :: stop_token

definition sink_poll :: "(stop_token, 'a) task \<Rightarrow> (sink, 'a) task" where
  "sink_poll m k = (let (r, t) = m (sink_stop k) in (r, k\<lparr>sink_stop := t\<rparr>))"

definition source_poll :: "(stop_token, 'a) task \<Rightarrow> (source, 'a) task" where
  "source_poll m s = (let (r, t) = m (src_stop s) in (r, s\<lparr>src_stop := t\<rparr>))"

definition psrec_write :: "bytes \<Rightarrow> (sink, unit) task" where
  "psrec_write bs = write_chunks psrec_canceled (RuntimeError ''psrec write failed'') (map char_of_byte bs)"

definition source_read :: "nat \<Rightarrow> (source, bytes) task" where
  "source_read n s =
     (let (cs, i) = stream_read n (src_in s); s = s\<lparr>src_in := i\<rparr> in
      if \<not> is_usable i \<or> length cs \<noteq> n then (Inl (RuntimeError ''psrec truncated or unreadable''), s)
      else (Inr (map byte_of_char cs), s))"

function psrec_read :: "nat \<Rightarrow> (source, bytes) task" where
  "psrec_read n =
     (if n = 0 then returnT []
      else
        thenT (source_poll psrec_check_stop)
          (bindT (source_read (min n 65536)) (\<lambda>bs.
            bindT (psrec_read (n - min n 65536)) (\<lambda>bs'. returnT (bs @ bs')))))"
  by pat_completeness auto
termination
  by (relation "measure (\<lambda>n. n)") auto

declare psrec_read.simps [simp del]

definition block_prefix :: "u32 \<Rightarrow> nat \<Rightarrow> nat \<Rightarrow> bytes" where
  "block_prefix type n seq = le_bytes 4 (ucast type) @ le_bytes 4 (of_nat n) @ le_bytes 8 (of_nat seq)"

definition writeBlock :: "u32 \<Rightarrow> nat \<Rightarrow> bytes \<Rightarrow> (sink, unit) task" where
  "writeBlock type seq payload =
     thenT (rejectT (maxBytes psrec_limits < length payload) (InvalidArgument ''psrec block exceeds limit''))
       (let prefix = block_prefix type (length payload) seq in
        bindT (sink_poll (block_checksum prefix payload)) (\<lambda>crc.
          thenT (psrec_write prefix)
            (thenT (psrec_write payload) (psrec_write (le_bytes 4 (ucast crc))))))"

record Block =
  blk_type :: u32
  blk_payload :: bytes

definition readBlock :: "nat \<Rightarrow> (source, Block) task" where
  "readBlock seq =
     bindT (psrec_read 16) (\<lambda>prefix.
       let type = le_value (take 4 prefix); sz = le_value (take 4 (drop 4 prefix)) in
       if le_value (drop 8 prefix) \<noteq> of_nat seq \<or> maxBytes psrec_limits < unat sz \<or>
          type < ucast metadataBlock \<or> ucast endBlock < type
       then throwT (InvalidArgument ''invalid psrec block header'')
       else
         bindT (psrec_read (unat sz)) (\<lambda>payload.
           bindT (psrec_read 4) (\<lambda>checksum.
             bindT (source_poll (block_checksum prefix payload)) (\<lambda>crc.
               if le_value checksum \<noteq> ucast crc
               then throwT (InvalidArgument ''psrec CRC32 mismatch'')
               else returnT \<lparr>blk_type = ucast type, blk_payload = payload\<rparr>))))"

section \<open>Schemas\<close>

type_synonym schemas = "(u64, Schema) omap"

fun metadata_entries :: "schemas \<Rightarrow> nat \<Rightarrow> nat \<Rightarrow> (stop_token, Value list) task" where
  "metadata_entries [] budget fields_n = returnT []"
| "metadata_entries ((version, schema) # ss) budget fields_n =
     thenT psrec_check_stop
       (if version = 0 \<or> int64_max < uint version
        then throwT (InvalidArgument ''invalid psrec schema version'')
        else
          let fields_n = fields_n + length (sch_fields schema) in
          if 16384 < fields_n then throwT (InvalidArgument ''psrec total schema fields exceed limit'')
          else
            bindT (liftT (schemaValue schema)) (\<lambda>v.
              bindT (liftT (encodeValue v psrec_limits)) (\<lambda>encoded.
                if budget < length encoded then throwT (InvalidArgument ''psrec metadata exceeds limit'')
                else
                  bindT (metadata_entries ss (budget - length encoded) fields_n) (\<lambda>es.
                    returnT (VArray [VInt (uint version), v] # es)))))"

definition psrec_metadata :: "schemas \<Rightarrow> (stop_token, bytes) task" where
  "psrec_metadata ss =
     thenT (rejectT (1024 < length ss) (InvalidArgument ''psrec schema count exceeds limit''))
       (bindT (metadata_entries ss (maxBytes psrec_limits) 0) (\<lambda>es.
         liftT (encodeValue (VArray es) psrec_limits)))"

text \<open>One entry: the version is read before it is known whether the schema is valid.\<close>

fun parse_entries :: "Value list \<Rightarrow> nat \<Rightarrow> schemas \<Rightarrow> exn + schemas" where
  "parse_entries [] fields_n result = Inr result"
| "parse_entries (entry # es) fields_n result =
     (case entry of
        VArray [VInt version, v] \<Rightarrow>
          (if version \<le> 0 then Inl (InvalidArgument ''invalid or duplicate psrec schema version'')
           else
             bindE (schemaFromValue v) (\<lambda>schema.
               case map_emplace (word_of_int version) schema result of
                 None \<Rightarrow> Inl (InvalidArgument ''invalid or duplicate psrec schema version'')
               | Some result \<Rightarrow>
                   let fields_n = fields_n + length (sch_fields schema) in
                   if 16384 < fields_n
                   then Inl (InvalidArgument ''psrec total schema fields exceed limit'')
                   else parse_entries es fields_n result))
      | VArray [_, _] \<Rightarrow> Inl (InvalidArgument ''invalid or duplicate psrec schema version'')
      | _ \<Rightarrow> Inl (InvalidArgument ''invalid psrec schema entry''))"

definition parseMetadata :: "bytes \<Rightarrow> exn + schemas" where
  "parseMetadata payload =
     bindE (decodeValue payload psrec_limits) (\<lambda>decoded.
       case decoded of
         VArray entries \<Rightarrow>
           (if 1024 < length entries then Inl (InvalidArgument ''invalid psrec schemas'')
            else parse_entries entries 0 [])
       | _ \<Rightarrow> Inl (InvalidArgument ''invalid psrec schemas''))"

section \<open>The writer\<close>

record PsrecWriter =
  psw_sink :: sink
  psw_schemas :: schemas
  psw_count :: nat
  psw_finished :: bool
  psw_failed :: bool

definition new_PsrecWriter :: "sink \<Rightarrow> schemas \<Rightarrow> (exn + PsrecWriter) \<times> sink" where
  "new_PsrecWriter k ss =
     bindT (sink_poll psrec_check_stop) (\<lambda>_.
       bindT (sink_poll (psrec_metadata ss)) (\<lambda>payload.
         thenT (psrec_write psrec_header)
           (thenT (writeBlock metadataBlock 0 payload)
             (\<lambda>k. (Inr \<lparr>psw_sink = k, psw_schemas = ss, psw_count = 0, psw_finished = False,
                        psw_failed = False\<rparr>, k))))) k"

fun value_budget :: "nat \<Rightarrow> Value list \<Rightarrow> nat \<Rightarrow> exn + nat" where
  "value_budget sizeof_value [] budget = Inr budget"
| "value_budget sizeof_value (v # vs) budget =
     (let sz = (case v of VString s \<Rightarrow> length s | VBytes bs \<Rightarrow> length bs | _ \<Rightarrow> sizeof_value) in
      if budget < sz then Inl (InvalidArgument ''psrec record exceeds limit'')
      else value_budget sizeof_value vs (budget - sz))"

text \<open>A step of the writer on its stream; an exception leaves the writer failed.\<close>

definition writer_try :: "(sink, 'a) task \<Rightarrow> ('a \<Rightarrow> PsrecWriter \<Rightarrow> PsrecWriter) \<Rightarrow> PsrecWriter
    \<Rightarrow> (exn + unit) \<times> PsrecWriter" where
  "writer_try m f w =
     (case m (psw_sink w) of
        (Inl e, k) \<Rightarrow> (Inl e, w\<lparr>psw_sink := k, psw_failed := True\<rparr>)
      | (Inr x, k) \<Rightarrow> (Inr (), f x (w\<lparr>psw_sink := k\<rparr>)))"

definition psrec_append :: "nat \<Rightarrow> Record \<Rightarrow> PsrecWriter \<Rightarrow> (exn + unit) \<times> PsrecWriter" where
  "psrec_append sizeof_value r w =
     (if psw_failed w \<or> psw_finished w then (Inl (LogicError ''psrec writer is closed or failed''), w)
      else writer_try
        (thenT (sink_poll psrec_check_stop)
          (case map_of (psw_schemas w) (rec_schemaVersion r) of
             None \<Rightarrow> throwT (InvalidArgument ''unknown psrec record schema'')
           | Some schema \<Rightarrow>
               thenT (liftT (validateRecord schema r))
                 (thenT (liftT (value_budget sizeof_value (rec_values r) (maxBytes psrec_limits)))
                   (if psw_count w = size_max - 1 then throwT (OverflowError ''psrec record count overflow'')
                    else
                      bindT (liftT (bindE (recordValue r) (\<lambda>v. encodeValue v psrec_limits))) (\<lambda>payload.
                        writeBlock recordBlock (psw_count w + 1) payload)))))
        (\<lambda>_ w. w\<lparr>psw_count := psw_count w + 1\<rparr>) w)"

definition psrec_finish :: "PsrecWriter \<Rightarrow> (exn + unit) \<times> PsrecWriter" where
  "psrec_finish w =
     (if psw_failed w \<or> psw_finished w then (Inl (LogicError ''psrec writer is closed or failed''), w)
      else writer_try
        (thenT (writeBlock endBlock (psw_count w + 1) (le_bytes 8 (of_nat (psw_count w))))
          (thenT sink_flush
            (thenT (sink_check (RuntimeError ''psrec flush failed'')) (sink_poll psrec_check_stop))))
        (\<lambda>_ w. w\<lparr>psw_finished := True\<rparr>) w)"

section \<open>The reader\<close>

record PsrecReader =
  psr_source :: source
  psr_schemas :: schemas
  psr_count :: nat
  psr_finished :: bool
  psr_failed :: bool

definition new_PsrecReader :: "source \<Rightarrow> exn + PsrecReader" where
  "new_PsrecReader s =
     fst (bindT (psrec_read (length psrec_header)) (\<lambda>bs.
       if bs \<noteq> psrec_header then throwT (InvalidArgument ''unsupported psrec signature or version'')
       else
         bindT (readBlock 0) (\<lambda>block.
           if blk_type block \<noteq> metadataBlock then throwT (InvalidArgument ''psrec metadata missing'')
           else
             bindT (liftT (parseMetadata (blk_payload block))) (\<lambda>ss s.
               (Inr \<lparr>psr_source = s, psr_schemas = ss, psr_count = 0, psr_finished = False,
                     psr_failed = False\<rparr>, s)))) s)"

text \<open>The physical end of the stream after the end block.\<close>

definition source_at_end :: "(source, bool) task" where
  "source_at_end s =
     (let (c, i) = stream_peek (src_in s) in
      (Inr (c = None \<and> \<not> is_bad i), s\<lparr>src_in := i\<rparr>))"

definition psrec_next_item :: "schemas \<Rightarrow> nat \<Rightarrow> (source, Record option) task" where
  "psrec_next_item ss n =
     bindT (readBlock (n + 1)) (\<lambda>block.
       if blk_type block = endBlock then
         (if length (blk_payload block) \<noteq> 8 \<or> le_value (blk_payload block) \<noteq> of_nat n
          then throwT (InvalidArgument ''invalid psrec footer or trailing data'')
          else
            bindT source_at_end (\<lambda>at_end.
              if \<not> at_end then throwT (InvalidArgument ''invalid psrec footer or trailing data'')
              else thenT (source_poll psrec_check_stop) (returnT None)))
       else if blk_type block \<noteq> recordBlock
       then throwT (InvalidArgument ''unexpected psrec metadata block'')
       else
         bindT (liftT (bindE (decodeValue (blk_payload block) psrec_limits) recordFromValue)) (\<lambda>r.
           case map_of ss (rec_schemaVersion r) of
             None \<Rightarrow> throwT (InvalidArgument ''unknown psrec record schema'')
           | Some schema \<Rightarrow>
               thenT (liftT (validateRecord schema r))
                 (if n = size_max - 1 then throwT (OverflowError ''psrec record count overflow'')
                  else returnT (Some r))))"

definition psrec_next :: "PsrecReader \<Rightarrow> (exn + Record option) \<times> PsrecReader" where
  "psrec_next p =
     (if psr_failed p then (Inl (LogicError ''psrec reader has failed''), p)
      else if psr_finished p then (Inr None, p)
      else case psrec_next_item (psr_schemas p) (psr_count p) (psr_source p) of
        (Inl e, s) \<Rightarrow> (Inl e, p\<lparr>psr_source := s, psr_failed := True\<rparr>)
      | (Inr None, s) \<Rightarrow> (Inr None, p\<lparr>psr_source := s, psr_finished := True\<rparr>)
      | (Inr (Some r), s) \<Rightarrow> (Inr (Some r), p\<lparr>psr_source := s, psr_count := psr_count p + 1\<rparr>))"

end
