(* ===== verification/Psrec_Correct.thy ===== *)
theory Psrec_Correct
  imports Psrec
begin

text \<open>
  Correctness of the record exchange format: the table-driven CRC is the bitwise one, a block is
  read back as written, a cut or altered block is refused, and the metadata block restores the
  schemas.
\<close>

section \<open>The table computes the bitwise CRC\<close>

lemma crc_table_bit_eq: "crc_table_bit v = crc32Ieee_bit v"
  by (simp add: crc_table_bit_def crc32Ieee_bit_def Let_def)

lemma crc_table_bit_xor: "crc_table_bit (a XOR b) = crc_table_bit a XOR crc_table_bit b"
proof -
  have lsb: "(x AND 1 \<noteq> 0) = odd x" for x :: u32 by (simp add: and_one_eq odd_iff_mod_2_eq_one)
  have "odd (a XOR b) \<longleftrightarrow> odd a \<noteq> odd b" by (simp add: even_xor_iff)
  then show ?thesis
    unfolding crc_table_bit_def lsb
    by (cases "odd a"; cases "odd b") (simp_all add: drop_bit_xor xor.assoc xor.left_commute xor.commute)
qed

lemma crc_table_bits_xor: "(crc_table_bit ^^ n) (a XOR b) = (crc_table_bit ^^ n) a XOR (crc_table_bit ^^ n) b"
  by (induction n) (simp_all add: crc_table_bit_xor)

lemma crc_table_bit_even: "\<not> bit v 0 \<Longrightarrow> crc_table_bit v = drop_bit 1 v"
  by (simp add: crc_table_bit_def and_one_eq bit_0 odd_iff_mod_2_eq_one [symmetric])

lemma crc_table_bits_shift: "(\<And>i. i < n \<Longrightarrow> \<not> bit v i) \<Longrightarrow> (crc_table_bit ^^ n) v = drop_bit n v"
proof (induction n)
  case (Suc n)
  then have "(crc_table_bit ^^ n) v = drop_bit n v" by simp
  moreover have "\<not> bit (drop_bit n v) 0" using Suc.prems [of n] by (simp add: bit_drop_bit_eq)
  ultimately show ?case by (simp add: crc_table_bit_even drop_bit_drop_bit)
qed simp

lemma crc_table_step:
  "crcTable ! unat (v AND 255) XOR drop_bit 8 v = (crc32Ieee_bit ^^ 8) v"
proof -
  let ?low = "v AND 255" and ?high = "v AND NOT 255"
  have split: "?low XOR ?high = v" by (rule bit_word_eqI) (auto simp: bit_simps)
  have mask255: "(255 :: u32) = Bit_Operations.mask 8" by (simp add: mask_eq_exp_minus_1)
  have "\<not> bit ?high i" if "i < 8" for i using that unfolding mask255 by (simp add: bit_simps)
  then have "(crc_table_bit ^^ 8) ?high = drop_bit 8 ?high" by (rule crc_table_bits_shift)
  also have "\<dots> = drop_bit 8 v"
    unfolding mask255 by (rule bit_word_eqI) (auto simp: bit_simps dest: bit_imp_le_length)
  finally have high: "(crc_table_bit ^^ 8) ?high = drop_bit 8 v" .
  have "unat ?low < 256"
  proof -
    have "unat ?low = unat v mod 256"
      unfolding mask255 by (simp add: take_bit_eq_mod unat_mod_distrib flip: take_bit_eq_mask)
    then show ?thesis by simp
  qed
  then have "crcTable ! unat ?low = (crc_table_bit ^^ 8) ?low" by (simp add: crcTable_def)
  then have "crcTable ! unat ?low XOR drop_bit 8 v = (crc_table_bit ^^ 8) (?low XOR ?high)"
    by (simp only: crc_table_bits_xor high)
  moreover have "crc_table_bit = crc32Ieee_bit" by (rule ext) (rule crc_table_bit_eq)
  ultimately show ?thesis by (simp only: split)
qed

lemma crc_table_byte:
  "crcTable ! unat ((v XOR ucast b) AND 255) XOR drop_bit 8 v = crc32.byte_step v b"
proof -
  have "drop_bit 8 (v XOR ucast b) = drop_bit 8 v"
    by (rule bit_word_eqI) (auto simp: bit_simps dest: bit_imp_le_length)
  with crc_table_step [of "v XOR ucast b"] show ?thesis by (simp add: crc32.byte_step_def)
qed

lemma psrec_crc_from_eq: "psrec_crc_from i v bs None = (Inr (crc32.run v bs), None)"
proof (induction bs arbitrary: i v)
  case (Cons b bs)
  then show ?case
    by (simp add: crc_table_byte thenT_def bindT_def psrec_check_stop_def returnT_def crc32.run_def)
qed (simp add: crc32.run_def returnT_def)

lemma block_checksum_eq: "block_checksum prefix payload None = (Inr (crc32Ieee (prefix @ payload)), None)"
  by (simp add: block_checksum_def bindT_def psrec_crc_def psrec_crc_from_eq returnT_def crc32Ieee_run
      crc32.run_append)

lemma uint_ge_neg [simp]: "- numeral k \<le> uint w"
  by (rule order_trans [OF _ uint_ge_0]) simp

lemma unat_ucast_u32 [simp]: "unat (ucast (c :: u32) :: u64) = unat c"
proof -
  have "unat c < 2 ^ LENGTH(32)" by (rule unsigned_less)
  then show ?thesis by (simp add: unsigned_ucast_eq take_bit_nat_eq_self)
qed

lemma ucast_u32_eq [simp]: "(ucast (a :: u32) :: u64) = ucast b \<longleftrightarrow> a = b"
  by (metis unat_ucast_u32 word_unat_eq_iff)

lemma le_value_crc [simp]: "le_value (le_bytes 4 (ucast (c :: u32))) = ucast c"
proof -
  have "unat c < 2 ^ LENGTH(32)" by (rule unsigned_less)
  then show ?thesis by (intro le_value_4) simp
qed

section \<open>Writing a block\<close>

definition block_bytes :: "u32 \<Rightarrow> nat \<Rightarrow> bytes \<Rightarrow> bytes" where
  "block_bytes type seq payload =
     block_prefix type (length payload) seq @ payload @
     le_bytes 4 (ucast (crc32Ieee (block_prefix type (length payload) seq @ payload)))"

definition chars :: "bytes \<Rightarrow> string" where
  "chars = map char_of_byte"

lemma chars_simps [simp]:
  "chars (a @ b) = chars a @ chars b" "chars [] = []" "length (chars bs) = length bs"
  "chars bs = [] \<longleftrightarrow> bs = []" "map byte_of_char (chars bs) = bs"
  by (simp_all add: chars_def comp_def)

lemma length_block_prefix [simp]: "length (block_prefix t n s) = 16"
  by (simp add: block_prefix_def)

lemma psrec_write_iff:
  "sink_stop k = None \<Longrightarrow> psrec_write bs k = (Inr u, k') \<longleftrightarrow>
     sink_wrote k (chars bs) k' \<and> (bs \<noteq> [] \<longrightarrow> os_ok (sink_out k'))"
  by (simp add: psrec_write_def write_chunks_iff chars_def)

lemma sink_poll_never:
  "sink_stop k = None \<Longrightarrow> m None = (r, None) \<Longrightarrow> sink_poll m k = (r, k)"
  by (simp add: sink_poll_def)

lemma psrec_check_stop_never [simp]: "psrec_check_stop None = (Inr (), None)"
  by (simp add: psrec_check_stop_def)

lemma writeBlock_wrote:
  assumes "writeBlock type seq payload k = (Inr u, k')" "sink_stop k = None"
  shows "sink_wrote k (chars (block_bytes type seq payload)) k' \<and> os_ok (sink_out k') \<and>
     length payload \<le> maxBytes psrec_limits"
proof -
  let ?p = "block_prefix type (length payload) seq"
  have poll: "sink_poll (block_checksum ?p payload) k = (Inr (crc32Ieee (?p @ payload)), k)"
    using assms(2) by (intro sink_poll_never block_checksum_eq)
  obtain k1 k2 where k: "psrec_write ?p k = (Inr (), k1)" "psrec_write payload k1 = (Inr (), k2)"
    "psrec_write (le_bytes 4 (ucast (crc32Ieee (?p @ payload)))) k2 = (Inr u, k')"
    and len: "length payload \<le> maxBytes psrec_limits"
    using assms poll by (auto simp: writeBlock_def Let_def not_less)
  have w1: "sink_wrote k (chars ?p) k1" using k(1) psrec_write_iff [OF assms(2)] by blast
  have w2: "sink_wrote k1 (chars payload) k2"
    using k(2) psrec_write_iff [OF sink_wrote_stop [OF w1]] by blast
  have w3: "sink_wrote k2 (chars (le_bytes 4 (ucast (crc32Ieee (?p @ payload))))) k' \<and> os_ok (sink_out k')"
    using k(3) psrec_write_iff [OF sink_wrote_stop [OF w2]] by (metis length_0_conv length_le_bytes zero_neq_numeral)
  show ?thesis
    using sink_wrote_trans [OF w1 sink_wrote_trans [OF w2 conjunct1 [OF w3]]] w3 len
    by (simp add: block_bytes_def)
qed

section \<open>Reading a block\<close>

definition src_at :: "string \<Rightarrow> source" where
  "src_at cs = \<lparr>src_in = istream_of cs, src_stop = None\<rparr>"

lemma source_poll_never [simp]:
  "m None = (r, None) \<Longrightarrow> source_poll m (src_at cs) = (r, src_at cs)"
  by (simp add: source_poll_def src_at_def)

lemma source_read_eq:
  "n \<le> length cs \<Longrightarrow> source_read n (src_at cs) = (Inr (map byte_of_char (take n cs)), src_at (drop n cs))"
  by (simp add: source_read_def stream_read_def src_at_def istream_of_def is_good_def is_usable_def Let_def)

lemma source_read_short:
  "length cs < n \<Longrightarrow> \<exists>s. source_read n (src_at cs) = (Inl (RuntimeError ''psrec truncated or unreadable''), s)"
  by (simp add: source_read_def stream_read_def src_at_def istream_of_def is_good_def is_usable_def
      is_end_def Let_def)

lemma psrec_read_eq:
  "n \<le> length cs \<Longrightarrow> psrec_read n (src_at cs) = (Inr (map byte_of_char (take n cs)), src_at (drop n cs))"
proof (induction n arbitrary: cs rule: psrec_read.induct)
  case (1 n)
  show ?case
  proof (cases "n = 0")
    case False
    let ?m = "min n 65536"
    have m: "?m \<le> length cs" using "1.prems" by simp
    have IH: "psrec_read (n - ?m) (src_at (drop ?m cs)) =
        (Inr (map byte_of_char (take (n - ?m) (drop ?m cs))), src_at (drop (n - ?m) (drop ?m cs)))"
      using False "1.prems" by (intro "1.IH") auto
    have "take n cs = take ?m cs @ take (n - ?m) (drop ?m cs)"
      by (metis add_diff_inverse_nat min.cobounded1 not_less take_add)
    moreover have "drop (n - ?m) (drop ?m cs) = drop n cs" by simp
    ultimately show ?thesis
      using False IH by (subst psrec_read.simps)
        (simp add: thenT_def bindT_def source_read_eq [OF m] returnT_def)
  qed (simp add: psrec_read.simps returnT_def)
qed

lemma psrec_read_short: "length cs < n \<Longrightarrow> \<exists>e s. psrec_read n (src_at cs) = (Inl e, s)"
proof (induction n arbitrary: cs rule: psrec_read.induct)
  case (1 n)
  let ?m = "min n 65536"
  have n: "n \<noteq> 0" using "1.prems" by simp
  show ?case
  proof (cases "?m \<le> length cs")
    case True
    then have "length (drop ?m cs) < n - ?m" using "1.prems" by (simp add: diff_less_mono)
    then obtain e s where "psrec_read (n - ?m) (src_at (drop ?m cs)) = (Inl e, s)"
      using "1.IH" [OF n] by blast
    then show ?thesis
      using n by (subst psrec_read.simps) (simp add: thenT_def bindT_def source_read_eq [OF True])
  next
    case False
    then obtain s where "source_read ?m (src_at cs) = (Inl (RuntimeError ''psrec truncated or unreadable''), s)"
      using source_read_short [of cs ?m] by (auto simp: not_le)
    then show ?thesis
      using n by (subst psrec_read.simps) (simp add: thenT_def bindT_def)
  qed
qed

definition block_type_ok :: "u32 \<Rightarrow> bool" where
  "block_type_ok t \<longleftrightarrow> t = metadataBlock \<or> t = recordBlock \<or> t = endBlock"

text \<open>What \<open>readBlock\<close> does with the bytes of a block, of which the payload and checksum are any.\<close>

lemma readBlock_framed:
  assumes "block_type_ok type" "length payload \<le> maxBytes psrec_limits" "length crc = 4"
  shows "readBlock seq (src_at (chars (block_prefix type (length payload) seq @ payload @ crc) @ cs)) =
     (if le_value crc \<noteq> ucast (crc32Ieee (block_prefix type (length payload) seq @ payload))
      then Inl (InvalidArgument ''psrec CRC32 mismatch'')
      else Inr \<lparr>blk_type = type, blk_payload = payload\<rparr>, src_at cs)"
proof -
  let ?p = "block_prefix type (length payload) seq"
  have small: "length payload < 2 ^ 32" using assms(2) by (simp add: psrec_limits_def)
  have unat_len: "unat (of_nat (length payload) :: u64) = length payload"
    using small by (simp add: unat_of_nat)
  have parts: "le_value (take 4 ?p) = ucast type" "le_value (take 4 (drop 4 ?p)) = of_nat (length payload)"
    "le_value (drop 8 ?p) = of_nat seq"
    using small assms(1) by (auto simp: block_prefix_def le_value_8 le_value_4 unat_len block_type_ok_def block_defs)
  have type: "\<not> (ucast type :: u64) < ucast metadataBlock" "\<not> (ucast endBlock :: u64) < ucast type"
    "(ucast (ucast type :: u64) :: u32) = type"
    using assms(1) by (auto simp: block_type_ok_def block_defs)
  have r1: "psrec_read 16 (src_at (chars (?p @ payload @ crc) @ cs)) = (Inr ?p, src_at (chars (payload @ crc) @ cs))"
    by (subst psrec_read_eq) simp_all
  have r2: "psrec_read (length payload) (src_at (chars (payload @ crc) @ cs)) = (Inr payload, src_at (chars crc @ cs))"
    by (subst psrec_read_eq) simp_all
  have r3: "psrec_read 4 (src_at (chars crc @ cs)) = (Inr crc, src_at cs)"
    using assms(3) by (subst psrec_read_eq) simp_all
  show ?thesis
    using assms(2) unfolding readBlock_def bindT_def r1
    by (simp add: parts type unat_len r2 r3 block_checksum_eq Let_def throwT_def returnT_def del: chars_simps)
qed

lemma readBlock_block:
  assumes "block_type_ok type" "length payload \<le> maxBytes psrec_limits"
  shows "readBlock seq (src_at (chars (block_bytes type seq payload) @ cs)) =
     (Inr \<lparr>blk_type = type, blk_payload = payload\<rparr>, src_at cs)"
  using readBlock_framed [OF assms, of "le_bytes 4 (ucast (crc32Ieee (block_prefix type (length payload) seq @ payload)))"]
  by (simp add: block_bytes_def)

text \<open>A block of which one payload byte was altered is refused.\<close>

lemma readBlock_altered:
  assumes "block_type_ok type" "length (xs @ b # ys) \<le> maxBytes psrec_limits" "a \<noteq> b"
    and p_def: "p = block_prefix type (length (xs @ b # ys)) seq"
  shows "readBlock seq (src_at (chars (p @ (xs @ b # ys) @ le_bytes 4 (ucast (crc32Ieee (p @ xs @ a # ys)))) @ cs)) =
     (Inl (InvalidArgument ''psrec CRC32 mismatch''), src_at cs)"
proof -
  let ?c = "crc32Ieee (p @ xs @ a # ys)" and ?c' = "crc32Ieee (p @ xs @ b # ys)"
  have "?c \<noteq> ?c'"
    using crc32.single_byte_error [OF assms(3), of "0xFFFFFFFF" "p @ xs" ys] by (simp add: crc32Ieee_run)
  with readBlock_framed [OF assms(1,2), of "le_bytes 4 (ucast ?c)" seq cs] show ?thesis
    by (simp add: p_def)
qed

text \<open>A block that is cut anywhere is refused.\<close>

lemma readBlock_cut:
  assumes "block_type_ok type" "length payload \<le> maxBytes psrec_limits"
    and "n < length (block_bytes type seq payload)"
  shows "\<exists>e s. readBlock seq (src_at (take n (chars (block_bytes type seq payload)))) = (Inl e, s)"
proof (cases "n < 16")
  case True
  then obtain e s where "psrec_read 16 (src_at (take n (chars (block_bytes type seq payload)))) = (Inl e, s)"
    using psrec_read_short [of "take n (chars (block_bytes type seq payload))" 16] by (auto simp: min_less_iff_disj)
  then show ?thesis by (simp add: readBlock_def bindT_def)
next
  case False
  let ?p = "block_prefix type (length payload) seq"
  define rest where "rest = take (n - 16) (chars payload @ chars (le_bytes 4 (ucast (crc32Ieee (?p @ payload)))))"
  have small: "length payload < 2 ^ 32" using assms(2) by (simp add: psrec_limits_def)
  have unat_len: "unat (of_nat (length payload) :: u64) = length payload"
    using small by (simp add: unat_of_nat)
  have parts: "le_value (take 4 ?p) = ucast type" "le_value (take 4 (drop 4 ?p)) = of_nat (length payload)"
    "le_value (drop 8 ?p) = of_nat seq"
    using small assms(1) by (auto simp: block_prefix_def le_value_8 le_value_4 unat_len block_type_ok_def block_defs)
  have type: "\<not> (ucast type :: u64) < ucast metadataBlock" "\<not> (ucast endBlock :: u64) < ucast type"
    using assms(1) by (auto simp: block_type_ok_def block_defs)
  have cut: "take n (chars (block_bytes type seq payload)) = chars ?p @ rest"
    using False by (simp add: block_bytes_def rest_def)
  have r1: "psrec_read 16 (src_at (chars ?p @ rest)) = (Inr ?p, src_at rest)"
    by (subst psrec_read_eq) simp_all
  have "\<exists>e s. bindT (psrec_read (length payload)) (\<lambda>payload'. bindT (psrec_read 4) (f payload')) (src_at rest) = (Inl e, s)"
    for f :: "bytes \<Rightarrow> bytes \<Rightarrow> (source, Block) task"
  proof (cases "length payload \<le> length rest")
    case True
    have "length (drop (length payload) rest) < 4"
      using assms(3) \<open>\<not> n < 16\<close> by (simp add: block_bytes_def rest_def)
    from psrec_read_short [OF this] True show ?thesis by (auto simp: bindT_def psrec_read_eq)
  next
    case False
    then show ?thesis using psrec_read_short [of rest "length payload"] by (auto simp: bindT_def not_le)
  qed
  then show ?thesis
    using assms(2) unfolding cut readBlock_def bindT_def [of "psrec_read 16"] r1
    by (simp add: parts type unat_len Let_def)
qed

section \<open>The metadata block\<close>

definition entry_value :: "u64 \<Rightarrow> Schema \<Rightarrow> Value \<Rightarrow> bool" where
  "entry_value version s e \<longleftrightarrow> version \<noteq> 0 \<and> uint version \<le> int64_max \<and>
     (\<exists>v. schemaValue s = Inr v \<and> e = VArray [VInt (uint version), v])"

lemma metadata_entries_spec:
  "metadata_entries ss budget n None = (Inr es, t) \<Longrightarrow>
     t = None \<and> list_all2 (\<lambda>(version, s) e. entry_value version s e) ss es \<and>
     (ss \<noteq> [] \<longrightarrow> n + sum_list (map (\<lambda>(version, s). length (sch_fields s)) ss) \<le> 16384)"
proof (induction ss arbitrary: budget n es)
  case (Cons p ss)
  obtain version s where p: "p = (version, s)" by (cases p)
  from Cons.prems obtain v budget' es' where
    v: "schemaValue s = Inr v" and es: "es = VArray [VInt (uint version), v] # es'"
    and r: "metadata_entries ss budget' (n + length (sch_fields s)) None = (Inr es', t)"
    and c: "version \<noteq> 0" "uint version \<le> int64_max" "n + length (sch_fields s) \<le> 16384"
    by (auto simp: p Let_def not_less split: if_splits)
  from Cons.IH [OF r(1)] v es c show ?case
    by (cases ss) (auto simp: p entry_value_def)
qed auto

lemma parse_entries_spec:
  "list_all2 (\<lambda>(version, s) e. entry_value version s e) ss es \<Longrightarrow> map_wf (acc @ ss) \<Longrightarrow>
   (ss \<noteq> [] \<longrightarrow> n + sum_list (map (\<lambda>(version, s). length (sch_fields s)) ss) \<le> 16384) \<Longrightarrow>
   parse_entries es n acc = Inr (acc @ ss)"
proof (induction ss es arbitrary: acc n rule: list_all2_induct)
  case (Cons p ss e es)
  obtain version s where p: "p = (version, s)" by (cases p)
  with Cons.hyps obtain v where v: "schemaFromValue v = Inr s" "e = VArray [VInt (uint version), v]" "version \<noteq> 0"
    by (auto simp: entry_value_def schemaFromValue_iff)
  have "uint version \<noteq> 0" "0 \<le> uint version" using v(3) by (simp_all add: uint_0_iff)
  then have pos: "\<not> uint version \<le> 0" by linarith
  have "map_emplace version s acc = Some (acc @ [(version, s)])"
    using Cons.prems(1) p by (intro map_emplace_last) (auto simp: map_wf_def map_keys_def sorted_wrt_append)
  moreover have "parse_entries es (n + length (sch_fields s)) (acc @ [(version, s)]) = Inr ((acc @ [(version, s)]) @ ss)"
    using Cons.prems p by (intro Cons.IH) auto
  ultimately show ?case using Cons.prems(2) v pos p by (simp add: Let_def)
qed simp

lemma psrec_limits_ok: "maxBytes psrec_limits \<le> size_max"
  by (simp add: psrec_limits_def size_max_def)

lemma parseMetadata_metadata:
  assumes "psrec_metadata ss None = (Inr payload, t)" "map_wf ss"
  shows "parseMetadata payload = Inr ss \<and> t = None"
proof -
  obtain es where es: "metadata_entries ss (maxBytes psrec_limits) 0 None = (Inr es, t)"
    "encodeValue (VArray es) psrec_limits = Inr payload" "length ss \<le> 1024"
    using assms(1) by (auto simp: psrec_metadata_def not_less)
  note spec = metadata_entries_spec [OF es(1)]
  have ok: "value_ok e" if "entry_value version s e" for version s e
    using that schemaValue_ok by (auto simp: entry_value_def int64_defs)
  have "value_ok e" if e: "e \<in> set es" for e
  proof -
    obtain i where i: "i < length es" "es ! i = e" using e by (auto simp: in_set_conv_nth)
    have "case ss ! i of (version, s) \<Rightarrow> entry_value version s (es ! i)"
      using spec i(1) by (simp add: list_all2_conv_all_nth case_prod_unfold)
    then show ?thesis using ok by (cases "ss ! i") (auto simp: i(2))
  qed
  then have "value_ok (VArray es)" by (simp add: list_all_iff)
  then have "decodeValue payload psrec_limits = Inr (VArray es)"
    using decodeValue_encodeValue [OF es(2)] psrec_limits_ok by blast
  moreover have "parse_entries es 0 [] = Inr ([] @ ss)"
    using spec assms(2) by (intro parse_entries_spec) auto
  moreover have "length es \<le> 1024" using spec es(3) by (auto dest: list_all2_lengthD)
  ultimately show ?thesis using spec by (simp add: parseMetadata_def)
qed

end
