(* ===== verification/Psrec_File.thy ===== *)
theory Psrec_File
  imports Psrec_Correct
begin

text \<open>
  Whole record files: what a writer leaves on its stream, what a reader makes of it, and what it
  makes of a file that was cut.
\<close>

section \<open>The layout of a file\<close>

definition record_payload :: "Record \<Rightarrow> bytes \<Rightarrow> bool" where
  "record_payload r payload \<longleftrightarrow> (\<exists>v. recordValue r = Inr v \<and> encodeValue v psrec_limits = Inr payload)"

fun blocks_text :: "nat \<Rightarrow> bytes list \<Rightarrow> string" where
  "blocks_text n [] = chars (block_bytes endBlock (n + 1) (le_bytes 8 (of_nat n)))"
| "blocks_text n (p # ps) = chars (block_bytes recordBlock (n + 1) p) @ blocks_text (Suc n) ps"

definition file_text :: "bytes \<Rightarrow> bytes list \<Rightarrow> string" where
  "file_text meta ps = chars psrec_header @ chars (block_bytes metadataBlock 0 meta) @ blocks_text 0 ps"

section \<open>What the writer writes\<close>

definition writer_ready :: "schemas \<Rightarrow> nat \<Rightarrow> PsrecWriter \<Rightarrow> bool" where
  "writer_ready ss n w \<longleftrightarrow> sink_stop (psw_sink w) = None \<and> psw_schemas w = ss \<and> psw_count w = n"

lemma new_PsrecWriter_wrote:
  assumes "new_PsrecWriter k ss = (Inr w, k')" "sink_stop k = None"
  shows "\<exists>meta. psrec_metadata ss None = (Inr meta, None) \<and> writer_ready ss 0 w \<and>
     length meta \<le> maxBytes psrec_limits \<and>
     sink_wrote k (chars psrec_header @ chars (block_bytes metadataBlock 0 meta)) (psw_sink w)"
proof -
  have stop: "sink_poll psrec_check_stop k = (Inr (), k)" using assms(2) by (intro sink_poll_never) simp_all
  obtain r t where meta: "psrec_metadata ss None = (r, t)" by (meson surj_pair)
  then have poll: "sink_poll (psrec_metadata ss) k = (r, k\<lparr>sink_stop := t\<rparr>)"
    using assms(2) by (simp add: sink_poll_def)
  obtain m k1 where m: "r = Inr m" "psrec_write psrec_header (k\<lparr>sink_stop := t\<rparr>) = (Inr (), k1)"
    "writeBlock metadataBlock 0 m k1 = (Inr (), psw_sink w)"
    "w = \<lparr>psw_sink = psw_sink w, psw_schemas = ss, psw_count = 0, psw_finished = False, psw_failed = False\<rparr>"
    using assms(1) stop poll by (auto simp: new_PsrecWriter_def)
  obtain es where "metadata_entries ss (maxBytes psrec_limits) 0 None = (Inr es, t)"
    using meta m(1) by (auto simp: psrec_metadata_def)
  then have t: "t = None" using metadata_entries_spec by blast
  with assms(2) have k: "k\<lparr>sink_stop := t\<rparr> = k" by simp
  have w1: "sink_wrote k (chars psrec_header) k1" using m(2) psrec_write_iff [OF assms(2)] k by metis
  note w2 = writeBlock_wrote [OF m(3) sink_wrote_stop [OF w1]]
  have "sink_wrote k (chars psrec_header @ chars (block_bytes metadataBlock 0 m)) (psw_sink w)"
    using sink_wrote_trans [OF w1] w2 by blast
  moreover have "writer_ready ss 0 w"
    using m(4) sink_wrote_stop [OF conjunct1 [OF w2]]
    unfolding writer_ready_def by (metis PsrecWriter.select_convs(2,3))
  ultimately show ?thesis using meta m(1) t w2 by auto
qed

lemma psrec_append_wrote:
  assumes "psrec_append sz r w = (Inr u, w')" "writer_ready ss n w"
  shows "\<exists>payload schema. record_payload r payload \<and> map_of ss (rec_schemaVersion r) = Some schema \<and>
     record_ok schema r \<and> n \<noteq> size_max - 1 \<and> length payload \<le> maxBytes psrec_limits \<and>
     writer_ready ss (Suc n) w' \<and>
     sink_wrote (psw_sink w) (chars (block_bytes recordBlock (n + 1) payload)) (psw_sink w')"
proof -
  have stop: "sink_stop (psw_sink w) = None" using assms(2) by (simp add: writer_ready_def)
  then have poll: "sink_poll psrec_check_stop (psw_sink w) = (Inr (), psw_sink w)"
    by (intro sink_poll_never) simp_all
  obtain schema payload k v where
    s: "map_of ss (rec_schemaVersion r) = Some schema" "validateRecord schema r = Inr ()"
    and n: "n \<noteq> size_max - 1" and p: "recordValue r = Inr v" "encodeValue v psrec_limits = Inr payload"
    and b: "writeBlock recordBlock (n + 1) payload (psw_sink w) = (Inr (), k)"
    and w': "w' = w\<lparr>psw_sink := k, psw_count := n + 1\<rparr>"
    using assms poll
    by (auto simp: psrec_append_def writer_try_def writer_ready_def
        split: if_splits option.splits prod.splits sum.splits)
  have "record_payload r payload" using p by (auto simp: record_payload_def)
  moreover have "record_ok schema r" using s(2) by (simp add: validateRecord_iff)
  moreover have "writer_ready ss (Suc n) w'"
    using assms(2) writeBlock_wrote [OF b stop] sink_wrote_stop by (auto simp: w' writer_ready_def)
  ultimately show ?thesis using s(1) n writeBlock_wrote [OF b stop] by (auto simp: w')
qed

lemma psrec_finish_wrote:
  assumes "psrec_finish w = (Inr u, w')" "writer_ready ss n w"
  shows "\<exists>k. sink_wrote (psw_sink w) (chars (block_bytes endBlock (n + 1) (le_bytes 8 (of_nat n)))) k \<and>
     os_ok (sink_out k) \<and> os_data (sink_out (psw_sink w')) = os_data (sink_out k)"
proof -
  have stop: "sink_stop (psw_sink w) = None" using assms(2) by (simp add: writer_ready_def)
  obtain k k1 where b: "writeBlock endBlock (n + 1) (le_bytes 8 (of_nat n)) (psw_sink w) = (Inr (), k)"
    and f: "sink_flush k = (Inr (), k1)" "os_ok (sink_out k1)"
    and c: "sink_poll psrec_check_stop k1 = (Inr (), psw_sink w')"
    using assms
    by (auto simp: psrec_finish_def writer_try_def writer_ready_def split: if_splits prod.splits sum.splits)
  have "psw_sink w' = k1\<lparr>sink_stop := snd (psrec_check_stop (sink_stop k1))\<rparr>"
    using c by (simp add: sink_poll_def split_beta)
  then have w': "sink_out (psw_sink w') = sink_out k1" by simp
  have "os_data (sink_out k1) = os_data (sink_out k)" using f(1) by (auto simp: sink_flush_def stream_flush_def)
  then show ?thesis using writeBlock_wrote [OF b stop] w' by auto
qed

definition psrec_write_file :: "nat \<Rightarrow> Record list \<Rightarrow> PsrecWriter \<Rightarrow> (exn + unit) \<times> PsrecWriter" where
  "psrec_write_file sz rs = thenT (forT (psrec_append sz) rs) psrec_finish"

text \<open>The records with the payloads of their blocks.\<close>

definition records_stored :: "schemas \<Rightarrow> Record list \<Rightarrow> bytes list \<Rightarrow> bool" where
  "records_stored ss = list_all2 (\<lambda>r p. record_payload r p \<and> length p \<le> maxBytes psrec_limits \<and>
     (\<exists>schema. map_of ss (rec_schemaVersion r) = Some schema \<and> record_ok schema r))"

lemma psrec_write_file_wrote:
  "psrec_write_file sz rs w = (Inr u, w') \<Longrightarrow> writer_ready ss n w \<Longrightarrow> n \<le> size_max - 1 \<Longrightarrow>
     \<exists>ps k. records_stored ss rs ps \<and> n + length rs \<le> size_max - 1 \<and> os_ok (sink_out k) \<and>
       sink_wrote (psw_sink w) (blocks_text n ps) k \<and> os_data (sink_out (psw_sink w')) = os_data (sink_out k)"
proof (induction rs arbitrary: n w)
  case Nil
  then show ?case using psrec_finish_wrote [of w u w' ss n]
    by (intro exI [of _ "[]"]) (auto simp: psrec_write_file_def records_stored_def)
next
  case (Cons r rs)
  then obtain w1 where w1: "psrec_append sz r w = (Inr (), w1)" "psrec_write_file sz rs w1 = (Inr u, w')"
    by (auto simp: psrec_write_file_def)
  from psrec_append_wrote [OF w1(1) Cons.prems(2)] obtain p schema where
    p: "record_payload r p" "map_of ss (rec_schemaVersion r) = Some schema" "record_ok schema r"
      "n \<noteq> size_max - 1" "length p \<le> maxBytes psrec_limits" "writer_ready ss (Suc n) w1"
      "sink_wrote (psw_sink w) (chars (block_bytes recordBlock (n + 1) p)) (psw_sink w1)" by blast
  have "Suc n \<le> size_max - 1" using Cons.prems(3) p(4) by linarith
  from Cons.IH [OF w1(2) p(6) this] obtain ps k where
    ps: "records_stored ss rs ps" "Suc n + length rs \<le> size_max - 1" "os_ok (sink_out k)"
      "sink_wrote (psw_sink w1) (blocks_text (Suc n) ps) k"
      "os_data (sink_out (psw_sink w')) = os_data (sink_out k)" by blast
  have "records_stored ss (r # rs) (p # ps)" using p ps(1) by (auto simp: records_stored_def)
  moreover have "sink_wrote (psw_sink w) (blocks_text n (p # ps)) k"
    using sink_wrote_trans [OF p(7) ps(4)] by simp
  moreover have "n + length (r # rs) \<le> size_max - 1" using ps(2) by simp
  ultimately show ?case using ps(3,5) by blast
qed


section \<open>What the reader reads\<close>

definition reader_state :: "schemas \<Rightarrow> nat \<Rightarrow> string \<Rightarrow> PsrecReader" where
  "reader_state ss n cs =
     \<lparr>psr_source = src_at cs, psr_schemas = ss, psr_count = n, psr_finished = False, psr_failed = False\<rparr>"

lemma block_types_ok [simp]:
  "block_type_ok metadataBlock" "block_type_ok recordBlock" "block_type_ok endBlock"
  by (simp_all add: block_type_ok_def)

lemma new_PsrecReader_reads:
  assumes "psrec_metadata ss None = (Inr meta, None)" "map_wf ss" "length meta \<le> maxBytes psrec_limits"
  shows "new_PsrecReader (src_at (chars psrec_header @ chars (block_bytes metadataBlock 0 meta) @ cs)) =
     Inr (reader_state ss 0 cs)"
proof -
  have h: "psrec_read (length psrec_header) (src_at (chars psrec_header @ chars (block_bytes metadataBlock 0 meta) @ cs)) =
      (Inr psrec_header, src_at (chars (block_bytes metadataBlock 0 meta) @ cs))"
    by (subst psrec_read_eq) simp_all
  note b = readBlock_block [OF block_types_ok(1) assms(3), of 0 cs]
  show ?thesis
    using parseMetadata_metadata [OF assms(1,2)]
    by (simp add: new_PsrecReader_def bindT_def h b liftT_def reader_state_def)
qed

lemma psrec_next_record:
  assumes "record_payload r p" "record_typed r" "length p \<le> maxBytes psrec_limits" "n \<noteq> size_max - 1"
    and "map_of ss (rec_schemaVersion r) = Some schema" "record_ok schema r"
  shows "psrec_next (reader_state ss n (chars (block_bytes recordBlock (n + 1) p) @ cs)) =
     (Inr (Some r), reader_state ss (Suc n) cs)"
proof -
  obtain v where v: "recordValue r = Inr v" "encodeValue v psrec_limits = Inr p"
    using assms(1) by (auto simp: record_payload_def)
  have ok: "value_ok v" using record_value_ok [OF v(1) assms(2)] .
  have "decodeValue p psrec_limits = Inr v" "recordFromValue v = Inr r"
    by (rule decodeValue_encodeValue [OF v(2) ok psrec_limits_ok], rule iffD2 [OF recordFromValue_iff [OF ok] v(1)])
  moreover have "validateRecord schema r = Inr ()" using assms(6) by (simp add: validateRecord_iff)
  moreover have "recordBlock \<noteq> endBlock" by (simp add: block_defs)
  ultimately show ?thesis
    using assms(4,5) readBlock_block [OF block_types_ok(2) assms(3), of "n + 1" cs]
    by (simp add: psrec_next_def reader_state_def psrec_next_item_def bindT_def thenT_def liftT_def returnT_def)
qed

lemma psrec_next_finish:
  "\<exists>p. psrec_next (reader_state ss n (chars (block_bytes endBlock (n + 1) (le_bytes 8 (of_nat n))))) = (Inr None, p)"
proof -
  have "length (le_bytes 8 (of_nat n :: u64)) \<le> maxBytes psrec_limits" by (simp add: psrec_limits_def)
  from readBlock_block [OF block_types_ok(3) this, of "n + 1" "[]"]
  have b: "readBlock (n + 1) (src_at (chars (block_bytes endBlock (n + 1) (le_bytes 8 (of_nat n))))) =
      (Inr \<lparr>blk_type = endBlock, blk_payload = le_bytes 8 (of_nat n)\<rparr>, src_at [])" by simp
  have e: "source_at_end (src_at []) = (Inr True, (src_at [])\<lparr>src_in := snd (stream_peek (istream_of []))\<rparr>)"
    by (simp add: source_at_end_def src_at_def stream_peek_def istream_of_def is_good_def is_end_def)
  have "source_poll psrec_check_stop ((src_at [])\<lparr>src_in := i\<rparr>) = (Inr (), (src_at [])\<lparr>src_in := i\<rparr>)" for i
    by (simp add: source_poll_def src_at_def)
  then show ?thesis using b
    by (simp add: psrec_next_def reader_state_def psrec_next_item_def bindT_def thenT_def e le_value_8 returnT_def)
qed

fun psrec_read_all :: "nat \<Rightarrow> PsrecReader \<Rightarrow> (exn + Record option) list" where
  "psrec_read_all 0 p = []"
| "psrec_read_all (Suc n) p = (let (r, p) = psrec_next p in r # psrec_read_all n p)"

lemma psrec_read_all_blocks:
  "records_stored ss rs ps \<Longrightarrow> \<forall>r \<in> set rs. record_typed r \<Longrightarrow> n + length rs \<le> size_max - 1 \<Longrightarrow>
   psrec_read_all (Suc (length rs)) (reader_state ss n (blocks_text n ps)) =
     map (\<lambda>r. Inr (Some r)) rs @ [Inr None]"
proof (induction rs arbitrary: n ps)
  case Nil
  then show ?case using psrec_next_finish [of ss n] by (auto simp: records_stored_def Let_def)
next
  case (Cons r rs)
  then obtain p ps' schema where p: "ps = p # ps'" "record_payload r p" "length p \<le> maxBytes psrec_limits"
    "map_of ss (rec_schemaVersion r) = Some schema" "record_ok schema r" "records_stored ss rs ps'"
    by (auto simp: records_stored_def list_all2_Cons1)
  have "psrec_next (reader_state ss n (blocks_text n ps)) = (Inr (Some r), reader_state ss (Suc n) (blocks_text (Suc n) ps'))"
    unfolding p(1) blocks_text.simps
    using p Cons.prems by (intro psrec_next_record) auto
  then show ?case using Cons.IH [OF p(6), of "Suc n"] Cons.prems
    by (simp add: psrec_read_all.simps(2) [of "Suc (length rs)"] del: psrec_read_all.simps(2))
qed

section \<open>A file that was cut\<close>

lemma take_chars_split:
  "take m (xs @ ys) = take m xs \<and> m < length xs \<or> (length xs \<le> m \<and> take m (xs @ ys) = xs @ take (m - length xs) ys)"
  by (cases "m < length xs") auto

lemma psrec_next_cut:
  assumes "block_type_ok type" "length p \<le> maxBytes psrec_limits" "m < length (block_bytes type (n + 1) p)"
  shows "\<exists>e q. psrec_next (reader_state ss n (take m (chars (block_bytes type (n + 1) p)))) = (Inl e, q)"
  using readBlock_cut [OF assms]
  by (auto simp: psrec_next_def reader_state_def psrec_next_item_def bindT_def)

definition accepted_file :: "(exn + Record option) list \<Rightarrow> bool" where
  "accepted_file results \<longleftrightarrow> Inr None \<in> set results"

lemma psrec_next_failed: "psr_failed q \<Longrightarrow> psrec_next q = (Inl (LogicError ''psrec reader has failed''), q)"
  by (simp add: psrec_next_def)

lemma psrec_read_all_failed: "psr_failed q \<Longrightarrow> Inr None \<notin> set (psrec_read_all k q)"
  by (induction k) (simp_all add: psrec_next_failed)

lemma psrec_next_error_fails: "psrec_next q = (Inl e, q') \<Longrightarrow> psr_failed q'"
  by (auto simp: psrec_next_def split: if_splits prod.splits sum.splits option.splits)

lemma psrec_read_all_error:
  "psrec_next q = (Inl e, q') \<Longrightarrow> Inr None \<notin> set (psrec_read_all k q)"
  using psrec_read_all_failed [OF psrec_next_error_fails] by (cases k) auto

lemma psrec_read_all_cut:
  "records_stored ss rs ps \<Longrightarrow> \<forall>r \<in> set rs. record_typed r \<Longrightarrow> n + length rs \<le> size_max - 1 \<Longrightarrow>
   m < length (blocks_text n ps) \<Longrightarrow>
   Inr None \<notin> set (psrec_read_all k (reader_state ss n (take m (blocks_text n ps))))"
proof (induction rs arbitrary: n ps m k)
  case Nil
  let ?p = "le_bytes 8 (of_nat n :: u64)"
  have ps: "ps = []" using Nil.prems by (simp add: records_stored_def)
  have "length ?p \<le> maxBytes psrec_limits" by (simp add: psrec_limits_def)
  moreover have "m < length (block_bytes endBlock (n + 1) ?p)" using Nil.prems(4) ps by simp
  ultimately obtain e q where "psrec_next (reader_state ss n (take m (blocks_text n ps))) = (Inl e, q)"
    using psrec_next_cut [OF block_types_ok(3)] ps by (metis blocks_text.simps(1))
  then show ?case by (rule psrec_read_all_error)
next
  case (Cons r rs)
  then obtain p ps' schema where p: "ps = p # ps'" "record_payload r p" "length p \<le> maxBytes psrec_limits"
    "map_of ss (rec_schemaVersion r) = Some schema" "record_ok schema r" "records_stored ss rs ps'"
    by (auto simp: records_stored_def list_all2_Cons1)
  let ?b = "chars (block_bytes recordBlock (n + 1) p)"
  show ?case
  proof (cases "m < length ?b")
    case True
    then have "take m (blocks_text n ps) = take m ?b" by (simp add: p(1))
    moreover obtain e q where "psrec_next (reader_state ss n (take m ?b)) = (Inl e, q)"
      using psrec_next_cut [OF block_types_ok(2) p(3), of m n ss] True by auto
    ultimately show ?thesis using psrec_read_all_error by metis
  next
    case False
    let ?m = "m - length ?b"
    have t: "take m (blocks_text n ps) = ?b @ take ?m (blocks_text (Suc n) ps')"
      using False by (simp add: p(1))
    have nx: "psrec_next (reader_state ss n (?b @ take ?m (blocks_text (Suc n) ps'))) =
        (Inr (Some r), reader_state ss (Suc n) (take ?m (blocks_text (Suc n) ps')))"
      using p Cons.prems by (intro psrec_next_record) auto
    have "?m < length (blocks_text (Suc n) ps')" using Cons.prems(4) False by (simp add: p(1))
    then have "Inr None \<notin> set (psrec_read_all k (reader_state ss (Suc n) (take ?m (blocks_text (Suc n) ps'))))" for k
      using Cons.prems p(6) by (intro Cons.IH) auto
    with nx t show ?thesis by (cases k) (auto simp: Let_def)
  qed
qed

lemma new_PsrecReader_error:
  assumes "length meta \<le> maxBytes psrec_limits"
    and "m < length (chars psrec_header @ chars (block_bytes metadataBlock 0 meta))"
  shows "\<exists>e. new_PsrecReader (src_at (take m (chars psrec_header @ chars (block_bytes metadataBlock 0 meta) @ cs))) = Inl e"
proof (cases "m < length psrec_header")
  case True
  then have t: "take m (chars psrec_header @ chars (block_bytes metadataBlock 0 meta) @ cs) = take m (chars psrec_header)"
    by simp
  obtain e s where "psrec_read (length psrec_header) (src_at (take m (chars psrec_header))) = (Inl e, s)"
    using psrec_read_short [of "take m (chars psrec_header)" "length psrec_header"] True by auto
  then show ?thesis unfolding t by (simp add: new_PsrecReader_def bindT_def)
next
  case False
  let ?b = "take (m - length psrec_header) (chars (block_bytes metadataBlock 0 meta))"
  have t: "take m (chars psrec_header @ chars (block_bytes metadataBlock 0 meta) @ cs) = chars psrec_header @ ?b"
    using False assms(2) by simp
  have h: "psrec_read (length psrec_header) (src_at (chars psrec_header @ ?b)) = (Inr psrec_header, src_at ?b)"
    by (subst psrec_read_eq) simp_all
  have "m - length psrec_header < length (block_bytes metadataBlock 0 meta)" using False assms(2) by simp
  from readBlock_cut [OF block_types_ok(1) assms(1) this] show ?thesis
    unfolding t by (auto simp: new_PsrecReader_def bindT_def h)
qed

section \<open>A writer with enough room succeeds\<close>

definition roomy :: "nat \<Rightarrow> sink \<Rightarrow> bool" where
  "roomy n k \<longleftrightarrow> sink_stop k = None \<and> os_ok (sink_out k) \<and> os_flushes (sink_out k) \<and> n \<le> os_room (sink_out k)"

lemma roomy_wrote: "sink_wrote k cs k' \<Longrightarrow> roomy (length cs + n) k \<Longrightarrow> roomy n k'"
  by (auto simp: roomy_def sink_wrote_def stream_write_def)

lemma psrec_write_roomy:
  "roomy (length bs + n) k \<Longrightarrow> \<exists>k'. psrec_write bs k = (Inr (), k') \<and> roomy n k'"
proof -
  assume r: "roomy (length bs + n) k"
  let ?k' = "k\<lparr>sink_out := stream_write (chars bs) (sink_out k)\<rparr>"
  have w: "sink_wrote k (chars bs) ?k'" using r by (simp add: sink_wrote_def roomy_def)
  have n: "roomy n ?k'" using roomy_wrote [OF w] r by simp
  then have "psrec_write bs k = (Inr (), ?k')"
    using w r by (subst psrec_write_iff) (auto simp: roomy_def)
  with n show ?thesis by blast
qed

lemma writeBlock_roomy:
  assumes "roomy (length payload + 20 + n) k" "length payload \<le> maxBytes psrec_limits"
  shows "\<exists>k'. writeBlock type seq payload k = (Inr (), k') \<and> roomy n k'"
proof -
  let ?p = "block_prefix type (length payload) seq"
  let ?c = "le_bytes 4 (ucast (crc32Ieee (?p @ payload)))"
  have poll: "sink_poll (block_checksum ?p payload) k = (Inr (crc32Ieee (?p @ payload)), k)"
    using assms(1) by (intro sink_poll_never block_checksum_eq) (simp add: roomy_def)
  obtain k1 where k1: "psrec_write ?p k = (Inr (), k1)" "roomy (length payload + (4 + n)) k1"
    using psrec_write_roomy [of ?p "length payload + (4 + n)" k] assms(1) by (auto simp: algebra_simps)
  obtain k2 where k2: "psrec_write payload k1 = (Inr (), k2)" "roomy (4 + n) k2"
    using psrec_write_roomy [OF k1(2)] by blast
  obtain k3 where k3: "psrec_write ?c k2 = (Inr (), k3)" "roomy n k3"
    using psrec_write_roomy [of ?c n k2] k2(2) by auto
  show ?thesis using assms(2) poll k1(1) k2(1) k3 by (auto simp: writeBlock_def Let_def)
qed

end
