(* ===== verification/Query.thy ===== *)
theory Query
  imports Data_Codec
begin

text \<open>
  Field conditions on records, from \<open>data/query.hpp\<close> and \<open>data/query.cc\<close>: their validation, the
  order of values, the matching of a record and the structured form of a list of conditions.
\<close>

section \<open>Conditions\<close>

text \<open>The enumeration \<open>CompareOp\<close> by its underlying integer.\<close>

type_synonym CompareOp = int

definition op_Equal :: CompareOp where "op_Equal = 0"
definition op_NotEqual :: CompareOp where "op_NotEqual = 1"
definition op_Less :: CompareOp where "op_Less = 2"
definition op_LessEqual :: CompareOp where "op_LessEqual = 3"
definition op_Greater :: CompareOp where "op_Greater = 4"
definition op_GreaterEqual :: CompareOp where "op_GreaterEqual = 5"
definition op_Contains :: CompareOp where "op_Contains = 6"
definition op_IsNull :: CompareOp where "op_IsNull = 7"
definition op_NotNull :: CompareOp where "op_NotNull = 8"

lemmas op_defs = op_Equal_def op_NotEqual_def op_Less_def op_LessEqual_def op_Greater_def
  op_GreaterEqual_def op_Contains_def op_IsNull_def op_NotNull_def

record FieldCondition =
  cond_field :: string
  cond_op :: CompareOp
  cond_value :: Value

record FieldSort =
  sort_field :: string
  sort_descending :: bool

definition is_string :: "Value \<Rightarrow> bool" where
  "is_string v \<longleftrightarrow> value_index v = 4"

definition condition_limits :: ValueLimits where
  "condition_limits = \<lparr>maxBytes = 65536, maxDepth = 1, maxNodes = size_max\<rparr>"

definition validate_condition :: "FieldCondition \<Rightarrow> exn + unit" where
  "validate_condition c =
     (if cond_field c = [] \<or> 4096 < length (cond_field c) \<or> CHR 0x00 \<in> set (cond_field c) \<or>
         cond_op c < op_Equal \<or> op_NotNull < cond_op c \<or> 5 < value_index (cond_value c)
      then Inl (InvalidArgument ''invalid field condition'')
      else if (cond_op c = op_IsNull \<or> cond_op c = op_NotNull) \<noteq> (cond_value c = VNull)
      then Inl (InvalidArgument ''null tests require is_null/not_null without a value'')
      else if cond_op c = op_Contains \<and> \<not> is_string (cond_value c)
      then Inl (InvalidArgument ''contains requires a string'')
      else Inr ())"

fun validate_conditions_from :: "FieldCondition list \<Rightarrow> nat \<Rightarrow> exn + unit" where
  "validate_conditions_from [] used = Inr ()"
| "validate_conditions_from (c # cs) used =
     bindE (validate_condition c) (\<lambda>_.
       bindE (encodeValue (cond_value c) condition_limits) (\<lambda>encoded.
         let used = used + (length (cond_field c) + length encoded) in
         if 65536 < used then Inl (InvalidArgument ''query conditions exceed 64 KiB'')
         else validate_conditions_from cs used))"

definition validateConditions :: "FieldCondition list \<Rightarrow> exn + unit" where
  "validateConditions cs =
     (if 16 < length cs then Inl (InvalidArgument ''query exceeds 16 field conditions'')
      else validate_conditions_from cs 0)"

section \<open>Fields and the order of values\<close>

fun find_index :: "('a \<Rightarrow> bool) \<Rightarrow> 'a list \<Rightarrow> nat option" where
  "find_index p [] = None"
| "find_index p (x # xs) = (if p x then Some 0 else map_option Suc (find_index p xs))"

definition fieldValue :: "Record \<Rightarrow> Schema \<Rightarrow> string \<Rightarrow> Value option" where
  "fieldValue r s field =
     (case find_index (\<lambda>f. fld_name f = field) (sch_fields s) of
        None \<Rightarrow> None
      | Some i \<Rightarrow> if i < length (rec_values r) then Some (rec_values r ! i) else None)"

text \<open>The three-way result of \<open>a < b ? -1 : a > b ? 1 : 0\<close>.\<close>

definition three_way :: "bool \<Rightarrow> bool \<Rightarrow> int" where
  "three_way lt gt = (if lt then -1 else if gt then 1 else 0)"

definition compareValues :: "Value \<Rightarrow> Value \<Rightarrow> exn + int" where
  "compareValues left right =
     (if value_index left \<noteq> value_index right
      then Inr (if value_index left < value_index right then -1 else 1)
      else case (left, right) of
        (VInt a, VInt b) \<Rightarrow> Inr (three_way (a < b) (b < a))
      | (VDouble a, VDouble b) \<Rightarrow> Inr (three_way (f64_less a b) (f64_less b a))
      | (VBool a, VBool b) \<Rightarrow> Inr (three_way (a < b) (b < a))
      | (VString a, VString b) \<Rightarrow> Inr (three_way (a < b) (b < a))
      | (VBytes a, VBytes b) \<Rightarrow> Inr (three_way (a < b) (b < a))
      | (VNull, _) \<Rightarrow> Inr 0
      | _ \<Rightarrow> Inl (InvalidArgument ''query values must be scalars''))"

section \<open>Matching\<close>

fun string_contains :: "string \<Rightarrow> string \<Rightarrow> bool" where
  "string_contains hay needle \<longleftrightarrow>
     take (length needle) hay = needle \<or>
     (case hay of [] \<Rightarrow> False | _ # rest \<Rightarrow> string_contains rest needle)"

declare string_contains.simps [simp del]

fun string_value :: "Value \<Rightarrow> exn + string" where
  "string_value (VString s) = Inr s"
| "string_value _ = Inl BadVariantAccess"

definition order_rejects :: "CompareOp \<Rightarrow> int \<Rightarrow> bool" where
  "order_rejects op order \<longleftrightarrow>
     (op = op_Equal \<and> order \<noteq> 0) \<or> (op = op_NotEqual \<and> order = 0) \<or>
     (op = op_Less \<and> 0 \<le> order) \<or> (op = op_LessEqual \<and> 0 < order) \<or>
     (op = op_Greater \<and> order \<le> 0) \<or> (op = op_GreaterEqual \<and> order < 0)"

definition matches_condition :: "Value \<Rightarrow> FieldCondition \<Rightarrow> exn + bool" where
  "matches_condition v c =
     (if cond_op c = op_IsNull then Inr (v = VNull)
      else if cond_op c = op_NotNull then Inr (v \<noteq> VNull)
      else if value_index v \<noteq> value_index (cond_value c) then Inr False
      else if cond_op c = op_Contains then
        bindE (string_value v) (\<lambda>hay.
          bindE (string_value (cond_value c)) (\<lambda>needle. Inr (string_contains hay needle)))
      else
        bindE (compareValues v (cond_value c)) (\<lambda>order. Inr (\<not> order_rejects (cond_op c) order)))"

fun matches :: "Record \<Rightarrow> Schema \<Rightarrow> FieldCondition list \<Rightarrow> exn + bool" where
  "matches r s [] = Inr True"
| "matches r s (c # cs) =
     (case fieldValue r s (cond_field c) of
        None \<Rightarrow> Inr False
      | Some v \<Rightarrow>
          bindE (matches_condition v c) (\<lambda>ok. if ok then matches r s cs else Inr False))"

section \<open>Structured form\<close>

definition condition_value :: "FieldCondition \<Rightarrow> Value" where
  "condition_value c = VArray [VString (cond_field c), VInt (cond_op c), cond_value c]"

definition conditionsValue :: "FieldCondition list \<Rightarrow> exn + Value" where
  "conditionsValue cs =
     bindE (validateConditions cs) (\<lambda>_. Inr (VArray (map condition_value cs)))"

text \<open>\<open>std::get\<close> of a variant.\<close>

definition get_array :: "Value \<Rightarrow> exn + Value list" where
  "get_array v = (case v of VArray vs \<Rightarrow> Inr vs | _ \<Rightarrow> Inl BadVariantAccess)"

definition get_int :: "Value \<Rightarrow> exn + int" where
  "get_int v = (case v of VInt i \<Rightarrow> Inr i | _ \<Rightarrow> Inl BadVariantAccess)"

definition condition_from_value :: "Value \<Rightarrow> exn + FieldCondition" where
  "condition_from_value entry =
     bindE (get_array entry) (\<lambda>parts.
       if length parts \<noteq> 3 then Inl (InvalidArgument ''invalid encoded condition'')
       else
         bindE (get_int (parts ! 1)) (\<lambda>operation.
           if operation < 0 \<or> op_NotNull < operation
           then Inl (InvalidArgument ''invalid comparison operator'')
           else
             bindE (string_value (parts ! 0)) (\<lambda>field.
               Inr \<lparr>cond_field = field, cond_op = operation, cond_value = parts ! 2\<rparr>)))"

definition conditionsFromValue :: "Value \<Rightarrow> exn + FieldCondition list" where
  "conditionsFromValue v =
     bindE (get_array v) (\<lambda>entries.
       bindE (mapE condition_from_value entries) (\<lambda>cs.
         bindE (validateConditions cs) (\<lambda>_. Inr cs)))"

section \<open>The order is total on scalars\<close>

definition scalar :: "Value \<Rightarrow> bool" where
  "scalar v \<longleftrightarrow> value_index v \<le> 5 \<and> value_finite v"

text \<open>The order the three-way comparison computes, by tag and then by value.\<close>

fun same_tag_less :: "Value \<Rightarrow> Value \<Rightarrow> bool" where
  "same_tag_less (VInt a) (VInt b) \<longleftrightarrow> a < b"
| "same_tag_less (VDouble a) (VDouble b) \<longleftrightarrow> f64_less a b"
| "same_tag_less (VBool a) (VBool b) \<longleftrightarrow> a < b"
| "same_tag_less (VString a) (VString b) \<longleftrightarrow> a < b"
| "same_tag_less (VBytes a) (VBytes b) \<longleftrightarrow> a < b"
| "same_tag_less _ _ \<longleftrightarrow> False"

definition value_less :: "Value \<Rightarrow> Value \<Rightarrow> bool" where
  "value_less a b \<longleftrightarrow>
     value_index a < value_index b \<or> (value_index a = value_index b \<and> same_tag_less a b)"

lemma same_tag_less_irrefl: "\<not> same_tag_less a a"
  by (cases a) (simp_all add: f64_less_irrefl)

lemma same_tag_less_trans: "same_tag_less a b \<Longrightarrow> same_tag_less b c \<Longrightarrow> same_tag_less a c"
proof (induction a b rule: same_tag_less.induct)
  case (1 a b) then show ?case by (cases c) simp_all
next
  case (2 a b) then show ?case by (cases c) (auto intro: f64_less_trans)
next
  case (3 a b) then show ?case by (cases c) simp_all
next
  case (4 a b) then show ?case by (cases c) auto
next
  case (5 a b) then show ?case by (cases c) auto
qed simp_all

text \<open>The complement is transitive as well: finite doubles are totally preordered.\<close>

lemma f64_not_less_trans:
  "f64_isfinite a \<Longrightarrow> f64_isfinite b \<Longrightarrow> f64_isfinite c \<Longrightarrow>
     \<not> f64_less a b \<Longrightarrow> \<not> f64_less b c \<Longrightarrow> \<not> f64_less a c"
  by (simp add: f64_less_def f64_isfinite_not_nan)

lemma same_tag_not_less_trans:
  assumes "value_index a = value_index b" "value_index b = value_index c"
    "value_finite a" "value_finite b" "value_finite c"
    "\<not> same_tag_less a b" "\<not> same_tag_less b c"
  shows "\<not> same_tag_less a c"
proof (cases a)
  case (VInt i) with assms show ?thesis by (cases b; cases c) simp_all
next
  case (VDouble x)
  with assms(1,2) obtain y z where "b = VDouble y" "c = VDouble z"
    by (cases b; cases c) simp_all
  with assms VDouble f64_not_less_trans [of x y z] show ?thesis by simp
next
  case (VBool i) with assms show ?thesis by (cases b; cases c) auto
next
  case (VString i) with assms show ?thesis by (cases b; cases c) auto
next
  case (VBytes i) with assms show ?thesis by (cases b; cases c) auto
qed simp_all

lemma value_less_irrefl: "\<not> value_less a a"
  by (simp add: value_less_def same_tag_less_irrefl)

lemma value_less_trans: "value_less a b \<Longrightarrow> value_less b c \<Longrightarrow> value_less a c"
  by (auto simp: value_less_def intro: same_tag_less_trans)

lemma value_not_less_trans:
  "scalar a \<Longrightarrow> scalar b \<Longrightarrow> scalar c \<Longrightarrow> \<not> value_less a b \<Longrightarrow> \<not> value_less b c \<Longrightarrow> \<not> value_less a c"
  using same_tag_not_less_trans [of a b c] by (fastforce simp: value_less_def scalar_def)

lemma three_way_simps [simp]:
  "three_way l g = -1 \<longleftrightarrow> l" "three_way l g = 0 \<longleftrightarrow> \<not> l \<and> \<not> g" "three_way l g = 1 \<longleftrightarrow> \<not> l \<and> g"
  "three_way l g < 0 \<longleftrightarrow> l" "0 \<le> three_way l g \<longleftrightarrow> \<not> l"
  "0 < three_way l g \<longleftrightarrow> \<not> l \<and> g" "three_way l g \<le> 0 \<longleftrightarrow> l \<or> \<not> g"
  by (simp_all add: three_way_def)

lemma compareValues_eq:
  "scalar a \<Longrightarrow> scalar b \<Longrightarrow> compareValues a b = Inr (three_way (value_less a b) (value_less b a))"
proof (cases "value_index a = value_index b")
  case True
  assume "scalar a" "scalar b"
  with True show ?thesis
    by (cases a; cases b) (simp_all add: compareValues_def value_less_def scalar_def three_way_def)
next
  case False
  then show ?thesis by (auto simp: compareValues_def value_less_def three_way_def)
qed


section \<open>What matching means\<close>

lemma string_contains_iff: "string_contains hay needle \<longleftrightarrow> (\<exists>a b. hay = a @ needle @ b)"
proof (induction hay)
  case Nil
  then show ?case by (auto simp: string_contains.simps)
next
  case (Cons x hay)
  have here: "take (length needle) (x # hay) = needle \<longleftrightarrow> (\<exists>b. x # hay = needle @ b)"
    by (metis append_eq_conv_conj append_take_drop_id)
  have "(\<exists>a b. x # hay = a @ needle @ b) \<longleftrightarrow>
      (\<exists>b. x # hay = needle @ b) \<or> (\<exists>a b. hay = a @ needle @ b)" (is "?l \<longleftrightarrow> ?r")
  proof
    assume ?l
    then obtain a b where "x # hay = a @ needle @ b" by blast
    then show ?r by (cases a) auto
  next
    assume ?r
    then show ?l by (metis append_Cons append_Nil)
  qed
  then show ?case
    unfolding string_contains.simps [of "x # hay"] here by (simp add: Cons)
qed

definition condition_holds :: "Value \<Rightarrow> FieldCondition \<Rightarrow> bool" where
  "condition_holds v c \<longleftrightarrow>
     (let op = cond_op c; w = cond_value c in
      if op = op_IsNull then v = VNull
      else if op = op_NotNull then v \<noteq> VNull
      else value_index v = value_index w \<and>
        (if op = op_Contains then \<exists>a s b. w = VString s \<and> v = VString (a @ s @ b)
         else if op = op_Equal then \<not> value_less v w \<and> \<not> value_less w v
         else if op = op_NotEqual then value_less v w \<or> value_less w v
         else if op = op_Less then value_less v w
         else if op = op_LessEqual then \<not> value_less w v
         else if op = op_Greater then value_less w v
         else \<not> value_less v w))"

definition condition_ok :: "FieldCondition \<Rightarrow> bool" where
  "condition_ok c \<longleftrightarrow> validate_condition c = Inr () \<and> value_finite (cond_value c)"

lemma condition_okD:
  "condition_ok c \<Longrightarrow> 0 \<le> cond_op c \<and> cond_op c \<le> 8 \<and> scalar (cond_value c) \<and>
     (cond_op c = op_Contains \<longrightarrow> (\<exists>s. cond_value c = VString s))"
  by (cases "cond_value c")
    (auto simp: condition_ok_def validate_condition_def op_defs scalar_def is_string_def split: if_splits)

lemma validate_conditions_from_ok:
  "validate_conditions_from cs n = Inr u \<Longrightarrow> \<forall>c \<in> set cs. condition_ok c"
  by (induction cs arbitrary: n)
    (auto simp: condition_ok_def encodeValue_iff Let_def split: if_splits)

lemma validateConditions_ok: "validateConditions cs = Inr u \<Longrightarrow> \<forall>c \<in> set cs. condition_ok c"
  by (auto simp: validateConditions_def split: if_splits dest: validate_conditions_from_ok)

lemma compareOp_cases:
  assumes "0 \<le> n" "n \<le> (8 :: int)"
  obtains "n = 0" | "n = 1" | "n = 2" | "n = 3" | "n = 4" | "n = 5" | "n = 6" | "n = 7" | "n = 8"
  using assms by linarith

lemma value_less_asym: "value_less a b \<Longrightarrow> \<not> value_less b a"
  using value_less_trans value_less_irrefl by blast

lemma matches_condition_eq:
  assumes "condition_ok c" "scalar v"
  shows "matches_condition v c = Inr (condition_holds v c)"
proof -
  note c = condition_okD [OF assms(1)]
  have cmp: "compareValues v (cond_value c) =
      Inr (three_way (value_less v (cond_value c)) (value_less (cond_value c) v))"
    using compareValues_eq assms(2) c by blast
  show ?thesis
  proof (cases "cond_op c = op_Contains \<and> value_index v = value_index (cond_value c)")
    case True
    then obtain s where s: "cond_value c = VString s" using c by blast
    then obtain h where "v = VString h" using True by (cases v) auto
    with s True show ?thesis
      by (auto simp: matches_condition_def condition_holds_def string_contains_iff op_defs)
  next
    case False
    have range: "0 \<le> cond_op c" "cond_op c \<le> 8" using c by auto
    show ?thesis
      using range False
      by (cases rule: compareOp_cases)
        (auto simp: matches_condition_def condition_holds_def cmp order_rejects_def op_defs
          dest: value_less_asym)
  qed
qed

lemma matches_eq:
  assumes "\<forall>c \<in> set cs. condition_ok c" "\<forall>v \<in> set (rec_values r). scalar v"
  shows "matches r s cs =
     Inr (\<forall>c \<in> set cs. \<exists>v. fieldValue r s (cond_field c) = Some v \<and> condition_holds v c)"
  using assms
proof (induction cs)
  case (Cons c cs)
  then show ?case
  proof (cases "fieldValue r s (cond_field c)")
    case (Some v)
    then have "v \<in> set (rec_values r)"
      by (auto simp: fieldValue_def split: option.splits if_splits)
    then have "matches_condition v c = Inr (condition_holds v c)"
      using Cons.prems by (intro matches_condition_eq) auto
    with Some Cons show ?thesis by simp
  qed simp
qed simp

section \<open>The structured form is faithful\<close>

lemma get_Inr_iff [simp]:
  "get_array v = Inr vs \<longleftrightarrow> v = VArray vs" "get_int v = Inr i \<longleftrightarrow> v = VInt i"
  "string_value v = Inr s \<longleftrightarrow> v = VString s"
  by (cases v; auto simp: get_array_def get_int_def)+

lemma condition_from_value_iff:
  "condition_from_value v = Inr c \<longleftrightarrow> v = condition_value c \<and> 0 \<le> cond_op c \<and> cond_op c \<le> 8"
proof
  assume "condition_from_value v = Inr c"
  then show "v = condition_value c \<and> 0 \<le> cond_op c \<and> cond_op c \<le> 8"
    by (auto simp: condition_from_value_def condition_value_def length_eq_numeral op_defs
        split: if_splits)
next
  assume *: "v = condition_value c \<and> 0 \<le> cond_op c \<and> cond_op c \<le> 8"
  then have "get_array v = Inr [VString (cond_field c), VInt (cond_op c), cond_value c]"
    by (simp add: condition_value_def)
  moreover have "get_int (VInt (cond_op c)) = Inr (cond_op c)" by simp
  ultimately show "condition_from_value v = Inr c"
    using * by (simp add: condition_from_value_def op_defs del: get_Inr_iff)
qed

lemma conditions_from_values_iff:
  "mapE condition_from_value vs = Inr cs \<longleftrightarrow>
     vs = map condition_value cs \<and> (\<forall>c \<in> set cs. 0 \<le> cond_op c \<and> cond_op c \<le> 8)"
proof (induction cs arbitrary: vs)
  case (Cons c cs)
  then show ?case by (cases vs) (auto simp: condition_from_value_iff)
next
  case Nil
  then show ?case by (cases vs) auto
qed

lemma conditionsFromValue_iff: "conditionsFromValue v = Inr cs \<longleftrightarrow> conditionsValue cs = Inr v"
proof
  assume "conditionsFromValue v = Inr cs"
  then show "conditionsValue cs = Inr v"
    by (auto simp: conditionsFromValue_def conditionsValue_def conditions_from_values_iff)
next
  assume "conditionsValue cs = Inr v"
  then have v: "validateConditions cs = Inr ()" "v = VArray (map condition_value cs)"
    by (auto simp: conditionsValue_def)
  have "mapE condition_from_value (map condition_value cs) = Inr cs"
    using validateConditions_ok [OF v(1)] by (auto simp: conditions_from_values_iff dest: condition_okD)
  moreover have "get_array v = Inr (map condition_value cs)" using v(2) by simp
  ultimately show "conditionsFromValue v = Inr cs"
    using v(1) by (simp add: conditionsFromValue_def del: get_Inr_iff)
qed

end
