(* ===== verification/Live_Table.thy ===== *)
theory Live_Table
  imports Query "HOL-Library.Multiset"
begin

text \<open>
  The bounded live table of \<open>data/table.hpp\<close> and \<open>data/table.cc\<close>: rows are appended, the oldest
  ones are evicted to respect the row and byte limits, and a page is a filtered, sorted slice.
  The sizes of the C++ types (\<open>abi\<close>) and the capacities of a record's strings and vectors
  (\<open>capacities\<close>) are parameters; shared pointers to immutable rows are the rows themselves.
\<close>

section \<open>State\<close>

record TableRow =
  row_id :: u64
  row_record :: Record
  row_schema :: Schema

record TablePage =
  page_rows :: "TableRow list"
  page_offset :: nat
  page_limit :: nat
  page_more :: bool
  page_loading :: bool
  page_snapshot :: "int option"
  page_revision :: u64
  page_error :: string

record TableView =
  view_device :: "string option"
  view_fromUs :: "int option"
  view_toUs :: "int option"
  view_conditions :: "FieldCondition list"
  view_sort :: "FieldSort option"
  view_offset :: nat
  view_limit :: nat

record Entry =
  ent_row :: TableRow
  ent_bytes :: nat

record LiveTable =
  tbl_schema :: Schema
  tbl_rows :: "Entry list"
  tbl_maxRows :: nat
  tbl_maxBytes :: nat
  tbl_bytes :: nat
  tbl_nextId :: u64
  tbl_revision :: u64
  tbl_error :: string

record abi =
  sizeof_Record :: nat
  sizeof_Value :: nat
  sizeof_TableRow :: nat

record capacities =
  cap_protocol :: nat
  cap_dataset :: nat
  cap_device :: nat
  cap_values :: nat
  cap_field :: "nat \<Rightarrow> nat"

section \<open>Memory accounting\<close>

fun add_field_bytes :: "(nat \<Rightarrow> nat) \<Rightarrow> nat \<Rightarrow> Value list \<Rightarrow> nat \<Rightarrow> exn + nat" where
  "add_field_bytes cap i [] n = Inr n"
| "add_field_bytes cap i (v # vs) n =
     (if value_index v = 4 \<or> value_index v = 5 then add_field_bytes cap (Suc i) vs (n + cap i)
      else if 5 < value_index v then Inl (InvalidArgument ''table record requires scalar fields'')
      else add_field_bytes cap (Suc i) vs n)"

definition recordMemoryBytes :: "abi \<Rightarrow> capacities \<Rightarrow> Record \<Rightarrow> exn + nat" where
  "recordMemoryBytes A k r =
     add_field_bytes (cap_field k) 0 (rec_values r)
       (sizeof_Record A + cap_protocol k + cap_dataset k + cap_device k +
        cap_values k * sizeof_Value A + sizeof_TableRow A + 64)"

section \<open>Views\<close>

definition validateTableView :: "TableView \<Rightarrow> exn + unit" where
  "validateTableView view =
     bindE (validateConditions (view_conditions view)) (\<lambda>_.
       rejectE (view_limit view < 1 \<or> 1000 < view_limit view \<or>
           int64_max < int (view_offset view) \<or>
           (case (view_fromUs view, view_toUs view) of
              (Some from, Some to) \<Rightarrow> to < from | _ \<Rightarrow> False) \<or>
           (case view_device view of Some d \<Rightarrow> 4096 < length d | None \<Rightarrow> False) \<or>
           (case view_sort view of
              Some s \<Rightarrow> sort_field s = [] \<or> 4096 < length (sort_field s) \<or> CHR 0x00 \<in> set (sort_field s)
            | None \<Rightarrow> False))
         (InvalidArgument ''invalid table view''))"

section \<open>Operations\<close>

definition new_LiveTable :: "Schema \<Rightarrow> nat \<Rightarrow> nat \<Rightarrow> exn + LiveTable" where
  "new_LiveTable schema max_rows max_bytes =
     bindE (validateSchema schema) (\<lambda>_.
       if max_rows < 1 \<or> 1000 < max_rows \<or> max_bytes < 1 \<or> 16 * 1024 * 1024 < max_bytes
       then Inl (InvalidArgument ''invalid live table limits'')
       else Inr \<lparr>tbl_schema = schema, tbl_rows = [], tbl_maxRows = max_rows, tbl_maxBytes = max_bytes,
              tbl_bytes = 0, tbl_nextId = 1, tbl_revision = 0, tbl_error = ''''\<rparr>)"

text \<open>The loop that removes the oldest rows until a row of \<open>n\<close> bytes fits.\<close>

fun evict :: "nat \<Rightarrow> nat \<Rightarrow> nat \<Rightarrow> Entry list \<Rightarrow> nat \<Rightarrow> Entry list \<times> nat" where
  "evict max_rows max_bytes n [] used = ([], used)"
| "evict max_rows max_bytes n (e # es) used =
     (if max_rows \<le> length (e # es) \<or> max_bytes - used < n
      then evict max_rows max_bytes n es (used - ent_bytes e)
      else (e # es, used))"

definition table_append :: "abi \<Rightarrow> capacities \<Rightarrow> Record \<Rightarrow> LiveTable \<Rightarrow> exn + (bool \<times> LiveTable)" where
  "table_append A k r t =
     bindE (validateRecord (tbl_schema t) r) (\<lambda>_.
       bindE (recordMemoryBytes A k r) (\<lambda>n.
         let t = t\<lparr>tbl_revision := tbl_revision t + 1\<rparr> in
         if tbl_maxBytes t < n
         then Inr (False, t\<lparr>tbl_error := ''record exceeds live table memory limit''\<rparr>)
         else
           let (rows, used) = evict (tbl_maxRows t) (tbl_maxBytes t) n (tbl_rows t) (tbl_bytes t);
               row = \<lparr>row_id = tbl_nextId t, row_record = r, row_schema = tbl_schema t\<rparr> in
           Inr (True, t\<lparr>tbl_rows := rows @ [\<lparr>ent_row = row, ent_bytes = n\<rparr>],
                        tbl_nextId := tbl_nextId t + 1, tbl_bytes := used + n, tbl_error := ''''\<rparr>)))"

definition table_size :: "LiveTable \<Rightarrow> nat" where
  "table_size t = length (tbl_rows t)"

definition memoryBytes :: "LiveTable \<Rightarrow> nat" where
  "memoryBytes t = tbl_bytes t"

section \<open>Pages\<close>

definition row_selected :: "LiveTable \<Rightarrow> TableView \<Rightarrow> Entry \<Rightarrow> exn + bool" where
  "row_selected t view e =
     (let r = row_record (ent_row e) in
      if (case view_device view of Some d \<Rightarrow> d \<noteq> rec_device r | None \<Rightarrow> False) \<or>
         (case view_fromUs view of Some from \<Rightarrow> rec_receivedAtUs r < from | None \<Rightarrow> False) \<or>
         (case view_toUs view of Some to \<Rightarrow> to < rec_receivedAtUs r | None \<Rightarrow> False)
      then Inr False
      else matches r (tbl_schema t) (view_conditions view))"

fun select_rows :: "LiveTable \<Rightarrow> TableView \<Rightarrow> Entry list \<Rightarrow> exn + TableRow list" where
  "select_rows t view [] = Inr []"
| "select_rows t view (e # es) =
     bindE (row_selected t view e) (\<lambda>ok.
       bindE (select_rows t view es) (\<lambda>rows. Inr (if ok then ent_row e # rows else rows)))"

definition sort_order :: "TableView \<Rightarrow> TableRow \<Rightarrow> TableRow \<Rightarrow> exn + int" where
  "sort_order view a b =
     (case view_sort view of
        None \<Rightarrow> Inr 0
      | Some s \<Rightarrow>
          (case (fieldValue (row_record a) (row_schema a) (sort_field s),
                 fieldValue (row_record b) (row_schema b) (sort_field s)) of
             (None, None) \<Rightarrow> Inr 0
           | (None, Some _) \<Rightarrow> Inr (-1)
           | (Some _, None) \<Rightarrow> Inr 1
           | (Some left, Some right) \<Rightarrow> compareValues left right))"

definition sort_descends :: "TableView \<Rightarrow> bool" where
  "sort_descends view = (case view_sort view of Some s \<Rightarrow> sort_descending s | None \<Rightarrow> False)"

text \<open>The comparator given to \<open>std::sort\<close>.\<close>

definition row_before :: "TableView \<Rightarrow> TableRow \<Rightarrow> TableRow \<Rightarrow> exn + bool" where
  "row_before view a b =
     bindE (sort_order view a b) (\<lambda>order.
       Inr (if order \<noteq> 0 then (if sort_descends view then 0 < order else order < 0)
            else if rec_receivedAtUs (row_record a) \<noteq> rec_receivedAtUs (row_record b)
            then rec_receivedAtUs (row_record a) < rec_receivedAtUs (row_record b)
            else row_id a < row_id b))"

text \<open>
  \<open>std::sort\<close>, as an insertion sort with a comparator that may throw. Its result is only
  specified up to the order of equivalent elements; on the rows of a table the comparator is a
  strict total order, so the sorted list is unique.
\<close>

fun insert_sorted :: "('a \<Rightarrow> 'a \<Rightarrow> 'e + bool) \<Rightarrow> 'a \<Rightarrow> 'a list \<Rightarrow> 'e + 'a list" where
  "insert_sorted before x [] = Inr [x]"
| "insert_sorted before x (y # ys) =
     bindE (before y x) (\<lambda>lt.
       if lt then bindE (insert_sorted before x ys) (\<lambda>zs. Inr (y # zs)) else Inr (x # y # ys))"

fun std_sort :: "('a \<Rightarrow> 'a \<Rightarrow> 'e + bool) \<Rightarrow> 'a list \<Rightarrow> 'e + 'a list" where
  "std_sort before [] = Inr []"
| "std_sort before (x # xs) = bindE (std_sort before xs) (insert_sorted before x)"

definition table_page :: "LiveTable \<Rightarrow> TableView \<Rightarrow> exn + TablePage" where
  "table_page t view =
     bindE (validateTableView view) (\<lambda>_.
       bindE (select_rows t view (tbl_rows t)) (\<lambda>selected.
         bindE (std_sort (row_before view) selected) (\<lambda>sorted.
           let first = min (view_offset view) (length sorted);
               last = first + min (view_limit view) (length sorted - first) in
           Inr \<lparr>page_rows = drop first (take last sorted), page_offset = view_offset view,
                page_limit = view_limit view, page_more = last < length sorted,
                page_loading = False, page_snapshot = None,
                page_revision = tbl_revision t, page_error = tbl_error t\<rparr>)))"

section \<open>The invariant of a table\<close>

definition entries_bytes :: "Entry list \<Rightarrow> nat" where
  "entries_bytes es = sum_list (map ent_bytes es)"

definition row_ids :: "LiveTable \<Rightarrow> u64 list" where
  "row_ids t = map (row_id \<circ> ent_row) (tbl_rows t)"

text \<open>The ids are the last ones handed out, in order, modulo \<open>2 ^ 64\<close>.\<close>

definition table_inv :: "LiveTable \<Rightarrow> bool" where
  "table_inv t \<longleftrightarrow>
     schema_ok (tbl_schema t) \<and>
     1 \<le> tbl_maxRows t \<and> tbl_maxRows t \<le> 1000 \<and> 1 \<le> tbl_maxBytes t \<and> tbl_maxBytes t \<le> 16 * 1024 * 1024 \<and>
     length (tbl_rows t) \<le> tbl_maxRows t \<and>
     tbl_bytes t = entries_bytes (tbl_rows t) \<and> tbl_bytes t \<le> tbl_maxBytes t \<and>
     row_ids t = map (\<lambda>i. tbl_nextId t - of_nat (length (tbl_rows t) - i)) [0..<length (tbl_rows t)] \<and>
     (\<forall>e \<in> set (tbl_rows t). row_schema (ent_row e) = tbl_schema t \<and>
        record_ok (tbl_schema t) (row_record (ent_row e)))"

lemma new_LiveTable_inv: "new_LiveTable s m b = Inr t \<Longrightarrow> table_inv t"
  by (auto simp: new_LiveTable_def table_inv_def validateSchema_iff entries_bytes_def row_ids_def
      split: if_splits)

text \<open>The abstract table: the longest suffix of what was appended that is within both limits.\<close>

definition fits :: "('a \<Rightarrow> nat) \<Rightarrow> nat \<Rightarrow> nat \<Rightarrow> 'a list \<Rightarrow> bool" where
  "fits cost max_rows max_bytes xs \<longleftrightarrow> length xs \<le> max_rows \<and> sum_list (map cost xs) \<le> max_bytes"

fun longest_suffix :: "('a \<Rightarrow> nat) \<Rightarrow> nat \<Rightarrow> nat \<Rightarrow> 'a list \<Rightarrow> 'a list" where
  "longest_suffix cost max_rows max_bytes [] = []"
| "longest_suffix cost max_rows max_bytes (x # xs) =
     (if fits cost max_rows max_bytes (x # xs) then x # xs else longest_suffix cost max_rows max_bytes xs)"

lemma longest_suffix_fits: "fits cost max_rows max_bytes (longest_suffix cost max_rows max_bytes xs)"
  by (induction xs) (auto simp: fits_def)

lemma longest_suffix_id:
  "fits cost max_rows max_bytes xs \<Longrightarrow> longest_suffix cost max_rows max_bytes xs = xs"
  by (cases xs) auto

lemma longest_suffix_drop: "\<exists>k \<le> length xs. longest_suffix cost max_rows max_bytes xs = drop k xs"
proof (induction xs)
  case (Cons x xs)
  then obtain k where "k \<le> length xs" "longest_suffix cost max_rows max_bytes xs = drop k xs" by blast
  then show ?case by (auto intro: exI [of _ 0] exI [of _ "Suc k"])
qed simp

lemma longest_suffix_snoc:
  "longest_suffix cost max_rows max_bytes (longest_suffix cost max_rows max_bytes xs @ [x]) =
   longest_suffix cost max_rows max_bytes (xs @ [x])"
proof (induction xs)
  case (Cons y xs)
  then show ?case
    by (cases "fits cost max_rows max_bytes (y # xs)") (auto simp: fits_def)
qed simp

lemma longest_suffix_map:
  "longest_suffix cost max_rows max_bytes (map f xs) =
   map f (longest_suffix (cost \<circ> f) max_rows max_bytes xs)"
  by (induction xs) (simp_all add: fits_def comp_def)

lemma entries_bytes_simps [simp]:
  "entries_bytes [] = 0" "entries_bytes (e # es) = ent_bytes e + entries_bytes es"
  "entries_bytes (es @ es') = entries_bytes es + entries_bytes es'"
  by (simp_all add: entries_bytes_def)

lemma fits_entries:
  "fits ent_bytes max_rows max_bytes es \<longleftrightarrow> length es \<le> max_rows \<and> entries_bytes es \<le> max_bytes"
  by (simp add: fits_def entries_bytes_def)

lemma evict_eq:
  assumes "1 \<le> max_rows" "ent_bytes x \<le> max_bytes" "entries_bytes es \<le> max_bytes"
    and "evict max_rows max_bytes (ent_bytes x) es (entries_bytes es) = (rows, used)"
  shows "rows @ [x] = longest_suffix ent_bytes max_rows max_bytes (es @ [x]) \<and> used = entries_bytes rows"
  using assms
proof (induction es)
  case (Cons e es)
  show ?case
  proof (cases "max_rows \<le> length (e # es) \<or> max_bytes - entries_bytes (e # es) < ent_bytes x")
    case True
    then have "\<not> fits ent_bytes max_rows max_bytes ((e # es) @ [x])"
      using Cons.prems by (auto simp: fits_entries)
    with True Cons show ?thesis by simp
  next
    case False
    then have "fits ent_bytes max_rows max_bytes ((e # es) @ [x])"
      using Cons.prems by (auto simp: fits_entries)
    with False Cons.prems show ?thesis by auto
  qed
qed (auto simp: fits_entries)

section \<open>Appending\<close>

lemma value_matches_index: "value_matches f v \<Longrightarrow> fld_type f \<le> 5 \<Longrightarrow> value_index v \<le> 5"
  by (auto simp: value_matches_def word_le_nat_alt split: if_splits)

lemma record_ok_scalar:
  assumes "record_ok s r" "v \<in> set (rec_values r)"
  shows "scalar v"
proof -
  have l: "list_all2 value_matches (sch_fields s) (rec_values r)" "schema_ok s"
    using assms(1) by (simp_all add: record_ok_def)
  obtain i where i: "i < length (rec_values r)" "v = rec_values r ! i"
    using assms(2) by (auto simp: in_set_conv_nth)
  then have m: "value_matches (sch_fields s ! i) v" "sch_fields s ! i \<in> set (sch_fields s)"
    using l(1) by (auto simp: list_all2_conv_all_nth)
  then have "fld_type (sch_fields s ! i) \<le> 5" using l(2) by (simp add: schema_ok_def)
  with m value_matches_index [of "sch_fields s ! i" v] i show ?thesis
    by (simp add: scalar_def value_matches_def)
qed

lemma add_field_bytes_scalar:
  "\<forall>v \<in> set vs. value_index v \<le> 5 \<Longrightarrow> \<exists>m. add_field_bytes cap i vs n = Inr m"
  by (induction vs arbitrary: i n) auto

definition record_cost :: "abi \<Rightarrow> capacities \<Rightarrow> Record \<Rightarrow> nat" where
  "record_cost A k r = (case recordMemoryBytes A k r of Inr n \<Rightarrow> n | Inl _ \<Rightarrow> 0)"

lemma recordMemoryBytes_ok:
  assumes "record_ok s r"
  shows "recordMemoryBytes A k r = Inr (record_cost A k r)"
proof -
  have "\<forall>v \<in> set (rec_values r). value_index v \<le> 5"
    using record_ok_scalar [OF assms] by (simp add: scalar_def)
  then obtain n where "recordMemoryBytes A k r = Inr n"
    unfolding recordMemoryBytes_def using add_field_bytes_scalar by blast
  then show ?thesis by (simp add: record_cost_def)
qed

definition new_entry :: "abi \<Rightarrow> capacities \<Rightarrow> Record \<Rightarrow> LiveTable \<Rightarrow> Entry" where
  "new_entry A k r t =
     \<lparr>ent_row = \<lparr>row_id = tbl_nextId t, row_record = r, row_schema = tbl_schema t\<rparr>,
      ent_bytes = record_cost A k r\<rparr>"

lemma table_append_rejected:
  "\<not> record_ok (tbl_schema t) r \<Longrightarrow> \<exists>e. table_append A k r t = Inl e"
  using validateRecord_iff [of "tbl_schema t" r]
  by (cases "validateRecord (tbl_schema t) r") (auto simp: table_append_def)

lemma table_append_too_large:
  "record_ok (tbl_schema t) r \<Longrightarrow> tbl_maxBytes t < record_cost A k r \<Longrightarrow>
   table_append A k r t =
     Inr (False, t\<lparr>tbl_revision := tbl_revision t + 1,
                   tbl_error := ''record exceeds live table memory limit''\<rparr>)"
  using validateRecord_iff [of "tbl_schema t" r]
  by (simp add: table_append_def recordMemoryBytes_ok Let_def)

definition rows_after :: "abi \<Rightarrow> capacities \<Rightarrow> Record \<Rightarrow> LiveTable \<Rightarrow> Entry list" where
  "rows_after A k r t =
     longest_suffix ent_bytes (tbl_maxRows t) (tbl_maxBytes t) (tbl_rows t @ [new_entry A k r t])"

lemma table_append_stored:
  assumes "table_inv t" "record_ok (tbl_schema t) r" "record_cost A k r \<le> tbl_maxBytes t"
  shows "table_append A k r t =
     Inr (True, t\<lparr>tbl_revision := tbl_revision t + 1, tbl_rows := rows_after A k r t,
                  tbl_nextId := tbl_nextId t + 1, tbl_bytes := entries_bytes (rows_after A k r t),
                  tbl_error := []\<rparr>)"
proof -
  have v: "validateRecord (tbl_schema t) r = Inr ()" using assms by (simp add: validateRecord_iff)
  have m: "recordMemoryBytes A k r = Inr (record_cost A k r)"
    using assms by (intro recordMemoryBytes_ok) simp
  obtain rows used where e: "evict (tbl_maxRows t) (tbl_maxBytes t) (record_cost A k r)
      (tbl_rows t) (tbl_bytes t) = (rows, used)" by (meson surj_pair)
  have r: "rows_after A k r t = rows @ [new_entry A k r t]" "used = entries_bytes rows"
    using evict_eq [of "tbl_maxRows t" "new_entry A k r t" "tbl_maxBytes t" "tbl_rows t" rows used]
      assms e by (simp_all add: table_inv_def new_entry_def rows_after_def)
  have "used + record_cost A k r = entries_bytes (rows_after A k r t)"
    using r by (simp add: new_entry_def)
  with r(1) assms v m e show ?thesis by (simp add: table_append_def Let_def new_entry_def)
qed

lemma rows_after_split:
  assumes "table_inv t" "record_cost A k r \<le> tbl_maxBytes t"
  obtains n where "n \<le> length (tbl_rows t)" "rows_after A k r t = drop n (tbl_rows t) @ [new_entry A k r t]"
proof -
  obtain rows used where e: "evict (tbl_maxRows t) (tbl_maxBytes t) (record_cost A k r)
      (tbl_rows t) (tbl_bytes t) = (rows, used)" by (meson surj_pair)
  have r: "rows_after A k r t = rows @ [new_entry A k r t]"
    using evict_eq [of "tbl_maxRows t" "new_entry A k r t" "tbl_maxBytes t" "tbl_rows t" rows used]
      assms e by (simp_all add: table_inv_def new_entry_def rows_after_def)
  obtain n where n: "n \<le> Suc (length (tbl_rows t))" "rows_after A k r t = drop n (tbl_rows t @ [new_entry A k r t])"
    using longest_suffix_drop [of "tbl_rows t @ [new_entry A k r t]" ent_bytes "tbl_maxRows t" "tbl_maxBytes t"]
    by (auto simp: rows_after_def)
  with r have "n \<le> length (tbl_rows t)" by (cases "n \<le> length (tbl_rows t)") auto
  with n that show ?thesis by simp
qed

lemma table_append_inv:
  assumes "table_inv t" "table_append A k r t = Inr (ok, t')"
  shows "table_inv t'"
proof -
  have rec: "record_ok (tbl_schema t) r" using table_append_rejected [of t r A k] assms(2) by auto
  show ?thesis
  proof (cases "record_cost A k r \<le> tbl_maxBytes t")
    case False
    then show ?thesis
      using assms table_append_too_large [OF rec] by (auto simp: table_inv_def row_ids_def)
  next
    case True
    let ?rows = "rows_after A k r t"
    obtain n where n: "n \<le> length (tbl_rows t)" "?rows = drop n (tbl_rows t) @ [new_entry A k r t]"
      using rows_after_split [OF assms(1) True] .
    have t': "t' = t\<lparr>tbl_revision := tbl_revision t + 1, tbl_rows := ?rows,
        tbl_nextId := tbl_nextId t + 1, tbl_bytes := entries_bytes ?rows, tbl_error := []\<rparr>"
      using table_append_stored [OF assms(1) rec True] assms(2) by simp
    have fit: "length ?rows \<le> tbl_maxRows t \<and> entries_bytes ?rows \<le> tbl_maxBytes t"
      using longest_suffix_fits [of ent_bytes "tbl_maxRows t" "tbl_maxBytes t" "tbl_rows t @ [new_entry A k r t]"]
      by (simp add: rows_after_def fits_entries)
    have ids: "map (row_id \<circ> ent_row) (tbl_rows t) =
        map (\<lambda>i. tbl_nextId t - of_nat (length (tbl_rows t) - i)) [0..<length (tbl_rows t)]"
      using assms(1) by (simp add: table_inv_def row_ids_def)
    have "row_ids t' = map (\<lambda>i. tbl_nextId t' - of_nat (length ?rows - i)) [0..<length ?rows]"
    proof (rule nth_equalityI)
      fix i assume "i < length (row_ids t')"
      then have i: "i < length ?rows" by (simp add: t' row_ids_def)
      have idn: "(row_id (ent_row (tbl_rows t ! j))) = tbl_nextId t - of_nat (length (tbl_rows t) - j)"
        if "j < length (tbl_rows t)" for j
        using that arg_cong [OF ids, of "\<lambda>l. l ! j"] by simp
      show "row_ids t' ! i = map (\<lambda>i. tbl_nextId t' - of_nat (length ?rows - i)) [0..<length ?rows] ! i"
        using i n idn [of "n + i"]
        by (auto simp: t' row_ids_def nth_append new_entry_def of_nat_diff)
    qed (simp add: t' row_ids_def)
    moreover have "\<forall>e \<in> set ?rows. row_schema (ent_row e) = tbl_schema t \<and>
        record_ok (tbl_schema t) (row_record (ent_row e))"
      using assms(1) rec n by (auto simp: table_inv_def new_entry_def dest: in_set_dropD)
    ultimately show ?thesis using assms(1) fit by (simp add: table_inv_def t')
  qed
qed

section \<open>A history of appends\<close>

text \<open>
  A caller keeps the table when \<open>append\<close> throws. The abstract table is the longest suffix of the
  accepted records with their sizes.
\<close>

definition append_or_keep :: "abi \<Rightarrow> capacities \<Rightarrow> Record \<Rightarrow> LiveTable \<Rightarrow> LiveTable" where
  "append_or_keep A k r t = (case table_append A k r t of Inl e \<Rightarrow> t | Inr (ok, t') \<Rightarrow> t')"

fun table_run :: "abi \<Rightarrow> (capacities \<times> Record) list \<Rightarrow> LiveTable \<Rightarrow> LiveTable" where
  "table_run A [] t = t"
| "table_run A ((k, r) # rs) t =
     table_run A rs (append_or_keep A k r t)"

definition accepted :: "abi \<Rightarrow> Schema \<Rightarrow> nat \<Rightarrow> (capacities \<times> Record) list \<Rightarrow> (Record \<times> nat) list" where
  "accepted A s max_bytes rs =
     map (\<lambda>(k, r). (r, record_cost A k r))
       (filter (\<lambda>(k, r). record_ok s r \<and> record_cost A k r \<le> max_bytes) rs)"

definition entry_pair :: "Entry \<Rightarrow> Record \<times> nat" where
  "entry_pair e = (row_record (ent_row e), ent_bytes e)"

definition table_content :: "LiveTable \<Rightarrow> (Record \<times> nat) list" where
  "table_content t = map entry_pair (tbl_rows t)"

lemma entry_pair_simps [simp]: "snd (entry_pair e) = ent_bytes e" "snd \<circ> entry_pair = ent_bytes"
  by (auto simp: entry_pair_def)

lemma append_content:
  assumes "table_inv t" and t'_def: "t' = append_or_keep A k r t"
  shows "table_inv t' \<and> tbl_schema t' = tbl_schema t \<and> tbl_maxRows t' = tbl_maxRows t \<and>
     tbl_maxBytes t' = tbl_maxBytes t \<and>
     table_content t' = longest_suffix snd (tbl_maxRows t) (tbl_maxBytes t)
       (table_content t @ accepted A (tbl_schema t) (tbl_maxBytes t) [(k, r)])"
proof -
  have same: "table_content t = longest_suffix snd (tbl_maxRows t) (tbl_maxBytes t) (table_content t)"
    using assms(1)
    by (intro longest_suffix_id [symmetric]) (simp add: table_inv_def fits_def table_content_def entries_bytes_def)
  have inv: "table_inv t'"
    using assms table_append_inv by (auto simp: append_or_keep_def split: sum.splits prod.splits)
  consider (no) "\<not> record_ok (tbl_schema t) r" | (big) "record_ok (tbl_schema t) r" "tbl_maxBytes t < record_cost A k r"
    | (ok) "record_ok (tbl_schema t) r" "record_cost A k r \<le> tbl_maxBytes t" by linarith
  then show ?thesis
  proof cases
    case no
    then obtain e where "table_append A k r t = Inl e" using table_append_rejected by blast
    then have "t' = t" by (simp add: t'_def append_or_keep_def)
    moreover have "accepted A (tbl_schema t) (tbl_maxBytes t) [(k, r)] = []" using no by (simp add: accepted_def)
    ultimately show ?thesis using assms(1) same by simp
  next
    case big
    have "table_content t' = table_content t" "tbl_schema t' = tbl_schema t"
      "tbl_maxRows t' = tbl_maxRows t" "tbl_maxBytes t' = tbl_maxBytes t"
      using table_append_too_large [OF big] by (simp_all add: t'_def append_or_keep_def table_content_def)
    moreover have "accepted A (tbl_schema t) (tbl_maxBytes t) [(k, r)] = []" using big by (simp add: accepted_def)
    ultimately show ?thesis using inv same by simp
  next
    case ok
    have "accepted A (tbl_schema t) (tbl_maxBytes t) [(k, r)] = [entry_pair (new_entry A k r t)]"
      using ok by (simp add: accepted_def entry_pair_def new_entry_def)
    then have "table_content t' = longest_suffix snd (tbl_maxRows t) (tbl_maxBytes t)
        (table_content t @ accepted A (tbl_schema t) (tbl_maxBytes t) [(k, r)])"
      using table_append_stored [OF assms(1) ok]
        longest_suffix_map [of snd _ _ entry_pair "tbl_rows t @ [new_entry A k r t]"]
      by (simp add: t'_def append_or_keep_def table_content_def rows_after_def)
    then show ?thesis using inv table_append_stored [OF assms(1) ok] by (simp add: t'_def append_or_keep_def)
  qed
qed

lemma accepted_Cons:
  "accepted A s m (p # rs) = accepted A s m [p] @ accepted A s m rs"
  by (simp add: accepted_def)

lemma longest_suffix_absorb:
  "longest_suffix cost R B (longest_suffix cost R B xs @ ys) = longest_suffix cost R B (xs @ ys)"
proof (induction ys rule: rev_induct)
  case (snoc y ys)
  then show ?case using longest_suffix_snoc [of cost R B] by (metis append.assoc)
next
  case Nil
  then show ?case by (simp add: longest_suffix_id longest_suffix_fits)
qed

lemma table_run_content:
  "table_inv t \<Longrightarrow> table_inv (table_run A rs t) \<and>
     table_content (table_run A rs t) = longest_suffix snd (tbl_maxRows t) (tbl_maxBytes t)
       (table_content t @ accepted A (tbl_schema t) (tbl_maxBytes t) rs)"
proof (induction rs arbitrary: t)
  case Nil
  then have "fits snd (tbl_maxRows t) (tbl_maxBytes t) (table_content t)"
    by (simp add: table_inv_def fits_def table_content_def entries_bytes_def)
  with Nil show ?case by (simp add: accepted_def longest_suffix_id)
next
  case (Cons p rs)
  obtain k r where p: "p = (k, r)" by (cases p)
  note a = append_content [OF Cons.prems refl, of A k r]
  from Cons.IH [OF conjunct1 [OF a]] a show ?case
    unfolding p table_run.simps accepted_Cons [of A _ _ "(k, r)" rs]
    by (simp only: longest_suffix_absorb append.assoc)
qed

section \<open>The rows of a page\<close>

definition selected :: "LiveTable \<Rightarrow> TableView \<Rightarrow> TableRow \<Rightarrow> bool" where
  "selected t view row \<longleftrightarrow>
     (\<forall>d. view_device view = Some d \<longrightarrow> rec_device (row_record row) = d) \<and>
     (\<forall>from. view_fromUs view = Some from \<longrightarrow> from \<le> rec_receivedAtUs (row_record row)) \<and>
     (\<forall>to. view_toUs view = Some to \<longrightarrow> rec_receivedAtUs (row_record row) \<le> to) \<and>
     (\<forall>c \<in> set (view_conditions view). \<exists>v.
        fieldValue (row_record row) (tbl_schema t) (cond_field c) = Some v \<and> condition_holds v c)"

lemma row_selected_eq:
  assumes "table_inv t" "validateTableView view = Inr ()" "e \<in> set (tbl_rows t)"
  shows "row_selected t view e = Inr (selected t view (ent_row e))"
proof -
  have c: "\<forall>c \<in> set (view_conditions view). condition_ok c"
    using assms(2) validateConditions_ok by (auto simp: validateTableView_def)
  have r: "\<forall>v \<in> set (rec_values (row_record (ent_row e))). scalar v"
    using assms(1,3) record_ok_scalar by (auto simp: table_inv_def)
  show ?thesis
    by (auto simp: row_selected_def selected_def Let_def matches_eq [OF c r] not_less split: option.splits)
qed

lemma select_rows_eq:
  assumes "table_inv t" "validateTableView view = Inr ()"
  shows "set es \<subseteq> set (tbl_rows t) \<Longrightarrow>
     select_rows t view es = Inr (filter (selected t view) (map ent_row es))"
  by (induction es) (simp_all add: row_selected_eq assms)

text \<open>The comparator of a view, as a strict total order on rows with different ids.\<close>

definition field_key :: "TableView \<Rightarrow> TableRow \<Rightarrow> Value option" where
  "field_key view row = (case view_sort view of
     None \<Rightarrow> None | Some s \<Rightarrow> fieldValue (row_record row) (row_schema row) (sort_field s))"

definition key_less :: "Value option \<Rightarrow> Value option \<Rightarrow> bool" where
  "key_less a b \<longleftrightarrow> (case (a, b) of
     (None, Some _) \<Rightarrow> True | (Some x, Some y) \<Rightarrow> value_less x y | _ \<Rightarrow> False)"

definition view_less :: "TableView \<Rightarrow> TableRow \<Rightarrow> TableRow \<Rightarrow> bool" where
  "view_less view a b \<longleftrightarrow>
     (let ka = field_key view a; kb = field_key view b in
      if key_less ka kb then \<not> sort_descends view
      else if key_less kb ka then sort_descends view
      else rec_receivedAtUs (row_record a) < rec_receivedAtUs (row_record b) \<or>
        (rec_receivedAtUs (row_record a) = rec_receivedAtUs (row_record b) \<and> row_id a < row_id b))"

definition row_scalar :: "TableRow \<Rightarrow> bool" where
  "row_scalar row \<longleftrightarrow> (\<forall>v \<in> set (rec_values (row_record row)). scalar v)"

lemma field_key_scalar: "row_scalar row \<Longrightarrow> field_key view row = Some v \<Longrightarrow> scalar v"
  by (auto simp: row_scalar_def field_key_def fieldValue_def split: option.splits if_splits)

lemma sort_order_eq:
  assumes "row_scalar a" "row_scalar b"
  shows "sort_order view a b =
     Inr (three_way (key_less (field_key view a) (field_key view b)) (key_less (field_key view b) (field_key view a)))"
proof (cases "view_sort view")
  case None
  then show ?thesis by (simp add: sort_order_def field_key_def key_less_def three_way_def)
next
  case (Some s)
  have "compareValues x y = Inr (three_way (value_less x y) (value_less y x))"
    if "field_key view a = Some x" "field_key view b = Some y" for x y
    using that assms field_key_scalar by (intro compareValues_eq) auto
  then show ?thesis using Some
    by (auto simp: sort_order_def field_key_def key_less_def three_way_def split: option.splits)
qed

lemma row_before_eq:
  "row_scalar a \<Longrightarrow> row_scalar b \<Longrightarrow> row_before view a b = Inr (view_less view a b)"
  by (auto simp: row_before_def sort_order_eq view_less_def Let_def three_way_def value_less_asym
      key_less_def split: option.splits)

section \<open>Sorting with a comparator that may throw\<close>

text \<open>The contract of the comparator: a strict order, total on elements of different identity.\<close>

locale sort_contract =
  fixes valid :: "'a \<Rightarrow> bool"
    and lt :: "'a \<Rightarrow> 'a \<Rightarrow> bool"
    and ident :: "'a \<Rightarrow> 'i"
  assumes lt_irrefl: "valid a \<Longrightarrow> \<not> lt a a"
    and lt_trans: "valid a \<Longrightarrow> valid b \<Longrightarrow> valid c \<Longrightarrow> lt a b \<Longrightarrow> lt b c \<Longrightarrow> lt a c"
    and lt_connected: "valid a \<Longrightarrow> valid b \<Longrightarrow> ident a \<noteq> ident b \<Longrightarrow> lt a b \<or> lt b a"
begin

lemma insert_result:
  assumes "\<And>a b. valid a \<Longrightarrow> valid b \<Longrightarrow> before a b = Inr (lt a b)"
  shows "\<forall>y \<in> set (x # ys). valid y \<Longrightarrow> \<forall>y \<in> set ys. ident y \<noteq> ident x \<Longrightarrow> sorted_wrt lt ys \<Longrightarrow>
     \<exists>zs. insert_sorted before x ys = Inr zs \<and> mset zs = add_mset x (mset ys) \<and> sorted_wrt lt zs"
proof (induction ys)
  case (Cons y ys)
  show ?case
  proof (cases "lt y x")
    case True
    from Cons obtain zs where zs: "insert_sorted before x ys = Inr zs"
      "mset zs = add_mset x (mset ys)" "sorted_wrt lt zs" by auto
    have "set zs = insert x (set ys)" using zs(2) by (metis set_mset_add_mset_insert set_mset_mset)
    with Cons.prems True zs assms [of y x] show ?thesis by auto
  next
    case False
    then have "lt x y" using Cons.prems lt_connected [of x y] by auto
    moreover have "lt x z" if "z \<in> set ys" for z
      using that Cons.prems calculation lt_trans [of x y z] by auto
    ultimately show ?thesis using Cons.prems False assms [of y x] by auto
  qed
qed auto

lemma sort_result:
  assumes "\<And>a b. valid a \<Longrightarrow> valid b \<Longrightarrow> before a b = Inr (lt a b)"
  shows "\<forall>x \<in> set xs. valid x \<Longrightarrow> distinct (map ident xs) \<Longrightarrow>
     \<exists>ys. std_sort before xs = Inr ys \<and> mset ys = mset xs \<and> sorted_wrt lt ys"
proof (induction xs)
  case (Cons x xs)
  then obtain ys where ys: "std_sort before xs = Inr ys" "mset ys = mset xs" "sorted_wrt lt ys" by auto
  have "set ys = set xs" using ys(2) by (metis set_mset_mset)
  with Cons.prems have v: "\<forall>y \<in> set (x # ys). valid y" "\<forall>y \<in> set ys. ident y \<noteq> ident x"
    by (simp, metis distinct.simps(2) image_eqI list.simps(9) set_map)
  from insert_result [OF assms v ys(3)] ys show ?case by auto
qed simp

lemma sort_unique:
  "\<forall>x \<in> set ys. valid x \<Longrightarrow> mset ys = mset zs \<Longrightarrow> sorted_wrt lt ys \<Longrightarrow> sorted_wrt lt zs \<Longrightarrow> ys = zs"
proof (induction ys arbitrary: zs)
  case (Cons y ys)
  have "zs \<noteq> []" using Cons.prems(2) by auto
  then obtain z zs' where z: "zs = z # zs'" by (cases zs) auto
  have sets: "set (y # ys) = set zs" using Cons.prems(2) by (metis set_mset_mset)
  have "y = z"
  proof (rule ccontr)
    assume ne: "y \<noteq> z"
    then have "y \<in> set zs'" "z \<in> set ys" using sets z by auto
    then have "lt z y" "lt y z" "valid y" "valid z" using Cons.prems z by auto
    then show False using lt_trans [of y z y] lt_irrefl by blast
  qed
  with Cons z show ?case by auto
qed simp

end

lemma key_less_asym: "key_less a b \<Longrightarrow> \<not> key_less b a"
  by (auto simp: key_less_def value_less_asym split: option.splits)

lemma key_less_trans: "key_less a b \<Longrightarrow> key_less b c \<Longrightarrow> key_less a c"
  by (cases a; cases b; cases c; simp add: key_less_def) (erule (1) value_less_trans)

lemma key_not_less_trans:
  "(\<And>v. a = Some v \<Longrightarrow> scalar v) \<Longrightarrow> (\<And>v. b = Some v \<Longrightarrow> scalar v) \<Longrightarrow> (\<And>v. c = Some v \<Longrightarrow> scalar v) \<Longrightarrow>
   \<not> key_less a b \<Longrightarrow> \<not> key_less b c \<Longrightarrow> \<not> key_less a c"
  by (cases a; cases b; cases c; simp add: key_less_def) (use value_not_less_trans in blast)

definition oriented :: "TableView \<Rightarrow> TableRow \<Rightarrow> TableRow \<Rightarrow> bool" where
  "oriented view a b \<longleftrightarrow>
     (if sort_descends view then key_less (field_key view b) (field_key view a)
      else key_less (field_key view a) (field_key view b))"

definition tie_less :: "TableRow \<Rightarrow> TableRow \<Rightarrow> bool" where
  "tie_less a b \<longleftrightarrow>
     rec_receivedAtUs (row_record a) < rec_receivedAtUs (row_record b) \<or>
     (rec_receivedAtUs (row_record a) = rec_receivedAtUs (row_record b) \<and> row_id a < row_id b)"

lemma view_less_alt:
  "view_less view a b \<longleftrightarrow> oriented view a b \<or> (\<not> oriented view b a \<and> tie_less a b)"
  using key_less_asym [of "field_key view a" "field_key view b"]
  by (auto simp: view_less_def oriented_def tie_less_def Let_def)

lemma tie_less_trans: "tie_less a b \<Longrightarrow> tie_less b c \<Longrightarrow> tie_less a c"
  by (auto simp: tie_less_def)

lemma oriented_rules:
  "oriented view a b \<Longrightarrow> \<not> oriented view b a"
  "oriented view a b \<Longrightarrow> oriented view b c \<Longrightarrow> oriented view a c"
  by (auto simp: oriented_def intro: key_less_trans dest: key_less_asym)

lemma oriented_not_trans:
  assumes "row_scalar a" "row_scalar b" "row_scalar c" "\<not> oriented view a b" "\<not> oriented view b c"
  shows "\<not> oriented view a c"
proof -
  note k = field_key_scalar [OF assms(1)] field_key_scalar [OF assms(2)] field_key_scalar [OF assms(3)]
  show ?thesis
    using assms(4,5) key_not_less_trans [OF k(1) k(2) k(3)] key_not_less_trans [OF k(3) k(2) k(1)]
    by (auto simp: oriented_def)
qed

interpretation page_sort: sort_contract row_scalar "view_less view" row_id for view
proof unfold_locales
  fix a b c :: TableRow
  assume ok: "row_scalar a" "row_scalar b" "row_scalar c"
  assume l: "view_less view a b" "view_less view b c"
  have ca: "\<not> oriented view c a"
    using l oriented_not_trans [OF ok(3,2,1), of view] oriented_rules(1) [of view]
    unfolding view_less_alt by blast
  show "view_less view a c"
  proof (cases "oriented view a b \<or> oriented view b c")
    case True
    then have "oriented view a c"
      using l oriented_not_trans [OF ok(2,1,3), of view] oriented_not_trans [OF ok(1,3,2), of view]
        oriented_rules(1) [of view]
      unfolding view_less_alt by blast
    then show ?thesis by (simp add: view_less_alt)
  next
    case False
    with l have "tie_less a c" using tie_less_trans unfolding view_less_alt by blast
    with ca show ?thesis by (simp add: view_less_alt)
  qed
qed (auto simp: view_less_alt tie_less_def dest: oriented_rules)

text \<open>The rows a view selects, in the order of the view.\<close>

lemma row_ids_distinct:
  assumes "table_inv t"
  shows "distinct (row_ids t)"
proof -
  have l: "length (tbl_rows t) < 2 ^ 64" using assms by (simp add: table_inv_def)
  have inj: "(of_nat a :: u64) = of_nat b \<longleftrightarrow> a = b" if "a < 2 ^ 64" "b < 2 ^ 64" for a b :: nat
    using that by (auto simp: word_unat_eq_iff unat_of_nat)
  have "row_ids t = map (\<lambda>i. tbl_nextId t - of_nat (length (tbl_rows t) - i)) [0..<length (tbl_rows t)]"
    using assms by (simp add: table_inv_def)
  moreover have "inj_on (\<lambda>i. tbl_nextId t - (of_nat (length (tbl_rows t) - i) :: u64)) (set [0..<length (tbl_rows t)])"
    using l by (intro inj_onI) (auto simp: inj)
  ultimately show ?thesis by (simp add: distinct_map)
qed

lemma view_sorted:
  assumes "table_inv t" "validateTableView view = Inr ()"
  obtains rows where "std_sort (row_before view) (filter (selected t view) (map ent_row (tbl_rows t))) = Inr rows"
    "mset rows = mset (filter (selected t view) (map ent_row (tbl_rows t)))" "sorted_wrt (view_less view) rows"
proof -
  have valid: "row_scalar row" if "row \<in> set (map ent_row (tbl_rows t))" for row
    using that assms(1) record_ok_scalar by (auto simp: table_inv_def row_scalar_def)
  have "distinct (map row_id (map ent_row (tbl_rows t)))"
    using row_ids_distinct [OF assms(1)] by (simp add: row_ids_def)
  then have d: "distinct (map row_id (filter (selected t view) (map ent_row (tbl_rows t))))"
    by (rule distinct_map_filter)
  show ?thesis
    using page_sort.sort_result [OF row_before_eq, of "filter (selected t view) (map ent_row (tbl_rows t))" view]
      valid d that by auto
qed

end
