(* ===== verification/Data_Properties.thy ===== *)
theory Data_Properties
  imports Live_Table
begin

text \<open>
  The properties of the values, schemas, records, conditions and live tables of the \<open>data\<close>
  module, each with its witness on a small concrete schema.
\<close>

section \<open>A sample schema and its records\<close>

definition sample_schema :: Schema where
  "sample_schema = \<lparr>sch_dataset = ''d'',
     sch_fields = [\<lparr>fld_name = ''n'', fld_type = 1, fld_nullable = False\<rparr>,
                   \<lparr>fld_name = ''s'', fld_type = 4, fld_nullable = True\<rparr>]\<rparr>"

definition sample_record :: "int \<Rightarrow> int \<Rightarrow> Record" where
  "sample_record t n = \<lparr>rec_protocol = ''p'', rec_dataset = ''d'', rec_device = ''x'', rec_receivedAtUs = t,
     rec_deviceTimeUs = Some 7, rec_schemaVersion = 1, rec_values = [VInt n, VNull]\<rparr>"

definition sample_value :: Value where
  "sample_value = VObject [(''a'', VArray [VInt (-3), VBool True]), (''b'', VDouble 0)]"

definition sample_limits :: ValueLimits where
  "sample_limits = \<lparr>maxBytes = 256, maxDepth = 3, maxNodes = 20\<rparr>"

definition sample_conditions :: "FieldCondition list" where
  "sample_conditions = [\<lparr>cond_field = ''n'', cond_op = op_GreaterEqual, cond_value = VInt 5\<rparr>]"

definition sample_abi :: abi where
  "sample_abi = \<lparr>sizeof_Record = 100, sizeof_Value = 40, sizeof_TableRow = 40\<rparr>"

definition sample_caps :: capacities where
  "sample_caps = \<lparr>cap_protocol = 15, cap_dataset = 15, cap_device = 15, cap_values = 2, cap_field = (\<lambda>i. 0)\<rparr>"

definition sample_view :: TableView where
  "sample_view = \<lparr>view_device = Some ''x'', view_fromUs = Some 0, view_toUs = None,
     view_conditions = sample_conditions,
     view_sort = Some \<lparr>sort_field = ''n'', sort_descending = True\<rparr>, view_offset = 1, view_limit = 2\<rparr>"

definition sample_table :: LiveTable where
  "sample_table = \<lparr>tbl_schema = sample_schema, tbl_rows = [], tbl_maxRows = 2, tbl_maxBytes = 1000,
     tbl_bytes = 0, tbl_nextId = 1, tbl_revision = 0, tbl_error = []\<rparr>"

definition sample_history :: "(capacities \<times> Record) list" where
  "sample_history = [(sample_caps, sample_record 5 5), (sample_caps, sample_record 3 9)]"

lemmas sample_defs = sample_schema_def sample_record_def sample_value_def sample_limits_def
  sample_conditions_def sample_abi_def sample_caps_def sample_view_def sample_table_def sample_history_def

lemma sample_schema_ok: "validateSchema sample_schema = Inr ()"
  by (simp add: validateSchema_iff schema_ok_def sample_schema_def name_ok_def)

lemma sample_record_ok: "validateRecord sample_schema (sample_record t n) = Inr ()"
  using sample_schema_ok
  by (simp add: validateRecord_iff record_ok_def validateSchema_iff) (simp add: sample_defs value_matches_def)

lemma sample_value_facts:
  "value_ok sample_value" "value_finite sample_value" "value_nodes sample_value = 5"
  "value_depth sample_value \<le> maxDepth sample_limits" "length (value_bytes sample_value) = 56"
  by (simp_all add: sample_defs int64_defs member_bytes_def key_bytes_def f64_isfinite_def
      f64_exponent_def f64_magnitude_def less_char_def value_depth.simps)

section \<open>Values\<close>

text \<open>C16: The encoding of values is lossless and its limits are exact. A value of the C++ type (64-bit
integers, object keys in order) is encoded, and read back by the decoder under the same limits,
exactly when its doubles are finite and its depth, its number of nodes and the length of its layout
are within the limits; otherwise \<open>encodeValue\<close> throws.\<close>

theorem value_roundtrip:
  assumes "value_ok v" "maxBytes L \<le> size_max"
  shows "(\<exists>bs. encodeValue v L = Inr bs \<and> decodeValue bs L = Inr v) \<longleftrightarrow>
     value_finite v \<and> value_depth v \<le> maxDepth L \<and> value_nodes v \<le> maxNodes L \<and>
     length (value_bytes v) \<le> maxBytes L"
  using encodeValue_iff [of v L] decodeValue_encodeValue [OF _ assms] by blast

theorem value_roundtrip_witness:
  "\<exists>bs. encodeValue sample_value sample_limits = Inr bs \<and> decodeValue bs sample_limits = Inr sample_value"
  by (subst value_roundtrip)
    (use sample_value_facts in \<open>simp_all add: sample_limits_def size_max_def\<close>)

text \<open>C17: Whatever bytes the decoder accepts, its result is a well-typed value: integers are in
64 bits, object keys are unique and in order, doubles are finite, depth and number of nodes are
within the limits. The value can be encoded again under the same limits, into as many bytes.\<close>

theorem decoded_value_typed:
  assumes "decodeValue bs L = Inr v"
  shows "value_ok v \<and> value_finite v \<and> value_depth v \<le> maxDepth L \<and> value_nodes v \<le> maxNodes L \<and>
     (\<exists>bs'. encodeValue v L = Inr bs' \<and> length bs' = length bs)"
  using decodeValue_sound [OF assms] encodeValue_iff [of v L] by auto

theorem decoded_value_typed_witness:
  "decodeValue [3, 1] sample_limits = Inr (VBool True) \<and>
   (\<exists>bs'. encodeValue (VBool True) sample_limits = Inr bs' \<and> length bs' = 2)"
proof -
  have d: "decodeValue [3, 1] sample_limits = Inr (VBool True)"
    by (simp add: decodeValue_def decoder_decode.simps decoder_enter_def decoder_byte_def
        decoder_scalar_def sample_limits_def)
  from decoded_value_typed [OF d] d show ?thesis by (simp add: numeral_2_eq_2)
qed

text \<open>A schema and its structured value determine each other: \<open>schemaFromValue\<close> accepts exactly
the values that \<open>schemaValue\<close> produces, and gives the schema back.\<close>

theorem schema_structured_form: "schemaFromValue v = Inr s \<longleftrightarrow> schemaValue s = Inr v"
  by (rule schemaFromValue_iff)

text \<open>C18: A record stored as bytes is read back unchanged: its structured value, encoded under limits
that allow it, decodes to a value from which \<open>recordFromValue\<close> restores the record.\<close>

theorem record_storage_roundtrip:
  assumes "record_typed r" "recordValue r = Inr v" "encodeValue v L = Inr bs" "maxBytes L \<le> size_max"
  shows "bindE (decodeValue bs L) recordFromValue = Inr r"
proof -
  have ok: "value_ok v" using record_value_ok [OF assms(2,1)] .
  show ?thesis
    using decodeValue_encodeValue [OF assms(3) ok assms(4)] recordFromValue_iff [OF ok] assms(2) by simp
qed

lemma sample_record_stored:
  "\<exists>v bs. recordValue (sample_record 5 5) = Inr v \<and> encodeValue v sample_limits = Inr bs"
  by (auto simp: recordValue_shape encodeValue_iff sample_record_def sample_limits_def int64_max_def
      value_depth.simps)

theorem record_storage_roundtrip_witness:
  "\<exists>v bs. recordValue (sample_record 5 5) = Inr v \<and> encodeValue v sample_limits = Inr bs \<and>
     bindE (decodeValue bs sample_limits) recordFromValue = Inr (sample_record 5 5)"
proof -
  obtain v bs where s: "recordValue (sample_record 5 5) = Inr v" "encodeValue v sample_limits = Inr bs"
    using sample_record_stored by blast
  have "record_typed (sample_record 5 5)" by (simp add: record_typed_def sample_record_def int64_defs)
  from record_storage_roundtrip [OF this s] s show ?thesis by (simp add: sample_limits_def size_max_def)
qed

text \<open>\<open>validateRecord\<close> accepts a record exactly when the schema is valid (name, 1 to 1024 fields
with distinct valid names and known types), the record names this dataset, a protocol and a device of
at most 4096 bytes, and its values match the fields one by one: null only where it is allowed, the
type of the field otherwise, and no infinite or NaN double.\<close>

theorem record_validation_exact:
  "validateRecord s r = Inr u \<longleftrightarrow>
     validateSchema s = Inr u \<and> rec_dataset r = sch_dataset s \<and>
     rec_protocol r \<noteq> [] \<and> length (rec_protocol r) \<le> 4096 \<and> length (rec_device r) \<le> 4096 \<and>
     list_all2 (\<lambda>f v. (if v = VNull then fld_nullable f else value_index v = unat (fld_type f)) \<and>
       value_finite v) (sch_fields s) (rec_values r)"
  by (auto simp: validateRecord_iff validateSchema_iff record_ok_def value_matches_def [abs_def])

section \<open>Conditions\<close>

text \<open>C19: Matching means what the conditions say. For validated conditions and a validated record
\<open>matches\<close> never throws, and it answers yes exactly when every condition names a field the schema has,
and that field's value satisfies the condition in the order of values.\<close>

theorem matches_refines_conditions:
  assumes "validateConditions cs = Inr ()" "validateRecord s r = Inr ()"
  shows "matches r s cs =
     Inr (\<forall>c \<in> set cs. \<exists>v. fieldValue r s (cond_field c) = Some v \<and> condition_holds v c)"
  using matches_eq validateConditions_ok [OF assms(1)] assms(2) record_ok_scalar
  by (auto simp: validateRecord_iff)

lemma sample_conditions_ok: "validateConditions sample_conditions = Inr ()"
proof -
  have "encodeValue (VInt 5) condition_limits = Inr (value_bytes (VInt 5))"
    by (simp add: encodeValue_iff condition_limits_def value_depth.simps size_max_def)
  then show ?thesis
    by (simp add: validateConditions_def sample_conditions_def validate_condition_def op_defs)
qed

theorem matches_refines_conditions_witness:
  "matches (sample_record 0 6) sample_schema sample_conditions = Inr True \<and>
   matches (sample_record 0 4) sample_schema sample_conditions = Inr False"
  unfolding matches_refines_conditions [OF sample_conditions_ok sample_record_ok]
  by (simp add: sample_defs fieldValue_def condition_holds_def op_defs value_less_def)

text \<open>On scalars without NaN the comparison of values is a total preorder: it never throws, its
result is reversed when the arguments are swapped, and being at most is transitive.\<close>

theorem compare_total_preorder:
  assumes "scalar a" "scalar b" "scalar c"
  shows "\<exists>ab bc ac. compareValues a b = Inr ab \<and> compareValues b c = Inr bc \<and> compareValues a c = Inr ac \<and>
     compareValues b a = Inr (- ab) \<and> (ab \<le> 0 \<and> bc \<le> 0 \<longrightarrow> ac \<le> 0) \<and> (ab < 0 \<and> bc \<le> 0 \<longrightarrow> ac < 0)"
proof -
  have swap: "three_way (value_less b a) (value_less a b) = - three_way (value_less a b) (value_less b a)"
    using value_less_asym [of a b] by (auto simp: three_way_def)
  have "three_way (value_less a c) (value_less c a) \<le> 0"
    if "three_way (value_less a b) (value_less b a) \<le> 0" "three_way (value_less b c) (value_less c b) \<le> 0"
    using that value_not_less_trans [OF assms(3,2,1)] value_less_asym by (auto simp: three_way_def split: if_splits)
  moreover have "three_way (value_less a c) (value_less c a) < 0"
    if "three_way (value_less a b) (value_less b a) < 0" "three_way (value_less b c) (value_less c b) \<le> 0"
    using that value_not_less_trans [OF assms(1,3,2)] value_less_asym by (auto simp: three_way_def split: if_splits)
  ultimately show ?thesis
    unfolding compareValues_eq [OF assms(1,2)] compareValues_eq [OF assms(2,3)]
      compareValues_eq [OF assms(1,3)] compareValues_eq [OF assms(2,1)] swap
    by simp
qed

theorem compare_total_preorder_witness:
  "\<exists>ac. compareValues (VInt (-4)) (VString ''b'') = Inr ac \<and> ac < 0"
  using compare_total_preorder [of "VInt (-4)" "VString ''a''" "VString ''b''"]
  by (simp add: scalar_def compareValues_def)

text \<open>A list of conditions and its structured value determine each other.\<close>

theorem conditions_structured_form: "conditionsFromValue v = Inr cs \<longleftrightarrow> conditionsValue cs = Inr v"
  by (rule conditionsFromValue_iff)

section \<open>Live tables\<close>

text \<open>C20: A live table refines its history. After any sequence of appends to a new table, of valid,
invalid and too large records alike, it holds the longest run of the most recently accepted records
that is within the row limit and the byte limit, in order, and its byte count is theirs.\<close>

theorem table_refines_history:
  assumes "new_LiveTable s max_rows max_bytes = Inr t"
  shows "table_content (table_run A rs t) = longest_suffix snd max_rows max_bytes (accepted A s max_bytes rs) \<and>
     table_size (table_run A rs t) \<le> max_rows \<and>
     memoryBytes (table_run A rs t) = sum_list (map snd (table_content (table_run A rs t))) \<and>
     memoryBytes (table_run A rs t) \<le> max_bytes"
proof -
  have t: "tbl_schema t = s" "tbl_maxRows t = max_rows" "tbl_maxBytes t = max_bytes" "table_content t = []"
    using assms by (auto simp: new_LiveTable_def table_content_def split: if_splits)
  note run = table_run_content [OF new_LiveTable_inv [OF assms], of A rs]
  then have c: "table_content (table_run A rs t) = longest_suffix snd max_rows max_bytes (accepted A s max_bytes rs)"
    by (simp add: t)
  have fit: "fits snd max_rows max_bytes (table_content (table_run A rs t))"
    unfolding c by (rule longest_suffix_fits)
  have "memoryBytes (table_run A rs t) = sum_list (map snd (table_content (table_run A rs t)))"
    using conjunct1 [OF run] by (simp add: table_inv_def memoryBytes_def table_content_def entries_bytes_def)
  moreover have "table_size (table_run A rs t) = length (table_content (table_run A rs t))"
    by (simp add: table_size_def table_content_def)
  ultimately show ?thesis using c fit by (simp add: fits_def)
qed

lemma sample_table_new: "new_LiveTable sample_schema 2 1000 = Inr sample_table"
  using sample_schema_ok by (simp add: new_LiveTable_def sample_table_def)

lemma sample_cost: "record_cost sample_abi sample_caps (sample_record t n) = 329"
  by (simp add: record_cost_def recordMemoryBytes_def sample_defs)

theorem table_refines_history_witness:
  "table_content (table_run sample_abi
       [(sample_caps, sample_record 1 1), (sample_caps, sample_record 2 2), (sample_caps, sample_record 3 3)]
       sample_table) =
     [(sample_record 2 2, 329), (sample_record 3 3, 329)]"
proof -
  have "record_ok sample_schema (sample_record t n)" for t n
    using sample_record_ok validateRecord_iff by blast
  then show ?thesis
    using table_refines_history [OF sample_table_new, of sample_abi
        "[(sample_caps, sample_record 1 1), (sample_caps, sample_record 2 2), (sample_caps, sample_record 3 3)]"]
    by (simp add: accepted_def sample_cost fits_def)
qed

text \<open>C21: The pages of a view are the consecutive slices of one list: all rows of the table that the
view selects, each once, in the strict order of the view (its sort field, ascending or descending,
then the receive time, then the row id). A page never throws for a valid view, and says whether rows
follow it.\<close>

theorem pages_slice_sorted_rows:
  assumes "new_LiveTable s max_rows max_bytes = Inr t0" "t = table_run A rs t0"
    and "validateTableView view = Inr ()"
  shows "\<exists>rows. mset rows = mset (filter (selected t view) (map ent_row (tbl_rows t))) \<and>
     sorted_wrt (view_less view) rows \<and>
     (\<forall>off lim. validateTableView (view\<lparr>view_offset := off, view_limit := lim\<rparr>) = Inr () \<longrightarrow>
       (\<exists>page. table_page t (view\<lparr>view_offset := off, view_limit := lim\<rparr>) = Inr page \<and>
         page_rows page = take lim (drop off rows) \<and> (page_more page \<longleftrightarrow> off + lim < length rows)))"
proof -
  have inv: "table_inv t"
    using table_run_content [OF new_LiveTable_inv [OF assms(1)], of A rs] assms(2) by simp
  obtain rows where rows: "std_sort (row_before view) (filter (selected t view) (map ent_row (tbl_rows t))) = Inr rows"
    "mset rows = mset (filter (selected t view) (map ent_row (tbl_rows t)))" "sorted_wrt (view_less view) rows"
    using view_sorted [OF inv assms(3)] .
  have same: "row_before (view\<lparr>view_offset := off, view_limit := lim\<rparr>) = row_before view"
    "selected t (view\<lparr>view_offset := off, view_limit := lim\<rparr>) = selected t view" for off lim
    by (simp_all add: row_before_def [abs_def] sort_order_def [abs_def] sort_descends_def selected_def [abs_def]
        cong: if_cong)
  have "\<exists>page. table_page t (view\<lparr>view_offset := off, view_limit := lim\<rparr>) = Inr page \<and>
       page_rows page = take lim (drop off rows) \<and> (page_more page \<longleftrightarrow> off + lim < length rows)"
    if ok: "validateTableView (view\<lparr>view_offset := off, view_limit := lim\<rparr>) = Inr ()" for off lim
    using rows(1) select_rows_eq [OF inv ok subset_refl] ok
    by (auto simp: table_page_def same Let_def drop_take min_def)
  with rows(2,3) show ?thesis by blast
qed

lemma sample_view_ok: "validateTableView sample_view = Inr ()"
  using sample_conditions_ok by (simp add: validateTableView_def sample_view_def int64_max_def)

theorem pages_slice_sorted_rows_witness:
  "\<exists>rows. sorted_wrt (view_less sample_view) rows \<and>
     (\<exists>page. table_page (table_run sample_abi sample_history sample_table) sample_view = Inr page \<and>
       page_rows page = take 2 (drop 1 rows))"
proof -
  have same: "sample_view\<lparr>view_offset := 1, view_limit := 2\<rparr> = sample_view" by (simp add: sample_view_def)
  then have ok: "validateTableView (sample_view\<lparr>view_offset := 1, view_limit := 2\<rparr>) = Inr ()"
    using sample_view_ok by simp
  from pages_slice_sorted_rows [OF sample_table_new refl sample_view_ok, of sample_abi sample_history]
    ok same show ?thesis by metis
qed

end
