(* ===== verification/Psrec_Properties.thy ===== *)
theory Psrec_Properties
  imports Psrec_File Data_Properties
begin

text \<open>
  The properties of the record exchange format, with a sample file of one schema and one record.
\<close>

section \<open>A sample file\<close>

definition sample_schemas :: schemas where
  "sample_schemas = [(1, sample_schema)]"

definition psrec_sink :: sink where
  "psrec_sink = \<lparr>sink_out = \<lparr>os_data = [], os_room = 100000, os_ok = True, os_flushes = True\<rparr>, sink_stop = None\<rparr>"

lemma sample_metadata:
  "\<exists>meta. psrec_metadata sample_schemas None = (Inr meta, None) \<and> length meta \<le> 1000"
proof -
  obtain v where v: "schemaValue sample_schema = Inr v"
    using sample_schema_ok by (simp add: schemaValue_def)
  then have v': "v = VArray [VString ''d'', VArray (map field_value (sch_fields sample_schema))]"
    by (simp add: schemaValue_def sample_schema_def)
  have e: "encodeValue v psrec_limits = Inr (value_bytes v)" "length (value_bytes v) \<le> 500"
    "encodeValue (VArray [VArray [VInt 1, v]]) psrec_limits = Inr (value_bytes (VArray [VArray [VInt 1, v]]))"
    "length (value_bytes (VArray [VArray [VInt 1, v]])) \<le> 1000"
    by (simp_all add: encodeValue_iff v' field_value_def sample_schema_def psrec_limits_def value_depth.simps)
  have "length (sch_fields sample_schema) = 2" by (simp add: sample_schema_def)
  with e v show ?thesis
    by (simp add: psrec_metadata_def sample_schemas_def thenT_def bindT_def rejectT_def returnT_def liftT_def
        Let_def psrec_limits_def int64_max_def)
qed

lemma sample_payload:
  "\<exists>v payload. recordValue (sample_record 5 5) = Inr v \<and> encodeValue v psrec_limits = Inr payload \<and>
     length payload \<le> 1000"
  by (auto simp: recordValue_shape encodeValue_iff sample_record_def psrec_limits_def int64_max_def
      value_depth.simps)

lemma sample_append:
  assumes "roomy (2000 + n) (psw_sink w)" "psw_schemas w = sample_schemas" "psw_count w = 0"
    "\<not> psw_failed w" "\<not> psw_finished w"
  shows "\<exists>k. psrec_append 40 (sample_record 5 5) w = (Inr (), w\<lparr>psw_sink := k, psw_count := 1\<rparr>) \<and> roomy n k"
proof -
  obtain v payload where p: "recordValue (sample_record 5 5) = Inr v" "encodeValue v psrec_limits = Inr payload"
    "length payload \<le> 1000" using sample_payload by blast
  have "roomy (length payload + 20 + n) (psw_sink w)" using assms(1) p(3) by (simp add: roomy_def)
  moreover have "length payload \<le> maxBytes psrec_limits" using p(3) by (simp add: psrec_limits_def)
  ultimately obtain k where k: "writeBlock recordBlock 1 payload (psw_sink w) = (Inr (), k)" "roomy n k"
    using writeBlock_roomy by blast
  have stop: "sink_poll psrec_check_stop (psw_sink w) = (Inr (), psw_sink w)"
    using assms(1) by (intro sink_poll_never) (simp_all add: roomy_def)
  have ver: "rec_schemaVersion (sample_record 5 5) = 1" by (simp add: sample_record_def)
  have "value_budget 40 (rec_values (sample_record 5 5)) (maxBytes psrec_limits) = Inr 33554352"
    by (simp add: sample_record_def psrec_limits_def Let_def)
  then show ?thesis
    using assms stop ver k p(1,2) sample_record_ok [of 5 5]
    by (intro exI [of _ k]) (simp add: psrec_append_def writer_try_def thenT_def bindT_def liftT_def sample_schemas_def size_max_def)
qed

lemma sample_file:
  "\<exists>w k' w'. new_PsrecWriter psrec_sink sample_schemas = (Inr w, k') \<and>
     psrec_write_file 40 [sample_record 5 5] w = (Inr (), w')"
proof -
  obtain meta where meta: "psrec_metadata sample_schemas None = (Inr meta, None)" "length meta \<le> 1000"
    using sample_metadata by blast
  have r0: "roomy 100000 psrec_sink" by (simp add: roomy_def psrec_sink_def)
  have polls: "sink_poll psrec_check_stop psrec_sink = (Inr (), psrec_sink)"
    "sink_poll (psrec_metadata sample_schemas) psrec_sink = (Inr meta, psrec_sink)"
    using meta(1) by (intro sink_poll_never; simp add: psrec_sink_def)+
  obtain k1 where k1: "psrec_write psrec_header psrec_sink = (Inr (), k1)" "roomy 90000 k1"
    using psrec_write_roomy [of psrec_header 90000 psrec_sink] r0 by (auto simp: psrec_header_def roomy_def)
  have "roomy (length meta + 20 + 80000) k1" using k1(2) meta(2) by (simp add: roomy_def)
  then obtain k2 where k2: "writeBlock metadataBlock 0 meta k1 = (Inr (), k2)" "roomy 80000 k2"
    using writeBlock_roomy [of meta 80000 k1] meta(2) by (auto simp: psrec_limits_def)
  define w where "w = \<lparr>psw_sink = k2, psw_schemas = sample_schemas, psw_count = 0, psw_finished = False,
    psw_failed = False\<rparr>"
  have new: "new_PsrecWriter psrec_sink sample_schemas = (Inr w, k2)"
    using polls k1 k2 by (simp add: new_PsrecWriter_def thenT_def bindT_def w_def)
  obtain k3 where k3: "psrec_append 40 (sample_record 5 5) w = (Inr (), w\<lparr>psw_sink := k3, psw_count := 1\<rparr>)"
    "roomy 70000 k3"
    using sample_append [of 70000 w] k2(2) by (auto simp: w_def roomy_def)
  have "roomy (length (le_bytes 8 (of_nat 1 :: u64)) + 20 + 100) k3" using k3(2) by (simp add: roomy_def)
  then obtain k4 where k4: "writeBlock endBlock 2 (le_bytes 8 1) k3 = (Inr (), k4)" "roomy 100 k4"
    using writeBlock_roomy [of "le_bytes 8 (of_nat 1)" 100 k3 endBlock 2] by (auto simp: psrec_limits_def)
  have "sink_flush k4 = (Inr (), k4)" "os_ok (sink_out k4)"
    "sink_poll psrec_check_stop k4 = (Inr (), k4)"
    using k4(2) by (simp_all add: sink_flush_def stream_flush_def sink_poll_def roomy_def)
  then have "psrec_finish (w\<lparr>psw_sink := k3, psw_count := 1\<rparr>) =
      (Inr (), w\<lparr>psw_sink := k4, psw_count := 1, psw_finished := True\<rparr>)"
    using k4(1) by (simp add: psrec_finish_def writer_try_def thenT_def bindT_def sink_check_def w_def numeral_2_eq_2)
  then show ?thesis
    using new k3(1) by (auto simp: psrec_write_file_def thenT_def bindT_def returnT_def)
qed

lemma sample_file_facts:
  "sink_stop psrec_sink = None" "os_ok (sink_out psrec_sink)" "os_data (sink_out psrec_sink) = []"
  "map_wf sample_schemas" "\<forall>r \<in> set [sample_record 5 5]. record_typed r"
  by (simp_all add: psrec_sink_def sample_schemas_def record_typed_def sample_record_def int64_defs)

section \<open>Properties\<close>

lemma written_file:
  assumes "new_PsrecWriter k ss = (Inr w, k')" "psrec_write_file sz rs w = (Inr u, w')"
    and "sink_stop k = None" "os_ok (sink_out k)" "os_data (sink_out k) = []"
  obtains meta ps where "psrec_metadata ss None = (Inr meta, None)" "length meta \<le> maxBytes psrec_limits"
    "records_stored ss rs ps" "length rs \<le> size_max - 1" "os_data (sink_out (psw_sink w')) = file_text meta ps"
proof -
  obtain meta where m: "psrec_metadata ss None = (Inr meta, None)" "writer_ready ss 0 w"
    "length meta \<le> maxBytes psrec_limits"
    "sink_wrote k (chars psrec_header @ chars (block_bytes metadataBlock 0 meta)) (psw_sink w)"
    using new_PsrecWriter_wrote [OF assms(1,3)] by blast
  obtain ps k2 where p: "records_stored ss rs ps" "0 + length rs \<le> size_max - 1" "os_ok (sink_out k2)"
    "sink_wrote (psw_sink w) (blocks_text 0 ps) k2" "os_data (sink_out (psw_sink w')) = os_data (sink_out k2)"
    using psrec_write_file_wrote [OF assms(2) m(2)] by auto
  have "sink_wrote k (file_text meta ps) k2"
    using sink_wrote_trans [OF m(4) p(4)] by (simp add: file_text_def)
  then have "os_data (sink_out k2) = file_text meta ps"
    using p(3) assms(4,5) by (auto simp: sink_wrote_def stream_write_ok stream_write_def split: if_splits)
  with m p that show ?thesis by simp
qed

text \<open>C23: A record file is read back as written. When the writer was created, took all records and
finished without an exception in a task that was not stopped, the reader accepts the file, has the
same schemas, returns the same records in order and then the verified end of the file.\<close>

theorem psrec_file_roundtrip:
  assumes "new_PsrecWriter k ss = (Inr w, k')" "psrec_write_file sz rs w = (Inr u, w')"
    and "sink_stop k = None" "os_ok (sink_out k)" "os_data (sink_out k) = []"
    and "map_wf ss" "\<forall>r \<in> set rs. record_typed r"
  shows "\<exists>p. new_PsrecReader \<lparr>src_in = istream_of (os_data (sink_out (psw_sink w'))), src_stop = None\<rparr> = Inr p \<and>
     psr_schemas p = ss \<and> psrec_read_all (Suc (length rs)) p = map (\<lambda>r. Inr (Some r)) rs @ [Inr None]"
proof -
  obtain meta ps where f: "psrec_metadata ss None = (Inr meta, None)" "length meta \<le> maxBytes psrec_limits"
    "records_stored ss rs ps" "length rs \<le> size_max - 1" "os_data (sink_out (psw_sink w')) = file_text meta ps"
    using written_file [OF assms(1-5)] .
  have "new_PsrecReader (src_at (file_text meta ps)) = Inr (reader_state ss 0 (blocks_text 0 ps))"
    unfolding file_text_def by (rule new_PsrecReader_reads [OF f(1) assms(6) f(2)])
  moreover have "psrec_read_all (Suc (length rs)) (reader_state ss 0 (blocks_text 0 ps)) =
      map (\<lambda>r. Inr (Some r)) rs @ [Inr None]"
    using f(3,4) assms(7) by (intro psrec_read_all_blocks) simp_all
  moreover have "psr_schemas (reader_state ss 0 (blocks_text 0 ps)) = ss" by (simp add: reader_state_def)
  ultimately show ?thesis using f(5) by (simp add: src_at_def)
qed

theorem psrec_file_roundtrip_witness:
  "\<exists>w k' w'. new_PsrecWriter psrec_sink sample_schemas = (Inr w, k') \<and>
     psrec_write_file 40 [sample_record 5 5] w = (Inr (), w') \<and>
     (\<exists>p. new_PsrecReader \<lparr>src_in = istream_of (os_data (sink_out (psw_sink w'))), src_stop = None\<rparr> = Inr p \<and>
       psr_schemas p = sample_schemas \<and> psrec_read_all 2 p = [Inr (Some (sample_record 5 5)), Inr None])"
proof -
  obtain w k' w' where f: "new_PsrecWriter psrec_sink sample_schemas = (Inr w, k')"
    "psrec_write_file 40 [sample_record 5 5] w = (Inr (), w')" using sample_file by blast
  have two: "2 = Suc (length [sample_record 5 5])" by simp
  have list: "[Inr (Some (sample_record 5 5)), Inr None] =
      map (\<lambda>r. Inr (Some r)) [sample_record 5 5] @ [Inr None :: exn + Record option]" by simp
  show ?thesis unfolding two list
    using psrec_file_roundtrip [OF f sample_file_facts] f by blast
qed

text \<open>C24: A file that was cut is never taken for a complete one. Of a file written as above, a proper
prefix of any length, even one that ends between two blocks, either is refused when the reader is
created or never reaches the verified end, however often \<open>next\<close> is called.\<close>

theorem psrec_truncation_detected:
  assumes "new_PsrecWriter k ss = (Inr w, k')" "psrec_write_file sz rs w = (Inr u, w')"
    and "sink_stop k = None" "os_ok (sink_out k)" "os_data (sink_out k) = []"
    and "map_wf ss" "\<forall>r \<in> set rs. record_typed r"
    and "m < length (os_data (sink_out (psw_sink w')))"
    and "new_PsrecReader \<lparr>src_in = istream_of (take m (os_data (sink_out (psw_sink w')))), src_stop = None\<rparr> = Inr p"
  shows "Inr None \<notin> set (psrec_read_all n p)"
proof -
  obtain meta ps where f: "psrec_metadata ss None = (Inr meta, None)" "length meta \<le> maxBytes psrec_limits"
    "records_stored ss rs ps" "length rs \<le> size_max - 1" "os_data (sink_out (psw_sink w')) = file_text meta ps"
    using written_file [OF assms(1-5)] .
  let ?head = "chars psrec_header @ chars (block_bytes metadataBlock 0 meta)"
  have new: "new_PsrecReader (src_at (take m (file_text meta ps))) = Inr p"
    using assms(9) f(5) by (simp add: src_at_def)
  have m: "\<not> m < length ?head"
    using new_PsrecReader_error [OF f(2), of m "blocks_text 0 ps"] new by (auto simp: file_text_def)
  have cut: "take m (file_text meta ps) =
      chars psrec_header @ chars (block_bytes metadataBlock 0 meta) @ take (m - length ?head) (blocks_text 0 ps)"
    using m by (simp add: file_text_def)
  have "p = reader_state ss 0 (take (m - length ?head) (blocks_text 0 ps))"
    using new unfolding cut new_PsrecReader_reads [OF f(1) assms(6) f(2)] by simp
  moreover have "m - length ?head < length (blocks_text 0 ps)"
    using assms(8) m f(5) by (simp add: file_text_def)
  ultimately show ?thesis
    using psrec_read_all_cut [OF f(3) assms(7), of 0] f(4) by simp
qed

theorem psrec_truncation_detected_witness:
  "\<exists>w k' w'. new_PsrecWriter psrec_sink sample_schemas = (Inr w, k') \<and>
     psrec_write_file 40 [sample_record 5 5] w = (Inr (), w') \<and>
     (\<forall>m p n. m < length (os_data (sink_out (psw_sink w'))) \<longrightarrow>
       new_PsrecReader \<lparr>src_in = istream_of (take m (os_data (sink_out (psw_sink w')))), src_stop = None\<rparr> = Inr p \<longrightarrow>
       Inr None \<notin> set (psrec_read_all n p))"
proof -
  obtain w k' w' where f: "new_PsrecWriter psrec_sink sample_schemas = (Inr w, k')"
    "psrec_write_file 40 [sample_record 5 5] w = (Inr (), w')" using sample_file by blast
  show ?thesis using psrec_truncation_detected [OF f sample_file_facts] f by blast
qed

text \<open>C25: A single altered byte in the payload of a block is detected: reading the block with its
original header and checksum, at any place of a file, throws the CRC mismatch.\<close>

theorem psrec_corruption_detected:
  assumes "type = metadataBlock \<or> type = recordBlock \<or> type = endBlock" "a \<noteq> b"
    and "length (xs @ b # ys) \<le> 32 * 1024 * 1024"
  shows "fst (readBlock seq \<lparr>src_in = istream_of
       (map char_of_byte (block_prefix type (length (xs @ b # ys)) seq @ (xs @ b # ys) @
          le_bytes 4 (ucast (crc32Ieee (block_prefix type (length (xs @ b # ys)) seq @ xs @ a # ys)))) @ rest),
     src_stop = None\<rparr>) = Inl (InvalidArgument ''psrec CRC32 mismatch'')"
  using readBlock_altered [of type xs b ys a _ seq rest, OF _ _ assms(2) refl] assms(1,3)
  by (simp add: src_at_def chars_def block_type_ok_def psrec_limits_def)

theorem psrec_corruption_detected_witness:
  "fst (readBlock 1 \<lparr>src_in = istream_of
       (map char_of_byte (block_prefix recordBlock 2 1 @ [7, 9] @
          le_bytes 4 (ucast (crc32Ieee (block_prefix recordBlock 2 1 @ [7, 8])))) @ ''rest''),
     src_stop = None\<rparr>) = Inl (InvalidArgument ''psrec CRC32 mismatch'')"
  using psrec_corruption_detected [of recordBlock 8 9 "[7]" "[]" 1 "''rest''"] by (simp add: numeral_2_eq_2)

text \<open>The table-driven checksum of the file format is the bitwise CRC-32 of the protocol codec, for
any bytes and however they are split between the prefix and the payload.\<close>

theorem psrec_crc_is_crc32:
  "fst (block_checksum prefix payload None) = Inr (crc32Ieee (prefix @ payload))"
  by (simp add: block_checksum_eq)

end
