(* ===== verification/Csv.thy ===== *)
theory Csv
  imports Streams
begin

text \<open>
  CSV rows, from \<open>data/csv.hpp\<close> and \<open>data/csv.cc\<close>: the escaping of a field, the row reader with its
  byte-order-mark prefix, limits and cancellation, and the row writer.
\<close>

section \<open>Escaping\<close>

definition csv_special :: "char \<Rightarrow> bool" where
  "csv_special c \<longleftrightarrow> c = CHR '','' \<or> c = CHR 0x22 \<or> c = CHR 0x0A \<or> c = CHR 0x0D \<or> c = CHR ''#''"

fun csv_double_quotes :: "string \<Rightarrow> string" where
  "csv_double_quotes [] = []"
| "csv_double_quotes (c # cs) =
     (if c = CHR 0x22 then [CHR 0x22, c] else [c]) @ csv_double_quotes cs"

definition csvEscape :: "string \<Rightarrow> string" where
  "csvEscape s =
     (if \<not> list_ex csv_special s then s else [CHR 0x22] @ csv_double_quotes s @ [CHR 0x22])"

section \<open>The row reader\<close>

datatype csv_state = CsvStart | CsvUnquoted | CsvQuoted | CsvClosed

record CsvRowReader =
  csv_stream :: istream
  csv_stop :: stop_token
  csv_maxBytes :: nat
  csv_maxFields :: nat
  csv_prefix :: string
  csv_prefixOffset :: nat
  csv_failed :: bool

text \<open>Up to three bytes are taken to look for the byte-order mark.\<close>

fun take_prefix :: "nat \<Rightarrow> string \<Rightarrow> istream \<Rightarrow> string \<times> istream" where
  "take_prefix 0 prefix s = (prefix, s)"
| "take_prefix (Suc n) prefix s =
     (case stream_get s of
        (None, s) \<Rightarrow> (prefix, s)
      | (Some c, s) \<Rightarrow> take_prefix n (prefix @ [c]) s)"

definition bom :: string where
  "bom = [CHR 0xEF, CHR 0xBB, CHR 0xBF]"

definition new_CsvRowReader :: "istream \<Rightarrow> stop_token \<Rightarrow> nat \<Rightarrow> nat \<Rightarrow> exn + CsvRowReader" where
  "new_CsvRowReader stream stop max_bytes max_fields =
     (if max_bytes = 0 \<or> max_fields = 0 then Inl (InvalidArgument ''invalid CSV limits'')
      else
        let (first, s) = stream_peek stream;
            (prefix, s) = (if first = Some (CHR 0xEF) then take_prefix 3 [] s else ([], s));
            prefix = (if prefix = bom then [] else prefix) in
        Inr \<lparr>csv_stream = s, csv_stop = stop, csv_maxBytes = max_bytes, csv_maxFields = max_fields,
             csv_prefix = prefix, csv_prefixOffset = 0, csv_failed = False\<rparr>)"

definition csv_check_stop :: "CsvRowReader \<Rightarrow> bool \<times> CsvRowReader" where
  "csv_check_stop r = (let (stopped, t) = poll_stop (csv_stop r) in (stopped, r\<lparr>csv_stop := t\<rparr>))"

definition csv_get :: "CsvRowReader \<Rightarrow> char option \<times> CsvRowReader" where
  "csv_get r =
     (if csv_prefixOffset r < length (csv_prefix r)
      then (Some (csv_prefix r ! csv_prefixOffset r), r\<lparr>csv_prefixOffset := Suc (csv_prefixOffset r)\<rparr>)
      else let (c, s) = stream_get (csv_stream r) in (c, r\<lparr>csv_stream := s\<rparr>))"

text \<open>The lambda \<open>finish\<close> that closes a field.\<close>

definition csv_finish :: "nat \<Rightarrow> string list \<Rightarrow> string \<Rightarrow> exn + string list" where
  "csv_finish max_fields fs field =
     (if max_fields \<le> length fs then Inl (InvalidArgument ''CSV column limit exceeded'')
      else Inr (fs @ [field]))"

text \<open>After a carriage return the stream is peeked for the line feed of the same line end.\<close>

definition csv_line_end :: "char \<Rightarrow> CsvRowReader \<Rightarrow> CsvRowReader" where
  "csv_line_end ch r =
     (if ch \<noteq> CHR 0x0D then r
      else
        let (c, s) = stream_peek (csv_stream r) in
        r\<lparr>csv_stream := (if c = Some (CHR 0x0A) then snd (stream_get s) else s)\<rparr>)"

text \<open>What one character does: go on in a state with the fields and the field so far, or end the row.\<close>

datatype csv_step =
    CsvGo csv_state "string list" string
  | CsvRow "string list"
  | CsvFail exn

definition csv_char ::
    "nat \<Rightarrow> csv_state \<Rightarrow> string list \<Rightarrow> string \<Rightarrow> char \<Rightarrow> CsvRowReader \<Rightarrow> csv_step \<times> CsvRowReader" where
  "csv_char max_fields state fs field ch r =
     (if state = CsvQuoted then
        (if ch = CHR 0x22 then (CsvGo CsvClosed fs field, r)
         else (CsvGo CsvQuoted fs (field @ [ch]), r))
      else if state = CsvClosed \<and> ch = CHR 0x22 then (CsvGo CsvQuoted fs (field @ [ch]), r)
      else if ch = CHR '','' then
        (case csv_finish max_fields fs field of
           Inl e \<Rightarrow> (CsvFail e, r) | Inr fs \<Rightarrow> (CsvGo CsvStart fs [], r))
      else if ch = CHR 0x0A \<or> ch = CHR 0x0D then
        (case csv_finish max_fields fs field of
           Inl e \<Rightarrow> (CsvFail e, csv_line_end ch r) | Inr fs \<Rightarrow> (CsvRow fs, csv_line_end ch r))
      else if state = CsvClosed \<or> (ch = CHR 0x22 \<and> state \<noteq> CsvStart)
      then (CsvFail (InvalidArgument ''CSV misplaced quote''), r)
      else if ch = CHR 0x22 then (CsvGo CsvQuoted fs field, r)
      else (CsvGo CsvUnquoted fs (field @ [ch]), r))"

definition csv_end :: "nat \<Rightarrow> csv_state \<Rightarrow> string list \<Rightarrow> string \<Rightarrow> nat \<Rightarrow> istream \<Rightarrow> exn + string list option" where
  "csv_end max_fields state fs field n s =
     (if is_bad s \<or> (\<not> is_eof s \<and> is_fail s) then Inl (RuntimeError ''CSV read failed'')
      else if state = CsvQuoted then Inl (InvalidArgument ''CSV unclosed quote'')
      else if n = 0 then Inr None
      else map_sum id Some (csv_finish max_fields fs field))"

definition csv_pending :: "CsvRowReader \<Rightarrow> nat" where
  "csv_pending r = (length (csv_prefix r) - csv_prefixOffset r) + length (is_rest (csv_stream r))"

lemma csv_get_pending: "csv_get r = (Some c, r') \<Longrightarrow> csv_pending r = Suc (csv_pending r')"
  by (auto simp: csv_get_def csv_pending_def Let_def split: if_splits prod.splits dest: stream_get_length)

lemma csv_line_end_pending: "csv_pending (csv_line_end ch r) \<le> csv_pending r"
proof -
  obtain c s where p: "stream_peek (csv_stream r) = (c, s)" by (meson surj_pair)
  obtain c' s' where g: "stream_get s = (c', s')" by (meson surj_pair)
  have "is_rest s = is_rest (csv_stream r)" using stream_peek_rest [of "csv_stream r"] p by simp
  with stream_get_le [OF g] show ?thesis by (simp add: csv_line_end_def csv_pending_def p g)
qed

lemma csv_char_pending: "csv_char m st fs f ch r = (x, r') \<Longrightarrow> csv_pending r' \<le> csv_pending r"
  using csv_line_end_pending [of ch r]
  by (auto simp: csv_char_def split: if_splits sum.splits)

lemma csv_check_stop_pending: "csv_check_stop r = (b, r') \<Longrightarrow> csv_pending r' = csv_pending r"
  by (auto simp: csv_check_stop_def csv_pending_def Let_def split: prod.splits)

text \<open>The loop over the characters of a row; \<open>n\<close> is the number of bytes read so far.\<close>

function csv_scan ::
    "csv_state \<Rightarrow> string list \<Rightarrow> string \<Rightarrow> nat \<Rightarrow> CsvRowReader \<Rightarrow> (exn + string list option) \<times> CsvRowReader"
where
  "csv_scan state fs field n r =
     (let (stopped, r) = (if n mod 65536 = 0 then csv_check_stop r else (False, r)) in
      if stopped then (Inl (RuntimeError ''CSV task canceled''), r)
      else case csv_get r of
        (None, r) \<Rightarrow> (csv_end (csv_maxFields r) state fs field n (csv_stream r), r)
      | (Some ch, r) \<Rightarrow>
          (if csv_maxBytes r < Suc n then (Inl (InvalidArgument ''CSV row byte limit exceeded''), r)
           else case csv_char (csv_maxFields r) state fs field ch r of
             (CsvGo state fs field, r) \<Rightarrow> csv_scan state fs field (Suc n) r
           | (CsvRow fs, r) \<Rightarrow> (Inr (Some fs), r)
           | (CsvFail e, r) \<Rightarrow> (Inl e, r)))"
  by pat_completeness auto

termination
proof (relation "measure (\<lambda>(state, fs, field, n, r). csv_pending r)")
qed (auto dest!: csv_get_pending [OF sym] csv_char_pending [OF sym] csv_check_stop_pending [OF sym]
      split: if_splits)

text \<open>\<open>next\<close>: any exception leaves the reader failed.\<close>

definition csv_next :: "CsvRowReader \<Rightarrow> (exn + string list option) \<times> CsvRowReader" where
  "csv_next r =
     (if csv_failed r then (Inl (LogicError ''CSV reader has failed''), r)
      else case csv_scan CsvStart [] [] 0 r of
        (Inl e, r) \<Rightarrow> (Inl e, r\<lparr>csv_failed := True\<rparr>)
      | (Inr row, r) \<Rightarrow> (Inr row, r))"

section \<open>The row writer\<close>

definition csv_byte_limit :: nat where
  "csv_byte_limit = 32 * 1024 * 1024"

fun csv_sum_fields :: "string list \<Rightarrow> nat \<Rightarrow> exn + nat" where
  "csv_sum_fields [] n = Inr n"
| "csv_sum_fields (f # fs) n =
     (if csv_byte_limit - n < length f then Inl (InvalidArgument ''CSV row byte limit exceeded'')
      else csv_sum_fields fs (n + length f))"

definition csv_canceled :: exn where
  "csv_canceled = RuntimeError ''CSV task canceled''"

definition csv_write_failed :: exn where
  "csv_write_failed = RuntimeError ''CSV write failed''"

text \<open>The loop over the fields from index \<open>i\<close> on, with the bytes counted so far.\<close>

fun csv_write_fields :: "nat \<Rightarrow> string list \<Rightarrow> nat \<Rightarrow> (sink, unit) task" where
  "csv_write_fields i [] n = returnT ()"
| "csv_write_fields i (f # fs) n =
     thenT (sink_check_stop csv_canceled)
       (thenT (if i \<noteq> 0 then sink_write '','' else returnT ())
         (let escaped = csvEscape f; size = length escaped + (if i \<noteq> 0 then 1 else 0) in
          if csv_byte_limit - n < size
          then throwT (InvalidArgument ''CSV encoded row exceeds limit'')
          else thenT (write_chunks csv_canceled csv_write_failed escaped)
                 (csv_write_fields (Suc i) fs (n + size))))"

definition writeCsvRow :: "string list \<Rightarrow> (sink, unit) task" where
  "writeCsvRow fs =
     thenT (sink_check_stop csv_canceled)
       (thenT (rejectT (4096 < length fs) (InvalidArgument ''CSV column limit exceeded''))
         (bindT (liftT (csv_sum_fields fs 0)) (\<lambda>_.
           thenT (csv_write_fields 0 fs 1)
             (thenT (sink_write [CHR 0x0A]) (sink_check csv_write_failed)))))"

section \<open>What a row is written as\<close>

fun csv_fields_text :: "nat \<Rightarrow> string list \<Rightarrow> string" where
  "csv_fields_text i [] = []"
| "csv_fields_text i (f # fs) = (if i \<noteq> 0 then '','' else []) @ csvEscape f @ csv_fields_text (Suc i) fs"

definition csv_row :: "string list \<Rightarrow> string" where
  "csv_row fs = csv_fields_text 0 fs @ [CHR 0x0A]"

lemma csv_write_fields_wrote:
  "csv_write_fields i fs n k = (Inr u, k') \<Longrightarrow> sink_stop k = None \<Longrightarrow>
     sink_wrote k (csv_fields_text i fs) k' \<and>
     (n \<le> csv_byte_limit \<longrightarrow> n + length (csv_fields_text i fs) \<le> csv_byte_limit)"
proof (induction i fs n arbitrary: k rule: csv_write_fields.induct)
  case (2 i f fs n)
  let ?sep = "if i \<noteq> 0 then '','' else []" and ?e = "csvEscape f"
  let ?size = "length ?e + (if i \<noteq> 0 then 1 else 0)"
  have fit: "\<not> csv_byte_limit - n < ?size"
    using "2.prems"(1) by (auto simp: Let_def split: if_splits)
  obtain k1 where k1: "(if i \<noteq> 0 then sink_write '','' else returnT ()) k = (Inr (), k1)"
    and r1: "thenT (write_chunks csv_canceled csv_write_failed ?e) (csv_write_fields (Suc i) fs (n + ?size)) k1 = (Inr u, k')"
    using "2.prems" fit by (auto simp: sink_check_stop_never Let_def split: if_splits)
  have w1: "sink_wrote k ?sep k1"
    using k1 "2.prems"(2) by (cases "i = 0") (simp_all add: sink_write_wrote sink_wrote_nil)
  obtain k2 where w2: "sink_wrote k1 ?e k2" and r2: "csv_write_fields (Suc i) fs (n + ?size) k2 = (Inr u, k')"
    using r1 write_chunks_iff [OF sink_wrote_stop [OF w1]] by auto
  note IH = "2.IH" [OF refl refl fit r2 sink_wrote_stop [OF w2]]
  have "sink_wrote k ((?sep @ ?e) @ csv_fields_text (Suc i) fs) k'"
    using sink_wrote_trans [OF sink_wrote_trans [OF w1 w2]] IH by blast
  moreover have "n + (length ?sep + length ?e + length (csv_fields_text (Suc i) fs)) \<le> csv_byte_limit"
    if "n \<le> csv_byte_limit"
    using IH that fit by (cases "i = 0") auto
  ultimately show ?case by (cases "i = 0") auto
qed simp

lemma writeCsvRow_wrote:
  assumes "writeCsvRow fs k = (Inr u, k')" "sink_stop k = None"
  shows "sink_wrote k (csv_row fs) k' \<and> os_ok (sink_out k') \<and> length (csv_row fs) \<le> csv_byte_limit \<and>
     length fs \<le> 4096"
proof -
  obtain k1 where k1: "csv_write_fields 0 fs 1 k = (Inr (), k1)"
    and k2: "sink_write [CHR 0x0A] k1 = (Inr (), k')" "os_ok (sink_out k')" and len: "length fs \<le> 4096"
    using assms by (auto simp: writeCsvRow_def sink_check_stop_never not_less)
  note w1 = csv_write_fields_wrote [OF k1 assms(2)]
  have "sink_wrote k1 [CHR 0x0A] k'" using k2(1) sink_write_wrote sink_wrote_stop w1 by blast
  then have "sink_wrote k (csv_row fs) k'"
    unfolding csv_row_def using w1 sink_wrote_trans by blast
  with w1 k2(2) len show ?thesis by (simp add: csv_row_def csv_byte_limit_def)
qed

section \<open>The reader reads back a written row\<close>

text \<open>A reader past its prefix, on a good stream with the given text to come, never stopped.\<close>

definition reader_at :: "CsvRowReader \<Rightarrow> string \<Rightarrow> CsvRowReader" where
  "reader_at r cs = r\<lparr>csv_stream := csv_stream r\<lparr>is_rest := cs\<rparr>\<rparr>"

definition reader_ready :: "CsvRowReader \<Rightarrow> bool" where
  "reader_ready r \<longleftrightarrow> is_good (csv_stream r) \<and> length (csv_prefix r) \<le> csv_prefixOffset r \<and>
     csv_stop r = None \<and> \<not> csv_failed r"

declare csv_scan.simps [simp del]

lemma reader_at_simps [simp]:
  "csv_maxBytes (reader_at r cs) = csv_maxBytes r" "csv_maxFields (reader_at r cs) = csv_maxFields r"
  "reader_ready (reader_at r cs) = reader_ready r" "reader_at (reader_at r cs) cs' = reader_at r cs'"
  "csv_failed (reader_at r cs) = csv_failed r"
  by (simp_all add: reader_at_def reader_ready_def is_good_def)

lemma csv_scan_step:
  assumes "reader_ready r" "n < csv_maxBytes r"
  shows "csv_scan state fs field n (reader_at r (c # cs)) =
     (case csv_char (csv_maxFields r) state fs field c (reader_at r cs) of
        (CsvGo state fs field, r) \<Rightarrow> csv_scan state fs field (Suc n) r
      | (CsvRow fs, r) \<Rightarrow> (Inr (Some fs), r)
      | (CsvFail e, r) \<Rightarrow> (Inl e, r))"
proof -
  have "csv_check_stop (reader_at r (c # cs)) = (False, reader_at r (c # cs))"
    using assms(1) by (simp add: csv_check_stop_def reader_ready_def reader_at_def)
  moreover have "csv_get (reader_at r (c # cs)) = (Some c, reader_at r cs)"
    using assms(1) by (simp add: csv_get_def reader_ready_def reader_at_def stream_get_def is_good_def)
  ultimately show ?thesis using assms(2) by (subst csv_scan.simps) (simp add: Let_def)
qed

lemma csv_scan_unquoted:
  "reader_ready r \<Longrightarrow> \<not> list_ex csv_special s \<Longrightarrow> state = CsvStart \<or> state = CsvUnquoted \<Longrightarrow>
   n + length s \<le> csv_maxBytes r \<Longrightarrow>
   csv_scan state fs field n (reader_at r (s @ cs)) =
   csv_scan (if s = [] then state else CsvUnquoted) fs (field @ s) (n + length s) (reader_at r cs)"
proof (induction s arbitrary: state field n)
  case (Cons c s)
  have "csv_char (csv_maxFields r) state fs field c (reader_at r (s @ cs)) =
      (CsvGo CsvUnquoted fs (field @ [c]), reader_at r (s @ cs))"
    using Cons.prems by (auto simp: csv_char_def csv_special_def)
  then show ?case
    using Cons.prems Cons.IH [of CsvUnquoted "Suc n" "field @ [c]"] by (simp add: csv_scan_step)
qed simp

lemma csv_scan_quoted:
  "reader_ready r \<Longrightarrow> n + length (csv_double_quotes s) \<le> csv_maxBytes r \<Longrightarrow>
   csv_scan CsvQuoted fs field n (reader_at r (csv_double_quotes s @ cs)) =
   csv_scan CsvQuoted fs (field @ s) (n + length (csv_double_quotes s)) (reader_at r cs)"
proof (induction s arbitrary: field n)
  case (Cons c s)
  show ?case
  proof (cases "c = CHR 0x22")
    case True
    have "csv_char (csv_maxFields r) CsvQuoted fs field c r' = (CsvGo CsvClosed fs field, r')"
      "csv_char (csv_maxFields r) CsvClosed fs field c r' = (CsvGo CsvQuoted fs (field @ [c]), r')" for r'
      using True by (simp_all add: csv_char_def)
    then show ?thesis
      using Cons True by (simp add: csv_scan_step)
  next
    case False
    have "csv_char (csv_maxFields r) CsvQuoted fs field c r' = (CsvGo CsvQuoted fs (field @ [c]), r')" for r'
      using False by (simp add: csv_char_def)
    then show ?thesis using Cons False by (simp add: csv_scan_step)
  qed
qed simp

text \<open>A field as it is escaped, or in quotes whatever it holds.\<close>

definition csv_form :: "string \<Rightarrow> string \<Rightarrow> bool" where
  "csv_form s e \<longleftrightarrow> e = csvEscape s \<or> e = CHR 0x22 # csv_double_quotes s @ [CHR 0x22]"

text \<open>Both forms are read up to a state in which the field may end.\<close>

lemma csv_scan_quoted_field:
  assumes "reader_ready r" "n + (length (csv_double_quotes s) + 2) \<le> csv_maxBytes r"
  shows "csv_scan CsvStart fs [] n (reader_at r (CHR 0x22 # csv_double_quotes s @ CHR 0x22 # cs)) =
     csv_scan CsvClosed fs s (n + (length (csv_double_quotes s) + 2)) (reader_at r cs)"
proof -
  let ?q = "CHR 0x22"
  have len: "n + (length (csv_double_quotes s) + 2) = Suc (Suc n + length (csv_double_quotes s))" by simp
  have c: "csv_char (csv_maxFields r) CsvStart fs [] ?q r' = (CsvGo CsvQuoted fs [], r')"
    "csv_char (csv_maxFields r) CsvQuoted fs s ?q r' = (CsvGo CsvClosed fs s, r')" for r'
    by (simp_all add: csv_char_def)
  have "csv_scan CsvStart fs [] n (reader_at r (?q # csv_double_quotes s @ ?q # cs)) =
      csv_scan CsvQuoted fs [] (Suc n) (reader_at r (csv_double_quotes s @ ?q # cs))"
    using assms by (simp add: csv_scan_step c)
  also have "\<dots> = csv_scan CsvQuoted fs s (Suc n + length (csv_double_quotes s)) (reader_at r (?q # cs))"
    using csv_scan_quoted [OF assms(1), of "Suc n" s fs "[]" "?q # cs"] assms(2) by simp
  also have "\<dots> = csv_scan CsvClosed fs s (n + (length (csv_double_quotes s) + 2)) (reader_at r cs)"
    using assms unfolding len by (subst csv_scan_step) (simp_all add: c)
  finally show ?thesis .
qed

lemma csv_scan_field:
  assumes "reader_ready r" "csv_form s e" "n + length e \<le> csv_maxBytes r"
  obtains state where "state \<noteq> CsvQuoted"
    "csv_scan CsvStart fs [] n (reader_at r (e @ cs)) = csv_scan state fs s (n + length e) (reader_at r cs)"
proof (cases "e = s \<and> \<not> list_ex csv_special s")
  case True
  then show ?thesis
    using csv_scan_unquoted [OF assms(1), of s CsvStart n fs "[]" cs] assms(3)
    by (intro that [of "if s = [] then CsvStart else CsvUnquoted"]) auto
next
  case False
  then have "e = CHR 0x22 # csv_double_quotes s @ [CHR 0x22]"
    using assms(2) by (auto simp: csv_form_def csvEscape_def split: if_splits)
  then show ?thesis
    using csv_scan_quoted_field [OF assms(1), of n s fs cs] assms(3) by (intro that [of CsvClosed]) simp_all
qed

lemma csv_char_separators:
  "state \<noteq> CsvQuoted \<Longrightarrow> length fs < m \<Longrightarrow>
     csv_char m state fs field (CHR '','') r = (CsvGo CsvStart (fs @ [field]) [], r)"
  "state \<noteq> CsvQuoted \<Longrightarrow> length fs < m \<Longrightarrow>
     csv_char m state fs field (CHR 0x0A) r = (CsvRow (fs @ [field]), r)"
  by (simp_all add: csv_char_def csv_finish_def csv_line_end_def)

text \<open>Encoded fields with commas between them.\<close>

fun csv_tail :: "string list \<Rightarrow> string" where
  "csv_tail [] = []"
| "csv_tail (e # es) = CHR '','' # e @ csv_tail es"

lemma csv_fields_text_tail: "csv_fields_text (Suc i) fs = csv_tail (map csvEscape fs)"
  by (induction fs arbitrary: i) auto

lemma csv_row_tail: "csv_row (f # fs) = csvEscape f @ csv_tail (map csvEscape fs) @ [CHR 0x0A]"
  by (simp add: csv_row_def csv_fields_text_tail)

lemma csv_scan_row:
  "reader_ready r \<Longrightarrow> csv_form f e \<Longrightarrow> list_all2 csv_form fs es \<Longrightarrow>
   n + length (e @ csv_tail es) < csv_maxBytes r \<Longrightarrow> length done + Suc (length fs) \<le> csv_maxFields r \<Longrightarrow>
   csv_scan CsvStart done [] n (reader_at r (e @ csv_tail es @ CHR 0x0A # cs)) =
     (Inr (Some (done @ f # fs)), reader_at r cs)"
proof (induction fs arbitrary: n f e es "done")
  case Nil
  obtain state where s: "state \<noteq> CsvQuoted"
    "csv_scan CsvStart done [] n (reader_at r (e @ CHR 0x0A # cs)) =
     csv_scan state done f (n + length e) (reader_at r (CHR 0x0A # cs))"
    using csv_scan_field [of r f e n "done" "CHR 0x0A # cs"] Nil.prems by auto
  have "length done < csv_maxFields r" using Nil.prems by simp
  note c = csv_char_separators(2) [OF s(1) this]
  show ?case using s(2) Nil.prems by (simp add: csv_scan_step c)
next
  case (Cons g gs)
  then obtain e' es' where es: "es = e' # es'" "csv_form g e'" "list_all2 csv_form gs es'"
    by (auto simp: list_all2_Cons1)
  let ?rest = "e' @ csv_tail es' @ CHR 0x0A # cs"
  obtain state where s: "state \<noteq> CsvQuoted"
    "csv_scan CsvStart done [] n (reader_at r (e @ CHR '','' # ?rest)) =
     csv_scan state done f (n + length e) (reader_at r (CHR '','' # ?rest))"
    using csv_scan_field [of r f e n "done" "CHR '','' # ?rest"] Cons.prems es by auto
  have "length done < csv_maxFields r" using Cons.prems by simp
  note c = csv_char_separators(1) [OF s(1) this]
  have "csv_scan CsvStart done [] n (reader_at r (e @ CHR '','' # ?rest)) =
      csv_scan CsvStart (done @ [f]) [] (Suc (n + length e)) (reader_at r ?rest)"
    using s(2) Cons.prems es by (simp add: csv_scan_step c)
  also have "\<dots> = (Inr (Some ((done @ [f]) @ g # gs)), reader_at r cs)"
    using Cons.prems es by (intro Cons.IH) auto
  finally show ?case by (simp add: es)
qed

lemma csv_next_forms:
  assumes "reader_ready r" "csv_form f e" "list_all2 csv_form fs es"
    and "length (e @ csv_tail es) < csv_maxBytes r" "length fs < csv_maxFields r"
  shows "csv_next (reader_at r (e @ csv_tail es @ CHR 0x0A # cs)) = (Inr (Some (f # fs)), reader_at r cs)"
proof -
  have "csv_scan CsvStart [] [] 0 (reader_at r (e @ csv_tail es @ CHR 0x0A # cs)) =
      (Inr (Some ([] @ f # fs)), reader_at r cs)"
    using assms by (intro csv_scan_row) simp_all
  moreover have "\<not> csv_failed r" using assms(1) by (simp add: reader_ready_def)
  ultimately show ?thesis by (simp add: csv_next_def)
qed

lemma csv_next_row:
  assumes "reader_ready r" "fs \<noteq> []" "length (csv_row fs) \<le> csv_maxBytes r" "length fs \<le> csv_maxFields r"
  shows "csv_next (reader_at r (csv_row fs @ cs)) = (Inr (Some fs), reader_at r cs)"
proof -
  obtain g gs where fs: "fs = g # gs" using assms(2) by (cases fs) auto
  show ?thesis
    using csv_next_forms [OF assms(1), of g "csvEscape g" gs "map csvEscape gs" cs] assms(3,4)
    by (simp add: fs csv_row_tail csv_form_def list_all2_conv_all_nth)
qed

lemma csv_next_end:
  assumes "reader_ready r" "\<not> is_fault (csv_stream r)"
  shows "\<exists>r'. csv_next (reader_at r []) = (Inr None, r')"
  using assms
  by (auto simp: csv_next_def csv_scan.simps [of CsvStart] csv_check_stop_def csv_get_def reader_at_def
      reader_ready_def stream_get_def is_good_def is_end_def csv_end_def Let_def)

fun csv_read_rows :: "nat \<Rightarrow> CsvRowReader \<Rightarrow> (exn + string list option) list" where
  "csv_read_rows 0 r = []"
| "csv_read_rows (Suc n) r = (let (row, r) = csv_next r in row # csv_read_rows n r)"

lemma csv_read_rows_eq:
  "reader_ready r \<Longrightarrow> \<not> is_fault (csv_stream r) \<Longrightarrow>
   \<forall>fs \<in> set rows. fs \<noteq> [] \<and> length (csv_row fs) \<le> csv_maxBytes r \<and> length fs \<le> csv_maxFields r \<Longrightarrow>
   csv_read_rows (Suc (length rows)) (reader_at r (concat (map csv_row rows))) =
     map (\<lambda>fs. Inr (Some fs)) rows @ [Inr None]"
proof (induction rows)
  case Nil
  then show ?case using csv_next_end [of r] by (auto simp: Let_def)
next
  case (Cons fs rows)
  have "csv_next (reader_at r (csv_row fs @ concat (map csv_row rows))) =
      (Inr (Some fs), reader_at r (concat (map csv_row rows)))"
    using Cons.prems by (intro csv_next_row) auto
  then show ?case using Cons by (simp del: csv_read_rows.simps(2) add: csv_read_rows.simps(2) [of "Suc (length rows)"])
qed

lemma forT_writeCsvRow:
  "forT writeCsvRow rows k = (Inr u, k') \<Longrightarrow> sink_stop k = None \<Longrightarrow> os_ok (sink_out k) \<Longrightarrow>
     sink_wrote k (concat (map csv_row rows)) k' \<and> os_ok (sink_out k') \<and>
     (\<forall>fs \<in> set rows. length (csv_row fs) \<le> csv_byte_limit \<and> length fs \<le> 4096)"
proof (induction rows arbitrary: k)
  case (Cons fs rows)
  then obtain k1 where k1: "writeCsvRow fs k = (Inr (), k1)" "forT writeCsvRow rows k1 = (Inr u, k')" by auto
  note w = writeCsvRow_wrote [OF k1(1) Cons.prems(2)]
  have "sink_stop k1 = None" using w sink_wrote_stop by blast
  with Cons.IH [OF k1(2)] w sink_wrote_trans show ?case by fastforce
qed (auto simp: sink_wrote_nil)

lemma new_reader_ready:
  assumes "new_CsvRowReader (istream_of cs) None max_bytes max_fields = Inr r" "cs = [] \<or> hd cs \<noteq> CHR 0xEF"
    "cs \<noteq> []"
  shows "reader_ready r \<and> r = reader_at r cs \<and> csv_maxBytes r = max_bytes \<and> csv_maxFields r = max_fields \<and>
     \<not> is_fault (csv_stream r)"
  using assms
  by (cases cs) (auto simp: new_CsvRowReader_def stream_peek_def istream_of_def is_good_def Let_def
      reader_ready_def reader_at_def bom_def split: if_splits)

lemma new_reader_exists:
  "0 < max_bytes \<Longrightarrow> 0 < max_fields \<Longrightarrow> \<exists>r. new_CsvRowReader s t max_bytes max_fields = Inr r"
  by (simp add: new_CsvRowReader_def Let_def split_beta)

section \<open>The rows the writer accepts\<close>

lemma length_csvEscape: "length s \<le> length (csvEscape s)"
proof -
  have "length s \<le> length (csv_double_quotes s)" by (induction s) auto
  then show ?thesis by (simp add: csvEscape_def)
qed

lemma csv_sum_fields_fits:
  "n + length (csv_fields_text i fs) \<le> csv_byte_limit \<Longrightarrow> \<exists>m. csv_sum_fields fs n = Inr m"
proof (induction fs arbitrary: n i)
  case (Cons f fs)
  have "n + length f + length (csv_fields_text (Suc i) fs) \<le> csv_byte_limit" "\<not> csv_byte_limit - n < length f"
    using Cons.prems length_csvEscape [of f] by auto
  then show ?case using Cons.IH by simp
qed simp

lemma csv_write_fields_fits:
  "sink_stop k = None \<Longrightarrow> os_ok (sink_out k) \<Longrightarrow> length (csv_fields_text i fs) \<le> os_room (sink_out k) \<Longrightarrow>
   n + length (csv_fields_text i fs) \<le> csv_byte_limit \<Longrightarrow> \<exists>k'. csv_write_fields i fs n k = (Inr (), k')"
proof (induction i fs n arbitrary: k rule: csv_write_fields.induct)
  case (2 i f fs n)
  let ?sep = "if i \<noteq> 0 then '','' else []" and ?e = "csvEscape f"
  let ?size = "length ?e + (if i \<noteq> 0 then 1 else 0)"
  let ?k1 = "k\<lparr>sink_out := stream_write ?sep (sink_out k)\<rparr>"
  let ?k2 = "?k1\<lparr>sink_out := stream_write ?e (sink_out ?k1)\<rparr>"
  have fit: "\<not> csv_byte_limit - n < ?size" "n + ?size + length (csv_fields_text (Suc i) fs) \<le> csv_byte_limit"
    using "2.prems"(4) by (auto split: if_splits)
  have room: "length ?sep \<le> os_room (sink_out k)" "length ?e \<le> os_room (sink_out ?k1)"
    "os_ok (sink_out ?k1)" "os_ok (sink_out ?k2)" "length (csv_fields_text (Suc i) fs) \<le> os_room (sink_out ?k2)"
    using "2.prems"(2,3) by (auto simp: stream_write_def)
  have w1: "(if i \<noteq> 0 then sink_write '','' else returnT ()) k = (Inr (), ?k1)"
    by (simp add: sink_write_def)
  have "sink_stop ?k1 = None" using "2.prems"(1) by simp
  then have w2: "write_chunks csv_canceled csv_write_failed ?e ?k1 = (Inr (), ?k2)"
    using room by (subst write_chunks_iff) (simp_all add: sink_wrote_def)
  have "sink_stop ?k2 = None" using "2.prems"(1) by simp
  from "2.IH" [OF refl refl fit(1) this room(4,5) fit(2)] obtain k' where
    "csv_write_fields (Suc i) fs (n + ?size) ?k2 = (Inr (), k')" by blast
  then show ?case
    using w1 w2 fit(1) "2.prems"(1) by (intro exI [of _ k']) (auto simp: sink_check_stop_never Let_def)
qed simp

lemma writeCsvRow_fits:
  assumes "sink_stop k = None" "os_ok (sink_out k)" "length (csv_row fs) \<le> os_room (sink_out k)"
    and fits: "length fs \<le> 4096" "length (csv_row fs) \<le> csv_byte_limit"
  shows "\<exists>k'. writeCsvRow fs k = (Inr (), k')"
proof -
  have len: "1 + length (csv_fields_text 0 fs) \<le> csv_byte_limit"
    "length (csv_fields_text 0 fs) \<le> os_room (sink_out k)"
    using fits(2) assms(3) by (simp_all add: csv_row_def)
  obtain m where m: "csv_sum_fields fs 0 = Inr m" using csv_sum_fields_fits [of 0 0 fs] len(1) by auto
  obtain k1 where k1: "csv_write_fields 0 fs 1 k = (Inr (), k1)"
    using csv_write_fields_fits [OF assms(1,2) len(2,1)] by blast
  have "sink_wrote k (csv_fields_text 0 fs) k1" using csv_write_fields_wrote [OF k1 assms(1)] by simp
  then have ok: "os_ok (sink_out (k1\<lparr>sink_out := stream_write [CHR 0x0A] (sink_out k1)\<rparr>))"
    using assms(2,3) len(2) by (auto simp: sink_wrote_def stream_write_def csv_row_def)
  have "\<not> 4096 < length fs" using fits(1) by simp
  with m k1 have "writeCsvRow fs k =
      thenT (sink_write [CHR 0x0A]) (sink_check csv_write_failed) k1"
    unfolding writeCsvRow_def thenT_def bindT_def sink_check_stop_never [OF assms(1)] liftT_def rejectT_def returnT_def
    by (simp only: sum.case prod.case if_False)
  with ok show ?thesis by (simp add: thenT_def bindT_def sink_write_def sink_check_def)
qed

section \<open>Properties\<close>

text \<open>C22: CSV files are read back as written. Rows that \<open>writeCsvRow\<close> wrote without an exception, by a
task that was not stopped, are returned by \<open>CsvRowReader::next\<close> one by one with the same fields,
whatever quotes, commas, line ends or comment signs they hold, and then the end of the file. (The
rows have at least one field, and the file does not begin with the first byte of a byte-order mark.)\<close>

theorem csv_file_roundtrip:
  assumes "forT writeCsvRow rows k = (Inr u, k')" "sink_stop k = None" "os_ok (sink_out k)"
    and "os_data (sink_out k) = []" "rows \<noteq> []" "\<forall>fs \<in> set rows. fs \<noteq> []"
    and "hd (os_data (sink_out k')) \<noteq> CHR 0xEF"
  shows "\<exists>r. new_CsvRowReader (istream_of (os_data (sink_out k'))) None csv_byte_limit 4096 = Inr r \<and>
     csv_read_rows (Suc (length rows)) r = map (\<lambda>fs. Inr (Some fs)) rows @ [Inr None]"
proof -
  obtain r where new: "new_CsvRowReader (istream_of (os_data (sink_out k'))) None csv_byte_limit 4096 = Inr r"
    using new_reader_exists by (force simp: csv_byte_limit_def)
  note w = forT_writeCsvRow [OF assms(1-3)]
  then have data: "os_data (sink_out k') = concat (map csv_row rows)"
    using assms(3,4) by (auto simp: sink_wrote_def stream_write_ok stream_write_def)
  have "concat (map csv_row rows) \<noteq> []" using assms(5) by (cases rows) (simp_all add: csv_row_def)
  with new_reader_ready [OF new] assms(7) data
  have r: "reader_ready r" "r = reader_at r (concat (map csv_row rows))" "csv_maxBytes r = csv_byte_limit"
    "csv_maxFields r = 4096" "\<not> is_fault (csv_stream r)" by simp_all
  have "csv_read_rows (Suc (length rows)) (reader_at r (concat (map csv_row rows))) =
      map (\<lambda>fs. Inr (Some fs)) rows @ [Inr None]"
    using w r assms(6) by (intro csv_read_rows_eq) auto
  with r(2) new show ?thesis by auto
qed

definition sample_sink :: sink where
  "sample_sink = \<lparr>sink_out = \<lparr>os_data = [], os_room = 1000, os_ok = True, os_flushes = True\<rparr>, sink_stop = None\<rparr>"

definition sample_rows :: "string list list" where
  "sample_rows = [[''a'', ''b,c''], [[CHR 0x22, CHR 0x0A]]]"

lemma sample_rows_written:
  "forT writeCsvRow sample_rows sample_sink =
     (Inr (), sample_sink\<lparr>sink_out := stream_write (concat (map csv_row sample_rows)) (sink_out sample_sink)\<rparr>)"
  by (simp add: sample_rows_def sample_sink_def writeCsvRow_def thenT_def bindT_def rejectT_def
      returnT_def liftT_def sink_check_stop_def sink_write_def sink_check_def stream_write_def
      csv_byte_limit_def csvEscape_def csv_special_def write_chunks.simps csv_row_def Let_def)

theorem csv_file_roundtrip_witness:
  "\<exists>r. new_CsvRowReader (istream_of (concat (map csv_row sample_rows))) None csv_byte_limit 4096 = Inr r \<and>
     csv_read_rows 3 r = map (\<lambda>fs. Inr (Some fs)) sample_rows @ [Inr None]"
proof -
  let ?cs = "concat (map csv_row sample_rows)"
  have data: "os_data (stream_write ?cs (sink_out sample_sink)) = ?cs"
    by (simp add: sample_sink_def stream_write_def sample_rows_def csv_row_def csvEscape_def csv_special_def)
  have hd: "hd ?cs \<noteq> CHR 0xEF" by (simp add: sample_rows_def csv_row_def csvEscape_def csv_special_def)
  have "\<exists>r. new_CsvRowReader (istream_of ?cs) None csv_byte_limit 4096 = Inr r \<and>
      csv_read_rows (Suc (length sample_rows)) r = map (\<lambda>fs. Inr (Some fs)) sample_rows @ [Inr None]"
    using csv_file_roundtrip [OF sample_rows_written] hd data
    by (simp add: sample_sink_def sample_rows_def)
  then show ?thesis by (simp add: sample_rows_def numeral_3_eq_3)
qed

text \<open>A carriage return and line feed is one line end, except right after a byte that was held back
while looking for the byte-order mark: \<open>next\<close> looks for the line feed in the stream only, so a file of
the bytes EF 0D 0A is read as two rows, the second of them an empty field that is not in the file,
where the same line with any other first byte is one row.\<close>

theorem csv_prefix_line_end:
  "(\<exists>r. new_CsvRowReader (istream_of [CHR 0xEF, CHR 0x0D, CHR 0x0A]) None csv_byte_limit 4096 = Inr r \<and>
     csv_read_rows 3 r = [Inr (Some [[CHR 0xEF]]), Inr (Some [[]]), Inr None]) \<and>
   (\<exists>r. new_CsvRowReader (istream_of [CHR 0xEE, CHR 0x0D, CHR 0x0A]) None csv_byte_limit 4096 = Inr r \<and>
     csv_read_rows 2 r = [Inr (Some [[CHR 0xEE]]), Inr None])"
  by (simp add: new_CsvRowReader_def istream_of_def stream_peek_def stream_get_def is_good_def is_end_def
      Let_def bom_def numeral_2_eq_2 numeral_3_eq_3 csv_byte_limit_def csv_next_def csv_scan.simps
      csv_check_stop_def csv_get_def csv_char_def csv_line_end_def csv_finish_def csv_end_def)

text \<open>With room in the stream and no stop request, \<open>writeCsvRow\<close> accepts exactly the rows of at most
4096 fields whose encoding, line end included, is at most 32 MiB long, and what it appends to the stream
is that encoding.\<close>

theorem writeCsvRow_accepts:
  assumes "sink_stop k = None" "os_ok (sink_out k)" "length (csv_row fs) \<le> os_room (sink_out k)"
  shows "case writeCsvRow fs k of
      (Inr _, k') \<Rightarrow> length fs \<le> 4096 \<and> length (csv_row fs) \<le> csv_byte_limit \<and>
        os_data (sink_out k') = os_data (sink_out k) @ csv_row fs
    | (Inl _, _) \<Rightarrow> \<not> (length fs \<le> 4096 \<and> length (csv_row fs) \<le> csv_byte_limit)"
proof -
  have appended: "os_data (sink_out k') = os_data (sink_out k) @ csv_row fs" "length fs \<le> 4096"
      "length (csv_row fs) \<le> csv_byte_limit" if "writeCsvRow fs k = (Inr (), k')" for k'
    using writeCsvRow_wrote [OF that assms(1)] assms(2,3) by (auto simp: sink_wrote_def stream_write_def)
  have iff: "(\<exists>k'. writeCsvRow fs k = (Inr (), k')) \<longleftrightarrow>
      length fs \<le> 4096 \<and> length (csv_row fs) \<le> csv_byte_limit"
    using appended writeCsvRow_fits [OF assms] by blast
  obtain x k' where w: "writeCsvRow fs k = (x, k')" by (meson surj_pair)
  show ?thesis
  proof (cases x)
    case (Inl e)
    then show ?thesis using iff w by simp
  next
    case (Inr u)
    then show ?thesis using appended [of k'] w by simp
  qed
qed

theorem writeCsvRow_accepts_witness:
  "case writeCsvRow [''a'', ''b,c''] sample_sink of
      (Inr _, k') \<Rightarrow> os_data (sink_out k') = csv_row [''a'', ''b,c'']
    | (Inl _, _) \<Rightarrow> False"
proof -
  have "length (csv_row [''a'', ''b,c'']) = 8" by (simp add: csv_row_def csvEscape_def csv_special_def)
  then show ?thesis
    using writeCsvRow_accepts [of sample_sink "[''a'', ''b,c'']"]
    by (simp add: sample_sink_def csv_byte_limit_def case_prod_beta split: sum.splits)
qed

end
