(* ===== verification/Number_Text.thy ===== *)
theory Number_Text
  imports Data_Prelude Ieee754
begin

text \<open>
  The conversions between numbers and text that the CSV exchange format takes from the standard
  library: \<open>std::to_string\<close> and \<open>std::from_chars\<close> on integers, \<open>std::to_chars\<close> on a \<open>double\<close> with
  17 significant digits in general notation, and \<open>std::from_chars\<close> on a \<open>double\<close>. The
  conversions round correctly, so they are stated on exact ratios of naturals.
\<close>

section \<open>Integers\<close>

definition digit_char :: "nat \<Rightarrow> char" where
  "digit_char d = char_of (48 + d)"

definition is_digit :: "char \<Rightarrow> bool" where
  "is_digit c \<longleftrightarrow> 48 \<le> char_code c \<and> char_code c \<le> 57"

definition digit_of :: "char \<Rightarrow> nat" where
  "digit_of c = char_code c - 48"

fun nat_text :: "nat \<Rightarrow> string" where
  "nat_text n = (if n < 10 then [digit_char n] else nat_text (n div 10) @ [digit_char (n mod 10)])"

declare nat_text.simps [simp del]

definition int_text :: "int \<Rightarrow> string" where
  "int_text i = (if i < 0 then ''-'' @ nat_text (nat (- i)) else nat_text (nat i))"

definition digits_nat :: "string \<Rightarrow> nat" where
  "digits_nat = foldl (\<lambda>n c. 10 * n + digit_of c) 0"

definition invalid_number :: exn where
  "invalid_number = InvalidArgument ''invalid CSV number''"

text \<open>The whole text must be a number, and the number in the range of the type.\<close>

definition parse_digits :: "string \<Rightarrow> exn + nat" where
  "parse_digits ds =
     (if ds = [] \<or> \<not> list_all is_digit ds then Inl invalid_number else Inr (digits_nat ds))"

definition parse_int64 :: "string \<Rightarrow> exn + int" where
  "parse_int64 s =
     bindE (case s of
              c # cs \<Rightarrow> (if c = CHR ''-'' then map_sum id (\<lambda>n. - int n) (parse_digits cs)
                         else map_sum id int (parse_digits s))
            | [] \<Rightarrow> Inl invalid_number)
       (\<lambda>i. if is_int64 i then Inr i else Inl invalid_number)"

definition parse_uint64 :: "string \<Rightarrow> exn + nat" where
  "parse_uint64 s =
     bindE (parse_digits s) (\<lambda>n. if n \<le> size_max then Inr n else Inl invalid_number)"

lemma digit_char_props:
  "d < 10 \<Longrightarrow> is_digit (digit_char d) \<and> digit_of (digit_char d) = d \<and> digit_char d \<noteq> CHR ''-''"
  by (auto simp: is_digit_def digit_of_def digit_char_def char_code_def dest: arg_cong [where f = "of_char :: char \<Rightarrow> nat"])

lemma digits_nat_append: "digits_nat (ds @ [c]) = 10 * digits_nat ds + digit_of c"
  by (simp add: digits_nat_def)

lemma nat_text_props:
  "nat_text n \<noteq> [] \<and> list_all is_digit (nat_text n) \<and> digits_nat (nat_text n) = n \<and> hd (nat_text n) \<noteq> CHR ''-''"
proof (induction n rule: nat_text.induct)
  case (1 n)
  show ?case
  proof (cases "n < 10")
    case True
    then show ?thesis using digit_char_props [OF True] by (subst (1 2 3 4) nat_text.simps) (simp add: digits_nat_def)
  next
    case False
    have "n mod 10 < 10" by simp
    with False "1.IH" digit_char_props [OF this] show ?thesis
      by (subst (1 2 3 4) nat_text.simps) (simp add: digits_nat_append)
  qed
qed

lemma parse_digits_nat_text [roundtrip_simps]: "parse_digits (nat_text n) = Inr n"
  using nat_text_props [of n] by (simp add: parse_digits_def)

lemma parse_int64_int_text [roundtrip_simps]: "is_int64 i \<Longrightarrow> parse_int64 (int_text i) = Inr i"
proof (cases "i < 0")
  case False
  assume i: "is_int64 i"
  obtain c cs where t: "nat_text (nat i) = c # cs" "c \<noteq> CHR ''-''"
    using nat_text_props [of "nat i"] by (cases "nat_text (nat i)") auto
  have "parse_digits (c # cs) = Inr (nat i)" using parse_digits_nat_text [of "nat i"] t(1) by simp
  then show ?thesis using False i t by (simp add: parse_int64_def int_text_def)
qed (simp add: parse_int64_def int_text_def parse_digits_nat_text)

lemma parse_uint64_nat_text [roundtrip_simps]: "n \<le> size_max \<Longrightarrow> parse_uint64 (nat_text n) = Inr n"
  by (simp add: parse_uint64_def parse_digits_nat_text)

section \<open>A double as text\<close>

text \<open>The decimal exponent of a positive ratio, and its 17 digits rounded half to even.\<close>

definition decimal_le :: "nat \<Rightarrow> int \<Rightarrow> nat \<Rightarrow> bool" where
  "decimal_le d k n \<longleftrightarrow> (if 0 \<le> k then d * 10 ^ nat k \<le> n else d \<le> n * 10 ^ nat (- k))"

definition decimal_exponent :: "nat \<Rightarrow> nat \<Rightarrow> int" where
  "decimal_exponent n d =
     (let k = int (length (nat_text n)) - int (length (nat_text d)) in
      if decimal_le d k n then k else k - 1)"

definition decimal_digits :: "nat \<Rightarrow> nat \<Rightarrow> int \<Rightarrow> nat" where
  "decimal_digits n d x =
     (if x \<le> 16 then round_half_even (n * 10 ^ nat (16 - x)) d
      else round_half_even n (d * 10 ^ nat (x - 16)))"

text \<open>The digits and the exponent of the scientific notation; rounding may carry to the next exponent.\<close>

definition scientific :: "nat \<Rightarrow> nat \<Rightarrow> string \<times> int" where
  "scientific n d =
     (let x = decimal_exponent n d; q = decimal_digits n d x in
      if q = 10 ^ 17 then (nat_text (10 ^ 16), x + 1) else (nat_text q, x))"

definition strip_zeros :: "string \<Rightarrow> string" where
  "strip_zeros ds = rev (dropWhile (\<lambda>c. c = CHR ''0'') (rev ds))"

definition with_fraction :: "string \<Rightarrow> string \<Rightarrow> string" where
  "with_fraction whole fraction =
     (let f = strip_zeros fraction in if f = [] then whole else whole @ ''.'' @ f)"

definition exponent_text :: "int \<Rightarrow> string" where
  "exponent_text x =
     (let ds = nat_text (nat \<bar>x\<bar>) in
      ''e'' @ (if x < 0 then ''-'' else ''+'') @ (if length ds < 2 then ''0'' @ ds else ds))"

definition general_text :: "string \<Rightarrow> int \<Rightarrow> string" where
  "general_text ds x =
     (if x < -4 \<or> 17 \<le> x then with_fraction (take 1 ds) (drop 1 ds) @ exponent_text x
      else if 0 \<le> x then with_fraction (take (nat x + 1) ds) (drop (nat x + 1) ds)
      else with_fraction ''0'' (replicate (nat (- x) - 1) (CHR ''0'') @ ds))"

definition double_text :: "f64 \<Rightarrow> string" where
  "double_text b =
     (let (n, d) = f64_ratio b in
      (if f64_sign b then ''-'' else []) @
      (if n = 0 then ''0'' else let (ds, x) = scientific n d in general_text ds x))"

section \<open>A double from text\<close>

text \<open>The longest prefix of digits.\<close>

definition span_digits :: "string \<Rightarrow> string \<times> string" where
  "span_digits s = (takeWhile is_digit s, dropWhile is_digit s)"

text \<open>
  An exponent part counts only with at least one digit. The result is the digits without the point,
  the power of ten and the text left over.
\<close>

definition scan_exponent :: "string \<Rightarrow> (int \<times> string) option" where
  "scan_exponent s =
     (case s of
        c # rest \<Rightarrow>
          (if c \<noteq> CHR ''e'' \<and> c \<noteq> CHR ''E'' then None
           else
             let (neg, rest) = (case rest of
                   k # r \<Rightarrow> if k = CHR ''-'' then (True, r) else if k = CHR ''+'' then (False, r) else (False, rest)
                 | [] \<Rightarrow> (False, rest));
                 (ds, left) = span_digits rest in
             if ds = [] then None
             else Some (if neg then - int (digits_nat ds) else int (digits_nat ds), left))
      | [] \<Rightarrow> None)"

definition scan_decimal :: "string \<Rightarrow> (nat \<times> int \<times> string) option" where
  "scan_decimal s =
     (let (whole, r) = span_digits s;
          (fraction, r) = (case r of
             c # r' \<Rightarrow> if c = CHR ''.'' then span_digits r' else ([], r) | [] \<Rightarrow> ([], r)) in
      if whole = [] \<and> fraction = [] then None
      else
        let m = digits_nat (whole @ fraction); (x, r) = (case scan_exponent r of Some (x, r) \<Rightarrow> (x, r) | None \<Rightarrow> (0, r)) in
        Some (m, x - int (length fraction), r))"

definition decimal_double :: "bool \<Rightarrow> nat \<Rightarrow> int \<Rightarrow> f64" where
  "decimal_double neg m x =
     (if 0 \<le> x then f64_of_ratio neg (m * 10 ^ nat x) 1 else f64_of_ratio neg m (10 ^ nat (- x)))"

fun lower_char :: "char \<Rightarrow> char" where
  "lower_char c = (if 65 \<le> char_code c \<and> char_code c \<le> 90 then char_of (char_code c + 32) else c)"

text \<open>The names of the non-finite values, which \<open>from_chars\<close> accepts in any case.\<close>

definition is_word_char :: "char \<Rightarrow> bool" where
  "is_word_char c \<longleftrightarrow> is_digit c \<or> (97 \<le> char_code (lower_char c) \<and> char_code (lower_char c) \<le> 122) \<or> c = CHR ''_''"

definition names_nonfinite :: "string \<Rightarrow> bool" where
  "names_nonfinite s \<longleftrightarrow>
     (let t = map lower_char s in
      t = ''inf'' \<or> t = ''infinity'' \<or> t = ''nan'' \<or>
      (take 4 t = ''nan('' \<and> 5 \<le> length t \<and> last t = CHR '')'' \<and> list_all is_word_char (butlast (drop 4 t))))"

text \<open>A value that overflows, or a non-zero one that vanishes, is out of range.\<close>

definition parse_double :: "string \<Rightarrow> exn + f64" where
  "parse_double s =
     (let neg = (s \<noteq> [] \<and> hd s = CHR ''-''); body = (if neg then tl s else s) in
      if names_nonfinite body then Inl (InvalidArgument ''non-finite CSV number'')
      else case scan_decimal body of
        None \<Rightarrow> Inl invalid_number
      | Some (m, x, rest) \<Rightarrow>
          (let v = decimal_double neg m x in
           if rest \<noteq> [] \<or> \<not> f64_isfinite v \<or> (m \<noteq> 0 \<and> f64_magnitude v = 0) then Inl invalid_number
           else Inr v))"

end
