(* ===== verification/Record_Csv.thy ===== *)
theory Record_Csv
  imports Csv Number_Text Data_Codec
begin

text \<open>
  Records as CSV files, from \<open>data/record_csv.hpp\<close> and \<open>data/record_csv.cc\<close>: the typed text of
  scalars, the writer and reader of the program's own CSV format, and the reader that maps the
  columns of any CSV file to a schema. The size of the C++ type \<open>Value\<close> is the parameter
  \<open>sizeof_value\<close>.
\<close>

section \<open>Scalars as text\<close>



definition hex_nibble :: "char \<Rightarrow> exn + nat" where
  "hex_nibble ch =
     (let n = char_code ch in
      if 48 \<le> n \<and> n \<le> 57 then Inr (n - 48)
      else if 97 \<le> n \<and> n \<le> 102 then Inr (n - 97 + 10)
      else if 65 \<le> n \<and> n \<le> 70 then Inr (n - 65 + 10)
      else Inl (InvalidArgument ''invalid CSV HEX digit''))"

fun hex_text_bytes :: "string \<Rightarrow> exn + bytes" where
  "hex_text_bytes (a # b # cs) =
     bindE (hex_nibble a) (\<lambda>x. bindE (hex_nibble b) (\<lambda>y.
       bindE (hex_text_bytes cs) (\<lambda>bs. Inr (of_nat (x * 16 + y) # bs))))"
| "hex_text_bytes _ = Inr []"

definition parseScalar :: "FieldType \<Rightarrow> string \<Rightarrow> exn + Value" where
  "parseScalar t s =
     (if t = FieldType_Int64 then map_sum id VInt (parse_int64 s)
      else if t = FieldType_Double then map_sum id VDouble (parse_double s)
      else if t = FieldType_Bool then
        (if s = ''true'' then Inr (VBool True)
         else if s = ''false'' then Inr (VBool False)
         else Inl (InvalidArgument ''CSV bool requires true/false''))
      else if t = FieldType_String then Inr (VString s)
      else if t = FieldType_Bytes then
        (if length s mod 2 \<noteq> 0 then Inl (InvalidArgument ''odd CSV HEX length'')
         else map_sum id VBytes (hex_text_bytes s))
      else Inl (InvalidArgument ''unsupported CSV scalar''))"

definition csv_hex_digits :: string where
  "csv_hex_digits = ''0123456789ABCDEF''"

fun bytes_hex_text :: "bytes \<Rightarrow> string" where
  "bytes_hex_text [] = []"
| "bytes_hex_text (b # bs) =
     csv_hex_digits ! unat (drop_bit 4 b) # csv_hex_digits ! unat (b AND 15) # bytes_hex_text bs"


definition typedScalar :: "Field \<Rightarrow> string \<Rightarrow> exn + Value" where
  "typedScalar f s =
     (if s = ''n:'' then Inr VNull
      else if length s < 2 \<or> s ! 1 \<noteq> CHR '':'' \<or> s ! 0 \<noteq> ''nidbsx'' ! unat (fld_type f)
      then Inl (InvalidArgument ''CSV value tag differs from schema'')
      else parseScalar (fld_type f) (drop 2 s))"

definition stripBom :: "string list \<Rightarrow> string list" where
  "stripBom row =
     (case row of
        [] \<Rightarrow> []
      | first # rest \<Rightarrow> (if take 3 first = bom then drop 3 first else first) # rest)"

definition csv_version :: "string \<Rightarrow> exn + u64" where
  "csv_version s =
     bindE (parse_int64 s) (\<lambda>i.
       if i \<le> 0 then Inl (InvalidArgument ''CSV schema version must be positive'') else Inr (word_of_int i))"

section \<open>The writer\<close>

type_synonym csv_schemas = "(u64, Schema) omap"











section \<open>The reader\<close>

record RecordCsvReader =
  rcr_rows :: CsvRowReader
  rcr_schemas :: csv_schemas
  rcr_pending :: "string list option"
  rcr_count :: nat
  rcr_finished :: bool
  rcr_failed :: bool




text \<open>Every row that is read takes at least one byte, so the loop over the schema rows ends.\<close>

lemma csv_scan_pending:
  "csv_scan state fs field n r = (Inr (Some row), r') \<Longrightarrow>
     csv_pending r' \<le> csv_pending r \<and> (n = 0 \<longrightarrow> csv_pending r' < csv_pending r)"
proof (induction state fs field n r arbitrary: r' rule: csv_scan.induct)
  case (1 state fs field n r)
  obtain b r1 where stop: "(if n mod 65536 = 0 then csv_check_stop r else (False, r)) = (b, r1)"
    by (meson surj_pair)
  have p1: "csv_pending r1 = csv_pending r"
    using stop csv_check_stop_pending by (auto split: if_splits)
  obtain c r2 where get: "csv_get r1 = (c, r2)" by (meson surj_pair)
  have b: "\<not> b" using "1.prems" stop by (subst (asm) csv_scan.simps) (auto split: if_splits)
  show ?case
  proof (cases c)
    case None
    then have "csv_end (csv_maxFields r2) state fs field n (csv_stream r2) = Inr (Some row)" "r' = r2"
      using "1.prems" stop get b by (subst (asm) csv_scan.simps, simp)+
    then have "n \<noteq> 0" by (auto simp: csv_end_def split: if_splits)
    moreover have "csv_pending r2 \<le> csv_pending r1"
      using get stream_get_le by (auto simp: csv_get_def csv_pending_def Let_def split: if_splits prod.splits)
    ultimately show ?thesis using p1 \<open>r' = r2\<close> by simp
  next
    case (Some ch)
    have p2: "csv_pending r1 = Suc (csv_pending r2)" using csv_get_pending get Some by simp
    obtain step r3 where step: "csv_char (csv_maxFields r2) state fs field ch r2 = (step, r3)" by (meson surj_pair)
    have p3: "csv_pending r3 \<le> csv_pending r2" using csv_char_pending [OF step] .
    have lim: "\<not> csv_maxBytes r2 < Suc n"
      using "1.prems" stop get b Some by (subst (asm) csv_scan.simps) (auto split: if_splits)
    show ?thesis
    proof (cases step)
      case (CsvGo state' fs' field')
      have "csv_scan state' fs' field' (Suc n) r3 = (Inr (Some row), r')"
        using "1.prems" stop get b Some lim step CsvGo by (subst (asm) csv_scan.simps) simp
      from "1.IH" [OF stop [symmetric] refl b get [symmetric] Some lim step [symmetric] CsvGo this] p1 p2 p3
      show ?thesis by simp
    next
      case (CsvRow fs')
      have "r' = r3"
        using "1.prems" stop get b Some lim step CsvRow by (subst (asm) csv_scan.simps) simp
      with p1 p2 p3 show ?thesis by simp
    next
      case (CsvFail e)
      then show ?thesis
        using "1.prems" stop get b Some lim step by (subst (asm) csv_scan.simps) simp
    qed
  qed
qed

lemma csv_next_pending:
  "csv_next r = (Inr (Some row), r') \<Longrightarrow> csv_pending r' < csv_pending r"
  using csv_scan_pending [of CsvStart "[]" "[]" 0 r row]
  by (auto simp: csv_next_def split: if_splits prod.splits sum.splits)




definition rcr_row :: "(RecordCsvReader, string list option) task" where
  "rcr_row p =
     (case rcr_pending p of
        Some row \<Rightarrow> (Inr (Some row), p\<lparr>rcr_pending := None\<rparr>)
      | None \<Rightarrow> let (r, rows) = csv_next (rcr_rows p) in (r, p\<lparr>rcr_rows := rows\<rparr>))"

definition parse_record_row :: "csv_schemas \<Rightarrow> string list \<Rightarrow> exn + Record" where
  "parse_record_row ss row =
     (if length row < 7 \<or> hd row \<noteq> ''record'' then Inl (InvalidArgument ''invalid CSV record row'')
      else
        bindE (csv_version (row ! 6)) (\<lambda>version.
          case map_of ss version of
            None \<Rightarrow> Inl (InvalidArgument ''CSV record columns differ from schema'')
          | Some schema \<Rightarrow>
              if length row \<noteq> 7 + length (sch_fields schema)
              then Inl (InvalidArgument ''CSV record columns differ from schema'')
              else
                bindE (parse_int64 (row ! 4)) (\<lambda>received.
                  bindE (if row ! 5 \<noteq> [] then map_sum id Some (parse_int64 (row ! 5)) else Inr None) (\<lambda>device_time.
                    bindE (mapE (\<lambda>(f, cell). typedScalar f cell) (zip (sch_fields schema) (drop 7 row))) (\<lambda>values.
                      let r = \<lparr>rec_protocol = row ! 1, rec_dataset = row ! 2, rec_device = row ! 3,
                               rec_receivedAtUs = received, rec_deviceTimeUs = device_time,
                               rec_schemaVersion = version, rec_values = values\<rparr> in
                      bindE (validateRecord schema r) (\<lambda>_. Inr r))))))"

definition record_csv_item :: "(RecordCsvReader, Record option) task" where
  "record_csv_item =
     bindT rcr_row (\<lambda>row.
       case row of
         None \<Rightarrow> throwT (InvalidArgument ''CSV missing end row'')
       | Some row \<Rightarrow>
           if row = [] then throwT (InvalidArgument ''CSV missing end row'')
           else if hd row = ''end'' then
             (if length row \<noteq> 2 then throwT (InvalidArgument ''invalid CSV footer or trailing rows'')
              else
                bindT (liftT (parse_uint64 (row ! 1))) (\<lambda>n p.
                  if n \<noteq> rcr_count p then (Inl (InvalidArgument ''invalid CSV footer or trailing rows''), p)
                  else
                    bindT rcr_row (\<lambda>more.
                      if more \<noteq> None then throwT (InvalidArgument ''invalid CSV footer or trailing rows'')
                      else (\<lambda>p. (Inr None, p\<lparr>rcr_finished := True\<rparr>))) p))
           else
             (\<lambda>p. bindT (liftT (parse_record_row (rcr_schemas p) row)) (\<lambda>r p.
                if rcr_count p = size_max then (Inl (OverflowError ''CSV record count overflow''), p)
                else (Inr (Some r), p\<lparr>rcr_count := rcr_count p + 1\<rparr>)) p))"

definition record_csv_next :: "RecordCsvReader \<Rightarrow> (exn + Record option) \<times> RecordCsvReader" where
  "record_csv_next p =
     (if rcr_failed p then (Inl (LogicError ''CSV reader failed''), p)
      else if rcr_finished p then (Inr None, p)
      else case record_csv_item p of
        (Inl e, p) \<Rightarrow> (Inl e, p\<lparr>rcr_failed := True\<rparr>)
      | (Inr r, p) \<Rightarrow> (Inr r, p))"

section \<open>The reader with a column mapping\<close>

record CsvImportMapping =
  map_schema :: Schema
  map_protocol :: string
  map_device :: string
  map_receivedColumn :: string
  map_deviceColumn :: "string option"
  map_deviceTimeColumn :: "string option"
  map_fields :: "(string, string) omap"
  map_nullToken :: "string option"

record MappedCsvReader =
  mcr_rows :: CsvRowReader
  mcr_mapping :: CsvImportMapping
  mcr_columns :: "(string, nat) omap"
  mcr_fields :: "nat list"
  mcr_failed :: bool

fun add_columns :: "string list \<Rightarrow> nat \<Rightarrow> (string, nat) omap \<Rightarrow> exn + (string, nat) omap" where
  "add_columns [] i columns = Inr columns"
| "add_columns (name # names) i columns =
     (if name = [] then Inl (InvalidArgument ''CSV empty or duplicate column name'')
      else case map_emplace name i columns of
        None \<Rightarrow> Inl (InvalidArgument ''CSV empty or duplicate column name'')
      | Some columns \<Rightarrow> add_columns names (Suc i) columns)"

text \<open>\<open>std::map::at\<close>.\<close>

definition column_at :: "(string, nat) omap \<Rightarrow> string \<Rightarrow> exn + nat" where
  "column_at columns name = (case map_of columns name of Some i \<Rightarrow> Inr i | None \<Rightarrow> Inl OutOfRange)"

definition optional_column :: "(string, nat) omap \<Rightarrow> string option \<Rightarrow> exn + unit" where
  "optional_column columns name =
     (case name of None \<Rightarrow> Inr () | Some n \<Rightarrow> bindE (column_at columns n) (\<lambda>_. Inr ()))"

definition mapped_column :: "CsvImportMapping \<Rightarrow> string \<Rightarrow> string" where
  "mapped_column m field = (case map_of (map_fields m) field of None \<Rightarrow> field | Some column \<Rightarrow> column)"

definition new_MappedCsvReader :: "istream \<Rightarrow> CsvImportMapping \<Rightarrow> stop_token \<Rightarrow> exn + MappedCsvReader" where
  "new_MappedCsvReader stream m stop =
     bindE (new_CsvRowReader stream stop csv_byte_limit 4096) (\<lambda>rows.
       bindE (validateSchema (map_schema m)) (\<lambda>_.
         if map_protocol m = [] \<or> 4096 < length (map_protocol m) \<or> 4096 < length (map_device m)
         then Inl (InvalidArgument ''invalid CSV protocol/device'')
         else case csv_next rows of
           (Inl e, _) \<Rightarrow> Inl e
         | (Inr None, _) \<Rightarrow> Inl (InvalidArgument ''CSV header missing'')
         | (Inr (Some header), rows) \<Rightarrow>
             bindE (add_columns (stripBom header) 0 []) (\<lambda>columns.
               if list_ex (\<lambda>(field, column). \<not> list_ex (\<lambda>f. fld_name f = field) (sch_fields (map_schema m)))
                    (map_fields m)
               then Inl (InvalidArgument ''CSV mapping refers to undeclared field'')
               else
                 bindE (column_at columns (map_receivedColumn m)) (\<lambda>_.
                   bindE (optional_column columns (map_deviceColumn m)) (\<lambda>_.
                     bindE (optional_column columns (map_deviceTimeColumn m)) (\<lambda>_.
                       bindE (mapE (\<lambda>f. column_at columns (mapped_column m (fld_name f)))
                           (sch_fields (map_schema m))) (\<lambda>fs.
                         Inr \<lparr>mcr_rows = rows, mcr_mapping = m, mcr_columns = columns, mcr_fields = fs,
                              mcr_failed = False\<rparr>)))))))"

text \<open>A cell by column name, and by index: \<open>vector::at\<close>.\<close>

definition cell_at :: "string list \<Rightarrow> nat \<Rightarrow> exn + string" where
  "cell_at row i = (if i < length row then Inr (row ! i) else Inl OutOfRange)"

definition cell_named :: "(string, nat) omap \<Rightarrow> string list \<Rightarrow> string \<Rightarrow> exn + string" where
  "cell_named columns row name = bindE (column_at columns name) (cell_at row)"

definition mapped_value :: "CsvImportMapping \<Rightarrow> FieldType \<Rightarrow> string \<Rightarrow> exn + Value" where
  "mapped_value m t cell = (if map_nullToken m = Some cell then Inr VNull else parseScalar t cell)"

definition mapped_record :: "CsvImportMapping \<Rightarrow> (string, nat) omap \<Rightarrow> nat list \<Rightarrow> string list \<Rightarrow> exn + Record" where
  "mapped_record m columns fs row =
     (if length row \<noteq> length columns then Inl (InvalidArgument ''CSV row column count mismatch'')
      else
        bindE (case map_deviceColumn m of Some c \<Rightarrow> cell_named columns row c | None \<Rightarrow> Inr (map_device m)) (\<lambda>device.
          bindE (bindE (cell_named columns row (map_receivedColumn m)) parse_int64) (\<lambda>received.
            bindE (case map_deviceTimeColumn m of
                     None \<Rightarrow> Inr None
                   | Some c \<Rightarrow>
                       bindE (cell_named columns row c) (\<lambda>cell.
                         if cell \<noteq> [] \<and> map_nullToken m \<noteq> Some cell
                         then map_sum id Some (parse_int64 cell) else Inr None)) (\<lambda>device_time.
              bindE (mapE (\<lambda>(i, f). bindE (cell_at row i) (mapped_value m (fld_type f)))
                  (zip fs (sch_fields (map_schema m)))) (\<lambda>values.
                let r = \<lparr>rec_protocol = map_protocol m, rec_dataset = sch_dataset (map_schema m),
                         rec_device = device, rec_receivedAtUs = received, rec_deviceTimeUs = device_time,
                         rec_schemaVersion = 1, rec_values = values\<rparr> in
                bindE (validateRecord (map_schema m) r) (\<lambda>_. Inr r))))))"

definition mapped_csv_next :: "MappedCsvReader \<Rightarrow> (exn + Record option) \<times> MappedCsvReader" where
  "mapped_csv_next p =
     (if mcr_failed p then (Inl (LogicError ''mapped CSV reader failed''), p)
      else
        let (row, rows) = csv_next (mcr_rows p); p = p\<lparr>mcr_rows := rows\<rparr> in
        case row of
          Inl e \<Rightarrow> (Inl e, p\<lparr>mcr_failed := True\<rparr>)
        | Inr None \<Rightarrow> (Inr None, p)
        | Inr (Some row) \<Rightarrow>
            (case mapped_record (mcr_mapping p) (mcr_columns p) (mcr_fields p) row of
               Inl e \<Rightarrow> (Inl e, p\<lparr>mcr_failed := True\<rparr>)
             | Inr r \<Rightarrow> (Inr (Some r), p)))"

section \<open>Scalars are read back as written\<close>

lemma hex_nibble_digit: "n < 16 \<Longrightarrow> hex_nibble (csv_hex_digits ! n) = Inr n"
  by (auto simp: less_Suc_eq numeral_eq_Suc hex_nibble_def csv_hex_digits_def char_code_def)

lemma hex_digit_values: "unat (drop_bit 4 b) = unat b div 16" "unat (b AND 15) = unat b mod 16" for b :: u8
proof -
  have "b AND 15 = take_bit 4 b" using take_bit_eq_mask [of 4 b] by (simp add: mask_eq_exp_minus_1)
  then show "unat (b AND 15) = unat b mod 16"
    by (simp only: unsigned_take_bit_eq) (simp add: take_bit_eq_mod)
qed (simp add: drop_bit_eq_div unat_div)

lemma byte_of_hex_digits: "of_nat (unat (drop_bit 4 b) * 16 + unat (b AND 15)) = (b :: u8)"
proof -
  have "unat b div 16 * 16 + unat b mod 16 = unat b" by (rule div_mult_mod_eq)
  then show ?thesis unfolding hex_digit_values by (simp only: of_nat_unat) (simp add: unat_of_nat)
qed


lemma hex_text_bytes_text [roundtrip_simps]: "hex_text_bytes (bytes_hex_text bs) = Inr bs"
proof (induction bs)
  case (Cons b bs)
  have "unat (drop_bit 4 b) < 16" "unat (b AND 15) < 16"
    unfolding hex_digit_values using unsigned_less [of b, where ?'a = nat] by (simp_all add: less_mult_imp_div_less)
  then show ?case using Cons by (simp add: hex_nibble_digit byte_of_hex_digits del: of_nat_add of_nat_mult)
qed simp




section \<open>Rows are read back as written\<close>







section \<open>What the writer writes\<close>









section \<open>Reading the written rows\<close>


definition rows_fit :: "CsvRowReader \<Rightarrow> string list list \<Rightarrow> bool" where
  "rows_fit r rows \<longleftrightarrow>
     (\<forall>fs \<in> set rows. fs \<noteq> [] \<and> length (csv_row fs) \<le> csv_maxBytes r \<and> length fs \<le> csv_maxFields r)"

lemma rows_fit_simps [simp]:
  "rows_fit r []"
  "rows_fit r (fs # rows) \<longleftrightarrow>
     fs \<noteq> [] \<and> length (csv_row fs) \<le> csv_maxBytes r \<and> length fs \<le> csv_maxFields r \<and> rows_fit r rows"
  "rows_fit r (rows @ rows') \<longleftrightarrow> rows_fit r rows \<and> rows_fit r rows'"
  by (auto simp: rows_fit_def)





text \<open>The results of reading up to \<open>n\<close> records.\<close>

fun record_csv_read :: "nat \<Rightarrow> RecordCsvReader \<Rightarrow> (exn + Record option) list" where
  "record_csv_read 0 p = []"
| "record_csv_read (Suc n) p = (let (r, p) = record_csv_next p in r # record_csv_read n p)"






section \<open>Properties\<close>










section \<open>Safety of the readers\<close>

lemma parse_record_row_valid:
  assumes "parse_record_row ss row = Inr r"
  shows "\<exists>schema. map_of ss (rec_schemaVersion r) = Some schema \<and> validateRecord schema r = Inr ()"
proof -
  obtain version where v: "csv_version (row ! 6) = Inr version"
    using assms by (auto simp: parse_record_row_def split: if_splits)
  then obtain schema where s: "map_of ss version = Some schema"
    using assms by (auto simp: parse_record_row_def split: if_splits option.splits)
  then have "rec_schemaVersion r = version \<and> validateRecord schema r = Inr ()"
    using assms v by (auto simp: parse_record_row_def Let_def split: if_splits)
  with s show ?thesis by auto
qed

lemma rcr_row_keeps:
  "rcr_row p = (x, p') \<Longrightarrow> rcr_schemas p' = rcr_schemas p \<and> rcr_count p' = rcr_count p \<and> rcr_pending p' = None"
  by (auto simp: rcr_row_def split: option.splits prod.splits)

text \<open>How a record is returned: the reader takes a row, and the row holds the record.\<close>

lemma record_csv_next_record:
  assumes "record_csv_next p = (Inr (Some r), p')"
  obtains row q where "rcr_row p = (Inr (Some row), q)" "row \<noteq> []" "parse_record_row (rcr_schemas p) row = Inr r"
    "p' = q\<lparr>rcr_count := Suc (rcr_count p)\<rparr>"
proof -
  obtain x where x: "record_csv_item p = (Inr (Some r), p')"
    using assms by (auto simp: record_csv_next_def split: if_splits prod.splits sum.splits)
  then obtain row q where row: "rcr_row p = (Inr (Some row), q)"
    by (auto simp: record_csv_item_def split: option.splits)
  note keeps = rcr_row_keeps [OF row]
  show thesis
    using x row keeps
    by (intro that [OF row])
      (auto simp: record_csv_item_def split: if_splits)
qed

text \<open>The reader of record files never returns an unchecked record: each record it returns passes
\<open>validateRecord\<close> for the schema the file declares under the version of the record, and is counted for
the comparison with the end row; once a call ended with an exception, every later call throws.\<close>

theorem record_csv_next_safe:
  "case record_csv_next p of
     (Inr (Some r), p') \<Rightarrow>
       (\<exists>schema. map_of (rcr_schemas p) (rec_schemaVersion r) = Some schema \<and> validateRecord schema r = Inr ()) \<and>
       rcr_schemas p' = rcr_schemas p \<and> rcr_count p' = Suc (rcr_count p)
   | (Inr None, _) \<Rightarrow> True
   | (Inl e, p') \<Rightarrow> record_csv_next p' = (Inl (LogicError ''CSV reader failed''), p')"
proof -
  have "(\<exists>schema. map_of (rcr_schemas p) (rec_schemaVersion r) = Some schema \<and> validateRecord schema r = Inr ()) \<and>
      rcr_schemas p' = rcr_schemas p \<and> rcr_count p' = Suc (rcr_count p)"
    if taken: "record_csv_next p = (Inr (Some r), p')" for r p'
  proof -
    from record_csv_next_record [OF taken] obtain row q where row: "rcr_row p = (Inr (Some row), q)"
      "parse_record_row (rcr_schemas p) row = Inr r" "p' = q\<lparr>rcr_count := Suc (rcr_count p)\<rparr>" by metis
    show ?thesis using parse_record_row_valid [OF row(2)] rcr_row_keeps [OF row(1)] row(3) by auto
  qed
  moreover have "record_csv_next p' = (Inl (LogicError ''CSV reader failed''), p')"
    if "record_csv_next p = (Inl e, p')" for e p'
    using that by (auto simp: record_csv_next_def split: if_splits prod.splits sum.splits)
  ultimately show ?thesis by (auto split: prod.splits sum.splits option.splits)
qed

text \<open>The rows that are left for a reader, at most one for each byte of the stream.\<close>

definition rcr_left :: "RecordCsvReader \<Rightarrow> nat" where
  "rcr_left p = csv_pending (rcr_rows p) + (if rcr_pending p = None then 0 else 1)"

lemma record_csv_next_left:
  assumes "record_csv_next p = (Inr (Some r), p')"
  shows "rcr_left p' < rcr_left p"
proof -
  from record_csv_next_record [OF assms] obtain row q where row: "rcr_row p = (Inr (Some row), q)"
    "p' = q\<lparr>rcr_count := Suc (rcr_count p)\<rparr>" by metis
  then show ?thesis
    by (auto simp: rcr_row_def rcr_left_def csv_next_pending split: option.splits prod.splits)
qed

text \<open>C27: Reading a record file ends: among the results of the first \<open>n + 1\<close> calls, where \<open>n\<close> is the
number of bytes that are left and the row read ahead, one is the end of the file or an exception,
whatever the stream holds.\<close>

theorem record_csv_read_ends:
  "\<exists>x \<in> set (record_csv_read (Suc (rcr_left p)) p). x \<notin> range (\<lambda>r. Inr (Some r))"
proof -
  have "\<exists>x \<in> set (record_csv_read (Suc n) p). x \<notin> range (\<lambda>r. Inr (Some r))" if "rcr_left p \<le> n" for n
    using that
  proof (induction n arbitrary: p)
    case 0
    obtain x p' where "record_csv_next p = (x, p')" by (meson surj_pair)
    then show ?case using record_csv_next_left [of p _ p'] 0 by auto
  next
    case (Suc n)
    obtain x p' where x: "record_csv_next p = (x, p')" by (meson surj_pair)
    show ?case
    proof (cases "x \<in> range (\<lambda>r. Inr (Some r))")
      case True
      then have "rcr_left p' \<le> n" using x record_csv_next_left [of p _ p'] Suc.prems by fastforce
      from Suc.IH [OF this] show ?thesis using x by (auto simp: record_csv_read.simps(2) [of "Suc n"] simp del: record_csv_read.simps(2))
    qed (use x in auto)
  qed
  then show ?thesis by blast
qed

text \<open>The mapped reader returns only records that conform to the schema of the mapping: each has the
protocol and dataset of the mapping, schema version 1, and passes \<open>validateRecord\<close>; and after a call that
ended with an exception, every later call throws.\<close>

theorem mapped_csv_next_safe:
  "case mapped_csv_next p of
     (Inr (Some r), _) \<Rightarrow>
       rec_protocol r = map_protocol (mcr_mapping p) \<and> rec_dataset r = sch_dataset (map_schema (mcr_mapping p)) \<and>
       rec_schemaVersion r = 1 \<and> validateRecord (map_schema (mcr_mapping p)) r = Inr ()
   | (Inr None, _) \<Rightarrow> True
   | (Inl e, p') \<Rightarrow> mapped_csv_next p' = (Inl (LogicError ''mapped CSV reader failed''), p')"
proof -
  have "rec_protocol r = map_protocol m \<and> rec_dataset r = sch_dataset (map_schema m) \<and> rec_schemaVersion r = 1 \<and>
      validateRecord (map_schema m) r = Inr ()" if "mapped_record m columns fs row = Inr r" for m columns fs row r
    using that by (auto simp: mapped_record_def Let_def split: if_splits)
  then show ?thesis by (auto simp: mapped_csv_next_def Let_def split: prod.splits sum.splits option.splits)
qed

end
