(* ===== verification/Dock_Rows.thy ===== *)
theory Dock_Rows
  imports Csv Codec Number_Text "HOL-Library.Sublist"
begin

text \<open>
  The rows of the log, script, transfer and request docks, from \<open>dock/docks.hpp\<close> and the first part
  of \<open>dock/docks.cc\<close>: classification, keyword and status filters, and the texts shown and exported.
  Character classes are those of the C locale. The local calendar time of \<open>localtime_r\<close> is the
  parameter \<open>localtime\<close>. Labels that are not ASCII are their UTF-8 bytes.
\<close>

section \<open>Rows\<close>

record ReceiveRow =
  rr_timestampMs :: u64
  rr_direction :: string
  rr_endpoint :: string
  rr_bytes :: bytes
  rr_message :: string
  rr_messageIsWriteStatus :: bool
  rr_displayPosition :: u64
  rr_historyProfiles :: "nat option"  \<comment> \<open>the shared profile list, as its identity\<close>

datatype ReceiveRowVisualKind =
    Visual_Rx | Visual_Tx | Visual_Debug | Visual_Info | Visual_Warn | Visual_Error | Visual_Event
  | Visual_ScriptLog | Visual_Other

datatype LogStatusFilter =
    Status_All | Status_Rx | Status_Tx | Status_Debug | Status_Info | Status_Warn | Status_Error | Status_Event
  | Status_ScriptLog | Status_Other

record LogFilterState =
  lf_keyword :: string
  lf_status :: LogStatusFilter

datatype RequestTraceKind = Kind_Send | Kind_Request

datatype RequestTraceState =
    Trace_Queued | Trace_Sent | Trace_Completed | Trace_Failed | Trace_Timeout | Trace_Rejected
  | Trace_Dropped | Trace_Canceled | Trace_GuardReset

datatype RequestTraceStatusFilter = Filter_All | Filter_Active | Filter_Success | Filter_Failure

record RequestTraceFilterState =
  tf_keyword :: string
  tf_status :: RequestTraceStatusFilter

record RequestTraceRow =
  tr_timestampMs :: u64
  tr_id :: u64
  tr_kind :: RequestTraceKind
  tr_state :: RequestTraceState
  tr_endpoint :: string
  tr_tag :: string
  tr_bytes :: nat
  tr_queuedMs :: u64
  tr_finishedMs :: u64
  tr_timeoutMs :: u64
  tr_durationMs :: u64
  tr_guarded :: bool
  tr_attempt :: u32
  tr_maxAttempts :: u32
  tr_guardState :: string
  tr_error :: string

section \<open>Text helpers\<close>

record tm =
  tm_year :: int
  tm_mon :: int
  tm_mday :: int
  tm_hour :: int
  tm_min :: int
  tm_sec :: int

text \<open>\<open>%0nd\<close> of \<open>snprintf\<close>: at least \<open>n\<close> characters, zeros after the sign.\<close>

definition padded_text :: "nat \<Rightarrow> int \<Rightarrow> string" where
  "padded_text n i =
     (let ds = nat_text (nat \<bar>i\<bar>); sign = (if i < 0 then ''-'' else []) in
      sign @ replicate (n - length sign - length ds) (CHR ''0'') @ ds)"

definition formatTimestampText :: "(nat \<Rightarrow> tm) \<Rightarrow> u64 \<Rightarrow> string" where
  "formatTimestampText localtime timestampMs =
     (let seconds = unat timestampMs div 1000; millis = unat timestampMs mod 1000; t = localtime seconds in
      take 63
        (padded_text 4 (tm_year t + 1900) @ ''-'' @ padded_text 2 (tm_mon t + 1) @ ''-'' @
         padded_text 2 (tm_mday t) @ '' '' @ padded_text 2 (tm_hour t) @ '':'' @ padded_text 2 (tm_min t) @ '':'' @
         padded_text 2 (tm_sec t) @ '':'' @ padded_text 3 (int millis)))"

definition isprint :: "char \<Rightarrow> bool" where
  "isprint c \<longleftrightarrow> 32 \<le> char_code c \<and> char_code c \<le> 126"

definition upper_char :: "char \<Rightarrow> char" where
  "upper_char c = (if 97 \<le> char_code c \<and> char_code c \<le> 122 then char_of (char_code c - 32) else c)"

definition bytesToAsciiPreview :: "bytes \<Rightarrow> string" where
  "bytesToAsciiPreview = map (\<lambda>b. if isprint (char_of_byte b) then char_of_byte b else CHR ''.'')"

definition flattenSingleLineText :: "string \<Rightarrow> string" where
  "flattenSingleLineText =
     map (\<lambda>c. if c = CHR 0x0D \<or> c = CHR 0x0A \<or> c = CHR 0x09 then CHR '' '' else c)"

definition quoteCsv :: "string \<Rightarrow> string" where
  "quoteCsv s = [CHR 0x22] @ csv_double_quotes s @ [CHR 0x22]"

definition appendCsvField :: "string \<Rightarrow> string \<Rightarrow> string" where
  "appendCsvField line s = (if line \<noteq> [] then line @ '','' else line) @ quoteCsv s"

definition textOrDash :: "string \<Rightarrow> string" where
  "textOrDash s = (if s = [] then ''-'' else s)"

definition uppercaseAscii :: "string \<Rightarrow> string" where
  "uppercaseAscii = map upper_char"

definition lowercaseAscii :: "string \<Rightarrow> string" where
  "lowercaseAscii = map lower_char"

text \<open>\<open>find(\<dots>) != npos\<close>.\<close>

fun text_contains :: "string \<Rightarrow> string \<Rightarrow> bool" where
  "text_contains [] needle \<longleftrightarrow> needle = []"
| "text_contains (c # cs) needle \<longleftrightarrow> take (length needle) (c # cs) = needle \<or> text_contains cs needle"

definition containsIgnoreCase :: "string \<Rightarrow> string \<Rightarrow> bool" where
  "containsIgnoreCase s keyword \<longleftrightarrow>
     (if keyword = [] then True else text_contains (lowercaseAscii s) (lowercaseAscii keyword))"

section \<open>Log rows\<close>

definition classifyReceiveRow :: "ReceiveRow \<Rightarrow> ReceiveRowVisualKind" where
  "classifyReceiveRow row =
     (let direction = uppercaseAscii (rr_direction row) in
      if direction = ''RX'' then Visual_Rx
      else if direction = ''TX'' then Visual_Tx
      else if direction = ''TRACE'' \<or> direction = ''DEBUG'' then Visual_Debug
      else if direction = ''INFO'' then Visual_Info
      else if direction = ''WARN'' \<or> direction = ''WARNING'' then Visual_Warn
      else if direction = ''ERROR'' then Visual_Error
      else if direction = ''EVENT'' then Visual_Event
      else if direction = ''LOG'' then Visual_ScriptLog
      else Visual_Other)"

definition matchesStatusFilter :: "ReceiveRow \<Rightarrow> LogStatusFilter \<Rightarrow> bool" where
  "matchesStatusFilter row status \<longleftrightarrow>
     (if status = Status_All then True
      else case classifyReceiveRow row of
        Visual_Rx \<Rightarrow> status = Status_Rx
      | Visual_Tx \<Rightarrow> status = Status_Tx
      | Visual_Debug \<Rightarrow> status = Status_Debug
      | Visual_Info \<Rightarrow> status = Status_Info
      | Visual_Warn \<Rightarrow> status = Status_Warn
      | Visual_Error \<Rightarrow> status = Status_Error
      | Visual_Event \<Rightarrow> status = Status_Event
      | Visual_ScriptLog \<Rightarrow> status = Status_ScriptLog
      | Visual_Other \<Rightarrow> status = Status_Other)"

definition matchesKeywordFilter :: "ReceiveRow \<Rightarrow> string \<Rightarrow> bool \<Rightarrow> bool" where
  "matchesKeywordFilter row keyword includeBytePreview \<longleftrightarrow>
     (if keyword = [] then True
      else if containsIgnoreCase (rr_direction row) keyword \<or> containsIgnoreCase (rr_endpoint row) keyword \<or>
              containsIgnoreCase (rr_message row) keyword then True
      else if \<not> includeBytePreview \<or> rr_bytes row = [] then False
      else containsIgnoreCase (bytesToHex (rr_bytes row) True) keyword \<or>
           containsIgnoreCase (bytesToAsciiPreview (rr_bytes row)) keyword)"

definition matchesLogFilter :: "ReceiveRow \<Rightarrow> LogFilterState \<Rightarrow> bool \<Rightarrow> bool" where
  "matchesLogFilter row f includeBytePreview \<longleftrightarrow>
     matchesStatusFilter row (lf_status f) \<and> matchesKeywordFilter row (lf_keyword f) includeBytePreview"

fun filteredLogRows :: "ReceiveRow list \<Rightarrow> LogFilterState \<Rightarrow> bool \<Rightarrow> ReceiveRow list" where
  "filteredLogRows [] f includeBytePreview = []"
| "filteredLogRows (row # rows) f includeBytePreview =
     (if matchesLogFilter row f includeBytePreview then [row] else []) @ filteredLogRows rows f includeBytePreview"

definition formatReceiveRowContent :: "ReceiveRow \<Rightarrow> bool \<Rightarrow> string" where
  "formatReceiveRowContent row showHex =
     (let byteText = (if showHex then bytesToHex (rr_bytes row) True else bytesToAsciiPreview (rr_bytes row)) in
      if rr_messageIsWriteStatus row \<and> rr_message row \<noteq> [] \<and> rr_bytes row \<noteq> [] then
        flattenSingleLineText (rr_message row) @
        (if rr_bytes row \<noteq> [] then (if byteText \<noteq> [] then '' | '' @ byteText else []) else [])
      else if rr_message row = [] \<and> rr_bytes row = [] then []
      else if rr_message row \<noteq> [] then flattenSingleLineText (rr_message row)
      else byteText)"

definition formatReceiveRowSingleLine :: "(nat \<Rightarrow> tm) \<Rightarrow> ReceiveRow \<Rightarrow> bool \<Rightarrow> bool \<Rightarrow> string" where
  "formatReceiveRowSingleLine localtime row showTimestamps showHex =
     (let line = (if showTimestamps then ''['' @ formatTimestampText localtime (rr_timestampMs row) @ ''] '' else []);
          line = (if rr_direction row \<noteq> [] then line @ rr_direction row else line);
          line = (if rr_endpoint row \<noteq> []
                  then (if line \<noteq> [] \<and> last line \<noteq> CHR '' '' then line @ '' '' else line) @ rr_endpoint row
                  else line);
          content = formatReceiveRowContent row showHex in
      if content \<noteq> [] then (if line \<noteq> [] then line @ '' | '' else line) @ content else line)"

fun formatReceiveRowsText :: "(nat \<Rightarrow> tm) \<Rightarrow> ReceiveRow list \<Rightarrow> bool \<Rightarrow> bool \<Rightarrow> string" where
  "formatReceiveRowsText localtime [] showTimestamps showHex = []"
| "formatReceiveRowsText localtime (row # rows) showTimestamps showHex =
     formatReceiveRowSingleLine localtime row showTimestamps showHex @ [CHR 0x0A] @
     formatReceiveRowsText localtime rows showTimestamps showHex"

section \<open>Request traces\<close>

definition requestTraceKindLabel :: "RequestTraceKind \<Rightarrow> string" where
  "requestTraceKindLabel kind = (case kind of Kind_Send \<Rightarrow> ''send'' | Kind_Request \<Rightarrow> ''request'')"

definition requestTraceStateLabel :: "RequestTraceState \<Rightarrow> string" where
  "requestTraceStateLabel state = map char_of
     (case state of
        Trace_Queued \<Rightarrow> [0xE6, 0x8E, 0x92, 0xE9, 0x98, 0x9F]
      | Trace_Sent \<Rightarrow> [0xE5, 0xB7, 0xB2, 0xE5, 0x8F, 0x91, 0xE9, 0x80, 0x81]
      | Trace_Completed \<Rightarrow> [0xE5, 0xAE, 0x8C, 0xE6, 0x88, 0x90]
      | Trace_Failed \<Rightarrow> [0xE5, 0xA4, 0xB1, 0xE8, 0xB4, 0xA5]
      | Trace_Timeout \<Rightarrow> [0xE8, 0xB6, 0x85, 0xE6, 0x97, 0xB6]
      | Trace_Rejected \<Rightarrow> [0xE6, 0x8B, 0x92, 0xE7, 0xBB, 0x9D]
      | Trace_Dropped \<Rightarrow> [0xE4, 0xB8, 0xA2, 0xE5, 0xBC, 0x83]
      | Trace_Canceled \<Rightarrow> [0xE5, 0x8F, 0x96, 0xE6, 0xB6, 0x88]
      | Trace_GuardReset \<Rightarrow> [0xE7, 0x86, 0x94, 0xE6, 0x96, 0xAD, 0xE9, 0x87, 0x8D, 0xE7, 0xBD, 0xAE :: nat])"

definition isRequestTraceFailure :: "RequestTraceState \<Rightarrow> bool" where
  "isRequestTraceFailure state \<longleftrightarrow>
     (case state of
        Trace_Failed \<Rightarrow> True | Trace_Timeout \<Rightarrow> True | Trace_Rejected \<Rightarrow> True | Trace_Dropped \<Rightarrow> True
      | Trace_Canceled \<Rightarrow> True | _ \<Rightarrow> False)"

definition matchesRequestTraceKeyword :: "RequestTraceRow \<Rightarrow> string \<Rightarrow> bool" where
  "matchesRequestTraceKeyword row keyword \<longleftrightarrow>
     (if keyword = [] then True
      else containsIgnoreCase (nat_text (unat (tr_id row))) keyword \<or> containsIgnoreCase (tr_endpoint row) keyword \<or>
           containsIgnoreCase (tr_tag row) keyword \<or> containsIgnoreCase (requestTraceKindLabel (tr_kind row)) keyword \<or>
           containsIgnoreCase (requestTraceStateLabel (tr_state row)) keyword \<or>
           containsIgnoreCase (tr_guardState row) keyword \<or> containsIgnoreCase (tr_error row) keyword)"

definition matchesRequestTraceFilter :: "RequestTraceRow \<Rightarrow> RequestTraceFilterState \<Rightarrow> bool" where
  "matchesRequestTraceFilter row f \<longleftrightarrow>
     (if \<not> matchesRequestTraceKeyword row (tf_keyword f) then False
      else case tf_status f of
        Filter_All \<Rightarrow> True
      | Filter_Active \<Rightarrow> tr_state row = Trace_Queued \<or> tr_state row = Trace_Sent
      | Filter_Success \<Rightarrow> tr_state row = Trace_Completed \<or> tr_state row = Trace_GuardReset
      | Filter_Failure \<Rightarrow> isRequestTraceFailure (tr_state row))"

fun filteredRequestTraceRows :: "RequestTraceRow list \<Rightarrow> RequestTraceFilterState \<Rightarrow> RequestTraceRow list" where
  "filteredRequestTraceRows [] f = []"
| "filteredRequestTraceRows (row # rows) f =
     (if matchesRequestTraceFilter row f then [row] else []) @ filteredRequestTraceRows rows f"

definition formatRequestTraceDuration :: "RequestTraceRow \<Rightarrow> string" where
  "formatRequestTraceDuration row =
     (if tr_durationMs row = 0 \<and> tr_state row = Trace_Queued then ''-''
      else nat_text (unat (tr_durationMs row)) @ '' ms'')"

definition formatRequestTraceDetail :: "RequestTraceRow \<Rightarrow> string" where
  "formatRequestTraceDetail row = (if tr_error row \<noteq> [] then tr_error row else tr_guardState row)"

text \<open>The cells of a row, in the order in which they are appended.\<close>

definition request_trace_cells :: "(nat \<Rightarrow> tm) \<Rightarrow> RequestTraceRow \<Rightarrow> bool \<Rightarrow> string list" where
  "request_trace_cells localtime row showTimestamps =
     (if showTimestamps then [formatTimestampText localtime (tr_timestampMs row)] else []) @
     [if tr_id row = 0 then ''-'' else nat_text (unat (tr_id row)),
      requestTraceKindLabel (tr_kind row),
      requestTraceStateLabel (tr_state row),
      textOrDash (tr_tag row),
      textOrDash (tr_endpoint row),
      nat_text (unat (tr_attempt row)) @ ''/'' @ nat_text (unat (tr_maxAttempts row)),
      nat_text (tr_bytes row),
      formatRequestTraceDuration row,
      textOrDash (formatRequestTraceDetail row)]"

definition formatRequestTraceRowCsv :: "(nat \<Rightarrow> tm) \<Rightarrow> RequestTraceRow \<Rightarrow> bool \<Rightarrow> string" where
  "formatRequestTraceRowCsv localtime row showTimestamps =
     foldl appendCsvField [] (request_trace_cells localtime row showTimestamps)"

definition request_trace_titles :: "bool \<Rightarrow> string list" where
  "request_trace_titles showTimestamps =
     (if showTimestamps then [map char_of [0xE6, 0x97, 0xB6, 0xE9, 0x97, 0xB4 :: nat]] else []) @
     [''ID'',
      map char_of [0xE7, 0xB1, 0xBB, 0xE5, 0x9E, 0x8B :: nat],
      map char_of [0xE7, 0x8A, 0xB6, 0xE6, 0x80, 0x81 :: nat],
      ''Tag'',
      map char_of [0xE7, 0xAB, 0xAF, 0xE7, 0x82, 0xB9 :: nat],
      map char_of [0xE5, 0xB0, 0x9D, 0xE8, 0xAF, 0x95 :: nat],
      map char_of [0xE5, 0xAD, 0x97, 0xE8, 0x8A, 0x82 :: nat],
      map char_of [0xE8, 0x80, 0x97, 0xE6, 0x97, 0xB6 :: nat],
      map char_of [0xE8, 0xAF, 0xA6, 0xE6, 0x83, 0x85 :: nat]]"

definition formatRequestTraceRowsCsv :: "(nat \<Rightarrow> tm) \<Rightarrow> RequestTraceRow list \<Rightarrow> bool \<Rightarrow> string" where
  "formatRequestTraceRowsCsv localtime rows showTimestamps =
     foldl appendCsvField [] (request_trace_titles showTimestamps) @ [CHR 0x0A] @
     concat (map (\<lambda>row. formatRequestTraceRowCsv localtime row showTimestamps @ [CHR 0x0A]) rows)"

section \<open>Facts about the filters\<close>

lemma text_contains_sublist: "text_contains s needle \<longleftrightarrow> sublist needle s"
proof (induction s)
  case (Cons c s)
  have "take (length needle) (c # s) = needle \<longleftrightarrow> prefix needle (c # s)"
    by (metis append_eq_conv_conj prefix_def take_is_prefix)
  with Cons show ?case by (simp add: sublist_Cons_right)
qed simp

lemma containsIgnoreCase_iff:
  "containsIgnoreCase s keyword \<longleftrightarrow> sublist (lowercaseAscii keyword) (lowercaseAscii s)"
  by (auto simp: containsIgnoreCase_def text_contains_sublist lowercaseAscii_def)

lemma filteredLogRows_filter:
  "filteredLogRows rows f preview = filter (\<lambda>row. matchesLogFilter row f preview) rows"
  by (induction rows) simp_all

lemma filteredRequestTraceRows_filter:
  "filteredRequestTraceRows rows f = filter (\<lambda>row. matchesRequestTraceFilter row f) rows"
  by (induction rows) simp_all

lemma matchesStatusFilter_unique: "\<exists>!status. status \<noteq> Status_All \<and> matchesStatusFilter row status"
  by (cases "classifyReceiveRow row") (auto simp: matchesStatusFilter_def)

section \<open>The exported table is a CSV file\<close>

lemma foldl_appendCsvField:
  "line \<noteq> [] \<Longrightarrow> foldl appendCsvField line fs = line @ csv_tail (map quoteCsv fs)"
  by (induction fs arbitrary: line) (simp_all add: appendCsvField_def)

lemma csv_line_quoted: "foldl appendCsvField [] (f # fs) = quoteCsv f @ csv_tail (map quoteCsv fs)"
  by (subst foldl_Cons, subst foldl_appendCsvField) (simp_all add: appendCsvField_def quoteCsv_def)

lemma length_quoteCsv: "length (quoteCsv f) \<le> 2 * length f + 2"
proof -
  have "length (csv_double_quotes f) \<le> 2 * length f" by (induction f) auto
  then show ?thesis by (simp add: quoteCsv_def)
qed

lemma length_csv_line: "length (foldl appendCsvField [] fs) \<le> (\<Sum>f\<leftarrow>fs. 2 * length f + 3)"
proof (cases fs)
  case (Cons g gs)
  have "length (csv_tail (map quoteCsv gs)) \<le> (\<Sum>f\<leftarrow>gs. 2 * length f + 3)"
  proof (induction gs)
    case (Cons h hs)
    then show ?case using length_quoteCsv [of h] by simp
  qed simp
  then show ?thesis using length_quoteCsv [of g] unfolding Cons csv_line_quoted by simp
qed simp

lemma csv_form_quoteCsv: "csv_form f (quoteCsv f)"
  by (simp add: csv_form_def quoteCsv_def)

lemma csv_next_quoted:
  assumes "reader_ready r" "fs \<noteq> []" "length (foldl appendCsvField [] fs) < csv_maxBytes r"
    and "length fs \<le> csv_maxFields r"
  shows "csv_next (reader_at r (foldl appendCsvField [] fs @ CHR 0x0A # cs)) = (Inr (Some fs), reader_at r cs)"
proof -
  obtain g gs where fs: "fs = g # gs" using assms(2) by (cases fs) auto
  show ?thesis
    using csv_next_forms [OF assms(1) csv_form_quoteCsv, of gs "map quoteCsv gs" g cs] assms(3,4)
    unfolding fs csv_line_quoted by (simp add: list_all2_conv_all_nth csv_form_quoteCsv)
qed

definition csv_table :: "string list list \<Rightarrow> string" where
  "csv_table rows = concat (map (\<lambda>fs. foldl appendCsvField [] fs @ [CHR 0x0A]) rows)"

lemma csv_table_first: "fs \<noteq> [] \<Longrightarrow> (\<And>t. csv_table (fs # rows) = CHR 0x22 # t \<Longrightarrow> thesis) \<Longrightarrow> thesis"
  by (cases fs) (simp_all add: csv_table_def csv_line_quoted quoteCsv_def del: foldl_Cons)

lemma csv_read_quoted_rows:
  "reader_ready r \<Longrightarrow> \<not> is_fault (csv_stream r) \<Longrightarrow>
   \<forall>fs \<in> set rows. fs \<noteq> [] \<and> length (foldl appendCsvField [] fs) < csv_maxBytes r \<and> length fs \<le> csv_maxFields r \<Longrightarrow>
   csv_read_rows (Suc (length rows)) (reader_at r (csv_table rows)) = map (\<lambda>fs. Inr (Some fs)) rows @ [Inr None]"
proof (induction rows)
  case Nil
  then show ?case using csv_next_end [of r] by (auto simp: csv_table_def Let_def)
next
  case (Cons fs rows)
  have "csv_next (reader_at r (csv_table (fs # rows))) = (Inr (Some fs), reader_at r (csv_table rows))"
    using Cons.prems csv_next_quoted [of r fs "csv_table rows"] by (simp add: csv_table_def)
  then show ?case using Cons by (simp del: csv_read_rows.simps(2) add: csv_read_rows.simps(2) [of "Suc (length rows)"])
qed

lemma formatRequestTraceRowsCsv_table:
  "formatRequestTraceRowsCsv localtime rows ts =
     csv_table (request_trace_titles ts # map (\<lambda>row. request_trace_cells localtime row ts) rows)"
  by (simp add: formatRequestTraceRowsCsv_def csv_table_def formatRequestTraceRowCsv_def comp_def)

section \<open>Properties\<close>

text \<open>The request table that is exported from the dock is a CSV file of the same rows: the program's
own CSV reader reads it back as the titles and then, for each request, the cells as they are shown, whatever
quotes, commas or line ends the tags, endpoints and errors hold. (No line exceeds the reader's byte limit.)\<close>

theorem request_trace_export_readable:
  assumes "\<forall>row \<in> set rows. length (formatRequestTraceRowCsv localtime row ts) < csv_byte_limit"
  shows "\<exists>r. new_CsvRowReader (istream_of (formatRequestTraceRowsCsv localtime rows ts)) None csv_byte_limit 4096
       = Inr r \<and>
     csv_read_rows (length rows + 2) r =
       map (\<lambda>fs. Inr (Some fs)) (request_trace_titles ts # map (\<lambda>row. request_trace_cells localtime row ts) rows) @
       [Inr None]"
proof -
  let ?table = "request_trace_titles ts # map (\<lambda>row. request_trace_cells localtime row ts) rows"
  obtain r where new: "new_CsvRowReader (istream_of (csv_table ?table)) None csv_byte_limit 4096 = Inr r"
    using new_reader_exists [of csv_byte_limit 4096 "istream_of (csv_table ?table)" None]
    by (auto simp: csv_byte_limit_def)
  have "request_trace_titles ts \<noteq> []" by (simp add: request_trace_titles_def)
  then obtain t where "csv_table ?table = CHR 0x22 # t" by (rule csv_table_first)
  then have first: "csv_table ?table \<noteq> []" "hd (csv_table ?table) \<noteq> CHR 0xEF" by simp_all
  have r: "reader_ready r" "r = reader_at r (csv_table ?table)" "csv_maxBytes r = csv_byte_limit"
    "csv_maxFields r = 4096" "\<not> is_fault (csv_stream r)"
    using new_reader_ready [OF new] first by simp_all
  have titles: "length (foldl appendCsvField [] (request_trace_titles ts)) < csv_byte_limit"
    by (rule le_less_trans [OF length_csv_line]) (simp add: request_trace_titles_def csv_byte_limit_def)
  have fit: "\<forall>fs \<in> set ?table. fs \<noteq> [] \<and> length (foldl appendCsvField [] fs) < csv_maxBytes r \<and>
      length fs \<le> csv_maxFields r"
    using assms titles r(3,4)
    by (auto simp: formatRequestTraceRowCsv_def request_trace_cells_def request_trace_titles_def)
  from csv_read_quoted_rows [OF r(1,5) fit] r(2)
  have "csv_read_rows (Suc (length ?table)) r = map (\<lambda>fs. Inr (Some fs)) ?table @ [Inr None]" by simp
  with new show ?thesis by (simp add: formatRequestTraceRowsCsv_table)
qed

definition sample_trace :: RequestTraceRow where
  "sample_trace =
     \<lparr>tr_timestampMs = 0, tr_id = 7, tr_kind = Kind_Request, tr_state = Trace_Timeout, tr_endpoint = ''a,b'',
      tr_tag = [CHR 0x22], tr_bytes = 3, tr_queuedMs = 0, tr_finishedMs = 9, tr_timeoutMs = 9, tr_durationMs = 9,
      tr_guarded = False, tr_attempt = 1, tr_maxAttempts = 2, tr_guardState = [], tr_error = [CHR 0x0A]\<rparr>"

definition sample_localtime :: "nat \<Rightarrow> tm" where
  "sample_localtime seconds = \<lparr>tm_year = 70, tm_mon = 0, tm_mday = 1, tm_hour = 0, tm_min = 0, tm_sec = int (seconds mod 60)\<rparr>"

theorem request_trace_export_readable_witness:
  "\<exists>r. new_CsvRowReader (istream_of (formatRequestTraceRowsCsv sample_localtime [sample_trace] False)) None csv_byte_limit 4096
       = Inr r \<and>
     csv_read_rows 3 r =
       [Inr (Some (request_trace_titles False)), Inr (Some (request_trace_cells sample_localtime sample_trace False)), Inr None]"
proof -
  have "length (formatRequestTraceRowCsv sample_localtime sample_trace False) < csv_byte_limit"
    unfolding formatRequestTraceRowCsv_def
    by (rule le_less_trans [OF length_csv_line])
      (simp add: request_trace_cells_def sample_trace_def csv_byte_limit_def formatRequestTraceDuration_def formatRequestTraceDetail_def
        textOrDash_def requestTraceKindLabel_def requestTraceStateLabel_def nat_text.simps)
  then show ?thesis
    using request_trace_export_readable [of "[sample_trace]" sample_localtime False] by (simp add: numeral_3_eq_3)
qed

end
