(* ===== verification/Dock_Store.thy ===== *)
theory Dock_Store
  imports Dock_Rows
begin

text \<open>
  The state behind the docks, from \<open>dock/docks.hpp\<close> and the second part of \<open>dock/docks.cc\<close>: the
  bounded histories of the receive, log, script and request docks with their version counters, the send
  history, and the configuration dock. The connection, script and wave states of the store are only handed
  out by reference and are not part of this model. The clock is the parameter \<open>now_ms\<close>.
\<close>

section \<open>State\<close>

datatype TransferLogDisplayMode = RawChunks | ParsedFrames

record DockHistoryLimits =
  transferRawRows :: nat
  transferFrameRows :: nat
  hostLogRows :: nat
  scriptLogRows :: nat
  requestTraceRows :: nat

definition default_history_limits :: DockHistoryLimits where
  "default_history_limits = \<lparr>transferRawRows = 10000, transferFrameRows = 120000, hostLogRows = 5000,
     scriptLogRows = 5000, requestTraceRows = 5000\<rparr>"

record ReceiveDockState =
  rd_pauseScroll :: bool
  rd_showHex :: bool
  rd_showTimestamps :: bool
  rd_displayMode :: TransferLogDisplayMode
  rd_filter :: LogFilterState
  rd_rows :: "ReceiveRow list"
  rd_frameRows :: "ReceiveRow list"
  rd_rowsVersion :: u64
  rd_frameRowsVersion :: u64

record LogDockState =
  ld_pauseScroll :: bool
  ld_showTimestamps :: bool
  ld_filter :: LogFilterState
  ld_rows :: "ReceiveRow list"
  ld_rowsVersion :: u64

record ScriptDockState =
  sd_pauseScroll :: bool
  sd_showTimestamps :: bool
  sd_filter :: LogFilterState
  sd_rows :: "ReceiveRow list"
  sd_rowsVersion :: u64

record RequestTraceDockState =
  td_pauseScroll :: bool
  td_showTimestamps :: bool
  td_filter :: RequestTraceFilterState
  td_rows :: "RequestTraceRow list"
  td_rowsVersion :: u64

record SendDockState =
  snd_hexMode :: bool
  snd_payload :: string
  snd_history :: "string list"
  snd_historyComboWidth :: f32

record ConfigConflictState =
  cc_detected :: bool
  cc_message :: string

record ConfigDockState =
  cd_dirty :: bool
  cd_autoSaveEnabled :: bool
  cd_autoSaveIntervalMs :: u64
  cd_configHotReloadEnabled :: bool
  cd_fpsLimit :: u32
  cd_idleRender :: string
  cd_fileTimestampMs :: u64
  cd_loadedFromPath :: string
  cd_statusMessage :: string
  cd_transientStatusMessage :: string
  cd_transientStatusExpiresAtMs :: u64
  cd_luaDockLayoutDebug :: bool
  cd_luaDockRenderCopyMode :: bool
  cd_pendingExternalReload :: bool
  cd_pendingExternalReloadTimestampMs :: u64
  cd_externalReloadMessage :: string
  cd_conflict :: ConfigConflictState

record DockStore =
  store_receive :: ReceiveDockState
  store_log :: LogDockState
  store_script :: ScriptDockState
  store_requestTrace :: RequestTraceDockState
  store_send :: SendDockState
  store_config :: ConfigDockState
  store_historyLimits :: DockHistoryLimits

definition default_log_filter :: LogFilterState where
  "default_log_filter = \<lparr>lf_keyword = [], lf_status = Status_All\<rparr>"

definition new_ReceiveDockState :: ReceiveDockState where
  "new_ReceiveDockState = \<lparr>rd_pauseScroll = False, rd_showHex = True, rd_showTimestamps = True,
     rd_displayMode = RawChunks, rd_filter = default_log_filter, rd_rows = [], rd_frameRows = [],
     rd_rowsVersion = 0, rd_frameRowsVersion = 0\<rparr>"

definition new_LogDockState :: LogDockState where
  "new_LogDockState = \<lparr>ld_pauseScroll = False, ld_showTimestamps = True, ld_filter = default_log_filter,
     ld_rows = [], ld_rowsVersion = 0\<rparr>"

definition new_ScriptDockState :: ScriptDockState where
  "new_ScriptDockState = \<lparr>sd_pauseScroll = False, sd_showTimestamps = True, sd_filter = default_log_filter,
     sd_rows = [], sd_rowsVersion = 0\<rparr>"

definition new_RequestTraceDockState :: RequestTraceDockState where
  "new_RequestTraceDockState = \<lparr>td_pauseScroll = False, td_showTimestamps = True,
     td_filter = \<lparr>tf_keyword = [], tf_status = Filter_All\<rparr>, td_rows = [], td_rowsVersion = 0\<rparr>"

definition new_SendDockState :: SendDockState where
  "new_SendDockState = \<lparr>snd_hexMode = True, snd_payload = ''AA 01 00'', snd_history = [],
     snd_historyComboWidth = 0x435C0000\<rparr>"

definition new_ConfigDockState :: ConfigDockState where
  "new_ConfigDockState = \<lparr>cd_dirty = False, cd_autoSaveEnabled = False, cd_autoSaveIntervalMs = 5000,
     cd_configHotReloadEnabled = False, cd_fpsLimit = 60, cd_idleRender = ''dirty_only'', cd_fileTimestampMs = 0,
     cd_loadedFromPath = ''config/protoscope.yaml'', cd_statusMessage = [], cd_transientStatusMessage = [],
     cd_transientStatusExpiresAtMs = 0, cd_luaDockLayoutDebug = False, cd_luaDockRenderCopyMode = True,
     cd_pendingExternalReload = False, cd_pendingExternalReloadTimestampMs = 0, cd_externalReloadMessage = [],
     cd_conflict = \<lparr>cc_detected = False, cc_message = []\<rparr>\<rparr>"

definition new_DockStore :: DockStore where
  "new_DockStore = \<lparr>store_receive = new_ReceiveDockState, store_log = new_LogDockState,
     store_script = new_ScriptDockState, store_requestTrace = new_RequestTraceDockState,
     store_send = new_SendDockState, store_config = new_ConfigDockState,
     store_historyLimits = default_history_limits\<rparr>"

section \<open>Trimming histories\<close>

text \<open>The loop that drops rows at the front while there are more than the limit.\<close>

fun pop_front_above :: "nat \<Rightarrow> 'r list \<Rightarrow> 'r list" where
  "pop_front_above limit [] = []"
| "pop_front_above limit (row # rows) =
     (if limit < length (row # rows) then pop_front_above limit rows else row # rows)"

definition trimRows :: "'r list \<Rightarrow> nat \<Rightarrow> bool \<times> 'r list" where
  "trimRows rows limit = (if length rows \<le> limit then (False, rows) else (True, pop_front_above limit rows))"

definition trimRequestTraceRows :: "nat \<Rightarrow> RequestTraceDockState \<Rightarrow> RequestTraceDockState" where
  "trimRequestTraceRows limit t =
     (if limit = 0 then t\<lparr>td_rows := []\<rparr> else t\<lparr>td_rows := pop_front_above limit (td_rows t)\<rparr>)"

definition trimSendHistory :: "nat \<Rightarrow> SendDockState \<Rightarrow> SendDockState" where
  "trimSendHistory limit s =
     (if limit = 0 then s\<lparr>snd_history := []\<rparr>
      else if limit < length (snd_history s) then s\<lparr>snd_history := take limit (snd_history s)\<rparr>
      else s)"

definition rememberSendHistory :: "string \<Rightarrow> nat \<Rightarrow> SendDockState \<Rightarrow> SendDockState" where
  "rememberSendHistory payload limit s =
     (if limit = 0 \<or> payload = [] then trimSendHistory limit s
      else
        let s = (if payload \<in> set (snd_history s) then s\<lparr>snd_history := remove1 payload (snd_history s)\<rparr> else s) in
        trimSendHistory limit (s\<lparr>snd_history := payload # snd_history s\<rparr>))"

section \<open>Operations of the store\<close>

definition clearReceiveRows :: "DockStore \<Rightarrow> DockStore" where
  "clearReceiveRows s =
     (let r = store_receive s in
      s\<lparr>store_receive := r\<lparr>rd_rows := [], rd_frameRows := [], rd_rowsVersion := rd_rowsVersion r + 1,
          rd_frameRowsVersion := rd_frameRowsVersion r + 1\<rparr>\<rparr>)"

definition appendReceiveRow :: "ReceiveRow \<Rightarrow> DockStore \<Rightarrow> DockStore" where
  "appendReceiveRow row s =
     (let r = store_receive s;
          rows = snd (trimRows (rd_rows r @ [row]) (transferRawRows (store_historyLimits s))) in
      s\<lparr>store_receive := r\<lparr>rd_rows := rows, rd_rowsVersion := rd_rowsVersion r + 1\<rparr>\<rparr>)"

definition appendLogRow :: "ReceiveRow \<Rightarrow> DockStore \<Rightarrow> DockStore" where
  "appendLogRow row s =
     (let l = store_log s; rows = snd (trimRows (ld_rows l @ [row]) (hostLogRows (store_historyLimits s))) in
      s\<lparr>store_log := l\<lparr>ld_rows := rows, ld_rowsVersion := ld_rowsVersion l + 1\<rparr>\<rparr>)"

definition appendScriptRow :: "ReceiveRow \<Rightarrow> DockStore \<Rightarrow> DockStore" where
  "appendScriptRow row s =
     (let l = store_script s; rows = snd (trimRows (sd_rows l @ [row]) (scriptLogRows (store_historyLimits s))) in
      s\<lparr>store_script := l\<lparr>sd_rows := rows, sd_rowsVersion := sd_rowsVersion l + 1\<rparr>\<rparr>)"

definition appendRequestTraceRow :: "RequestTraceRow \<Rightarrow> DockStore \<Rightarrow> DockStore" where
  "appendRequestTraceRow row s =
     (let t = store_requestTrace s;
          t = trimRequestTraceRows (requestTraceRows (store_historyLimits s)) (t\<lparr>td_rows := td_rows t @ [row]\<rparr>) in
      s\<lparr>store_requestTrace := t\<lparr>td_rowsVersion := td_rowsVersion t + 1\<rparr>\<rparr>)"

definition clearLogRows :: "DockStore \<Rightarrow> DockStore" where
  "clearLogRows s =
     (let l = store_log s in s\<lparr>store_log := l\<lparr>ld_rows := [], ld_rowsVersion := ld_rowsVersion l + 1\<rparr>\<rparr>)"

definition clearScriptRows :: "DockStore \<Rightarrow> DockStore" where
  "clearScriptRows s =
     (let l = store_script s in s\<lparr>store_script := l\<lparr>sd_rows := [], sd_rowsVersion := sd_rowsVersion l + 1\<rparr>\<rparr>)"

definition clearRequestTraceRows :: "DockStore \<Rightarrow> DockStore" where
  "clearRequestTraceRows s =
     (let t = store_requestTrace s in
      s\<lparr>store_requestTrace := t\<lparr>td_rows := [], td_rowsVersion := td_rowsVersion t + 1\<rparr>\<rparr>)"

definition appendTransferFrameRows :: "ReceiveRow list \<Rightarrow> DockStore \<Rightarrow> DockStore" where
  "appendTransferFrameRows rows s =
     (if rows = [] then s
      else
        let r = store_receive s;
            rows = snd (trimRows (foldl (\<lambda>all row. all @ [row]) (rd_frameRows r) rows)
                     (transferFrameRows (store_historyLimits s))) in
        s\<lparr>store_receive := r\<lparr>rd_frameRows := rows, rd_frameRowsVersion := rd_frameRowsVersion r + 1\<rparr>\<rparr>)"

definition clearTransferFrameRows :: "DockStore \<Rightarrow> DockStore" where
  "clearTransferFrameRows s =
     (let r = store_receive s in
      s\<lparr>store_receive := r\<lparr>rd_frameRows := [], rd_frameRowsVersion := rd_frameRowsVersion r + 1\<rparr>\<rparr>)"

definition setHistoryLimits :: "DockHistoryLimits \<Rightarrow> DockStore \<Rightarrow> DockStore" where
  "setHistoryLimits limits s =
     (let s = s\<lparr>store_historyLimits := limits\<rparr>;
          r = store_receive s;
          (changed, rows) = trimRows (rd_rows r) (transferRawRows limits);
          r = r\<lparr>rd_rows := rows, rd_rowsVersion := (if changed then rd_rowsVersion r + 1 else rd_rowsVersion r)\<rparr>;
          (changed, rows) = trimRows (rd_frameRows r) (transferFrameRows limits);
          r = r\<lparr>rd_frameRows := rows,
                rd_frameRowsVersion := (if changed then rd_frameRowsVersion r + 1 else rd_frameRowsVersion r)\<rparr>;
          l = store_log s;
          (changed, rows) = trimRows (ld_rows l) (hostLogRows limits);
          l = l\<lparr>ld_rows := rows, ld_rowsVersion := (if changed then ld_rowsVersion l + 1 else ld_rowsVersion l)\<rparr>;
          c = store_script s;
          (changed, rows) = trimRows (sd_rows c) (scriptLogRows limits);
          c = c\<lparr>sd_rows := rows, sd_rowsVersion := (if changed then sd_rowsVersion c + 1 else sd_rowsVersion c)\<rparr>;
          t = store_requestTrace s;
          before = length (td_rows t);
          t = trimRequestTraceRows (requestTraceRows limits) t;
          t = (if length (td_rows t) \<noteq> before then t\<lparr>td_rowsVersion := td_rowsVersion t + 1\<rparr> else t) in
      s\<lparr>store_receive := r, store_log := l, store_script := c, store_requestTrace := t\<rparr>)"

record ScriptEvent =
  ev_timestampMs :: u64
  ev_name :: string
  ev_payload :: string

definition appendLuaEvent :: "ScriptEvent \<Rightarrow> DockStore \<Rightarrow> DockStore" where
  "appendLuaEvent ev = appendScriptRow
     \<lparr>rr_timestampMs = ev_timestampMs ev, rr_direction = ''EVENT'', rr_endpoint = ''script'', rr_bytes = [],
      rr_message = ev_name ev @ '': '' @ ev_payload ev, rr_messageIsWriteStatus = False, rr_displayPosition = 0,
      rr_historyProfiles = None\<rparr>"

definition raw_row :: "string \<Rightarrow> u64 \<Rightarrow> string \<Rightarrow> string \<Rightarrow> ReceiveRow" where
  "raw_row direction now_ms endpoint s =
     \<lparr>rr_timestampMs = now_ms, rr_direction = direction, rr_endpoint = endpoint, rr_bytes = map byte_of_char s,
      rr_message = [], rr_messageIsWriteStatus = False, rr_displayPosition = 0, rr_historyProfiles = None\<rparr>"

definition appendRawReceive :: "u64 \<Rightarrow> string \<Rightarrow> string \<Rightarrow> DockStore \<Rightarrow> DockStore" where
  "appendRawReceive now_ms endpoint s store =
     (let r = store_receive store;
          rows = snd (trimRows (rd_rows r @ [raw_row ''RX'' now_ms endpoint s])
                   (transferRawRows (store_historyLimits store))) in
      store\<lparr>store_receive := r\<lparr>rd_rows := rows, rd_rowsVersion := rd_rowsVersion r + 1\<rparr>\<rparr>)"

definition appendRawSend :: "u64 \<Rightarrow> string \<Rightarrow> string \<Rightarrow> DockStore \<Rightarrow> DockStore" where
  "appendRawSend now_ms endpoint s store =
     (let r = store_receive store;
          rows = snd (trimRows (rd_rows r @ [raw_row ''TX'' now_ms endpoint s])
                   (transferRawRows (store_historyLimits store))) in
      store\<lparr>store_receive := r\<lparr>rd_rows := rows, rd_rowsVersion := rd_rowsVersion r + 1\<rparr>\<rparr>)"

definition markDirty :: "string \<Rightarrow> DockStore \<Rightarrow> DockStore" where
  "markDirty message s =
     s\<lparr>store_config := (store_config s)\<lparr>cd_dirty := True, cd_statusMessage := message\<rparr>\<rparr>"

definition clearDirty :: "string \<Rightarrow> DockStore \<Rightarrow> DockStore" where
  "clearDirty message s =
     s\<lparr>store_config := (store_config s)\<lparr>cd_dirty := False, cd_statusMessage := message\<rparr>\<rparr>"

definition setPendingExternalReload :: "u64 \<Rightarrow> string \<Rightarrow> DockStore \<Rightarrow> DockStore" where
  "setPendingExternalReload timestampMs message s =
     s\<lparr>store_config := (store_config s)\<lparr>cd_pendingExternalReload := True,
         cd_pendingExternalReloadTimestampMs := timestampMs, cd_externalReloadMessage := message\<rparr>\<rparr>"

definition clearPendingExternalReload :: "DockStore \<Rightarrow> DockStore" where
  "clearPendingExternalReload s =
     s\<lparr>store_config := (store_config s)\<lparr>cd_pendingExternalReload := False,
         cd_pendingExternalReloadTimestampMs := 0, cd_externalReloadMessage := []\<rparr>\<rparr>"

definition setConflict :: "string \<Rightarrow> DockStore \<Rightarrow> DockStore" where
  "setConflict message s =
     s\<lparr>store_config := (store_config s)\<lparr>cd_conflict := \<lparr>cc_detected = True, cc_message = message\<rparr>\<rparr>\<rparr>"

definition clearConflict :: "DockStore \<Rightarrow> DockStore" where
  "clearConflict s =
     s\<lparr>store_config := (store_config s)\<lparr>cd_conflict := \<lparr>cc_detected = False, cc_message = []\<rparr>\<rparr>\<rparr>"

section \<open>The contract of a history limiter\<close>

text \<open>The latest \<open>n\<close> entries of a history.\<close>

definition latest :: "nat \<Rightarrow> 'r list \<Rightarrow> 'r list" where
  "latest n rows = drop (length rows - n) rows"

lemma length_latest [simp]: "length (latest n rows) = min n (length rows)"
  by (auto simp: latest_def)

lemma latest_all [simp]: "length rows \<le> n \<Longrightarrow> latest n rows = rows"
  by (simp add: latest_def)

lemma latest_Nil [simp]: "latest n [] = []"
  by (simp add: latest_def)

lemma latest_0 [simp]: "latest 0 rows = []"
  by (simp add: latest_def)

lemma latest_suffix [simp]: "suffix (latest n rows) rows"
  by (simp add: latest_def suffix_drop)

lemma latest_append: "latest n (latest n xs @ ys) = latest n (xs @ ys)"
  by (cases "length xs \<le> n") (auto simp: latest_def add.commute)

text \<open>\<open>IDockHistoryLimiter\<close>: the rows that are kept, and whether some were dropped.\<close>

locale history_limiter =
  fixes trim :: "'r list \<Rightarrow> nat \<Rightarrow> bool \<times> 'r list"
  assumes trim_keeps_latest: "snd (trim rows limit) = latest limit rows"
    and trim_reports: "fst (trim rows limit) \<longleftrightarrow> limit < length rows"
begin

lemma trim_bounded: "length (snd (trim rows limit)) \<le> limit"
  by (simp add: trim_keeps_latest)

lemma trim_unchanged: "\<not> fst (trim rows limit) \<Longrightarrow> snd (trim rows limit) = rows"
  by (simp add: trim_keeps_latest trim_reports)

lemma trim_eq: "trim rows limit = (limit < length rows, latest limit rows)"
  by (simp add: prod_eq_iff trim_keeps_latest trim_reports)

end

lemma pop_front_above_latest: "pop_front_above limit rows = latest limit rows"
  by (induction rows) (auto simp: latest_def Suc_diff_le)

interpretation bounded_limiter: history_limiter trimRows
  by unfold_locales (auto simp: trimRows_def pop_front_above_latest)

lemma trimRequestTraceRows_latest:
  "trimRequestTraceRows limit t = t\<lparr>td_rows := latest limit (td_rows t)\<rparr>"
  by (simp add: trimRequestTraceRows_def pop_front_above_latest)

lemma foldl_snoc: "foldl (\<lambda>all row. all @ [row]) xs ys = xs @ ys"
  by (induction ys arbitrary: xs) simp_all

section \<open>Sequences of operations\<close>

datatype StoreOp =
    OpClearReceive
  | OpReceive ReceiveRow
  | OpRawReceive u64 string string
  | OpRawSend u64 string string
  | OpFrames "ReceiveRow list"
  | OpClearFrames
  | OpLog ReceiveRow
  | OpClearLog
  | OpScript ReceiveRow
  | OpLuaEvent ScriptEvent
  | OpClearScript
  | OpTrace RequestTraceRow
  | OpClearTrace
  | OpLimits DockHistoryLimits

fun store_op :: "StoreOp \<Rightarrow> DockStore \<Rightarrow> DockStore" where
  "store_op OpClearReceive = clearReceiveRows"
| "store_op (OpReceive row) = appendReceiveRow row"
| "store_op (OpRawReceive t e s) = appendRawReceive t e s"
| "store_op (OpRawSend t e s) = appendRawSend t e s"
| "store_op (OpFrames rows) = appendTransferFrameRows rows"
| "store_op OpClearFrames = clearTransferFrameRows"
| "store_op (OpLog row) = appendLogRow row"
| "store_op OpClearLog = clearLogRows"
| "store_op (OpScript row) = appendScriptRow row"
| "store_op (OpLuaEvent ev) = appendLuaEvent ev"
| "store_op OpClearScript = clearScriptRows"
| "store_op (OpTrace row) = appendRequestTraceRow row"
| "store_op OpClearTrace = clearRequestTraceRows"
| "store_op (OpLimits limits) = setHistoryLimits limits"

text \<open>The four row histories, and how each operation changes what was logged in one of them.\<close>

datatype History = RawRows | FrameRows | LogRows | ScriptRows

fun history_rows :: "History \<Rightarrow> DockStore \<Rightarrow> ReceiveRow list" where
  "history_rows RawRows s = rd_rows (store_receive s)"
| "history_rows FrameRows s = rd_frameRows (store_receive s)"
| "history_rows LogRows s = ld_rows (store_log s)"
| "history_rows ScriptRows s = sd_rows (store_script s)"

fun history_version :: "History \<Rightarrow> DockStore \<Rightarrow> u64" where
  "history_version RawRows s = rd_rowsVersion (store_receive s)"
| "history_version FrameRows s = rd_frameRowsVersion (store_receive s)"
| "history_version LogRows s = ld_rowsVersion (store_log s)"
| "history_version ScriptRows s = sd_rowsVersion (store_script s)"

fun history_limit :: "History \<Rightarrow> DockHistoryLimits \<Rightarrow> nat" where
  "history_limit RawRows l = transferRawRows l"
| "history_limit FrameRows l = transferFrameRows l"
| "history_limit LogRows l = hostLogRows l"
| "history_limit ScriptRows l = scriptLogRows l"

datatype 'r effect = Logged "'r list" | Cleared

fun logged_after :: "'r effect \<Rightarrow> 'r list \<Rightarrow> 'r list" where
  "logged_after (Logged rows) log = log @ rows"
| "logged_after Cleared log = []"

fun history_effect :: "History \<Rightarrow> StoreOp \<Rightarrow> ReceiveRow effect" where
  "history_effect RawRows OpClearReceive = Cleared"
| "history_effect FrameRows OpClearReceive = Cleared"
| "history_effect RawRows (OpReceive row) = Logged [row]"
| "history_effect RawRows (OpRawReceive t e s) = Logged [raw_row ''RX'' t e s]"
| "history_effect RawRows (OpRawSend t e s) = Logged [raw_row ''TX'' t e s]"
| "history_effect FrameRows (OpFrames rows) = Logged rows"
| "history_effect FrameRows OpClearFrames = Cleared"
| "history_effect LogRows (OpLog row) = Logged [row]"
| "history_effect LogRows OpClearLog = Cleared"
| "history_effect ScriptRows (OpScript row) = Logged [row]"
| "history_effect ScriptRows (OpLuaEvent ev) = Logged
     [\<lparr>rr_timestampMs = ev_timestampMs ev, rr_direction = ''EVENT'', rr_endpoint = ''script'', rr_bytes = [],
      rr_message = ev_name ev @ '': '' @ ev_payload ev, rr_messageIsWriteStatus = False, rr_displayPosition = 0,
      rr_historyProfiles = None\<rparr>]"
| "history_effect ScriptRows OpClearScript = Cleared"
| "history_effect _ _ = Logged []"

fun trace_effect :: "StoreOp \<Rightarrow> RequestTraceRow effect" where
  "trace_effect (OpTrace row) = Logged [row]"
| "trace_effect OpClearTrace = Cleared"
| "trace_effect _ = Logged []"

definition within_limits :: "DockStore \<Rightarrow> bool" where
  "within_limits s \<longleftrightarrow>
     (\<forall>h. length (history_rows h s) \<le> history_limit h (store_historyLimits s)) \<and>
     length (td_rows (store_requestTrace s)) \<le> requestTraceRows (store_historyLimits s)"

lemmas store_op_defs =
  clearReceiveRows_def appendReceiveRow_def appendRawReceive_def appendRawSend_def appendTransferFrameRows_def
  clearTransferFrameRows_def appendLogRow_def clearLogRows_def appendScriptRow_def appendLuaEvent_def
  clearScriptRows_def appendRequestTraceRow_def clearRequestTraceRows_def setHistoryLimits_def

text \<open>One operation on one history: the latest of what is logged after it, and a version that tells.\<close>

lemma store_op_history:
  assumes "within_limits s"
  shows "history_rows h (store_op op s) =
       latest (history_limit h (store_historyLimits (store_op op s))) (logged_after (history_effect h op) (history_rows h s))"
    and "history_version h (store_op op s) = history_version h s + 1 \<or>
       history_version h (store_op op s) = history_version h s \<and> history_rows h (store_op op s) = history_rows h s"
proof -
  have lim: "length (history_rows h s) \<le> history_limit h (store_historyLimits s)"
    using assms by (simp add: within_limits_def)
  show "history_rows h (store_op op s) =
       latest (history_limit h (store_historyLimits (store_op op s))) (logged_after (history_effect h op) (history_rows h s))"
    using lim by (cases op; cases h) (simp_all add: store_op_defs bounded_limiter.trim_eq foldl_snoc Let_def)
  show "history_version h (store_op op s) = history_version h s + 1 \<or>
       history_version h (store_op op s) = history_version h s \<and> history_rows h (store_op op s) = history_rows h s"
    using lim by (cases op; cases h) (auto simp: store_op_defs bounded_limiter.trim_eq foldl_snoc Let_def)
qed

lemma store_op_trace:
  assumes "within_limits s"
  shows "td_rows (store_requestTrace (store_op op s)) =
       latest (requestTraceRows (store_historyLimits (store_op op s)))
         (logged_after (trace_effect op) (td_rows (store_requestTrace s)))"
    and "td_rowsVersion (store_requestTrace (store_op op s)) = td_rowsVersion (store_requestTrace s) + 1 \<or>
       td_rowsVersion (store_requestTrace (store_op op s)) = td_rowsVersion (store_requestTrace s) \<and>
       td_rows (store_requestTrace (store_op op s)) = td_rows (store_requestTrace s)"
  using assms
  by (cases op; auto simp: within_limits_def store_op_defs bounded_limiter.trim_eq trimRequestTraceRows_latest Let_def)+

lemma store_op_within: "within_limits s \<Longrightarrow> within_limits (store_op op s)"
  using store_op_history(1) [of s _ op] store_op_trace(1) [of s op] unfolding within_limits_def [of "store_op op s"]
  by simp

definition run_ops :: "StoreOp list \<Rightarrow> DockStore \<Rightarrow> DockStore" where
  "run_ops ops s = foldl (\<lambda>s op. store_op op s) s ops"

lemma run_ops_simps [simp]:
  "run_ops [] s = s" "run_ops (op # ops) s = run_ops ops (store_op op s)"
  "run_ops (ops @ ops') s = run_ops ops' (run_ops ops s)"
  by (simp_all add: run_ops_def)

lemma new_within [simp]: "within_limits new_DockStore"
proof -
  have "history_rows h new_DockStore = []" for h
    by (cases h) (simp_all add: new_DockStore_def new_ReceiveDockState_def new_LogDockState_def new_ScriptDockState_def)
  then show ?thesis by (simp add: within_limits_def new_DockStore_def new_RequestTraceDockState_def)
qed

lemma run_ops_within: "within_limits s \<Longrightarrow> within_limits (run_ops ops s)"
  by (induction ops arbitrary: s) (simp_all add: store_op_within)

text \<open>Everything that was logged since the history was last cleared.\<close>

definition logged :: "History \<Rightarrow> StoreOp list \<Rightarrow> ReceiveRow list" where
  "logged h ops = foldl (\<lambda>log op. logged_after (history_effect h op) log) [] ops"

definition traced :: "StoreOp list \<Rightarrow> RequestTraceRow list" where
  "traced ops = foldl (\<lambda>log op. logged_after (trace_effect op) log) [] ops"

lemma logged_snoc [simp]:
  "logged h [] = []" "logged h (ops @ [op]) = logged_after (history_effect h op) (logged h ops)"
  "traced [] = []" "traced (ops @ [op]) = logged_after (trace_effect op) (traced ops)"
  by (simp_all add: logged_def traced_def)

lemma logged_after_suffix: "suffix rows log \<Longrightarrow> suffix (logged_after e rows) (logged_after e log)"
  by (cases e) (auto simp: suffix_def)

lemma latest_logged_after: "latest n (logged_after e (latest n log)) = latest n (logged_after e log)"
  by (cases e) (simp_all add: latest_append)

fun is_row_op :: "StoreOp \<Rightarrow> bool" where
  "is_row_op (OpLimits limits) = False"
| "is_row_op _ = True"

lemma row_op_limits: "is_row_op op \<Longrightarrow> store_historyLimits (store_op op s) = store_historyLimits s"
  by (cases op) (simp_all add: store_op_defs Let_def)

lemma limits_row_op: "\<not> is_row_op op \<Longrightarrow> \<exists>l. op = OpLimits l"
  by (cases op) simp_all

lemma store_op_limits [simp]: "store_historyLimits (store_op (OpLimits l) s) = l"
  by (simp add: setHistoryLimits_def Let_def split_beta)

lemma store_op_limits_effect [simp]:
  "history_effect h (OpLimits l) = Logged []" "trace_effect (OpLimits l) = Logged []"
  by (cases h) simp_all

section \<open>Properties\<close>

text \<open>The docks keep what was logged last. After any sequence of operations, changes of the limits
included, each history is within its limit and a final segment of what was logged in it since it was last
cleared: no row is lost from the middle, reordered, or moved to another history.\<close>

theorem dock_histories_bounded:
  "let s = run_ops ops new_DockStore in
     (\<forall>h. suffix (history_rows h s) (logged h ops) \<and>
        length (history_rows h s) \<le> history_limit h (store_historyLimits s)) \<and>
     suffix (td_rows (store_requestTrace s)) (traced ops) \<and>
     length (td_rows (store_requestTrace s)) \<le> requestTraceRows (store_historyLimits s)"
proof -
  have "suffix (history_rows h (run_ops ops new_DockStore)) (logged h ops)" for h
  proof (induction ops rule: rev_induct)
    case Nil
    show ?case by (cases h) (simp_all add: new_DockStore_def new_ReceiveDockState_def new_LogDockState_def
        new_ScriptDockState_def)
  next
    case (snoc op ops)
    from store_op_history(1) [OF run_ops_within [OF new_within], of h op ops]
    show ?case using suffix_order.trans [OF latest_suffix logged_after_suffix [OF snoc]] by simp
  qed
  moreover have "suffix (td_rows (store_requestTrace (run_ops ops new_DockStore))) (traced ops)"
  proof (induction ops rule: rev_induct)
    case Nil
    show ?case by (simp add: new_DockStore_def new_RequestTraceDockState_def)
  next
    case (snoc op ops)
    from store_op_trace(1) [OF run_ops_within [OF new_within], of op ops]
    show ?case using suffix_order.trans [OF latest_suffix logged_after_suffix [OF snoc]] by simp
  qed
  ultimately show ?thesis using run_ops_within [OF new_within, of ops] by (simp add: within_limits_def Let_def)
qed

text \<open>C28: With fixed limits the docks refine the unbounded log: whatever is received, sent, logged, traced and
cleared, each history holds exactly the latest rows of its log, as many as its limit allows.\<close>

theorem dock_histories_refine_log:
  "let s = run_ops (OpLimits limits # filter is_row_op ops) new_DockStore; ops = filter is_row_op ops in
     (\<forall>h. history_rows h s = latest (history_limit h limits) (logged h ops)) \<and>
     td_rows (store_requestTrace s) = latest (requestTraceRows limits) (traced ops)"
proof -
  let ?s0 = "store_op (OpLimits limits) new_DockStore"
  have w0: "within_limits ?s0" using store_op_within [OF new_within] .
  have start: "history_rows h ?s0 = [] \<and> td_rows (store_requestTrace ?s0) = []" for h
    by (cases h) (simp_all add: store_op_defs bounded_limiter.trim_eq trimRequestTraceRows_latest Let_def
      new_DockStore_def new_ReceiveDockState_def new_LogDockState_def new_ScriptDockState_def new_RequestTraceDockState_def)
  have main: "store_historyLimits (run_ops (filter is_row_op ops) ?s0) = limits \<and>
      (\<forall>h. history_rows h (run_ops (filter is_row_op ops) ?s0) = latest (history_limit h limits) (logged h (filter is_row_op ops))) \<and>
      td_rows (store_requestTrace (run_ops (filter is_row_op ops) ?s0)) =
        latest (requestTraceRows limits) (traced (filter is_row_op ops))"
  proof (induction ops rule: rev_induct)
    case Nil
    show ?case using start by (simp del: store_op.simps)
  next
    case (snoc op ops)
    let ?s = "run_ops (filter is_row_op ops) ?s0"
    show ?case
    proof (cases "is_row_op op")
      case True
      note h = store_op_history(1) [OF run_ops_within [OF w0, of "filter is_row_op ops"], of _ op]
      note t = store_op_trace(1) [OF run_ops_within [OF w0, of "filter is_row_op ops"], of op]
      show ?thesis using snoc True row_op_limits [OF True, of ?s] h t
        by (simp add: latest_logged_after del: store_op.simps)
    qed (use snoc in simp)
  qed
  then show ?thesis by (simp add: Let_def del: store_op.simps)
qed

lemma store_version_step:
  assumes "within_limits s"
  obtains k where "k \<le> length ops" "history_version h (run_ops ops s) = history_version h s + of_nat k"
    "k = 0 \<Longrightarrow> history_rows h (run_ops ops s) = history_rows h s"
  using assms
proof (induction ops arbitrary: s thesis)
  case (Cons op ops)
  obtain k where k: "k \<le> length ops" "history_version h (run_ops ops (store_op op s)) = history_version h (store_op op s) + of_nat k"
    "k = 0 \<Longrightarrow> history_rows h (run_ops ops (store_op op s)) = history_rows h (store_op op s)"
    using Cons.IH store_op_within [OF Cons.prems(2)] by blast
  from store_op_history(2) [OF Cons.prems(2), of h op] show ?case
  proof
    assume "history_version h (store_op op s) = history_version h s + 1"
    then show thesis using k by (intro Cons.prems(1) [of "Suc k"]) simp_all
  next
    assume "history_version h (store_op op s) = history_version h s \<and> history_rows h (store_op op s) = history_rows h s"
    then show thesis using k by (intro Cons.prems(1) [of k]) simp_all
  qed
qed simp

text \<open>A view that keeps the version counter of a history never shows stale rows: if the counter is the
same after fewer than 2 to the 64 operations, whatever they are, so are the rows.\<close>

theorem dock_version_tells:
  assumes "length ops < 2 ^ 64"
    and "history_version h (run_ops (before @ ops) new_DockStore) = history_version h (run_ops before new_DockStore)"
  shows "history_rows h (run_ops (before @ ops) new_DockStore) = history_rows h (run_ops before new_DockStore)"
proof -
  obtain k where k: "k \<le> length ops"
    "history_version h (run_ops ops (run_ops before new_DockStore)) = history_version h (run_ops before new_DockStore) + of_nat k"
    "k = 0 \<Longrightarrow> history_rows h (run_ops ops (run_ops before new_DockStore)) = history_rows h (run_ops before new_DockStore)"
    using store_version_step [OF run_ops_within [OF new_within]] by blast
  have "(of_nat k :: u64) = 0" using k(2) assms(2) by simp
  then have "2 ^ 64 dvd k" by (simp add: word_of_nat_eq_0_iff)
  then have "k = 0" using k(1) assms(1) by (metis dvd_imp_le le_less_trans not_le neq0_conv)
  with k(3) show ?thesis by simp
qed

theorem dock_version_tells_witness:
  "history_rows FrameRows (run_ops [OpRawReceive 0 ''peer'' ''a'', OpFrames []] new_DockStore) =
     history_rows FrameRows (run_ops [OpRawReceive 0 ''peer'' ''a''] new_DockStore)"
  using dock_version_tells [of "[OpFrames []]" FrameRows "[OpRawReceive 0 ''peer'' ''a'']"]
  by (simp add: appendTransferFrameRows_def)

section \<open>The send history\<close>

lemma remdups_snoc: "remdups (xs @ [x]) = filter (\<lambda>y. y \<noteq> x) (remdups xs) @ [x]"
  by (induction xs) auto

lemma remove1_distinct: "distinct xs \<Longrightarrow> remove1 x xs = filter (\<lambda>y. y \<noteq> x) xs"
  by (simp add: distinct_remove1_removeAll removeAll_filter_not_eq eq_commute)

lemma take_filter_front:
  "distinct xs \<Longrightarrow> take n (x # filter (\<lambda>y. y \<noteq> x) (take n xs)) = take n (x # filter (\<lambda>y. y \<noteq> x) xs)"
proof (cases n)
  case (Suc m)
  assume d: "distinct xs"
  have "take m (filter (\<lambda>y. y \<noteq> x) (take (Suc m) xs)) = take m (filter (\<lambda>y. y \<noteq> x) xs)"
    using d
  proof (induction xs arbitrary: m)
    case (Cons z zs)
    show ?case
    proof (cases "z = x")
      case True
      then have "filter (\<lambda>y. y \<noteq> x) zs = zs" "filter (\<lambda>y. y \<noteq> x) (take m zs) = take m zs"
        using Cons.prems by (auto simp: filter_id_conv dest: in_set_takeD)
      then show ?thesis using True by simp
    next
      case False
      then show ?thesis using Cons by (cases m) simp_all
    qed
  qed simp
  then show ?thesis using Suc by simp
qed simp

lemma trimSendHistory_take: "snd_history (trimSendHistory limit s) = take limit (snd_history s)"
  by (simp add: trimSendHistory_def)

lemma rememberSendHistory_take:
  "snd_history (rememberSendHistory payload limit s) =
     take limit (if payload = [] then snd_history s else payload # remove1 payload (snd_history s))"
  by (auto simp: rememberSendHistory_def trimSendHistory_take Let_def remove1_idem)

text \<open>C29: The send history is the most-recently-used list of the payloads: after any payloads were remembered
under a limit, it holds the distinct non-empty ones in order of their last use, the latest first, cut at the
limit. Dropping old entries early never changes what a later use brings back to the front.\<close>

theorem send_history_mru:
  "snd_history (foldl (\<lambda>s payload. rememberSendHistory payload limit s) new_SendDockState payloads) =
     take limit (rev (remdups (filter (\<lambda>payload. payload \<noteq> []) payloads)))"
proof (induction payloads rule: rev_induct)
  case Nil
  show ?case by (simp add: new_SendDockState_def)
next
  case (snoc payload payloads)
  let ?m = "rev (remdups (filter (\<lambda>payload. payload \<noteq> []) payloads))"
  have d: "distinct ?m" by simp
  have "remove1 payload (take limit ?m) = filter (\<lambda>y. y \<noteq> payload) (take limit ?m)"
    using d by (intro remove1_distinct distinct_take)
  with take_filter_front [OF d, of limit payload] snoc show ?case
    by (simp add: rememberSendHistory_take remdups_snoc rev_filter)
qed

end
