(* ===== verification/Storage_World.thy ===== *)
theory Storage_World
  imports Streams Data_Codec Number_Text
begin

text \<open>
  What the storage components share: the index database and the record volumes on disk, with the objects
  that hold them open. SQLite is a third-party library; a database is modelled by the rows the code stores,
  and a transaction takes effect as a whole or not at all. \<open>st_faults\<close> says which of the following durable
  steps fail: a step that fails throws and changes nothing, so stopping at any fault also shows every state
  a crash between two durable steps can leave behind. The record directory holds only files the program
  wrote itself, and no links.
\<close>

section \<open>The index database\<close>

text \<open>A database without tables has no application id.\<close>

type_synonym metadata = "string \<Rightarrow> string option"

record VolumeRow =
  vr_id :: nat
  vr_identity :: string
  vr_records :: nat
  vr_from :: "int option"
  vr_to :: "int option"
  vr_sealed :: int
  vr_idBase :: int

record Index =
  ix_appId :: int
  ix_version :: int
  ix_metadata :: metadata
  ix_session :: "bytes option"  \<comment> \<open>the metadata row \<open>record_session\<close>\<close>
  ix_schemas :: "bytes list"  \<comment> \<open>the definitions by id, from 1\<close>
  ix_volumes :: "VolumeRow list"
  ix_nextVolume :: nat
  ix_volumeSchemas :: "(nat \<times> u64 \<times> nat) list"

section \<open>Record volumes\<close>

record StoredRow =
  sr_id :: int
  sr_dataset :: string
  sr_device :: string
  sr_received :: int
  sr_schema :: int
  sr_payload :: bytes

record VolumeDb =
  db_appId :: int
  db_version :: int
  db_metadata :: metadata
  db_schemas :: "(int \<times> string \<times> bytes) list"
  db_records :: "StoredRow list"

definition empty_db :: VolumeDb where
  "empty_db = \<lparr>db_appId = 0, db_version = 0, db_metadata = Map.empty, db_schemas = [], db_records = []\<rparr>"

text \<open>The directory of a volume: its owner file and its database, where they exist.\<close>

record VolumeDir =
  vd_owner :: "string option"
  vd_db :: "VolumeDb option"

record RecordVolumeInfo =
  vi_identity :: string
  vi_records :: nat
  vi_lastId :: int
  vi_openedAtUs :: int
  vi_fromUs :: "int option"
  vi_toUs :: "int option"
  vi_sealed :: bool
  vi_lastReceivedTimeUs :: "int option"

type_synonym schema_map = "(u64, Schema) omap"

text \<open>An open volume: \<open>RecordVolume::Impl\<close>.\<close>

record RecordVolume =
  rv_info :: RecordVolumeInfo
  rv_protocol :: string
  rv_schemas :: schema_map

section \<open>The session and the objects in memory\<close>

record RecordSessionState =
  ss_session :: u64
  ss_run :: u64
  ss_abnormalRuns :: u64
  ss_recording :: bool
  ss_cleanExit :: bool
  ss_faulted :: bool
  ss_activeIdentity :: string
  ss_pendingIdentity :: string
  ss_error :: string
  ss_pendingFirstId :: int
  ss_pendingOpenedUs :: int
  ss_lastCommittedId :: int
  ss_lastCommittedTimeUs :: "int option"
  ss_interruptedFromUs :: "int option"
  ss_interruptedToUs :: "int option"

definition new_session_state :: RecordSessionState where
  "new_session_state = \<lparr>ss_session = 0, ss_run = 0, ss_abnormalRuns = 0, ss_recording = False, ss_cleanExit = True,
     ss_faulted = False, ss_activeIdentity = [], ss_pendingIdentity = [], ss_error = [], ss_pendingFirstId = 0,
     ss_pendingOpenedUs = 0, ss_lastCommittedId = 0, ss_lastCommittedTimeUs = None, ss_interruptedFromUs = None,
     ss_interruptedToUs = None\<rparr>"

text \<open>The query service keeps the identity of the active volume and the catalogue ids of its schemas.\<close>

record QueryService =
  qs_active :: string
  qs_schemas :: "(u64 \<times> nat) list"

text \<open>Disk, faults to come, and the objects in memory; the last two are the schemas of the coordinator.\<close>

record storage =
  st_index :: Index
  st_dirs :: "string \<Rightarrow> VolumeDir option"
  st_legacy :: "VolumeDb option"  \<comment> \<open>\<open>records.sqlite\<close> of an earlier version\<close>
  st_faults :: "bool list"
  st_session :: RecordSessionState
  st_active :: "RecordVolume option"
  st_queries :: "QueryService option"
  st_schemas :: schema_map
  st_schemaIds :: "(string \<times> u64) list"

text \<open>A step that makes a change durable.\<close>

definition sqlite_error :: exn where
  "sqlite_error = RuntimeError ''SQLite error''"

definition durable_or :: "exn \<Rightarrow> (storage \<Rightarrow> storage) \<Rightarrow> (storage, unit) task" where
  "durable_or e f st =
     (case st_faults st of
        [] \<Rightarrow> (Inr (), f st)
      | fails # faults \<Rightarrow>
          (let st = st\<lparr>st_faults := faults\<rparr> in if fails then (Inl e, st) else (Inr (), f st)))"

abbreviation durable :: "(storage \<Rightarrow> storage) \<Rightarrow> (storage, unit) task" where
  "durable \<equiv> durable_or sqlite_error"

lemma durable_cases:
  obtains (fails) f where "durable_or e g st = (Inl e, st\<lparr>st_faults := f\<rparr>)"
  | (works) f where "durable_or e g st = (Inr (), g (st\<lparr>st_faults := f\<rparr>))"
proof (cases "st_faults st")
  case Nil
  then have same: "st\<lparr>st_faults := []\<rparr> = st" by (cases st) simp
  have "durable_or e g st = (Inr (), g (st\<lparr>st_faults := []\<rparr>))" unfolding same by (simp add: durable_or_def Nil)
  then show thesis by (rule works)
next
  case (Cons b f)
  show thesis
  proof (cases b)
    case True
    then have "durable_or e g st = (Inl e, st\<lparr>st_faults := f\<rparr>)" using Cons by (simp add: durable_or_def Let_def)
    then show thesis by (rule fails)
  next
    case False
    then have "durable_or e g st = (Inr (), g (st\<lparr>st_faults := f\<rparr>))" using Cons by (simp add: durable_or_def Let_def)
    then show thesis by (rule works)
  qed
qed

definition getT :: "('s, 's) task" where
  "getT s = (Inr s, s)"

definition updateT :: "('s \<Rightarrow> 's) \<Rightarrow> ('s, unit) task" where
  "updateT f s = (Inr (), f s)"

text \<open>Loops, the second one collecting the results.\<close>

fun mapT :: "('a \<Rightarrow> ('s, 'b) task) \<Rightarrow> 'a list \<Rightarrow> ('s, 'b list) task" where
  "mapT f [] = returnT []"
| "mapT f (x # xs) = bindT (f x) (\<lambda>y. bindT (mapT f xs) (\<lambda>ys. returnT (y # ys)))"

section \<open>Reasoning about tasks\<close>

text \<open>
  \<open>triple P m Q E\<close>: from a state with \<open>P\<close>, the task \<open>m\<close> ends with \<open>Q\<close> of its result, or throws with \<open>E\<close>. As a
  durable step may always throw, \<open>E\<close> holds wherever the task is cut off.
\<close>

definition triple :: "('s \<Rightarrow> bool) \<Rightarrow> ('s, 'a) task \<Rightarrow> ('a \<Rightarrow> 's \<Rightarrow> bool) \<Rightarrow> ('s \<Rightarrow> bool) \<Rightarrow> bool" where
  "triple P m Q E \<longleftrightarrow> (\<forall>s. P s \<longrightarrow> (case m s of (Inl e, s') \<Rightarrow> E s' | (Inr x, s') \<Rightarrow> Q x s'))"

lemma tripleI: "(\<And>s r s'. P s \<Longrightarrow> m s = (r, s') \<Longrightarrow> case r of Inl e \<Rightarrow> E s' | Inr x \<Rightarrow> Q x s') \<Longrightarrow> triple P m Q E"
  by (fastforce simp: triple_def split: sum.splits prod.splits)

lemma tripleD: "triple P m Q E \<Longrightarrow> P s \<Longrightarrow> m s = (Inr x, s') \<Longrightarrow> Q x s'"
  by (force simp: triple_def)

lemma tripleE: "triple P m Q E \<Longrightarrow> P s \<Longrightarrow> m s = (Inl e, s') \<Longrightarrow> E s'"
  by (force simp: triple_def)

lemma triple_weaken:
  assumes "triple P' m Q' E'" "\<And>s. P s \<Longrightarrow> P' s" "\<And>x s. Q' x s \<Longrightarrow> Q x s" "\<And>s. E' s \<Longrightarrow> E s"
  shows "triple P m Q E"
proof (rule tripleI)
  fix s r s' assume s: "P s" "m s = (r, s')"
  show "case r of Inl e \<Rightarrow> E s' | Inr x \<Rightarrow> Q x s'"
  proof (cases r)
    case (Inl e)
    then show ?thesis using s tripleE [OF assms(1) assms(2) [OF s(1)]] assms(4) by simp
  next
    case (Inr x)
    then show ?thesis using s tripleD [OF assms(1) assms(2) [OF s(1)]] assms(3) by simp
  qed
qed

lemma triple_bindT:
  assumes "triple P m R E" "\<And>x. triple (R x) (f x) Q E"
  shows "triple P (bindT m f) Q E"
proof (rule tripleI)
  fix s r s' assume s: "P s" "bindT m f s = (r, s')"
  obtain a t where m: "m s = (a, t)" by fastforce
  show "case r of Inl e \<Rightarrow> E s' | Inr x \<Rightarrow> Q x s'"
  proof (cases a)
    case (Inl e)
    then have "r = Inl e" "s' = t" using s m by (auto simp: bindT_def)
    then show ?thesis using tripleE [OF assms(1) s(1)] m Inl by simp
  next
    case (Inr x)
    then have f: "f x t = (r, s')" using s m by (simp add: bindT_def)
    have "R x t" using tripleD [OF assms(1) s(1)] m Inr by simp
    then show ?thesis using f tripleE [OF assms(2)] tripleD [OF assms(2)] by (cases r) simp_all
  qed
qed

lemma triple_thenT:
  "triple P m (\<lambda>_. R) E \<Longrightarrow> triple R m' Q E \<Longrightarrow> triple P (thenT m m') Q E"
  unfolding thenT_def by (rule triple_bindT)

lemma triple_getT: "(\<And>s. P s \<Longrightarrow> triple (\<lambda>t. t = s) (f s) Q E) \<Longrightarrow> triple P (bindT getT f) Q E"
  by (simp add: triple_def bindT_def getT_def)

lemma triple_returnT: "(\<And>s. P s \<Longrightarrow> Q x s) \<Longrightarrow> triple P (returnT x) Q E"
  by (simp add: triple_def returnT_def)

lemma triple_throwT: "(\<And>s. P s \<Longrightarrow> E s) \<Longrightarrow> triple P (throwT e) Q E"
  by (simp add: triple_def throwT_def)

lemma triple_liftT: "(\<And>s. P s \<Longrightarrow> E s) \<Longrightarrow> (\<And>s x. P s \<Longrightarrow> m = Inr x \<Longrightarrow> Q x s) \<Longrightarrow> triple P (liftT m) Q E"
  by (auto simp: triple_def liftT_def split: sum.splits)

lemma triple_rejectT: "(\<And>s. P s \<Longrightarrow> E s) \<Longrightarrow> (\<And>s. P s \<Longrightarrow> \<not> b \<Longrightarrow> Q () s) \<Longrightarrow> triple P (rejectT b e) Q E"
  by (simp add: triple_def rejectT_def returnT_def throwT_def)

lemma triple_check:
  "(\<And>s. P s \<Longrightarrow> E s) \<Longrightarrow> (\<not> b \<Longrightarrow> triple P m Q E) \<Longrightarrow> triple P (thenT (rejectT b e) m) Q E"
  by (cases b) (simp_all add: triple_def thenT_def bindT_def rejectT_def returnT_def throwT_def)

lemma triple_try:
  "(\<And>s. P s \<Longrightarrow> E s) \<Longrightarrow> (\<And>x. m = Inr x \<Longrightarrow> triple P (f x) Q E) \<Longrightarrow> triple P (bindT (liftT m) f) Q E"
  by (cases m) (simp_all add: triple_def bindT_def liftT_def)

lemma triple_require:
  "(\<And>s. P s \<Longrightarrow> E s) \<Longrightarrow> (m = Inr () \<Longrightarrow> triple P m' Q E) \<Longrightarrow> triple P (thenT (liftT m) m') Q E"
  by (cases m) (simp_all add: triple_def thenT_def bindT_def liftT_def)

lemma triple_updateT: "(\<And>s. P s \<Longrightarrow> Q () (f s)) \<Longrightarrow> triple P (updateT f) Q E"
  by (simp add: triple_def updateT_def)

lemma triple_if:
  "(b \<Longrightarrow> triple P m Q E) \<Longrightarrow> (\<not> b \<Longrightarrow> triple P m' Q E) \<Longrightarrow> triple P (if b then m else m') Q E"
  by simp

lemma triple_durable:
  assumes "\<And>s f. P s \<Longrightarrow> E (s\<lparr>st_faults := f\<rparr>)" "\<And>s f. P s \<Longrightarrow> Q () (g (s\<lparr>st_faults := f\<rparr>))"
  shows "triple P (durable_or e g) Q E"
proof (rule tripleI)
  fix s r s' assume s: "P s" "durable_or e g s = (r, s')"
  then show "case r of Inl e \<Rightarrow> E s' | Inr x \<Rightarrow> Q x s'"
    using assms [OF s(1)] by (cases rule: durable_cases [of e g s]) auto
qed

lemma triple_pre: "(\<And>s. P s \<Longrightarrow> triple (\<lambda>t. t = s) m Q E) \<Longrightarrow> triple P m Q E"
  by (simp add: triple_def)

lemma triple_fact: "(b \<Longrightarrow> triple P m Q E) \<Longrightarrow> triple (\<lambda>s. b \<and> P s) m Q E"
  by (cases b) (simp_all add: triple_def)

lemma triple_ex:
  assumes "\<And>x. triple (P x) m Q E"
  shows "triple (\<lambda>s. \<exists>x. P x s) m Q E"
proof (rule tripleI)
  fix s r s' assume s: "\<exists>x. P x s" "m s = (r, s')"
  then obtain x where "P x s" by blast
  then show "case r of Inl e \<Rightarrow> E s' | Inr x \<Rightarrow> Q x s'"
    using s(2) tripleE [OF assms] tripleD [OF assms] by (cases r) simp_all
qed

section \<open>Operations in sequence\<close>

text \<open>Operations that are tried one after the other, whether they succeed or throw.\<close>

fun run_ops :: "('op \<Rightarrow> 's \<Rightarrow> 'r \<times> 's) \<Rightarrow> 'op list \<Rightarrow> 's \<Rightarrow> 'r list \<times> 's" where
  "run_ops step [] s = ([], s)"
| "run_ops step (op # ops) s = (let (r, s) = step op s; (rs, s) = run_ops step ops s in (r # rs, s))"

fun spec_run :: "('op \<Rightarrow> 'r \<Rightarrow> 'a \<Rightarrow> 'a \<Rightarrow> bool) \<Rightarrow> 'op list \<Rightarrow> 'r list \<Rightarrow> 'a \<Rightarrow> 'a \<Rightarrow> bool" where
  "spec_run spec [] rs a a' \<longleftrightarrow> rs = [] \<and> a' = a"
| "spec_run spec (op # ops) rs a a' \<longleftrightarrow>
     (\<exists>r rs' b. rs = r # rs' \<and> spec op r a b \<and> spec_run spec ops rs' b a')"

lemma spec_run_length: "spec_run spec ops rs a a' \<Longrightarrow> length rs = length ops"
  by (induction ops arbitrary: rs a) auto

lemma run_ops_append:
  "run_ops step (ops @ ops') s =
     (let (rs, s) = run_ops step ops s; (rs', s) = run_ops step ops' s in (rs @ rs', s))"
  by (induction ops arbitrary: s) (simp_all add: Let_def split_beta)

text \<open>The contract of a component whose operations implement an abstract specification of its state.\<close>

locale simulation =
  fixes abs :: "'a \<Rightarrow> 's \<Rightarrow> bool"
    and step :: "'op \<Rightarrow> 's \<Rightarrow> 'r \<times> 's"
    and allowed :: "'op \<Rightarrow> bool"
    and spec :: "'op \<Rightarrow> 'r \<Rightarrow> 'a \<Rightarrow> 'a \<Rightarrow> bool"
  assumes step_simulates: "abs a s \<Longrightarrow> allowed op \<Longrightarrow> step op s = (r, s') \<Longrightarrow> \<exists>a'. spec op r a a' \<and> abs a' s'"
begin

lemma run_simulates:
  "abs a s \<Longrightarrow> \<forall>op \<in> set ops. allowed op \<Longrightarrow> run_ops step ops s = (rs, s') \<Longrightarrow>
   \<exists>a'. spec_run spec ops rs a a' \<and> abs a' s'"
proof (induction ops arbitrary: a s rs)
  case (Cons op ops)
  obtain r t where r: "step op s = (r, t)" by fastforce
  obtain rs' where rs': "run_ops step ops t = (rs', s')" "rs = r # rs'"
    using Cons.prems(3) r by (auto simp: Let_def split: prod.splits)
  obtain b where b: "spec op r a b" "abs b t" using step_simulates [OF Cons.prems(1) _ r] Cons.prems(2) by auto
  then obtain a' where "spec_run spec ops rs' b a'" "abs a' s'" using Cons.IH [OF b(2) _ rs'(1)] Cons.prems(2) by auto
  then show ?case using b rs'(2) by auto
qed simp

lemma run_related:
  assumes "spec_run spec ops rs a a'" "\<And>a. R a a" "\<And>a b c. R a b \<Longrightarrow> R b c \<Longrightarrow> R a c"
    and "\<And>op r a a'. spec op r a a' \<Longrightarrow> R a a'"
  shows "R a a'"
  using assms(1)
proof (induction ops arbitrary: a rs)
  case (Cons op ops)
  then show ?case using assms(3,4) by (metis spec_run.simps(2))
qed (simp add: assms(2))

end

section \<open>Identities and numbers\<close>

definition identity_digits :: "char set" where
  "identity_digits = set ''0123456789abcdef''"

definition identity_ok :: "string \<Rightarrow> bool" where
  "identity_ok i \<longleftrightarrow> length i = 32 \<and> list_all (\<lambda>c. c \<in> identity_digits) i"

text \<open>\<open>std::stoll\<close>: leading blanks, a sign, and at least one digit; what follows is ignored.\<close>

definition stoll :: "string \<Rightarrow> exn + int" where
  "stoll s =
     (let s = dropWhile c_isspace s;
          (neg, s) = (case s of
             c # r \<Rightarrow> if c = CHR ''-'' then (True, r) else if c = CHR ''+'' then (False, r) else (False, s)
           | [] \<Rightarrow> (False, s));
          ds = takeWhile is_digit s;
          i = (if neg then - int (digits_nat ds) else int (digits_nat ds)) in
      if ds = [] then Inl (InvalidArgument ''stoll'')
      else if \<not> is_int64 i then Inl OutOfRange
      else Inr i)"

end
