(* ===== verification/Record_Volume.thy ===== *)
theory Record_Volume
  imports Storage_World
begin

text \<open>
  One record volume, from \<open>storage/record_volume.hpp\<close> and \<open>storage/record_volume.cc\<close>: a directory with an
  owner file and a database of rows with consecutive ids. A volume is created in steps (directory, owner
  file, database, its tables and metadata in one transaction), appended to in transactions, and sealed.
  \<open>reopen_volume\<close> is what a new process reads of it. The handle of the recording is \<open>st_active\<close>.
\<close>

section \<open>Metadata and markers\<close>

definition volume_limits :: ValueLimits where
  "volume_limits = \<lparr>maxBytes = 32 * 1024 * 1024, maxDepth = 16, maxNodes = 131072\<rparr>"

definition volume_application_id :: int where
  "volume_application_id = 0x50534442"

definition put_metadata :: "string \<Rightarrow> string \<Rightarrow> metadata \<Rightarrow> metadata" where
  "put_metadata key v m = m(key \<mapsto> v)"

definition get_metadata :: "metadata \<Rightarrow> string \<Rightarrow> exn + string" where
  "get_metadata m key =
     (case m key of Some v \<Rightarrow> Inr v | None \<Rightarrow> Inl (RuntimeError ''record volume metadata missing''))"

definition metadata_number :: "metadata \<Rightarrow> string \<Rightarrow> exn + int" where
  "metadata_number m key =
     bindE (get_metadata m key) (\<lambda>s.
       case parse_int64 s of Inr i \<Rightarrow> Inr i | Inl _ \<Rightarrow> Inl (RuntimeError ''invalid record volume metadata number''))"

definition volume_marker :: "string \<Rightarrow> string" where
  "volume_marker i = ''ProtoScope record volume v1'' @ [CHR 0x0A] @ i @ [CHR 0x0A]"

text \<open>The check of the directory: the name is an identity, and the owner file holds the marker in its first bytes.\<close>

definition filesystem_error :: exn where
  "filesystem_error = RuntimeError ''filesystem error''"

definition check_owner_file :: "string \<Rightarrow> VolumeDir option \<Rightarrow> exn + VolumeDir" where
  "check_owner_file i dir =
     bindE (rejectE (\<not> identity_ok i) (RuntimeError ''invalid record volume owned path'')) (\<lambda>_.
       case dir of
         None \<Rightarrow> Inl filesystem_error
       | Some d \<Rightarrow>
           bindE (rejectE (take 128 (case vd_owner d of Some t \<Rightarrow> t | None \<Rightarrow> []) \<noteq> volume_marker i)
               (RuntimeError ''record volume ownership mismatch'')) (\<lambda>_. Inr d))"

section \<open>What SQL reads of the rows\<close>

fun sql_min :: "int list \<Rightarrow> int option" where
  "sql_min [] = None"
| "sql_min (x # xs) = Some (fold min xs x)"

fun sql_max :: "int list \<Rightarrow> int option" where
  "sql_max [] = None"
| "sql_max (x # xs) = Some (fold max xs x)"

text \<open>\<open>ORDER BY id DESC LIMIT 1\<close>.\<close>

definition last_row :: "StoredRow list \<Rightarrow> StoredRow option" where
  "last_row rows = find (\<lambda>r. Some (sr_id r) = sql_max (map sr_id rows)) rows"

section \<open>Creating a volume\<close>

definition encode_schema :: "Schema \<Rightarrow> exn + bytes" where
  "encode_schema s = bindE (schemaValue s) (\<lambda>v. encodeValue v volume_limits)"

definition schema_budget :: "schema_map \<Rightarrow> exn + nat" where
  "schema_budget schemas =
     foldE (\<lambda>(i, schema) bytes.
         bindE (rejectE (i = 0 \<or> int64_max < uint i) (InvalidArgument ''invalid record schema ID'')) (\<lambda>_.
         bindE (encode_schema schema) (\<lambda>bs.
         bindE (rejectE (maxBytes volume_limits - bytes < length bs) (RuntimeError ''record schema budget exceeded'')) (\<lambda>_.
           Inr (bytes + length bs)))))
       schemas 0"

definition schema_rows :: "schema_map \<Rightarrow> exn + (int \<times> string \<times> bytes) list" where
  "schema_rows = mapE (\<lambda>(i, schema). bindE (encode_schema schema) (\<lambda>bs. Inr (sint i, sch_dataset schema, bs)))"

definition new_volume_db :: "string \<Rightarrow> string \<Rightarrow> int \<Rightarrow> int \<Rightarrow> (int \<times> string \<times> bytes) list \<Rightarrow> VolumeDb" where
  "new_volume_db protocol i firstId openedAtUs rows =
     \<lparr>db_appId = volume_application_id, db_version = 1,
      db_metadata = Map.empty(''protocol'' \<mapsto> protocol, ''volume_id'' \<mapsto> i, ''origin'' \<mapsto> ''recording'',
        ''state'' \<mapsto> ''active'', ''record_count'' \<mapsto> ''0'', ''last_id'' \<mapsto> int_text (firstId - 1),
        ''first_id'' \<mapsto> int_text firstId, ''opened_us'' \<mapsto> int_text openedAtUs),
      db_schemas = rows, db_records = []\<rparr>"

definition put_dir :: "string \<Rightarrow> VolumeDir \<Rightarrow> storage \<Rightarrow> storage" where
  "put_dir i d st = st\<lparr>st_dirs := (st_dirs st)(i \<mapsto> d)\<rparr>"

text \<open>\<open>create_directory\<close> says whether it made the directory; the loop takes the first identity that is free.\<close>

fun reserve_directory :: "string list \<Rightarrow> (storage, string) task" where
  "reserve_directory [] = throwT (RuntimeError ''cannot reserve record volume directory'')"
| "reserve_directory (i # is) =
     bindT getT (\<lambda>st.
       if st_dirs st i = None then
         thenT (durable_or filesystem_error (put_dir i \<lparr>vd_owner = None, vd_db = None\<rparr>)) (returnT i)
       else reserve_directory is)"

definition owner_error :: exn where
  "owner_error = RuntimeError ''cannot write record volume owner''"

definition new_volume_handle :: "string \<Rightarrow> string \<Rightarrow> schema_map \<Rightarrow> int \<Rightarrow> int \<Rightarrow> RecordVolume" where
  "new_volume_handle protocol i schemas firstId openedAtUs =
     \<lparr>rv_info = \<lparr>vi_identity = i, vi_records = 0, vi_lastId = firstId - 1, vi_openedAtUs = openedAtUs,
        vi_fromUs = None, vi_toUs = None, vi_sealed = False, vi_lastReceivedTimeUs = None\<rparr>,
      rv_protocol = protocol, rv_schemas = schemas\<rparr>"

text \<open>\<open>fresh\<close> are the identities \<open>identity()\<close> draws, one for each of the eight attempts.\<close>

definition create_volume ::
    "string \<Rightarrow> schema_map \<Rightarrow> int \<Rightarrow> int \<Rightarrow> string list \<Rightarrow> string \<Rightarrow> (storage, RecordVolume) task" where
  "create_volume protocol schemas firstId openedAtUs fresh reservedIdentity =
     thenT (rejectT (protocol = [] \<or> 4096 < length protocol \<or> firstId < 1 \<or> openedAtUs < 0)
         (InvalidArgument ''invalid new record volume parameters''))
     (thenT (rejectT (reservedIdentity \<noteq> [] \<and> \<not> identity_ok reservedIdentity)
         (InvalidArgument ''invalid reserved record volume identity''))
     (thenT (bindT (liftT (schema_budget schemas)) (\<lambda>_. returnT ()))
     (bindT (reserve_directory (if reservedIdentity = [] then take 8 fresh else [reservedIdentity])) (\<lambda>i.
      thenT (durable_or owner_error (put_dir i \<lparr>vd_owner = Some [], vd_db = None\<rparr>))
     (thenT (durable_or owner_error (put_dir i \<lparr>vd_owner = Some (volume_marker i), vd_db = None\<rparr>))
     (thenT (durable (put_dir i \<lparr>vd_owner = Some (volume_marker i), vd_db = Some empty_db\<rparr>))
     (bindT (liftT (schema_rows schemas)) (\<lambda>rows.
      thenT (durable (put_dir i \<lparr>vd_owner = Some (volume_marker i),
               vd_db = Some (new_volume_db protocol i firstId openedAtUs rows)\<rparr>))
        (returnT (new_volume_handle protocol i schemas firstId openedAtUs))))))))))"

section \<open>Reopening a volume\<close>

definition check_identity :: "string \<Rightarrow> string \<Rightarrow> VolumeDb \<Rightarrow> exn + unit" where
  "check_identity protocol i db =
     (let mismatch = RuntimeError ''record volume identity mismatch''; m = db_metadata db in
      bindE (rejectE (db_appId db \<noteq> volume_application_id \<or> db_version db \<noteq> 1) mismatch) (\<lambda>_.
      bindE (get_metadata m ''protocol'') (\<lambda>p. bindE (rejectE (p \<noteq> protocol) mismatch) (\<lambda>_.
      bindE (get_metadata m ''volume_id'') (\<lambda>v. bindE (rejectE (v \<noteq> i) mismatch) (\<lambda>_.
      bindE (get_metadata m ''origin'') (\<lambda>r. rejectE (r \<noteq> ''recording'') mismatch)))))))"

definition read_info :: "string \<Rightarrow> VolumeDb \<Rightarrow> exn + RecordVolumeInfo" where
  "read_info i db =
     (let m = db_metadata db; rows = db_records db in
      bindE (get_metadata m ''state'') (\<lambda>state.
      bindE (rejectE (state \<noteq> ''active'' \<and> state \<noteq> ''sealed'') (RuntimeError ''invalid record volume state'')) (\<lambda>_.
      bindE (metadata_number m ''last_id'') (\<lambda>lastId.
      bindE (metadata_number m ''opened_us'') (\<lambda>openedAtUs.
      bindE (metadata_number m ''record_count'') (\<lambda>count.
      bindE (metadata_number m ''first_id'') (\<lambda>firstId.
      bindE (rejectE (count < 0 \<or> firstId < 1 \<or> lastId < firstId - 1 \<or> openedAtUs < 0 \<or> lastId - (firstId - 1) \<noteq> count)
          (RuntimeError ''inconsistent record volume counters'')) (\<lambda>_.
      bindE (rejectE (int (length rows) \<noteq> count \<or>
            count \<noteq> 0 \<and> (sql_min (map sr_id rows) \<noteq> Some firstId \<or> sql_max (map sr_id rows) \<noteq> Some lastId))
          (RuntimeError ''record volume index count mismatch'')) (\<lambda>_.
        Inr \<lparr>vi_identity = i, vi_records = nat count, vi_lastId = lastId, vi_openedAtUs = openedAtUs,
             vi_fromUs = sql_min (map sr_received rows), vi_toUs = sql_max (map sr_received rows),
             vi_sealed = (state = ''sealed''),
             vi_lastReceivedTimeUs = map_option sr_received (last_row rows)\<rparr>)))))))))"

text \<open>The schemas go into a map; a second row for an id would be ignored.\<close>

definition read_schemas :: "(int \<times> string \<times> bytes) list \<Rightarrow> exn + schema_map" where
  "read_schemas rows =
     bindE (foldE (\<lambda>(i, _, definition') (bytes, schemas).
         bindE (rejectE (i < 1 \<or> maxBytes volume_limits - bytes < length definition')
             (RuntimeError ''record volume schema budget exceeded'')) (\<lambda>_.
         bindE (bindE (decodeValue definition' volume_limits) schemaFromValue) (\<lambda>schema.
           Inr (bytes + length definition',
             case map_emplace (word_of_int i) schema schemas of Some m \<Rightarrow> m | None \<Rightarrow> schemas))))
       rows (0, [])) (\<lambda>(_, schemas). Inr schemas)"

definition read_volume :: "string \<Rightarrow> string \<Rightarrow> VolumeDir option \<Rightarrow> exn + RecordVolume" where
  "read_volume protocol i dir =
     bindE (check_owner_file i dir) (\<lambda>d.
       case vd_db d of
         None \<Rightarrow> Inl (RuntimeError ''record volume database missing'')
       | Some db \<Rightarrow>
           bindE (check_identity protocol i db) (\<lambda>_.
           bindE (read_info i db) (\<lambda>info.
           bindE (read_schemas (db_schemas db)) (\<lambda>schemas.
             Inr \<lparr>rv_info = info, rv_protocol = protocol, rv_schemas = schemas\<rparr>))))"

definition reopen_volume :: "string \<Rightarrow> string \<Rightarrow> (storage, RecordVolume) task" where
  "reopen_volume protocol i = bindT getT (\<lambda>st. liftT (read_volume protocol i (st_dirs st i)))"

section \<open>Appending, sealing and rotation\<close>

text \<open>The calls on the active volume; there is one whenever the code makes them.\<close>

definition with_active :: "(RecordVolume \<Rightarrow> (storage, 'a) task) \<Rightarrow> (storage, 'a) task" where
  "with_active f =
     bindT getT (\<lambda>st. case st_active st of None \<Rightarrow> throwT (LogicError ''no active volume'') | Some rv \<Rightarrow> f rv)"

definition set_active :: "RecordVolume option \<Rightarrow> (storage, unit) task" where
  "set_active rv = updateT (\<lambda>st. st\<lparr>st_active := rv\<rparr>)"

definition schema_at :: "schema_map \<Rightarrow> u64 \<Rightarrow> exn + Schema" where
  "schema_at schemas i = (case map_of schemas i of Some s \<Rightarrow> Inr s | None \<Rightarrow> Inl OutOfRange)"

definition check_records :: "RecordVolume \<Rightarrow> Record list \<Rightarrow> exn + unit" where
  "check_records rv records =
     foldE (\<lambda>r _.
         bindE (rejectE (rec_protocol r \<noteq> rv_protocol rv) (InvalidArgument ''record volume protocol mismatch'')) (\<lambda>_.
         bindE (schema_at (rv_schemas rv) (rec_schemaVersion r)) (\<lambda>schema. validateRecord schema r)))
       records ()"

definition stored_row :: "int \<times> Record \<Rightarrow> exn + StoredRow" where
  "stored_row ir =
     (let (i, r) = ir in
      bindE (recordValue r) (\<lambda>v.
      bindE (encodeValue v volume_limits) (\<lambda>payload.
        Inr \<lparr>sr_id = i, sr_dataset = rec_dataset r, sr_device = rec_device r, sr_received = rec_receivedAtUs r,
             sr_schema = sint (rec_schemaVersion r), sr_payload = payload\<rparr>)))"

definition stored_rows :: "int \<Rightarrow> Record list \<Rightarrow> exn + StoredRow list" where
  "stored_rows lastId records =
     mapE stored_row (zip (map (\<lambda>k. lastId + 1 + int k) [0..<length records]) records)"

definition append_db :: "StoredRow list \<Rightarrow> int \<Rightarrow> nat \<Rightarrow> VolumeDb \<Rightarrow> VolumeDb" where
  "append_db rows lastId count db =
     db\<lparr>db_records := db_records db @ rows,
        db_metadata := put_metadata ''record_count'' (nat_text count)
          (put_metadata ''last_id'' (int_text lastId) (db_metadata db))\<rparr>"

definition update_db :: "string \<Rightarrow> (VolumeDb \<Rightarrow> VolumeDb) \<Rightarrow> storage \<Rightarrow> storage" where
  "update_db i f st = st\<lparr>st_dirs := (st_dirs st)(i := map_option (\<lambda>d. d\<lparr>vd_db := map_option f (vd_db d)\<rparr>) (st_dirs st i))\<rparr>"

definition db_of :: "storage \<Rightarrow> string \<Rightarrow> VolumeDb option" where
  "db_of st i = Option.bind (st_dirs st i) vd_db"

definition extend_min :: "int option \<Rightarrow> int \<Rightarrow> int option" where
  "extend_min from' t = (if from' = None \<or> t < the from' then Some t else from')"

definition extend_max :: "int option \<Rightarrow> int \<Rightarrow> int option" where
  "extend_max to t = (if to = None \<or> the to < t then Some t else to)"

definition extend_info :: "Record list \<Rightarrow> RecordVolumeInfo \<Rightarrow> RecordVolumeInfo" where
  "extend_info records info =
     info\<lparr>vi_records := vi_records info + length records,
       vi_lastId := vi_lastId info + int (length records),
       vi_fromUs := foldl (\<lambda>f r. extend_min f (rec_receivedAtUs r)) (vi_fromUs info) records,
       vi_toUs := foldl (\<lambda>t r. extend_max t (rec_receivedAtUs r)) (vi_toUs info) records,
       vi_lastReceivedTimeUs := (if records = [] then vi_lastReceivedTimeUs info
         else Some (rec_receivedAtUs (last records)))\<rparr>"

text \<open>A row with an id that is there violates the primary key; the transaction is rolled back.\<close>

definition append_volume :: "Record list \<Rightarrow> int \<Rightarrow> (storage, unit) task" where
  "append_volume records idLimit =
     with_active (\<lambda>rv.
       let info = rv_info rv; i = vi_identity info in
       thenT (rejectT (vi_sealed info) (RuntimeError ''cannot append sealed record volume''))
      (thenT (rejectT (idLimit < vi_lastId info \<or> idLimit - vi_lastId info < int (length records))
           (OverflowError ''record ID range exhausted''))
      (thenT (liftT (check_records rv records))
      (bindT (liftT (stored_rows (vi_lastId info) records)) (\<lambda>rows.
       bindT getT (\<lambda>st.
       thenT (rejectT (\<exists>r \<in> set (case db_of st i of Some db \<Rightarrow> db_records db | None \<Rightarrow> []).
           sr_id r \<in> sr_id ` set rows) sqlite_error)
      (thenT (durable (update_db i (append_db rows (vi_lastId info + int (length records))
           (vi_records info + length records))))
        (set_active (Some (rv\<lparr>rv_info := extend_info records info\<rparr>))))))))))"

text \<open>The checkpoint after the seal may fail with the volume sealed already.\<close>

definition seal_db :: "int \<Rightarrow> VolumeDb \<Rightarrow> VolumeDb" where
  "seal_db sealedAtUs db =
     db\<lparr>db_metadata := put_metadata ''sealed_us'' (int_text sealedAtUs)
          (put_metadata ''state'' ''sealed'' (db_metadata db))\<rparr>"

definition seal_volume :: "int \<Rightarrow> (storage, unit) task" where
  "seal_volume sealedAtUs =
     with_active (\<lambda>rv.
       let info = rv_info rv in
       thenT (rejectT (sealedAtUs < 0) (InvalidArgument ''invalid seal time''))
         (if vi_sealed info then returnT ()
          else thenT (durable (update_db (vi_identity info) (seal_db sealedAtUs)))
            (thenT (set_active (Some (rv\<lparr>rv_info := info\<lparr>vi_sealed := True\<rparr>\<rparr>)))
              (durable (\<lambda>st. st)))))"

text \<open>The size of the files of a volume is a parameter, as a function of the database.\<close>

definition day_us :: int where
  "day_us = 24 * 60 * 60 * 1000000"

definition rotation_due :: "(VolumeDb \<Rightarrow> nat) \<Rightarrow> int \<Rightarrow> nat \<Rightarrow> (storage, bool) task" where
  "rotation_due diskBytes nowUs maxBytes' =
     with_active (\<lambda>rv.
       let info = rv_info rv in
       thenT (rejectT (nowUs < 0 \<or> maxBytes' = 0) (InvalidArgument ''invalid rotation policy''))
         (if vi_sealed info \<or> vi_records info = 0 then returnT False
          else bindT getT (\<lambda>st.
            returnT (vi_openedAtUs info div day_us < nowUs div day_us \<or>
              maxBytes' \<le> (case db_of st (vi_identity info) of Some db \<Rightarrow> diskBytes db | None \<Rightarrow> 0)))))"

section \<open>Volumes as the code writes them\<close>

text \<open>What a volume holds, and when a directory holds it.\<close>

record vol =
  vo_identity :: string
  vo_first :: int
  vo_opened :: int
  vo_sealed :: bool
  vo_schemas :: schema_map
  vo_rows :: "StoredRow list"

definition vol_last :: "vol \<Rightarrow> int" where
  "vol_last v = vo_first v - 1 + int (length (vo_rows v))"

lemma vol_last_sealed [simp]: "vol_last (v\<lparr>vo_sealed := b\<rparr>) = vol_last v"
  by (simp add: vol_last_def)

definition ids_from :: "int \<Rightarrow> nat \<Rightarrow> int list" where
  "ids_from i n = map (\<lambda>k. i + int k) [0..<n]"

definition vol_typed :: "vol \<Rightarrow> bool" where
  "vol_typed v \<longleftrightarrow> identity_ok (vo_identity v) \<and> 1 \<le> vo_first v \<and> vo_first v \<le> int64_max \<and> vol_last v \<le> int64_max \<and> 0 \<le> vo_opened v \<and>
     vo_opened v \<le> int64_max \<and> map sr_id (vo_rows v) = ids_from (vo_first v) (length (vo_rows v)) \<and>
     list_all (\<lambda>r. is_int64 (sr_received r)) (vo_rows v)"

definition db_holds :: "string \<Rightarrow> vol \<Rightarrow> VolumeDb \<Rightarrow> bool" where
  "db_holds protocol v db \<longleftrightarrow>
     db_appId db = volume_application_id \<and> db_version db = 1 \<and> db_records db = vo_rows v \<and>
     read_schemas (db_schemas db) = Inr (vo_schemas v) \<and>
     db_metadata db ''protocol'' = Some protocol \<and> db_metadata db ''volume_id'' = Some (vo_identity v) \<and>
     db_metadata db ''origin'' = Some ''recording'' \<and>
     db_metadata db ''state'' = Some (if vo_sealed v then ''sealed'' else ''active'') \<and>
     metadata_number (db_metadata db) ''record_count'' = Inr (int (length (vo_rows v))) \<and>
     metadata_number (db_metadata db) ''last_id'' = Inr (vol_last v) \<and>
     metadata_number (db_metadata db) ''first_id'' = Inr (vo_first v) \<and>
     metadata_number (db_metadata db) ''opened_us'' = Inr (vo_opened v)"

definition volume_at :: "string \<Rightarrow> vol \<Rightarrow> VolumeDir option \<Rightarrow> bool" where
  "volume_at protocol v dir \<longleftrightarrow> vol_typed v \<and>
     (\<exists>d db. check_owner_file (vo_identity v) dir = Inr d \<and> vd_db d = Some db \<and> db_holds protocol v db)"

text \<open>The handle that goes with it.\<close>

definition volume_handle :: "string \<Rightarrow> vol \<Rightarrow> RecordVolume" where
  "volume_handle protocol v =
     \<lparr>rv_info = \<lparr>vi_identity = vo_identity v, vi_records = length (vo_rows v), vi_lastId = vol_last v,
        vi_openedAtUs = vo_opened v, vi_fromUs = sql_min (map sr_received (vo_rows v)),
        vi_toUs = sql_max (map sr_received (vo_rows v)), vi_sealed = vo_sealed v,
        vi_lastReceivedTimeUs = (if vo_rows v = [] then None else Some (sr_received (last (vo_rows v))))\<rparr>,
      rv_protocol = protocol, rv_schemas = vo_schemas v\<rparr>"

lemma ids_from_simps [simp]: "ids_from i 0 = []" "length (ids_from i n) = n"
  by (simp_all add: ids_from_def)

lemma ids_from_Suc: "ids_from i (Suc n) = ids_from i n @ [i + int n]"
  by (simp add: ids_from_def)

lemma ids_from_nth: "k < n \<Longrightarrow> ids_from i n ! k = i + int k"
  by (simp add: ids_from_def)

lemma ids_from_add: "ids_from i (m + n) = ids_from i m @ ids_from (i + int m) n"
  by (rule nth_equalityI) (auto simp: ids_from_nth nth_append)

lemma ids_from_Cons: "ids_from i (Suc n) = i # ids_from (i + 1) n"
  using ids_from_add [of i 1 n] by (simp add: ids_from_def)

lemma sql_ids: "sql_min (ids_from i (Suc n)) = Some i" "sql_max (ids_from i (Suc n)) = Some (i + int n)"
proof -
  have "fold min (ids_from (i + 1) n) i = i \<and> fold max (ids_from (i + 1) n) i = i + int n"
    by (induction n) (simp_all add: ids_from_Suc)
  then show "sql_min (ids_from i (Suc n)) = Some i" "sql_max (ids_from i (Suc n)) = Some (i + int n)"
    by (simp_all add: ids_from_Cons)
qed

lemma last_row_ids:
  assumes "map sr_id rows = ids_from i (length rows)"
  shows "last_row rows = (if rows = [] then None else Some (last rows))"
proof (cases rows rule: rev_cases)
  case (snoc rs r)
  then have n: "length rows = Suc (length rs)" by simp
  have at: "sr_id (rows ! k) = i + int k" if "k < length rows" for k
  proof -
    have "sr_id (rows ! k) = map sr_id rows ! k" using that by (simp only: nth_map)
    also have "\<dots> = ids_from i (length rows) ! k" by (simp only: assms)
    also have "\<dots> = i + int k" using that by (rule ids_from_nth)
    finally show ?thesis .
  qed
  have m: "sql_max (map sr_id rows) = Some (i + int (length rs))"
    unfolding assms n by (rule sql_ids(2))
  have r: "sr_id r = i + int (length rs)" using at [of "length rs"] snoc by simp
  have "sr_id x \<noteq> i + int (length rs)" if x: "x \<in> set rs" for x
  proof -
    obtain k where k: "k < length rs" "x = rs ! k" using x by (metis in_set_conv_nth)
    then have "sr_id x = i + int k" using at [of k] snoc by (simp add: nth_append)
    then show ?thesis using k by simp
  qed
  moreover have "find P (rs @ [r]) = Some r" if "\<And>x. x \<in> set rs \<Longrightarrow> \<not> P x" "P r" for P
    using that by (induction rs) auto
  ultimately have "find (\<lambda>x. Some (sr_id x) = Some (i + int (length rs))) (rs @ [r]) = Some r"
    using r by simp
  then show ?thesis using snoc m by (simp add: last_row_def)
qed (simp add: last_row_def)

lemma length_marker: "identity_ok i \<Longrightarrow> take 128 (volume_marker i) = volume_marker i"
  by (simp add: volume_marker_def identity_ok_def)

text \<open>The bounds of a volume, as 64-bit integers.\<close>

lemma vol_typed_bounds:
  assumes "vol_typed v"
  shows "is_int64 (vol_last v)" "is_int64 (vo_first v)" "is_int64 (vo_opened v)" "is_int64 (int (length (vo_rows v)))"
    "0 \<le> vol_last v" "vo_first v - 1 \<le> vol_last v"
  using assms by (simp_all add: vol_typed_def vol_last_def is_int64_def int64_min_def)

lemma read_info_holds:
  assumes "db_holds protocol v db" "vol_typed v"
  shows "read_info (vo_identity v) db = Inr (rv_info (volume_handle protocol v))"
proof -
  note b = vol_typed_bounds [OF assms(2)]
  let ?rows = "vo_rows v"
  have ids: "map sr_id ?rows = ids_from (vo_first v) (length ?rows)" using assms(2) by (simp add: vol_typed_def)
  have minmax: "sql_min (map sr_id ?rows) = Some (vo_first v) \<and> sql_max (map sr_id ?rows) = Some (vol_last v)"
    if ne: "?rows \<noteq> []"
  proof -
    obtain n where "length ?rows = Suc n" using ne by (cases ?rows) auto
    then show ?thesis using ids by (simp add: sql_ids vol_last_def)
  qed
  have lr: "map_option sr_received (last_row ?rows) = (if ?rows = [] then None else Some (sr_received (last ?rows)))"
    using last_row_ids [OF ids] by simp
  have first: "1 \<le> vo_first v" "0 \<le> vo_opened v" "vol_last v = vo_first v - 1 + int (length ?rows)"
    using assms(2) by (simp_all add: vol_typed_def vol_last_def)
  have eq: "vol_last v - (vo_first v - 1) = int (length ?rows)" using first(3) by simp
  have bad: "(?rows = [] \<or> P) = True" if "?rows \<noteq> [] \<Longrightarrow> P" for P using that by blast
  show ?thesis
    using assms(1) first(1,2) b(6) bad [OF minmax]
    by (simp add: read_info_def db_holds_def get_metadata_def lr volume_handle_def not_less eq Let_def)
qed

lemma volume_atE:
  assumes "volume_at protocol v dir"
  obtains d db where "dir = Some d" "check_owner_file (vo_identity v) (Some d) = Inr d" "vd_db d = Some db"
    "db_holds protocol v db" "vol_typed v"
  using assms by (auto simp: volume_at_def check_owner_file_def split: option.splits)

lemma read_volume_at:
  assumes "volume_at protocol v dir"
  shows "read_volume protocol (vo_identity v) dir = Inr (volume_handle protocol v)"
  using assms
proof (rule volume_atE)
  fix d db assume db: "dir = Some d" "check_owner_file (vo_identity v) (Some d) = Inr d" "vd_db d = Some db"
    "db_holds protocol v db" "vol_typed v"
  then have "check_identity protocol (vo_identity v) db = Inr ()"
    by (simp add: check_identity_def db_holds_def get_metadata_def Let_def)
  moreover have "read_schemas (db_schemas db) = Inr (vo_schemas v)" using db(4) by (simp add: db_holds_def)
  ultimately show ?thesis
    using db read_info_holds [OF db(4,5)] by (simp add: read_volume_def volume_handle_def)
qed

lemma volume_at_unique:
  assumes "volume_at protocol v dir" "volume_at protocol w dir" "vo_identity v = vo_identity w"
  shows "v = w"
proof -
  have h: "volume_handle protocol v = volume_handle protocol w"
    using read_volume_at [OF assms(1)] read_volume_at [OF assms(2)] assms(3) by simp
  have rows: "vo_rows v = vo_rows w"
    using assms(1,2) by (elim volume_atE) (auto simp: db_holds_def)
  from h rows show ?thesis by (intro vol.equality) (simp_all add: volume_handle_def vol_last_def)
qed

lemma volume_at_rows:
  "volume_at protocol v (st_dirs st (vo_identity v)) \<Longrightarrow>
   \<exists>db. db_of st (vo_identity v) = Some db \<and> db_records db = vo_rows v"
  by (elim volume_atE) (simp add: db_of_def db_holds_def)

section \<open>Appending, sealing and creating keep the form\<close>

lemma stored_row_Inr:
  "stored_row (i, r) = Inr row \<Longrightarrow> sr_id row = i \<and> sr_received row = rec_receivedAtUs r"
  by (auto simp: stored_row_def)

lemma stored_rows_props:
  assumes "stored_rows i records = Inr rows"
  shows "length rows = length records" "map sr_id rows = ids_from (i + 1) (length rows)"
    "map sr_received rows = map rec_receivedAtUs records"
proof -
  let ?ids = "map (\<lambda>k. i + 1 + int k) [0..<length records]"
  have l2: "list_all2 (\<lambda>ir r. stored_row ir = Inr r) (zip ?ids records) rows"
    using assms by (simp add: stored_rows_def mapE_Inr_iff)
  then have n: "length rows = length records" by (auto dest: list_all2_lengthD)
  have row: "sr_id (rows ! k) = i + 1 + int k \<and> sr_received (rows ! k) = rec_receivedAtUs (records ! k)"
    if k: "k < length records" for k
  proof -
    have "stored_row (zip ?ids records ! k) = Inr (rows ! k)"
      using list_all2_nthD [OF l2, of k] k by simp
    then have "stored_row (i + 1 + int k, records ! k) = Inr (rows ! k)" using k by simp
    then show ?thesis by (rule stored_row_Inr)
  qed
  show "length rows = length records" by (rule n)
  show "map sr_id rows = ids_from (i + 1) (length rows)"
    by (rule nth_equalityI) (simp_all add: n row ids_from_nth)
  show "map sr_received rows = map rec_receivedAtUs records"
    by (rule nth_equalityI) (simp_all add: n row)
qed

lemma fold_min_extend: "foldl extend_min (Some x) xs = Some (fold min xs x)"
  by (induction xs arbitrary: x) (auto simp: extend_min_def min_def)

lemma fold_max_extend: "foldl extend_max (Some x) xs = Some (fold max xs x)"
  by (induction xs arbitrary: x) (auto simp: extend_max_def max_def)

lemma sql_min_append: "sql_min (xs @ ys) = foldl extend_min (sql_min xs) ys"
proof (cases xs)
  case Nil
  then show ?thesis by (cases ys) (simp_all add: extend_min_def fold_min_extend)
qed (simp add: fold_min_extend [symmetric])

lemma sql_max_append: "sql_max (xs @ ys) = foldl extend_max (sql_max xs) ys"
proof (cases xs)
  case Nil
  then show ?thesis by (cases ys) (simp_all add: extend_max_def fold_max_extend)
qed (simp add: fold_max_extend [symmetric])

lemma foldl_received: "foldl (\<lambda>f r. g f (rec_receivedAtUs r)) x rs = foldl g x (map rec_receivedAtUs rs)"
  by (induction rs arbitrary: x) simp_all

lemma volume_handle_append:
  assumes "stored_rows (vol_last v) records = Inr rows"
  shows "(volume_handle protocol v)\<lparr>rv_info := extend_info records (rv_info (volume_handle protocol v))\<rparr> =
     volume_handle protocol (v\<lparr>vo_rows := vo_rows v @ rows\<rparr>)"
proof -
  note p = stored_rows_props [OF assms]
  have "sr_received (last rows) = rec_receivedAtUs (last records)" if "records \<noteq> []"
  proof -
    have "rows \<noteq> []" using p(1) that by auto
    then have "sr_received (last rows) = last (map sr_received rows)" by (simp add: last_map)
    also have "\<dots> = rec_receivedAtUs (last records)" using that by (simp add: p(3) last_map)
    finally show ?thesis .
  qed
  moreover have "rows = [] \<longleftrightarrow> records = []" using p(1) by auto
  ultimately show ?thesis
    by (simp add: volume_handle_def extend_info_def p(1,3) vol_last_def sql_min_append sql_max_append foldl_received)
qed

lemma metadata_number_put:
  "is_int64 i \<Longrightarrow> metadata_number (m(k \<mapsto> int_text i)) k = Inr i"
  "k \<noteq> k' \<Longrightarrow> metadata_number (m(k \<mapsto> t)) k' = metadata_number m k'"
  by (simp_all add: metadata_number_def get_metadata_def parse_int64_int_text)

lemma nat_text_int: "nat_text n = int_text (int n)"
  by (simp add: int_text_def)

lemma volume_at_append:
  assumes "volume_at protocol v dir" "stored_rows (vol_last v) records = Inr rows"
    and "vol_last v + int (length records) \<le> int64_max" "\<forall>r \<in> set records. is_int64 (rec_receivedAtUs r)"
  shows "volume_at protocol (v\<lparr>vo_rows := vo_rows v @ rows\<rparr>)
     (map_option (\<lambda>d. d\<lparr>vd_db := map_option (append_db rows (vol_last v + int (length records))
        (length (vo_rows v) + length records)) (vd_db d)\<rparr>) dir)"
  using assms(1)
proof (rule volume_atE)
  fix d db assume db: "dir = Some d" "check_owner_file (vo_identity v) (Some d) = Inr d" "vd_db d = Some db"
    "db_holds protocol v db" "vol_typed v"
  note p = stored_rows_props [OF assms(2)]
  let ?v = "v\<lparr>vo_rows := vo_rows v @ rows\<rparr>"
  let ?db = "append_db rows (vol_last v + int (length records)) (length (vo_rows v) + length records) db"
  have last: "vol_last ?v = vol_last v + int (length records)" by (simp add: vol_last_def p(1))
  have "map sr_id (vo_rows v @ rows) = ids_from (vo_first v) (length (vo_rows v @ rows))"
    using db(5) p(2) by (simp add: vol_typed_def ids_from_add vol_last_def)
  moreover have "list_all is_int64 (map sr_received rows)"
    unfolding p(3) using assms(4) by (simp add: list_all_iff)
  ultimately have typed: "vol_typed ?v" using db(5) assms(3) by (simp add: vol_typed_def last list.pred_map comp_def)
  note b = vol_typed_bounds [OF typed]
  have "db_holds protocol ?v ?db"
    using db(4) b(1,4) last p(1)
    by (simp add: db_holds_def append_db_def put_metadata_def nat_text_int metadata_number_put)
  moreover have "check_owner_file (vo_identity v) (Some (d\<lparr>vd_db := Some ?db\<rparr>)) = Inr (d\<lparr>vd_db := Some ?db\<rparr>)"
    using db(2) by (simp add: check_owner_file_def)
  ultimately show ?thesis using db(1,3) typed by (auto simp: volume_at_def)
qed

lemma volume_at_seal:
  assumes "volume_at protocol v dir"
  shows "volume_at protocol (v\<lparr>vo_sealed := True\<rparr>)
     (map_option (\<lambda>d. d\<lparr>vd_db := map_option (seal_db t) (vd_db d)\<rparr>) dir)"
  using assms
proof (rule volume_atE)
  fix d db assume db: "dir = Some d" "check_owner_file (vo_identity v) (Some d) = Inr d" "vd_db d = Some db"
    "db_holds protocol v db" "vol_typed v"
  have last: "vol_last (v\<lparr>vo_sealed := True\<rparr>) = vol_last v" by (simp add: vol_last_def)
  have "db_holds protocol (v\<lparr>vo_sealed := True\<rparr>) (seal_db t db)"
    using db(4) by (simp add: db_holds_def seal_db_def put_metadata_def metadata_number_put last)
  moreover have "check_owner_file (vo_identity v) (Some (d\<lparr>vd_db := Some (seal_db t db)\<rparr>)) =
      Inr (d\<lparr>vd_db := Some (seal_db t db)\<rparr>)"
    using db(2) by (simp add: check_owner_file_def)
  moreover have "vol_typed (v\<lparr>vo_sealed := True\<rparr>)" using db(5) by (simp add: vol_typed_def last)
  ultimately show ?thesis using db(1,3) by (auto simp: volume_at_def)
qed

lemma volume_handle_seal:
  "(volume_handle protocol v)\<lparr>rv_info := (rv_info (volume_handle protocol v))\<lparr>vi_sealed := True\<rparr>\<rparr> =
   volume_handle protocol (v\<lparr>vo_sealed := True\<rparr>)"
  by (simp add: volume_handle_def vol_last_def)

section \<open>A created volume holds its schemas\<close>

lemma sint_small: "uint (w :: u64) \<le> int64_max \<Longrightarrow> sint w = uint w"
proof -
  assume "uint w \<le> int64_max"
  then have "uint w < 2 ^ 63" by (simp add: int64_max_def)
  moreover have "- (2 ^ 63) \<le> uint w" by (rule order_trans [of _ 0]) simp_all
  ultimately have "- (2 ^ 63) \<le> uint w" "uint w < 2 ^ 63" by simp_all
  then have "signed_take_bit 63 (uint w) = uint w" by (rule signed_take_bit_int_eq_self)
  then show ?thesis by (simp add: sint_uint)
qed

lemma decode_schema:
  assumes "encode_schema s = Inr bs"
  shows "bindE (decodeValue bs volume_limits) schemaFromValue = Inr s"
proof -
  obtain v where v: "schemaValue s = Inr v" "encodeValue v volume_limits = Inr bs"
    using assms by (auto simp: encode_schema_def)
  then have "decodeValue bs volume_limits = Inr v"
    using decodeValue_encodeValue [OF v(2) schemaValue_ok] by (simp add: volume_limits_def size_max_def)
  then show ?thesis using v(1) by (simp add: schemaFromValue_iff)
qed

text \<open>The loops of \<open>create_volume\<close> and \<open>reopen_volume\<close>, from the same number of bytes.\<close>

lemma read_written_schemas:
  assumes "foldE (\<lambda>(i, schema) bytes.
         bindE (rejectE (i = 0 \<or> int64_max < uint i) (InvalidArgument ''invalid record schema ID'')) (\<lambda>_.
         bindE (encode_schema schema) (\<lambda>bs.
         bindE (rejectE (maxBytes volume_limits - bytes < length bs) (RuntimeError ''record schema budget exceeded'')) (\<lambda>_.
           Inr (bytes + length bs))))) schemas n = Inr k"
    and "schema_rows schemas = Inr rows" "map_wf (m @ schemas)"
  shows "foldE (\<lambda>(i, _, definition') (bytes, schemas).
         bindE (rejectE (i < 1 \<or> maxBytes volume_limits - bytes < length definition')
             (RuntimeError ''record volume schema budget exceeded'')) (\<lambda>_.
         bindE (bindE (decodeValue definition' volume_limits) schemaFromValue) (\<lambda>schema.
           Inr (bytes + length definition',
             case map_emplace (word_of_int i) schema schemas of Some m \<Rightarrow> m | None \<Rightarrow> schemas))))
       rows (n, m) = Inr (k, m @ schemas)"
  using assms
proof (induction schemas arbitrary: n m rows)
  case Nil
  then show ?case by (simp add: schema_rows_def)
next
  case (Cons p ss)
  obtain i s where p: "p = (i, s)" by fastforce
  obtain bs where i: "i \<noteq> 0" "uint i \<le> int64_max" and bs: "encode_schema s = Inr bs"
    "length bs \<le> maxBytes volume_limits - n"
    using Cons.prems(1) by (auto simp: p not_less)
  obtain rs where rs: "rows = (sint i, sch_dataset s, bs) # rs" "schema_rows ss = Inr rs"
    using Cons.prems(2) bs(1) by (auto simp: p schema_rows_def)
  have less: "\<forall>k' \<in> fst ` set m. k' < i" "map_wf ((m @ [(i, s)]) @ ss)"
    using Cons.prems(3) by (auto simp: p map_wf_def map_keys_def sorted_wrt_append)
  have "uint i \<noteq> 0" using i(1) by (simp add: uint_0_iff)
  then have pos: "1 \<le> uint i" using uint_ge_0 [of i] by linarith
  have f: "foldE (\<lambda>(i, schema) bytes.
         bindE (rejectE (i = 0 \<or> int64_max < uint i) (InvalidArgument ''invalid record schema ID'')) (\<lambda>_.
         bindE (encode_schema schema) (\<lambda>bs.
         bindE (rejectE (maxBytes volume_limits - bytes < length bs) (RuntimeError ''record schema budget exceeded'')) (\<lambda>_.
           Inr (bytes + length bs))))) ss (n + length bs) = Inr k"
    using Cons.prems(1) bs(1) by (auto simp: p)
  obtain w where "decodeValue bs volume_limits = Inr w" "schemaFromValue w = Inr s"
    using decode_schema [OF bs(1)] by auto
  then show ?case
    using Cons.IH [OF f rs(2) less(2)] pos bs
    by (simp add: p rs(1) sint_small [OF i(2)] map_emplace_last [OF less(1)])
qed

lemma read_schemas_written:
  assumes "schema_budget schemas = Inr k" "schema_rows schemas = Inr rows" "map_wf schemas"
  shows "read_schemas rows = Inr schemas"
  using read_written_schemas [of schemas 0 k rows "[]"] assms by (simp add: schema_budget_def read_schemas_def)

text \<open>The volume that \<open>create_volume\<close> makes.\<close>

definition new_vol :: "string \<Rightarrow> schema_map \<Rightarrow> int \<Rightarrow> int \<Rightarrow> vol" where
  "new_vol i schemas firstId openedAtUs =
     \<lparr>vo_identity = i, vo_first = firstId, vo_opened = openedAtUs, vo_sealed = False, vo_schemas = schemas, vo_rows = []\<rparr>"

lemma new_volume_handle: "new_volume_handle protocol i schemas f t = volume_handle protocol (new_vol i schemas f t)"
  by (simp add: new_volume_handle_def volume_handle_def new_vol_def vol_last_def)

lemma nat_text_0: "nat_text 0 = ''0''"
  by code_simp

lemma check_owner_file_marker:
  "identity_ok i \<Longrightarrow> vd_owner d = Some (volume_marker i) \<Longrightarrow> check_owner_file i (Some d) = Inr d"
  by (simp add: check_owner_file_def length_marker)

lemma new_volume_at:
  assumes "schema_budget schemas = Inr k" "schema_rows schemas = Inr rows" "map_wf schemas" "identity_ok i"
    and "1 \<le> f" "f \<le> int64_max" "0 \<le> t" "t \<le> int64_max"
  shows "volume_at protocol (new_vol i schemas f t)
     (Some \<lparr>vd_owner = Some (volume_marker i), vd_db = Some (new_volume_db protocol i f t rows)\<rparr>)"
proof -
  have i: "is_int64 0" "is_int64 (f - 1)" "is_int64 f" "is_int64 t" using assms(5-8) by (simp_all add: int64_defs)
  have "metadata_number m ''record_count'' = Inr 0" if "m ''record_count'' = Some ''0''" for m
    using that parse_int64_int_text [OF i(1)] by (simp add: metadata_number_def get_metadata_def int_text_def nat_text_0)
  then show ?thesis
    using assms read_schemas_written [OF assms(1-3)] i
    by (simp add: volume_at_def vol_typed_def new_vol_def vol_last_def db_holds_def new_volume_db_def
        check_owner_file_marker metadata_number_put)
qed

text \<open>A volume without records that can be read has that form.\<close>

lemma parse_int64_bounds: "parse_int64 s = Inr i \<Longrightarrow> is_int64 i"
  by (auto simp: parse_int64_def split: if_splits sum.splits list.splits)

lemma metadata_number_bounds: "metadata_number m k = Inr i \<Longrightarrow> is_int64 i"
proof -
  assume "metadata_number m k = Inr i"
  then obtain t where "(case parse_int64 t of Inr i \<Rightarrow> Inr i
      | Inl _ \<Rightarrow> Inl (RuntimeError ''invalid record volume metadata number'')) = Inr i"
    by (auto simp: metadata_number_def)
  then show ?thesis using parse_int64_bounds by (cases "parse_int64 t") auto
qed

lemma read_empty_volume:
  assumes "read_volume protocol i dir = Inr rv" "vi_records (rv_info rv) = 0"
  obtains v where "volume_at protocol v dir" "vo_identity v = i" "rv = volume_handle protocol v" "vo_rows v = []"
proof -
  obtain d db info schemas where d: "check_owner_file i dir = Inr d" "vd_db d = Some db"
    "check_identity protocol i db = Inr ()" "read_info i db = Inr info" "read_schemas (db_schemas db) = Inr schemas"
    and rv: "rv = \<lparr>rv_info = info, rv_protocol = protocol, rv_schemas = schemas\<rparr>"
    using assms(1) by (auto simp: read_volume_def split: option.splits)
  obtain state l t c f where m: "db_metadata db ''state'' = Some state" "state = ''active'' \<or> state = ''sealed''"
    "metadata_number (db_metadata db) ''last_id'' = Inr l" "metadata_number (db_metadata db) ''opened_us'' = Inr t"
    "metadata_number (db_metadata db) ''record_count'' = Inr c" "metadata_number (db_metadata db) ''first_id'' = Inr f"
    and b: "0 \<le> c" "1 \<le> f" "f - 1 \<le> l" "0 \<le> t" "l - (f - 1) = c" "int (length (db_records db)) = c"
    and info: "info = \<lparr>vi_identity = i, vi_records = nat c, vi_lastId = l, vi_openedAtUs = t,
             vi_fromUs = sql_min (map sr_received (db_records db)), vi_toUs = sql_max (map sr_received (db_records db)),
             vi_sealed = (state = ''sealed''), vi_lastReceivedTimeUs = map_option sr_received (last_row (db_records db))\<rparr>"
    using d(4) by (auto simp: read_info_def get_metadata_def Let_def not_less split: option.splits)
  have c: "c = 0" "db_records db = []" using assms(2) b(1,6) by (simp_all add: rv info)
  let ?v = "\<lparr>vo_identity = i, vo_first = f, vo_opened = t, vo_sealed = (state = ''sealed''), vo_schemas = schemas, vo_rows = []\<rparr>"
  have l: "vol_last ?v = l" using b(5) c by (simp add: vol_last_def)
  have "identity_ok i" using d(1) by (auto simp: check_owner_file_def)
  then have "vol_typed ?v"
    using b metadata_number_bounds [OF m(3)] metadata_number_bounds [OF m(4)] metadata_number_bounds [OF m(6)] l
    by (simp add: vol_typed_def is_int64_def)
  moreover have "db_holds protocol ?v db"
    using d(3,5) m c l by (auto simp: db_holds_def check_identity_def get_metadata_def Let_def split: option.splits)
  ultimately have "volume_at protocol ?v dir" using d(1,2) by (auto simp: volume_at_def)
  moreover have "rv = volume_handle protocol ?v"
    using c l by (simp add: rv info volume_handle_def last_row_def)
  ultimately show thesis using that [of ?v] by simp
qed

end
