(* ===== verification/Volume_Catalog.thy ===== *)
theory Volume_Catalog
  imports Record_Volume
begin

text \<open>
  The catalogue of sealed volumes, from \<open>storage/volume_catalog.hpp\<close> and \<open>storage/volume_catalog.cc\<close>: the
  index database of a record directory, the checks of a volume before it is trusted, the registration of
  schemas, the adoption of a sealed recording, the reservation of ids, and the removal of old volumes.
  The pins of the snapshots are a parameter (\<open>pinned\<close>); sizes in memory and on disk are parameters too.
\<close>

section \<open>Checks of a volume\<close>

definition catalog_application_id :: int where
  "catalog_application_id = 0x50534958"

definition required_metadata :: "metadata \<Rightarrow> string \<Rightarrow> exn + string" where
  "required_metadata m key =
     (case m key of Some v \<Rightarrow> Inr v | None \<Rightarrow> Inl (RuntimeError ''required volume metadata missing''))"

definition checkIdentity :: "string \<Rightarrow> exn + unit" where
  "checkIdentity i = rejectE (\<not> identity_ok i) (RuntimeError ''invalid volume identity'')"

definition import_marker :: "string \<Rightarrow> string" where
  "import_marker i = ''ProtoScope import stage v1'' @ [CHR 0x0A] @ i @ [CHR 0x0A]"

definition checkOwner :: "VolumeDir option \<Rightarrow> string \<Rightarrow> exn + VolumeDir" where
  "checkOwner dir i =
     bindE (checkIdentity i) (\<lambda>_.
       case dir of
         None \<Rightarrow> Inl filesystem_error
       | Some d \<Rightarrow>
           (let marker = take 128 (case vd_owner d of Some t \<Rightarrow> t | None \<Rightarrow> []) in
            bindE (rejectE (marker \<noteq> import_marker i \<and> marker \<noteq> volume_marker i)
                (RuntimeError ''volume ownership marker mismatch'')) (\<lambda>_. Inr d)))"

definition open_db :: "VolumeDir \<Rightarrow> exn + VolumeDb" where
  "open_db d = (case vd_db d of Some db \<Rightarrow> Inr db | None \<Rightarrow> Inl sqlite_error)"

definition checkVolume :: "VolumeDb \<Rightarrow> string \<Rightarrow> string \<Rightarrow> nat \<Rightarrow> bool \<Rightarrow> exn + unit" where
  "checkVolume db protocol i count full =
     (let m = db_metadata db; mismatch = RuntimeError ''volume metadata mismatch'' in
      bindE (rejectE (db_appId db \<noteq> volume_application_id) (RuntimeError ''foreign volume database'')) (\<lambda>_.
      bindE (rejectE (db_version db \<noteq> 1) (RuntimeError ''unsupported volume version'')) (\<lambda>_.
      bindE (required_metadata m ''protocol'') (\<lambda>p. bindE (rejectE (p \<noteq> protocol) mismatch) (\<lambda>_.
      bindE (required_metadata m ''volume_id'') (\<lambda>v. bindE (rejectE (v \<noteq> i) mismatch) (\<lambda>_.
      bindE (required_metadata m ''state'') (\<lambda>s. bindE (rejectE (s \<noteq> ''sealed'') mismatch) (\<lambda>_.
      bindE (required_metadata m ''record_count'') (\<lambda>c. bindE (rejectE (c \<noteq> nat_text count) mismatch) (\<lambda>_.
        rejectE (full \<and> length (db_records db) \<noteq> count) (RuntimeError ''volume record count mismatch''))))))))))))"

section \<open>The volumes of the index\<close>

record CatalogVolume =
  cv_id :: nat
  cv_identity :: string
  cv_records :: nat
  cv_fromUs :: "int option"
  cv_toUs :: "int option"
  cv_sealedAtUs :: int
  cv_idBase :: int
  cv_schemaIds :: "(u64 \<times> nat) list"
  cv_highWater :: int

definition retiring_key :: "nat \<Rightarrow> string" where
  "retiring_key i = ''retiring:'' @ nat_text i"

text \<open>The memory of a row: \<open>volumeBytes\<close> for the object with its path, 64 for each schema.\<close>

definition budget_left :: "nat \<Rightarrow> nat \<Rightarrow> exn + nat" where
  "budget_left bytes size' =
     bindE (rejectE (maxBytes volume_limits - bytes < size') (RuntimeError ''catalog volume metadata exceeds budget''))
       (\<lambda>_. Inr (bytes + size'))"

definition catalog_volume :: "nat \<Rightarrow> Index \<Rightarrow> VolumeRow \<Rightarrow> nat \<Rightarrow> exn + CatalogVolume \<times> nat" where
  "catalog_volume volumeBytes ix row bytes =
     bindE (checkIdentity (vr_identity row)) (\<lambda>_.
     bindE (budget_left bytes volumeBytes) (\<lambda>bytes.
       let schemas = [(local, global). (v, local, global) \<leftarrow> ix_volumeSchemas ix, v = vr_id row] in
       bindE (foldE (\<lambda>_ bytes. budget_left bytes 64) schemas bytes) (\<lambda>bytes.
         Inr (\<lparr>cv_id = vr_id row, cv_identity = vr_identity row, cv_records = vr_records row,
               cv_fromUs = (if vr_records row = 0 then None else vr_from row),
               cv_toUs = (if vr_records row = 0 then None else vr_to row),
               cv_sealedAtUs = vr_sealed row, cv_idBase = vr_idBase row, cv_schemaIds = schemas,
               cv_highWater = 0\<rparr>, bytes))))"

fun catalog_rows :: "nat \<Rightarrow> Index \<Rightarrow> VolumeRow list \<Rightarrow> nat \<Rightarrow> exn + CatalogVolume list" where
  "catalog_rows volumeBytes ix [] bytes = Inr []"
| "catalog_rows volumeBytes ix (row # rows) bytes =
     bindE (catalog_volume volumeBytes ix row bytes) (\<lambda>(v, bytes).
     bindE (catalog_rows volumeBytes ix rows bytes) (\<lambda>vs. Inr (v # vs)))"

definition catalog_volumes :: "nat \<Rightarrow> Index \<Rightarrow> exn + CatalogVolume list" where
  "catalog_volumes volumeBytes ix =
     catalog_rows volumeBytes ix [row \<leftarrow> ix_volumes ix. ix_metadata ix (retiring_key (vr_id row)) = None] 0"

text \<open>The snapshot of the sealed volumes, each checked, with the highest id it holds.\<close>

definition high_water :: "VolumeDb \<Rightarrow> int" where
  "high_water db = (case sql_max (map sr_id (db_records db)) of Some i \<Rightarrow> i | None \<Rightarrow> 0)"

definition pin_volume :: "string \<Rightarrow> (string \<Rightarrow> VolumeDir option) \<Rightarrow> CatalogVolume \<Rightarrow> exn + CatalogVolume" where
  "pin_volume protocol dirs v =
     bindE (checkOwner (dirs (cv_identity v)) (cv_identity v)) (\<lambda>d.
     bindE (open_db d) (\<lambda>db.
     bindE (checkVolume db protocol (cv_identity v) (cv_records v) False) (\<lambda>_.
       Inr (v\<lparr>cv_highWater := high_water db\<rparr>))))"

definition pinAll :: "nat \<Rightarrow> string \<Rightarrow> (storage, CatalogVolume list) task" where
  "pinAll volumeBytes protocol =
     bindT getT (\<lambda>st.
       liftT (bindE (catalog_volumes volumeBytes (st_index st)) (mapE (pin_volume protocol (st_dirs st)))))"

section \<open>Schemas and reserved ids\<close>

text \<open>\<open>INSERT OR IGNORE\<close> of a definition, and its id: ids start at 1 and no schema is ever removed.\<close>

definition schema_id :: "bytes \<Rightarrow> bytes list \<Rightarrow> nat option" where
  "schema_id definition' schemas =
     map_option (\<lambda>(k, _). Suc k) (find (\<lambda>(k, d). d = definition') (zip [0..<length schemas] schemas))"

definition insert_schema :: "bytes \<Rightarrow> bytes list \<Rightarrow> bytes list" where
  "insert_schema definition' schemas =
     (if definition' \<in> set schemas then schemas else schemas @ [definition'])"

definition global_id :: "exn \<Rightarrow> bytes \<Rightarrow> bytes list \<Rightarrow> exn + nat" where
  "global_id e definition' schemas = (case schema_id definition' schemas of Some k \<Rightarrow> Inr k | None \<Rightarrow> Inl e)"

definition register_schemas :: "(u64 \<times> Schema) list \<Rightarrow> bytes list \<Rightarrow> exn + bytes list \<times> (u64 \<times> nat) list" where
  "register_schemas locals schemas =
     foldE (\<lambda>(local, schema) (schemas, ids).
         bindE (encode_schema schema) (\<lambda>definition'.
           let schemas = insert_schema definition' schemas in
           bindE (global_id (RuntimeError ''cannot register active schema'') definition' schemas) (\<lambda>k. Inr (schemas, ids @ [(local, k)]))))
       locals (schemas, [])"

definition registerSchemas :: "schema_map \<Rightarrow> (storage, (u64 \<times> nat) list) task" where
  "registerSchemas locals =
     bindT getT (\<lambda>st.
     bindT (liftT (register_schemas locals (ix_schemas (st_index st)))) (\<lambda>(schemas, ids).
     thenT (durable (\<lambda>st. st\<lparr>st_index := (st_index st)\<lparr>ix_schemas := schemas\<rparr>\<rparr>)) (returnT ids)))"

text \<open>A number of the metadata, and the default where the row is missing.\<close>

definition stored_number :: "metadata \<Rightarrow> string \<Rightarrow> int \<Rightarrow> exn + int" where
  "stored_number m key d = (case m key of Some t \<Rightarrow> stoll t | None \<Rightarrow> Inr d)"

definition set_metadata :: "string \<Rightarrow> string \<Rightarrow> storage \<Rightarrow> storage" where
  "set_metadata key v st = st\<lparr>st_index := (st_index st)\<lparr>ix_metadata := put_metadata key v (ix_metadata (st_index st))\<rparr>\<rparr>"

definition reserveLiveThrough :: "int \<Rightarrow> (storage, unit) task" where
  "reserveLiveThrough i =
     thenT (rejectT (i < 0) (InvalidArgument ''invalid live record ID reservation''))
     (bindT getT (\<lambda>st.
      bindT (liftT (bindE (required_metadata (ix_metadata (st_index st)) ''import_next'') stoll)) (\<lambda>available.
      thenT (rejectT (available < i) (RuntimeError ''live record ID space exhausted by imported ranges''))
     (bindT (liftT (stored_number (ix_metadata (st_index st)) ''record_allocated'' 0)) (\<lambda>previous.
      durable (set_metadata ''record_allocated'' (int_text (max previous i))))))))"

section \<open>Adopting a sealed recording\<close>

definition volume_definitions :: "(int \<times> string \<times> bytes) list \<Rightarrow> exn + (u64 \<times> bytes) list" where
  "volume_definitions rows =
     bindE (foldE (\<lambda>(i, _, definition') (bytes, ds).
         bindE (rejectE (i < 1 \<or> maxBytes volume_limits - bytes < length definition')
             (RuntimeError ''recording volume schema budget exceeded'')) (\<lambda>_.
           Inr (bytes + length definition',
             case map_emplace (word_of_int i) definition' ds of Some m \<Rightarrow> m | None \<Rightarrow> ds)))
       rows (0, [])) (\<lambda>(_, ds). Inr ds)"

text \<open>The rows of the index for the definitions of the volume \<open>v\<close>.\<close>

definition adopt_schemas ::
    "nat \<Rightarrow> (u64 \<times> bytes) list \<Rightarrow> Index \<Rightarrow> exn + Index \<times> (u64 \<times> nat) list" where
  "adopt_schemas v definitions ix =
     foldE (\<lambda>(local, definition') (ix, ids).
         bindE (bindE (decodeValue definition' volume_limits) schemaFromValue) (\<lambda>_.
           let ix = ix\<lparr>ix_schemas := insert_schema definition' (ix_schemas ix)\<rparr> in
           bindE (global_id (RuntimeError ''cannot register recording schema'') definition' (ix_schemas ix)) (\<lambda>k.
             Inr (ix\<lparr>ix_volumeSchemas := ix_volumeSchemas ix @ [(v, local, k)]\<rparr>, ids @ [(local, k)]))))
       definitions (ix, [])"

definition check_recording :: "string \<Rightarrow> RecordVolumeInfo \<Rightarrow> VolumeDir option \<Rightarrow> exn + int \<times> (u64 \<times> bytes) list" where
  "check_recording protocol info dir =
     bindE (checkOwner dir (vi_identity info)) (\<lambda>d.
     bindE (open_db d) (\<lambda>db.
     bindE (checkVolume db protocol (vi_identity info) (vi_records info) True) (\<lambda>_.
     bindE (required_metadata (db_metadata db) ''origin'') (\<lambda>origin.
     bindE (rejectE (origin \<noteq> ''recording'') (RuntimeError ''not a recording volume'')) (\<lambda>_.
       let ids = map sr_id (db_records db);
           first = (case sql_min ids of Some i \<Rightarrow> i | None \<Rightarrow> 0) in
       bindE (rejectE (vi_records info \<noteq> 0 \<and>
             (first < 1 \<or> high_water db \<noteq> vi_lastId info \<or> vi_lastId info - first + 1 \<noteq> int (vi_records info)))
           (RuntimeError ''recording volume ID range mismatch'')) (\<lambda>_.
       bindE (volume_definitions (db_schemas db)) (\<lambda>definitions. Inr (first, definitions))))))))"

definition new_row :: "Index \<Rightarrow> RecordVolumeInfo \<Rightarrow> int \<Rightarrow> VolumeRow" where
  "new_row ix info sealedAtUs =
     \<lparr>vr_id = ix_nextVolume ix, vr_identity = vi_identity info, vr_records = vi_records info, vr_from = vi_fromUs info,
      vr_to = vi_toUs info, vr_sealed = sealedAtUs, vr_idBase = 0\<rparr>"

definition adopted_volume :: "nat \<Rightarrow> RecordVolumeInfo \<Rightarrow> int \<Rightarrow> (u64 \<times> nat) list \<Rightarrow> CatalogVolume" where
  "adopted_volume v info sealedAtUs ids =
     \<lparr>cv_id = v, cv_identity = vi_identity info, cv_records = vi_records info, cv_fromUs = vi_fromUs info,
      cv_toUs = vi_toUs info, cv_sealedAtUs = sealedAtUs, cv_idBase = 0, cv_schemaIds = ids,
      cv_highWater = vi_lastId info\<rparr>"

definition adopted_index :: "Index \<Rightarrow> VolumeDb option \<Rightarrow> RecordVolumeInfo \<Rightarrow> int \<Rightarrow> int \<times> (u64 \<times> bytes) list \<Rightarrow>
    exn + Index \<times> (u64 \<times> nat) list" where
  "adopted_index ix legacy info sealedAtUs fd =
     (let (first, definitions) = fd in
      bindE (stored_number (ix_metadata ix) ''record_high'' 0) (\<lambda>high.
      let previous = (case legacy of Some db \<Rightarrow> max high (high_water db) | None \<Rightarrow> high) in
      bindE (bindE (required_metadata (ix_metadata ix) ''import_next'') stoll) (\<lambda>importNext.
      bindE (rejectE (vi_records info \<noteq> 0 \<and> (first \<le> previous \<or> importNext < vi_lastId info))
          (RuntimeError ''recording volume collides with existing record ID range'')) (\<lambda>_.
      bindE (rejectE (\<exists>row \<in> set (ix_volumes ix). vr_identity row = vi_identity info) sqlite_error) (\<lambda>_.
      bindE (adopt_schemas (ix_nextVolume ix) definitions
          (ix\<lparr>ix_volumes := ix_volumes ix @ [new_row ix info sealedAtUs], ix_nextVolume := ix_nextVolume ix + 1\<rparr>))
        (\<lambda>(ix, ids).
          Inr (ix\<lparr>ix_metadata := put_metadata ''record_high'' (int_text (max previous (vi_lastId info))) (ix_metadata ix)\<rparr>,
               ids)))))))"

definition adoptRecording :: "string \<Rightarrow> RecordVolumeInfo \<Rightarrow> int \<Rightarrow> (storage, CatalogVolume) task" where
  "adoptRecording protocol info sealedAtUs =
     thenT (liftT (checkIdentity (vi_identity info)))
    (thenT (rejectT (\<not> vi_sealed info \<or> sealedAtUs < 0)
        (RuntimeError ''recording volume must be sealed at its permanent owned path''))
    (bindT getT (\<lambda>st.
     bindT (liftT (check_recording protocol info (st_dirs st (vi_identity info)))) (\<lambda>fd.
     bindT (liftT (adopted_index (st_index st) (st_legacy st) info sealedAtUs fd)) (\<lambda>(ix, ids).
     thenT (durable (\<lambda>st. st\<lparr>st_index := ix\<rparr>))
       (returnT (adopted_volume (ix_nextVolume (st_index st)) info sealedAtUs ids)))))))"

end
