(* ===== verification/Volume_Retention.thy ===== *)
theory Volume_Retention
  imports Volume_Catalog
begin

text \<open>
  The removal of old volumes and the opening of the catalogue, from \<open>storage/volume_catalog.cc\<close>: the intent
  to remove a volume is stored first, its files are removed one after the other, and its rows last, so that
  a removal that was cut off is finished when the catalogue is opened. A stop that is requested is a failing
  step (\<open>poll\<close>).
\<close>

section \<open>Finishing a removal\<close>

definition set_dir :: "string \<Rightarrow> VolumeDir option \<Rightarrow> storage \<Rightarrow> storage" where
  "set_dir i d st = st\<lparr>st_dirs := (st_dirs st)(i := d)\<rparr>"

definition forget_volume :: "nat \<Rightarrow> string \<Rightarrow> Index \<Rightarrow> Index" where
  "forget_volume v i ix =
     ix\<lparr>ix_volumeSchemas := [r \<leftarrow> ix_volumeSchemas ix. fst r \<noteq> v],
        ix_volumes := [row \<leftarrow> ix_volumes ix. \<not> (vr_id row = v \<and> vr_identity row = i)],
        ix_metadata := (ix_metadata ix)(retiring_key v := None)\<rparr>"

definition remove_files :: "string \<Rightarrow> string \<Rightarrow> nat \<Rightarrow> VolumeDir \<Rightarrow> (storage, unit) task" where
  "remove_files protocol i count d =
     thenT (liftT (if vd_db d \<noteq> None \<or> vd_owner d \<noteq> None then bindE (checkOwner (Some d) i) (\<lambda>_. Inr ()) else Inr ()))
    (thenT (case vd_db d of
              Some db \<Rightarrow>
                thenT (liftT (checkVolume db protocol i count True))
                  (durable_or (RuntimeError ''cannot remove retired volume database'')
                    (set_dir i (Some (d\<lparr>vd_db := None\<rparr>))))
            | None \<Rightarrow> returnT ())
    (thenT (if vd_owner d \<noteq> None then
              durable_or (RuntimeError ''cannot remove retired volume marker'')
                (set_dir i (Some \<lparr>vd_owner = None, vd_db = None\<rparr>))
            else returnT ())
      (durable_or (RuntimeError ''cannot remove retired volume directory'') (set_dir i None))))"

definition finishRetirement :: "string \<Rightarrow> nat \<Rightarrow> string \<Rightarrow> nat \<Rightarrow> (storage, unit) task" where
  "finishRetirement protocol v i count =
     thenT (liftT (checkIdentity i))
    (bindT getT (\<lambda>st.
     thenT (case st_dirs st i of Some d \<Rightarrow> remove_files protocol i count d | None \<Rightarrow> returnT ())
       (durable (\<lambda>st. st\<lparr>st_index := forget_volume v i (st_index st)\<rparr>))))"

definition retirement_intents :: "Index \<Rightarrow> exn + VolumeRow list" where
  "retirement_intents ix =
     bindE (mapE (\<lambda>row. bindE (rejectE (ix_metadata ix (retiring_key (vr_id row)) \<noteq> Some (vr_identity row))
               (RuntimeError ''retirement identity mismatch'')) (\<lambda>_. Inr row))
         [row \<leftarrow> ix_volumes ix. ix_metadata ix (retiring_key (vr_id row)) \<noteq> None]) (\<lambda>rows.
       bindE (rejectE (131072 < length rows) (RuntimeError ''retirement metadata budget exceeded'')) (\<lambda>_. Inr rows))"

definition resumeRetirements :: "string \<Rightarrow> (storage, unit) task" where
  "resumeRetirements protocol =
     bindT getT (\<lambda>st.
     bindT (liftT (retirement_intents (st_index st)))
       (forT (\<lambda>row. finishRetirement protocol (vr_id row) (vr_identity row) (vr_records row))))"

section \<open>Opening the catalogue\<close>

definition empty_index :: Index where
  "empty_index = \<lparr>ix_appId = 0, ix_version = 0, ix_metadata = Map.empty, ix_session = None, ix_schemas = [],
     ix_volumes = [], ix_nextVolume = 1, ix_volumeSchemas = []\<rparr>"

definition new_index :: "string \<Rightarrow> Index" where
  "new_index protocol = empty_index\<lparr>ix_appId := catalog_application_id, ix_version := 1,
     ix_metadata := Map.empty(''protocol'' \<mapsto> protocol, ''import_next'' \<mapsto> ''9223372036854775807'')\<rparr>"

definition check_sealed_volume :: "string \<Rightarrow> (string \<Rightarrow> VolumeDir option) \<Rightarrow> CatalogVolume \<Rightarrow> exn + unit" where
  "check_sealed_volume protocol dirs v =
     bindE (checkOwner (dirs (cv_identity v)) (cv_identity v)) (\<lambda>d.
     bindE (open_db d) (\<lambda>db. checkVolume db protocol (cv_identity v) (cv_records v) True))"

definition new_VolumeCatalog :: "nat \<Rightarrow> string \<Rightarrow> (storage, unit) task" where
  "new_VolumeCatalog volumeBytes protocol =
     thenT (rejectT (protocol = [] \<or> 4096 < length protocol) (InvalidArgument ''invalid catalog protocol''))
    (bindT getT (\<lambda>st.
       let ix = st_index st in
     thenT (if ix_appId ix = 0 then durable (\<lambda>st. st\<lparr>st_index := new_index protocol\<rparr>)
            else
              thenT (rejectT (ix_appId ix \<noteq> catalog_application_id) (RuntimeError ''foreign catalog database''))
                (liftT (bindE (rejectE (ix_version ix \<noteq> 1) (RuntimeError ''catalog protocol or version mismatch'')) (\<lambda>_.
                   bindE (required_metadata (ix_metadata ix) ''protocol'') (\<lambda>p.
                     rejectE (p \<noteq> protocol) (RuntimeError ''catalog protocol or version mismatch''))))))
    (thenT (resumeRetirements protocol)
    (bindT getT (\<lambda>st.
     bindT (liftT (catalog_volumes volumeBytes (st_index st))) (\<lambda>vs.
       liftT (bindE (mapE (check_sealed_volume protocol (st_dirs st)) vs) (\<lambda>_. Inr ()))))))))"

section \<open>Retention\<close>

record RetentionPolicy =
  rp_maxBytes :: nat
  rp_maxAge :: int

record RetentionResult =
  rr_bytes :: nat
  rr_removedVolumes :: nat
  rr_capacityExceeded :: bool
  rr_expiredPinned :: bool

definition canceled :: exn where
  "canceled = RuntimeError ''record retention canceled''"

definition poll :: "(storage, unit) task" where
  "poll = durable_or canceled (\<lambda>st. st)"

text \<open>The size of the record directory is a parameter; the scan polls the stop token too.\<close>

definition directoryBytes :: "(storage \<Rightarrow> exn + nat) \<Rightarrow> (storage, nat) task" where
  "directoryBytes disk = thenT poll (bindT getT (\<lambda>st. liftT (disk st)))"

definition volume_expired :: "RetentionPolicy \<Rightarrow> int \<Rightarrow> CatalogVolume \<Rightarrow> bool" where
  "volume_expired policy nowUs v \<longleftrightarrow>
     0 \<le> cv_sealedAtUs v \<and> cv_sealedAtUs v \<le> nowUs \<and> rp_maxAge policy \<le> nowUs - cv_sealedAtUs v"

definition retire_volume :: "string \<Rightarrow> CatalogVolume \<Rightarrow> (storage, unit) task" where
  "retire_volume protocol v =
     bindT getT (\<lambda>st.
     thenT (liftT (check_sealed_volume protocol (st_dirs st) v))
    (thenT poll
    (thenT (rejectT (ix_metadata (st_index st) (retiring_key (cv_id v)) \<noteq> None) sqlite_error)
    (thenT (durable (set_metadata (retiring_key (cv_id v)) (cv_identity v)))
      (finishRetirement protocol (cv_id v) (cv_identity v) (cv_records v))))))"

fun retain_loop :: "(storage \<Rightarrow> exn + nat) \<Rightarrow> (nat \<Rightarrow> bool) \<Rightarrow> string \<Rightarrow> RetentionPolicy \<Rightarrow> int \<Rightarrow>
    CatalogVolume list \<Rightarrow> RetentionResult \<Rightarrow> (storage, RetentionResult) task" where
  "retain_loop disk pinned protocol policy nowUs [] result = returnT result"
| "retain_loop disk pinned protocol policy nowUs (v # vs) result =
     thenT poll
       (let expired = volume_expired policy nowUs v in
        if \<not> expired \<and> rr_bytes result \<le> rp_maxBytes policy then retain_loop disk pinned protocol policy nowUs vs result
        else if pinned (cv_id v) then
          retain_loop disk pinned protocol policy nowUs vs
            (result\<lparr>rr_expiredPinned := rr_expiredPinned result \<or> expired\<rparr>)
        else
          thenT (retire_volume protocol v)
         (bindT (directoryBytes disk) (\<lambda>bytes.
            retain_loop disk pinned protocol policy nowUs vs
              (result\<lparr>rr_removedVolumes := rr_removedVolumes result + 1, rr_bytes := bytes\<rparr>))))"

definition retain :: "(storage \<Rightarrow> exn + nat) \<Rightarrow> (nat \<Rightarrow> bool) \<Rightarrow> nat \<Rightarrow> string \<Rightarrow> RetentionPolicy \<Rightarrow> int \<Rightarrow>
    (storage, RetentionResult) task" where
  "retain disk pinned volumeBytes protocol policy nowUs =
     thenT (rejectT (rp_maxBytes policy = 0 \<or> rp_maxAge policy < 0 \<or> nowUs < 0)
         (InvalidArgument ''invalid retention policy or time''))
    (thenT (resumeRetirements protocol)
    (bindT getT (\<lambda>st.
     bindT (liftT (catalog_volumes volumeBytes (st_index st))) (\<lambda>vs.
     bindT (directoryBytes disk) (\<lambda>bytes.
     bindT (retain_loop disk pinned protocol policy nowUs (sort_key cv_sealedAtUs (sort_key cv_id vs))
         \<lparr>rr_bytes = bytes, rr_removedVolumes = 0, rr_capacityExceeded = False, rr_expiredPinned = False\<rparr>) (\<lambda>result.
       returnT (result\<lparr>rr_capacityExceeded := rp_maxBytes policy < rr_bytes result\<rparr>)))))))"

end
