(* ===== verification/Record_Session.thy ===== *)
theory Record_Session
  imports Storage_World
begin

text \<open>
  The durable state of a recording session, from \<open>storage/record_session.hpp\<close> and
  \<open>storage/record_session.cc\<close>: its checks, its encoding as a structured value in the index database, and
  its operations, each of which saves the next state before it becomes the current one.
\<close>

section \<open>Checks\<close>

definition session_limits :: ValueLimits where
  "session_limits = \<lparr>maxBytes = 64 * 1024, maxDepth = 4, maxNodes = 128\<rparr>"

definition session_identity :: "string \<Rightarrow> bool \<Rightarrow> exn + unit" where
  "session_identity value' allowEmpty =
     (if allowEmpty \<and> value' = [] then Inr ()
      else rejectE (\<not> identity_ok value') (InvalidArgument ''invalid session volume identity''))"

definition state_invalid :: "RecordSessionState \<Rightarrow> bool" where
  "state_invalid s \<longleftrightarrow>
     int64_max < uint (ss_session s) \<or> int64_max < uint (ss_run s) \<or> ss_run s < ss_abnormalRuns s \<or>
     ss_lastCommittedId s < 0 \<or> 4096 < length (ss_error s) \<or>
     (ss_interruptedFromUs s \<noteq> None) \<noteq> (ss_interruptedToUs s \<noteq> None) \<or>
     (ss_interruptedFromUs s \<noteq> None \<and> the (ss_interruptedToUs s) < the (ss_interruptedFromUs s))"

definition validate_state :: "RecordSessionState \<Rightarrow> exn + unit" where
  "validate_state s =
     bindE (session_identity (ss_activeIdentity s) True) (\<lambda>_.
       bindE (session_identity (ss_pendingIdentity s) True) (\<lambda>_.
         if state_invalid s then Inl (InvalidArgument ''invalid record session state'')
         else if ss_pendingIdentity s = [] then
           rejectE (ss_pendingFirstId s \<noteq> 0 \<or> ss_pendingOpenedUs s \<noteq> 0)
             (InvalidArgument ''inconsistent empty rotation intent'')
         else
           rejectE (ss_pendingIdentity s = ss_activeIdentity s \<or> ss_pendingFirstId s < 1 \<or>
               ss_pendingFirstId s \<le> ss_lastCommittedId s \<or> ss_pendingOpenedUs s < 0)
             (InvalidArgument ''invalid pending rotation range'')))"

section \<open>Encoding\<close>

definition nullable :: "int option \<Rightarrow> Value" where
  "nullable v = (case v of Some i \<Rightarrow> VInt i | None \<Rightarrow> VNull)"

text \<open>The object of the state, its keys in the order of the map.\<close>

definition session_value :: "RecordSessionState \<Rightarrow> Value" where
  "session_value s = VObject
     [(''abnormal'', VInt (uint (ss_abnormalRuns s))),
      (''active'', VString (ss_activeIdentity s)),
      (''clean'', VBool (ss_cleanExit s)),
      (''error'', VString (ss_error s)),
      (''faulted'', VBool (ss_faulted s)),
      (''first'', VInt (ss_pendingFirstId s)),
      (''from'', nullable (ss_interruptedFromUs s)),
      (''last'', VInt (ss_lastCommittedId s)),
      (''opened'', VInt (ss_pendingOpenedUs s)),
      (''pending'', VString (ss_pendingIdentity s)),
      (''recording'', VBool (ss_recording s)),
      (''run'', VInt (uint (ss_run s))),
      (''session'', VInt (uint (ss_session s))),
      (''time'', nullable (ss_lastCommittedTimeUs s)),
      (''to'', nullable (ss_interruptedToUs s)),
      (''version'', VInt 1)]"

definition encode_session :: "RecordSessionState \<Rightarrow> exn + bytes" where
  "encode_session s = bindE (validate_state s) (\<lambda>_. encodeValue (session_value s) session_limits)"

text \<open>\<open>std::map::at\<close> and \<open>std::get\<close> on a member.\<close>

definition member_at :: "(string, Value) omap \<Rightarrow> string \<Rightarrow> exn + Value" where
  "member_at ms key = (case map_of ms key of Some v \<Rightarrow> Inr v | None \<Rightarrow> Inl OutOfRange)"

definition get_integer :: "(string, Value) omap \<Rightarrow> string \<Rightarrow> exn + int" where
  "get_integer ms key =
     bindE (member_at ms key) (\<lambda>v. case v of VInt i \<Rightarrow> Inr i | _ \<Rightarrow> Inl BadVariantAccess)"

definition get_text :: "(string, Value) omap \<Rightarrow> string \<Rightarrow> exn + string" where
  "get_text ms key =
     bindE (member_at ms key) (\<lambda>v. case v of VString s \<Rightarrow> Inr s | _ \<Rightarrow> Inl BadVariantAccess)"

definition get_boolean :: "(string, Value) omap \<Rightarrow> string \<Rightarrow> exn + bool" where
  "get_boolean ms key =
     bindE (member_at ms key) (\<lambda>v. case v of VBool b \<Rightarrow> Inr b | _ \<Rightarrow> Inl BadVariantAccess)"

definition get_optional :: "(string, Value) omap \<Rightarrow> string \<Rightarrow> exn + int option" where
  "get_optional ms key =
     bindE (member_at ms key) (\<lambda>v.
       case v of VNull \<Rightarrow> Inr None | VInt i \<Rightarrow> Inr (Some i) | _ \<Rightarrow> Inl BadVariantAccess)"

definition session_from_members :: "(string, Value) omap \<Rightarrow> exn + RecordSessionState" where
  "session_from_members ms =
     bindE (if length ms \<noteq> 16 then Inl (RuntimeError ''unsupported record session format'')
            else bindE (get_integer ms ''version'') (\<lambda>version.
              rejectE (version \<noteq> 1) (RuntimeError ''unsupported record session format''))) (\<lambda>_.
     bindE (get_integer ms ''session'') (\<lambda>session.
     bindE (get_integer ms ''run'') (\<lambda>run'.
     bindE (get_integer ms ''abnormal'') (\<lambda>abnormal.
     bindE (get_boolean ms ''recording'') (\<lambda>recording.
     bindE (get_boolean ms ''clean'') (\<lambda>clean.
     bindE (get_boolean ms ''faulted'') (\<lambda>faulted.
     bindE (get_text ms ''active'') (\<lambda>active.
     bindE (get_text ms ''pending'') (\<lambda>pending.
     bindE (get_text ms ''error'') (\<lambda>error.
     bindE (get_integer ms ''first'') (\<lambda>first.
     bindE (get_integer ms ''opened'') (\<lambda>opened.
     bindE (get_integer ms ''last'') (\<lambda>last'.
     bindE (get_optional ms ''time'') (\<lambda>time.
     bindE (get_optional ms ''from'') (\<lambda>from'.
     bindE (get_optional ms ''to'') (\<lambda>to.
       let s = \<lparr>ss_session = word_of_int session, ss_run = word_of_int run', ss_abnormalRuns = word_of_int abnormal,
                ss_recording = recording, ss_cleanExit = clean, ss_faulted = faulted, ss_activeIdentity = active,
                ss_pendingIdentity = pending, ss_error = error, ss_pendingFirstId = first,
                ss_pendingOpenedUs = opened, ss_lastCommittedId = last', ss_lastCommittedTimeUs = time,
                ss_interruptedFromUs = from', ss_interruptedToUs = to\<rparr> in
       bindE (validate_state s) (\<lambda>_. Inr s)))))))))))))))))"

definition decode_session :: "bytes \<Rightarrow> exn + RecordSessionState" where
  "decode_session bs =
     bindE (decodeValue bs session_limits) (\<lambda>v.
       case v of VObject ms \<Rightarrow> session_from_members ms | _ \<Rightarrow> Inl BadVariantAccess)"

section \<open>The session object\<close>

definition checkCatalog :: "string \<Rightarrow> Index \<Rightarrow> exn + unit" where
  "checkCatalog protocol ix =
     bindE (rejectE (ix_appId ix \<noteq> 0x50534958 \<or> ix_version ix \<noteq> 1)
         (RuntimeError ''record session requires owned catalog'')) (\<lambda>_.
       rejectE (ix_metadata ix ''protocol'' \<noteq> Some protocol)
         (RuntimeError ''record session catalog protocol mismatch''))"

definition new_RecordSession :: "string \<Rightarrow> (storage, unit) task" where
  "new_RecordSession protocol =
     bindT getT (\<lambda>st.
       thenT (liftT (checkCatalog protocol (st_index st)))
         (bindT (case ix_session (st_index st) of
                   Some bs \<Rightarrow> liftT (decode_session bs)
                 | None \<Rightarrow> returnT new_session_state) (\<lambda>s.
           updateT (\<lambda>st. st\<lparr>st_session := s\<rparr>))))"

definition save_session :: "string \<Rightarrow> RecordSessionState \<Rightarrow> (storage, unit) task" where
  "save_session protocol s =
     bindT (liftT (encode_session s)) (\<lambda>bs.
       bindT getT (\<lambda>st.
         thenT (liftT (checkCatalog protocol (st_index st)))
           (thenT (durable (\<lambda>st. st\<lparr>st_index := (st_index st)\<lparr>ix_session := Some bs\<rparr>\<rparr>))
             (updateT (\<lambda>st. st\<lparr>st_session := s\<rparr>)))))"

definition beginRun :: "string \<Rightarrow> (storage, unit) task" where
  "beginRun protocol =
     bindT getT (\<lambda>st.
       let s = st_session st in
       thenT (rejectT (uint (ss_run s) = int64_max) (OverflowError ''record run ID exhausted''))
         (let s = (if \<not> ss_cleanExit s then s\<lparr>ss_abnormalRuns := ss_abnormalRuns s + 1\<rparr> else s) in
          save_session protocol (s\<lparr>ss_run := ss_run s + 1, ss_cleanExit := False\<rparr>)))"

definition cleanExit :: "string \<Rightarrow> (storage, unit) task" where
  "cleanExit protocol =
     bindT getT (\<lambda>st. save_session protocol ((st_session st)\<lparr>ss_cleanExit := True\<rparr>))"

definition session_start :: "string \<Rightarrow> (storage, unit) task" where
  "session_start protocol =
     bindT getT (\<lambda>st.
       let s = st_session st in
       thenT (rejectT (\<not> ss_recording s \<and> uint (ss_session s) = int64_max)
           (OverflowError ''record session ID exhausted''))
         (let s = (if \<not> ss_recording s then s\<lparr>ss_session := ss_session s + 1\<rparr> else s) in
          save_session protocol (s\<lparr>ss_recording := True, ss_faulted := False, ss_error := []\<rparr>)))"

definition session_stop :: "string \<Rightarrow> (storage, unit) task" where
  "session_stop protocol =
     bindT getT (\<lambda>st. save_session protocol ((st_session st)\<lparr>ss_recording := False\<rparr>))"

definition prepareRotation :: "string \<Rightarrow> string \<Rightarrow> int \<Rightarrow> int \<Rightarrow> (storage, unit) task" where
  "prepareRotation protocol i firstId openedAtUs =
     bindT getT (\<lambda>st.
       let s = st_session st in
       thenT (rejectT (ss_pendingIdentity s \<noteq> []) (RuntimeError ''previous record rotation requires recovery''))
         (save_session protocol
           (s\<lparr>ss_pendingIdentity := i, ss_pendingFirstId := firstId, ss_pendingOpenedUs := openedAtUs\<rparr>)))"

definition commitRotation :: "string \<Rightarrow> string \<Rightarrow> (storage, unit) task" where
  "commitRotation protocol i =
     bindT getT (\<lambda>st.
       let s = st_session st in
       thenT (rejectT (i = [] \<or> ss_pendingIdentity s \<noteq> i) (RuntimeError ''rotation commit identity mismatch''))
         (save_session protocol
           (s\<lparr>ss_activeIdentity := i, ss_pendingIdentity := [], ss_pendingFirstId := 0, ss_pendingOpenedUs := 0\<rparr>)))"

definition cancelRotation :: "string \<Rightarrow> string \<Rightarrow> (storage, unit) task" where
  "cancelRotation protocol i =
     bindT getT (\<lambda>st.
       let s = st_session st in
       thenT (rejectT (i = [] \<or> ss_pendingIdentity s \<noteq> i)
           (RuntimeError ''rotation cancellation identity mismatch''))
         (save_session protocol (s\<lparr>ss_pendingIdentity := [], ss_pendingFirstId := 0, ss_pendingOpenedUs := 0\<rparr>)))"

definition committed :: "string \<Rightarrow> int \<Rightarrow> int \<Rightarrow> (storage, unit) task" where
  "committed protocol i receivedAtUs =
     bindT getT (\<lambda>st.
       let s = st_session st in
       thenT (rejectT (i < ss_lastCommittedId s \<or> ss_pendingIdentity s \<noteq> [])
           (RuntimeError ''record commit position regressed or rotation incomplete''))
         (save_session protocol (s\<lparr>ss_lastCommittedId := i, ss_lastCommittedTimeUs := Some receivedAtUs\<rparr>)))"

definition session_fault :: "string \<Rightarrow> string \<Rightarrow> int option \<Rightarrow> int option \<Rightarrow> (storage, unit) task" where
  "session_fault protocol error fromUs toUs =
     bindT getT (\<lambda>st.
       save_session protocol
         ((st_session st)\<lparr>ss_faulted := True, ss_error := error, ss_interruptedFromUs := fromUs,
            ss_interruptedToUs := toUs\<rparr>))"

section \<open>Saved states are read back\<close>

definition state_typed :: "RecordSessionState \<Rightarrow> bool" where
  "state_typed s \<longleftrightarrow> is_int64 (ss_pendingFirstId s) \<and> is_int64 (ss_pendingOpenedUs s) \<and>
     is_int64 (ss_lastCommittedId s) \<and> pred_option is_int64 (ss_lastCommittedTimeUs s) \<and>
     pred_option is_int64 (ss_interruptedFromUs s) \<and> pred_option is_int64 (ss_interruptedToUs s)"

definition state_valid :: "RecordSessionState \<Rightarrow> bool" where
  "state_valid s \<longleftrightarrow> validate_state s = Inr ()"

lemma session_identity_iff:
  "session_identity i True = Inr u \<longleftrightarrow> i = [] \<or> identity_ok i"
  by (simp add: session_identity_def)

lemma state_validD:
  assumes "state_valid s"
  shows "length (ss_activeIdentity s) \<le> 32" "length (ss_pendingIdentity s) \<le> 32" "\<not> state_invalid s"
  using assms by (auto simp: state_valid_def validate_state_def session_identity_iff identity_ok_def split: if_splits)

lemma uint_is_int64: "uint (w :: u64) \<le> int64_max \<Longrightarrow> is_int64 (uint w)"
proof -
  have "0 \<le> uint w" by simp
  then show "uint w \<le> int64_max \<Longrightarrow> is_int64 (uint w)" unfolding is_int64_def int64_min_def by linarith
qed

lemma nullable_bounds: "length (value_bytes (nullable v)) \<le> 9" "value_depth (nullable v) = 0"
  "value_nodes (nullable v) = 1" "value_finite (nullable v)" "pred_option is_int64 v \<Longrightarrow> value_ok (nullable v)"
  by (cases v; simp add: nullable_def)+

lemma session_value_within:
  assumes "state_valid s"
  shows "value_finite (session_value s) \<and> value_depth (session_value s) \<le> maxDepth session_limits \<and>
     value_nodes (session_value s) \<le> maxNodes session_limits \<and>
     length (value_bytes (session_value s)) \<le> maxBytes session_limits"
proof (intro conjI)
  note v = state_validD [OF assms]
  show "value_finite (session_value s)"
    by (simp add: session_value_def nullable_bounds)
  show "value_depth (session_value s) \<le> maxDepth session_limits"
    by (simp add: session_value_def nullable_bounds session_limits_def value_depth.simps)
  show "value_nodes (session_value s) \<le> maxNodes session_limits"
    by (simp add: session_value_def nullable_bounds session_limits_def)
  have "length (ss_error s) \<le> 4096" using v(3) by (simp add: state_invalid_def)
  then show "length (value_bytes (session_value s)) \<le> maxBytes session_limits"
    using v(1,2) nullable_bounds(1) [of "ss_interruptedFromUs s"] nullable_bounds(1) [of "ss_interruptedToUs s"]
      nullable_bounds(1) [of "ss_lastCommittedTimeUs s"]
    by (simp add: session_value_def session_limits_def member_bytes_Pair key_bytes_def)
qed

lemma session_value_ok:
  assumes "state_valid s" "state_typed s"
  shows "value_ok (session_value s)"
proof -
  have "ss_abnormalRuns s \<le> ss_run s" and lim: "uint (ss_run s) \<le> int64_max" "uint (ss_session s) \<le> int64_max"
    using state_validD(3) [OF assms(1)] by (simp_all add: state_invalid_def not_less)
  then have "uint (ss_abnormalRuns s) \<le> uint (ss_run s)" by (simp only: word_le_def)
  with lim have "uint (ss_abnormalRuns s) \<le> uint (ss_run s)" "uint (ss_run s) \<le> int64_max"
    "uint (ss_session s) \<le> int64_max" by (simp_all only:)
  then have "is_int64 (uint (ss_abnormalRuns s))" "is_int64 (uint (ss_run s))" "is_int64 (uint (ss_session s))"
    by (simp_all add: uint_is_int64 order_trans)
  moreover have "is_int64 1" by (simp add: int64_defs)
  ultimately show ?thesis
    using assms(2) by (simp add: session_value_def state_typed_def nullable_bounds map_wf_def map_keys_def)
qed

lemma state_fields_eq:
  "\<lparr>ss_session = ss_session s, ss_run = ss_run s, ss_abnormalRuns = ss_abnormalRuns s,
     ss_recording = ss_recording s, ss_cleanExit = ss_cleanExit s, ss_faulted = ss_faulted s,
     ss_activeIdentity = ss_activeIdentity s, ss_pendingIdentity = ss_pendingIdentity s, ss_error = ss_error s,
     ss_pendingFirstId = ss_pendingFirstId s, ss_pendingOpenedUs = ss_pendingOpenedUs s,
     ss_lastCommittedId = ss_lastCommittedId s, ss_lastCommittedTimeUs = ss_lastCommittedTimeUs s,
     ss_interruptedFromUs = ss_interruptedFromUs s, ss_interruptedToUs = ss_interruptedToUs s\<rparr> = s"
  by (cases s) simp

lemma session_from_members_value:
  assumes "state_valid s" "session_value s = VObject ms"
  shows "session_from_members ms = Inr s"
proof -
  have opt: "(case nullable v of VNull \<Rightarrow> Inr None | VInt i \<Rightarrow> Inr (Some i) | _ \<Rightarrow> Inl BadVariantAccess) = Inr v"
    for v :: "int option"
    by (cases v) (simp_all add: nullable_def)
  have ms: "ms = (case session_value s of VObject ms \<Rightarrow> ms | _ \<Rightarrow> [])" using assms(2) by simp
  show ?thesis
    using assms(1)
    by (simp add: ms session_value_def session_from_members_def get_integer_def get_text_def get_boolean_def
        get_optional_def member_at_def opt Let_def state_valid_def state_fields_eq)
qed

lemma encode_session_iff: "encode_session s = Inr bs \<longleftrightarrow> state_valid s \<and> bs = value_bytes (session_value s)"
  using session_value_within [of s] by (auto simp: encode_session_def encodeValue_iff state_valid_def)

lemma decode_encode_session:
  assumes "encode_session s = Inr bs" "state_typed s"
  shows "decode_session bs = Inr s"
proof -
  have v: "state_valid s" "encodeValue (session_value s) session_limits = Inr bs"
    using assms(1) by (auto simp: encode_session_def state_valid_def)
  have "decodeValue bs session_limits = Inr (session_value s)"
    using decodeValue_encodeValue [OF v(2) session_value_ok [OF v(1) assms(2)]]
    by (simp add: session_limits_def size_max_def)
  moreover obtain ms where "session_value s = VObject ms" by (simp add: session_value_def)
  ultimately show ?thesis using session_from_members_value [OF v(1)] by (simp add: decode_session_def)
qed

section \<open>Every operation saves before it changes the state\<close>

datatype SessionOp =
    BeginRun | CleanExit | Start | Stop
  | PrepareRotation string int int
  | CommitRotation string
  | CancelRotation string
  | Committed int int
  | Fault string "int option" "int option"

fun session_op :: "string \<Rightarrow> SessionOp \<Rightarrow> (storage, unit) task" where
  "session_op protocol BeginRun = beginRun protocol"
| "session_op protocol CleanExit = cleanExit protocol"
| "session_op protocol Start = session_start protocol"
| "session_op protocol Stop = session_stop protocol"
| "session_op protocol (PrepareRotation i first opened) = prepareRotation protocol i first opened"
| "session_op protocol (CommitRotation i) = commitRotation protocol i"
| "session_op protocol (CancelRotation i) = cancelRotation protocol i"
| "session_op protocol (Committed i t) = committed protocol i t"
| "session_op protocol (Fault e from to) = session_fault protocol e from to"

text \<open>Times and ids are 64-bit integers.\<close>

fun op_typed :: "SessionOp \<Rightarrow> bool" where
  "op_typed (PrepareRotation i first opened) \<longleftrightarrow> is_int64 first \<and> is_int64 opened"
| "op_typed (Committed i t) \<longleftrightarrow> is_int64 i \<and> is_int64 t"
| "op_typed (Fault e from to) \<longleftrightarrow> pred_option is_int64 from \<and> pred_option is_int64 to"
| "op_typed _ \<longleftrightarrow> True"

definition session_saved :: "string \<Rightarrow> storage \<Rightarrow> bool" where
  "session_saved protocol st \<longleftrightarrow>
     state_valid (st_session st) \<and> state_typed (st_session st) \<and> checkCatalog protocol (st_index st) = Inr () \<and>
     (case ix_session (st_index st) of
        None \<Rightarrow> st_session st = new_session_state
      | Some bs \<Rightarrow> decode_session bs = Inr (st_session st))"

text \<open>What an operation may do to the state, and that it is on disk when it does.\<close>

definition session_step :: "RecordSessionState \<Rightarrow> RecordSessionState \<Rightarrow> bool" where
  "session_step s s' \<longleftrightarrow>
     ss_lastCommittedId s \<le> ss_lastCommittedId s' \<and> uint (ss_session s) \<le> uint (ss_session s') \<and>
     uint (ss_run s) \<le> uint (ss_run s') \<and>
     (ss_activeIdentity s' \<noteq> ss_activeIdentity s \<longrightarrow> ss_activeIdentity s' = ss_pendingIdentity s)"

lemma checkCatalog_session [simp]:
  "checkCatalog protocol (ix\<lparr>ix_session := x\<rparr>) = checkCatalog protocol ix"
  by (simp add: checkCatalog_def)

lemma save_session_cases:
  assumes "session_saved protocol st" "state_typed s"
  obtains e f where "save_session protocol s st = (Inl e, st\<lparr>st_faults := f\<rparr>)"
  | f where "state_valid s" "save_session protocol s st = (Inr (),
       st\<lparr>st_faults := f, st_index := (st_index st)\<lparr>ix_session := Some (value_bytes (session_value s))\<rparr>, st_session := s\<rparr>)"
proof (cases "encode_session s")
  case (Inl e)
  then show thesis using that(1) [of e "st_faults st"] by (simp add: save_session_def bindT_def liftT_def)
next
  case (Inr bs)
  then have bs: "state_valid s" "bs = value_bytes (session_value s)" by (auto simp: encode_session_iff)
  have c: "checkCatalog protocol (st_index st) = Inr ()" using assms(1) by (simp add: session_saved_def)
  let ?g = "\<lambda>st. st\<lparr>st_index := (st_index st)\<lparr>ix_session := Some bs\<rparr>\<rparr>"
  have save: "save_session protocol s st =
      (case durable ?g st of (Inl e, st') \<Rightarrow> (Inl e, st') | (Inr _, st') \<Rightarrow> (Inr (), st'\<lparr>st_session := s\<rparr>))"
    using Inr c
    by (simp add: save_session_def bindT_def liftT_def thenT_def getT_def updateT_def split: prod.splits sum.splits)
  show thesis
  proof (cases rule: durable_cases [of sqlite_error ?g st])
    case (fails f)
    then have "save_session protocol s st = (Inl sqlite_error, st\<lparr>st_faults := f\<rparr>)" by (simp add: save)
    then show thesis by (rule that(1))
  next
    case (works f)
    then have "save_session protocol s st = (Inr (),
       st\<lparr>st_faults := f, st_index := (st_index st)\<lparr>ix_session := Some (value_bytes (session_value s))\<rparr>, st_session := s\<rparr>)"
      by (simp add: save bs(2))
    with bs(1) show thesis by (rule that(2))
  qed
qed

lemma save_session_keeps:
  assumes "session_saved protocol st" "state_typed s" "session_step (st_session st) s"
    and "save_session protocol s st = (r, st')"
  shows "session_saved protocol st' \<and> (st_session st' = st_session st \<or> r = Inr () \<and> st_session st' = s) \<and>
     session_step (st_session st) (st_session st')"
  using assms(1,2)
proof (cases rule: save_session_cases)
  case (1 e f)
  then have "r = Inl e" "st' = st\<lparr>st_faults := f\<rparr>" using assms(4) by simp_all
  then show ?thesis using assms(1) by (simp add: session_saved_def session_step_def cong: option.case_cong)
next
  case (2 f)
  have "decode_session (value_bytes (session_value s)) = Inr s"
    using decode_encode_session [OF _ assms(2)] 2(1) by (simp add: encode_session_iff)
  then show ?thesis using assms 2 by (auto simp: session_saved_def)
qed

lemma session_step_refl [simp]: "session_step s s"
  by (simp add: session_step_def)

lemma uint_plus_1: "uint (w :: u64) \<le> int64_max \<Longrightarrow> uint (w + 1) = uint w + 1"
  unfolding int64_max_def by (simp add: uint_word_ariths)

text \<open>An operation is a check of the state in memory, and the save of the next state.\<close>

fun op_rejects :: "SessionOp \<Rightarrow> RecordSessionState \<Rightarrow> bool" where
  "op_rejects BeginRun s \<longleftrightarrow> uint (ss_run s) = int64_max"
| "op_rejects Start s \<longleftrightarrow> \<not> ss_recording s \<and> uint (ss_session s) = int64_max"
| "op_rejects (PrepareRotation i first opened) s \<longleftrightarrow> ss_pendingIdentity s \<noteq> []"
| "op_rejects (CommitRotation i) s \<longleftrightarrow> i = [] \<or> ss_pendingIdentity s \<noteq> i"
| "op_rejects (CancelRotation i) s \<longleftrightarrow> i = [] \<or> ss_pendingIdentity s \<noteq> i"
| "op_rejects (Committed i t) s \<longleftrightarrow> i < ss_lastCommittedId s \<or> ss_pendingIdentity s \<noteq> []"
| "op_rejects _ s \<longleftrightarrow> False"

fun op_next :: "SessionOp \<Rightarrow> RecordSessionState \<Rightarrow> RecordSessionState" where
  "op_next BeginRun s =
     (let s = (if \<not> ss_cleanExit s then s\<lparr>ss_abnormalRuns := ss_abnormalRuns s + 1\<rparr> else s) in
      s\<lparr>ss_run := ss_run s + 1, ss_cleanExit := False\<rparr>)"
| "op_next CleanExit s = s\<lparr>ss_cleanExit := True\<rparr>"
| "op_next Start s =
     (let s = (if \<not> ss_recording s then s\<lparr>ss_session := ss_session s + 1\<rparr> else s) in
      s\<lparr>ss_recording := True, ss_faulted := False, ss_error := []\<rparr>)"
| "op_next Stop s = s\<lparr>ss_recording := False\<rparr>"
| "op_next (PrepareRotation i first opened) s =
     s\<lparr>ss_pendingIdentity := i, ss_pendingFirstId := first, ss_pendingOpenedUs := opened\<rparr>"
| "op_next (CommitRotation i) s =
     s\<lparr>ss_activeIdentity := i, ss_pendingIdentity := [], ss_pendingFirstId := 0, ss_pendingOpenedUs := 0\<rparr>"
| "op_next (CancelRotation i) s = s\<lparr>ss_pendingIdentity := [], ss_pendingFirstId := 0, ss_pendingOpenedUs := 0\<rparr>"
| "op_next (Committed i t) s = s\<lparr>ss_lastCommittedId := i, ss_lastCommittedTimeUs := Some t\<rparr>"
| "op_next (Fault e from to) s =
     s\<lparr>ss_faulted := True, ss_error := e, ss_interruptedFromUs := from, ss_interruptedToUs := to\<rparr>"

lemma session_op_eq:
  "\<exists>e. session_op protocol op st =
     (if op_rejects op (st_session st) then (Inl e, st) else save_session protocol (op_next op (st_session st)) st)"
  by (cases op)
    (simp_all add: beginRun_def cleanExit_def session_start_def session_stop_def prepareRotation_def commitRotation_def
      cancelRotation_def committed_def session_fault_def bindT_def getT_def Let_def thenT_def rejectT_def throwT_def
      returnT_def)

lemma op_next_typed: "op_typed op \<Longrightarrow> state_typed s \<Longrightarrow> state_typed (op_next op s)"
  by (cases op) (simp_all add: state_typed_def Let_def int64_defs is_int64_def)

lemma op_next_step:
  assumes "\<not> op_rejects op s" "uint (ss_run s) \<le> int64_max" "uint (ss_session s) \<le> int64_max"
  shows "session_step s (op_next op s)"
  using assms uint_plus_1 [OF assms(2)] uint_plus_1 [OF assms(3)]
  by (cases op) (simp_all add: session_step_def Let_def)

lemma session_op_keeps:
  assumes "session_saved protocol st" "op_typed op" "session_op protocol op st = (r, st')"
  shows "session_saved protocol st' \<and> session_step (st_session st) (st_session st')"
proof -
  let ?s = "st_session st"
  have typed: "state_typed ?s" and lim: "uint (ss_run ?s) \<le> int64_max" "uint (ss_session ?s) \<le> int64_max"
    using assms(1) state_validD(3) [of ?s] by (simp_all add: session_saved_def state_invalid_def not_less)
  obtain e where op: "session_op protocol op st =
      (if op_rejects op ?s then (Inl e, st) else save_session protocol (op_next op ?s) st)"
    using session_op_eq by blast
  show ?thesis
  proof (cases "op_rejects op ?s")
    case True
    then show ?thesis using op assms(1,3) by simp
  next
    case False
    then have "save_session protocol (op_next op ?s) st = (r, st')" using op assms(3) by simp
    from save_session_keeps [OF assms(1) op_next_typed [OF assms(2) typed] op_next_step [OF False lim] this]
    show ?thesis by blast
  qed
qed

text \<open>The session as a component: its state is always the one that is saved.\<close>

definition session_abs :: "string \<Rightarrow> RecordSessionState \<Rightarrow> storage \<Rightarrow> bool" where
  "session_abs protocol s st \<longleftrightarrow> session_saved protocol st \<and> st_session st = s"

interpretation session: simulation "session_abs protocol" "session_op protocol" op_typed "\<lambda>op r. session_step" for protocol
  by unfold_locales (use session_op_keeps in \<open>auto simp: session_abs_def\<close>)

lemma new_session_saved: "session_saved protocol st \<Longrightarrow> new_RecordSession protocol st = (Inr (), st)"
  by (cases "ix_session (st_index st)")
    (simp_all add: session_saved_def new_RecordSession_def bindT_def getT_def thenT_def liftT_def returnT_def updateT_def)

lemma session_steps_monotone:
  assumes "spec_run (\<lambda>op r. session_step) (ops :: SessionOp list) (rs :: (exn + unit) list) s s'"
  shows "ss_lastCommittedId s \<le> ss_lastCommittedId s' \<and> uint (ss_session s) \<le> uint (ss_session s') \<and>
     uint (ss_run s) \<le> uint (ss_run s')"
  using session.run_related [OF assms, of "\<lambda>s s'. ss_lastCommittedId s \<le> ss_lastCommittedId s' \<and>
      uint (ss_session s) \<le> uint (ss_session s') \<and> uint (ss_run s) \<le> uint (ss_run s')"]
  by (fastforce simp: session_step_def)

lemma new_session_state_ok: "state_valid new_session_state" "state_typed new_session_state"
  by (simp_all add: state_typed_def state_valid_def new_session_state_def int64_defs validate_state_def session_identity_def
      state_invalid_def)

end
