(* ===== verification/Legacy_Migration.thy ===== *)
theory Legacy_Migration
  imports Volume_Catalog Record_Session
begin

text \<open>
  The migration of a single database of an earlier version into a volume, from
  \<open>storage/legacy_record_migration.cc\<close>: its intent is stored first, so that every later step can be tried
  again after a crash.
\<close>

definition read_metadata :: "metadata \<Rightarrow> string \<Rightarrow> string" where
  "read_metadata m key = (case m key of Some v \<Rightarrow> v | None \<Rightarrow> [])"

definition check_migration_identity :: "string \<Rightarrow> exn + unit" where
  "check_migration_identity i = rejectE (\<not> identity_ok i) (RuntimeError ''invalid legacy migration identity'')"

record LegacySummary =
  ls_first :: int
  ls_last :: int
  ls_count :: int
  ls_lastTime :: "int option"
  ls_recording :: bool

definition inspect_legacy :: "string \<Rightarrow> VolumeDb \<Rightarrow> exn + LegacySummary" where
  "inspect_legacy protocol db =
     (let ids = map sr_id (db_records db); count = int (length ids);
          first = (case sql_min ids of Some i \<Rightarrow> i | None \<Rightarrow> 1);
          last' = (case sql_max ids of Some i \<Rightarrow> i | None \<Rightarrow> 0) in
      bindE (rejectE (db_appId db \<noteq> volume_application_id \<or> db_version db \<noteq> 1 \<or>
            read_metadata (db_metadata db) ''protocol'' \<noteq> protocol)
          (RuntimeError ''legacy record database identity mismatch'')) (\<lambda>_.
      bindE (rejectE (count \<noteq> 0 \<and> (first < 1 \<or> last' < first \<or> last' - first + 1 \<noteq> count))
          (RuntimeError ''legacy record ID range is not contiguous'')) (\<lambda>_.
        Inr \<lparr>ls_first = first, ls_last = last', ls_count = count,
             ls_lastTime = map_option sr_received (last_row (db_records db)),
             ls_recording = (read_metadata (db_metadata db) ''recording'' = ''1'')\<rparr>)))"

definition migration_owner_error :: exn where
  "migration_owner_error = RuntimeError ''cannot write migration owner''"

definition migration_owner :: "string \<Rightarrow> (storage, unit) task" where
  "migration_owner i =
     bindT getT (\<lambda>st.
     thenT (if st_dirs st i = None then durable_or filesystem_error (put_dir i \<lparr>vd_owner = None, vd_db = None\<rparr>)
            else returnT ())
    (bindT getT (\<lambda>st.
       case st_dirs st i of
         None \<Rightarrow> throwT filesystem_error
       | Some d \<Rightarrow>
           thenT (rejectT (vd_db d \<noteq> None) (RuntimeError ''migration destination contains unexpected file''))
             (case vd_owner d of
                Some t \<Rightarrow> rejectT (take 128 t \<noteq> volume_marker i) (RuntimeError ''migration destination owner mismatch'')
              | None \<Rightarrow>
                  thenT (durable_or migration_owner_error (put_dir i (d\<lparr>vd_owner := Some []\<rparr>)))
                    (durable_or migration_owner_error (put_dir i (d\<lparr>vd_owner := Some (volume_marker i)\<rparr>)))))))"

definition sealed_legacy :: "string \<Rightarrow> LegacySummary \<Rightarrow> int \<Rightarrow> VolumeDb \<Rightarrow> VolumeDb" where
  "sealed_legacy i s nowUs db =
     db\<lparr>db_metadata := (db_metadata db)(''volume_id'' \<mapsto> i, ''origin'' \<mapsto> ''recording'', ''state'' \<mapsto> ''sealed'',
          ''first_id'' \<mapsto> int_text (ls_first s), ''last_id'' \<mapsto> int_text (ls_last s),
          ''record_count'' \<mapsto> int_text (ls_count s), ''opened_us'' \<mapsto> int_text nowUs, ''sealed_us'' \<mapsto> int_text nowUs)\<rparr>"

text \<open>Sealing the source where it is, then moving it into the directory of its volume.\<close>

definition prepare_legacy :: "string \<Rightarrow> string \<Rightarrow> VolumeDb \<Rightarrow> int \<Rightarrow> (storage, unit) task" where
  "prepare_legacy protocol i db nowUs =
     thenT (migration_owner i)
    (bindT (liftT (inspect_legacy protocol db)) (\<lambda>s.
       let old = read_metadata (db_metadata db) ''volume_id'' in
       thenT (rejectT (old \<noteq> [] \<and> old \<noteq> i) (RuntimeError ''legacy database belongs to another volume''))
      (bindT getT (\<lambda>st.
       thenT (rejectT (ls_count s \<noteq> 0 \<and> ls_last s < ss_lastCommittedId (st_session st))
           (RuntimeError ''legacy database is behind durable session position''))
      (thenT (case ls_lastTime s of Some t \<Rightarrow> committed protocol (ls_last s) t | None \<Rightarrow> returnT ())
      (bindT getT (\<lambda>st.
       thenT (if ss_run (st_session st) = 0 \<and> ls_recording s then session_start protocol else returnT ())
      (thenT (durable (\<lambda>st. st\<lparr>st_legacy := Some (sealed_legacy i s nowUs db)\<rparr>))
      (thenT (durable (\<lambda>st. st))
      (thenT (durable (\<lambda>st. st))
        (durable_or filesystem_error (\<lambda>st.
           st\<lparr>st_legacy := None, st_dirs := (st_dirs st)(i \<mapsto>
                \<lparr>vd_owner = Option.bind (st_dirs st i) vd_owner, vd_db = st_legacy st\<rparr>)\<rparr>))))))))))))"

definition register_legacy :: "nat \<Rightarrow> string \<Rightarrow> string \<Rightarrow> int \<Rightarrow> (storage, CatalogVolume option) task" where
  "register_legacy volumeBytes protocol i nowUs =
     bindT getT (\<lambda>st.
     thenT (rejectT (db_of st i = None) (RuntimeError ''legacy migration lost both source and target''))
    (bindT (reopen_volume protocol i) (\<lambda>rv.
     thenT (rejectT (\<not> vi_sealed (rv_info rv)) (RuntimeError ''legacy migration target is not sealed''))
    (bindT (pinAll volumeBytes protocol) (\<lambda>vs.
     bindT (case [v \<leftarrow> vs. cv_identity v = i] of
              [] \<Rightarrow> adoptRecording protocol (rv_info rv) nowUs
            | v # vs' \<Rightarrow> returnT (last (v # vs'))) (\<lambda>v.
     thenT (durable (\<lambda>st. st\<lparr>st_index := (st_index st)\<lparr>ix_metadata :=
              (ix_metadata (st_index st))(''legacy_migrated'' \<mapsto> i, ''legacy_migration'' := None)\<rparr>\<rparr>))
       (returnT (Some v))))))))"

definition migrateLegacyRecords :: "nat \<Rightarrow> string \<Rightarrow> int \<Rightarrow> string \<Rightarrow> (storage, CatalogVolume option) task" where
  "migrateLegacyRecords volumeBytes protocol nowUs fresh =
     thenT (rejectT (nowUs < 0) (InvalidArgument ''invalid migration time''))
    (bindT getT (\<lambda>st.
       let m = ix_metadata (st_index st);
           intent = read_metadata m ''legacy_migration''; completed = read_metadata m ''legacy_migrated'' in
       thenT (rejectT (read_metadata m ''protocol'' \<noteq> protocol) (RuntimeError ''migration catalog protocol mismatch''))
      (thenT (rejectT (intent \<noteq> [] \<and> completed \<noteq> [] \<and> intent \<noteq> completed)
           (RuntimeError ''conflicting legacy migration identities''))
        (if intent = [] \<and> completed \<noteq> [] then
           thenT (liftT (check_migration_identity completed))
          (thenT (rejectT (st_legacy st \<noteq> None) (RuntimeError ''legacy source reappeared after migration''))
          (bindT (pinAll volumeBytes protocol) (\<lambda>vs. returnT (find (\<lambda>v. cv_identity v = completed) vs))))
         else if intent = [] \<and> st_legacy st = None then returnT None
         else
           bindT (if intent = [] then
                    thenT (liftT (bindE (inspect_legacy protocol (the (st_legacy st))) (\<lambda>_. Inr ())))
                   (thenT (durable (set_metadata ''legacy_migration'' fresh)) (returnT fresh))
                  else returnT intent) (\<lambda>i.
           thenT (liftT (check_migration_identity i))
          (bindT getT (\<lambda>st.
           thenT (case st_legacy st of
                    Some db \<Rightarrow>
                      thenT (rejectT (db_of st i \<noteq> None)
                          (RuntimeError ''both legacy source and migration target exist''))
                        (prepare_legacy protocol i db nowUs)
                  | None \<Rightarrow> returnT ())
             (register_legacy volumeBytes protocol i nowUs))))))))"

end
