(* ===== verification/Record_Coordinator.thy ===== *)
theory Record_Coordinator
  imports Volume_Retention Legacy_Migration
begin

text \<open>
  The recording as a whole, from \<open>storage/record_volume_coordinator.cc\<close>, the switch of the active volume of
  \<open>storage/record_query.cc\<close>, and the opening and writing of \<open>storage/store.cc\<close>. A rotation stores its
  intent (the identity and the first id of the next volume) in the session, creates the volume, seals and
  indexes the previous one, and then makes the next one the active one; every step can fail.
\<close>

text \<open>What the code takes from its surroundings.\<close>

record recorder =
  rc_protocol :: string
  rc_volumeBytes :: nat
  rc_schemaBytes :: "Schema \<Rightarrow> nat"
  rc_diskBytes :: "VolumeDb \<Rightarrow> nat"

section \<open>The active volume of the queries\<close>

definition source_schemas :: "recorder \<Rightarrow> VolumeDir option \<Rightarrow> exn + schema_map" where
  "source_schemas rc dir =
     (case Option.bind dir vd_db of
        None \<Rightarrow> Inl sqlite_error
      | Some db \<Rightarrow>
          bindE (foldE (\<lambda>(i, _, definition') (bytes, schemas).
              bindE (bindE (decodeValue definition' volume_limits) schemaFromValue) (\<lambda>schema.
              bindE (rejectE (i < 1 \<or> maxBytes volume_limits - bytes < rc_schemaBytes rc schema)
                  (RuntimeError ''invalid active schema metadata or query budget exceeded'')) (\<lambda>_.
                Inr (bytes + rc_schemaBytes rc schema,
                  case map_emplace (word_of_int i) schema schemas of Some m \<Rightarrow> m | None \<Rightarrow> schemas))))
            (db_schemas db) (0, [])) (\<lambda>(_, schemas). Inr schemas))"

definition new_RecordQueryService :: "recorder \<Rightarrow> string \<Rightarrow> (storage, unit) task" where
  "new_RecordQueryService rc i =
     bindT getT (\<lambda>st.
     bindT (liftT (source_schemas rc (st_dirs st i))) (\<lambda>schemas.
     bindT (registerSchemas schemas) (\<lambda>ids.
     thenT (liftT (checkIdentity i))
       (updateT (\<lambda>st. st\<lparr>st_queries := Some \<lparr>qs_active = i, qs_schemas = ids\<rparr>\<rparr>)))))"

definition switchActive :: "recorder \<Rightarrow> string \<Rightarrow> (storage, unit) task \<Rightarrow> (storage, unit) task" where
  "switchActive rc i sealPrevious =
     bindT getT (\<lambda>st.
     bindT (liftT (source_schemas rc (st_dirs st i))) (\<lambda>schemas.
     bindT (registerSchemas schemas) (\<lambda>ids.
     thenT (rejectT (map_option qs_active (st_queries st) = Some i)
         (InvalidArgument ''active volume source did not change''))
    (thenT (liftT (checkIdentity i))
    (thenT sealPrevious
       (updateT (\<lambda>st. st\<lparr>st_queries := Some \<lparr>qs_active = i, qs_schemas = ids\<rparr>\<rparr>)))))))"

section \<open>Rotation\<close>

definition synchronize :: "recorder \<Rightarrow> (storage, unit) task" where
  "synchronize rc =
     bindT getT (\<lambda>st.
       case st_active st of
         None \<Rightarrow> returnT ()
       | Some rv \<Rightarrow>
           (let info = rv_info rv; position = ss_lastCommittedId (st_session st) in
            thenT (rejectT (vi_lastId info < position)
                (RuntimeError ''active volume is behind committed session position''))
              (if position < vi_lastId info then
                 (case vi_lastReceivedTimeUs info of
                    None \<Rightarrow> throwT (RuntimeError ''active volume has no record at advanced session position'')
                  | Some t \<Rightarrow> committed (rc_protocol rc) (vi_lastId info) t)
               else returnT ())))"

definition indexSealed :: "recorder \<Rightarrow> RecordVolumeInfo \<Rightarrow> int \<Rightarrow> (storage, unit) task" where
  "indexSealed rc info nowUs =
     thenT (rejectT (\<not> vi_sealed info) (RuntimeError ''cannot index an active recording volume''))
    (bindT (pinAll (rc_volumeBytes rc) (rc_protocol rc)) (\<lambda>vs.
       case [v \<leftarrow> vs. cv_identity v = vi_identity info] of
         v # _ \<Rightarrow>
           rejectT (cv_records v \<noteq> vi_records info \<or> vi_records info \<noteq> 0 \<and> cv_highWater v \<noteq> vi_lastId info)
             (RuntimeError ''sealed index differs from rotation source'')
       | [] \<Rightarrow> bindT (adoptRecording (rc_protocol rc) info nowUs) (\<lambda>_. returnT ())))"

definition commit_rotation :: "recorder \<Rightarrow> string \<Rightarrow> int \<Rightarrow> (storage, unit) task" where
  "commit_rotation rc i nowUs =
     bindT getT (\<lambda>st.
     thenT (if st_active st = None then returnT ()
            else thenT (seal_volume nowUs) (with_active (\<lambda>rv. indexSealed rc (rv_info rv) nowUs)))
       (commitRotation (rc_protocol rc) i))"

definition open_previous :: "recorder \<Rightarrow> RecordSessionState \<Rightarrow> (storage, unit) task" where
  "open_previous rc s =
     (if ss_activeIdentity s \<noteq> [] then
        bindT getT (\<lambda>st.
        thenT (if map_option (\<lambda>rv. vi_identity (rv_info rv)) (st_active st) = Some (ss_activeIdentity s) then returnT ()
               else bindT (reopen_volume (rc_protocol rc) (ss_activeIdentity s)) (\<lambda>rv. set_active (Some rv)))
          (with_active (\<lambda>rv.
             rejectT (vi_lastId (rv_info rv) \<noteq> ss_pendingFirstId s - 1)
               (RuntimeError ''pending rotation no longer matches active record boundary''))))
      else
        rejectT (ss_pendingFirstId s - 1 \<noteq> ss_lastCommittedId s)
          (RuntimeError ''initial volume differs from committed session boundary''))"

definition open_next :: "recorder \<Rightarrow> RecordSessionState \<Rightarrow> (storage, RecordVolume) task" where
  "open_next rc s =
     bindT getT (\<lambda>st.
     bindT (if db_of st (ss_pendingIdentity s) \<noteq> None then reopen_volume (rc_protocol rc) (ss_pendingIdentity s)
            else create_volume (rc_protocol rc) (st_schemas st) (ss_pendingFirstId s) (ss_pendingOpenedUs s) []
              (ss_pendingIdentity s)) (\<lambda>rv.
       let info = rv_info rv in
       thenT (rejectT (vi_sealed info \<or> vi_records info \<noteq> 0 \<or> vi_lastId info \<noteq> ss_pendingFirstId s - 1 \<or>
             vi_openedAtUs info \<noteq> ss_pendingOpenedUs s)
           (RuntimeError ''pending rotation target is not an unpublished prepared volume''))
         (returnT rv)))"

definition finishPending :: "recorder \<Rightarrow> int \<Rightarrow> bool \<Rightarrow> (storage, unit) task" where
  "finishPending rc nowUs queries =
     bindT getT (\<lambda>st.
       let s = st_session st in
       thenT (rejectT (ss_pendingIdentity s = []) (LogicError ''no pending record rotation''))
      (thenT (open_previous rc s)
      (bindT (open_next rc s) (\<lambda>rv.
       bindT getT (\<lambda>st.
       thenT (if queries \<and> st_queries st \<noteq> None
              then switchActive rc (ss_pendingIdentity s) (commit_rotation rc (ss_pendingIdentity s) nowUs)
              else commit_rotation rc (ss_pendingIdentity s) nowUs)
         (set_active (Some rv)))))))"

text \<open>\<open>fresh\<close> is the identity \<open>newIdentity\<close> draws.\<close>

definition coordinator_rotate :: "recorder \<Rightarrow> int \<Rightarrow> bool \<Rightarrow> string \<Rightarrow> (storage, unit) task" where
  "coordinator_rotate rc nowUs queries fresh =
     bindT getT (\<lambda>st.
       if ss_pendingIdentity (st_session st) \<noteq> [] then finishPending rc nowUs queries
       else
         thenT (synchronize rc)
        (bindT getT (\<lambda>st.
           let last' = ss_lastCommittedId (st_session st) in
           thenT (rejectT (last' = int64_max) (OverflowError ''live record ID space exhausted''))
          (thenT (prepareRotation (rc_protocol rc) fresh (last' + 1) nowUs)
             (finishPending rc nowUs queries)))))"

section \<open>The coordinator\<close>

text \<open>The declared schemas with their ids in the catalogue.\<close>

fun local_schemas :: "Schema list \<Rightarrow> string list \<Rightarrow> nat \<Rightarrow> exn + schema_map" where
  "local_schemas [] names k = Inr []"
| "local_schemas (schema # ss) names k =
     bindE (validateSchema schema) (\<lambda>_.
     bindE (rejectE (sch_dataset schema \<in> set names) (InvalidArgument ''duplicate recording dataset'')) (\<lambda>_.
     bindE (local_schemas ss (sch_dataset schema # names) (Suc k)) (\<lambda>m. Inr ((of_nat k, schema) # m))))"

fun global_schemas :: "(u64 \<times> nat) list \<Rightarrow> schema_map \<Rightarrow> schema_map \<Rightarrow> exn + schema_map" where
  "global_schemas ids [] m = Inr m"
| "global_schemas ids ((k, schema) # ss) m =
     (case map_of ids k of
        None \<Rightarrow> Inl OutOfRange
      | Some g \<Rightarrow>
          global_schemas ids ss (case map_emplace (of_nat g) schema m of Some m' \<Rightarrow> m' | None \<Rightarrow> m))"

definition coordinator_schemas :: "Schema list \<Rightarrow> (storage, unit) task" where
  "coordinator_schemas schemas =
     bindT (liftT (local_schemas schemas [] 1)) (\<lambda>locals.
     bindT (registerSchemas locals) (\<lambda>ids.
     bindT (liftT (global_schemas ids locals [])) (\<lambda>globals.
       updateT (\<lambda>st. st\<lparr>st_schemas := globals,
         st_schemaIds := map (\<lambda>(k, schema). (sch_dataset schema, of_nat (case map_of ids k of Some g \<Rightarrow> g | None \<Rightarrow> 0)))
           locals\<rparr>))))"

text \<open>The identities a start may draw, in the order they are used.\<close>

definition new_Coordinator :: "recorder \<Rightarrow> Schema list \<Rightarrow> int \<Rightarrow> bool \<Rightarrow> (nat \<Rightarrow> string) \<Rightarrow> (storage, unit) task" where
  "new_Coordinator rc schemas nowUs resumeRecording fresh =
     thenT (set_active None)
    (thenT (coordinator_schemas schemas)
    (bindT (migrateLegacyRecords (rc_volumeBytes rc) (rc_protocol rc) nowUs (fresh 0)) (\<lambda>_.
     bindT getT (\<lambda>st.
       let pending = (ss_pendingIdentity (st_session st) \<noteq> []); existing = (ss_activeIdentity (st_session st) \<noteq> []) in
       thenT (if pending then finishPending rc nowUs False
              else if existing then
                bindT (reopen_volume (rc_protocol rc) (ss_activeIdentity (st_session st))) (\<lambda>rv. set_active (Some rv))
              else coordinator_rotate rc nowUs False (fresh 1))
      (thenT (synchronize rc)
        (with_active (\<lambda>rv. bindT getT (\<lambda>st.
           if vi_sealed (rv_info rv) \<or> rv_schemas rv \<noteq> st_schemas st \<or> (resumeRecording \<and> existing \<and> \<not> pending)
           then coordinator_rotate rc nowUs False (fresh 2) else returnT ()))))))))"

definition coordinator_append :: "recorder \<Rightarrow> Record list \<Rightarrow> int \<Rightarrow> nat \<Rightarrow> string \<Rightarrow> (storage, unit) task" where
  "coordinator_append rc records nowUs maxBytes' fresh =
     bindT (rotation_due (rc_diskBytes rc) nowUs maxBytes') (\<lambda>due.
     thenT (if due then coordinator_rotate rc nowUs True fresh else returnT ())
    (with_active (\<lambda>rv. bindT getT (\<lambda>st.
     thenT (rejectT (vi_sealed (rv_info rv) \<or> ss_pendingIdentity (st_session st) \<noteq> [])
         (RuntimeError ''record volume rotation requires recovery''))
    (thenT (rejectT (int64_max - vi_lastId (rv_info rv) < int (length records))
         (OverflowError ''live record ID space exhausted''))
    (thenT (reserveLiveThrough (vi_lastId (rv_info rv) + int (length records)))
       (append_volume records int64_max)))))))"

section \<open>The store\<close>

definition openVolumes :: "recorder \<Rightarrow> Schema list \<Rightarrow> int \<Rightarrow> bool \<Rightarrow> (nat \<Rightarrow> string) \<Rightarrow> (storage, unit) task" where
  "openVolumes rc schemas nowUs recover fresh =
     bindT getT (\<lambda>st.
     thenT (new_Coordinator rc schemas nowUs (recover \<and> ss_recording (st_session st)) fresh)
       (with_active (\<lambda>rv. bindT getT (\<lambda>st.
          let i = vi_identity (rv_info rv) in
          case st_queries st of
            None \<Rightarrow> new_RecordQueryService rc i
          | Some qs \<Rightarrow> if qs_active qs = i then returnT () else switchActive rc i (returnT ())))))"

text \<open>A new process: nothing is left in memory.\<close>

definition new_process :: "storage \<Rightarrow> storage" where
  "new_process st = st\<lparr>st_session := new_session_state, st_active := None, st_queries := None, st_schemas := [],
     st_schemaIds := []\<rparr>"

definition open_store :: "recorder \<Rightarrow> Schema list \<Rightarrow> int \<Rightarrow> (nat \<Rightarrow> string) \<Rightarrow> (storage, unit) task" where
  "open_store rc schemas nowUs fresh =
     thenT (updateT new_process)
    (thenT (new_VolumeCatalog (rc_volumeBytes rc) (rc_protocol rc))
    (thenT (new_RecordSession (rc_protocol rc))
    (thenT (openVolumes rc schemas nowUs True fresh)
    (bindT getT (\<lambda>st.
     thenT (beginRun (rc_protocol rc))
       (if ss_recording (st_session st) then session_start (rc_protocol rc) else returnT ()))))))"

text \<open>A batch of the write loop: the records are appended, and then the position is stored. Where storing it
  throws, the exception is caught; the batch is on disk all the same.\<close>

definition ignore_error :: "(storage, unit) task \<Rightarrow> (storage, unit) task" where
  "ignore_error m st = (Inr (), snd (m st))"

definition store_position :: "recorder \<Rightarrow> Record list \<Rightarrow> (storage, unit) task" where
  "store_position rc records =
     (if records = [] then returnT ()
      else ignore_error (with_active (\<lambda>rv. committed (rc_protocol rc) (vi_lastId (rv_info rv))
        (case vi_lastReceivedTimeUs (rv_info rv) of Some t \<Rightarrow> t | None \<Rightarrow> 0))))"

definition publish_batch :: "recorder \<Rightarrow> Record list \<Rightarrow> int \<Rightarrow> nat \<Rightarrow> string \<Rightarrow> (storage, unit) task" where
  "publish_batch rc records nowUs maxVolumeBytes fresh =
     thenT (coordinator_append rc records nowUs maxVolumeBytes fresh) (store_position rc records)"

end
