(* ===== verification/Recording_Log.thy ===== *)
theory Recording_Log
  imports Record_Coordinator
begin

text \<open>
  The recording as one append-only log. \<open>recording\<close> says how the session, the index and the volumes on disk
  hold the rows of a log, \<open>recorder_at\<close> adds that the open handle is what a new process would read of its
  volume. Every task of the coordinator keeps them with the log it has, or with the whole batch appended,
  also where a step fails.
\<close>

section \<open>The invariant\<close>

text \<open>The volumes of the index, sealed, with \<open>vs\<close> what they hold.\<close>

definition row_holds :: "string \<Rightarrow> (string \<Rightarrow> VolumeDir option) \<Rightarrow> VolumeRow \<Rightarrow> vol \<Rightarrow> bool" where
  "row_holds protocol dirs row v \<longleftrightarrow>
     volume_at protocol v (dirs (vr_identity row)) \<and> vo_identity v = vr_identity row \<and> vo_sealed v"

definition indexed :: "Index \<Rightarrow> string set" where
  "indexed ix = vr_identity ` set (ix_volumes ix)"

definition logged :: "vol list \<Rightarrow> StoredRow list" where
  "logged vs = concat (map vo_rows vs)"

definition session_on_disk :: "string \<Rightarrow> Index \<Rightarrow> RecordSessionState \<Rightarrow> bool" where
  "session_on_disk protocol ix s \<longleftrightarrow>
     state_valid s \<and> state_typed s \<and> checkCatalog protocol ix = Inr () \<and>
     (case ix_session ix of None \<Rightarrow> s = new_session_state | Some bs \<Rightarrow> decode_session bs = Inr s)"

text \<open>No migration and no removal of a volume is under way.\<close>

definition quiet :: "Index \<Rightarrow> bool" where
  "quiet ix \<longleftrightarrow> ix_metadata ix ''legacy_migration'' = None \<and> ix_metadata ix ''legacy_migrated'' = None \<and>
     (\<forall>i. ix_metadata ix (retiring_key i) = None)"

definition active_holds ::
    "string \<Rightarrow> (string \<Rightarrow> VolumeDir option) \<Rightarrow> Index \<Rightarrow> RecordSessionState \<Rightarrow> StoredRow list \<Rightarrow> vol list \<Rightarrow> vol \<Rightarrow> bool" where
  "active_holds protocol dirs ix s L vs v \<longleftrightarrow>
     volume_at protocol v (dirs (ss_activeIdentity s)) \<and> vo_identity v = ss_activeIdentity s \<and>
     vol_last v = int (length L) \<and> ss_lastCommittedId s \<le> vol_last v \<and>
     (if ss_activeIdentity s \<in> indexed ix then vo_sealed v \<and> L = logged vs else L = logged vs @ vo_rows v)"

definition log_held ::
    "string \<Rightarrow> (string \<Rightarrow> VolumeDir option) \<Rightarrow> Index \<Rightarrow> RecordSessionState \<Rightarrow> StoredRow list \<Rightarrow> vol list \<Rightarrow> bool" where
  "log_held protocol dirs ix s L vs \<longleftrightarrow>
     list_all2 (row_holds protocol dirs) (ix_volumes ix) vs \<and>
     (if ss_activeIdentity s = [] then ix_volumes ix = [] \<and> L = [] \<and> ss_lastCommittedId s = 0
      else \<exists>v. active_holds protocol dirs ix s L vs v)"

definition recording :: "string \<Rightarrow> storage \<Rightarrow> RecordSessionState \<Rightarrow> StoredRow list \<Rightarrow> bool" where
  "recording protocol st s L \<longleftrightarrow>
     session_on_disk protocol (st_index st) s \<and> quiet (st_index st) \<and> st_legacy st = None \<and>
     map sr_id L = ids_from 1 (length L) \<and>
     (\<exists>vs. log_held protocol (st_dirs st) (st_index st) s L vs)"

definition handle_ok :: "string \<Rightarrow> storage \<Rightarrow> bool" where
  "handle_ok protocol st \<longleftrightarrow>
     (\<forall>rv. st_active st = Some rv \<longrightarrow> ss_activeIdentity (st_session st) \<noteq> [] \<and>
        read_volume protocol (ss_activeIdentity (st_session st)) (st_dirs st (ss_activeIdentity (st_session st))) = Inr rv)"

definition recorder_at :: "string \<Rightarrow> StoredRow list \<Rightarrow> storage \<Rightarrow> bool" where
  "recorder_at protocol L st \<longleftrightarrow>
     recording protocol st (st_session st) L \<and> handle_ok protocol st \<and> map_wf (st_schemas st)"

section \<open>What the invariant depends on\<close>

lemma recording_faults [simp]:
  "recording protocol (st\<lparr>st_faults := f\<rparr>) s L = recording protocol st s L"
  "recording protocol (st\<lparr>st_active := rv\<rparr>) s L = recording protocol st s L"
  "recording protocol (st\<lparr>st_queries := q\<rparr>) s L = recording protocol st s L"
  "recording protocol (st\<lparr>st_session := s'\<rparr>) s L = recording protocol st s L"
  "recording protocol (st\<lparr>st_schemas := m\<rparr>) s L = recording protocol st s L"
  "recording protocol (st\<lparr>st_schemaIds := ids\<rparr>) s L = recording protocol st s L"
  by (simp_all add: recording_def)

lemma handle_ok_faults [simp]:
  "handle_ok protocol (st\<lparr>st_faults := f\<rparr>) = handle_ok protocol st"
  "handle_ok protocol (st\<lparr>st_queries := q\<rparr>) = handle_ok protocol st"
  "handle_ok protocol (st\<lparr>st_index := ix\<rparr>) = handle_ok protocol st"
  "handle_ok protocol (st\<lparr>st_schemas := m\<rparr>) = handle_ok protocol st"
  "handle_ok protocol (st\<lparr>st_schemaIds := ids\<rparr>) = handle_ok protocol st"
  by (simp_all add: handle_ok_def)

lemma recorder_at_faults [simp]:
  "recorder_at protocol L (st\<lparr>st_faults := f\<rparr>) = recorder_at protocol L st"
  "recorder_at protocol L (st\<lparr>st_queries := q\<rparr>) = recorder_at protocol L st"
  "recorder_at protocol L (st\<lparr>st_schemaIds := ids\<rparr>) = recorder_at protocol L st"
  by (simp_all add: recorder_at_def)

text \<open>A change of the index that leaves its volumes, its session and its identity.\<close>

lemma recording_index:
  assumes "recording protocol st s L" "ix_volumes ix = ix_volumes (st_index st)" "ix_session ix = ix_session (st_index st)"
    "checkCatalog protocol ix = Inr ()" "quiet ix"
  shows "recording protocol (st\<lparr>st_index := ix\<rparr>) s L"
proof -
  have "active_holds protocol dirs ix = active_holds protocol dirs (st_index st)" for dirs
    by (intro ext) (simp add: active_holds_def indexed_def assms(2))
  then have "log_held protocol dirs ix = log_held protocol dirs (st_index st)" for dirs
    by (intro ext) (simp add: log_held_def assms(2))
  moreover have "session_on_disk protocol ix s"
    using assms by (simp add: recording_def session_on_disk_def)
  ultimately show ?thesis using assms by (simp add: recording_def)
qed

text \<open>A directory that is neither active nor in the index.\<close>

lemma rows_held_dir:
  assumes "j \<notin> indexed ix"
  shows "list_all2 (row_holds protocol (dirs(j := d))) (ix_volumes ix) vs = list_all2 (row_holds protocol dirs) (ix_volumes ix) vs"
proof (rule list.rel_cong)
  fix row v assume "row \<in> set (ix_volumes ix)"
  then have "vr_identity row \<noteq> j" using assms by (auto simp: indexed_def)
  then show "row_holds protocol (dirs(j := d)) row v = row_holds protocol dirs row v" by (simp add: row_holds_def)
qed simp_all

lemma recording_dir:
  assumes "recording protocol st s L" "j \<noteq> ss_activeIdentity s" "j \<notin> indexed (st_index st)"
  shows "recording protocol (st\<lparr>st_dirs := (st_dirs st)(j := d)\<rparr>) s L"
proof -
  note rows_held_dir [OF assms(3)]
  moreover have "active_holds protocol ((st_dirs st)(j := d)) (st_index st) s L vs =
      active_holds protocol (st_dirs st) (st_index st) s L vs" for vs
    by (rule ext) (use assms(2) in \<open>simp add: active_holds_def\<close>)
  ultimately have "log_held protocol ((st_dirs st)(j := d)) (st_index st) s L vs =
      log_held protocol (st_dirs st) (st_index st) s L vs" for vs
    by (simp add: log_held_def)
  then show ?thesis using assms(1) by (simp add: recording_def)
qed

lemma handle_ok_dir:
  "handle_ok protocol st \<Longrightarrow> j \<noteq> ss_activeIdentity (st_session st) \<Longrightarrow>
   handle_ok protocol (st\<lparr>st_dirs := (st_dirs st)(j := d)\<rparr>)"
  by (simp add: handle_ok_def)

lemma recorder_at_dir:
  "recorder_at protocol L st \<Longrightarrow> j \<noteq> ss_activeIdentity (st_session st) \<Longrightarrow> j \<notin> indexed (st_index st) \<Longrightarrow>
   recorder_at protocol L (st\<lparr>st_dirs := (st_dirs st)(j := d)\<rparr>)"
  by (simp add: recorder_at_def recording_dir handle_ok_dir)

lemma indexed_dir:
  assumes "recording protocol st s L" "j \<in> indexed (st_index st)"
  obtains v where "volume_at protocol v (st_dirs st j)" "vo_identity v = j" "vo_sealed v"
proof -
  obtain vs where vs: "list_all2 (row_holds protocol (st_dirs st)) (ix_volumes (st_index st)) vs"
    using assms(1) by (auto simp: recording_def log_held_def)
  obtain row where row: "row \<in> set (ix_volumes (st_index st))" "j = vr_identity row"
    using assms(2) by (auto simp: indexed_def)
  obtain k where "k < length (ix_volumes (st_index st))" "ix_volumes (st_index st) ! k = row"
    using row(1) by (metis in_set_conv_nth)
  then have "row_holds protocol (st_dirs st) row (vs ! k)" using list_all2_nthD [OF vs] by metis
  then show thesis using that [of "vs ! k"] row(2) by (simp add: row_holds_def)
qed

lemma recording_active:
  assumes "recording protocol st s L" "ss_activeIdentity s \<noteq> []"
  obtains vs v where "list_all2 (row_holds protocol (st_dirs st)) (ix_volumes (st_index st)) vs"
    "active_holds protocol (st_dirs st) (st_index st) s L vs v"
  using assms by (auto simp: recording_def log_held_def)

text \<open>A directory that does not exist yet is neither active nor in the index.\<close>

lemma missing_dir_free:
  assumes "recording protocol st s L" "st_dirs st j = None"
  shows "j \<notin> indexed (st_index st)" "j \<noteq> [] \<Longrightarrow> j \<noteq> ss_activeIdentity s"
proof -
  have n: "\<not> volume_at protocol v None" for v by (simp add: volume_at_def check_owner_file_def)
  show "j \<notin> indexed (st_index st)" using indexed_dir [OF assms(1)] assms(2) n by metis
  show "j \<noteq> [] \<Longrightarrow> j \<noteq> ss_activeIdentity s"
    using recording_active [OF assms(1)] assms(2) n by (metis active_holds_def)
qed

text \<open>The active handle and the volume it stands for.\<close>

lemma recorder_handle:
  assumes "recorder_at protocol L st" "st_active st = Some rv"
  obtains vs v where "list_all2 (row_holds protocol (st_dirs st)) (ix_volumes (st_index st)) vs"
    "active_holds protocol (st_dirs st) (st_index st) (st_session st) L vs v"
    "rv = volume_handle protocol v" "ss_activeIdentity (st_session st) \<noteq> []"
proof -
  let ?a = "ss_activeIdentity (st_session st)"
  have a: "?a \<noteq> []" "read_volume protocol ?a (st_dirs st ?a) = Inr rv"
    using assms by (simp_all add: recorder_at_def handle_ok_def)
  have "recording protocol st (st_session st) L" using assms(1) by (simp add: recorder_at_def)
  from recording_active [OF this a(1)] obtain vs v
    where v: "list_all2 (row_holds protocol (st_dirs st)) (ix_volumes (st_index st)) vs"
      "active_holds protocol (st_dirs st) (st_index st) (st_session st) L vs v" .
  then have "rv = volume_handle protocol v"
    using a(2) read_volume_at [of protocol v] by (simp add: active_holds_def)
  then show thesis using that v a(1) by blast
qed

section \<open>The session\<close>

definition with_session :: "RecordSessionState \<Rightarrow> bool list \<Rightarrow> storage \<Rightarrow> storage" where
  "with_session s f st =
     st\<lparr>st_faults := f, st_index := (st_index st)\<lparr>ix_session := Some (value_bytes (session_value s))\<rparr>, st_session := s\<rparr>"

lemma session_saved_recording: "recording protocol st (st_session st) L \<Longrightarrow> session_saved protocol st"
  by (auto simp: recording_def session_on_disk_def session_saved_def)

lemma save_session_triple:
  assumes "\<And>st. P st \<Longrightarrow> recorder_at protocol L st \<and> state_typed s"
    and "\<And>st f. P st \<Longrightarrow> state_valid s \<Longrightarrow> Q () (with_session s f st)"
  shows "triple P (save_session protocol s) Q (recorder_at protocol L)"
proof (rule tripleI)
  fix st r st' assume st: "P st" "save_session protocol s st = (r, st')"
  have at: "recorder_at protocol L st" "state_typed s" using assms(1) [OF st(1)] by simp_all
  then have "session_saved protocol st" by (auto simp: recorder_at_def intro: session_saved_recording)
  from this at(2) show "case r of Inl e \<Rightarrow> recorder_at protocol L st' | Inr x \<Rightarrow> Q x st'"
  proof (cases rule: save_session_cases)
    case (1 e f)
    then show ?thesis using st(2) at(1) by auto
  next
    case (2 f)
    then have "r = Inr ()" "st' = with_session s f st" using st(2) by (simp_all add: with_session_def)
    then show ?thesis using assms(2) [OF st(1) 2(1)] by simp
  qed
qed

text \<open>A session that differs only in what the log does not depend on.\<close>

definition same_recording :: "RecordSessionState \<Rightarrow> RecordSessionState \<Rightarrow> bool" where
  "same_recording s s' \<longleftrightarrow> ss_activeIdentity s' = ss_activeIdentity s \<and> ss_lastCommittedId s' = ss_lastCommittedId s"

lemma session_on_disk_saved:
  assumes "session_on_disk protocol ix s0" "state_valid s" "state_typed s"
  shows "session_on_disk protocol (ix\<lparr>ix_session := Some (value_bytes (session_value s))\<rparr>) s"
  using assms decode_encode_session [of s] by (simp add: session_on_disk_def encode_session_iff)

lemma log_held_session:
  "log_held protocol dirs (ix\<lparr>ix_session := x\<rparr>) s L vs = log_held protocol dirs ix s L vs"
proof -
  have "active_holds protocol dirs (ix\<lparr>ix_session := x\<rparr>) s L vs = active_holds protocol dirs ix s L vs"
    by (intro ext) (simp add: active_holds_def indexed_def)
  then show ?thesis by (simp add: log_held_def)
qed

lemma quiet_session [simp]: "quiet (ix\<lparr>ix_session := x\<rparr>) = quiet ix"
  by (simp add: quiet_def)

lemma recording_with_session:
  assumes "recording protocol st s0 L" "state_valid s" "state_typed s"
    and "\<And>vs. log_held protocol (st_dirs st) (st_index st) s0 L vs \<Longrightarrow>
      \<exists>vs'. log_held protocol (st_dirs st) (st_index st) s L vs'"
  shows "recording protocol (with_session s f st) s L"
proof -
  obtain vs where vs: "log_held protocol (st_dirs st) (st_index st) s0 L vs" using assms(1) by (auto simp: recording_def)
  then obtain vs' where "log_held protocol (st_dirs st) (st_index st) s L vs'" using assms(4) by blast
  then show ?thesis
    using assms(1) session_on_disk_saved [OF _ assms(2,3)]
    by (auto simp: recording_def with_session_def log_held_session)
qed

lemma log_held_same:
  "same_recording s s' \<Longrightarrow> log_held protocol dirs ix s L vs \<Longrightarrow> log_held protocol dirs ix s' L vs"
  unfolding log_held_def active_holds_def same_recording_def by simp

lemma recorder_at_same_session:
  assumes "recorder_at protocol L st" "state_valid s" "state_typed s" "same_recording (st_session st) s"
  shows "recorder_at protocol L (with_session s f st)"
proof -
  have "recording protocol (with_session s f st) s L"
  proof (rule recording_with_session [OF _ assms(2,3)])
    show "recording protocol st (st_session st) L" using assms(1) by (simp add: recorder_at_def)
  qed (use log_held_same [OF assms(4)] in blast)
  moreover have "handle_ok protocol (with_session s f st)"
    using assms(1,4) by (simp add: recorder_at_def handle_ok_def with_session_def same_recording_def)
  moreover have "st_session (with_session s f st) = s" "st_schemas (with_session s f st) = st_schemas st"
    by (simp_all add: with_session_def)
  ultimately show ?thesis using assms(1) by (simp add: recorder_at_def)
qed

lemma recorder_session:
  assumes "recorder_at protocol L st"
  shows "state_valid (st_session st)" "state_typed (st_session st)"
  using assms by (auto simp: recorder_at_def recording_def session_on_disk_def)

section \<open>Operations of the session\<close>

text \<open>Storing a position that the active volume has reached.\<close>

lemma recorder_at_committed:
  assumes "recorder_at protocol L st" "st_active st = Some rv" "vi_lastId (rv_info rv) = i"
    and "s = (st_session st)\<lparr>ss_lastCommittedId := i, ss_lastCommittedTimeUs := Some t\<rparr>" "state_valid s" "state_typed s"
  shows "recorder_at protocol L (with_session s f st)"
proof -
  obtain vs v where v: "active_holds protocol (st_dirs st) (st_index st) (st_session st) L vs v"
    "rv = volume_handle protocol v" "ss_activeIdentity (st_session st) \<noteq> []"
    using recorder_handle [OF assms(1,2)] by blast
  have i: "i = int (length L)" using v assms(3) by (simp add: active_holds_def volume_handle_def)
  have "recording protocol (with_session s f st) s L"
  proof (rule recording_with_session [OF _ assms(5,6)])
    show "recording protocol st (st_session st) L" using assms(1) by (simp add: recorder_at_def)
    fix vs assume "log_held protocol (st_dirs st) (st_index st) (st_session st) L vs"
    moreover have "active_holds protocol (st_dirs st) (st_index st) s L vs w"
      if "active_holds protocol (st_dirs st) (st_index st) (st_session st) L vs w" for w
      using that i by (simp add: active_holds_def assms(4))
    ultimately have "log_held protocol (st_dirs st) (st_index st) s L vs"
      using v(3) by (auto simp: log_held_def assms(4))
    then show "\<exists>vs'. log_held protocol (st_dirs st) (st_index st) s L vs'" by blast
  qed
  moreover have "handle_ok protocol (with_session s f st)"
    using assms(1,4) by (simp add: recorder_at_def handle_ok_def with_session_def)
  ultimately show ?thesis using assms(1) by (simp add: recorder_at_def with_session_def)
qed

lemma committed_triple:
  assumes "is_int64 i" "is_int64 t"
  shows "triple (\<lambda>st. recorder_at protocol L st \<and> st_active st = Some rv \<and> vi_lastId (rv_info rv) = i)
     (committed protocol i t) (\<lambda>_ st. recorder_at protocol L st \<and> st_active st = Some rv)
     (recorder_at protocol L)"
  unfolding committed_def Let_def
proof (rule triple_getT, rule triple_check)
  fix st0 assume st: "recorder_at protocol L st0 \<and> st_active st0 = Some rv \<and> vi_lastId (rv_info rv) = i"
  show "\<And>st. st = st0 \<Longrightarrow> recorder_at protocol L st" using st by simp
  let ?s = "st_session st0\<lparr>ss_lastCommittedId := i, ss_lastCommittedTimeUs := Some t\<rparr>"
  have "state_typed ?s" using assms recorder_session(2) [of protocol L st0] st by (simp add: state_typed_def)
  then show "triple (\<lambda>t. t = st0) (save_session protocol ?s)
      (\<lambda>_ st. recorder_at protocol L st \<and> st_active st = Some rv) (recorder_at protocol L)"
    using st recorder_at_committed [of protocol L st0 rv i ?s t]
    by (intro save_session_triple) (auto simp: with_session_def)
qed

lemma prepareRotation_triple:
  assumes "is_int64 f" "is_int64 t"
  shows "triple (recorder_at protocol L) (prepareRotation protocol i f t)
     (\<lambda>_. recorder_at protocol L) (recorder_at protocol L)"
  unfolding prepareRotation_def Let_def
proof (rule triple_getT, rule triple_check)
  fix st0 assume st: "recorder_at protocol L st0"
  show "\<And>st. st = st0 \<Longrightarrow> recorder_at protocol L st" using st by simp
  let ?s = "st_session st0\<lparr>ss_pendingIdentity := i, ss_pendingFirstId := f, ss_pendingOpenedUs := t\<rparr>"
  have "state_typed ?s" using assms recorder_session(2) [OF st] by (simp add: state_typed_def)
  then show "triple (\<lambda>t. t = st0) (save_session protocol ?s) (\<lambda>_. recorder_at protocol L) (recorder_at protocol L)"
    using st recorder_at_same_session [of protocol L st0 ?s]
    by (intro save_session_triple) (auto simp: same_recording_def)
qed

lemma session_op_triple:
  assumes "op \<in> {BeginRun, CleanExit, Start, Stop} \<or> (\<exists>e from' to. op = Fault e from' to)" "op_typed op"
  shows "triple (recorder_at protocol L) (session_op protocol op) (\<lambda>_. recorder_at protocol L) (recorder_at protocol L)"
proof (rule tripleI)
  fix st r st' assume st: "recorder_at protocol L st" "session_op protocol op st = (r, st')"
  obtain e where op: "session_op protocol op st =
      (if op_rejects op (st_session st) then (Inl e, st) else save_session protocol (op_next op (st_session st)) st)"
    using session_op_eq by blast
  have same: "same_recording (st_session st) (op_next op (st_session st))"
    using assms(1) by (auto simp: same_recording_def Let_def)
  have "triple (\<lambda>t. t = st) (save_session protocol (op_next op (st_session st)))
      (\<lambda>_. recorder_at protocol L) (recorder_at protocol L)"
    using st(1) recorder_session [OF st(1)] recorder_at_same_session [OF st(1) _ _ same] op_next_typed [OF assms(2)]
    by (intro save_session_triple) auto
  note save = tripleD [OF this refl] tripleE [OF this refl]
  show "case r of Inl e \<Rightarrow> recorder_at protocol L st' | Inr x \<Rightarrow> recorder_at protocol L st'"
  proof (cases "op_rejects op (st_session st)")
    case False
    then have "save_session protocol (op_next op (st_session st)) st = (r, st')" using op st(2) by simp
    then show ?thesis using save by (cases r) simp_all
  qed (use op st in auto)
qed

section \<open>Tasks of the catalogue\<close>

lemma foldE_invariant:
  "foldE f xs s = Inr s' \<Longrightarrow> I s \<Longrightarrow> (\<And>x s s'. I s \<Longrightarrow> f x s = Inr s' \<Longrightarrow> I s') \<Longrightarrow> I s'"
  by (induction xs arbitrary: s) auto

lemma quiet_schemas [simp]: "quiet (ix\<lparr>ix_schemas := x\<rparr>) = quiet ix"
  by (simp add: quiet_def)

lemma retiring_key_simps [simp]:
  "retiring_key i \<noteq> ''record_high''" "retiring_key i \<noteq> ''record_allocated''"
  "retiring_key i \<noteq> ''protocol''" "retiring_key i \<noteq> ''import_next''"
  by (simp_all add: retiring_key_def)

lemma recording_catalog: "recording protocol st s L \<Longrightarrow> checkCatalog protocol (st_index st) = Inr () \<and> quiet (st_index st)"
  by (simp add: recording_def session_on_disk_def)

text \<open>An index with other schemas or other numbers.\<close>

definition same_index :: "Index \<Rightarrow> Index \<Rightarrow> bool" where
  "same_index ix ix' \<longleftrightarrow> ix_volumes ix' = ix_volumes ix \<and> ix_session ix' = ix_session ix \<and> ix_appId ix' = ix_appId ix \<and>
     ix_version ix' = ix_version ix \<and>
     (\<forall>k. k \<noteq> ''record_high'' \<and> k \<noteq> ''record_allocated'' \<longrightarrow> ix_metadata ix' k = ix_metadata ix k)"

lemma same_index_catalog:
  "same_index ix ix' \<Longrightarrow> checkCatalog protocol ix' = checkCatalog protocol ix"
  "same_index ix ix' \<Longrightarrow> quiet ix' = quiet ix" "same_index ix ix' \<Longrightarrow> indexed ix' = indexed ix"
  by (simp_all add: same_index_def checkCatalog_def quiet_def indexed_def)

lemma recorder_at_index:
  assumes "recorder_at protocol L st" "same_index (st_index st) ix"
  shows "recorder_at protocol L (st\<lparr>st_index := ix\<rparr>)"
  using assms recording_index [of protocol st "st_session st" L ix] same_index_catalog [OF assms(2)]
    recording_catalog [of protocol st "st_session st" L]
  by (simp add: recorder_at_def same_index_def)

text \<open>What a task that changes only the index leaves as it is.\<close>

definition index_change :: "storage \<Rightarrow> storage \<Rightarrow> bool" where
  "index_change st st' \<longleftrightarrow> (\<exists>f ix. st' = st\<lparr>st_faults := f, st_index := ix\<rparr> \<and> same_index (st_index st) ix)"

lemma same_index_refl [simp]: "same_index ix ix"
  by (simp add: same_index_def)

lemma index_change_faults: "index_change st (st\<lparr>st_faults := f\<rparr>)"
  unfolding index_change_def by (intro exI [of _ f] exI [of _ "st_index st"]) simp

lemma index_change_refl [simp]: "index_change st st"
  using index_change_faults [of st "st_faults st"] by simp

lemma index_change_at:
  assumes "index_change st st'" "recorder_at protocol L st"
  shows "recorder_at protocol L st'"
proof -
  obtain f ix where "st' = st\<lparr>st_faults := f, st_index := ix\<rparr>" "same_index (st_index st) ix"
    using assms(1) by (auto simp: index_change_def)
  then show ?thesis using recorder_at_index [of protocol L "st\<lparr>st_faults := f\<rparr>" ix] assms(2) by simp
qed

lemma index_change_same:
  "index_change st st' \<Longrightarrow> st_session st' = st_session st \<and> st_dirs st' = st_dirs st \<and> st_active st' = st_active st \<and>
     st_queries st' = st_queries st \<and> st_schemas st' = st_schemas st \<and> indexed (st_index st') = indexed (st_index st)"
  by (auto simp: index_change_def same_index_catalog(3))

lemma registerSchemas_triple:
  "triple (\<lambda>t. t = st) (registerSchemas locals) (\<lambda>_. index_change st) (index_change st)"
  unfolding registerSchemas_def split_beta
proof (rule triple_getT, rule triple_try, goal_cases)
  case (1 s t)
  then show ?case by simp
next
  case (2 s x)
  then have [simp]: "s = st" by simp
  have ch: "index_change st (st\<lparr>st_faults := f, st_index := (st_index st)\<lparr>ix_schemas := a\<rparr>\<rparr>)" for f a
    unfolding index_change_def
    by (intro exI [of _ f] exI [of _ "(st_index st)\<lparr>ix_schemas := a\<rparr>"]) (simp add: same_index_def)
  show ?case
    by (rule triple_thenT [OF triple_durable [where Q = "\<lambda>_. index_change st"] triple_returnT])
      (auto simp: ch index_change_faults)
qed

lemma set_metadata_change:
  "k = ''record_high'' \<or> k = ''record_allocated'' \<Longrightarrow> index_change st (set_metadata k v (st\<lparr>st_faults := f\<rparr>))"
  unfolding index_change_def set_metadata_def
  by (intro exI [of _ f] exI [of _ "(st_index st)\<lparr>ix_metadata := put_metadata k v (ix_metadata (st_index st))\<rparr>"])
    (auto simp: same_index_def put_metadata_def)

lemma reserveLiveThrough_triple:
  "triple (\<lambda>t. t = st) (reserveLiveThrough i) (\<lambda>_. index_change st) (index_change st)"
  unfolding reserveLiveThrough_def
  by (rule triple_check [OF _ triple_getT [OF triple_try [OF _ triple_check [OF _ triple_try [OF _ triple_durable]]]]])
    (auto simp: index_change_faults set_metadata_change)

lemma pinAll_reads: "snd (pinAll n protocol st) = st"
  by (simp add: pinAll_def bindT_def getT_def liftT_def split: sum.split)

lemma pinned_identities: "mapE (pin_volume protocol dirs) cvs = Inr vs \<Longrightarrow> map cv_identity vs = map cv_identity cvs"
proof (induction cvs arbitrary: vs)
  case (Cons v cvs)
  then obtain w ws where "pin_volume protocol dirs v = Inr w" "mapE (pin_volume protocol dirs) cvs = Inr ws" "vs = w # ws"
    by auto
  moreover from this(1) have "cv_identity w = cv_identity v" by (auto simp: pin_volume_def)
  ultimately show ?case using Cons.IH by simp
qed simp

lemma catalog_identities: "catalog_rows n ix rows b = Inr cvs \<Longrightarrow> map cv_identity cvs = map vr_identity rows"
  by (induction rows arbitrary: b cvs) (auto simp: catalog_volume_def Let_def)

text \<open>A volume that is found in the snapshot is in the index.\<close>

lemma pinAll_indexed:
  assumes "pinAll n protocol st = (Inr vs, st')" "v \<in> set vs"
  shows "st' = st \<and> cv_identity v \<in> indexed (st_index st)"
proof -
  let ?rows = "[row \<leftarrow> ix_volumes (st_index st). ix_metadata (st_index st) (retiring_key (vr_id row)) = None]"
  let ?m = "bindE (catalog_volumes n (st_index st)) (mapE (pin_volume protocol (st_dirs st)))"
  have "pinAll n protocol st = liftT ?m st" by (simp add: pinAll_def bindT_def getT_def)
  then have m: "?m = Inr vs" "st' = st" using assms(1) by (cases ?m; simp add: liftT_def)+
  then obtain cvs where c: "catalog_volumes n (st_index st) = Inr cvs" "mapE (pin_volume protocol (st_dirs st)) cvs = Inr vs"
    by (simp only: bindE_Inr_iff) blast
  have i: "map cv_identity cvs = map vr_identity ?rows"
    using c(1) unfolding catalog_volumes_def by (rule catalog_identities)
  have "map cv_identity vs = map cv_identity cvs"
    using c(2) by (rule pinned_identities)
  then have "set (map cv_identity vs) = set (map vr_identity ?rows)" by (simp only: i)
  moreover have "cv_identity v \<in> set (map cv_identity vs)" using assms(2) by simp
  ultimately have "cv_identity v \<in> set (map vr_identity ?rows)" by simp
  then show ?thesis using m(2) by (auto simp: indexed_def)
qed

section \<open>Adopting the sealed volume\<close>

lemma adopt_schemas_index:
  assumes "adopt_schemas v ds ix = Inr (ix', ids)"
  shows "ix_volumes ix' = ix_volumes ix \<and> ix_session ix' = ix_session ix \<and> ix_appId ix' = ix_appId ix \<and>
     ix_version ix' = ix_version ix \<and> ix_metadata ix' = ix_metadata ix"
proof -
  let ?I = "\<lambda>(jx, ids :: (u64 \<times> nat) list). ix_volumes jx = ix_volumes ix \<and> ix_session jx = ix_session ix \<and>
     ix_appId jx = ix_appId ix \<and> ix_version jx = ix_version ix \<and> ix_metadata jx = ix_metadata ix"
  have "?I (ix', ids)"
    using assms unfolding adopt_schemas_def by (rule foldE_invariant) (auto simp: Let_def)
  then show ?thesis by simp
qed

text \<open>The index after a volume was adopted: its row is the last one.\<close>

definition adopted :: "RecordVolumeInfo \<Rightarrow> Index \<Rightarrow> Index \<Rightarrow> bool" where
  "adopted info ix ix' \<longleftrightarrow> vi_identity info \<notin> indexed ix \<and>
     (\<exists>row. vr_identity row = vi_identity info \<and> ix_volumes ix' = ix_volumes ix @ [row]) \<and>
     ix_session ix' = ix_session ix \<and> ix_appId ix' = ix_appId ix \<and> ix_version ix' = ix_version ix \<and>
     (\<forall>k. k \<noteq> ''record_high'' \<longrightarrow> ix_metadata ix' k = ix_metadata ix k)"

lemma adopted_index_Inr:
  assumes "adopted_index ix legacy info t fd = Inr (ix', ids)"
  shows "adopted info ix ix'"
proof -
  obtain r u where r: "rejectE (\<exists>row \<in> set (ix_volumes ix). vr_identity row = vi_identity info) sqlite_error = Inr u"
    "adopt_schemas (ix_nextVolume ix) (snd fd)
      (ix\<lparr>ix_volumes := ix_volumes ix @ [new_row ix info t], ix_nextVolume := ix_nextVolume ix + 1\<rparr>) = Inr r"
    "\<exists>high. (fst r)\<lparr>ix_metadata := put_metadata ''record_high'' high (ix_metadata (fst r))\<rparr> = ix'"
    using assms unfolding adopted_index_def Let_def split_beta bindE_Inr_iff sum.inject prod.inject by blast
  have "vi_identity info \<notin> indexed ix" using r(1) by (auto simp: indexed_def)
  moreover obtain high where "(fst r)\<lparr>ix_metadata := put_metadata ''record_high'' high (ix_metadata (fst r))\<rparr> = ix'"
    using r(3) by blast
  ultimately have j: "vi_identity info \<notin> indexed ix"
    "adopt_schemas (ix_nextVolume ix) (snd fd)
      (ix\<lparr>ix_volumes := ix_volumes ix @ [new_row ix info t], ix_nextVolume := ix_nextVolume ix + 1\<rparr>) = Inr (fst r, snd r)"
    "ix' = (fst r)\<lparr>ix_metadata := put_metadata ''record_high'' high (ix_metadata (fst r))\<rparr>"
    using r(2) by simp_all
  from adopt_schemas_index [OF j(2)] j(1,3) show ?thesis
    by (auto simp: adopted_def put_metadata_def new_row_def)
qed

lemma adopted_catalog:
  assumes "adopted info ix ix'"
  shows "checkCatalog protocol ix' = checkCatalog protocol ix" "quiet ix' = quiet ix"
    "indexed ix' = insert (vi_identity info) (indexed ix)"
  using assms by (auto simp: adopted_def checkCatalog_def quiet_def indexed_def)

lemma recorder_at_adopted:
  assumes "recorder_at protocol L st" "st_active st = Some rv" "vi_sealed (rv_info rv)" "adopted (rv_info rv) (st_index st) ix"
  shows "recorder_at protocol L (st\<lparr>st_index := ix\<rparr>)"
proof -
  let ?s = "st_session st"
  obtain vs v where v: "list_all2 (row_holds protocol (st_dirs st)) (ix_volumes (st_index st)) vs"
    "active_holds protocol (st_dirs st) (st_index st) ?s L vs v"
    "rv = volume_handle protocol v" "ss_activeIdentity ?s \<noteq> []"
    using recorder_handle [OF assms(1,2)] by blast
  have i: "vi_identity (rv_info rv) = ss_activeIdentity ?s" and sealed: "vo_sealed v"
    using v(2,3) assms(3) by (simp_all add: active_holds_def volume_handle_def)
  obtain row where row: "vr_identity row = ss_activeIdentity ?s" "ix_volumes ix = ix_volumes (st_index st) @ [row]"
    and notin: "ss_activeIdentity ?s \<notin> indexed (st_index st)"
    using assms(4) i by (auto simp: adopted_def)
  have "row_holds protocol (st_dirs st) row v"
    using v(2) sealed by (simp add: row_holds_def row(1) active_holds_def)
  then have l2: "list_all2 (row_holds protocol (st_dirs st)) (ix_volumes ix) (vs @ [v])"
    using v(1) by (simp add: row(2) list_all2_appendI)
  have "L = logged (vs @ [v])" using v(2) notin by (simp add: active_holds_def logged_def)
  then have "active_holds protocol (st_dirs st) ix ?s L (vs @ [v]) v"
    using v(2) sealed adopted_catalog(3) [OF assms(4)] i by (simp add: active_holds_def)
  with l2 have held: "log_held protocol (st_dirs st) ix ?s L (vs @ [v])" using v(4) by (auto simp: log_held_def)
  have "session_on_disk protocol ix ?s"
    using assms(1,4) adopted_catalog(1) [OF assms(4)] by (simp add: recorder_at_def recording_def session_on_disk_def adopted_def)
  then show ?thesis
    using assms(1) held adopted_catalog(2) [OF assms(4)] by (auto simp: recorder_at_def recording_def)
qed

text \<open>What the switch from one volume to the next has established before the session is changed.\<close>

definition switching :: "string \<Rightarrow> StoredRow list \<Rightarrow> RecordSessionState \<Rightarrow> vol \<Rightarrow> storage \<Rightarrow> bool" where
  "switching protocol L s w st \<longleftrightarrow>
     recorder_at protocol L st \<and> st_session st = s \<and> int (length L) = ss_pendingFirstId s - 1 \<and>
     ss_pendingIdentity s \<noteq> [] \<and> (ss_activeIdentity s \<noteq> [] \<longrightarrow> st_active st \<noteq> None) \<and>
     volume_at protocol w (st_dirs st (ss_pendingIdentity s)) \<and> vo_identity w = ss_pendingIdentity s \<and>
     \<not> vo_sealed w \<and> vo_rows w = [] \<and> vol_last w = ss_pendingFirstId s - 1"

lemma switching_faults [simp]: "switching protocol L s w (st\<lparr>st_faults := f\<rparr>) = switching protocol L s w st"
  by (simp add: switching_def)

lemma switching_queries [simp]: "switching protocol L s w (st\<lparr>st_queries := q\<rparr>) = switching protocol L s w st"
  by (simp add: switching_def)

lemma switching_at: "switching protocol L s w st \<Longrightarrow> recorder_at protocol L st"
  by (simp add: switching_def)

lemma switching_index_change: "index_change st st' \<Longrightarrow> switching protocol L s w st \<Longrightarrow> switching protocol L s w st'"
  using index_change_at index_change_same unfolding switching_def by metis

lemma pending_not_active:
  assumes "recorder_at protocol L st" "ss_pendingIdentity (st_session st) \<noteq> []"
  shows "ss_pendingIdentity (st_session st) \<noteq> ss_activeIdentity (st_session st)"
  using recorder_session(1) [OF assms(1)] assms(2) by (auto simp: state_valid_def validate_state_def split: if_splits)

lemma adoptRecording_triple:
  assumes "st_active st = Some rv" "switching protocol L s w st" "vi_identity (rv_info rv) = ss_activeIdentity s"
  shows "triple (\<lambda>t. t = st) (adoptRecording protocol (rv_info rv) nowUs)
     (\<lambda>_ t. switching protocol L s w t \<and> ss_activeIdentity s \<in> indexed (st_index t)) (recorder_at protocol L)"
  unfolding adoptRecording_def split_beta
proof (rule triple_require, goal_cases)
  case (1 t)
  then show ?case using assms(2) by (simp add: switching_at)
next
  case 2
  then show ?case
  proof (rule_tac triple_check, goal_cases)
    case (1 t)
    then show ?case using assms(2) by (simp add: switching_at)
  next
    case 2
    then have sealed: "vi_sealed (rv_info rv)" by simp
    show ?case
    proof (rule triple_getT, rule triple_try, goal_cases)
      case (1 s0 t)
      then show ?case using assms(2) by (simp add: switching_at)
    next
      case (2 s0 fd)
      then have [simp]: "s0 = st" by simp
      show ?case
      proof (rule triple_try, goal_cases)
        case (1 t)
        then show ?case using assms(2) by (simp add: switching_at)
      next
        case (2 r)
        have a: "adopted (rv_info rv) (st_index st) (fst r)" using 2 adopted_index_Inr [of "st_index st" _ "rv_info rv" _ _ "fst r" "snd r"] by simp
        have "recorder_at protocol L (st\<lparr>st_index := fst r\<rparr>)"
          using recorder_at_adopted [OF _ assms(1) sealed a] assms(2) by (simp add: switching_at)
        then have "switching protocol L s w (st\<lparr>st_index := fst r\<rparr>)"
          using assms(2) by (simp add: switching_def)
        moreover have "st\<lparr>st_faults := f, st_index := fst r\<rparr> = st\<lparr>st_index := fst r\<rparr>\<lparr>st_faults := f\<rparr>" for f by simp
        ultimately have "switching protocol L s w (st\<lparr>st_faults := f, st_index := fst r\<rparr>)" for f
          by (simp only: switching_faults)
        moreover have "ss_activeIdentity s \<in> indexed (fst r)" using adopted_catalog(3) [OF a] assms(3) by simp
        ultimately show ?case
          using assms(2)
          by (intro triple_thenT [OF triple_durable [where Q = "\<lambda>_ t. switching protocol L s w t \<and>
              ss_activeIdentity s \<in> indexed (st_index t)"] triple_returnT]) (auto simp: switching_at)
      qed
    qed
  qed
qed

section \<open>Sealing the previous volume and changing the session\<close>

lemma update_db_dir:
  "update_db i f st = st\<lparr>st_dirs := (st_dirs st)(i := map_option (\<lambda>d. d\<lparr>vd_db := map_option f (vd_db d)\<rparr>) (st_dirs st i))\<rparr>"
  by (simp add: update_db_def)

lemma recorder_at_sealed:
  assumes "recorder_at protocol L st" "st_active st = Some rv" "\<not> vi_sealed (rv_info rv)"
    and "st' = (update_db (vi_identity (rv_info rv)) (seal_db t) st)\<lparr>st_active := Some (rv\<lparr>rv_info := (rv_info rv)\<lparr>vi_sealed := True\<rparr>\<rparr>)\<rparr>"
  shows "recorder_at protocol L st'"
proof -
  let ?s = "st_session st" and ?a = "ss_activeIdentity (st_session st)"
  obtain vs v where v: "list_all2 (row_holds protocol (st_dirs st)) (ix_volumes (st_index st)) vs"
    "active_holds protocol (st_dirs st) (st_index st) ?s L vs v"
    "rv = volume_handle protocol v" "?a \<noteq> []"
    using recorder_handle [OF assms(1,2)] by blast
  have i: "vi_identity (rv_info rv) = ?a" and a: "?a \<notin> indexed (st_index st)"
    using v(2,3) assms(3) by (auto simp: active_holds_def volume_handle_def split: if_splits)
  let ?d = "map_option (\<lambda>d. d\<lparr>vd_db := map_option (seal_db t) (vd_db d)\<rparr>) (st_dirs st ?a)"
  let ?v = "v\<lparr>vo_sealed := True\<rparr>"
  have "volume_at protocol v (st_dirs st ?a)" using v(2) by (simp add: active_holds_def)
  then have at: "volume_at protocol ?v ?d" by (rule volume_at_seal)
  have "list_all2 (row_holds protocol ((st_dirs st)(?a := ?d))) (ix_volumes (st_index st)) vs"
    using v(1) by (simp add: rows_held_dir [OF a])
  moreover have "active_holds protocol ((st_dirs st)(?a := ?d)) (st_index st) ?s L vs ?v"
    using v(2) a at unfolding active_holds_def by auto
  ultimately have "log_held protocol ((st_dirs st)(?a := ?d)) (st_index st) ?s L vs"
    using v(4) by (auto simp: log_held_def)
  moreover have "read_volume protocol ?a ?d = Inr (volume_handle protocol ?v)"
    using read_volume_at [OF at] v(2) by (simp add: active_holds_def)
  moreover have "st_session st' = ?s" "st_schemas st' = st_schemas st" "st_index st' = st_index st"
    "st_dirs st' = (st_dirs st)(?a := ?d)" "st_legacy st' = st_legacy st"
    "st_active st' = Some (volume_handle protocol ?v)"
    using i v(3) by (simp_all add: assms(4) update_db_dir volume_handle_seal)
  ultimately show ?thesis
    using assms(1) v(4) by (auto simp: recorder_at_def recording_def handle_ok_def)
qed

lemma switching_handle:
  assumes "switching protocol L s w st" "st_active st = Some rv"
  shows "vi_identity (rv_info rv) = ss_activeIdentity s" "ss_activeIdentity s \<noteq> []"
proof -
  have at: "recorder_at protocol L st" "st_session st = s" using assms(1) by (simp_all add: switching_def)
  obtain vs v where "active_holds protocol (st_dirs st) (st_index st) (st_session st) L vs v"
    "rv = volume_handle protocol v" "ss_activeIdentity (st_session st) \<noteq> []"
    using recorder_handle [OF at(1) assms(2)] by blast
  then show "vi_identity (rv_info rv) = ss_activeIdentity s" "ss_activeIdentity s \<noteq> []"
    by (simp_all add: at(2) active_holds_def volume_handle_def)
qed

lemma seal_volume_triple:
  assumes "switching protocol L s w st" "st_active st = Some rv"
  shows "triple (\<lambda>t. t = st) (seal_volume nowUs) (\<lambda>_. switching protocol L s w) (recorder_at protocol L)"
proof -
  have at: "recorder_at protocol L st" "st_session st = s" "ss_pendingIdentity s \<noteq> []" using assms(1) by (simp_all add: switching_def)
  have i: "vi_identity (rv_info rv) = ss_activeIdentity s"
    by (rule switching_handle(1) [OF assms])
  have ne: "ss_pendingIdentity s \<noteq> ss_activeIdentity s" using pending_not_active [OF at(1)] at(2,3) by simp
  show ?thesis
    unfolding seal_volume_def with_active_def Let_def
  proof (rule triple_getT, goal_cases)
    case (1 s0)
    then have [simp]: "s0 = st" by simp
    show ?case
      unfolding \<open>s0 = st\<close> assms(2) option.case
    proof (rule triple_check, goal_cases)
      case (1 t)
      then show ?case using at(1) by simp
    next
      case 2
      show ?case
      proof (rule triple_if, goal_cases)
        case 1
        then show ?case using assms(1) by (intro triple_returnT) simp
      next
        case 2
        let ?rv = "rv\<lparr>rv_info := (rv_info rv)\<lparr>vi_sealed := True\<rparr>\<rparr>"
        have "recorder_at protocol L ((update_db (vi_identity (rv_info rv)) (seal_db nowUs) st)\<lparr>st_active := Some ?rv\<rparr>)"
          by (rule recorder_at_sealed [OF at(1) assms(2) 2 refl])
        then have sw: "switching protocol L s w ((update_db (vi_identity (rv_info rv)) (seal_db nowUs) st)\<lparr>st_active := Some ?rv\<rparr>)"
          using assms(1) ne i by (simp add: switching_def update_db_dir)
        have eq: "(update_db i g (st\<lparr>st_faults := f\<rparr>))\<lparr>st_active := x\<rparr> = (update_db i g st)\<lparr>st_active := x\<rparr>\<lparr>st_faults := f\<rparr>" for i g f x
          by (simp add: update_db_def)
        show ?case
          unfolding set_active_def
        proof (rule triple_thenT [where R = "\<lambda>t. \<exists>f. t = update_db (vi_identity (rv_info rv)) (seal_db nowUs) (st\<lparr>st_faults := f\<rparr>)"],
            goal_cases)
          case 1
          then show ?case using at(1) by (intro triple_durable) auto
        next
          case 2
          show ?case
          proof (rule triple_thenT [where R = "switching protocol L s w"], goal_cases)
            case 1
            show ?case by (rule triple_updateT) (use sw in \<open>auto simp only: eq switching_faults\<close>)
          next
            case 2
            show ?case by (rule triple_durable) (simp_all add: switching_at)
          qed
        qed
      qed
    qed
  qed
qed

lemma indexSealed_triple:
  assumes "switching protocol L s w st" "st_active st = Some rv" "rc_protocol rc = protocol"
  shows "triple (\<lambda>t. t = st) (indexSealed rc (rv_info rv) nowUs)
     (\<lambda>_ t. switching protocol L s w t \<and> ss_activeIdentity s \<in> indexed (st_index t)) (recorder_at protocol L)"
  unfolding indexSealed_def assms(3)
proof (rule triple_check, goal_cases)
  case (1 t)
  then show ?case using assms(1) by (simp add: switching_at)
next
  case 2
  note i = switching_handle(1) [OF assms(1,2)]
  have pin: "triple (\<lambda>t. t = st) (pinAll n protocol) (\<lambda>vs t. t = st \<and> cv_identity ` set vs \<subseteq> indexed (st_index st)) (recorder_at protocol L)" for n
  proof (rule tripleI)
    fix t r t' assume t: "t = st" "pinAll n protocol t = (r, t')"
    then have "t' = st" using pinAll_reads [of n protocol st] by simp
    show "case r of Inl e \<Rightarrow> recorder_at protocol L t'
        | Inr vs \<Rightarrow> t' = st \<and> cv_identity ` set vs \<subseteq> indexed (st_index st)"
    proof (cases r)
      case (Inl e)
      then show ?thesis using \<open>t' = st\<close> switching_at [OF assms(1)] by simp
    next
      case (Inr vs)
      then have "pinAll n protocol st = (Inr vs, t')" using t by simp
      then have "\<forall>v \<in> set vs. cv_identity v \<in> indexed (st_index st)" using pinAll_indexed by blast
      then show ?thesis using Inr \<open>t' = st\<close> by (simp add: image_subset_iff)
    qed
  qed
  show ?case
  proof (rule triple_bindT [OF pin], goal_cases)
    case (1 vs)
    show ?case
    proof (cases "[v \<leftarrow> vs. cv_identity v = vi_identity (rv_info rv)]")
      case Nil
      have "triple (\<lambda>t. t = st \<and> cv_identity ` set vs \<subseteq> indexed (st_index st))
          (bindT (adoptRecording protocol (rv_info rv) nowUs) (\<lambda>_. returnT ()))
          (\<lambda>_ t. switching protocol L s w t \<and> ss_activeIdentity s \<in> indexed (st_index t)) (recorder_at protocol L)"
        by (rule triple_bindT [OF triple_weaken [OF adoptRecording_triple [OF assms(2,1) i, of nowUs]] triple_returnT]) auto
      then show ?thesis using Nil by simp
    next
      case (Cons v us)
      then have "v \<in> set [v \<leftarrow> vs. cv_identity v = vi_identity (rv_info rv)]" by simp
      then have "v \<in> set vs" "cv_identity v = ss_activeIdentity s" using i by simp_all
      then have "ss_activeIdentity s \<in> cv_identity ` set vs" by (metis imageI)
      then show ?thesis
        using assms(1) Cons by (auto intro!: triple_rejectT simp: switching_at)
    qed
  qed
qed

lemma recorder_at_switched:
  assumes "switching protocol L s w st" "ss_activeIdentity s = [] \<or> ss_activeIdentity s \<in> indexed (st_index st)"
    and "s' = s\<lparr>ss_activeIdentity := ss_pendingIdentity s, ss_pendingIdentity := [], ss_pendingFirstId := 0, ss_pendingOpenedUs := 0\<rparr>"
    and "state_valid s'" "state_typed s'"
  shows "recorder_at protocol L ((with_session s' f st)\<lparr>st_active := Some (volume_handle protocol w)\<rparr>)"
proof -
  have at: "recorder_at protocol L st" "st_session st = s" and len: "int (length L) = vol_last w"
    and w: "volume_at protocol w (st_dirs st (ss_pendingIdentity s))" "vo_identity w = ss_pendingIdentity s"
      "\<not> vo_sealed w" "vo_rows w = []" "ss_pendingIdentity s \<noteq> []"
    using assms(1) by (simp_all add: switching_def)
  have rec: "recording protocol st s L" using at by (simp add: recorder_at_def)
  have notin: "ss_pendingIdentity s \<notin> indexed (st_index st)"
    using indexed_dir [OF rec] volume_at_unique [OF w(1)] w(2,3) by metis
  have "recording protocol (with_session s' f st) s' L"
  proof (rule recording_with_session [OF rec assms(4,5)])
    fix vs assume vs: "log_held protocol (st_dirs st) (st_index st) s L vs"
    have l: "L = logged vs" "ss_lastCommittedId s \<le> vol_last w"
    proof -
      have "L = logged vs \<and> ss_lastCommittedId s \<le> int (length L)"
      proof (cases "ss_activeIdentity s = []")
        case True
        then show ?thesis using vs by (auto simp: log_held_def logged_def)
      next
        case False
        then obtain v where "active_holds protocol (st_dirs st) (st_index st) s L vs v" using vs by (auto simp: log_held_def)
        then show ?thesis using False assms(2) by (auto simp: active_holds_def)
      qed
      then show "L = logged vs" "ss_lastCommittedId s \<le> vol_last w" using len by simp_all
    qed
    then have "active_holds protocol (st_dirs st) (st_index st) s' L vs w"
      using w notin len by (simp add: active_holds_def assms(3))
    then show "\<exists>vs'. log_held protocol (st_dirs st) (st_index st) s' L vs'"
      using vs w(5) by (auto simp: log_held_def assms(3))
  qed
  moreover have "read_volume protocol (ss_pendingIdentity s) (st_dirs st (ss_pendingIdentity s)) = Inr (volume_handle protocol w)"
    using read_volume_at [OF w(1)] w(2) by simp
  ultimately show ?thesis
    using at(1) w(5) by (simp add: recorder_at_def handle_ok_def with_session_def assms(3))
qed

text \<open>The session has changed and the handle has not yet.\<close>

definition switched :: "string \<Rightarrow> StoredRow list \<Rightarrow> vol \<Rightarrow> storage \<Rightarrow> bool" where
  "switched protocol L w st \<longleftrightarrow> recorder_at protocol L (st\<lparr>st_active := Some (volume_handle protocol w)\<rparr>)"

lemma commitRotation_triple:
  "triple (\<lambda>t. switching protocol L s w t \<and> (ss_activeIdentity s = [] \<or> ss_activeIdentity s \<in> indexed (st_index t)))
     (commitRotation protocol (ss_pendingIdentity s)) (\<lambda>_. switched protocol L w) (recorder_at protocol L)"
  unfolding commitRotation_def Let_def
proof (rule triple_getT, rule triple_check)
  fix st assume st: "switching protocol L s w st \<and> (ss_activeIdentity s = [] \<or> ss_activeIdentity s \<in> indexed (st_index st))"
  then have at: "recorder_at protocol L st" "st_session st = s" by (simp_all add: switching_def)
  show "\<And>t. t = st \<Longrightarrow> recorder_at protocol L t" using at by simp
  let ?s = "s\<lparr>ss_activeIdentity := ss_pendingIdentity s, ss_pendingIdentity := [], ss_pendingFirstId := 0, ss_pendingOpenedUs := 0\<rparr>"
  have "state_typed ?s" using recorder_session(2) [OF at(1)] at(2) by (simp add: state_typed_def int64_defs)
  then show "triple (\<lambda>t. t = st) (save_session protocol (st_session st\<lparr>ss_activeIdentity := ss_pendingIdentity s,
        ss_pendingIdentity := [], ss_pendingFirstId := 0, ss_pendingOpenedUs := 0\<rparr>))
      (\<lambda>_. switched protocol L w) (recorder_at protocol L)"
    unfolding at(2) using at st recorder_at_switched [of protocol L s w st ?s]
    by (intro save_session_triple) (auto simp: switched_def)
qed

lemma commit_rotation_triple:
  assumes "rc_protocol rc = protocol"
  shows "triple (switching protocol L s w) (commit_rotation rc (ss_pendingIdentity s) nowUs)
     (\<lambda>_. switched protocol L w) (recorder_at protocol L)"
  unfolding commit_rotation_def
proof (rule triple_getT)
  fix st assume st: "switching protocol L s w st"
  let ?R = "\<lambda>t. switching protocol L s w t \<and> (ss_activeIdentity s = [] \<or> ss_activeIdentity s \<in> indexed (st_index t))"
  have index: "triple (switching protocol L s w) (with_active (\<lambda>rv. indexSealed rc (rv_info rv) nowUs)) (\<lambda>_. ?R) (recorder_at protocol L)"
    unfolding with_active_def
  proof (rule triple_getT)
    fix st assume st: "switching protocol L s w st"
    show "triple (\<lambda>t. t = st) (case st_active st of None \<Rightarrow> throwT (LogicError ''no active volume'')
        | Some rv \<Rightarrow> indexSealed rc (rv_info rv) nowUs) (\<lambda>_. ?R) (recorder_at protocol L)"
    proof (cases "st_active st")
      case None
      then show ?thesis using st by (auto intro: triple_throwT simp: switching_at)
    next
      case (Some rv)
      then show ?thesis using triple_weaken [OF indexSealed_triple [OF st Some assms, of nowUs]] by auto
    qed
  qed
  show "triple (\<lambda>t. t = st) (thenT (if st_active st = None then returnT ()
        else thenT (seal_volume nowUs) (with_active (\<lambda>rv. indexSealed rc (rv_info rv) nowUs)))
      (commitRotation (rc_protocol rc) (ss_pendingIdentity s))) (\<lambda>_. switched protocol L w) (recorder_at protocol L)"
    unfolding assms
  proof (rule triple_thenT [OF _ commitRotation_triple], rule triple_if)
    assume "st_active st = None"
    then show "triple (\<lambda>t. t = st) (returnT ()) (\<lambda>_. ?R) (recorder_at protocol L)"
      using st by (intro triple_returnT) (auto simp: switching_def)
  next
    assume "st_active st \<noteq> None"
    then obtain rv where "st_active st = Some rv" by auto
    then show "triple (\<lambda>t. t = st) (thenT (seal_volume nowUs) (with_active (\<lambda>rv. indexSealed rc (rv_info rv) nowUs)))
        (\<lambda>_. ?R) (recorder_at protocol L)"
      by (rule triple_thenT [OF seal_volume_triple [OF st] index])
  qed
qed

end
