(* ===== verification/Recording_Tasks.thy ===== *)
theory Recording_Tasks
  imports Recording_Log
begin

text \<open>
  The tasks of the coordinator and of the store keep the invariant of \<open>Recording_Log\<close>: a rotation with the
  log it has, a publication with the whole batch appended, or with the log unchanged where it throws.
\<close>

section \<open>The next volume\<close>

text \<open>What \<open>finishPending\<close> has checked of the previous volume.\<close>

definition bounded :: "string \<Rightarrow> StoredRow list \<Rightarrow> RecordSessionState \<Rightarrow> storage \<Rightarrow> bool" where
  "bounded protocol L s st \<longleftrightarrow>
     recorder_at protocol L st \<and> st_session st = s \<and> int (length L) = ss_pendingFirstId s - 1 \<and>
     ss_pendingIdentity s \<noteq> [] \<and> (ss_activeIdentity s \<noteq> [] \<longrightarrow> st_active st \<noteq> None)"

lemma bounded_at: "bounded protocol L s st \<Longrightarrow> recorder_at protocol L st"
  by (simp add: bounded_def)

lemma recorder_reopened:
  assumes "recorder_at protocol L st" "reopen_volume protocol (ss_activeIdentity (st_session st)) st = (Inr rv, st')"
    and "ss_activeIdentity (st_session st) \<noteq> []"
  shows "st' = st \<and> recorder_at protocol L (st\<lparr>st_active := Some rv\<rparr>)"
proof -
  let ?a = "ss_activeIdentity (st_session st)"
  have "read_volume protocol ?a (st_dirs st ?a) = Inr rv \<and> st' = st"
    using assms(2) by (cases "read_volume protocol ?a (st_dirs st ?a)")
      (simp_all add: reopen_volume_def bindT_def getT_def liftT_def)
  then show ?thesis using assms(1,3) by (simp add: recorder_at_def handle_ok_def)
qed

text \<open>Opening the active volume again.\<close>

definition reopened :: "string \<Rightarrow> StoredRow list \<Rightarrow> RecordSessionState \<Rightarrow> storage \<Rightarrow> bool" where
  "reopened protocol L s st \<longleftrightarrow> recorder_at protocol L st \<and> st_session st = s \<and> st_active st \<noteq> None"

lemma reopen_active_triple:
  "triple (\<lambda>st. recorder_at protocol L st \<and> st_session st = s \<and> ss_activeIdentity s \<noteq> [])
     (bindT (reopen_volume protocol (ss_activeIdentity s)) (\<lambda>rv. set_active (Some rv)))
     (\<lambda>_. reopened protocol L s) (recorder_at protocol L)"
proof (rule tripleI)
  fix st r st'
  assume st: "recorder_at protocol L st \<and> st_session st = s \<and> ss_activeIdentity s \<noteq> []"
    "bindT (reopen_volume protocol (ss_activeIdentity s)) (\<lambda>rv. set_active (Some rv)) st = (r, st')"
  obtain a t where a: "reopen_volume protocol (ss_activeIdentity s) st = (a, t)" by fastforce
  show "case r of Inl e \<Rightarrow> recorder_at protocol L st' | Inr x \<Rightarrow> reopened protocol L s st'"
  proof (cases a)
    case (Inl e)
    have "t = st" using a by (simp add: reopen_volume_def bindT_def getT_def liftT_def split: sum.splits)
    then show ?thesis using a Inl st by (auto simp: bindT_def)
  next
    case (Inr rv)
    then have "t = st \<and> recorder_at protocol L (st\<lparr>st_active := Some rv\<rparr>)" using recorder_reopened [of protocol L st rv t] a st by simp
    then show ?thesis using a Inr st by (auto simp: bindT_def set_active_def updateT_def reopened_def)
  qed
qed

lemma handle_last:
  assumes "recorder_at protocol L st" "st_active st = Some rv"
  shows "vi_lastId (rv_info rv) = int (length L)"
proof -
  obtain vs v where "active_holds protocol (st_dirs st) (st_index st) (st_session st) L vs v" "rv = volume_handle protocol v"
    using recorder_handle [OF assms] by blast
  then show ?thesis by (simp add: active_holds_def volume_handle_def)
qed

lemma no_active_volume:
  assumes "recorder_at protocol L st" "ss_activeIdentity (st_session st) = []"
  shows "L = []" "st_active st = None" "ss_lastCommittedId (st_session st) = 0" "ix_volumes (st_index st) = []"
proof -
  show "st_active st = None" using assms by (cases "st_active st") (auto simp: recorder_at_def handle_ok_def)
  show "L = []" "ss_lastCommittedId (st_session st) = 0" "ix_volumes (st_index st) = []"
    using assms by (auto simp: recorder_at_def recording_def log_held_def)
qed

lemma open_previous_triple:
  assumes "rc_protocol rc = protocol" "ss_pendingIdentity s \<noteq> []"
  shows "triple (\<lambda>st. recorder_at protocol L st \<and> st_session st = s) (open_previous rc s)
     (\<lambda>_. bounded protocol L s) (recorder_at protocol L)"
  unfolding open_previous_def assms(1)
proof (rule triple_if, goal_cases)
  case 1
  have check: "triple (reopened protocol L s) (with_active (\<lambda>rv.
      rejectT (vi_lastId (rv_info rv) \<noteq> ss_pendingFirstId s - 1)
        (RuntimeError ''pending rotation no longer matches active record boundary'')))
      (\<lambda>_. bounded protocol L s) (recorder_at protocol L)"
    unfolding with_active_def
  proof (rule triple_getT)
    fix st assume st: "reopened protocol L s st"
    then obtain rv where rv: "st_active st = Some rv" by (auto simp: reopened_def)
    then show "triple (\<lambda>t. t = st) (case st_active st of None \<Rightarrow> throwT (LogicError ''no active volume'')
        | Some rv \<Rightarrow> rejectT (vi_lastId (rv_info rv) \<noteq> ss_pendingFirstId s - 1)
            (RuntimeError ''pending rotation no longer matches active record boundary''))
        (\<lambda>_. bounded protocol L s) (recorder_at protocol L)"
      using st handle_last [of protocol L st rv] assms(2)
      by (auto intro!: triple_rejectT simp: reopened_def bounded_def)
  qed
  show ?case
  proof (rule triple_getT, rule triple_thenT [OF _ check], rule triple_if, goal_cases)
    case (1 st)
    then show ?case by (intro triple_returnT) (auto simp: reopened_def)
  next
    case (2 st)
    show ?case by (rule triple_weaken [OF reopen_active_triple]) (use 1 2 in auto)
  qed
next
  case 2
  then show ?case using no_active_volume [of protocol L] assms(2) by (intro triple_rejectT) (auto simp: bounded_def)
qed

text \<open>Creating it: the directory is a new one all along.\<close>

definition creating :: "string \<Rightarrow> StoredRow list \<Rightarrow> RecordSessionState \<Rightarrow> schema_map \<Rightarrow> storage \<Rightarrow> bool" where
  "creating protocol L s schemas st \<longleftrightarrow> bounded protocol L s st \<and> ss_pendingIdentity s \<notin> indexed (st_index st) \<and>
     st_schemas st = schemas"

lemma creating_put_dir:
  assumes "creating protocol L s schemas st"
  shows "creating protocol L s schemas (put_dir (ss_pendingIdentity s) d (st\<lparr>st_faults := f\<rparr>))"
proof -
  have b: "recorder_at protocol L st" "st_session st = s" "ss_pendingIdentity s \<noteq> []"
    using assms by (simp_all add: creating_def bounded_def)
  have "recorder_at protocol L ((st\<lparr>st_faults := f\<rparr>)\<lparr>st_dirs := (st_dirs st)(ss_pendingIdentity s := Some d)\<rparr>)"
    using recorder_at_dir [of protocol L "st\<lparr>st_faults := f\<rparr>" "ss_pendingIdentity s"] b pending_not_active [OF b(1)] assms
    by (simp add: creating_def)
  then show ?thesis using assms by (simp add: creating_def bounded_def put_dir_def)
qed

lemma creating_faults [simp]: "creating protocol L s schemas (st\<lparr>st_faults := f\<rparr>) = creating protocol L s schemas st"
  by (simp add: creating_def bounded_def)

lemma creating_at: "creating protocol L s schemas st \<Longrightarrow> recorder_at protocol L st"
  by (simp add: creating_def bounded_def)

lemma put_dir_triple:
  "triple (creating protocol L s schemas) (durable_or e (put_dir (ss_pendingIdentity s) d))
     (\<lambda>_. creating protocol L s schemas) (recorder_at protocol L)"
  by (rule triple_durable) (simp_all add: creating_at creating_put_dir)

lemma reserve_triple:
  "triple (\<lambda>st. bounded protocol L s st \<and> st_schemas st = schemas) (reserve_directory [ss_pendingIdentity s])
     (\<lambda>i st. i = ss_pendingIdentity s \<and> creating protocol L s schemas st) (recorder_at protocol L)"
  unfolding reserve_directory.simps
proof (rule triple_getT, rule triple_if, goal_cases)
  case (1 st)
  then have "creating protocol L s schemas st"
    using missing_dir_free(1) [of protocol st s L] by (auto simp: creating_def bounded_def recorder_at_def)
  then have "triple (\<lambda>t. t = st) (durable_or filesystem_error (put_dir (ss_pendingIdentity s) \<lparr>vd_owner = None, vd_db = None\<rparr>))
      (\<lambda>_. creating protocol L s schemas) (recorder_at protocol L)"
    by (intro triple_weaken [OF put_dir_triple]) auto
  then show ?case by (rule triple_thenT [OF _ triple_returnT]) simp
next
  case (2 st)
  then show ?case by (intro triple_throwT) (auto simp: bounded_def)
qed

text \<open>The new volume on disk.\<close>

definition prepared :: "string \<Rightarrow> StoredRow list \<Rightarrow> RecordSessionState \<Rightarrow> RecordVolume \<Rightarrow> storage \<Rightarrow> bool" where
  "prepared protocol L s rv st \<longleftrightarrow> (\<exists>w. rv = volume_handle protocol w \<and> switching protocol L s w st)"

lemma prepared_at: "prepared protocol L s rv st \<Longrightarrow> recorder_at protocol L st"
  by (auto simp: prepared_def switching_at)

lemma bounded_switching:
  assumes "bounded protocol L s st" "volume_at protocol w (st_dirs st (ss_pendingIdentity s))"
    and "vo_identity w = ss_pendingIdentity s" "\<not> vo_sealed w" "vo_rows w = []" "vol_last w = ss_pendingFirstId s - 1"
  shows "prepared protocol L s (volume_handle protocol w) st"
  using assms by (auto simp: bounded_def prepared_def switching_def)

lemma bounded_pending:
  assumes "bounded protocol L s st"
  shows "identity_ok (ss_pendingIdentity s)" "1 \<le> ss_pendingFirstId s" "0 \<le> ss_pendingOpenedUs s"
    "ss_pendingFirstId s \<le> int64_max" "ss_pendingOpenedUs s \<le> int64_max"
proof -
  have v: "state_valid s" "state_typed s" "ss_pendingIdentity s \<noteq> []"
    using recorder_session [of protocol L st] assms by (auto simp: bounded_def)
  then show "identity_ok (ss_pendingIdentity s)" "1 \<le> ss_pendingFirstId s" "0 \<le> ss_pendingOpenedUs s"
    by (auto simp: state_valid_def validate_state_def session_identity_iff split: if_splits)
  show "ss_pendingFirstId s \<le> int64_max" "ss_pendingOpenedUs s \<le> int64_max"
    using v(2) by (simp_all add: state_typed_def is_int64_def)
qed

lemma create_triple:
  assumes "map_wf schemas"
  shows "triple (\<lambda>st. bounded protocol L s st \<and> st_schemas st = schemas)
     (create_volume protocol schemas (ss_pendingFirstId s) (ss_pendingOpenedUs s) [] (ss_pendingIdentity s))
     (prepared protocol L s) (recorder_at protocol L)"
proof (rule triple_pre)
  fix st assume st: "bounded protocol L s st \<and> st_schemas st = schemas"
  note b = bounded_pending [of protocol L s st] and at = bounded_at [of protocol L s st]
  let ?i = "ss_pendingIdentity s" and ?f = "ss_pendingFirstId s" and ?t = "ss_pendingOpenedUs s"
  have ne: "?i \<noteq> []" using st by (simp add: bounded_def)
  have last: "triple (creating protocol L s schemas)
      (bindT (liftT (schema_rows schemas)) (\<lambda>rows.
        thenT (durable (put_dir ?i \<lparr>vd_owner = Some (volume_marker ?i), vd_db = Some (new_volume_db protocol ?i ?f ?t rows)\<rparr>))
          (returnT (new_volume_handle protocol ?i schemas ?f ?t))))
      (prepared protocol L s) (recorder_at protocol L)" if c: "schema_budget schemas = Inr k" for k
  proof (rule triple_try, goal_cases)
    case (1 st)
    then show ?case by (rule creating_at)
  next
    case (2 rows)
    let ?w = "new_vol ?i schemas ?f ?t" and ?d = "\<lparr>vd_owner = Some (volume_marker ?i), vd_db = Some (new_volume_db protocol ?i ?f ?t rows)\<rparr>"
    have w: "volume_at protocol ?w (Some ?d)"
      using st b by (intro new_volume_at [OF c 2 assms]) auto
    have "prepared protocol L s (new_volume_handle protocol ?i schemas ?f ?t) (put_dir ?i ?d (t\<lparr>st_faults := f\<rparr>))"
      if "creating protocol L s schemas t" for t f
      using creating_put_dir [OF that, of ?d f] w unfolding new_volume_handle
      by (intro bounded_switching) (auto simp: creating_def new_vol_def vol_last_def put_dir_def)
    then show ?case
      by (intro triple_thenT [OF triple_durable [where Q = "\<lambda>_. prepared protocol L s (new_volume_handle protocol ?i schemas ?f ?t)"]
            triple_returnT]) (auto simp: creating_at)
  qed
  show "triple (\<lambda>t. t = st) (create_volume protocol schemas ?f ?t [] ?i) (prepared protocol L s) (recorder_at protocol L)"
    unfolding create_volume_def
  proof (rule triple_check, goal_cases)
    case (1 t) then show ?case using st at by simp
  next
    case 2
    show ?case
    proof (rule triple_check, goal_cases)
      case (1 t) then show ?case using st at by simp
    next
      case 2
      show ?case
      proof (cases "schema_budget schemas")
        case (Inl e)
        then show ?thesis using st at by (simp add: triple_def thenT_def bindT_def liftT_def)
      next
        case (Inr k)
        have ok: "thenT (bindT (liftT (schema_budget schemas)) (\<lambda>_. returnT ())) m = m" for m :: "(storage, RecordVolume) task"
          by (rule ext) (simp add: Inr thenT_def bindT_def liftT_def returnT_def)
        have dir: "(if ?i = [] then take 8 [] else [?i]) = [?i]" using ne by simp
        show ?thesis
          unfolding ok dir
        proof (rule triple_bindT [where R = "\<lambda>i st. i = ?i \<and> creating protocol L s schemas st"], goal_cases)
          case 1
          show ?case by (rule triple_weaken [OF reserve_triple [of protocol L s schemas]]) (use st in auto)
        next
          case (2 i)
          show ?case
          proof (rule triple_fact)
            assume i: "i = ?i"
            show "triple (creating protocol L s schemas)
                (thenT (durable_or owner_error (put_dir i \<lparr>vd_owner = Some [], vd_db = None\<rparr>))
                (thenT (durable_or owner_error (put_dir i \<lparr>vd_owner = Some (volume_marker i), vd_db = None\<rparr>))
                (thenT (durable (put_dir i \<lparr>vd_owner = Some (volume_marker i), vd_db = Some empty_db\<rparr>))
                (bindT (liftT (schema_rows schemas)) (\<lambda>rows.
                  thenT (durable (put_dir i \<lparr>vd_owner = Some (volume_marker i),
                      vd_db = Some (new_volume_db protocol i ?f ?t rows)\<rparr>))
                    (returnT (new_volume_handle protocol i schemas ?f ?t)))))))
                (prepared protocol L s) (recorder_at protocol L)"
              unfolding i by (intro triple_thenT [OF put_dir_triple] last [OF Inr])
          qed
        qed
      qed
    qed
  qed
qed

lemma open_next_triple:
  assumes "rc_protocol rc = protocol"
  shows "triple (bounded protocol L s) (open_next rc s) (prepared protocol L s) (recorder_at protocol L)"
  unfolding open_next_def assms Let_def
proof (rule triple_getT)
  fix st assume st: "bounded protocol L s st"
  let ?i = "ss_pendingIdentity s"
  let ?bad = "\<lambda>rv. vi_sealed (rv_info rv) \<or> vi_records (rv_info rv) \<noteq> 0 \<or> vi_lastId (rv_info rv) \<noteq> ss_pendingFirstId s - 1 \<or>
    vi_openedAtUs (rv_info rv) \<noteq> ss_pendingOpenedUs s"
  let ?R = "\<lambda>rv t. recorder_at protocol L t \<and> (\<not> ?bad rv \<longrightarrow> prepared protocol L s rv t)"
  have wf: "map_wf (st_schemas st)" using bounded_at [OF st] by (simp add: recorder_at_def)
  show "triple (\<lambda>t. t = st) (bindT (if db_of st ?i \<noteq> None then reopen_volume protocol ?i
          else create_volume protocol (st_schemas st) (ss_pendingFirstId s) (ss_pendingOpenedUs s) [] ?i)
        (\<lambda>rv. thenT (rejectT (?bad rv) (RuntimeError ''pending rotation target is not an unpublished prepared volume''))
          (returnT rv))) (prepared protocol L s) (recorder_at protocol L)"
  proof (rule triple_bindT [where R = ?R], rule triple_if, goal_cases)
    case 1
    show ?case
    proof (rule tripleI)
      fix t r t' assume t: "t = st" "reopen_volume protocol ?i t = (r, t')"
      then have t': "t' = st" by (simp add: reopen_volume_def bindT_def getT_def liftT_def split: sum.splits)
      show "case r of Inl e \<Rightarrow> recorder_at protocol L t' | Inr rv \<Rightarrow> ?R rv t'"
      proof (cases r)
        case (Inl e)
        then show ?thesis using t' bounded_at [OF st] by simp
      next
        case (Inr rv)
        then have rv: "read_volume protocol ?i (st_dirs st ?i) = Inr rv"
          using t by (auto simp: reopen_volume_def bindT_def getT_def liftT_def split: sum.splits)
        have "prepared protocol L s rv st" if ok: "\<not> ?bad rv"
        proof -
          have "vi_records (rv_info rv) = 0" using ok by simp
          then obtain v where v: "volume_at protocol v (st_dirs st ?i)" "vo_identity v = ?i" "rv = volume_handle protocol v" "vo_rows v = []"
            using read_empty_volume [OF rv] by blast
          then show ?thesis using bounded_switching [OF st v(1,2)] ok by (simp add: volume_handle_def)
        qed
        then show ?thesis using Inr t' bounded_at [OF st] by simp
      qed
    qed
  next
    case 2
    show ?case by (rule triple_weaken [OF create_triple [OF wf]]) (use st prepared_at in auto)
  next
    case (3 rv)
    show ?case by (rule triple_check [OF _ triple_returnT]) auto
  qed
qed

section \<open>Finishing a rotation\<close>

lemma switched_active: "switched protocol L w st \<Longrightarrow> recorder_at protocol L (st\<lparr>st_active := Some (volume_handle protocol w)\<rparr>)"
  by (simp add: switched_def)

lemma switched_queries [simp]: "switched protocol L w (st\<lparr>st_queries := q\<rparr>) = switched protocol L w st"
  by (simp add: switched_def recorder_at_def handle_ok_def)

lemma switchActive_triple:
  assumes "\<And>st. P st \<Longrightarrow> recorder_at protocol L st" "\<And>st st'. P st \<Longrightarrow> index_change st st' \<Longrightarrow> P st'"
    and "triple P m (\<lambda>_. Q) (recorder_at protocol L)" "\<And>st q. Q st \<Longrightarrow> Q (st\<lparr>st_queries := q\<rparr>)"
  shows "triple P (switchActive rc i m) (\<lambda>_. Q) (recorder_at protocol L)"
  unfolding switchActive_def
proof (rule triple_getT, rule triple_try, goal_cases)
  case (1 st t)
  then show ?case using assms(1) by simp
next
  case (2 st schemas)
  have reg: "triple (\<lambda>t. t = st) (registerSchemas schemas) (\<lambda>_. P) (recorder_at protocol L)"
    by (rule triple_weaken [OF registerSchemas_triple]) (use 2 assms(1,2) in auto)
  show ?case
  proof (rule triple_bindT [OF reg], rule triple_check, goal_cases)
    case (1 ids t)
    then show ?case by (rule assms(1))
  next
    case (2 ids)
    show ?case
    proof (rule triple_require, goal_cases)
      case (1 t)
      then show ?case by (rule assms(1))
    next
      case 2
      show ?case by (rule triple_thenT [OF assms(3) triple_updateT]) (rule assms(4))
    qed
  qed
qed

lemma finishPending_triple:
  assumes "rc_protocol rc = protocol"
  shows "triple (recorder_at protocol L) (finishPending rc nowUs queries)
     (\<lambda>_ st. recorder_at protocol L st \<and> st_active st \<noteq> None) (recorder_at protocol L)"
  unfolding finishPending_def Let_def
proof (rule triple_getT, rule triple_check, goal_cases)
  case (1 st t)
  then show ?case by simp
next
  case (2 st)
  let ?s = "st_session st"
  have prev: "triple (\<lambda>t. t = st) (open_previous rc ?s) (\<lambda>_. bounded protocol L ?s) (recorder_at protocol L)"
    by (rule triple_weaken [OF open_previous_triple [OF assms 2(2)]]) (use 2 in auto)
  show ?case
  proof (rule triple_thenT [OF prev], rule triple_bindT [OF open_next_triple [OF assms]], goal_cases)
    case (1 rv)
    show ?case
      unfolding prepared_def
    proof (rule triple_ex, rule triple_fact, goal_cases)
      case (1 w)
      note commit = commit_rotation_triple [OF assms, of L ?s w nowUs]
      show ?case
      proof (rule triple_getT, goal_cases)
        case (1 t)
        have "triple (\<lambda>u. u = t) (if queries \<and> st_queries t \<noteq> None
              then switchActive rc (ss_pendingIdentity ?s) (commit_rotation rc (ss_pendingIdentity ?s) nowUs)
              else commit_rotation rc (ss_pendingIdentity ?s) nowUs)
            (\<lambda>_. switched protocol L w) (recorder_at protocol L)"
        proof (rule triple_if, goal_cases)
          case 1
          show ?case
            by (rule triple_weaken [OF switchActive_triple [OF _ _ commit]])
              (use switching_index_change \<open>switching protocol L ?s w t\<close> in \<open>auto simp: switching_at\<close>)
        next
          case 2
          show ?case by (rule triple_weaken [OF commit]) (use \<open>switching protocol L ?s w t\<close> in auto)
        qed
        then show ?case
          unfolding set_active_def \<open>rv = volume_handle protocol w\<close>
          by (rule triple_thenT [OF _ triple_updateT]) (auto dest: switched_active)
      qed
    qed
  qed
qed

section \<open>Rotation\<close>

lemma last_received_typed:
  assumes "recorder_at protocol L st" "st_active st = Some rv" "vi_lastReceivedTimeUs (rv_info rv) = Some t"
  shows "is_int64 t" "is_int64 (vi_lastId (rv_info rv))"
proof -
  obtain vs v where v: "active_holds protocol (st_dirs st) (st_index st) (st_session st) L vs v" "rv = volume_handle protocol v"
    using recorder_handle [OF assms(1,2)] by blast
  then have typed: "vol_typed v" by (auto simp: active_holds_def volume_at_def)
  have "vo_rows v \<noteq> []" "t = sr_received (last (vo_rows v))"
    using assms(3) v(2) by (auto simp: volume_handle_def split: if_splits)
  then show "is_int64 t" using typed by (auto simp: vol_typed_def list_all_iff)
  show "is_int64 (vi_lastId (rv_info rv))" using vol_typed_bounds(1) [OF typed] v(2) by (simp add: volume_handle_def)
qed

lemma synchronize_triple:
  assumes "rc_protocol rc = protocol"
  shows "triple (\<lambda>st. recorder_at protocol L st \<and> P (st_active st)) (synchronize rc)
     (\<lambda>_ st. recorder_at protocol L st \<and> P (st_active st)) (recorder_at protocol L)"
  unfolding synchronize_def assms Let_def
proof (rule triple_getT, goal_cases)
  case (1 st)
  show ?case
  proof (cases "st_active st")
    case None
    then show ?thesis using 1 by (auto intro: triple_returnT)
  next
    case (Some rv)
    have commit: "triple (\<lambda>t. t = st) (committed protocol (vi_lastId (rv_info rv)) u)
        (\<lambda>_ st. recorder_at protocol L st \<and> P (st_active st)) (recorder_at protocol L)"
      if "vi_lastReceivedTimeUs (rv_info rv) = Some u" for u
      using last_received_typed [OF _ Some that, of protocol L] 1 Some
      by (intro triple_weaken [OF committed_triple [of "vi_lastId (rv_info rv)" u protocol L rv]]) auto
    show ?thesis
      unfolding Some option.case
      by (rule triple_check)
        (use 1 commit in \<open>auto intro!: triple_returnT triple_throwT split: option.splits\<close>)
  qed
qed

lemma coordinator_rotate_triple:
  assumes "rc_protocol rc = protocol" "is_int64 nowUs"
  shows "triple (recorder_at protocol L) (coordinator_rotate rc nowUs queries fresh)
     (\<lambda>_ st. recorder_at protocol L st \<and> st_active st \<noteq> None) (recorder_at protocol L)"
  unfolding coordinator_rotate_def Let_def assms(1)
proof (rule triple_getT, rule triple_if, goal_cases)
  case (1 st)
  show ?case by (rule triple_weaken [OF finishPending_triple [OF assms(1)]]) (use 1 in auto)
next
  case (2 st)
  have sync: "triple (\<lambda>t. t = st) (synchronize rc) (\<lambda>_. recorder_at protocol L) (recorder_at protocol L)"
    by (rule triple_weaken [OF synchronize_triple [OF assms(1), of _ "\<lambda>_. True"]]) (use 2 in auto)
  show ?case
  proof (rule triple_thenT [OF sync], rule triple_getT, rule triple_check, goal_cases)
    case (1 u t)
    then show ?case by simp
  next
    case (2 u)
    have "is_int64 (ss_lastCommittedId (st_session u) + 1)"
      using recorder_session(2) [OF 2(1)] 2(2) by (auto simp: state_typed_def is_int64_def)
    then have "triple (\<lambda>t. t = u) (prepareRotation protocol fresh (ss_lastCommittedId (st_session u) + 1) nowUs)
        (\<lambda>_. recorder_at protocol L) (recorder_at protocol L)"
      by (intro triple_weaken [OF prepareRotation_triple [OF _ assms(2)]]) (use 2 in auto)
    then show ?case by (rule triple_thenT [OF _ finishPending_triple [OF assms(1)]])
  qed
qed

section \<open>The coordinator\<close>

lemma global_schemas_wf: "global_schemas ids locals m = Inr m' \<Longrightarrow> map_wf m \<Longrightarrow> map_wf m'"
proof (induction ids locals m rule: global_schemas.induct)
  case (2 ids k schema ss m)
  then show ?case by (auto split: option.splits intro: map_emplace_wf)
qed simp

lemma coordinator_schemas_triple:
  "triple (recorder_at protocol L) (coordinator_schemas schemas) (\<lambda>_. recorder_at protocol L) (recorder_at protocol L)"
  unfolding coordinator_schemas_def
proof (rule triple_try, goal_cases)
  case (2 locals)
  have "triple (recorder_at protocol L) (registerSchemas locals) (\<lambda>_. recorder_at protocol L) (recorder_at protocol L)"
    by (rule triple_pre, rule triple_weaken [OF registerSchemas_triple]) (auto intro: index_change_at)
  then show ?case
  proof (rule triple_bindT, goal_cases)
    case (1 ids)
    show ?case
    proof (rule triple_try, goal_cases)
      case (2 globals)
      then have "map_wf globals" using global_schemas_wf by fastforce
      then show ?case by (intro triple_updateT) (simp add: recorder_at_def)
    qed
  qed
qed

lemma migrate_triple:
  "triple (recorder_at protocol L) (migrateLegacyRecords n protocol nowUs fresh) (\<lambda>_. recorder_at protocol L) (recorder_at protocol L)"
  unfolding migrateLegacyRecords_def Let_def
proof (rule triple_check, goal_cases)
  case 2
  show ?case
  proof (rule triple_getT, rule triple_check, goal_cases)
    case (2 st)
    then have m: "read_metadata (ix_metadata (st_index st)) ''legacy_migration'' = []"
      "read_metadata (ix_metadata (st_index st)) ''legacy_migrated'' = []" "st_legacy st = None"
      by (auto simp: recorder_at_def recording_def quiet_def read_metadata_def)
    show ?case unfolding m by (rule triple_check) (use 2 in \<open>auto intro: triple_returnT\<close>)
  qed simp
qed simp

lemma new_Coordinator_triple:
  assumes "rc_protocol rc = protocol" "is_int64 nowUs"
  shows "triple (recorder_at protocol L) (new_Coordinator rc schemas nowUs resume fresh)
     (\<lambda>_ st. recorder_at protocol L st \<and> st_active st \<noteq> None) (recorder_at protocol L)"
proof -
  let ?A = "\<lambda>st. recorder_at protocol L st \<and> st_active st \<noteq> None"
  note rotate = coordinator_rotate_triple [OF assms, of L False]
  have first: "triple (\<lambda>t. t = st) (if ss_pendingIdentity (st_session st) \<noteq> [] then finishPending rc nowUs False
        else if ss_activeIdentity (st_session st) \<noteq> [] then
          bindT (reopen_volume protocol (ss_activeIdentity (st_session st))) (\<lambda>rv. set_active (Some rv))
        else coordinator_rotate rc nowUs False (fresh 1)) (\<lambda>_. ?A) (recorder_at protocol L)"
    if st: "recorder_at protocol L st" for st
  proof (rule triple_if, goal_cases)
    case 1
    show ?case by (rule triple_weaken [OF finishPending_triple [OF assms(1)]]) (use st in auto)
  next
    case 2
    show ?case
    proof (rule triple_if, goal_cases)
      case 1
      show ?case by (rule triple_weaken [OF reopen_active_triple [of protocol L "st_session st"]]) (use st 1 in \<open>auto simp: reopened_def\<close>)
    next
      case 2
      show ?case by (rule triple_weaken [OF rotate]) (use st in auto)
    qed
  qed
  have last: "triple ?A (with_active (\<lambda>rv. bindT getT (\<lambda>st.
           if vi_sealed (rv_info rv) \<or> rv_schemas rv \<noteq> st_schemas st \<or> b
           then coordinator_rotate rc nowUs False (fresh 2) else returnT ()))) (\<lambda>_. ?A) (recorder_at protocol L)" for b
    unfolding with_active_def
  proof (rule triple_getT, goal_cases)
    case (1 st)
    then obtain rv where rv: "st_active st = Some rv" by auto
    show ?case
      unfolding rv option.case
    proof (rule triple_getT, rule triple_if, goal_cases)
      case (1 t)
      show ?case by (rule triple_weaken [OF rotate]) (use 1 \<open>?A st\<close> in auto)
    next
      case (2 t)
      then show ?case using \<open>?A st\<close> by (intro triple_returnT) auto
    qed
  qed
  have none: "triple (recorder_at protocol L) (set_active None) (\<lambda>_. recorder_at protocol L) (recorder_at protocol L)"
    unfolding set_active_def by (rule triple_updateT) (simp add: recorder_at_def handle_ok_def)
  show ?thesis
    unfolding new_Coordinator_def assms(1) Let_def
  proof (rule triple_thenT [OF none], intro triple_thenT [OF coordinator_schemas_triple] triple_bindT [OF migrate_triple]
      triple_getT, goal_cases)
    case (1 u st)
    show ?case
      by (rule triple_thenT [OF first [OF 1]], rule triple_thenT [OF synchronize_triple [OF assms(1), of L "\<lambda>a. a \<noteq> None"] last])
  qed
qed

section \<open>Publishing a batch\<close>

lemma recorder_at_appended:
  assumes "recorder_at protocol L st" "st_active st = Some rv" "\<not> vi_sealed (rv_info rv)"
    and "stored_rows (vi_lastId (rv_info rv)) records = Inr rows" "vi_lastId (rv_info rv) + int (length records) \<le> int64_max"
    and "\<forall>r \<in> set records. is_int64 (rec_receivedAtUs r)"
    and "st' = (update_db (vi_identity (rv_info rv)) (append_db rows (vi_lastId (rv_info rv) + int (length records))
         (vi_records (rv_info rv) + length records)) st)\<lparr>st_active := Some (rv\<lparr>rv_info := extend_info records (rv_info rv)\<rparr>)\<rparr>"
  shows "recorder_at protocol (L @ rows) st'"
proof -
  let ?s = "st_session st" and ?a = "ss_activeIdentity (st_session st)"
  obtain vs v where v: "list_all2 (row_holds protocol (st_dirs st)) (ix_volumes (st_index st)) vs"
    "active_holds protocol (st_dirs st) (st_index st) ?s L vs v"
    "rv = volume_handle protocol v" "?a \<noteq> []"
    using recorder_handle [OF assms(1,2)] by blast
  have i: "vi_identity (rv_info rv) = ?a" and a: "?a \<notin> indexed (st_index st)" and n: "vi_records (rv_info rv) = length (vo_rows v)"
    and l: "vi_lastId (rv_info rv) = vol_last v"
    using v(2,3) assms(3) by (auto simp: active_holds_def volume_handle_def split: if_splits)
  note p = stored_rows_props [OF assms(4)]
  let ?d = "map_option (\<lambda>d. d\<lparr>vd_db := map_option (append_db rows (vol_last v + int (length records))
      (length (vo_rows v) + length records)) (vd_db d)\<rparr>) (st_dirs st ?a)"
  let ?v = "v\<lparr>vo_rows := vo_rows v @ rows\<rparr>"
  have "volume_at protocol v (st_dirs st ?a)" using v(2) by (simp add: active_holds_def)
  then have at: "volume_at protocol ?v ?d" using assms(4-6) unfolding l by (rule volume_at_append)
  have "list_all2 (row_holds protocol ((st_dirs st)(?a := ?d))) (ix_volumes (st_index st)) vs"
    using v(1) by (simp add: rows_held_dir [OF a])
  moreover have "vol_last ?v = vol_last v + int (length rows)" by (simp add: vol_last_def)
  then have "active_holds protocol ((st_dirs st)(?a := ?d)) (st_index st) ?s (L @ rows) vs ?v"
    using v(2) a at unfolding active_holds_def by auto
  ultimately have "log_held protocol ((st_dirs st)(?a := ?d)) (st_index st) ?s (L @ rows) vs"
    using v(4) by (auto simp: log_held_def)
  moreover have "map sr_id (L @ rows) = ids_from 1 (length (L @ rows))"
  proof -
    have "map sr_id L = ids_from 1 (length L)" using assms(1) by (simp add: recorder_at_def recording_def)
    moreover have "vol_last v = int (length L)" using v(2) by (simp add: active_holds_def)
    ultimately show ?thesis using p(2) l by (simp add: ids_from_add add.commute)
  qed
  moreover have "read_volume protocol ?a ?d = Inr (volume_handle protocol ?v)"
    using read_volume_at [OF at] v(2) by (simp add: active_holds_def)
  moreover have "st_session st' = ?s" "st_schemas st' = st_schemas st" "st_index st' = st_index st"
    "st_dirs st' = (st_dirs st)(?a := ?d)" "st_legacy st' = st_legacy st"
    "st_active st' = Some (volume_handle protocol ?v)"
    using i n l volume_handle_append [of v records rows protocol] assms(4) v(3) by (simp_all add: assms(7) update_db_dir)
  ultimately show ?thesis
    using assms(1) v(4) by (auto simp: recorder_at_def recording_def handle_ok_def)
qed

text \<open>The log with the batch, and the volume that took it.\<close>

definition appended :: "string \<Rightarrow> StoredRow list \<Rightarrow> Record list \<Rightarrow> storage \<Rightarrow> bool" where
  "appended protocol L records st \<longleftrightarrow>
     (\<exists>rows. stored_rows (int (length L)) records = Inr rows \<and> recorder_at protocol (L @ rows) st)"

definition extended :: "string \<Rightarrow> StoredRow list \<Rightarrow> Record list \<Rightarrow> storage \<Rightarrow> bool" where
  "extended protocol L records st \<longleftrightarrow> st_active st \<noteq> None \<and> appended protocol L records st"

lemma append_volume_triple:
  assumes "\<forall>r \<in> set records. is_int64 (rec_receivedAtUs r)"
  shows "triple (recorder_at protocol L) (append_volume records int64_max)
     (\<lambda>_. extended protocol L records) (recorder_at protocol L)"
  unfolding append_volume_def with_active_def Let_def
proof (rule triple_getT, goal_cases)
  case (1 st)
  show ?case
  proof (cases "st_active st")
    case None
    then show ?thesis using 1 by (auto intro: triple_throwT)
  next
    case (Some rv)
    let ?i = "rv_info rv"
    show ?thesis
      unfolding Some option.case
    proof (rule triple_check, use 1 in simp, rule triple_check, use 1 in simp, rule triple_require, use 1 in simp,
        rule triple_try, use 1 in simp, rule triple_getT, rule triple_check, use 1 in simp, goal_cases)
      case (1 rows t)
      let ?g = "update_db (vi_identity ?i) (append_db rows (vi_lastId ?i + int (length records)) (vi_records ?i + length records))"
      let ?rv = "rv\<lparr>rv_info := extend_info records ?i\<rparr>"
      have "recorder_at protocol (L @ rows) ((?g st)\<lparr>st_active := Some ?rv\<rparr>)"
        by (rule recorder_at_appended [OF \<open>recorder_at protocol L st\<close> Some 1(1,4) _ assms refl]) (use 1(2) in simp)
      moreover have "stored_rows (int (length L)) records = Inr rows"
        using 1(4) handle_last [OF \<open>recorder_at protocol L st\<close> Some] by simp
      moreover have "(?g (st\<lparr>st_faults := f\<rparr>))\<lparr>st_active := x\<rparr> = (?g st)\<lparr>st_active := x\<rparr>\<lparr>st_faults := f\<rparr>" for f x
        by (simp add: update_db_def)
      ultimately have ext: "extended protocol L records ((?g (st\<lparr>st_faults := f\<rparr>))\<lparr>st_active := Some ?rv\<rparr>)" for f
        by (simp only: extended_def appended_def recorder_at_faults) (simp add: update_db_def)
      show ?case
        unfolding set_active_def \<open>t = st\<close>
        by (rule triple_thenT [where R = "\<lambda>u. \<exists>f. u = ?g (st\<lparr>st_faults := f\<rparr>)", OF triple_durable triple_updateT])
          (use ext \<open>recorder_at protocol L st\<close> in auto)
    qed
  qed
qed

lemma rotation_due_triple:
  "triple (recorder_at protocol L) (rotation_due disk nowUs n) (\<lambda>_. recorder_at protocol L) (recorder_at protocol L)"
  unfolding rotation_due_def with_active_def Let_def
proof (rule triple_getT, goal_cases)
  case (1 st)
  show ?case
  proof (cases "st_active st")
    case None
    then show ?thesis using 1 by (auto intro: triple_throwT)
  next
    case (Some rv)
    show ?thesis
      unfolding Some option.case
      by (rule triple_check [OF _ triple_if [OF triple_returnT triple_getT [OF triple_returnT]]]) (use 1 in auto)
  qed
qed

lemma coordinator_append_triple:
  assumes "rc_protocol rc = protocol" "is_int64 nowUs" "\<forall>r \<in> set records. is_int64 (rec_receivedAtUs r)"
  shows "triple (recorder_at protocol L) (coordinator_append rc records nowUs n fresh)
     (\<lambda>_. extended protocol L records) (recorder_at protocol L)"
  unfolding coordinator_append_def
proof (rule triple_bindT [OF rotation_due_triple], goal_cases)
  case (1 due)
  have rotate: "triple (recorder_at protocol L) (if due then coordinator_rotate rc nowUs True fresh else returnT ())
      (\<lambda>_. recorder_at protocol L) (recorder_at protocol L)"
    by (rule triple_if, rule triple_weaken [OF coordinator_rotate_triple [OF assms(1,2)]]) (auto intro: triple_returnT)
  have reserve: "triple (\<lambda>t. t = st) (reserveLiveThrough i) (\<lambda>_. recorder_at protocol L) (recorder_at protocol L)"
    if "recorder_at protocol L st" for st i
    by (rule triple_weaken [OF reserveLiveThrough_triple]) (use that in \<open>auto intro: index_change_at\<close>)
  show ?case
    unfolding with_active_def
  proof (rule triple_thenT [OF rotate], rule triple_getT, goal_cases)
    case (1 st)
    show ?case
    proof (cases "st_active st")
      case None
      then show ?thesis using 1 by (auto intro: triple_throwT)
    next
      case (Some rv)
      show ?thesis
        unfolding Some option.case
      proof (rule triple_getT, rule triple_check, use 1 in simp, rule triple_check, use 1 in simp, goal_cases)
        case (1 t)
        show ?case
          unfolding \<open>t = st\<close> by (rule triple_thenT [OF reserve append_volume_triple [OF assms(3)]]) fact
      qed
    qed
  qed
qed

text \<open>A publication that throws has left the log as it was; otherwise the whole batch is appended.\<close>

lemma triple_ignore:
  assumes "triple P m (\<lambda>_. Q) Q"
  shows "triple P (ignore_error m) (\<lambda>_. Q) E"
proof (rule tripleI)
  fix s r s' assume s: "P s" "ignore_error m s = (r, s')"
  obtain a t where a: "m s = (a, t)" by fastforce
  then have "Q t" using tripleD [OF assms s(1)] tripleE [OF assms s(1)] by (cases a) auto
  then show "case r of Inl e \<Rightarrow> E s' | Inr x \<Rightarrow> Q s'" using s(2) a by (auto simp: ignore_error_def)
qed

lemma publish_batch_triple:
  assumes "rc_protocol rc = protocol" "is_int64 nowUs" "\<forall>r \<in> set records. is_int64 (rec_receivedAtUs r)"
  shows "triple (recorder_at protocol L) (publish_batch rc records nowUs n fresh)
     (\<lambda>_. appended protocol L records) (recorder_at protocol L)"
  unfolding publish_batch_def store_position_def
proof (rule triple_thenT [where R = "extended protocol L records"], goal_cases)
  case 1
  show ?case by (rule coordinator_append_triple [OF assms])
next
  case 2
  show ?case
  proof (rule triple_if, goal_cases)
    case 1
    show ?case by (rule triple_returnT) (simp add: extended_def)
  next
    case 2
    show ?case
      unfolding with_active_def
    proof (rule triple_ignore, rule triple_getT, goal_cases)
      case (1 st)
      then obtain rv rows where rv: "st_active st = Some rv" "stored_rows (int (length L)) records = Inr rows"
        "recorder_at protocol (L @ rows) st" by (auto simp: extended_def appended_def)
      let ?t = "case vi_lastReceivedTimeUs (rv_info rv) of Some t \<Rightarrow> t | None \<Rightarrow> 0"
      have "is_int64 ?t" using last_received_typed(1) [OF rv(3,1)] by (auto simp: int64_defs split: option.split)
      moreover have "is_int64 (vi_lastId (rv_info rv))"
      proof -
        obtain vs v where "active_holds protocol (st_dirs st) (st_index st) (st_session st) (L @ rows) vs v" "rv = volume_handle protocol v"
          using recorder_handle [OF rv(3,1)] by blast
        then show ?thesis using vol_typed_bounds(1) [of v] by (auto simp: active_holds_def volume_at_def volume_handle_def)
      qed
      ultimately show ?case
        unfolding rv(1) option.case assms(1)
        by (intro triple_weaken [OF committed_triple [of _ ?t protocol "L @ rows" rv]]) (use rv in \<open>auto simp: appended_def\<close>)
    qed
  qed
qed

section \<open>Opening the store\<close>

definition fresh_disk :: "storage \<Rightarrow> bool" where
  "fresh_disk st \<longleftrightarrow> st_index st = empty_index \<and> st_legacy st = None"

definition on_disk :: "string \<Rightarrow> StoredRow list \<Rightarrow> storage \<Rightarrow> bool" where
  "on_disk protocol L st \<longleftrightarrow> (\<exists>s. recording protocol st s L) \<or> fresh_disk st \<and> L = []"

definition no_memory :: "storage \<Rightarrow> bool" where
  "no_memory st \<longleftrightarrow> st_active st = None \<and> st_schemas st = []"

lemma recorder_on_disk: "recorder_at protocol L st \<Longrightarrow> on_disk protocol L st"
  by (auto simp: recorder_at_def on_disk_def)

lemma on_disk_memory [simp]:
  "on_disk protocol L (new_process st) = on_disk protocol L st" "no_memory (new_process st)"
  "on_disk protocol L (st\<lparr>st_faults := f\<rparr>) = on_disk protocol L st"
  by (simp_all add: on_disk_def new_process_def fresh_disk_def no_memory_def)

lemma recording_new_index:
  assumes "st_legacy st = None"
  shows "recording protocol (st\<lparr>st_index := new_index protocol\<rparr>) new_session_state []"
  using assms new_session_state_ok
  by (simp add: recording_def session_on_disk_def log_held_def quiet_def checkCatalog_def new_index_def empty_index_def
      catalog_application_id_def new_session_state_def)

lemma quiet_intents: "quiet ix \<Longrightarrow> retirement_intents ix = Inr []"
  by (simp add: retirement_intents_def quiet_def)

lemma resumeRetirements_quiet: "quiet (st_index st) \<Longrightarrow> resumeRetirements protocol st = (Inr (), st)"
  by (simp add: resumeRetirements_def bindT_def getT_def liftT_def quiet_intents returnT_def)

definition catalogued :: "string \<Rightarrow> StoredRow list \<Rightarrow> storage \<Rightarrow> bool" where
  "catalogued protocol L st \<longleftrightarrow> (\<exists>s. recording protocol st s L) \<and> no_memory st"

lemma new_VolumeCatalog_triple:
  "triple (\<lambda>st. on_disk protocol L st \<and> no_memory st) (new_VolumeCatalog n protocol) (\<lambda>_. catalogued protocol L) (on_disk protocol L)"
  unfolding new_VolumeCatalog_def Let_def
proof (rule triple_check, simp, rule triple_getT, goal_cases)
  case (1 st)
  have create: "triple (\<lambda>t. t = st) (durable (\<lambda>st. st\<lparr>st_index := new_index protocol\<rparr>)) (\<lambda>_. catalogued protocol L) (on_disk protocol L)"
    if "ix_appId (st_index st) = 0"
  proof -
    have f: "fresh_disk st" "L = []"
      using that 1(2) by (auto simp: on_disk_def recording_def session_on_disk_def checkCatalog_def)
    have "catalogued protocol [] ((st\<lparr>st_faults := g\<rparr>)\<lparr>st_index := new_index protocol\<rparr>)" for g
      using 1(2) recording_new_index [of "st\<lparr>st_faults := g\<rparr>" protocol] f
      unfolding catalogued_def by (intro conjI exI [of _ new_session_state]) (simp_all add: no_memory_def fresh_disk_def)
    then show ?thesis using 1(2) f by (intro triple_durable) auto
  qed
  have old: "catalogued protocol L st" if "ix_appId (st_index st) \<noteq> 0"
    using that 1(2) by (auto simp: on_disk_def fresh_disk_def empty_index_def catalogued_def)
  have resume: "triple (catalogued protocol L) (resumeRetirements protocol) (\<lambda>_. catalogued protocol L) (on_disk protocol L)"
  proof (rule tripleI)
    fix t r t' assume t: "catalogued protocol L t" "resumeRetirements protocol t = (r, t')"
    then have "quiet (st_index t)" using recording_catalog by (auto simp: catalogued_def)
    then show "case r of Inl e \<Rightarrow> on_disk protocol L t' | Inr x \<Rightarrow> catalogued protocol L t'"
      using t by (auto simp: resumeRetirements_quiet)
  qed
  show ?case
  proof (rule triple_thenT [where R = "catalogued protocol L"], rule triple_if, goal_cases)
    case 1
    then show ?case by (rule create)
  next
    case 2
    show ?case
      by (rule triple_check [OF _ triple_liftT]) (use 2 old in \<open>auto simp: on_disk_def catalogued_def\<close>)
  next
    case 3
    show ?case
      by (rule triple_thenT [OF resume triple_getT [OF triple_try [OF _ triple_liftT]]]) (auto simp: on_disk_def catalogued_def)
  qed
qed

lemma new_RecordSession_triple:
  "triple (catalogued protocol L) (new_RecordSession protocol) (\<lambda>_. recorder_at protocol L) (on_disk protocol L)"
proof (rule tripleI)
  fix st r st' assume st: "catalogued protocol L st" "new_RecordSession protocol st = (r, st')"
  then obtain s where s: "recording protocol st s L" "no_memory st" by (auto simp: catalogued_def)
  then have "session_on_disk protocol (st_index st) s" by (simp add: recording_def)
  then have "new_RecordSession protocol st = (Inr (), st\<lparr>st_session := s\<rparr>)"
    by (cases "ix_session (st_index st)")
      (simp_all add: session_on_disk_def new_RecordSession_def bindT_def getT_def thenT_def liftT_def returnT_def updateT_def)
  moreover have "recorder_at protocol L (st\<lparr>st_session := s\<rparr>)"
    using s by (simp add: recorder_at_def handle_ok_def no_memory_def)
  ultimately show "case r of Inl e \<Rightarrow> on_disk protocol L st' | Inr x \<Rightarrow> recorder_at protocol L st'"
    using st(2) by auto
qed

definition opened :: "string \<Rightarrow> StoredRow list \<Rightarrow> storage \<Rightarrow> bool" where
  "opened protocol L st \<longleftrightarrow> recorder_at protocol L st \<and> st_active st \<noteq> None"

lemma opened_change: "index_change st st' \<Longrightarrow> opened protocol L st \<Longrightarrow> opened protocol L st'"
  using index_change_at index_change_same unfolding opened_def by metis

lemma opened_queries [simp]: "opened protocol L (st\<lparr>st_queries := q\<rparr>) = opened protocol L st"
  by (simp add: opened_def)

lemma new_QueryService_triple:
  "triple (opened protocol L) (new_RecordQueryService rc i) (\<lambda>_. opened protocol L) (recorder_at protocol L)"
  unfolding new_RecordQueryService_def
proof (rule triple_getT, rule triple_try, simp add: opened_def, goal_cases)
  case (1 st schemas)
  show ?case
    by (rule triple_bindT [OF triple_weaken [OF registerSchemas_triple, where Q = "\<lambda>_. opened protocol L"]])
      (use 1 opened_change in \<open>auto intro!: triple_require triple_updateT simp: opened_def intro: index_change_at\<close>)
qed

lemma openVolumes_triple:
  assumes "rc_protocol rc = protocol" "is_int64 nowUs"
  shows "triple (recorder_at protocol L) (openVolumes rc schemas nowUs recover fresh) (\<lambda>_. opened protocol L) (recorder_at protocol L)"
  unfolding openVolumes_def
proof (rule triple_getT, goal_cases)
  case (1 st)
  have coordinator: "triple (\<lambda>t. t = st) (new_Coordinator rc schemas nowUs b fresh) (\<lambda>_. opened protocol L) (recorder_at protocol L)" for b
    by (rule triple_weaken [OF new_Coordinator_triple [OF assms, of L]]) (use 1 in \<open>auto simp: opened_def\<close>)
  show ?case
    unfolding with_active_def
  proof (rule triple_thenT [OF coordinator], rule triple_getT, goal_cases)
    case (1 u)
    then obtain rv where rv: "st_active u = Some rv" by (auto simp: opened_def)
    have switch: "triple (opened protocol L) (switchActive rc i (returnT ())) (\<lambda>_. opened protocol L) (recorder_at protocol L)" for i
    proof (rule switchActive_triple)
      show "triple (opened protocol L) (returnT ()) (\<lambda>_. opened protocol L) (recorder_at protocol L)" by (rule triple_returnT)
    qed (use opened_change in \<open>auto simp: opened_def\<close>)
    show ?case
      unfolding rv option.case Let_def
    proof (rule triple_getT, goal_cases)
      case (1 t)
      have t: "opened protocol L t" using 1 \<open>opened protocol L u\<close> by simp
      show ?case
      proof (cases "st_queries t")
        case None
        show ?thesis
          unfolding None option.case by (rule triple_weaken [OF new_QueryService_triple]) (use t in auto)
      next
        case (Some qs)
        show ?thesis
          unfolding Some option.case
        proof (rule triple_if)
          show "triple (\<lambda>u. u = t) (returnT ()) (\<lambda>_. opened protocol L) (recorder_at protocol L)"
            by (rule triple_returnT) (simp add: t)
          show "triple (\<lambda>u. u = t) (switchActive rc (vi_identity (rv_info rv)) (returnT ())) (\<lambda>_. opened protocol L)
              (recorder_at protocol L)"
            by (rule triple_weaken [OF switch]) (use t in auto)
        qed
      qed
    qed
  qed
qed

lemma session_task_triples:
  "triple (recorder_at protocol L) (beginRun protocol) (\<lambda>_. recorder_at protocol L) (recorder_at protocol L)"
  "triple (recorder_at protocol L) (session_start protocol) (\<lambda>_. recorder_at protocol L) (recorder_at protocol L)"
  "triple (recorder_at protocol L) (session_stop protocol) (\<lambda>_. recorder_at protocol L) (recorder_at protocol L)"
  "triple (recorder_at protocol L) (cleanExit protocol) (\<lambda>_. recorder_at protocol L) (recorder_at protocol L)"
  using session_op_triple [of BeginRun protocol L] session_op_triple [of Start protocol L]
    session_op_triple [of Stop protocol L] session_op_triple [of CleanExit protocol L] by simp_all

lemma session_fault_triple:
  "pred_option is_int64 f \<Longrightarrow> pred_option is_int64 t \<Longrightarrow>
   triple (recorder_at protocol L) (session_fault protocol e f t) (\<lambda>_. recorder_at protocol L) (recorder_at protocol L)"
  using session_op_triple [of "Fault e f t" protocol L] by simp

lemma open_store_triple:
  assumes "rc_protocol rc = protocol" "is_int64 nowUs"
  shows "triple (on_disk protocol L) (open_store rc schemas nowUs fresh) (\<lambda>_. recorder_at protocol L) (on_disk protocol L)"
proof -
  have process: "triple (on_disk protocol L) (updateT new_process) (\<lambda>_ st. on_disk protocol L st \<and> no_memory st) (on_disk protocol L)"
    by (rule triple_updateT) simp
  have volumes: "triple (recorder_at protocol L) (openVolumes rc schemas nowUs True fresh) (\<lambda>_. recorder_at protocol L) (on_disk protocol L)"
    by (rule triple_weaken [OF openVolumes_triple [OF assms]]) (auto simp: opened_def recorder_on_disk)
  have begin': "triple (\<lambda>t. t = st) (beginRun protocol) (\<lambda>_. recorder_at protocol L) (on_disk protocol L)"
    if "recorder_at protocol L st" for st
    by (rule triple_weaken [OF session_task_triples(1)]) (use that in \<open>auto simp: recorder_on_disk\<close>)
  have start: "triple (recorder_at protocol L) (if b then session_start protocol else returnT ())
      (\<lambda>_. recorder_at protocol L) (on_disk protocol L)" for b
    by (rule triple_if, rule triple_weaken [OF session_task_triples(2)]) (auto simp: recorder_on_disk intro: triple_returnT)
  show ?thesis
    unfolding open_store_def assms(1)
    by (intro triple_thenT [OF process] triple_thenT [OF new_VolumeCatalog_triple] triple_thenT [OF new_RecordSession_triple]
        triple_thenT [OF volumes] triple_getT triple_thenT [OF begin' start])
qed

end
