(* ===== verification/Record_Store.thy ===== *)
theory Record_Store
  imports Recording_Tasks
begin

text \<open>
  The recording of \<open>storage/store.cc\<close> as a component: its operations, a crash among them, and what they do to
  the log that can be read from the disk alone. The store refines an append-only log: an operation leaves it
  as it is or appends one whole batch, and a publication that returned is in it for good.
\<close>

section \<open>Operations\<close>

datatype RecorderOp =
    OpenStore "Schema list" int "nat \<Rightarrow> string"
  | Publish "Record list" int nat string
  | StartRecording
  | StopRecording
  | RecordFault string "int option" "int option"
  | CloseStore
  | Crash

text \<open>A constructor that throws leaves no object, and so does the destructor, which ignores errors.\<close>

definition discard :: "(storage, unit) task \<Rightarrow> (storage, unit) task" where
  "discard m st = (case m st of (Inl e, st) \<Rightarrow> (Inl e, new_process st) | (Inr x, st) \<Rightarrow> (Inr x, st))"

definition when_open :: "(storage, unit) task \<Rightarrow> (storage, unit) task" where
  "when_open m = bindT getT (\<lambda>st. if st_active st = None then throwT (LogicError ''no store'') else m)"

definition close_store :: "recorder \<Rightarrow> (storage, unit) task" where
  "close_store rc st = (Inr (), new_process (snd (cleanExit (rc_protocol rc) st)))"

fun store_step :: "recorder \<Rightarrow> RecorderOp \<Rightarrow> (storage, unit) task" where
  "store_step rc (OpenStore schemas nowUs fresh) = discard (open_store rc schemas nowUs fresh)"
| "store_step rc (Publish records nowUs maxVolumeBytes fresh) = when_open (publish_batch rc records nowUs maxVolumeBytes fresh)"
| "store_step rc StartRecording = when_open (session_start (rc_protocol rc))"
| "store_step rc StopRecording = when_open (session_stop (rc_protocol rc))"
| "store_step rc (RecordFault e fromUs toUs) = when_open (session_fault (rc_protocol rc) e fromUs toUs)"
| "store_step rc CloseStore = when_open (close_store rc)"
| "store_step rc Crash = updateT new_process"

text \<open>Times are 64-bit integers, and the records hold what their C++ type can hold.\<close>

fun store_op_typed :: "RecorderOp \<Rightarrow> bool" where
  "store_op_typed (OpenStore schemas nowUs fresh) \<longleftrightarrow> is_int64 nowUs"
| "store_op_typed (Publish records nowUs maxVolumeBytes fresh) \<longleftrightarrow> is_int64 nowUs \<and> list_all record_typed records"
| "store_op_typed (RecordFault e fromUs toUs) \<longleftrightarrow> pred_option is_int64 fromUs \<and> pred_option is_int64 toUs"
| "store_op_typed _ \<longleftrightarrow> True"

section \<open>The log on disk\<close>

definition disk_session :: "Index \<Rightarrow> RecordSessionState" where
  "disk_session ix =
     (case ix_session ix of
        None \<Rightarrow> new_session_state
      | Some bs \<Rightarrow> (case decode_session bs of Inr s \<Rightarrow> s | Inl _ \<Rightarrow> new_session_state))"

definition volume_records :: "storage \<Rightarrow> string \<Rightarrow> StoredRow list" where
  "volume_records st i = (case db_of st i of Some db \<Rightarrow> db_records db | None \<Rightarrow> [])"

text \<open>The volumes of the index in their order, then the active volume when it is not one of them.\<close>

definition record_log :: "storage \<Rightarrow> StoredRow list" where
  "record_log st =
     (let sealed = map vr_identity (ix_volumes (st_index st)); a = ss_activeIdentity (disk_session (st_index st)) in
      concat (map (volume_records st) sealed) @ (if a = [] \<or> a \<in> set sealed then [] else volume_records st a))"

text \<open>What an operation does to the log.\<close>

fun log_spec :: "RecorderOp \<Rightarrow> exn + unit \<Rightarrow> StoredRow list \<Rightarrow> StoredRow list \<Rightarrow> bool" where
  "log_spec (Publish records nowUs maxVolumeBytes fresh) r L L' \<longleftrightarrow>
     (if r = Inr () then \<exists>rows. stored_rows (int (length L)) records = Inr rows \<and> L' = L @ rows else L' = L)"
| "log_spec op r L L' \<longleftrightarrow> L' = L"

section \<open>The store refines the log\<close>

definition store_abs :: "string \<Rightarrow> StoredRow list \<Rightarrow> storage \<Rightarrow> bool" where
  "store_abs protocol L st \<longleftrightarrow> recorder_at protocol L st \<or> on_disk protocol L st \<and> st_active st = None"

lemma store_abs_disk: "store_abs protocol L st \<Longrightarrow> on_disk protocol L st"
  by (auto simp: store_abs_def recorder_on_disk)

lemma store_abs_process: "on_disk protocol L st \<Longrightarrow> store_abs protocol L (new_process st)"
  using on_disk_memory(1,2) by (simp add: store_abs_def new_process_def)

lemma when_open_cases:
  "when_open m st = (if st_active st = None then (Inl (LogicError ''no store''), st) else m st)"
  by (simp add: when_open_def bindT_def getT_def throwT_def)

lemma keeps_log:
  assumes "triple (recorder_at protocol L) m (\<lambda>_. recorder_at protocol L) (recorder_at protocol L)"
    and "store_abs protocol L st" "when_open m st = (r, st')"
  shows "store_abs protocol L st'"
proof (cases "st_active st")
  case None
  then show ?thesis using assms(2,3) by (simp add: when_open_cases)
next
  case (Some rv)
  then have at: "recorder_at protocol L st" "m st = (r, st')" using assms(2,3) by (simp_all add: store_abs_def when_open_cases)
  then show ?thesis using tripleD [OF assms(1) at(1)] tripleE [OF assms(1) at(1)] by (cases r) (simp_all add: store_abs_def)
qed

lemma stored_record_typed: "record_typed r \<Longrightarrow> is_int64 (rec_receivedAtUs r)"
  by (simp add: record_typed_def)

lemma publish_keeps_log:
  assumes "rc_protocol rc = protocol" "is_int64 nowUs" "list_all record_typed records" "store_abs protocol L st"
    and "when_open (publish_batch rc records nowUs n fresh) st = (r, st')"
  shows "\<exists>L'. log_spec (Publish records nowUs n fresh) r L L' \<and> store_abs protocol L' st'"
proof (cases "st_active st")
  case None
  then show ?thesis using assms(4,5) by (auto simp: when_open_cases)
next
  case (Some rv)
  then have at: "recorder_at protocol L st" "publish_batch rc records nowUs n fresh st = (r, st')"
    using assms(4,5) by (simp_all add: store_abs_def when_open_cases)
  have "\<forall>r \<in> set records. is_int64 (rec_receivedAtUs r)" using assms(3) by (auto simp: list_all_iff stored_record_typed)
  note t = publish_batch_triple [OF assms(1,2) this, of L n fresh]
  show ?thesis
  proof (cases r)
    case (Inl e)
    then show ?thesis using tripleE [OF t at(1)] at(2) by (auto simp: store_abs_def)
  next
    case (Inr u)
    then show ?thesis using tripleD [OF t at(1)] at(2) by (auto simp: appended_def store_abs_def)
  qed
qed

lemma open_keeps_log:
  assumes "rc_protocol rc = protocol" "is_int64 nowUs" "store_abs protocol L st"
    and "discard (open_store rc schemas nowUs fresh) st = (r, st')"
  shows "store_abs protocol L st'"
proof -
  obtain a t where a: "open_store rc schemas nowUs fresh st = (a, t)" by fastforce
  note o = open_store_triple [OF assms(1,2), of L schemas fresh] and d = store_abs_disk [OF assms(3)]
  show ?thesis
  proof (cases a)
    case (Inl e)
    then show ?thesis using tripleE [OF o d] a assms(4) by (auto simp: discard_def store_abs_process)
  next
    case (Inr u)
    then show ?thesis using tripleD [OF o d] a assms(4) by (auto simp: discard_def store_abs_def)
  qed
qed

lemma close_keeps_log:
  assumes "rc_protocol rc = protocol" "store_abs protocol L st" "when_open (close_store rc) st = (r, st')"
  shows "store_abs protocol L st'"
proof (cases "st_active st")
  case None
  then show ?thesis using assms(2,3) by (simp add: when_open_cases)
next
  case (Some rv)
  then have at: "recorder_at protocol L st" "st' = new_process (snd (cleanExit protocol st))"
    using assms by (simp_all add: store_abs_def when_open_cases close_store_def)
  obtain a t where a: "cleanExit protocol st = (a, t)" by fastforce
  have "recorder_at protocol L t"
    using tripleD [OF session_task_triples(4) at(1)] tripleE [OF session_task_triples(4) at(1)] a by (cases a) auto
  then show ?thesis using at(2) a by (simp add: store_abs_process recorder_on_disk)
qed

lemma store_step_keeps:
  assumes "store_abs (rc_protocol rc) L st" "store_op_typed op" "store_step rc op st = (r, st')"
  shows "\<exists>L'. log_spec op r L L' \<and> store_abs (rc_protocol rc) L' st'"
  using assms
proof (cases op)
  case (OpenStore schemas nowUs fresh)
  then show ?thesis using open_keeps_log [OF refl _ assms(1)] assms(2,3) by auto
next
  case (Publish records nowUs n fresh)
  then show ?thesis using publish_keeps_log [OF refl _ _ assms(1)] assms(2,3) by (auto simp del: log_spec.simps)
next
  case StartRecording
  then show ?thesis using keeps_log [OF session_task_triples(2) assms(1)] assms(3) by auto
next
  case StopRecording
  then show ?thesis using keeps_log [OF session_task_triples(3) assms(1)] assms(3) by auto
next
  case (RecordFault e f t)
  then show ?thesis using keeps_log [OF session_fault_triple assms(1)] assms(2,3) by auto
next
  case CloseStore
  then show ?thesis using close_keeps_log [OF refl assms(1)] assms(3) by auto
next
  case Crash
  then show ?thesis using assms(1,3) by (auto simp: updateT_def intro: store_abs_process store_abs_disk)
qed

interpretation store: simulation "store_abs (rc_protocol rc)" "store_step rc" store_op_typed log_spec for rc
  by unfold_locales (rule store_step_keeps)

section \<open>Reading the log\<close>

lemma disk_session_eq: "session_on_disk protocol ix s \<Longrightarrow> disk_session ix = s"
  by (auto simp: session_on_disk_def disk_session_def split: option.splits)

lemma volume_records_at: "volume_at protocol v (st_dirs st i) \<Longrightarrow> volume_records st i = vo_rows v"
  by (elim volume_atE) (simp add: volume_records_def db_of_def db_holds_def)

lemma on_disk_log:
  assumes "on_disk protocol L st"
  shows "record_log st = L" "map sr_id L = ids_from 1 (length L)"
proof -
  consider s where "recording protocol st s L" | "fresh_disk st" "L = []" using assms by (auto simp: on_disk_def)
  then have "record_log st = L \<and> map sr_id L = ids_from 1 (length L)"
  proof cases
    case 1
    then obtain vs where vs: "log_held protocol (st_dirs st) (st_index st) s L vs" by (auto simp: recording_def)
    have s: "disk_session (st_index st) = s" using 1 disk_session_eq by (auto simp: recording_def)
    have "map (volume_records st) (map vr_identity (ix_volumes (st_index st))) = map vo_rows vs"
    proof -
      have "list_all2 (\<lambda>row v. volume_records st (vr_identity row) = vo_rows v) (ix_volumes (st_index st)) vs"
        using vs unfolding log_held_def by (auto simp: row_holds_def intro: volume_records_at elim!: list.rel_mono_strong)
      then show ?thesis by (induction rule: list_all2_induct) simp_all
    qed
    then have sealed: "concat (map (volume_records st) (map vr_identity (ix_volumes (st_index st)))) = logged vs"
      by (simp only: logged_def)
    have "record_log st = L"
    proof (cases "ss_activeIdentity s = []")
      case True
      then show ?thesis using vs sealed s by (simp add: record_log_def log_held_def logged_def Let_def)
    next
      case False
      then obtain v where v: "active_holds protocol (st_dirs st) (st_index st) s L vs v" using vs by (auto simp: log_held_def)
      then have "volume_records st (ss_activeIdentity s) = vo_rows v"
        by (auto simp: active_holds_def intro: volume_records_at)
      then show ?thesis using v sealed s False by (auto simp: record_log_def Let_def active_holds_def indexed_def)
    qed
    then show ?thesis using 1 by (simp add: recording_def)
  next
    case 2
    then show ?thesis by (simp add: record_log_def fresh_disk_def empty_index_def disk_session_def new_session_state_def Let_def)
  qed
  then show "record_log st = L" "map sr_id L = ids_from 1 (length L)" by simp_all
qed

lemma fresh_store_abs: "fresh_disk st \<Longrightarrow> st_active st = None \<Longrightarrow> store_abs protocol [] st"
  by (simp add: store_abs_def on_disk_def)

lemma store_run_log:
  assumes "fresh_disk st" "st_active st = None" "list_all store_op_typed ops" "run_ops (store_step rc) ops st = (rs, st')"
  shows "spec_run log_spec ops rs [] (record_log st') \<and> store_abs (rc_protocol rc) (record_log st') st'"
proof -
  obtain L where L: "spec_run log_spec ops rs [] L" "store_abs (rc_protocol rc) L st'"
    using store.run_simulates [OF fresh_store_abs [OF assms(1,2)] _ assms(4)] assms(3) by (auto simp: list_all_iff)
  then show ?thesis using on_disk_log(1) [OF store_abs_disk [OF L(2)]] by simp
qed

text \<open>What a query reads of a row, before it translates the id of the schema.\<close>

definition stored_record :: "StoredRow \<Rightarrow> exn + Record" where
  "stored_record row =
     bindE (bindE (decodeValue (sr_payload row) volume_limits) recordFromValue) (\<lambda>r.
     bindE (rejectE (rec_schemaVersion r \<noteq> word_of_int (sr_schema row) \<or> rec_receivedAtUs r \<noteq> sr_received row)
         (RuntimeError ''record index differs from payload'')) (\<lambda>_. Inr r))"

lemma stored_record_row:
  assumes "stored_row (i, r) = Inr row" "record_typed r"
  shows "stored_record row = Inr r"
proof -
  obtain v payload where v: "recordValue r = Inr v" "encodeValue v volume_limits = Inr payload" "sr_payload row = payload"
    and row: "sr_schema row = sint (rec_schemaVersion r)" "sr_received row = rec_receivedAtUs r"
    using assms(1) by (auto simp: stored_row_def)
  have ok: "value_ok v" using v(1) assms(2) by (rule record_value_ok)
  have "decodeValue payload volume_limits = Inr v"
    using decodeValue_encodeValue [OF v(2) ok] by (simp add: volume_limits_def size_max_def)
  then show ?thesis using v(1,3) row recordFromValue_iff [OF ok] by (simp add: stored_record_def)
qed

lemma stored_rows_records:
  assumes "stored_rows i records = Inr rows" "list_all record_typed records"
  shows "map stored_record rows = map Inr records"
proof -
  have l2: "list_all2 (\<lambda>ir row. stored_row ir = Inr row)
      (zip (map (\<lambda>k. i + 1 + int k) [0..<length records]) records) rows"
    using assms(1) by (simp add: stored_rows_def mapE_Inr_iff)
  have "stored_record (rows ! k) = Inr (records ! k)" if k: "k < length records" for k
  proof -
    have "stored_row (i + 1 + int k, records ! k) = Inr (rows ! k)" using list_all2_nthD [OF l2, of k] k by simp
    then show ?thesis using assms(2) k by (intro stored_record_row) (auto simp: list_all_length)
  qed
  then show ?thesis by (intro nth_equalityI) (simp_all add: stored_rows_props(1) [OF assms(1)])
qed

text \<open>Once in the log, a batch stays in it.\<close>

lemma log_grows: "spec_run log_spec ops rs L L' \<Longrightarrow> \<exists>xs. L' = L @ xs"
proof (rule store.run_related [where R = "\<lambda>L L'. \<exists>xs. L' = L @ xs"], goal_cases)
  case (4 op r L L')
  then show ?case by (cases op) (auto split: if_splits)
qed auto

end
