(* ===== verification/Store_Properties.thy ===== *)
theory Store_Properties
  imports Record_Store
begin

text \<open>
  The properties of the recording: its log, its ids and what a publication promises over restarts and crashes,
  the session that is read back as it was saved, and the one point where a cut rotation is not recovered. The
  witnesses run the store of a small recorder on an empty disk.
\<close>

section \<open>A rotation that is cut\<close>

text \<open>The directory of the pending volume is there, its database is not complete.\<close>

definition torn_volume :: "VolumeDir option \<Rightarrow> bool" where
  "torn_volume dir = (case dir of Some d \<Rightarrow> vd_db d = None \<or> vd_db d = Some empty_db | None \<Rightarrow> False)"

definition torn_target :: "bytes option \<Rightarrow> (string \<Rightarrow> VolumeDir option) \<Rightarrow> bool" where
  "torn_target stored dirs =
     (case stored of
        Some bs \<Rightarrow> (case decode_session bs of
            Inr s \<Rightarrow> ss_pendingIdentity s \<noteq> [] \<and> torn_volume (dirs (ss_pendingIdentity s)) | Inl _ \<Rightarrow> False)
      | None \<Rightarrow> False)"

definition torn_rotation :: "storage \<Rightarrow> bool" where
  "torn_rotation st \<longleftrightarrow> ix_appId (st_index st) \<noteq> 0 \<and> quiet (st_index st) \<and> st_legacy st = None \<and>
     torn_target (ix_session (st_index st)) (st_dirs st)"

text \<open>The state is torn, and holds the log of \<open>s\<close>.\<close>

definition torn_like :: "storage \<Rightarrow> storage \<Rightarrow> bool" where
  "torn_like s st \<longleftrightarrow> torn_rotation st \<and> st_dirs st = st_dirs s \<and> ix_session (st_index st) = ix_session (st_index s) \<and>
     ix_volumes (st_index st) = ix_volumes (st_index s)"

definition torn_pending :: "storage \<Rightarrow> storage \<Rightarrow> bool" where
  "torn_pending s st \<longleftrightarrow> torn_like s st \<and> ss_pendingIdentity (st_session st) \<noteq> [] \<and>
     torn_volume (st_dirs st (ss_pendingIdentity (st_session st)))"

lemma torn_memory [simp]:
  "torn_like s (st\<lparr>st_faults := f\<rparr>) = torn_like s st" "torn_like s (st\<lparr>st_active := a\<rparr>) = torn_like s st"
  "torn_like s (st\<lparr>st_session := x\<rparr>) = torn_like s st" "torn_like s (st\<lparr>st_queries := q\<rparr>) = torn_like s st"
  "torn_like s (st\<lparr>st_schemas := m\<rparr>) = torn_like s st" "torn_like s (st\<lparr>st_schemaIds := ids\<rparr>) = torn_like s st"
  "torn_like s (new_process st) = torn_like s st"
  by (simp_all add: torn_like_def torn_rotation_def new_process_def)

lemma torn_pending_memory [simp]:
  "torn_pending s (st\<lparr>st_faults := f\<rparr>) = torn_pending s st" "torn_pending s (st\<lparr>st_active := a\<rparr>) = torn_pending s st"
  "torn_pending s (st\<lparr>st_schemas := m\<rparr>) = torn_pending s st" "torn_pending s (st\<lparr>st_schemaIds := ids\<rparr>) = torn_pending s st"
  by (simp_all add: torn_pending_def)

lemma torn_pending_like: "torn_pending s st \<Longrightarrow> torn_like s st"
  by (simp add: torn_pending_def)

lemma torn_registerSchemas:
  "triple (torn_pending s) (registerSchemas locals) (\<lambda>_. torn_pending s) (torn_like s)"
  unfolding registerSchemas_def split_beta
  by (intro triple_getT triple_try triple_thenT [OF triple_durable [where Q = "\<lambda>_. torn_pending s"] triple_returnT])
    (auto simp: torn_pending_def torn_like_def torn_rotation_def)

lemma torn_schemas: "triple (torn_pending s) (coordinator_schemas schemas) (\<lambda>_. torn_pending s) (torn_like s)"
  unfolding coordinator_schemas_def
  by (intro triple_try triple_bindT [OF torn_registerSchemas] triple_updateT) (simp_all add: torn_pending_like)

lemma torn_migrate:
  "triple (torn_pending s) (migrateLegacyRecords n protocol nowUs fresh) (\<lambda>_. torn_pending s) (torn_like s)"
  unfolding migrateLegacyRecords_def Let_def
proof (rule triple_check, simp add: torn_pending_like, rule triple_getT, rule triple_check, simp add: torn_pending_like, goal_cases)
  case (1 st)
  then have m: "read_metadata (ix_metadata (st_index st)) ''legacy_migration'' = []"
    "read_metadata (ix_metadata (st_index st)) ''legacy_migrated'' = []" "st_legacy st = None"
    by (auto simp: torn_pending_def torn_like_def torn_rotation_def quiet_def read_metadata_def)
  show ?case unfolding m by (rule triple_check) (use 1 in \<open>auto intro: triple_returnT simp: torn_pending_like\<close>)
qed

lemma reopen_reads: "reopen_volume protocol i st = (read_volume protocol i (st_dirs st i), st)"
  by (cases "read_volume protocol i (st_dirs st i)") (simp_all add: reopen_volume_def bindT_def getT_def liftT_def)

lemma torn_open_previous:
  "triple (\<lambda>st. torn_pending s st \<and> st_session st = x) (open_previous rc x) (\<lambda>_ st. torn_pending s st \<and> st_session st = x) (torn_like s)"
proof -
  have reopen: "triple (\<lambda>st. torn_pending s st \<and> st_session st = x) (bindT (reopen_volume p i) (\<lambda>rv. set_active (Some rv)))
      (\<lambda>_ st. torn_pending s st \<and> st_session st = x) (torn_like s)" for p i
    by (auto simp: triple_def bindT_def reopen_reads set_active_def updateT_def torn_pending_like split: sum.splits)
  have active: "triple (\<lambda>st. torn_pending s st \<and> st_session st = x) (with_active (\<lambda>rv. rejectT (b rv) e))
      (\<lambda>_ st. torn_pending s st \<and> st_session st = x) (torn_like s)" for b e
    by (auto simp: triple_def with_active_def bindT_def getT_def throwT_def rejectT_def returnT_def torn_pending_like
        split: option.splits)
  show ?thesis
    unfolding open_previous_def
  proof (rule triple_if, goal_cases)
    case 1
    show ?case
      by (rule triple_getT, rule triple_thenT [OF triple_if [OF triple_returnT triple_weaken [OF reopen]] active]) auto
  next
    case 2
    show ?case by (rule triple_rejectT) (auto simp: torn_pending_like)
  qed
qed

lemma torn_read:
  assumes "torn_volume dir" "dir = Some d" "vd_db d \<noteq> None"
  shows "\<exists>e. read_volume protocol i dir = Inl e"
proof -
  have "vd_db d = Some empty_db" using assms by (auto simp: torn_volume_def)
  moreover have "check_identity protocol i empty_db = Inl (RuntimeError ''record volume identity mismatch'')"
    by (simp add: check_identity_def empty_db_def volume_application_id_def)
  ultimately show ?thesis using assms(2)
    by (cases "check_owner_file i dir") (auto simp: read_volume_def check_owner_file_def)
qed

lemma torn_open_next: "triple (\<lambda>st. torn_pending s st \<and> st_session st = x) (open_next rc x) (\<lambda>_ _. False) (torn_like s)"
  unfolding open_next_def
proof (rule triple_getT, goal_cases)
  case (1 st)
  let ?i = "ss_pendingIdentity x"
  obtain d where d: "st_dirs st ?i = Some d" "torn_volume (Some d)" "?i \<noteq> []" "torn_like s st"
    using 1 by (auto simp: torn_pending_def torn_volume_def split: option.splits)
  show ?case
  proof (rule triple_bindT [where R = "\<lambda>_ _. False"], rule triple_if, goal_cases)
    case 1
    then have "vd_db d \<noteq> None" using d(1) by (auto simp: db_of_def)
    then obtain e where "read_volume (rc_protocol rc) ?i (st_dirs st ?i) = Inl e" using torn_read d(1,2) by metis
    then show ?case using d(4) by (simp add: triple_def reopen_reads)
  next
    case 2
    have reserve: "triple (\<lambda>t. t = st) (reserve_directory (if ?i = [] then take 8 [] else [?i])) (\<lambda>_ _. False) (torn_like s)"
      using d by (simp add: triple_def bindT_def getT_def throwT_def)
    have schemas: "triple (\<lambda>t. t = st) (bindT (liftT m) (\<lambda>_. returnT ())) (\<lambda>_ t. t = st) (torn_like s)" for m :: "exn + 'a"
      by (rule triple_try [OF _ triple_returnT]) (use d(4) in simp_all)
    show ?case
      unfolding create_volume_def
      by (intro triple_check triple_thenT [OF schemas] triple_bindT [OF reserve]) (use d(4) in \<open>auto simp: triple_def\<close>)
  next
    case (3 rv)
    show ?case by (simp add: triple_def)
  qed
qed

lemma torn_finishPending: "triple (torn_pending s) (finishPending rc nowUs queries) (\<lambda>_ _. False) (torn_like s)"
  unfolding finishPending_def Let_def
proof (rule triple_getT, rule triple_check, simp add: torn_pending_like, goal_cases)
  case (1 st)
  show ?case
    by (rule triple_thenT [OF triple_weaken [OF torn_open_previous [of s "st_session st"]]],
        use 1 in simp, assumption, assumption, rule triple_bindT [OF torn_open_next]) (simp add: triple_def)
qed

lemma torn_Coordinator: "triple (torn_pending s) (new_Coordinator rc schemas nowUs resume fresh) (\<lambda>_ _. False) (torn_like s)"
proof -
  have none: "triple (torn_pending s) (set_active None) (\<lambda>_. torn_pending s) (torn_like s)"
    unfolding set_active_def by (rule triple_updateT) simp
  show ?thesis
    unfolding new_Coordinator_def Let_def
  proof (intro triple_thenT [OF none] triple_thenT [OF torn_schemas] triple_bindT [OF torn_migrate] triple_getT, goal_cases)
    case (1 u st)
    then have ne: "ss_pendingIdentity (st_session st) \<noteq> []" by (simp add: torn_pending_def)
    have "triple (\<lambda>t. t = st) (finishPending rc nowUs False) (\<lambda>_ _. False) (torn_like s)"
      by (rule triple_weaken [OF torn_finishPending]) (use 1 in auto)
    then show ?case using ne by (intro triple_thenT [where R = "\<lambda>_. False"]) (simp_all add: triple_def)
  qed
qed

lemma torn_resume: "triple (torn_like s) (resumeRetirements protocol) (\<lambda>_. torn_like s) (torn_like s)"
  by (auto simp: triple_def torn_like_def torn_rotation_def resumeRetirements_quiet)

lemma torn_VolumeCatalog: "triple (torn_like s) (new_VolumeCatalog n protocol) (\<lambda>_. torn_like s) (torn_like s)"
  unfolding new_VolumeCatalog_def Let_def
proof (rule triple_check, simp, rule triple_getT, goal_cases)
  case (1 st)
  then have "ix_appId (st_index st) \<noteq> 0" by (simp add: torn_like_def torn_rotation_def)
  then show ?case
    by (intro triple_thenT [where R = "torn_like s"] triple_thenT [OF torn_resume] triple_getT triple_try triple_liftT)
      (use 1 in \<open>auto intro!: triple_check triple_liftT\<close>)
qed

lemma torn_session: "triple (torn_like s) (new_RecordSession protocol) (\<lambda>_. torn_pending s) (torn_like s)"
  unfolding new_RecordSession_def
proof (rule triple_getT, rule triple_require, simp, goal_cases)
  case (1 st)
  then obtain bs x where x: "ix_session (st_index st) = Some bs" "decode_session bs = Inr x" "ss_pendingIdentity x \<noteq> []"
    "torn_volume (st_dirs st (ss_pendingIdentity x))"
    by (auto simp: torn_like_def torn_rotation_def torn_target_def split: option.splits sum.splits)
  show ?case
    by (rule triple_bindT [where R = "\<lambda>y t. y = x \<and> t = st"]) (use 1 x in \<open>auto simp: triple_def liftT_def updateT_def torn_pending_def\<close>)
qed

lemma torn_open: "triple (torn_like s) (open_store rc schemas nowUs fresh) (\<lambda>_ _. False) (torn_like s)"
proof -
  have process: "triple (torn_like s) (updateT new_process) (\<lambda>_. torn_like s) (torn_like s)" by (rule triple_updateT) simp
  have volumes: "triple (torn_pending s) (openVolumes rc schemas nowUs True fresh) (\<lambda>_ _. False) (torn_like s)"
    unfolding openVolumes_def
    by (intro triple_getT triple_thenT [where R = "\<lambda>_. False"] triple_weaken [OF torn_Coordinator]) (auto simp: triple_def)
  show ?thesis
    unfolding open_store_def
    by (intro triple_thenT [OF process] triple_thenT [OF torn_VolumeCatalog] triple_thenT [OF torn_session] triple_thenT [OF volumes])
      (simp add: triple_def)
qed

lemma torn_step:
  assumes "torn_like s st" "st_active st = None" "store_step rc op st = (r, st')"
  shows "torn_like s st' \<and> st_active st' = None \<and> (op = Crash \<or> r \<noteq> Inr ())"
proof (cases op)
  case (OpenStore schemas nowUs fresh)
  obtain a t where a: "open_store rc schemas nowUs fresh st = (a, t)" by fastforce
  have "a \<noteq> Inr ()" using tripleD [OF torn_open assms(1)] a by auto
  then obtain e where e: "a = Inl e" by (cases a) auto
  then have "torn_like s t" using tripleE [OF torn_open assms(1)] a by blast
  then show ?thesis using assms(3) a e OpenStore by (auto simp: discard_def new_process_def torn_memory(7) [unfolded new_process_def])
next
  case Crash
  then show ?thesis using assms by (auto simp: updateT_def) (simp add: new_process_def)
qed (use assms in \<open>auto simp: when_open_cases\<close>)

lemma torn_log:
  assumes "torn_like s st"
  shows "record_log st = record_log s"
proof -
  have "volume_records st = volume_records s" using assms by (auto simp: torn_like_def volume_records_def db_of_def)
  then show ?thesis using assms by (simp add: torn_like_def record_log_def disk_session_def Let_def)
qed

lemma torn_run:
  assumes "torn_like s st" "st_active st = None" "run_ops (store_step rc) ops st = (rs, st')"
  shows "torn_like s st' \<and> st_active st' = None \<and> list_all2 (\<lambda>op r. op = Crash \<or> r \<noteq> Inr ()) ops rs"
  using assms
proof (induction ops arbitrary: st rs)
  case (Cons op ops)
  obtain r t where r: "store_step rc op st = (r, t)" by fastforce
  obtain rs1 where rs1: "run_ops (store_step rc) ops t = (rs1, st')" "rs = r # rs1"
    using Cons.prems(3) r by (auto simp: Let_def split: prod.splits)
  show ?case using torn_step [OF Cons.prems(1,2) r] Cons.IH [OF _ _ rs1(1)] rs1(2) by simp
qed simp

section \<open>The session\<close>

lemma session_op_exact:
  assumes "session_saved protocol st" "op_typed op" "session_op protocol op st = (r, st')"
  shows "session_saved protocol st' \<and> st_session st' = (if r = Inr () then op_next op (st_session st) else st_session st)"
proof -
  let ?s = "st_session st"
  obtain e where op: "session_op protocol op st =
      (if op_rejects op ?s then (Inl e, st) else save_session protocol (op_next op ?s) st)"
    using session_op_eq by blast
  have typed: "state_typed (op_next op ?s)" using assms(1,2) by (simp add: session_saved_def op_next_typed)
  have "st_session st' = (if r = Inr () then op_next op ?s else ?s)"
  proof (cases "op_rejects op ?s")
    case False
    show ?thesis by (rule save_session_cases [OF assms(1) typed]) (use op assms(3) False in auto)
  qed (use op assms(3) in simp)
  then show ?thesis using session_op_keeps [OF assms] by simp
qed

lemma session_run_exact:
  assumes "session_saved protocol st" "list_all op_typed ops" "run_ops (session_op protocol) ops st = (rs, st')"
  shows "session_saved protocol st' \<and>
     st_session st' = fold (\<lambda>(op, r) s. if r = Inr () then op_next op s else s) (zip ops rs) (st_session st)"
  using assms
proof (induction ops arbitrary: st rs)
  case (Cons op ops)
  obtain r t where r: "session_op protocol op st = (r, t)" by fastforce
  obtain rs1 where rs1: "run_ops (session_op protocol) ops t = (rs1, st')" "rs = r # rs1"
    using Cons.prems(3) r by (auto simp: Let_def split: prod.splits)
  have t: "session_saved protocol t" "st_session t = (if r = Inr () then op_next op (st_session st) else st_session st)"
    using session_op_exact [OF Cons.prems(1) _ r] Cons.prems(2) by simp_all
  show ?case using Cons.IH [OF t(1) _ rs1(1)] Cons.prems(2) rs1(2) t(2) by simp
qed simp

lemma new_session_read: "session_saved protocol st \<Longrightarrow> new_RecordSession protocol (st\<lparr>st_session := s\<rparr>) = (Inr (), st)"
  by (cases "ix_session (st_index st)")
    (simp_all add: session_saved_def new_RecordSession_def bindT_def getT_def thenT_def liftT_def returnT_def updateT_def)

section \<open>A small recorder\<close>

text \<open>Evaluation of a task: the result of a step is simplified before the rest is looked at.\<close>

lemma task_cases: "thenT m m' s = (case m s of (Inl e, t) \<Rightarrow> (Inl e, t) | (Inr x, t) \<Rightarrow> m' t)"
  by (simp add: thenT_def bindT_def)

lemmas task_defs = task_cases bindT_def liftT_def rejectT_def returnT_def throwT_def getT_def updateT_def durable_or_def Let_def

lemmas weak_congs = prod.case_cong_weak sum.case_cong_weak option.case_cong_weak list.case_cong_weak if_weak_cong

definition sample_recorder :: recorder where
  "sample_recorder = \<lparr>rc_protocol = ''p'', rc_volumeBytes = 300, rc_schemaBytes = (\<lambda>_. 100), rc_diskBytes = (\<lambda>_. 4096)\<rparr>"

definition sample_disk :: storage where
  "sample_disk =
     \<lparr>st_index = empty_index, st_dirs = Map.empty, st_legacy = None, st_faults = [], st_session = new_session_state,
      st_active = None, st_queries = None, st_schemas = [], st_schemaIds = []\<rparr>"

definition sample_identity :: "nat \<Rightarrow> string" where
  "sample_identity n = replicate 31 CHR ''0'' @ [if n = 1 then CHR ''1'' else CHR ''2'']"

definition recorded_schema :: Schema where
  "recorded_schema = \<lparr>sch_dataset = ''d'', sch_fields = [\<lparr>fld_name = ''a'', fld_type = 1, fld_nullable = False\<rparr>]\<rparr>"

definition sample_bytes :: bytes where
  "sample_bytes = value_bytes (VArray [VString ''d'', VArray [VArray [VString ''a'', VInt 1, VBool False]]])"

definition recorded_row :: Record where
  "recorded_row =
     \<lparr>rec_protocol = ''p'', rec_dataset = ''d'', rec_device = ''x'', rec_receivedAtUs = 5, rec_deviceTimeUs = None,
      rec_schemaVersion = 1, rec_values = [VInt 7]\<rparr>"

definition sample_payload :: bytes where
  "sample_payload =
     value_bytes (VArray [VString ''p'', VString ''d'', VString ''x'', VInt 5, VNull, VInt 1, VArray [VInt 7]])"

lemma recorded_schema_bytes: "encode_schema recorded_schema = Inr sample_bytes"
  by (simp add: encode_schema_def recorded_schema_def schemaValue_def validateSchema_iff schema_ok_def name_ok_def
      field_value_def encodeValue_iff volume_limits_def sample_bytes_def value_depth.simps)

lemmas sample_codec = recorded_schema_bytes decode_schema [OF recorded_schema_bytes]

lemma sample_budget: "length sample_bytes \<le> 33554432" "\<not> 33554432 < length sample_bytes"
  by (simp_all add: sample_bytes_def)

lemma sample_identities: "identity_ok (sample_identity n)" "sample_identity n \<noteq> []"
  by (simp_all add: sample_identity_def identity_ok_def identity_digits_def list_all_iff)

lemma recorded_schema_valid: "validateSchema recorded_schema = Inr ()"
  by (simp add: validateSchema_iff recorded_schema_def schema_ok_def name_ok_def)

lemma sample_row:
  "stored_row (i, recorded_row) =
     Inr \<lparr>sr_id = i, sr_dataset = ''d'', sr_device = ''x'', sr_received = 5, sr_schema = 1, sr_payload = sample_payload\<rparr>"
  by (simp add: stored_row_def recorded_row_def recordValue_def int64_defs encodeValue_iff volume_limits_def
      sample_payload_def value_depth.simps)

lemma recorded_row_valid:
  "validateRecord recorded_schema recorded_row = Inr ()" "rec_protocol recorded_row = ''p''"
  "rec_schemaVersion recorded_row = 1" "record_typed recorded_row"
  by (simp_all add: validateRecord_iff record_ok_def recorded_schema_def recorded_row_def schema_ok_def name_ok_def
      value_matches_def record_typed_def int64_defs is_int64_def)

lemma sample_import_next: "stoll ''9223372036854775807'' = Inr int64_max"
proof -
  have "dropWhile c_isspace ''9223372036854775807'' = ''9223372036854775807''"
    "takeWhile is_digit ''9223372036854775807'' = ''9223372036854775807''" by code_simp+
  moreover have "map digit_of ''023456789'' = [0, 2, 3, 4, 5, 6, 7, 8, 9]" by code_simp
  then have "digits_nat ''9223372036854775807'' = 9223372036854775807" by (simp add: digits_nat_def)
  ultimately show ?thesis by (simp add: stoll_def Let_def int64_defs)
qed

lemma volume_limit_values:
  "maxBytes volume_limits = 33554432" "maxDepth volume_limits = 16" "maxNodes volume_limits = 131072"
  by (simp_all add: volume_limits_def)

lemma encode_session_ok: "state_valid s \<Longrightarrow> encode_session s = Inr (value_bytes (session_value s))"
  by (simp add: encode_session_iff)

lemma decode_session_value: "state_valid s \<Longrightarrow> state_typed s \<Longrightarrow> decode_session (value_bytes (session_value s)) = Inr s"
  using decode_encode_session [of s "value_bytes (session_value s)"] by (simp add: encode_session_iff)

lemmas catalog_defs =
  new_VolumeCatalog_def sample_disk_def empty_index_def resumeRetirements_def new_index_def retirement_intents_def
  retiring_key_def catalog_volumes_def checkCatalog_def catalog_application_id_def registerSchemas_def
  register_schemas_def insert_schema_def global_id_def schema_id_def reserveLiveThrough_def set_metadata_def put_metadata_def
  required_metadata_def stored_number_def sample_import_next

lemmas session_defs =
  new_RecordSession_def new_session_state_def prepareRotation_def commitRotation_def committed_def save_session_def
  checkIdentity_def beginRun_def session_start_def encode_session_ok state_valid_def validate_state_def session_identity_def
  state_invalid_def int64_defs

lemmas volume_defs =
  create_volume_def schema_budget_def put_dir_def schema_rows_def new_volume_handle_def seal_volume_def set_active_def
  with_active_def db_of_def update_db_def new_volume_db_def append_volume_def check_records_def stored_rows_def
  rotation_due_def schema_at_def extend_info_def volume_limit_values

lemmas coordinator_defs =
  open_store_def new_process_def openVolumes_def new_Coordinator_def coordinator_schemas_def migrateLegacyRecords_def
  read_metadata_def coordinator_rotate_def finishPending_def open_previous_def open_next_def commit_rotation_def indexSealed_def
  synchronize_def ignore_error_def new_RecordQueryService_def source_schemas_def publish_batch_def store_position_def coordinator_append_def
  when_open_def discard_def sample_recorder_def

lemmas sample_run_defs =
  task_defs catalog_defs session_defs volume_defs coordinator_defs sample_codec sample_budget sample_identities
  recorded_schema_valid validateSchema_iff sample_row recorded_row_valid






text \<open>The same start, cut when the owner of the new volume is to be written.\<close>

definition torn_disk :: storage where
  "torn_disk = snd (store_step sample_recorder (OpenStore [recorded_schema] 1000 sample_identity)
     (sample_disk\<lparr>st_faults := [False, False, False, False, True]\<rparr>))"

lemma torn_disk_rotation: "torn_rotation torn_disk" "st_active torn_disk = None"
  by (simp_all add: torn_disk_def sample_run_defs torn_rotation_def torn_target_def quiet_def decode_session_value
      state_typed_def torn_volume_def cong: weak_congs)

section \<open>Properties\<close>

text \<open>C11: The session is read back as it was saved. After any operations on a new session, with a failure at any
  durable step, the state in memory is the one of the operations that returned, and a process that reads the session again
  has that state, whatever it had in memory before.\<close>

theorem session_restart:
  assumes "checkCatalog protocol (st_index st) = Inr ()" "ix_session (st_index st) = None" "list_all op_typed ops"
    and "run_ops (session_op protocol) ops (st\<lparr>st_session := new_session_state\<rparr>) = (rs, st')"
  shows "st_session st' = fold (\<lambda>(op, r) s. if r = Inr () then op_next op s else s) (zip ops rs) new_session_state \<and>
     new_RecordSession protocol (st'\<lparr>st_session := s\<rparr>) = (Inr (), st')"
proof -
  have "session_saved protocol (st\<lparr>st_session := new_session_state\<rparr>)"
    using assms(1,2) new_session_state_ok by (simp add: session_saved_def)
  from session_run_exact [OF this assms(3,4)] show ?thesis by (simp add: new_session_read)
qed

lemma session_restart_witness:
  "st_session (snd (run_ops (session_op ''p'') [BeginRun, Start, Stop] (sample_disk\<lparr>st_index := new_index ''p'',
       st_faults := [False, True]\<rparr>\<lparr>st_session := new_session_state\<rparr>))) =
     new_session_state\<lparr>ss_run := 1, ss_cleanExit := False\<rparr>"
proof -
  let ?st = "sample_disk\<lparr>st_index := new_index ''p'', st_faults := [False, True]\<rparr>"
  have "run_ops (session_op ''p'') [BeginRun, Start, Stop] (?st\<lparr>st_session := new_session_state\<rparr>) =
      ([Inr (), Inl sqlite_error, Inr ()], snd (run_ops (session_op ''p'') [BeginRun, Start, Stop] (?st\<lparr>st_session := new_session_state\<rparr>)))"
    by (simp add: sample_run_defs session_stop_def cong: weak_congs)
  from session_restart [OF _ _ _ this] show ?thesis
    by (simp add: sample_disk_def new_index_def checkCatalog_def required_metadata_def empty_index_def catalog_application_id_def new_session_state_def)
qed







text \<open>C12: A rotation that is cut after the directory of the new volume is made and before its database is committed
  is not finished by a later start, though \<open>finishPending\<close> counts on the pending identity for a retry: the directory
  is taken, and the volume in it is never complete. From then on every operation but a crash throws, every start
  among them, and the log stays as it is.\<close>

theorem torn_volume_blocks_recording:
  assumes "torn_rotation st" "st_active st = None" "run_ops (store_step rc) ops st = (rs, st')"
  shows "list_all2 (\<lambda>op r. op = Crash \<or> r \<noteq> Inr ()) ops rs \<and> record_log st' = record_log st \<and> torn_rotation st'"
proof -
  have "torn_like st st" using assms(1) by (simp add: torn_like_def)
  from torn_run [OF this assms(2,3)] show ?thesis using torn_log by (auto simp: torn_like_def)
qed

lemma torn_volume_blocks_recording_witness:
  "list_all2 (\<lambda>op r. op = Crash \<or> r \<noteq> Inr ()) [Crash, OpenStore [recorded_schema] 2000 sample_identity]
     (fst (run_ops (store_step sample_recorder) [Crash, OpenStore [recorded_schema] 2000 sample_identity] torn_disk))"
  using torn_volume_blocks_recording [OF torn_disk_rotation prod.collapse [symmetric]] by blast

end
