(* ===== verification/Ieee754_Order.thy ===== *)
theory Ieee754_Order
  imports Ieee754 Complex_Main
begin

text \<open>
  Rounding to the nearest double is monotone, and the order of the non-negative finite doubles is the order
  of their values. With the two a bound on exact values carries over to the values the code computes.
\<close>

section \<open>Rounding is monotone\<close>

lemma round_half_even_mono:
  assumes "0 < d1" "0 < d2" "n1 * d2 \<le> n2 * (d1 :: nat)"
  shows "round_half_even n1 d1 \<le> round_half_even n2 d2"
proof -
  let ?q1 = "n1 div d1" and ?q2 = "n2 div d2" and ?r1 = "n1 mod d1" and ?r2 = "n2 mod d2"
  have n: "n1 = ?q1 * d1 + ?r1" "n2 = ?q2 * d2 + ?r2" by simp_all
  have "?q1 * d1 * d2 \<le> n1 * d2" by (simp add: mult_right_mono)
  from le_trans [OF this assms(3)] have "d1 * (?q1 * d2) \<le> d1 * n2" by (simp only: ac_simps)
  then have "?q1 * d2 \<le> n2" by (rule nat_mult_le_cancel1 [OF assms(1), THEN iffD1])
  then have q: "?q1 \<le> ?q2" using assms(2) by (simp add: less_eq_div_iff_mult_less_eq)
  show ?thesis
  proof (cases "?q1 = ?q2")
    case False
    then show ?thesis using q by (simp add: round_half_even_def)
  next
    case True
    have "?q1 * d1 * d2 + ?r1 * d2 \<le> ?q1 * d1 * d2 + ?r2 * d1"
      using assms(3) n True by (metis add_mult_distrib mult.assoc mult.commute)
    then have le: "?r1 * d2 \<le> ?r2 * d1" by simp
    have "round_up ?q2 ?r2 d2" if up: "round_up ?q1 ?r1 d1"
    proof -
      have "d1 * d2 < 2 * (?r2 * d1) \<or> d1 * d2 \<le> 2 * (?r2 * d1) \<and> odd ?q1"
      proof (cases "d1 < 2 * ?r1")
        case True
        then have "d1 * d2 < 2 * (?r1 * d2)" using assms(2) by (metis mult.assoc mult_less_mono1)
        then show ?thesis using le by linarith
      next
        case False
        then have "2 * ?r1 = d1" "odd ?q1" using up by (auto simp: round_up_def)
        then have "d1 * d2 = 2 * (?r1 * d2)" by (metis mult.assoc)
        then show ?thesis using le \<open>odd ?q1\<close> by linarith
      qed
      then have "d1 * d2 < d1 * (2 * ?r2) \<or> d1 * d2 \<le> d1 * (2 * ?r2) \<and> odd ?q1" by (simp add: mult.commute mult.left_commute)
      then show ?thesis using True assms(1) by (auto simp: round_up_def)
    qed
    then show ?thesis using True by (simp add: round_half_even_def)
  qed
qed

lemma scaled_le_iff:
  assumes "0 < d"
  shows "scaled_le d k n \<longleftrightarrow> 2 powi k \<le> real n / real d"
proof (cases "0 \<le> k")
  case True
  have "d * 2 ^ nat k \<le> n \<longleftrightarrow> real d * 2 ^ nat k \<le> real n" 
    using of_nat_le_iff [where 'a = real, of "d * 2 ^ nat k" n] by simp
  then show ?thesis using assms True by (simp add: scaled_le_def power_int_def field_simps)
next
  case False
  have "d \<le> n * 2 ^ nat (- k) \<longleftrightarrow> real d \<le> real n * 2 ^ nat (- k)" 
    using of_nat_le_iff [where 'a = real, of d "n * 2 ^ nat (- k)"] by simp
  then show ?thesis using assms False by (simp add: scaled_le_def power_int_def field_simps)
qed

text \<open>The exponent of a positive ratio.\<close>

definition ratio_exponent :: "nat \<Rightarrow> nat \<Rightarrow> int" where
  "ratio_exponent n d = exponent_from n d (int (ilog2 n) - int (ilog2 d))"

lemma ratio_exponent_bounds:
  assumes "0 < n" "0 < d"
  shows "real n / real d < 2 powi (ratio_exponent n d + 1)" "- 1022 \<le> ratio_exponent n d"
    "ratio_exponent n d = - 1022 \<or> 2 powi ratio_exponent n d \<le> real n / real d"
proof -
  define a where "a = int (ilog2 n)"
  define b where "b = int (ilog2 d)"
  define v where "v = real n / real d"
  have n: "(2::real) powi a \<le> real n" "real n < 2 powi (a + 1)" and d: "(2::real) powi b \<le> real d" "real d < 2 powi (b + 1)"
  proof -
    have "2 ^ ilog2 n \<le> n" "n < 2 ^ Suc (ilog2 n)" "2 ^ ilog2 d \<le> d" "d < 2 ^ Suc (ilog2 d)"
      using ilog2_bounds assms by blast+
    then have "real (2 ^ ilog2 n) \<le> real n" "real n < real (2 ^ Suc (ilog2 n))" "real (2 ^ ilog2 d) \<le> real d"
      "real d < real (2 ^ Suc (ilog2 d))" by (simp_all only: of_nat_le_iff of_nat_less_iff)
    then show "(2::real) powi a \<le> real n" "real n < 2 powi (a + 1)" "(2::real) powi b \<le> real d" "real d < 2 powi (b + 1)"
      by (simp_all add: a_def b_def power_int_add)
  qed
  have pos: "0 < real d" "0 < real n" using assms by simp_all
  have up: "v < 2 powi (a - b + 1)"
  proof -
    have "real n < 2 powi (a - b + 1) * 2 powi b" using n(2) by (simp add: power_int_add [symmetric] algebra_simps)
    also have "\<dots> \<le> 2 powi (a - b + 1) * real d" using d(1) by (simp add: mult_left_mono)
    finally show ?thesis using pos by (simp add: v_def field_simps)
  qed
  have low: "2 powi (a - b - 1) \<le> v"
  proof -
    have "2 powi (a - b - 1) * real d \<le> 2 powi (a - b - 1) * 2 powi (b + 1)" using d(2) by (simp add: mult_left_mono)
    also have "\<dots> = 2 powi a" by (simp add: power_int_add [symmetric] algebra_simps)
    finally show ?thesis using n(1) pos by (simp add: v_def field_simps)
  qed
  let ?k = "if scaled_le d (a - b) n then a - b else a - b - 1"
  have k: "v < 2 powi (?k + 1)" "2 powi ?k \<le> v"
    using up low scaled_le_iff [OF assms(2), of "a - b" n] by (simp_all add: v_def)
  have e: "ratio_exponent n d = max ?k (- 1022)" by (simp add: ratio_exponent_def exponent_from_def a_def b_def)
  have "(2::real) powi (?k + 1) \<le> 2 powi (max ?k (- 1022) + 1)" by (intro power_int_increasing) simp_all
  then have "v < 2 powi (max ?k (- 1022) + 1)" using k(1) by linarith
  then show "real n / real d < 2 powi (ratio_exponent n d + 1)" unfolding e v_def .
  show "- 1022 \<le> ratio_exponent n d" by (simp add: e)
  show "ratio_exponent n d = - 1022 \<or> 2 powi ratio_exponent n d \<le> real n / real d"
    using k(2) by (simp add: e v_def max_def)
qed

lemma significand_ratio:
  assumes "0 < d"
  obtains n' d' where "significand n d e = round_half_even n' d'" "0 < d'" "real n' / real d' = real n / real d * 2 powi (52 - e)"
proof (cases "52 \<le> e")
  case True
  have "(2::real) powi (52 - e) = inverse (2 ^ nat (e - 52))" using True by (simp add: power_int_def power_one_over inverse_eq_divide)
  then show thesis using that [of n "d * 2 ^ nat (e - 52)"] True assms by (simp add: significand_def field_simps)
next
  case False
  then show thesis using that [of "n * 2 ^ nat (52 - e)" d] assms by (simp add: significand_def power_int_def)
qed

lemma ratio_le_mult: "0 < d1 \<Longrightarrow> 0 < d2 \<Longrightarrow> real n1 / real d1 \<le> real n2 / real d2 \<longleftrightarrow> n1 * d2 \<le> n2 * d1"
proof -
  assume "0 < d1" "0 < d2"
  then have "real n1 / real d1 \<le> real n2 / real d2 \<longleftrightarrow> real (n1 * d2) \<le> real (n2 * d1)" by (simp add: field_simps)
  then show ?thesis by (simp only: of_nat_le_iff)
qed

lemma significand_mono:
  assumes "0 < d1" "0 < d2" "real n1 / real d1 \<le> real n2 / real d2"
  shows "significand n1 d1 e \<le> significand n2 d2 e"
proof -
  obtain a1 b1 where 1: "significand n1 d1 e = round_half_even a1 b1" "0 < b1" "real a1 / real b1 = real n1 / real d1 * 2 powi (52 - e)"
    using significand_ratio [OF assms(1)] by blast
  obtain a2 b2 where 2: "significand n2 d2 e = round_half_even a2 b2" "0 < b2" "real a2 / real b2 = real n2 / real d2 * 2 powi (52 - e)"
    using significand_ratio [OF assms(2)] by blast
  have "real a1 / real b1 \<le> real a2 / real b2" unfolding 1(3) 2(3) by (rule mult_right_mono [OF assms(3)]) simp
  then have "a1 * b2 \<le> a2 * b1" using ratio_le_mult [OF 1(2) 2(2)] by simp
  then show ?thesis unfolding 1(1) 2(1) by (rule round_half_even_mono [OF 1(2) 2(2)])
qed

lemma round_half_even_whole: "round_half_even m 1 = m"
  by (simp add: round_half_even_def round_up_def)

lemma significand_bounds:
  assumes "0 < d"
  shows "real n / real d < 2 powi (e + 1) \<Longrightarrow> significand n d e \<le> 2 ^ 53"
    "2 powi e \<le> real n / real d \<Longrightarrow> 2 ^ 52 \<le> significand n d e"
proof -
  obtain a b where s: "significand n d e = round_half_even a b" "0 < b" "real a / real b = real n / real d * 2 powi (52 - e)"
    using significand_ratio [OF assms] by blast
  have "(2::real) powi (52 - e) * 2 powi e = 2 powi 52" "(2::real) powi (52 - e) * 2 powi (e + 1) = 2 powi 53"
    by (simp_all flip: power_int_add)
  then have p: "(2::real) powi (52 - e) * 2 powi e = 2 ^ 52" "(2::real) powi (52 - e) * 2 powi (e + 1) = 2 ^ 53"
    by (simp_all add: power_int_numeral)
  have pos: "(0::real) < 2 powi (52 - e)" by simp
  show "significand n d e \<le> 2 ^ 53" if "real n / real d < 2 powi (e + 1)"
  proof -
    have "real a / real b \<le> real (2 ^ 53) / real (1::nat)"
      unfolding s(3) using mult_left_mono [OF less_imp_le [OF that] less_imp_le [OF pos]] p(2) by (simp add: mult.commute)
    then have "a * 1 \<le> 2 ^ 53 * b" using ratio_le_mult [OF s(2), of 1 a "2 ^ 53"] by simp
    then have "round_half_even a b \<le> round_half_even (2 ^ 53) 1" by (intro round_half_even_mono) (use s(2) in simp_all)
    then show ?thesis unfolding s(1) round_half_even_whole .
  qed
  show "2 ^ 52 \<le> significand n d e" if "2 powi e \<le> real n / real d"
  proof -
    have "real (2 ^ 52) / real (1::nat) \<le> real a / real b"
      unfolding s(3) using mult_left_mono [OF that less_imp_le [OF pos]] p(1) by (simp add: mult.commute)
    then have "2 ^ 52 * b \<le> a * 1" using ratio_le_mult [OF _ s(2), of 1 "2 ^ 52" a] by simp
    then have "round_half_even (2 ^ 52) 1 \<le> round_half_even a b" by (intro round_half_even_mono) (use s(2) in simp_all)
    then show ?thesis unfolding s(1) round_half_even_whole .
  qed
qed

definition packed :: "nat \<Rightarrow> nat \<Rightarrow> nat" where
  "packed n d = nat (ratio_exponent n d + 1022) * 2 ^ 52 + significand n d (ratio_exponent n d)"

lemma packed_mono:
  assumes "0 < n1" "0 < d1" "0 < d2" "n1 * d2 \<le> n2 * d1"
  shows "packed n1 d1 \<le> packed n2 d2"
proof -
  have "0 < n2" using assms by (cases n2) simp_all
  note b1 = ratio_exponent_bounds [OF assms(1,2)] and b2 = ratio_exponent_bounds [OF \<open>0 < n2\<close> assms(3)]
  let ?e1 = "ratio_exponent n1 d1" and ?e2 = "ratio_exponent n2 d2"
  have le: "real n1 / real d1 \<le> real n2 / real d2" using assms ratio_le_mult by blast
  have "?e1 \<le> ?e2"
  proof (rule ccontr)
    assume "\<not> ?e1 \<le> ?e2"
    then have "?e2 + 1 \<le> ?e1" "2 powi ?e1 \<le> real n1 / real d1" using b1 b2(2) by auto
    moreover have "(2::real) powi (?e2 + 1) \<le> 2 powi ?e1" using calculation(1) by (intro power_int_increasing) simp_all
    ultimately show False using b2(1) le by linarith
  qed
  show ?thesis
  proof (cases "?e1 = ?e2")
    case True
    then show ?thesis using significand_mono [OF assms(2,3) le] by (simp add: packed_def)
  next
    case False
    then have lt: "?e1 + 1 \<le> ?e2" using \<open>?e1 \<le> ?e2\<close> by simp
    have "significand n1 d1 ?e1 \<le> 2 ^ 53" using significand_bounds(1) [OF assms(2) b1(1)] .
    moreover have "2 ^ 52 \<le> significand n2 d2 ?e2" using significand_bounds(2) [OF assms(3)] b2(3) lt b1(2) by auto
    moreover have "nat (?e1 + 1022) + 1 \<le> nat (?e2 + 1022)" using lt b1(2) by linarith
    then have "(nat (?e1 + 1022) + 1) * 2 ^ 52 \<le> nat (?e2 + 1022) * 2 ^ 52" by (rule mult_right_mono) simp
    ultimately show ?thesis by (simp add: packed_def)
  qed
qed

text \<open>A non-negative double is its magnitude.\<close>

lemma f64_word:
  assumes "m \<le> 2047 * 2 ^ 52"
  shows "f64_magnitude (word_of_nat m) = m" "f64_sign (word_of_nat m) = False"
proof -
  have "unat (word_of_nat m :: u64) = m" using assms by (simp add: unat_of_nat take_bit_nat_eq_self)
  then show "f64_magnitude (word_of_nat m) = m" "f64_sign (word_of_nat m) = False"
    using assms by (simp_all add: f64_magnitude_def f64_sign_def)
qed

lemma f64_of_ratio_fields:
  "f64_sign (f64_of_ratio False n d) = False"
  "f64_magnitude (f64_of_ratio False n d) = (if n = 0 then 0 else min (packed n d) (2047 * 2 ^ 52))"
  using f64_word [of "min (packed n d) (2047 * 2 ^ 52)"] f64_word [of 0]
  by (simp_all add: f64_of_ratio_def f64_round_at_def f64_pack_def packed_def ratio_exponent_def del: min_less_iff_disj)

theorem f64_of_ratio_mono:
  assumes "0 < d1" "0 < d2" "n1 * d2 \<le> n2 * d1"
  shows "f64_magnitude (f64_of_ratio False n1 d1) \<le> f64_magnitude (f64_of_ratio False n2 d2)"
proof (cases "n1 = 0")
  case False
  then have "0 < n2" using assms by (cases n2) simp_all
  then show ?thesis using packed_mono [of n1 d1 d2 n2] False assms
    by (simp add: f64_of_ratio_fields min.coboundedI1)
qed (simp add: f64_of_ratio_fields)

section \<open>The value of a double\<close>

definition magnitude_value :: "nat \<Rightarrow> real" where
  "magnitude_value m =
     (if m div 2 ^ 52 = 0 then real (m mod 2 ^ 52) * 2 powi - 1074
      else real (2 ^ 52 + m mod 2 ^ 52) * 2 powi (int (m div 2 ^ 52) - 1075))"

lemma magnitude_value_strict:
  assumes "m1 < m2"
  shows "magnitude_value m1 < magnitude_value m2"
proof -
  let ?e1 = "m1 div 2 ^ 52" and ?f1 = "m1 mod 2 ^ 52" and ?e2 = "m2 div 2 ^ 52" and ?f2 = "m2 mod 2 ^ 52"
  have le: "?e1 \<le> ?e2" using assms by (intro div_le_mono) simp
  have f: "?f1 < 2 ^ 52" using mod_less_divisor [of "2 ^ 52" m1] by simp
  have top: "magnitude_value m1 < 2 ^ 52 * 2 powi (int (max ?e1 1) + (if ?e1 = 0 then 0 else 1) - 1075)"
  proof (cases "?e1 = 0")
    case True
    have "real ?f1 < real (2 ^ 52)" using f by (simp only: of_nat_less_iff)
    then have "real ?f1 * 2 powi - 1074 < 2 ^ 52 * 2 powi - 1074" by (intro mult_strict_right_mono) simp_all
    then show ?thesis using True by (simp only: magnitude_value_def if_True) simp
  next
    case False
    have "real (2 ^ 52 + ?f1) < real (2 * 2 ^ 52)" using f by (simp only: of_nat_less_iff)
    then have "real (2 ^ 52 + ?f1) < 2 * 2 ^ 52" by simp
    then have "real (2 ^ 52 + ?f1) * 2 powi (int ?e1 - 1075) < 2 * 2 ^ 52 * 2 powi (int ?e1 - 1075)"
      by (rule mult_strict_right_mono) simp
    also have "\<dots> = 2 ^ 52 * 2 powi (int ?e1 + 1 - 1075)" by (simp add: power_int_add power_int_diff)
    finally show ?thesis using False by (simp add: magnitude_value_def)
  qed
  consider "?e1 = ?e2" | "?e1 < ?e2" using le by linarith
  then show ?thesis
  proof cases
    case 1
    then have "?f1 < ?f2" using assms by (metis div_mult_mod_eq nat_add_left_cancel_less)
    then have "real ?f1 < real ?f2" "real (2 ^ 52 + ?f1) < real (2 ^ 52 + ?f2)"
      by (simp_all only: of_nat_less_iff add_less_cancel_left)
    then show ?thesis
      unfolding magnitude_value_def 1
      by (simp only: mult_strict_right_mono zero_less_power_int zero_less_numeral split: if_split) simp
  next
    case 2
    then have "int (max ?e1 1) + (if ?e1 = 0 then 0 else 1) \<le> int ?e2" by auto
    then have "(2::real) powi (int (max ?e1 1) + (if ?e1 = 0 then 0 else 1) - 1075) \<le> 2 powi (int ?e2 - 1075)"
      by (intro power_int_increasing) simp_all
    then have "2 ^ 52 * 2 powi (int (max ?e1 1) + (if ?e1 = 0 then 0 else 1) - 1075) \<le> real (2 ^ 52 + ?f2) * 2 powi (int ?e2 - 1075)"
      by (intro mult_mono) (simp_all only: of_nat_add of_nat_power of_nat_numeral le_add_same_cancel1 of_nat_0_le_iff
          zero_le_power_int zero_le_numeral zero_le_power add_nonneg_nonneg)
    also have "\<dots> = magnitude_value m2" using 2 by (simp add: magnitude_value_def)
    finally show ?thesis using top by linarith
  qed
qed

definition f64_value :: "f64 \<Rightarrow> real" where
  "f64_value b = real (fst (f64_ratio b)) / real (snd (f64_ratio b))"

lemma f64_ratio_pos: "0 < snd (f64_ratio b)"
  by (simp add: f64_ratio_def ratio_of_fields_def)

lemma f64_value_eq: "f64_value b = magnitude_value (f64_magnitude b)"
proof -
  have f: "f64_mantissa b = f64_magnitude b mod 2 ^ 52" by (simp add: f64_mantissa_def f64_magnitude_def mod_mod_cancel)
  show ?thesis
  proof (cases "f64_exponent b = 0")
    case True
    then show ?thesis using f
      by (simp add: f64_value_def f64_ratio_def ratio_of_fields_def magnitude_value_def f64_exponent_def power_int_def field_simps)
  next
    case False
    have p: "(2::real) powi (int e - 1075) = 2 ^ (e - 1075) / 2 ^ (1075 - e)" for e
      by (cases "1075 \<le> e") (simp_all add: power_int_def nat_diff_distrib field_simps)
    show ?thesis using False f
      by (simp add: f64_value_def f64_ratio_def ratio_of_fields_def magnitude_value_def f64_exponent_def p)
  qed
qed

lemma f64_value_strict: "f64_magnitude a < f64_magnitude b \<Longrightarrow> f64_value a < f64_value b"
  unfolding f64_value_eq by (rule magnitude_value_strict)

lemma f64_value_mono: "f64_magnitude a \<le> f64_magnitude b \<Longrightarrow> f64_value a \<le> f64_value b"
  using f64_value_strict [of a b] f64_value_eq by (cases "f64_magnitude a = f64_magnitude b") auto

lemma f64_ratio_mono:
  assumes "f64_magnitude a \<le> f64_magnitude b" "f64_ratio a = (na, da)" "f64_ratio b = (nb, db)"
  shows "na * db \<le> nb * da" "0 < da" "0 < db"
proof -
  show d: "0 < da" "0 < db" using f64_ratio_pos [of a] f64_ratio_pos [of b] assms by simp_all
  show "na * db \<le> nb * da" using f64_value_mono [OF assms(1)] assms(2,3) ratio_le_mult [OF d] by (simp add: f64_value_def)
qed

text \<open>Comparison of doubles that are not negative and not above infinity.\<close>

definition f64_nonneg :: "f64 \<Rightarrow> bool" where
  "f64_nonneg a \<longleftrightarrow> \<not> f64_sign a \<and> f64_magnitude a \<le> 2047 * 2 ^ 52"

lemma f64_nonneg_ratio [simp]: "f64_nonneg (f64_of_ratio False n d)"
  by (simp add: f64_nonneg_def f64_of_ratio_fields)

lemma f64_nonneg_compare:
  "f64_nonneg a \<Longrightarrow> f64_nonneg b \<Longrightarrow> f64_le a b \<longleftrightarrow> f64_magnitude a \<le> f64_magnitude b"
  "f64_nonneg a \<Longrightarrow> f64_nonneg b \<Longrightarrow> f64_less a b \<longleftrightarrow> f64_magnitude a < f64_magnitude b"
  by (auto simp: f64_nonneg_def f64_le_def f64_less_def f64_isnan_def f64_key_def)

end
