(* ===== verification/Ieee754_Arithmetic.thy ===== *)
theory Ieee754_Arithmetic
  imports Ieee754_Order
begin

unbundle bit_operations_syntax

text \<open>
  The arithmetic of doubles the modelled code computes with: sums, differences and products, each the
  exact result rounded to nearest, ties to even, with the rules for infinities, zeros and NaN, and the
  roundings to whole numbers. The bits of a NaN that an operation makes are not specified; the code never
  reads them. Rounding is monotone, so products and roundings keep the order.
\<close>

section \<open>Products and integers of non-negative doubles\<close>

abbreviation ratio64 :: "nat \<Rightarrow> nat \<Rightarrow> f64" where
  "ratio64 n d \<equiv> f64_of_ratio False n d"

fun multiply_ratios :: "nat \<times> nat \<Rightarrow> nat \<times> nat \<Rightarrow> f64" where
  "multiply_ratios (na, da) (nb, db) = f64_of_ratio False (na * nb) (da * db)"

text \<open>The product of non-negative finite doubles.\<close>

definition f64_multiply :: "f64 \<Rightarrow> f64 \<Rightarrow> f64" where
  "f64_multiply a b = multiply_ratios (f64_ratio a) (f64_ratio b)"

text \<open>\<open>std::round\<close> of a non-negative finite double, halves away from zero, and the conversion to an integer.\<close>

fun round_ratio :: "nat \<times> nat \<Rightarrow> nat" where
  "round_ratio (n, d) = (2 * n + d) div (2 * d)"

definition f64_round :: "f64 \<Rightarrow> f64" where
  "f64_round a = f64_of_nat (round_ratio (f64_ratio a))"

fun truncate_ratio :: "nat \<times> nat \<Rightarrow> nat" where
  "truncate_ratio (n, d) = n div d"

definition f64_to_nat :: "f64 \<Rightarrow> nat" where
  "f64_to_nat a = truncate_ratio (f64_ratio a)"

definition f64_max :: "f64 \<Rightarrow> f64 \<Rightarrow> f64" where
  "f64_max a b = (if f64_less a b then b else a)"

definition f64_clamp :: "f64 \<Rightarrow> f64 \<Rightarrow> f64 \<Rightarrow> f64" where
  "f64_clamp v lo hi = (if f64_less v lo then lo else if f64_less hi v then hi else v)"

section \<open>Sums and differences\<close>

text \<open>The exact value of a finite double with its sign.\<close>

fun signed_ratio :: "bool \<Rightarrow> nat \<times> nat \<Rightarrow> int \<times> nat" where
  "signed_ratio s (n, d) = (if s then - int n else int n, d)"

definition f64_signed :: "f64 \<Rightarrow> int \<times> nat" where
  "f64_signed a = signed_ratio (f64_sign a) (f64_ratio a)"

definition f64_of_signed :: "int \<Rightarrow> nat \<Rightarrow> f64" where
  "f64_of_signed n d = f64_of_ratio (n < 0) (nat \<bar>n\<bar>) d"

definition f64_nan :: f64 where
  "f64_nan = 0x7FF8000000000000"

definition f64_negate :: "f64 \<Rightarrow> f64" where
  "f64_negate a = a XOR 0x8000000000000000"

definition f64_abs :: "f64 \<Rightarrow> f64" where
  "f64_abs a = a AND 0x7FFFFFFFFFFFFFFF"

text \<open>A sum that is zero has the sign of the summands where they agree, and is positive otherwise.\<close>

fun add_ratios :: "bool \<Rightarrow> int \<times> nat \<Rightarrow> int \<times> nat \<Rightarrow> f64" where
  "add_ratios zero (na, da) (nb, db) =
     (let n = na * int db + nb * int da in if n = 0 then f64_of_ratio zero 0 1 else f64_of_signed n (da * db))"

definition f64_add :: "f64 \<Rightarrow> f64 \<Rightarrow> f64" where
  "f64_add a b =
     (if f64_isnan a \<or> f64_isnan b then f64_nan
      else if \<not> f64_isfinite a then (if \<not> f64_isfinite b \<and> f64_sign a \<noteq> f64_sign b then f64_nan else a)
      else if \<not> f64_isfinite b then b
      else add_ratios (f64_sign a \<and> f64_sign b) (f64_signed a) (f64_signed b))"

definition f64_subtract :: "f64 \<Rightarrow> f64 \<Rightarrow> f64" where
  "f64_subtract a b = f64_add a (f64_negate b)"

section \<open>Order\<close>

lemma f64_multiply_mono:
  assumes "f64_magnitude b \<le> f64_magnitude b'"
  shows "f64_magnitude (f64_multiply a b) \<le> f64_magnitude (f64_multiply a b')"
proof -
  obtain na da nb db nb' db' where r: "f64_ratio a = (na, da)" "f64_ratio b = (nb, db)" "f64_ratio b' = (nb', db')"
    by (metis surj_pair)
  have "nb * db' \<le> nb' * db" "0 < db" "0 < db'" "0 < da"
    using f64_ratio_mono [OF assms r(2,3)] f64_ratio_pos [of a] r(1) by simp_all
  then have "(na * nb) * (da * db') \<le> (na * nb') * (da * db)" "0 < da * db" "0 < da * db'"
    using mult_le_mono2 [of "nb * db'" "nb' * db" "na * da"] by (simp_all add: ac_simps)
  then show ?thesis by (simp add: f64_multiply_def r f64_of_ratio_mono)
qed

lemma f64_nonneg_multiply [simp]: "f64_nonneg (f64_multiply a b)"
  by (cases "f64_ratio a"; cases "f64_ratio b") (simp add: f64_multiply_def)

lemma round_ratio_mono:
  assumes "n * d' \<le> n' * d" "0 < d" "0 < (d' :: nat)"
  shows "round_ratio (n, d) \<le> round_ratio (n', d')"
proof -
  let ?q = "(2 * n + d) div (2 * d)"
  have "2 * d * ?q \<le> 2 * n + d" by (simp only: times_div_less_eq_dividend)
  then have "(2 * d * ?q) * d' \<le> (2 * n + d) * d'" by (rule mult_le_mono1)
  also have "\<dots> \<le> (2 * n' + d') * d" using assms(1) by (simp add: algebra_simps)
  finally have "d * (2 * d' * ?q) \<le> d * (2 * n' + d')" by (simp only: ac_simps)
  then have "?q * (2 * d') \<le> 2 * n' + d'" using nat_mult_le_cancel1 [OF assms(2)] by (simp only: ac_simps)
  then show ?thesis using assms(3) by (simp add: less_eq_div_iff_mult_less_eq)
qed

lemma f64_round_mono: "f64_magnitude a \<le> f64_magnitude b \<Longrightarrow> f64_magnitude (f64_round a) \<le> f64_magnitude (f64_round b)"
proof -
  assume le: "f64_magnitude a \<le> f64_magnitude b"
  obtain na da nb db where r: "f64_ratio a = (na, da)" "f64_ratio b = (nb, db)" by (metis surj_pair)
  have "round_ratio (na, da) \<le> round_ratio (nb, db)" using f64_ratio_mono [OF le r] by (intro round_ratio_mono)
  then show ?thesis by (simp add: f64_round_def r f64_of_nat_def f64_of_ratio_mono)
qed

lemma f64_nonneg_round [simp]: "f64_nonneg (f64_round a)"
  by (simp add: f64_round_def f64_of_nat_def)

lemma f64_to_nat_mono:
  assumes "f64_magnitude a \<le> f64_magnitude b"
  shows "f64_to_nat a \<le> f64_to_nat b"
proof -
  obtain na da nb db where r: "f64_ratio a = (na, da)" "f64_ratio b = (nb, db)" by (metis surj_pair)
  note m = f64_ratio_mono [OF assms r]
  have "da * (na div da) * db \<le> na * db" by (simp add: mult_le_mono1 times_div_less_eq_dividend)
  then have "da * (na div da * db) \<le> da * nb" using le_trans [OF _ m(1)] by (simp only: ac_simps)
  then have "na div da * db \<le> nb" by (rule nat_mult_le_cancel1 [OF m(2), THEN iffD1])
  then show ?thesis using m(3) by (simp add: f64_to_nat_def r less_eq_div_iff_mult_less_eq)
qed

lemma size_max_double: "f64_ratio (f64_of_nat size_max) = (2 ^ 64, 1)"
  by (simp add: size_max_def f64_field_eval f64_round_eval)

lemma f64_to_nat_below:
  assumes "f64_magnitude a < f64_magnitude (f64_of_nat size_max)"
  shows "f64_to_nat a \<le> size_max"
proof -
  obtain n d where r: "f64_ratio a = (n, d)" by (metis surj_pair)
  then have d: "0 < d" using f64_ratio_pos [of a] by simp
  have "real n / real d < 2 ^ 64" using f64_value_strict [OF assms] by (simp add: f64_value_def r size_max_double)
  then have "real n < 2 ^ 64 * real d" using d by (simp add: field_simps)
  then have "real n < real (2 ^ 64 * d)" by simp
  then have "n < 2 ^ 64 * d" by (simp only: of_nat_less_iff)
  then have "n div d < 2 ^ 64" using d by (simp add: div_less_iff_less_mult mult.commute)
  then show ?thesis by (simp add: f64_to_nat_def r size_max_def)
qed

lemma size_max_pos: "Suc 0 \<le> size_max"
  by (simp add: size_max_def)

lemma f64_max_mono:
  assumes "f64_nonneg a" "f64_nonneg b" "f64_nonneg b'" "f64_magnitude b \<le> f64_magnitude b'"
  shows "f64_magnitude (f64_max a b) \<le> f64_magnitude (f64_max a b')"
  using assms by (auto simp: f64_max_def f64_nonneg_compare)

end
