(* ===== verification/Adaptive_Performance.thy ===== *)
theory Adaptive_Performance
  imports Ieee754_Arithmetic
begin

text \<open>
  The adaptive performance controller, from \<open>app/adaptive_performance.hpp\<close> and
  \<open>app/adaptive_performance.cc\<close>: pressure is classified from the load of the system and the backlog of the
  program, the level rises at once and falls by one step after five healthy samples, and the budgets of
  a pump are the base values scaled by two multipliers. Sampling the load of the machine is a call of the
  operating system, so a sample is an input. Multipliers are positive doubles; their products are
  rounded as the code's are.
\<close>

section \<open>Levels, samples and budgets\<close>

datatype AdaptivePressureLevel = Normal | Elevated | High | Critical

record SystemPressureSample =
  sp_cpuBusyRatio :: "f64 option"
  sp_availableMemoryRatio :: "f64 option"

record AdaptivePerformanceInput =
  in_nowMs :: u64
  in_system :: SystemPressureSample
  in_pendingRxBytes :: nat
  in_rawBacklogWarnBytes :: nat
  in_pendingTransferFrameRows :: nat
  in_pendingPlotAppends :: nat
  in_pendingWorkerRxBytes :: nat
  in_workerInputQueueSize :: nat
  in_workerOutputQueueSize :: nat
  in_scriptPumpMs :: f64

record AdaptivePerformanceBudget =
  bg_fpsLimit :: nat
  bg_maxRenderPointsPerChannel :: nat
  bg_maxRenderVertices :: nat
  bg_overviewMaxSamples :: nat
  bg_rxChunkBytesPerPump :: nat
  bg_transferFrameRowsPerPump :: nat
  bg_plotAppendsPerPump :: nat
  bg_workerOutputFlushBudgetMs :: f64

record AdaptivePerformanceStatus =
  as_enabled :: bool
  as_maxMultiplier :: f64
  as_effectiveMultiplier :: f64
  as_catchUpMultiplier :: f64
  as_pressureLevel :: AdaptivePressureLevel
  as_reason :: string
  as_systemMetricsAvailable :: bool

record AdaptivePerformanceController =
  ap_enabled :: bool
  ap_maxMultiplier :: f64
  ap_budget :: AdaptivePerformanceBudget
  ap_status :: AdaptivePerformanceStatus
  ap_systemLevel :: AdaptivePressureLevel
  ap_softwareLevel :: AdaptivePressureLevel
  ap_lastSampleAtMs :: u64
  ap_hasSample :: bool
  ap_healthySamples :: nat

definition kMinMultiplier :: f64 where
  "kMinMultiplier = ratio64 1 4"

definition kMaxMultiplier :: f64 where
  "kMaxMultiplier = ratio64 4 1"

definition one64 :: f64 where
  "one64 = ratio64 1 1"

definition normalizeMultiplier :: "f64 \<Rightarrow> f64" where
  "normalizeMultiplier value =
     (if \<not> f64_isfinite value \<or> f64_le value (ratio64 0 1) then one64
      else f64_clamp value kMinMultiplier kMaxMultiplier)"

definition scaledBudget :: "nat \<Rightarrow> f64 \<Rightarrow> nat" where
  "scaledBudget base multiplier =
     (let scaled = f64_round (f64_multiply (f64_of_nat base) multiplier) in
      if f64_le scaled one64 then 1
      else if f64_le (f64_of_nat size_max) scaled then size_max else f64_to_nat scaled)"

definition scaledFpsLimit :: "nat \<Rightarrow> f64 \<Rightarrow> nat" where
  "scaledFpsLimit base multiplier = min (scaledBudget base multiplier) (2 ^ 32 - 1)"

fun pressureSeverity :: "AdaptivePressureLevel \<Rightarrow> nat" where
  "pressureSeverity Normal = 0"
| "pressureSeverity Elevated = 1"
| "pressureSeverity High = 2"
| "pressureSeverity Critical = 3"

fun lowerPressureLevel :: "AdaptivePressureLevel \<Rightarrow> AdaptivePressureLevel" where
  "lowerPressureLevel Critical = High"
| "lowerPressureLevel High = Elevated"
| "lowerPressureLevel Elevated = Normal"
| "lowerPressureLevel Normal = Normal"

fun pressureLevelFactor :: "AdaptivePressureLevel \<Rightarrow> f64" where
  "pressureLevelFactor Normal = ratio64 1 1"
| "pressureLevelFactor Elevated = ratio64 3 4"
| "pressureLevelFactor High = ratio64 1 2"
| "pressureLevelFactor Critical = ratio64 1 4"

fun adaptivePressureLevelId :: "AdaptivePressureLevel \<Rightarrow> string" where
  "adaptivePressureLevelId Normal = ''normal''"
| "adaptivePressureLevelId Elevated = ''elevated''"
| "adaptivePressureLevelId High = ''high''"
| "adaptivePressureLevelId Critical = ''critical''"

section \<open>Classification\<close>

text \<open>The level with its reason; the reason of the normal level is empty.\<close>

definition pressureForSystem :: "SystemPressureSample \<Rightarrow> AdaptivePressureLevel \<times> string" where
  "pressureForSystem system =
     (let cpu = (case sp_cpuBusyRatio system of Some v \<Rightarrow> v | None \<Rightarrow> f64_of_ratio True 1 1);
          memory = (case sp_availableMemoryRatio system of Some v \<Rightarrow> v | None \<Rightarrow> ratio64 2 1);
          cpu_at = (\<lambda>n d. f64_le (ratio64 n d) cpu); memory_at = (\<lambda>n d. f64_le memory (ratio64 n d)) in
      if cpu_at 95 100 \<or> memory_at 8 100 then
        (Critical, if cpu_at 95 100 then ''system_cpu_critical'' else ''system_memory_critical'')
      else if cpu_at 85 100 \<or> memory_at 15 100 then
        (High, if cpu_at 85 100 then ''system_cpu_high'' else ''system_memory_low'')
      else if cpu_at 75 100 \<or> memory_at 25 100 then
        (Elevated, if cpu_at 75 100 then ''system_cpu_elevated'' else ''system_memory_elevated'')
      else (Normal, []))"

definition kBaseScriptPumpMs :: f64 where
  "kBaseScriptPumpMs = ratio64 16 1"

definition pressureForSoftware :: "AdaptivePerformanceInput \<Rightarrow> AdaptivePressureLevel \<times> string" where
  "pressureForSoftware i =
     (let rawWarnBytes = (if 0 < in_rawBacklogWarnBytes i then in_rawBacklogWarnBytes i else 32 * 1024 * 1024);
          rawBacklogRatio = f64_divide (f64_of_nat (in_pendingRxBytes i)) (f64_of_nat rawWarnBytes) in
      if f64_le (ratio64 2 1) rawBacklogRatio then (Critical, ''raw_backlog_critical'')
      else if f64_le (ratio64 1 1) rawBacklogRatio then (High, ''raw_backlog_high'')
      else if f64_le (ratio64 1 2) rawBacklogRatio then (Elevated, ''raw_backlog_elevated'')
      else
        let derivedBacklog =
          2000 \<le> in_pendingTransferFrameRows i \<or> 128 \<le> in_pendingPlotAppends i \<or>
          rawWarnBytes div 2 \<le> in_pendingWorkerRxBytes i \<or>
          128 \<le> in_workerInputQueueSize i \<or> 128 \<le> in_workerOutputQueueSize i in
        if derivedBacklog \<and> f64_le (f64_multiply kBaseScriptPumpMs (ratio64 2 1)) (in_scriptPumpMs i)
        then (High, ''software_backlog_high'')
        else if derivedBacklog \<or> f64_le kBaseScriptPumpMs (in_scriptPumpMs i)
        then (Elevated, ''software_backlog_elevated'')
        else (Normal, []))"

definition classifyPressure :: "AdaptivePerformanceInput \<Rightarrow> AdaptivePressureLevel \<times> string" where
  "classifyPressure i =
     (let (systemLevel, systemReason) = pressureForSystem (in_system i);
          (softwareLevel, softwareReason) = pressureForSoftware i in
      if pressureSeverity softwareLevel \<le> pressureSeverity systemLevel then (systemLevel, systemReason)
      else (softwareLevel, softwareReason))"

section \<open>The controller\<close>

definition renderMultiplier :: "f64 \<Rightarrow> AdaptivePressureLevel \<Rightarrow> f64" where
  "renderMultiplier maxMultiplier level = f64_max kMinMultiplier (f64_multiply maxMultiplier (pressureLevelFactor level))"

definition catchUpMultiplier :: "f64 \<Rightarrow> AdaptivePressureLevel \<Rightarrow> AdaptivePressureLevel \<Rightarrow> f64" where
  "catchUpMultiplier maxMultiplier systemLevel softwareLevel =
     (let catchUpFactor =
        (if systemLevel = Critical then ratio64 1 2
         else if systemLevel = High \<and> softwareLevel = Normal then ratio64 3 4 else ratio64 1 1) in
      f64_max kMinMultiplier (f64_multiply maxMultiplier catchUpFactor))"

definition refreshBudget :: "AdaptivePerformanceController \<Rightarrow> AdaptivePerformanceController" where
  "refreshBudget c =
     (let render = renderMultiplier (ap_maxMultiplier c) (as_pressureLevel (ap_status c));
          catchUp = catchUpMultiplier (ap_maxMultiplier c) (ap_systemLevel c) (ap_softwareLevel c) in
      c\<lparr>ap_status := (ap_status c)\<lparr>as_effectiveMultiplier := render, as_catchUpMultiplier := catchUp\<rparr>,
        ap_budget :=
          \<lparr>bg_fpsLimit = scaledFpsLimit 60 render, bg_maxRenderPointsPerChannel = scaledBudget 1200 render,
           bg_maxRenderVertices = scaledBudget 60000 render, bg_overviewMaxSamples = scaledBudget 20000 render,
           bg_rxChunkBytesPerPump = scaledBudget 4096 catchUp,
           bg_transferFrameRowsPerPump = scaledBudget 2000 catchUp, bg_plotAppendsPerPump = scaledBudget 128 catchUp,
           bg_workerOutputFlushBudgetMs = f64_multiply (ratio64 2 1) catchUp\<rparr>\<rparr>)"

definition new_AdaptivePerformanceController :: AdaptivePerformanceController where
  "new_AdaptivePerformanceController =
     \<lparr>ap_enabled = False, ap_maxMultiplier = one64,
      ap_budget =
        \<lparr>bg_fpsLimit = 60, bg_maxRenderPointsPerChannel = 1200, bg_maxRenderVertices = 60000,
         bg_overviewMaxSamples = 20000, bg_rxChunkBytesPerPump = 4096, bg_transferFrameRowsPerPump = 2000,
         bg_plotAppendsPerPump = 128, bg_workerOutputFlushBudgetMs = ratio64 2 1\<rparr>,
      ap_status =
        \<lparr>as_enabled = False, as_maxMultiplier = one64, as_effectiveMultiplier = one64, as_catchUpMultiplier = one64,
         as_pressureLevel = Normal, as_reason = ''disabled'', as_systemMetricsAvailable = False\<rparr>,
      ap_systemLevel = Normal, ap_softwareLevel = Normal, ap_lastSampleAtMs = 0, ap_hasSample = False,
      ap_healthySamples = 0\<rparr>"

definition configure :: "bool \<Rightarrow> f64 \<Rightarrow> AdaptivePerformanceController \<Rightarrow> AdaptivePerformanceController" where
  "configure enabled maxMultiplier c =
     (let m = normalizeMultiplier maxMultiplier in
      refreshBudget
        (c\<lparr>ap_enabled := enabled, ap_maxMultiplier := m, ap_lastSampleAtMs := 0, ap_hasSample := False,
           ap_healthySamples := 0,
           ap_status :=
             \<lparr>as_enabled = enabled, as_maxMultiplier = m, as_effectiveMultiplier = m, as_catchUpMultiplier = m,
              as_pressureLevel = Normal, as_reason = (if enabled then ''normal'' else ''disabled''),
              as_systemMetricsAvailable = False\<rparr>,
           ap_systemLevel := Normal, ap_softwareLevel := Normal\<rparr>))"

text \<open>The subtraction of the times wraps where the clock has gone back.\<close>

definition shouldSample :: "u64 \<Rightarrow> AdaptivePerformanceController \<Rightarrow> bool" where
  "shouldSample nowMs c \<longleftrightarrow> ap_enabled c \<and> (\<not> ap_hasSample c \<or> 1000 \<le> nowMs - ap_lastSampleAtMs c)"

definition kRecoverySamples :: nat where
  "kRecoverySamples = 5"

text \<open>The level and the number of healthy samples after a sample of the desired level.\<close>

definition next_level :: "AdaptivePressureLevel \<Rightarrow> AdaptivePressureLevel \<times> nat \<Rightarrow> AdaptivePressureLevel \<times> nat" where
  "next_level desired = (\<lambda>(level, healthy).
     if pressureSeverity level < pressureSeverity desired then (desired, 0)
     else if desired = Normal \<and> pressureSeverity desired < pressureSeverity level then
       (if kRecoverySamples \<le> healthy + 1 then (lowerPressureLevel level, 0) else (level, healthy + 1))
     else (level, 0))"

definition update :: "AdaptivePerformanceInput \<Rightarrow> AdaptivePerformanceController \<Rightarrow> AdaptivePerformanceController" where
  "update i c =
     (if \<not> shouldSample (in_nowMs i) c then c
      else
        let (desired, reason) = classifyPressure i;
            (level, healthy) = next_level desired (as_pressureLevel (ap_status c), ap_healthySamples c) in
        refreshBudget
          (c\<lparr>ap_lastSampleAtMs := in_nowMs i, ap_hasSample := True,
             ap_systemLevel := fst (pressureForSystem (in_system i)),
             ap_softwareLevel := fst (pressureForSoftware i), ap_healthySamples := healthy,
             ap_status := (ap_status c)\<lparr>
               as_systemMetricsAvailable :=
                 (sp_cpuBusyRatio (in_system i) \<noteq> None \<or> sp_availableMemoryRatio (in_system i) \<noteq> None),
               as_pressureLevel := level,
               as_reason :=
                 (if desired = Normal \<and> level \<noteq> Normal then ''recovery_wait''
                  else if reason = [] then ''normal'' else reason)\<rparr>\<rparr>))"

section \<open>Budgets grow with the multiplier\<close>

lemma f64_to_nat_one: "f64_to_nat one64 = 1"
  by (simp add: f64_to_nat_def one64_def f64_field_eval f64_round_eval)

lemma scaledBudget_bounds: "1 \<le> scaledBudget base m \<and> scaledBudget base m \<le> size_max"
proof -
  let ?s = "f64_round (f64_multiply (f64_of_nat base) m)"
  have n: "f64_nonneg one64" "f64_nonneg (f64_of_nat size_max)" by (simp_all add: one64_def f64_of_nat_def)
  show ?thesis
    using f64_to_nat_mono [of one64 ?s] f64_to_nat_one f64_to_nat_below [of ?s]
    by (auto simp: scaledBudget_def Let_def f64_nonneg_compare n size_max_pos)
qed

lemma scaledBudget_mono:
  assumes "f64_magnitude m \<le> f64_magnitude m'"
  shows "scaledBudget base m \<le> scaledBudget base m'"
proof -
  let ?s = "f64_round (f64_multiply (f64_of_nat base) m)" and ?t = "f64_round (f64_multiply (f64_of_nat base) m')"
  have n: "f64_nonneg one64" "f64_nonneg (f64_of_nat size_max)" by (simp_all add: one64_def f64_of_nat_def)
  have st: "f64_magnitude ?s \<le> f64_magnitude ?t" by (intro f64_round_mono f64_multiply_mono assms)
  show ?thesis
  proof (cases "f64_le ?s one64 \<or> f64_le (f64_of_nat size_max) ?t")
    case True
    then show ?thesis
      using scaledBudget_bounds [of base m] scaledBudget_bounds [of base m'] st
      by (auto simp: scaledBudget_def Let_def f64_nonneg_compare n)
  next
    case False
    then show ?thesis using st f64_to_nat_mono [OF st] by (simp add: scaledBudget_def Let_def f64_nonneg_compare n)
  qed
qed

lemma pressureLevelFactor_antitone:
  assumes "pressureSeverity l \<le> pressureSeverity l'"
  shows "f64_magnitude (pressureLevelFactor l') \<le> f64_magnitude (pressureLevelFactor l)"
  using assms by (cases l; cases l') (simp_all add: f64_of_ratio_mono)

lemma renderMultiplier_antitone:
  assumes "pressureSeverity l \<le> pressureSeverity l'"
  shows "f64_magnitude (renderMultiplier m l') \<le> f64_magnitude (renderMultiplier m l)"
  unfolding renderMultiplier_def
  by (intro f64_max_mono f64_multiply_mono pressureLevelFactor_antitone assms) (simp_all add: kMinMultiplier_def)

section \<open>The level follows the pressure\<close>

text \<open>The desired levels of the inputs that are sampled.\<close>

fun due_levels :: "AdaptivePerformanceController \<Rightarrow> AdaptivePerformanceInput list \<Rightarrow> AdaptivePressureLevel list" where
  "due_levels c [] = []"
| "due_levels c (i # is') =
     (if shouldSample (in_nowMs i) c then [fst (classifyPressure i)] else []) @ due_levels (update i c) is'"

definition level_state :: "AdaptivePerformanceController \<Rightarrow> AdaptivePressureLevel \<times> nat" where
  "level_state c = (as_pressureLevel (ap_status c), ap_healthySamples c)"

lemma level_refreshBudget [simp]: "level_state (refreshBudget c) = level_state c"
  by (simp add: level_state_def refreshBudget_def Let_def)

lemma level_update:
  "level_state (update i c) =
     (if shouldSample (in_nowMs i) c then next_level (fst (classifyPressure i)) (level_state c) else level_state c)"
  by (simp add: update_def split_beta Let_def) (simp add: level_state_def)

lemma level_run: "level_state (fold update is' c) = fold next_level (due_levels c is') (level_state c)"
  by (induction is' arbitrary: c) (simp_all add: level_update)

text \<open>A sample of age \<open>a\<close> with \<open>h\<close> healthy samples after the last change.\<close>

definition level_covers :: "AdaptivePressureLevel \<Rightarrow> nat \<Rightarrow> AdaptivePressureLevel \<times> nat \<Rightarrow> bool" where
  "level_covers d a = (\<lambda>(level, h). pressureSeverity d = 0 \<or>
     h \<le> a \<and> h < 5 \<and> pressureSeverity d \<le> pressureSeverity level + (a - h) div 5)"

lemma level_covers_step:
  assumes "level_covers d a s"
  shows "level_covers d (Suc a) (next_level d' s)"
proof -
  obtain level h where s: "s = (level, h)" by (cases s)
  show ?thesis
  proof (cases "pressureSeverity d = 0")
    case False
    then have c: "h \<le> a" "h < 5" "pressureSeverity d \<le> pressureSeverity level + (a - h) div 5"
      using assms by (simp_all add: level_covers_def s)
    have older: "(a - h) div 5 \<le> Suc a div 5" by (intro div_le_mono) simp
    consider (up) "pressureSeverity level < pressureSeverity d'"
      | (down) "d' = Normal" "pressureSeverity level \<noteq> 0" "h = 4"
      | (wait) "d' = Normal" "pressureSeverity level \<noteq> 0" "h < 4"
      | (stay) "\<not> pressureSeverity level < pressureSeverity d'" "\<not> (d' = Normal \<and> pressureSeverity level \<noteq> 0)"
      using c(2) by fastforce
    then show ?thesis
    proof cases
      case up
      then show ?thesis using c older by (simp add: s level_covers_def next_level_def)
    next
      case down
      obtain b where a: "a = 4 + b" using c(1) down(3) le_Suc_ex by blast
      have "pressureSeverity (lowerPressureLevel level) + 1 = pressureSeverity level" using down(2) by (cases level) simp_all
      then show ?thesis using c down a by (simp add: s level_covers_def next_level_def kRecoverySamples_def)
    next
      case wait
      then show ?thesis using c by (simp add: s level_covers_def next_level_def kRecoverySamples_def)
    next
      case stay
      then have "next_level d' s = (level, 0)" by (cases level) (auto simp: s next_level_def)
      then show ?thesis using c older by (simp add: level_covers_def)
    qed
  qed (simp add: level_covers_def split_beta)
qed

lemma level_covers_bound:
  assumes "level_covers d a s"
  shows "pressureSeverity d \<le> pressureSeverity (fst s) + a div 5"
proof -
  have "(a - snd s) div 5 \<le> a div 5" by (intro div_le_mono) simp
  then show ?thesis using assms by (cases s) (auto simp: level_covers_def)
qed

lemma level_run_fst:
  "level_state c = (Normal, 0) \<Longrightarrow>
   as_pressureLevel (ap_status (fold update is' c)) = fst (fold next_level (due_levels c is') (Normal, 0))"
  using level_run [of is' c] by (simp add: level_state_def prod_eq_iff)

lemma level_covers_new: "level_covers d 0 (next_level d (level, h))"
  by (cases d; cases level) (simp_all add: level_covers_def next_level_def kRecoverySamples_def)

lemma level_covers_fold: "level_covers d a s \<Longrightarrow> level_covers d (a + length ds) (fold next_level ds s)"
proof (induction ds arbitrary: a s)
  case (Cons d' ds)
  from Cons.IH [OF level_covers_step [OF Cons.prems]] show ?case by simp
qed simp

lemma level_covers_run:
  assumes "k < length ds"
  shows "level_covers (ds ! k) (length ds - Suc k) (fold next_level ds s)"
proof -
  have "fold next_level ds s = fold next_level (drop (Suc k) ds) (next_level (ds ! k) (fold next_level (take k ds) s))"
    using id_take_nth_drop [OF assms] by (metis append.simps fold_append fold_simps(2) o_apply)
  moreover obtain level h where "fold next_level (take k ds) s = (level, h)" by (metis surj_pair)
  ultimately show ?thesis
    using level_covers_fold [OF level_covers_new [of "ds ! k" level h], of "drop (Suc k) ds"] by simp
qed

text \<open>Fifteen normal samples lead from any level to the normal one.\<close>

lemma five_normal:
  "fold next_level (replicate 5 Normal) (level, h) = (l', h') \<Longrightarrow> pressureSeverity l' \<le> pressureSeverity level - 1"
  by (cases level)
    (auto simp: numeral_eq_Suc next_level_def kRecoverySamples_def split: if_splits)

lemma level_recovers:
  assumes "15 \<le> length ds" "\<forall>d \<in> set (drop (length ds - 15) ds). d = Normal"
  shows "fst (fold next_level ds s) = Normal"
proof -
  have "drop (length ds - 15) ds = replicate 15 Normal"
    using assms by (intro replicate_eqI) simp_all
  also have "\<dots> = replicate 5 Normal @ replicate 5 Normal @ replicate 5 Normal" by (simp flip: replicate_add)
  finally have ds: "ds = take (length ds - 15) ds @ replicate 5 Normal @ replicate 5 Normal @ replicate 5 Normal"
    by (metis append_take_drop_id)
  obtain l0 h0 where 0: "fold next_level (take (length ds - 15) ds) s = (l0, h0)" by (metis surj_pair)
  obtain l1 h1 where 1: "fold next_level (replicate 5 Normal) (l0, h0) = (l1, h1)" by (metis surj_pair)
  obtain l2 h2 where 2: "fold next_level (replicate 5 Normal) (l1, h1) = (l2, h2)" by (metis surj_pair)
  obtain l3 h3 where 3: "fold next_level (replicate 5 Normal) (l2, h2) = (l3, h3)" by (metis surj_pair)
  have "fold next_level ds s = (l3, h3)" by (subst ds) (simp only: fold_append o_apply 0 1 2 3)
  moreover have "pressureSeverity l3 \<le> pressureSeverity l0 - 3"
    using five_normal [OF 1] five_normal [OF 2] five_normal [OF 3] by linarith
  then have "pressureSeverity l3 = 0" by (cases l0) simp_all
  then have "l3 = Normal" by (cases l3) simp_all
  ultimately show ?thesis by simp
qed

lemma catchUpMultiplier_backlog:
  "f64_magnitude (catchUpMultiplier m l Normal) \<le> f64_magnitude (catchUpMultiplier m l l')"
  unfolding catchUpMultiplier_def Let_def
  by (intro f64_max_mono f64_multiply_mono) (auto simp: kMinMultiplier_def intro: f64_of_ratio_mono)

definition sample_input :: "u64 \<Rightarrow> nat \<Rightarrow> nat \<Rightarrow> AdaptivePerformanceInput" where
  "sample_input now n d =
     \<lparr>in_nowMs = now, in_system = \<lparr>sp_cpuBusyRatio = Some (ratio64 n d), sp_availableMemoryRatio = None\<rparr>,
      in_pendingRxBytes = 0, in_rawBacklogWarnBytes = 0, in_pendingTransferFrameRows = 0, in_pendingPlotAppends = 0,
      in_pendingWorkerRxBytes = 0, in_workerInputQueueSize = 0, in_workerOutputQueueSize = 0,
      in_scriptPumpMs = ratio64 0 1\<rparr>"

lemma refreshBudget_sampling [simp]:
  "ap_enabled (refreshBudget c) = ap_enabled c" "ap_hasSample (refreshBudget c) = ap_hasSample c"
  "ap_lastSampleAtMs (refreshBudget c) = ap_lastSampleAtMs c"
  by (simp_all add: refreshBudget_def Let_def)

text \<open>A sample is due again a second after the last one.\<close>

lemma shouldSample_later:
  "shouldSample (in_nowMs i) c \<Longrightarrow> shouldSample t (update i c) \<longleftrightarrow> 1000 \<le> t - in_nowMs i"
  by (simp add: update_def shouldSample_def split_beta Let_def)

lemma shouldSample_configured: "shouldSample t (configure enabled m c) \<longleftrightarrow> enabled"
  by (simp add: configure_def shouldSample_def Let_def)

text \<open>The comparisons that classify the two sample inputs.\<close>

lemma sample_system_levels:
  "\<not> f64_le (ratio64 95 100) (ratio64 80 100)" "\<not> f64_le (ratio64 85 100) (ratio64 80 100)" "f64_le (ratio64 75 100) (ratio64 80 100)"
  "\<not> f64_le (ratio64 95 100) (ratio64 10 100)" "\<not> f64_le (ratio64 85 100) (ratio64 10 100)" "\<not> f64_le (ratio64 75 100) (ratio64 10 100)"
  "\<not> f64_le (ratio64 2 1) (ratio64 8 100)" "\<not> f64_le (ratio64 2 1) (ratio64 15 100)" "\<not> f64_le (ratio64 2 1) (ratio64 25 100)"
  by (simp_all add: f64_field_eval f64_round_eval)

lemma sample_software_levels:
  "f64_divide (f64_of_nat 0) (f64_of_nat 33554432) = 0" "ratio64 0 1 = 0"
  "\<not> f64_le (ratio64 2 1) 0" "\<not> f64_le (ratio64 1 1) 0" "\<not> f64_le (ratio64 1 2) 0" "\<not> f64_le kBaseScriptPumpMs 0"
  by (simp_all add: kBaseScriptPumpMs_def f64_field_eval f64_round_eval)

lemma sample_levels:
  "fst (classifyPressure (sample_input t 80 100)) = Elevated" "fst (classifyPressure (sample_input t 10 100)) = Normal"
  by (simp_all add: classifyPressure_def pressureForSystem_def pressureForSoftware_def sample_input_def
      sample_system_levels sample_software_levels Let_def del: One_nat_def)

section \<open>Properties\<close>

text \<open>C30: The pressure level follows the pressure. After any inputs to a configured controller, the level is the one of the
  sampled pressures alone: it is at least the pressure of every sample, less one step for each five samples since,
  and after fifteen samples without pressure in a row it is normal.\<close>

theorem adaptive_level_tracks_pressure:
  "let c = configure enabled m c0; ds = due_levels c is'; level = as_pressureLevel (ap_status (fold update is' c)) in
     level = fst (fold next_level ds (Normal, 0)) \<and>
     (\<forall>k < length ds. pressureSeverity (ds ! k) \<le> pressureSeverity level + (length ds - Suc k) div 5) \<and>
     (15 \<le> length ds \<and> (\<forall>d \<in> set (drop (length ds - 15) ds). d = Normal) \<longrightarrow> level = Normal)"
proof -
  let ?c = "configure enabled m c0"
  let ?ds = "due_levels ?c is'" and ?level = "as_pressureLevel (ap_status (fold update is' ?c))"
  let ?s = "fold next_level ?ds (Normal, 0)"
  have "level_state ?c = (Normal, 0)" by (simp add: configure_def Let_def) (simp add: level_state_def)
  then have level: "?level = fst ?s" using level_run_fst by simp
  have "pressureSeverity (?ds ! k) \<le> pressureSeverity ?level + (length ?ds - Suc k) div 5" if "k < length ?ds" for k
    unfolding level by (rule level_covers_bound [OF level_covers_run [OF that]])
  moreover have "?level = Normal" if "15 \<le> length ?ds \<and> (\<forall>d \<in> set (drop (length ?ds - 15) ?ds). d = Normal)"
    unfolding level using that by (intro level_recovers) blast+
  ultimately show ?thesis unfolding Let_def using level by blast
qed

lemma adaptive_level_tracks_pressure_witness:
  "let c = configure True one64 new_AdaptivePerformanceController; is' = [sample_input 1000 80 100, sample_input 2500 10 100] in
     due_levels c is' = [Elevated, Normal] \<and> as_pressureLevel (ap_status (fold update is' c)) = Elevated"
proof -
  let ?c = "configure True one64 new_AdaptivePerformanceController"
  let ?is = "[sample_input 1000 80 100, sample_input 2500 10 100]"
  have "shouldSample (in_nowMs (sample_input 2500 10 100)) (update (sample_input 1000 80 100) ?c)"
    by (simp add: shouldSample_later shouldSample_configured) (simp add: sample_input_def)
  then have ds: "due_levels ?c ?is = [Elevated, Normal]" by (simp add: shouldSample_configured sample_levels)
  have "as_pressureLevel (ap_status (fold update ?is ?c)) = fst (fold next_level (due_levels ?c ?is) (Normal, 0))"
    using adaptive_level_tracks_pressure [of True one64 new_AdaptivePerformanceController ?is] unfolding Let_def by blast
  moreover have "fst (fold next_level [Elevated, Normal] (Normal, 0)) = Elevated"
    by (simp add: next_level_def kRecoverySamples_def)
  ultimately show ?thesis by (simp only: ds Let_def simp_thms)
qed

text \<open>C31: Higher pressure never gets a larger rendering budget, no budget is ever empty, and a backlog of the
  program alone never makes the budgets for working it off smaller.\<close>

theorem adaptive_budget_monotone:
  assumes "ap_maxMultiplier c' = ap_maxMultiplier c"
    and "pressureSeverity (as_pressureLevel (ap_status c)) \<le> pressureSeverity (as_pressureLevel (ap_status c'))"
  shows "let b = ap_budget (refreshBudget c); b' = ap_budget (refreshBudget c') in
     bg_fpsLimit b' \<le> bg_fpsLimit b \<and> bg_maxRenderPointsPerChannel b' \<le> bg_maxRenderPointsPerChannel b \<and>
     bg_maxRenderVertices b' \<le> bg_maxRenderVertices b \<and> bg_overviewMaxSamples b' \<le> bg_overviewMaxSamples b \<and>
     list_all (\<lambda>n. 1 \<le> n) [bg_fpsLimit b', bg_maxRenderPointsPerChannel b', bg_maxRenderVertices b', bg_overviewMaxSamples b',
       bg_rxChunkBytesPerPump b', bg_transferFrameRowsPerPump b', bg_plotAppendsPerPump b'] \<and>
     (ap_systemLevel c = ap_systemLevel c' \<and> ap_softwareLevel c = Normal \<longrightarrow>
        bg_rxChunkBytesPerPump b \<le> bg_rxChunkBytesPerPump b' \<and>
        bg_transferFrameRowsPerPump b \<le> bg_transferFrameRowsPerPump b' \<and> bg_plotAppendsPerPump b \<le> bg_plotAppendsPerPump b')"
proof -
  have render: "scaledBudget n (renderMultiplier (ap_maxMultiplier c) (as_pressureLevel (ap_status c'))) \<le>
      scaledBudget n (renderMultiplier (ap_maxMultiplier c) (as_pressureLevel (ap_status c)))" for n
    by (intro scaledBudget_mono renderMultiplier_antitone assms(2))
  have one: "Suc 0 \<le> scaledBudget n x" for n x using scaledBudget_bounds [of n x] by simp
  have catchUp: "scaledBudget n (catchUpMultiplier m l Normal) \<le> scaledBudget n (catchUpMultiplier m l l')" for n m l l'
    by (intro scaledBudget_mono catchUpMultiplier_backlog)
  show ?thesis
    by (auto simp: refreshBudget_def Let_def scaledFpsLimit_def assms(1) render one catchUp min.coboundedI1)
qed

lemma adaptive_budget_monotone_witness:
  "bg_maxRenderVertices (ap_budget (refreshBudget (new_AdaptivePerformanceController
       \<lparr>ap_status := ap_status new_AdaptivePerformanceController\<lparr>as_pressureLevel := High\<rparr>\<rparr>)))
     \<le> bg_maxRenderVertices (ap_budget (refreshBudget new_AdaptivePerformanceController))"
  using adaptive_budget_monotone [of "new_AdaptivePerformanceController
       \<lparr>ap_status := ap_status new_AdaptivePerformanceController\<lparr>as_pressureLevel := High\<rparr>\<rparr>" new_AdaptivePerformanceController]
  by (simp add: Let_def new_AdaptivePerformanceController_def)

end
