(* ===== verification/Wave_Summary.thy ===== *)
theory Wave_Summary
  imports Ieee754_Arithmetic
begin

text \<open>
  Samples and the summaries of their ranges, from \<open>plot/oscilloscope.hpp\<close>, \<open>plot/wave_query.hpp\<close> and the
  first part of \<open>plot/wave_query.cc\<close>: \<open>waveRawBits\<close>, \<open>merge\<close> and \<open>scan\<close>. A summary holds the count, the
  extremes, the raw bits, the time steps and the strongest rise and fall of a range of samples. Merging is
  associative on the summaries of ranges, although it compares and subtracts doubles; the locale
  \<open>range_monoid\<close> draws from it that a range may be cut anywhere.
\<close>

section \<open>Samples and raw bits\<close>

record WaveSample =
  sm_time :: f64
  sm_value :: f64

text \<open>The digital reading of a value: its whole part, saturated.\<close>

definition waveRawBits :: "f64 \<Rightarrow> u64" where
  "waveRawBits value =
     (if \<not> f64_isfinite value \<or> f64_le value 0 then 0
      else if f64_le (f64_of_nat size_max) value then - 1
      else word_of_nat (f64_to_nat value))"

section \<open>Summaries\<close>

record WaveSummary =
  ws_count :: nat
  ws_first :: nat
  ws_last :: nat
  ws_minimum :: nat
  ws_maximum :: nat
  ws_minValue :: f64
  ws_maxValue :: f64
  ws_firstBits :: u64
  ws_lastBits :: u64
  ws_bitsAnd :: u64
  ws_bitsOr :: u64
  ws_firstTime :: f64
  ws_lastTime :: f64
  ws_minStep :: f64
  ws_timeIncreasing :: bool
  ws_finiteCount :: nat
  ws_firstValue :: f64
  ws_lastValue :: f64
  ws_rise :: "f64 \<times> nat"
  ws_fall :: "f64 \<times> nat"

text \<open>\<open>WaveSummary{}\<close>. A strength and the index before it are one field here, \<open>(rise, riseBefore)\<close>.\<close>

definition empty_summary :: WaveSummary where
  "empty_summary =
     \<lparr>ws_count = 0, ws_first = 0, ws_last = 0, ws_minimum = 0, ws_maximum = 0, ws_minValue = 0, ws_maxValue = 0,
      ws_firstBits = 0, ws_lastBits = 0, ws_bitsAnd = 0, ws_bitsOr = 0, ws_firstTime = 0, ws_lastTime = 0,
      ws_minStep = 0, ws_timeIncreasing = False, ws_finiteCount = 0, ws_firstValue = 0, ws_lastValue = 0,
      ws_rise = (0, 0), ws_fall = (0, 0)\<rparr>"

text \<open>The summary of one sample, as \<open>scan\<close> makes it.\<close>

definition point_summary :: "nat \<Rightarrow> WaveSample \<Rightarrow> WaveSummary" where
  "point_summary i s =
     (let value = sm_value s; bits = waveRawBits value; time = sm_time s in
      \<lparr>ws_count = 1, ws_first = i, ws_last = i, ws_minimum = i, ws_maximum = i, ws_minValue = value, ws_maxValue = value,
       ws_firstBits = bits, ws_lastBits = bits, ws_bitsAnd = bits, ws_bitsOr = bits, ws_firstTime = time, ws_lastTime = time,
       ws_minStep = 0, ws_timeIncreasing = f64_isfinite time, ws_finiteCount = (if f64_isfinite value then 1 else 0),
       ws_firstValue = value, ws_lastValue = value, ws_rise = (0, 0), ws_fall = (0, 0)\<rparr>)"

definition f64_equal :: "f64 \<Rightarrow> f64 \<Rightarrow> bool" where
  "f64_equal a b \<longleftrightarrow> f64_le a b \<and> f64_le b a"

text \<open>The lambda \<open>keep\<close>: the stronger jump, and the earlier one of two of the same strength.\<close>

fun keep :: "f64 \<Rightarrow> nat \<Rightarrow> f64 \<times> nat \<Rightarrow> f64 \<times> nat" where
  "keep strength before (best, bestBefore) =
     (if f64_less best strength \<or> f64_less 0 strength \<and> f64_equal strength best \<and> before < bestBefore
      then (strength, before) else (best, bestBefore))"

text \<open>The conditions under which a step is taken for the least, and a value for the extreme.\<close>

definition shorter :: "f64 \<Rightarrow> f64 \<Rightarrow> bool" where
  "shorter new old \<longleftrightarrow> f64_less 0 new \<and> (f64_equal old 0 \<or> f64_less new old)"

definition lower :: "f64 \<Rightarrow> f64 \<Rightarrow> bool" where
  "lower v w \<longleftrightarrow> (f64_less w v \<or> \<not> f64_isfinite v) \<and> f64_isfinite w"

definition higher :: "f64 \<Rightarrow> f64 \<Rightarrow> bool" where
  "higher v w \<longleftrightarrow> (f64_less v w \<or> \<not> f64_isfinite v) \<and> f64_isfinite w"

definition merge :: "WaveSummary \<Rightarrow> WaveSummary \<Rightarrow> WaveSummary" where
  "merge a b =
     (if ws_count a = 0 then b
      else if ws_count b = 0 then a
      else
        let joined = f64_isfinite (ws_lastValue a) \<and> f64_isfinite (ws_firstValue b) \<and> ws_last a + 1 = ws_first b;
            delta = f64_subtract (ws_firstValue b) (ws_lastValue a);
            rise = keep (fst (ws_rise b)) (snd (ws_rise b)) (ws_rise a);
            fall = keep (fst (ws_fall b)) (snd (ws_fall b)) (ws_fall a);
            step = f64_subtract (ws_firstTime b) (ws_lastTime a);
            minStep = (if shorter step (ws_minStep a) then step else ws_minStep a) in
        \<lparr>ws_count = ws_count a + ws_count b, ws_first = ws_first a, ws_last = ws_last b,
         ws_minimum = (if lower (ws_minValue a) (ws_minValue b) then ws_minimum b else ws_minimum a),
         ws_maximum = (if higher (ws_maxValue a) (ws_maxValue b) then ws_maximum b else ws_maximum a),
         ws_minValue = (if lower (ws_minValue a) (ws_minValue b) then ws_minValue b else ws_minValue a),
         ws_maxValue = (if higher (ws_maxValue a) (ws_maxValue b) then ws_maxValue b else ws_maxValue a),
         ws_firstBits = ws_firstBits a, ws_lastBits = ws_lastBits b,
         ws_bitsAnd = ws_bitsAnd a AND ws_bitsAnd b, ws_bitsOr = ws_bitsOr a OR ws_bitsOr b,
         ws_firstTime = ws_firstTime a, ws_lastTime = ws_lastTime b,
         ws_minStep = (if shorter (ws_minStep b) minStep then ws_minStep b else minStep),
         ws_timeIncreasing = (ws_timeIncreasing a \<and> ws_timeIncreasing b \<and> f64_less 0 step),
         ws_finiteCount = ws_finiteCount a + ws_finiteCount b,
         ws_firstValue = ws_firstValue a, ws_lastValue = ws_lastValue b,
         ws_rise = (if joined then keep delta (ws_last a) rise else rise),
         ws_fall = (if joined then keep (f64_negate delta) (ws_last a) fall else fall)\<rparr>)"

section \<open>Merging is associative\<close>

lemma f64_key_zero [simp]: "f64_key 0 = 0"
  by (simp add: f64_key_def f64_magnitude_def f64_sign_def)

lemma f64_nan_zero [simp]: "\<not> f64_isnan 0"
  by (simp add: f64_isnan_def f64_magnitude_def)

text \<open>The order of strengths: positive doubles are determined by their keys.\<close>

lemma f64_key_positive: "f64_less 0 a \<Longrightarrow> f64_less 0 b \<Longrightarrow> f64_key a = f64_key b \<Longrightarrow> a = b"
proof -
  assume p: "f64_less 0 a" "f64_less 0 b" and k: "f64_key a = f64_key b"
  then have "0 < f64_key a" "0 < f64_key b" by (simp_all add: f64_less_def)
  then have s: "\<not> f64_sign a" "\<not> f64_sign b" by (simp_all add: f64_key_def split: if_splits)
  then have "f64_magnitude a = f64_magnitude b" using k by (simp add: f64_key_def)
  then show ?thesis using s by (simp add: f64_magnitude_def f64_sign_def word_unat_eq_iff)
qed

text \<open>A jump is none at all, or one of positive strength.\<close>

definition jump_ok :: "f64 \<times> nat \<Rightarrow> bool" where
  "jump_ok p \<longleftrightarrow> p = (0, 0) \<or> f64_less 0 (fst p)"

definition jump_of :: "f64 \<Rightarrow> nat \<Rightarrow> f64 \<times> nat" where
  "jump_of strength before = (if f64_less 0 strength then (strength, before) else (0, 0))"

definition jump_max :: "f64 \<times> nat \<Rightarrow> f64 \<times> nat \<Rightarrow> f64 \<times> nat" where
  "jump_max p q =
     (if f64_key (fst p) < f64_key (fst q) \<or> f64_key (fst p) = f64_key (fst q) \<and> snd q < snd p then q else p)"

lemma jump_of_ok [simp]: "jump_ok (jump_of s b)"
  by (simp add: jump_ok_def jump_of_def)

lemma jump_max_ok [simp]: "jump_ok p \<Longrightarrow> jump_ok q \<Longrightarrow> jump_ok (jump_max p q)"
  by (simp add: jump_max_def)

lemma keep_jump: "jump_ok p \<Longrightarrow> keep strength before p = jump_max p (jump_of strength before)"
  by (cases p) (auto simp: jump_ok_def jump_of_def jump_max_def f64_less_def f64_equal_def f64_le_def)

lemma jump_of_self: "jump_ok p \<Longrightarrow> jump_of (fst p) (snd p) = p"
  by (auto simp: jump_ok_def jump_of_def f64_less_irrefl)

lemma jump_key: "jump_ok p \<Longrightarrow> jump_ok q \<Longrightarrow> f64_key (fst p) = f64_key (fst q) \<Longrightarrow> snd p = snd q \<Longrightarrow> p = q"
  by (cases p; cases q) (auto simp: jump_ok_def f64_less_def intro: f64_key_positive)

lemma jump_max_commute: "jump_ok p \<Longrightarrow> jump_ok q \<Longrightarrow> jump_max p q = jump_max q p"
  using jump_key [of p q] by (auto simp: jump_max_def)

lemma jump_max_assoc: "jump_max (jump_max p q) r = jump_max p (jump_max q r)"
  by (auto simp: jump_max_def)

lemma jump_max_left_commute:
  "jump_ok p \<Longrightarrow> jump_ok q \<Longrightarrow> jump_max p (jump_max q r) = jump_max q (jump_max p r)"
  using jump_max_commute [of p q] by (simp flip: jump_max_assoc)

lemmas jump_max_ac = jump_max_assoc jump_max_commute jump_max_left_commute

lemma jump_max_none [simp]: "jump_ok p \<Longrightarrow> jump_max p (0, 0) = p"
  by (cases p) (auto simp: jump_ok_def jump_max_def f64_less_def)

text \<open>Steps in time: none, or positive.\<close>

definition step_ok :: "f64 \<Rightarrow> bool" where
  "step_ok x \<longleftrightarrow> x = 0 \<or> f64_less 0 x"

definition step_of :: "f64 \<Rightarrow> f64" where
  "step_of x = (if f64_less 0 x then x else 0)"

definition step_min :: "f64 \<Rightarrow> f64 \<Rightarrow> f64" where
  "step_min x y = (if f64_key y = 0 then x else if f64_key x = 0 \<or> f64_key y < f64_key x then y else x)"

lemma step_of_ok [simp]: "step_ok (step_of x)"
  by (simp add: step_ok_def step_of_def)

lemma step_of_self: "step_ok x \<Longrightarrow> step_of x = x"
  by (auto simp: step_ok_def step_of_def)

lemma step_min_ok [simp]: "step_ok x \<Longrightarrow> step_ok y \<Longrightarrow> step_ok (step_min x y)"
  by (simp add: step_min_def)

lemma shorter_step:
  "step_ok old \<Longrightarrow> (if shorter new old then new else old) = step_min old (step_of new)"
  by (auto simp: shorter_def step_ok_def step_of_def step_min_def f64_less_def f64_equal_def f64_le_def)

lemma step_min_assoc: "step_min (step_min x y) z = step_min x (step_min y z)"
  by (auto simp: step_min_def)

lemma step_min_commute: "step_ok x \<Longrightarrow> step_ok y \<Longrightarrow> step_min x y = step_min y x"
  by (auto simp: step_min_def step_ok_def f64_less_def intro: f64_key_positive)

lemma step_min_left_commute: "step_ok x \<Longrightarrow> step_ok y \<Longrightarrow> step_min x (step_min y z) = step_min y (step_min x z)"
  using step_min_commute [of x y] by (simp flip: step_min_assoc)

lemmas step_min_ac = step_min_assoc step_min_commute step_min_left_commute

text \<open>Extremes: the first finite value no other is below, or the first value where none is finite.\<close>

lemma lower_trans: "lower u v \<Longrightarrow> lower v w \<Longrightarrow> lower u w"
  by (auto simp: lower_def f64_less_def)

lemma lower_next: "\<not> lower u v \<Longrightarrow> lower u w \<Longrightarrow> lower v w"
  by (auto simp: lower_def f64_less_def f64_isfinite_not_nan)

lemma higher_trans: "higher u v \<Longrightarrow> higher v w \<Longrightarrow> higher u w"
  by (auto simp: higher_def f64_less_def)

lemma higher_next: "\<not> higher u v \<Longrightarrow> higher u w \<Longrightarrow> higher v w"
  by (auto simp: higher_def f64_less_def f64_isfinite_not_nan)

text \<open>A summary is empty, or its jumps and its step are as above.\<close>

definition summary_ok :: "WaveSummary \<Rightarrow> bool" where
  "summary_ok a \<longleftrightarrow>
     (ws_count a = 0 \<longrightarrow> a = empty_summary) \<and> jump_ok (ws_rise a) \<and> jump_ok (ws_fall a) \<and> step_ok (ws_minStep a)"

definition link_rise :: "WaveSummary \<Rightarrow> WaveSummary \<Rightarrow> f64 \<times> nat" where
  "link_rise a b =
     (if f64_isfinite (ws_lastValue a) \<and> f64_isfinite (ws_firstValue b) \<and> ws_last a + 1 = ws_first b
      then jump_of (f64_subtract (ws_firstValue b) (ws_lastValue a)) (ws_last a) else (0, 0))"

definition link_fall :: "WaveSummary \<Rightarrow> WaveSummary \<Rightarrow> f64 \<times> nat" where
  "link_fall a b =
     (if f64_isfinite (ws_lastValue a) \<and> f64_isfinite (ws_firstValue b) \<and> ws_last a + 1 = ws_first b
      then jump_of (f64_negate (f64_subtract (ws_firstValue b) (ws_lastValue a))) (ws_last a) else (0, 0))"

definition link_step :: "WaveSummary \<Rightarrow> WaveSummary \<Rightarrow> f64" where
  "link_step a b = f64_subtract (ws_firstTime b) (ws_lastTime a)"

lemma link_ok [simp]: "jump_ok (link_rise a b)" "jump_ok (link_fall a b)"
  by (simp_all add: link_rise_def link_fall_def) (simp_all add: jump_ok_def)

lemma merge_fields:
  assumes "ws_count a \<noteq> 0" "ws_count b \<noteq> 0"
  shows "ws_count (merge a b) = ws_count a + ws_count b" "ws_first (merge a b) = ws_first a" "ws_last (merge a b) = ws_last b"
    "ws_minimum (merge a b) = (if lower (ws_minValue a) (ws_minValue b) then ws_minimum b else ws_minimum a)"
    "ws_maximum (merge a b) = (if higher (ws_maxValue a) (ws_maxValue b) then ws_maximum b else ws_maximum a)"
    "ws_minValue (merge a b) = (if lower (ws_minValue a) (ws_minValue b) then ws_minValue b else ws_minValue a)"
    "ws_maxValue (merge a b) = (if higher (ws_maxValue a) (ws_maxValue b) then ws_maxValue b else ws_maxValue a)"
    "ws_firstBits (merge a b) = ws_firstBits a" "ws_lastBits (merge a b) = ws_lastBits b"
    "ws_bitsAnd (merge a b) = ws_bitsAnd a AND ws_bitsAnd b" "ws_bitsOr (merge a b) = ws_bitsOr a OR ws_bitsOr b"
    "ws_firstTime (merge a b) = ws_firstTime a" "ws_lastTime (merge a b) = ws_lastTime b"
    "ws_timeIncreasing (merge a b) = (ws_timeIncreasing a \<and> ws_timeIncreasing b \<and> f64_less 0 (link_step a b))"
    "ws_finiteCount (merge a b) = ws_finiteCount a + ws_finiteCount b"
    "ws_firstValue (merge a b) = ws_firstValue a" "ws_lastValue (merge a b) = ws_lastValue b"
  using assms by (simp_all add: merge_def Let_def link_step_def)

lemma merge_jumps:
  assumes "ws_count a \<noteq> 0" "ws_count b \<noteq> 0" "summary_ok a" "summary_ok b"
  shows "ws_rise (merge a b) = jump_max (jump_max (ws_rise a) (ws_rise b)) (link_rise a b)"
    "ws_fall (merge a b) = jump_max (jump_max (ws_fall a) (ws_fall b)) (link_fall a b)"
    "ws_minStep (merge a b) = step_min (step_min (ws_minStep a) (step_of (link_step a b))) (ws_minStep b)"
proof -
  have ok: "jump_ok (ws_rise a)" "jump_ok (ws_rise b)" "jump_ok (ws_fall a)" "jump_ok (ws_fall b)"
    "step_ok (ws_minStep a)" "step_ok (ws_minStep b)" using assms(3,4) by (simp_all add: summary_ok_def)
  show "ws_rise (merge a b) = jump_max (jump_max (ws_rise a) (ws_rise b)) (link_rise a b)"
    using assms(1,2) ok
    by (simp add: merge_def Let_def keep_jump jump_of_self link_rise_def del: keep.simps)
  show "ws_fall (merge a b) = jump_max (jump_max (ws_fall a) (ws_fall b)) (link_fall a b)"
    using assms(1,2) ok
    by (simp add: merge_def Let_def keep_jump jump_of_self link_fall_def del: keep.simps)
  show "ws_minStep (merge a b) = step_min (step_min (ws_minStep a) (step_of (link_step a b))) (ws_minStep b)"
    using assms(1,2) ok by (simp add: merge_def Let_def shorter_step step_of_self link_step_def)
qed

lemma merge_empty [simp]: "merge empty_summary b = b" "summary_ok a \<Longrightarrow> merge a empty_summary = a"
  by (auto simp: merge_def empty_summary_def summary_ok_def)

lemma empty_summary_ok [simp]: "summary_ok empty_summary"
  by (simp add: summary_ok_def empty_summary_def jump_ok_def step_ok_def)

lemma merge_ok [simp]:
  assumes "summary_ok a" "summary_ok b"
  shows "summary_ok (merge a b)"
proof (cases "ws_count a = 0 \<or> ws_count b = 0")
  case True
  then show ?thesis using assms by (auto simp: merge_def)
next
  case False
  then show ?thesis
    using assms by (simp add: summary_ok_def [of "merge a b"] merge_fields merge_jumps) (simp add: summary_ok_def)
qed

lemma merge_links:
  assumes "ws_count a \<noteq> 0" "ws_count b \<noteq> 0"
  shows "link_rise (merge a b) c = link_rise b c" "link_fall (merge a b) c = link_fall b c" "link_step (merge a b) c = link_step b c"
    "link_rise c (merge a b) = link_rise c a" "link_fall c (merge a b) = link_fall c a" "link_step c (merge a b) = link_step c a"
  using assms by (simp_all add: merge_fields link_rise_def link_fall_def link_step_def)

lemma merge_zero: "ws_count a = 0 \<Longrightarrow> merge a b = b" "ws_count a \<noteq> 0 \<Longrightarrow> ws_count b = 0 \<Longrightarrow> merge a b = a"
  by (simp_all add: merge_def)

lemma lower_cases:
  "(if lower (if lower u v then v else u) w then z else if lower u v then y else x) =
   (if lower u (if lower v w then w else v) then if lower v w then z else y else x)"
  using lower_trans [of u v w] lower_next [of u v w] by auto

lemma higher_cases:
  "(if higher (if higher u v then v else u) w then z else if higher u v then y else x) =
   (if higher u (if higher v w then w else v) then if higher v w then z else y else x)"
  using higher_trans [of u v w] higher_next [of u v w] by auto

lemma merge_assoc:
  assumes "summary_ok a" "summary_ok b" "summary_ok c"
  shows "merge (merge a b) c = merge a (merge b c)"
proof (cases "ws_count a = 0 \<or> ws_count b = 0 \<or> ws_count c = 0")
  case True
  then show ?thesis
    by (cases "ws_count a = 0"; cases "ws_count b = 0") (simp_all add: merge_zero merge_fields)
next
  case False
  then have n: "ws_count a \<noteq> 0" "ws_count b \<noteq> 0" "ws_count c \<noteq> 0"
    "ws_count (merge a b) \<noteq> 0" "ws_count (merge b c) \<noteq> 0" by (simp_all add: merge_fields)
  have ab: "summary_ok (merge a b)" "summary_ok (merge b c)" using assms by simp_all
  note fields = merge_fields [OF n(1,2)] merge_fields [OF n(2,3)] merge_fields [OF n(4,3)] merge_fields [OF n(1,5)]
  note jumps = merge_jumps [OF n(1,2) assms(1,2)] merge_jumps [OF n(2,3) assms(2,3)]
    merge_jumps [OF n(4,3) ab(1) assms(3)] merge_jumps [OF n(1,5) assms(1) ab(2)]
  note links = merge_links [OF n(1,2)] merge_links [OF n(2,3)]
  have ok: "jump_ok (ws_rise a)" "jump_ok (ws_rise b)" "jump_ok (ws_rise c)" "jump_ok (ws_fall a)" "jump_ok (ws_fall b)"
    "jump_ok (ws_fall c)" "step_ok (ws_minStep a)" "step_ok (ws_minStep b)" "step_ok (ws_minStep c)"
    using assms by (simp_all add: summary_ok_def)
  show ?thesis
  proof (rule WaveSummary.equality)
    show "ws_minimum (merge (merge a b) c) = ws_minimum (merge a (merge b c))" by (simp only: fields lower_cases)
    show "ws_maximum (merge (merge a b) c) = ws_maximum (merge a (merge b c))" by (simp only: fields higher_cases)
    show "ws_minValue (merge (merge a b) c) = ws_minValue (merge a (merge b c))" by (simp only: fields lower_cases)
    show "ws_maxValue (merge (merge a b) c) = ws_maxValue (merge a (merge b c))" by (simp only: fields higher_cases)
    show "ws_rise (merge (merge a b) c) = ws_rise (merge a (merge b c))" using ok by (simp add: jumps links jump_max_ac)
    show "ws_fall (merge (merge a b) c) = ws_fall (merge a (merge b c))" using ok by (simp add: jumps links jump_max_ac)
    show "ws_minStep (merge (merge a b) c) = ws_minStep (merge a (merge b c))" using ok by (simp add: jumps links step_min_ac)
  qed (simp_all add: fields links ac_simps)
qed

section \<open>Ranges\<close>

text \<open>The sum of \<open>f lo, ..., f (hi - 1)\<close>.\<close>

definition range_sum :: "('a \<Rightarrow> 'a \<Rightarrow> 'a) \<Rightarrow> 'a \<Rightarrow> (nat \<Rightarrow> 'a) \<Rightarrow> nat \<Rightarrow> nat \<Rightarrow> 'a" where
  "range_sum join unit f lo hi = foldl join unit (map f [lo..<hi])"

text \<open>What partial sums need: an associative operation with a unit, on a set it does not leave.\<close>

locale range_monoid =
  fixes join :: "'a \<Rightarrow> 'a \<Rightarrow> 'a" and unit :: 'a and ok :: "'a \<Rightarrow> bool"
  assumes unit_ok: "ok unit"
    and join_ok: "ok x \<Longrightarrow> ok y \<Longrightarrow> ok (join x y)"
    and join_unit: "ok x \<Longrightarrow> join unit x = x" "ok x \<Longrightarrow> join x unit = x"
    and join_assoc: "ok x \<Longrightarrow> ok y \<Longrightarrow> ok z \<Longrightarrow> join (join x y) z = join x (join y z)"
begin

lemma fold_ok: "ok x \<Longrightarrow> list_all ok ys \<Longrightarrow> ok (foldl join x ys)"
  by (induction ys arbitrary: x) (simp_all add: join_ok)

lemma join_fold: "ok x \<Longrightarrow> list_all ok ys \<Longrightarrow> join x (foldl join unit ys) = foldl join x ys"
proof (induction ys rule: rev_induct)
  case (snoc y ys)
  then show ?case by (simp add: join_assoc [symmetric] fold_ok unit_ok)
qed (simp add: join_unit)

lemma sum_ok: "(\<And>i. ok (f i)) \<Longrightarrow> ok (range_sum join unit f lo hi)"
  by (simp add: range_sum_def fold_ok unit_ok list_all_iff)

lemma sum_split:
  assumes "lo \<le> m" "m \<le> hi" "\<And>i. ok (f i)"
  shows "join (range_sum join unit f lo m) (range_sum join unit f m hi) = range_sum join unit f lo hi"
proof -
  have "[lo..<hi] = [lo..<m] @ [m..<hi]" using assms(1,2) by (metis le_add_diff_inverse upt_add_eq_append)
  then show ?thesis
    unfolding range_sum_def
    by (simp add: join_fold fold_ok unit_ok list_all_iff assms(3) flip: foldl_append map_append)
qed

end

lemma range_sum_single: "range_sum join unit f i (Suc i) = join unit (f i)"
  by (simp add: range_sum_def)

lemma range_sum_empty [simp]: "hi \<le> lo \<Longrightarrow> range_sum join unit f lo hi = unit"
  by (simp add: range_sum_def)

lemma range_sum_cong: "(\<And>i. lo \<le> i \<Longrightarrow> i < hi \<Longrightarrow> f i = g i) \<Longrightarrow> range_sum join unit f lo hi = range_sum join unit g lo hi"
  unfolding range_sum_def by (rule arg_cong [where f = "foldl join unit"]) simp

interpretation summaries: range_monoid merge empty_summary summary_ok
  by unfold_locales (simp_all add: merge_assoc)

lemma point_summary_ok [simp]: "summary_ok (point_summary i s)"
  by (simp add: summary_ok_def point_summary_def jump_ok_def step_ok_def Let_def)

text \<open>\<open>scan\<close>; its counter is kept by the callers.\<close>

definition scan :: "WaveSample list \<Rightarrow> nat \<Rightarrow> nat \<Rightarrow> nat \<Rightarrow> WaveSummary" where
  "scan samples offset begin end' =
     foldl (\<lambda>result i. merge result (point_summary i (samples ! (i - offset)))) empty_summary [begin..<end']"

text \<open>The summary of a range of an unbounded sequence of samples.\<close>

definition summary_of :: "(nat \<Rightarrow> WaveSample) \<Rightarrow> nat \<Rightarrow> nat \<Rightarrow> WaveSummary" where
  "summary_of s = range_sum merge empty_summary (\<lambda>i. point_summary i (s i))"

lemma scan_summary: "scan samples offset lo hi = summary_of (\<lambda>i. samples ! (i - offset)) lo hi"
  by (simp add: scan_def summary_of_def range_sum_def foldl_map)

lemma summary_of_ok [simp]: "summary_ok (summary_of s lo hi)"
  by (simp add: summary_of_def summaries.sum_ok)

lemma summary_of_split:
  "lo \<le> m \<Longrightarrow> m \<le> hi \<Longrightarrow> merge (summary_of s lo m) (summary_of s m hi) = summary_of s lo hi"
  by (simp add: summary_of_def summaries.sum_split)

lemma summary_of_empty [simp]: "hi \<le> lo \<Longrightarrow> summary_of s lo hi = empty_summary"
  by (simp add: summary_of_def)

lemma summary_of_single: "summary_of s i (Suc i) = point_summary i (s i)"
  by (simp add: summary_of_def range_sum_single)

lemma summary_of_cong: "(\<And>i. lo \<le> i \<Longrightarrow> i < hi \<Longrightarrow> s i = t i) \<Longrightarrow> summary_of s lo hi = summary_of t lo hi"
  unfolding summary_of_def by (rule range_sum_cong) simp

lemma summary_of_Suc:
  "lo \<le> hi \<Longrightarrow> summary_of s lo (Suc hi) = merge (summary_of s lo hi) (point_summary hi (s hi))"
  using summary_of_split [of lo hi "Suc hi" s] by (simp add: summary_of_single)

lemma point_summary_count [simp]: "ws_count (point_summary i s) = 1"
  by (simp add: point_summary_def Let_def)

lemma merge_count: "summary_ok a \<Longrightarrow> summary_ok b \<Longrightarrow> ws_count (merge a b) = ws_count a + ws_count b"
  by (cases "ws_count a = 0"; cases "ws_count b = 0") (simp_all add: merge_zero merge_fields)

lemma summary_of_count [simp]: "ws_count (summary_of s lo hi) = hi - lo"
proof (induction hi)
  case (Suc hi)
  then show ?case by (cases "lo \<le> hi") (simp_all add: summary_of_Suc merge_count Suc_diff_le empty_summary_def)
qed (simp add: empty_summary_def)

text \<open>What the fields of the summary of a range say.\<close>

lemma summary_of_ends:
  assumes "lo < hi"
  shows "ws_first (summary_of s lo hi) = lo \<and> ws_last (summary_of s lo hi) = hi - 1 \<and>
    ws_firstBits (summary_of s lo hi) = waveRawBits (sm_value (s lo)) \<and>
    ws_lastBits (summary_of s lo hi) = waveRawBits (sm_value (s (hi - 1)))"
  using assms
proof (induction hi)
  case (Suc hi)
  show ?case
  proof (cases "lo < hi")
    case True
    then show ?thesis using Suc.IH by (simp add: summary_of_Suc merge_fields) (simp add: point_summary_def Let_def)
  next
    case False
    then have "lo = hi" using Suc.prems by simp
    then show ?thesis by (simp add: summary_of_single) (simp add: point_summary_def Let_def)
  qed
qed simp

lemma summary_of_bits:
  assumes "lo < hi"
  shows "(bit (ws_bitsAnd (summary_of s lo hi)) n \<longleftrightarrow> (\<forall>i \<in> {lo..<hi}. bit (waveRawBits (sm_value (s i))) n)) \<and>
    (bit (ws_bitsOr (summary_of s lo hi)) n \<longleftrightarrow> (\<exists>i \<in> {lo..<hi}. bit (waveRawBits (sm_value (s i))) n))"
  using assms
proof (induction hi)
  case (Suc hi)
  show ?case
  proof (cases "lo < hi")
    case True
    have r: "{lo..<Suc hi} = insert hi {lo..<hi}" using True by auto
    have p: "ws_bitsAnd (point_summary hi (s hi)) = waveRawBits (sm_value (s hi))"
      "ws_bitsOr (point_summary hi (s hi)) = waveRawBits (sm_value (s hi))" by (simp_all add: point_summary_def Let_def)
    show ?thesis using Suc.IH [OF True] True unfolding r
      by (auto simp add: summary_of_Suc merge_fields p bit_and_iff bit_or_iff)
  next
    case False
    then have "lo = hi" using Suc.prems by simp
    then show ?thesis by (simp add: summary_of_single) (simp add: point_summary_def Let_def)
  qed
qed simp

end
