(* ===== verification/Wave_Index.thy ===== *)
theory Wave_Index
  imports Wave_Summary
begin

text \<open>
  The summary index of a channel, \<open>WaveSummaryIndex\<close> of \<open>plot/wave_query.hpp\<close> and \<open>plot/wave_query.cc\<close>: levels
  of blocks of 256, 512, 1024, ... samples, kept up to date as samples are appended at the end and trimmed
  at the front, and read by queries that take the largest aligned blocks. Sample numbers are global: the first
  sample kept has the number \<open>offset\<close>. The invariant \<open>levels_ok\<close> says that every stored block is the summary of
  its range of an unbounded sequence of samples; the operations keep it, so a query is the scan of its range.
\<close>

section \<open>State\<close>

record Level =
  lv_firstBlock :: nat
  lv_blocks :: "WaveSummary list"
  lv_transitions :: "u64 list list option"

record WaveSummaryIndex =
  wi_levels :: "Level list"
  wi_begin :: nat
  wi_end :: nat
  wi_digital :: bool

record WaveQueryCounters =
  qc_rawSamples :: nat
  qc_summaryHits :: nat

definition blockSize :: nat where
  "blockSize = 256"

definition empty_level :: Level where
  "empty_level = \<lparr>lv_firstBlock = 0, lv_blocks = [], lv_transitions = None\<rparr>"

definition new_WaveSummaryIndex :: WaveSummaryIndex where
  "new_WaveSummaryIndex = \<lparr>wi_levels = [], wi_begin = 0, wi_end = 0, wi_digital = False\<rparr>"

definition clear_index :: "WaveSummaryIndex \<Rightarrow> WaveSummaryIndex" where
  "clear_index ix = ix\<lparr>wi_levels := [], wi_begin := 0, wi_end := 0\<rparr>"

section \<open>Counting bit transitions\<close>

text \<open>\<open>std::countr_zero\<close>.\<close>

definition countr_zero :: "u64 \<Rightarrow> nat" where
  "countr_zero x = length (takeWhile (\<lambda>n. \<not> bit x n) [0..<64])"

text \<open>Clearing the lowest bit, \<open>changed &= changed - 1\<close>.\<close>

lemma clear_lowest_less:
  fixes x :: u64
  assumes "x \<noteq> 0"
  shows "unat (x AND (x - 1)) < unat x"
proof -
  have "unat (x AND (x - 1)) \<le> unat (x - 1)"
    by (metis and.commute word_and_le1 word_le_nat_alt)
  also have "\<dots> < unat x" using assms by (simp add: unat_gt_0 unat_minus_one)
  finally show ?thesis .
qed

text \<open>The lambda \<open>addBoundary\<close>: every changed bit is counted.\<close>

function add_boundary :: "u64 \<Rightarrow> u64 list \<Rightarrow> u64 list" where
  "add_boundary changed counts =
     (if changed = 0 then counts
      else
        let k = countr_zero changed in add_boundary (changed AND (changed - 1)) (counts[k := counts ! k + 1]))"
  by auto

termination
  by (relation "measure (\<lambda>(x, _). unat x)") (simp_all add: clear_lowest_less)

declare add_boundary.simps [simp del]

section \<open>Synchronizing\<close>

text \<open>The position of a block in a level.\<close>

definition in_level :: "Level \<Rightarrow> nat \<Rightarrow> bool" where
  "in_level lv block \<longleftrightarrow> lv_firstBlock lv \<le> block \<and> block - lv_firstBlock lv < length (lv_blocks lv)"

text \<open>The lambda \<open>rebuild\<close>, its summary: a scan on the first level, two blocks of the level below on the others.\<close>

fun rebuild_summary :: "WaveSample list \<Rightarrow> nat \<Rightarrow> nat \<Rightarrow> nat \<Rightarrow> Level option \<Rightarrow> nat \<Rightarrow> WaveSummary" where
  "rebuild_summary samples offset newEnd width None block =
     scan samples offset (max offset (block * width)) (min newEnd ((block + 1) * width))"
| "rebuild_summary samples offset newEnd width (Some child) block =
     foldl (\<lambda>result id'. if in_level child id' then merge result (lv_blocks child ! (id' - lv_firstBlock child)) else result)
       empty_summary [block * 2, block * 2 + 1]"

text \<open>Its counts: the changes inside the blocks below, and between them.\<close>

definition add_child :: "Level \<Rightarrow> u64 list list \<Rightarrow> u64 list \<times> WaveSummary option \<Rightarrow> nat \<Rightarrow> u64 list \<times> WaveSummary option" where
  "add_child child ts = (\<lambda>(counts, previous) id'.
     if in_level child id' then
       let index = id' - lv_firstBlock child;
           counts = map2 (+) counts (ts ! index);
           counts = (case previous of
             None \<Rightarrow> counts
           | Some p \<Rightarrow> add_boundary (ws_lastBits p XOR ws_firstBits (lv_blocks child ! index)) counts) in
       (counts, Some (lv_blocks child ! index))
     else (counts, previous))"

fun rebuild_counts :: "WaveSample list \<Rightarrow> nat \<Rightarrow> nat \<Rightarrow> nat \<Rightarrow> Level option \<Rightarrow> nat \<Rightarrow> u64 list" where
  "rebuild_counts samples offset newEnd width None block =
     foldl (\<lambda>counts i. add_boundary
         (waveRawBits (sm_value (samples ! (i - offset - 1))) XOR waveRawBits (sm_value (samples ! (i - offset)))) counts)
       (replicate 64 0) [max offset (block * width) + 1..<min newEnd ((block + 1) * width)]"
| "rebuild_counts samples offset newEnd width (Some child) block =
     fst (foldl (add_child child (the (lv_transitions child))) (replicate 64 0, None) [block * 2, block * 2 + 1])"

text \<open>The blocks before the first sample are dropped.\<close>

fun pop_old :: "bool \<Rightarrow> nat \<Rightarrow> nat \<Rightarrow> WaveSummary list \<Rightarrow> u64 list list option \<Rightarrow> Level" where
  "pop_old digital first fb [] ts = \<lparr>lv_firstBlock = fb, lv_blocks = [], lv_transitions = ts\<rparr>"
| "pop_old digital first fb (b # bs) ts =
     (if fb < first then pop_old digital first (fb + 1) bs (if digital then map_option tl ts else ts)
      else \<lparr>lv_firstBlock = fb, lv_blocks = b # bs, lv_transitions = ts\<rparr>)"

definition resize_to :: "nat \<Rightarrow> 'a \<Rightarrow> 'a list \<Rightarrow> 'a list" where
  "resize_to n d xs = take n xs @ replicate (n - length xs) d"

definition prepare_level :: "bool \<Rightarrow> nat \<Rightarrow> nat \<Rightarrow> Level \<Rightarrow> Level" where
  "prepare_level digital first last' lv =
     (let lv = pop_old digital first (lv_firstBlock lv) (lv_blocks lv) (lv_transitions lv);
          lv = (if lv_blocks lv = [] then lv\<lparr>lv_firstBlock := first\<rparr> else lv) in
      lv\<lparr>lv_blocks := resize_to (last' - first + 1) empty_summary (lv_blocks lv),
         lv_transitions :=
           (if digital
            then Some (resize_to (last' - first + 1) (replicate 64 0) (case lv_transitions lv of None \<Rightarrow> [] | Some ts \<Rightarrow> ts))
            else lv_transitions lv)\<rparr>)"

definition rebuild_block ::
  "bool \<Rightarrow> WaveSample list \<Rightarrow> nat \<Rightarrow> nat \<Rightarrow> nat \<Rightarrow> Level option \<Rightarrow> nat \<Rightarrow> Level \<Rightarrow> nat \<Rightarrow> Level" where
  "rebuild_block digital samples offset newEnd width child first lv block =
     lv\<lparr>lv_transitions :=
          (if digital
           then map_option (\<lambda>ts. ts[block - first := rebuild_counts samples offset newEnd width child block]) (lv_transitions lv)
           else lv_transitions lv),
        lv_blocks := (lv_blocks lv)[block - first := rebuild_summary samples offset newEnd width child block]\<rparr>"

definition sync_level :: "bool \<Rightarrow> WaveSample list \<Rightarrow> nat \<Rightarrow> nat \<Rightarrow> nat \<Rightarrow> nat \<Rightarrow> Level option \<Rightarrow> Level \<Rightarrow> Level" where
  "sync_level digital samples offset newEnd oldEnd width child lv =
     (let first = offset div width; last' = (newEnd - 1) div width; tail = max (first + 1) (oldEnd div width) in
      foldl (rebuild_block digital samples offset newEnd width child first) (prepare_level digital first last' lv)
        (first # [tail..<last' + 1]))"

lemma last_block_width:
  "offset div width \<noteq> (newEnd - 1) div width \<Longrightarrow> Suc (offset + newEnd) - width * 2 < Suc (offset + newEnd) - (width :: nat)"
proof -
  assume d: "offset div width \<noteq> (newEnd - 1) div width"
  then have "0 < width" by (cases width) simp_all
  moreover have "width \<le> offset \<or> width \<le> newEnd - 1" using d by (metis div_less not_le)
  ultimately show ?thesis by linarith
qed

text \<open>The loop over the levels: a level whose samples are in one block is the last.\<close>

function sync_levels ::
  "bool \<Rightarrow> WaveSample list \<Rightarrow> nat \<Rightarrow> nat \<Rightarrow> nat \<Rightarrow> nat \<Rightarrow> Level option \<Rightarrow> Level list \<Rightarrow> Level list" where
  "sync_levels digital samples offset newEnd oldEnd width child levels =
     (let level = sync_level digital samples offset newEnd oldEnd width child
            (case levels of [] \<Rightarrow> empty_level | lv # _ \<Rightarrow> lv) in
      if offset div width = (newEnd - 1) div width then [level]
      else level # sync_levels digital samples offset newEnd oldEnd (width * 2) (Some level) (tl levels))"
  by auto

termination
  by (relation "measure (\<lambda>(_, _, offset, newEnd, _, width, _, _). Suc (offset + newEnd) - width)")
    (simp, unfold in_measure prod.case, rule last_block_width)

declare sync_levels.simps [simp del]

definition synchronize_index :: "WaveSample list \<Rightarrow> nat \<Rightarrow> bool \<Rightarrow> WaveSummaryIndex \<Rightarrow> WaveSummaryIndex" where
  "synchronize_index samples offset digital ix =
     (let ix = (if wi_digital ix \<noteq> digital then clear_index ix else ix);
          ix = ix\<lparr>wi_digital := digital\<rparr> in
      if samples = [] then clear_index ix
      else
        let newEnd = offset + length samples;
            ix = (if offset < wi_begin ix \<or> newEnd < wi_end ix \<or> wi_end ix \<le> offset then clear_index ix else ix) in
        ix\<lparr>wi_begin := offset, wi_end := newEnd,
           wi_levels := sync_levels digital samples offset newEnd (wi_end ix) blockSize None (wi_levels ix)\<rparr>)"

section \<open>Queries\<close>

text \<open>The largest level with a complete block that starts at \<open>begin\<close> and ends before \<open>end'\<close>.\<close>

fun select_level :: "Level list \<Rightarrow> nat \<Rightarrow> nat \<Rightarrow> nat \<Rightarrow> nat \<Rightarrow> nat option \<Rightarrow> nat option" where
  "select_level [] l width begin end' selected = selected"
| "select_level (lv # lvs) l width begin end' selected =
     (if begin mod width \<noteq> 0 \<or> end' - begin < width then selected
      else
        let id' = begin div width in
        select_level lvs (l + 1) (width * 2) begin end'
          (if in_level lv id' \<and> ws_count (lv_blocks lv ! (id' - lv_firstBlock lv)) = width then Some l else selected))"

lemma next_block: "begin < end' \<Longrightarrow> begin < min end' ((begin div blockSize + 1) * blockSize)"
proof -
  have "begin mod blockSize < blockSize" by (simp add: blockSize_def)
  then have "begin < (begin div blockSize + 1) * blockSize" using div_mult_mod_eq [of "begin" blockSize] by (simp only: add_mult_distrib mult_1)
  then show "begin < end' \<Longrightarrow> ?thesis" by simp
qed

function query_loop ::
  "Level list \<Rightarrow> WaveSample list \<Rightarrow> nat \<Rightarrow> nat \<Rightarrow> nat \<Rightarrow> WaveSummary \<Rightarrow> WaveQueryCounters \<Rightarrow> WaveSummary \<times> WaveQueryCounters" where
  "query_loop levels samples offset begin end' result counters =
     (if begin < end' then
        case select_level levels 0 blockSize begin end' None of
          Some l \<Rightarrow>
            let width = blockSize * 2 ^ l; lv = levels ! l in
            query_loop levels samples offset (begin + width) end'
              (merge result (lv_blocks lv ! (begin div width - lv_firstBlock lv)))
              (counters\<lparr>qc_summaryHits := qc_summaryHits counters + 1\<rparr>)
        | None \<Rightarrow>
            let next' = min end' ((begin div blockSize + 1) * blockSize) in
            query_loop levels samples offset next' end' (merge result (scan samples offset begin next'))
              (counters\<lparr>qc_rawSamples := qc_rawSamples counters + (next' - begin)\<rparr>)
      else (result, counters))"
  by auto

termination
  by (relation "measure (\<lambda>(_, _, _, begin, end', _, _). end' - begin)")
    (use next_block in \<open>auto simp: blockSize_def intro!: diff_less_mono2\<close>)

declare query_loop.simps [simp del]

definition query_summary ::
  "WaveSummaryIndex \<Rightarrow> WaveSample list \<Rightarrow> nat \<Rightarrow> nat \<Rightarrow> nat \<Rightarrow> WaveQueryCounters \<Rightarrow> WaveSummary \<times> WaveQueryCounters" where
  "query_summary ix samples offset begin end' =
     query_loop (wi_levels ix) samples offset (min begin (length samples) + offset) (min end' (length samples) + offset)
       empty_summary"

text \<open>The walk of \<open>bitTransitions\<close>, with the bits of the sample before where there is one.\<close>

function transitions_loop ::
  "bool \<Rightarrow> Level list \<Rightarrow> WaveSample list \<Rightarrow> nat \<Rightarrow> nat \<Rightarrow> nat \<Rightarrow> nat \<Rightarrow> u64 \<Rightarrow> u64 option \<Rightarrow> WaveQueryCounters \<Rightarrow>
   u64 \<times> WaveQueryCounters" where
  "transitions_loop digital levels samples offset n begin end' result previous counters =
     (if begin < end' then
        let changed = (\<lambda>bits. case previous of None \<Rightarrow> False | Some p \<Rightarrow> bit (p XOR bits) n) in
        case (if digital then select_level levels 0 blockSize begin end' None else None) of
          Some l \<Rightarrow>
            let width = blockSize * 2 ^ l; lv = levels ! l; index = begin div width - lv_firstBlock lv;
                summary = lv_blocks lv ! index; result = result + the (lv_transitions lv) ! index ! n in
            transitions_loop digital levels samples offset n (begin + width) end'
              (if changed (ws_firstBits summary) then result + 1 else result) (Some (ws_lastBits summary))
              (counters\<lparr>qc_summaryHits := qc_summaryHits counters + 1\<rparr>)
        | None \<Rightarrow>
            let bits = waveRawBits (sm_value (samples ! (begin - offset))) in
            transitions_loop digital levels samples offset n (begin + 1) end'
              (if changed bits then result + 1 else result) (Some bits)
              (counters\<lparr>qc_rawSamples := qc_rawSamples counters + 1\<rparr>)
      else (result, counters))"
  by auto

termination
  by (relation "measure (\<lambda>(_, _, _, _, _, begin, end', _, _, _). end' - begin)")
    (auto simp: blockSize_def intro!: diff_less_mono2)

declare transitions_loop.simps [simp del]

definition bitTransitions ::
  "WaveSummaryIndex \<Rightarrow> WaveSample list \<Rightarrow> nat \<Rightarrow> nat \<Rightarrow> nat \<Rightarrow> nat \<Rightarrow> WaveQueryCounters \<Rightarrow> u64 \<times> WaveQueryCounters" where
  "bitTransitions ix samples offset begin end' n counters =
     (if 64 \<le> n then (0, counters)
      else transitions_loop (wi_digital ix) (wi_levels ix) samples offset n
        (min begin (length samples) + offset) (min end' (length samples) + offset) 0 None counters)"

end
