(* ===== verification/Wave_Correct.thy ===== *)
theory Wave_Correct
  imports Wave_Index
begin

text \<open>
  The summary index is right: every stored block is the summary of its range, and with it its count of bit
  transitions; synchronizing keeps this, queries rest on it.
\<close>

section \<open>Counting transitions\<close>

lemma countr_zero_spec:
  assumes "x \<noteq> 0"
  shows "countr_zero x < 64 \<and> bit x (countr_zero x) \<and> (\<forall>n < countr_zero x. \<not> bit x n)"
proof -
  have "\<exists>n \<in> set [0..<64]. bit x n"
  proof (rule ccontr)
    assume "\<not> ?thesis"
    then have "x = 0" by (intro bit_word_eqI) simp
    then show False using assms by simp
  qed
  then have "takeWhile (\<lambda>n. \<not> bit x n) [0..<64] \<noteq> [0..<64]" unfolding takeWhile_eq_all_conv by blast
  then have less: "countr_zero x < length [0..<64]"
    unfolding countr_zero_def by (metis le_neq_implies_less length_takeWhile_le take_all_iff takeWhile_eq_take)
  moreover have "bit x ([0..<64] ! countr_zero x)"
    using nth_length_takeWhile [of "\<lambda>n. \<not> bit x n" "[0..<64]"] less by (simp add: countr_zero_def)
  moreover have "\<not> bit x n" if "n < countr_zero x" for n
  proof -
    have "takeWhile (\<lambda>n. \<not> bit x n) [0..<64] ! n \<in> set (takeWhile (\<lambda>n. \<not> bit x n) [0..<64])"
      using that by (simp add: countr_zero_def)
    moreover have "takeWhile (\<lambda>n. \<not> bit x n) [0..<64] ! n = n"
      using that less by (simp add: countr_zero_def takeWhile_nth)
    ultimately show ?thesis by (auto dest: set_takeWhileD)
  qed
  ultimately show ?thesis by simp
qed

lemma bit_clear_lowest:
  fixes x :: u64
  assumes "x \<noteq> 0"
  shows "bit (x AND (x - 1)) n \<longleftrightarrow> bit x n \<and> n \<noteq> countr_zero x"
proof -
  let ?k = "countr_zero x" and ?y = "unset_bit (countr_zero x) x"
  note k = countr_zero_spec [OF assms]
  have low: "\<not> bit ?y i" if "i \<le> ?k" for i using k that by (auto simp: bit_unset_bit_iff le_less)
  have "?y + 2 ^ ?k = ?y OR 2 ^ ?k" using low by (intro disjunctive_add) (auto simp: bit_exp_iff)
  also have "\<dots> = x" using k by (intro bit_word_eqI) (auto simp: bit_or_iff bit_unset_bit_iff bit_exp_iff)
  finally have x: "x = ?y + 2 ^ ?k" by simp
  have "x - 1 = ?y + mask ?k" unfolding mask_eq_exp_minus_1 by (subst x) simp
  also have "\<dots> = ?y OR mask ?k" using low by (intro disjunctive_add) (auto simp: bit_mask_iff)
  finally have "x - 1 = ?y OR mask ?k" .
  then show ?thesis using k by (auto simp: bit_and_iff bit_or_iff bit_unset_bit_iff bit_mask_iff)
qed

lemma add_boundary_counts:
  "length counts = 64 \<Longrightarrow>
   length (add_boundary changed counts) = 64 \<and>
   (\<forall>n < 64. add_boundary changed counts ! n = counts ! n + of_bool (bit changed n))"
proof (induction changed counts rule: add_boundary.induct)
  case (1 changed counts)
  show ?case
  proof (cases "changed = 0")
    case False
    note k = countr_zero_spec [OF False]
    have "add_boundary changed counts =
        add_boundary (changed AND (changed - 1)) (counts[countr_zero changed := counts ! countr_zero changed + 1])"
      using False by (subst add_boundary.simps) (simp add: Let_def)
    then show ?thesis
      using 1 False k by (auto simp: bit_clear_lowest nth_list_update)
  qed (use 1 in \<open>simp add: add_boundary.simps\<close>)
qed

text \<open>The transitions of a bit between the samples \<open>lo, ..., hi - 1\<close>.\<close>

definition flips :: "(nat \<Rightarrow> WaveSample) \<Rightarrow> nat \<Rightarrow> nat \<Rightarrow> nat \<Rightarrow> nat" where
  "flips s n lo hi =
     length (filter (\<lambda>i. bit (waveRawBits (sm_value (s (i - 1))) XOR waveRawBits (sm_value (s i))) n) [lo + 1..<hi])"

definition flip_counts :: "(nat \<Rightarrow> WaveSample) \<Rightarrow> nat \<Rightarrow> nat \<Rightarrow> u64 list" where
  "flip_counts s lo hi = map (\<lambda>n. word_of_nat (flips s n lo hi)) [0..<64]"

lemma flips_empty [simp]: "hi \<le> lo + 1 \<Longrightarrow> flips s n lo hi = 0"
  by (simp add: flips_def)

lemma flips_Suc:
  "lo < hi \<Longrightarrow> flips s n lo (Suc hi) =
     flips s n lo hi + of_bool (bit (waveRawBits (sm_value (s (hi - 1))) XOR waveRawBits (sm_value (s hi))) n)"
  by (simp add: flips_def)

lemma flips_split:
  assumes "lo < m" "m < hi"
  shows "flips s n lo hi = flips s n lo m + flips s n m hi +
    of_bool (bit (waveRawBits (sm_value (s (m - 1))) XOR waveRawBits (sm_value (s m))) n)"
proof -
  have "[lo + 1..<hi] = [lo + 1..<m] @ m # [m + 1..<hi]"
    using assms by (metis (no_types) Suc_eq_plus1 Suc_leI le_add_diff_inverse less_imp_le upt_add_eq_append upt_conv_Cons)
  then show ?thesis by (simp add: flips_def)
qed

lemma flips_cong: "(\<And>i. lo \<le> i \<Longrightarrow> i < hi \<Longrightarrow> s i = t i) \<Longrightarrow> flips s n lo hi = flips t n lo hi"
  unfolding flips_def by (intro arg_cong [where f = length] filter_cong) auto

lemma flip_counts_nth [simp]: "n < 64 \<Longrightarrow> flip_counts s lo hi ! n = word_of_nat (flips s n lo hi)"
  by (simp add: flip_counts_def)

lemma flip_counts_length [simp]: "length (flip_counts s lo hi) = 64"
  by (simp add: flip_counts_def)

lemma flip_counts_zero: "hi \<le> lo + 1 \<Longrightarrow> flip_counts s lo hi = replicate 64 0"
  by (simp add: flip_counts_def map_replicate_const)

lemma flip_counts_eq: "length xs = 64 \<Longrightarrow> (\<And>n. n < 64 \<Longrightarrow> xs ! n = word_of_nat (flips s n lo hi)) \<Longrightarrow> xs = flip_counts s lo hi"
  by (rule nth_equalityI) simp_all

section \<open>Rebuilding a block\<close>

definition block_summary :: "(nat \<Rightarrow> WaveSample) \<Rightarrow> nat \<Rightarrow> nat \<Rightarrow> nat \<Rightarrow> nat \<Rightarrow> WaveSummary" where
  "block_summary s lo hi w b = summary_of s (max lo (b * w)) (min hi ((b + 1) * w))"

definition block_flips :: "(nat \<Rightarrow> WaveSample) \<Rightarrow> nat \<Rightarrow> nat \<Rightarrow> nat \<Rightarrow> nat \<Rightarrow> u64 list" where
  "block_flips s lo hi w b = flip_counts s (max lo (b * w)) (min hi ((b + 1) * w))"

text \<open>The samples are the part \<open>lo, ..., hi - 1\<close> of the sequence.\<close>

definition window :: "(nat \<Rightarrow> WaveSample) \<Rightarrow> nat \<Rightarrow> nat \<Rightarrow> WaveSample list \<Rightarrow> bool" where
  "window s lo hi samples \<longleftrightarrow> hi = lo + length samples \<and> (\<forall>i. lo \<le> i \<and> i < hi \<longrightarrow> samples ! (i - lo) = s i)"

lemma scan_window:
  assumes "window s lo hi samples" "lo \<le> a" "b \<le> hi"
  shows "scan samples lo a b = summary_of s a b"
  unfolding scan_summary using assms by (intro summary_of_cong) (simp add: window_def)

lemma rebuild_summary_scan:
  assumes "window s lo hi samples"
  shows "rebuild_summary samples lo hi w None b = block_summary s lo hi w b"
  by (simp add: block_summary_def scan_window [OF assms])

lemma count_window:
  assumes "window s lo hi samples" "lo \<le> a" "e \<le> hi"
  shows "foldl (\<lambda>counts i. add_boundary
      (waveRawBits (sm_value (samples ! (i - lo - 1))) XOR waveRawBits (sm_value (samples ! (i - lo)))) counts)
    (replicate 64 0) [a + 1..<e] = flip_counts s a e"
  using assms(3)
proof (induction e)
  case (Suc e)
  show ?case
  proof (cases "a < e")
    case True
    have "lo \<le> e - 1 \<and> e - 1 < hi" "lo \<le> e \<and> e < hi" "e - 1 - lo = e - lo - 1" using assms(2) True Suc.prems by linarith+
    then have "samples ! (e - lo - 1) = s (e - 1)" "samples ! (e - lo) = s e"
      using assms(1) [unfolded window_def, THEN conjunct2, rule_format, of "e - 1"]
        assms(1) [unfolded window_def, THEN conjunct2, rule_format, of e] by simp_all
    moreover have "[a + 1..<Suc e] = [a + 1..<e] @ [e]" using True by simp
    ultimately show ?thesis
      using Suc True
      by (intro flip_counts_eq) (simp_all add: add_boundary_counts flips_Suc del: upt_Suc)
  qed (simp add: flip_counts_zero)
qed (simp add: flip_counts_zero)

lemma rebuild_counts_scan:
  assumes "window s lo hi samples"
  shows "rebuild_counts samples lo hi w None b = block_flips s lo hi w b"
  unfolding rebuild_counts.simps block_flips_def by (rule count_window [OF assms]) simp_all

text \<open>Two adjacent blocks, cut off at the ends of the window.\<close>

lemma merge_pieces:
  assumes "x \<le> m" "m \<le> y"
  shows "merge (summary_of s (max lo x) (min hi m)) (summary_of s (max lo m) (min hi y)) = summary_of s (max lo x) (min hi y)"
proof -
  consider "m \<le> lo" | "hi \<le> m" | "lo < m" "m < hi" by linarith
  then show ?thesis
  proof cases
    case 1
    then have "max lo x = lo" "max lo m = lo" using assms by simp_all
    then show ?thesis using 1 by (simp add: min.coboundedI2)
  next
    case 2
    then have "min hi m = hi" "min hi y = hi" using assms by simp_all
    then show ?thesis using 2 by (simp add: max.coboundedI2)
  next
    case 3
    then show ?thesis using assms summary_of_split [of "max lo x" m "min hi y" s] by (simp add: max_def min_def)
  qed
qed

lemma block_outside:
  fixes w :: nat
  assumes "0 < w" "lo < hi" "b < lo div w \<or> (hi - 1) div w < b"
  shows "(b + 1) * w \<le> lo \<or> hi \<le> b * w"
  using assms(3)
proof
  assume "b < lo div w"
  then have "(b + 1) * w \<le> lo div w * w" by (intro mult_le_mono1) simp
  then have "(b + 1) * w \<le> lo" using div_times_less_eq_dividend [of lo w] by (rule order_trans)
  then show ?thesis ..
next
  assume "(hi - 1) div w < b"
  then have "hi - 1 < b * w" using assms(1) by (simp add: div_less_iff_less_mult)
  then show ?thesis using assms(2) by linarith
qed

lemma block_inside:
  fixes w :: nat
  assumes "0 < w" "lo < hi" "lo div w \<le> b" "b \<le> (hi - 1) div w"
  shows "b * w < hi \<and> lo < (b + 1) * w"
proof
  have "b * w \<le> (hi - 1) div w * w" using assms(4) by (rule mult_le_mono1)
  then show "b * w < hi" using div_times_less_eq_dividend [of "hi - 1" w] assms(2) by linarith
  have "lo < (lo div w + 1) * w" using assms(1) by (simp add: dividend_less_div_times)
  then show "lo < (b + 1) * w" using mult_le_mono1 [of "lo div w + 1" "b + 1" w] assms(3) by linarith
qed

section \<open>The invariant of a level\<close>

definition level_ok :: "(nat \<Rightarrow> WaveSample) \<Rightarrow> bool \<Rightarrow> nat \<Rightarrow> nat \<Rightarrow> nat \<Rightarrow> Level \<Rightarrow> bool" where
  "level_ok s digital lo hi w lv \<longleftrightarrow>
     lv_firstBlock lv = lo div w \<and> length (lv_blocks lv) = (hi - 1) div w - lo div w + 1 \<and>
     (\<forall>i < length (lv_blocks lv). lv_blocks lv ! i = block_summary s lo hi w (lo div w + i)) \<and>
     (digital \<longrightarrow> (\<exists>ts. lv_transitions lv = Some ts \<and> length ts = length (lv_blocks lv) \<and>
        (\<forall>i < length (lv_blocks lv). ts ! i = block_flips s lo hi w (lo div w + i))))"

lemma level_block:
  assumes "level_ok s digital lo hi w lv" "in_level lv b"
  shows "lv_blocks lv ! (b - lv_firstBlock lv) = block_summary s lo hi w b"
    "digital \<Longrightarrow> the (lv_transitions lv) ! (b - lv_firstBlock lv) = block_flips s lo hi w b"
  using assms by (auto simp: level_ok_def in_level_def)

lemma level_range:
  assumes "level_ok s digital lo hi w lv" "lo < hi"
  shows "in_level lv b \<longleftrightarrow> lo div w \<le> b \<and> b \<le> (hi - 1) div w"
proof -
  have "lo div w \<le> (hi - 1) div w" using assms(2) by (intro div_le_mono) simp
  then show ?thesis using assms(1) by (auto simp: level_ok_def in_level_def)
qed

lemma level_contribution:
  assumes "level_ok s digital lo hi w lv" "lo < hi" "0 < w" "summary_ok r"
  shows "(if in_level lv b then merge r (lv_blocks lv ! (b - lv_firstBlock lv)) else r) = merge r (block_summary s lo hi w b)"
proof (cases "in_level lv b")
  case True
  then show ?thesis using level_block [OF assms(1)] by simp
next
  case False
  then have "(b + 1) * w \<le> lo \<or> hi \<le> b * w"
    using assms by (intro block_outside) (auto simp: level_range)
  then have "min hi ((b + 1) * w) \<le> max lo (b * w)" by (auto simp: min_le_iff_disj le_max_iff_disj)
  then show ?thesis using False assms(4) by (simp add: block_summary_def)
qed

lemma rebuild_summary_pair:
  assumes "level_ok s digital lo hi w child" "lo < hi" "0 < w"
  shows "rebuild_summary samples lo hi (w * 2) (Some child) b = block_summary s lo hi (w * 2) b"
proof -
  have ok: "summary_ok (block_summary s lo hi w c)" for c by (simp add: block_summary_def)
  have left: "(if in_level child (b * 2) then merge empty_summary (lv_blocks child ! (b * 2 - lv_firstBlock child)) else empty_summary) =
      block_summary s lo hi w (b * 2)"
    by (rule trans [OF level_contribution [OF assms empty_summary_ok]]) simp
  have "rebuild_summary samples lo hi (w * 2) (Some child) b =
      merge (block_summary s lo hi w (b * 2)) (block_summary s lo hi w (b * 2 + 1))"
    unfolding rebuild_summary.simps foldl.simps left
    by (rule level_contribution [OF assms ok])
  also have "\<dots> = summary_of s (max lo (b * 2 * w)) (min hi ((b * 2 + 1 + 1) * w))"
    unfolding block_summary_def by (rule merge_pieces) simp_all
  also have "\<dots> = block_summary s lo hi (w * 2) b"
    by (simp add: block_summary_def algebra_simps)
  finally show ?thesis .
qed

lemma rebuild_counts_pair:
  assumes child: "level_ok s True lo hi w child" and "lo < hi" "0 < w"
  shows "rebuild_counts samples lo hi (w * 2) (Some child) b = block_flips s lo hi (w * 2) b"
proof -
  let ?ts = "the (lv_transitions child)"
  let ?i = "b * 2" and ?j = "b * 2 + 1" and ?m = "(b * 2 + 1) * w"
  let ?sum = "block_summary s lo hi w" and ?flips = "block_flips s lo hi w"
  have whole: "b * (w * 2) = b * 2 * w" "(b + 1) * (w * 2) = ?m + w" by (simp_all add: algebra_simps)
  have out: "(c + 1) * w \<le> lo \<or> hi \<le> c * w" if "\<not> in_level child c" for c
    using that unfolding level_range [OF child assms(2)] by (intro block_outside [OF assms(3,2)]) linarith
  have inside: "lv_blocks child ! (c - lv_firstBlock child) = ?sum c" "?ts ! (c - lv_firstBlock child) = ?flips c"
    "c * w < hi" "lo < (c + 1) * w" if "in_level child c" for c
    using that level_block [OF child] block_inside [OF assms(3,2), of c] level_range [OF child assms(2)] by simp_all
  have zero: "map2 (+) (replicate 64 0) xs = (xs :: u64 list)" if "length xs = 64" for xs
    using that by (intro nth_equalityI) simp_all
  have len [simp]: "length (?flips c) = 64" for c by (simp add: block_flips_def)
  consider "in_level child ?i" "in_level child ?j" | "in_level child ?i" "\<not> in_level child ?j"
    | "\<not> in_level child ?i" "in_level child ?j" | "\<not> in_level child ?i" "\<not> in_level child ?j" by blast
  then show ?thesis
  proof cases
    case 1
    have m: "lo < ?m" "?m < hi" "max lo (b * 2 * w) < ?m" "?m < min hi (?m + w)"
      using inside(3,4) [OF 1(1)] inside(3,4) [OF 1(2)] assms(3) by simp_all
    have "ws_lastBits (?sum ?i) = waveRawBits (sm_value (s (?m - 1)))" "ws_firstBits (?sum ?j) = waveRawBits (sm_value (s ?m))"
      using summary_of_ends [of "max lo (b * 2 * w)" ?m s] summary_of_ends [of ?m "min hi (?m + w)" s] m
      by (simp_all add: block_summary_def)
    then have r: "rebuild_counts samples lo hi (w * 2) (Some child) b =
        add_boundary (waveRawBits (sm_value (s (?m - 1))) XOR waveRawBits (sm_value (s ?m))) (map2 (+) (?flips ?i) (?flips ?j))"
      using 1 by (simp add: add_child_def Let_def inside zero)
    show ?thesis
      unfolding r block_flips_def [of s lo hi "w * 2"] whole
      by (rule flip_counts_eq)
        (use m flips_split [OF m(3,4)] in \<open>simp_all add: add_boundary_counts block_flips_def\<close>)
  next
    case 2
    have "hi \<le> ?m" using out [OF 2(2)] inside(4) [OF 2(1)] by (simp add: algebra_simps)
    then have "min hi ?m = hi" "min hi (?m + w) = hi" by simp_all
    then have "block_flips s lo hi (w * 2) b = ?flips ?i" by (simp only: block_flips_def whole)
    then show ?thesis using 2 by (simp add: add_child_def Let_def inside zero)
  next
    case 3
    have "?m \<le> lo" using out [OF 3(1)] inside(3) [OF 3(2)] by (simp add: algebra_simps)
    moreover have "(b * 2 + 1 + 1) * w = ?m + w" "b * 2 * w \<le> ?m" by (simp_all add: algebra_simps)
    ultimately have "max lo ?m = lo" "max lo (b * 2 * w) = lo" "(b * 2 + 1 + 1) * w = ?m + w" by linarith+
    then have "block_flips s lo hi (w * 2) b = ?flips ?j" by (simp only: block_flips_def whole)
    then show ?thesis using 3 by (simp add: add_child_def Let_def inside zero)
  next
    case 4
    have "min hi (?m + w) \<le> max lo (b * 2 * w)"
      using out [OF 4(1)] out [OF 4(2)] by (auto simp: algebra_simps min_le_iff_disj le_max_iff_disj)
    then show ?thesis
      using 4 by (simp add: add_child_def block_flips_def whole flip_counts_zero)
  qed
qed

section \<open>Synchronizing a level\<close>

lemma pop_old_parts:
  "lv_firstBlock (pop_old digital first fb bs ts) = fb + min (first - fb) (length bs)"
  "lv_blocks (pop_old digital first fb bs ts) = drop (first - fb) bs"
  "lv_transitions (pop_old digital first fb bs (Some xs)) =
     Some (if digital then drop (min (first - fb) (length bs)) xs else xs)"
proof (induction digital first fb bs ts arbitrary: xs rule: pop_old.induct)
  case (2 digital first fb b bs ts)
  note IH = 2
  have d: "first - fb = Suc (first - Suc fb)" if "fb < first" using that by simp
  {
    case 1
    then show ?case using IH by (cases "fb < first") (auto simp: d)
  next
    case 2
    then show ?case using IH by (cases "fb < first") (auto simp: d)
  next
    case 3
    then show ?case using IH by (cases "fb < first") (auto simp: d drop_Suc)
  }
qed simp_all

lemma resize_to_length [simp]: "length (resize_to n d xs) = n"
  by (simp add: resize_to_def)

lemma resize_to_nth: "i < n \<Longrightarrow> i < length xs \<Longrightarrow> resize_to n d xs ! i = xs ! i"
  by (simp add: resize_to_def nth_append)

text \<open>The updates of the blocks \<open>first\<close> and \<open>tail, ..., last\<close>.\<close>

lemma rebuild_blocks_fold:
  "lv_firstBlock (foldl (rebuild_block digital samples lo hi w child first) lv bs) = lv_firstBlock lv"
  "lv_blocks (foldl (rebuild_block digital samples lo hi w child first) lv bs) =
     foldl (\<lambda>xs b. xs[b - first := rebuild_summary samples lo hi w child b]) (lv_blocks lv) bs"
  "lv_transitions lv = Some ts \<Longrightarrow> digital \<Longrightarrow>
   lv_transitions (foldl (rebuild_block digital samples lo hi w child first) lv bs) =
     Some (foldl (\<lambda>xs b. xs[b - first := rebuild_counts samples lo hi w child b]) ts bs)"
proof (induction bs arbitrary: lv ts)
  case (Cons b bs)
  {
    case 1
    then show ?case using Cons.IH by (simp add: rebuild_block_def)
  next
    case 2
    then show ?case using Cons.IH by (simp add: rebuild_block_def)
  next
    case 3
    then show ?case using Cons.IH(3) by (simp add: rebuild_block_def)
  }
qed simp_all

lemma fold_update_nth:
  "list_all (\<lambda>b. first \<le> b) bs \<Longrightarrow> i < length xs \<Longrightarrow>
   foldl (\<lambda>xs b. xs[b - first := f b]) xs bs ! i = (if first + i \<in> set bs then f (first + i) else xs ! i)"
proof (induction bs arbitrary: xs)
  case (Cons b bs)
  then show ?case by (auto simp: nth_list_update)
qed simp

lemma fold_update_length [simp]: "length (foldl (\<lambda>xs b. xs[b - first := f b]) xs bs) = length xs"
  by (induction bs arbitrary: xs) simp_all

text \<open>
  One level is rebuilt. Before, it was right for the window \<open>lo0, ..., hi0 - 1\<close>, or it was new and all samples
  so far were in one of its blocks; \<open>below\<close> says that the blocks rebuilt are right.
\<close>

lemma old_block:
  fixes w :: nat
  assumes "0 < w" "lo0 \<le> lo" "hi0 \<le> hi" "lo div w < b" "b < hi0 div w"
  shows "block_summary s lo0 hi0 w b = block_summary s lo hi w b" "block_flips s lo0 hi0 w b = block_flips s lo hi w b"
proof -
  have "lo < b * w" using assms(1,4) by (simp add: div_less_iff_less_mult)
  moreover have "(b + 1) * w \<le> hi0"
    using mult_le_mono1 [of "b + 1" "hi0 div w" w] assms(5) div_times_less_eq_dividend [of hi0 w] by linarith
  ultimately have "max lo0 (b * w) = max lo (b * w)" "min hi0 ((b + 1) * w) = min hi ((b + 1) * w)"
    using assms(2,3) by simp_all
  then show "block_summary s lo0 hi0 w b = block_summary s lo hi w b" "block_flips s lo0 hi0 w b = block_flips s lo hi w b"
    by (simp_all only: block_summary_def block_flips_def)
qed

definition old_level :: "(nat \<Rightarrow> WaveSample) \<Rightarrow> bool \<Rightarrow> nat \<Rightarrow> nat \<Rightarrow> nat \<Rightarrow> Level \<Rightarrow> bool" where
  "old_level s digital lo hi w lv \<longleftrightarrow>
     (lo < hi \<and> level_ok s digital lo hi w lv) \<or> (lv = empty_level \<and> lo div w = (hi - 1) div w)"

lemma div_pred_bound: "hi div w \<le> (hi - 1) div w + (1 :: nat)"
proof (cases "w = 0")
  case False
  have "hi div w \<le> (hi - 1 + w) div w" using False by (intro div_le_mono) simp
  then show ?thesis using False by simp
qed simp

lemma prepared_block:
  assumes old: "old_level s digital lo0 hi0 w lv" and w: "0 < w" and le: "lo0 \<le> lo" "hi0 \<le> hi" "lo < hi"
  defines "first \<equiv> lo div w" and "last' \<equiv> (hi - 1) div w"
  defines "lv' \<equiv> prepare_level digital first last' lv"
  shows "lv_firstBlock lv' = first \<and> length (lv_blocks lv') = last' - first + 1 \<and>
    (\<forall>i. 0 < i \<and> first + i < hi0 div w \<longrightarrow> lv_blocks lv' ! i = block_summary s lo hi w (first + i)) \<and>
    (digital \<longrightarrow> (\<exists>ts. lv_transitions lv' = Some ts \<and> length ts = last' - first + 1 \<and>
       (\<forall>i. 0 < i \<and> first + i < hi0 div w \<longrightarrow> ts ! i = block_flips s lo hi w (first + i))))"
proof -
  have f0: "lo0 div w \<le> first" unfolding first_def by (rule div_le_mono) (rule le)
  have l0: "(hi0 - 1) div w \<le> last'" unfolding last'_def by (rule div_le_mono) (use le in simp)
  show ?thesis
  proof (cases "lo0 < hi0 \<and> level_ok s digital lo0 hi0 w lv")
    case False
    then have e: "lv = empty_level" "lo0 div w = (hi0 - 1) div w" using old by (auto simp: old_level_def)
    have "hi0 div w \<le> first + 1" using div_pred_bound [of hi0 w] e(2) f0 by linarith
    then show ?thesis by (auto simp: lv'_def e(1) prepare_level_def empty_level_def Let_def)
  next
    case True
    let ?bs = "lv_blocks lv" and ?d = "first - lo0 div w"
    have ok: "lv_firstBlock lv = lo0 div w" "length ?bs = (hi0 - 1) div w - lo0 div w + 1"
      "\<forall>i < length ?bs. ?bs ! i = block_summary s lo0 hi0 w (lo0 div w + i)"
      using True by (auto simp: level_ok_def)
    have i: "?d + i < length ?bs" "i < last' - first + 1" "lo0 div w + (?d + i) = first + i"
      if "0 < i \<and> first + i < hi0 div w" for i
      using that div_pred_bound [of hi0 w] f0 l0 ok(2) by linarith+
    have fb: "lv_firstBlock lv' = first"
      using f0 ok(1) by (auto simp: lv'_def prepare_level_def Let_def pop_old_parts)
    have blocks: "lv_blocks lv' = resize_to (last' - first + 1) empty_summary (drop ?d ?bs)"
      using ok(1) by (simp add: lv'_def prepare_level_def Let_def pop_old_parts)
    have sum: "lv_blocks lv' ! i = block_summary s lo hi w (first + i)" if "0 < i \<and> first + i < hi0 div w" for i
      using i [OF that] that ok(3) old_block [OF w le(1,2), of "first + i"]
      by (simp add: blocks resize_to_nth first_def)
    have flip: "\<exists>ts. lv_transitions lv' = Some ts \<and> length ts = last' - first + 1 \<and>
        (\<forall>i. 0 < i \<and> first + i < hi0 div w \<longrightarrow> ts ! i = block_flips s lo hi w (first + i))" if dg: "digital"
    proof -
      obtain ts where ts: "lv_transitions lv = Some ts" "length ts = length ?bs"
        "\<forall>i < length ?bs. ts ! i = block_flips s lo0 hi0 w (lo0 div w + i)"
        using True dg by (auto simp: level_ok_def)
      let ?k = "min ?d (length ?bs)"
      let ?ts = "resize_to (last' - first + 1) (replicate 64 0) (drop ?k ts)"
      have "lv_transitions lv' = Some ?ts"
        using dg ts(1) ok(1) by (simp add: lv'_def prepare_level_def Let_def pop_old_parts)
      moreover have "?ts ! i = block_flips s lo hi w (first + i)" if "0 < i \<and> first + i < hi0 div w" for i
      proof -
        have "?k = ?d" using i(1) [OF that] by simp
        then show ?thesis
          using i [OF that] that ts(2,3) old_block [OF w le(1,2), of "first + i"]
          by (simp add: resize_to_nth first_def)
      qed
      ultimately show ?thesis by auto
    qed
    show ?thesis using fb sum flip by (simp add: blocks)
  qed
qed

lemma sync_level_ok:
  assumes old: "old_level s digital lo0 hi0 w lv" and w: "0 < w" and le: "lo0 \<le> lo" "hi0 \<le> hi" "lo < hi"
    and below: "\<And>b. rebuild_summary samples lo hi w child b = block_summary s lo hi w b"
      "\<And>b. digital \<Longrightarrow> rebuild_counts samples lo hi w child b = block_flips s lo hi w b"
  shows "level_ok s digital lo hi w (sync_level digital samples lo hi hi0 w child lv)"
proof -
  let ?first = "lo div w" and ?last = "(hi - 1) div w"
  let ?tail = "max (?first + 1) (hi0 div w)"
  let ?bs = "?first # [?tail..<?last + 1]"
  let ?lv = "prepare_level digital ?first ?last lv"
  let ?new = "sync_level digital samples lo hi hi0 w child lv"
  note prep = prepared_block [OF old w le]
  have bs: "list_all (\<lambda>b. ?first \<le> b) ?bs" by (auto simp: list_all_iff)
  have set: "?first + i \<in> set ?bs \<or> 0 < i \<and> ?first + i < hi0 div w" if "i < ?last - ?first + 1" for i
    using that by auto
  have fold: "?new = foldl (rebuild_block digital samples lo hi w child ?first) ?lv ?bs"
    by (simp add: sync_level_def Let_def)
  have blocks: "lv_blocks ?new = foldl (\<lambda>xs b. xs[b - ?first := block_summary s lo hi w b]) (lv_blocks ?lv) ?bs"
    unfolding fold rebuild_blocks_fold below(1) ..
  have fb: "lv_firstBlock ?new = ?first" unfolding fold rebuild_blocks_fold using prep by simp
  have sum: "lv_blocks ?new ! i = block_summary s lo hi w (?first + i)" if "i < ?last - ?first + 1" for i
    using set [OF that] prep that fold_update_nth [OF bs, of i "lv_blocks ?lv" "block_summary s lo hi w"]
    unfolding blocks by auto
  have flip: "\<exists>ts. lv_transitions ?new = Some ts \<and> length ts = ?last - ?first + 1 \<and>
      (\<forall>i < ?last - ?first + 1. ts ! i = block_flips s lo hi w (?first + i))" if dg: "digital"
  proof -
    obtain ts where ts: "lv_transitions ?lv = Some ts" "length ts = ?last - ?first + 1"
      "\<forall>i. 0 < i \<and> ?first + i < hi0 div w \<longrightarrow> ts ! i = block_flips s lo hi w (?first + i)"
      using prep dg by blast
    have new: "lv_transitions ?new = Some (foldl (\<lambda>xs b. xs[b - ?first := block_flips s lo hi w b]) ts ?bs)"
      unfolding fold rebuild_blocks_fold(3) [OF ts(1) dg] below(2) [OF dg] ..
    have "foldl (\<lambda>xs b. xs[b - ?first := block_flips s lo hi w b]) ts ?bs ! i = block_flips s lo hi w (?first + i)"
      if "i < ?last - ?first + 1" for i
      using set [OF that] ts(2,3) that fold_update_nth [OF bs, of i ts "block_flips s lo hi w"] by auto
    then show ?thesis unfolding new using ts(2) by (simp only: option.inject simp_thms fold_update_length) blast
  qed
  have len: "length (lv_blocks ?new) = ?last - ?first + 1" unfolding blocks fold_update_length using prep by simp
  show ?thesis unfolding level_ok_def using fb sum flip len by metis
qed

section \<open>Synchronizing the index\<close>

fun levels_ok :: "(nat \<Rightarrow> WaveSample) \<Rightarrow> bool \<Rightarrow> nat \<Rightarrow> nat \<Rightarrow> nat \<Rightarrow> Level list \<Rightarrow> bool" where
  "levels_ok s digital lo hi w [] \<longleftrightarrow> lo div w = (hi - 1) div w"
| "levels_ok s digital lo hi w (lv # lvs) \<longleftrightarrow>
     lo < hi \<and> level_ok s digital lo hi w lv \<and> levels_ok s digital lo hi (w * 2) lvs"

lemma levels_ok_one: "lo div w = (hi - 1) div w \<Longrightarrow> levels_ok s digital lo hi (w * 2) []"
  by (simp add: div_mult2_eq)

lemma levels_ok_hd:
  "levels_ok s digital lo hi w levels \<Longrightarrow> old_level s digital lo hi w (case levels of [] \<Rightarrow> empty_level | lv # _ \<Rightarrow> lv)"
  by (cases levels) (simp_all add: old_level_def)

lemma levels_ok_tl: "levels_ok s digital lo hi w levels \<Longrightarrow> levels_ok s digital lo hi (w * 2) (tl levels)"
  by (cases levels) (simp_all add: div_mult2_eq)

lemma sync_levels_ok:
  assumes "levels_ok s digital lo0 hi0 w levels" "0 < w" "lo0 \<le> lo" "hi0 \<le> hi" "lo < hi"
    and "\<And>b. rebuild_summary samples lo hi w child b = block_summary s lo hi w b"
      "\<And>b. digital \<Longrightarrow> rebuild_counts samples lo hi w child b = block_flips s lo hi w b"
  shows "levels_ok s digital lo hi w (sync_levels digital samples lo hi hi0 w child levels)"
  using assms
proof (induction digital samples lo hi hi0 w child levels rule: sync_levels.induct)
  case (1 digital samples lo hi hi0 w child levels)
  let ?lv = "sync_level digital samples lo hi hi0 w child (case levels of [] \<Rightarrow> empty_level | lv # _ \<Rightarrow> lv)"
  have ok: "level_ok s digital lo hi w ?lv"
    by (rule sync_level_ok [OF levels_ok_hd [OF "1.prems"(1)] "1.prems"(2-7)])
  show ?case
  proof (cases "lo div w = (hi - 1) div w")
    case True
    then show ?thesis
      using ok "1.prems"(5) by (subst sync_levels.simps) (simp add: Let_def levels_ok_one del: levels_ok.simps(1))
  next
    case False
    have "levels_ok s digital lo hi (w * 2) (sync_levels digital samples lo hi hi0 (w * 2) (Some ?lv) (tl levels))"
    proof (rule "1.IH" [OF refl False levels_ok_tl [OF "1.prems"(1)] _ "1.prems"(3-5)])
      show "0 < w * 2" using "1.prems"(2) by simp
      show "rebuild_summary samples lo hi (w * 2) (Some ?lv) b = block_summary s lo hi (w * 2) b" for b
        by (rule rebuild_summary_pair [OF ok "1.prems"(5,2)])
      show "rebuild_counts samples lo hi (w * 2) (Some ?lv) b = block_flips s lo hi (w * 2) b" if "digital" for b
        using ok that by (intro rebuild_counts_pair "1.prems"(5,2)) simp
    qed
    then show ?thesis
      using ok False "1.prems"(5) by (subst sync_levels.simps) (simp add: Let_def del: rebuild_summary.simps)
  qed
qed

text \<open>The index holds the window \<open>lo, ..., hi - 1\<close> of the sequence.\<close>

definition index_ok :: "(nat \<Rightarrow> WaveSample) \<Rightarrow> WaveSummaryIndex \<Rightarrow> bool" where
  "index_ok s ix \<longleftrightarrow> levels_ok s (wi_digital ix) (wi_begin ix) (wi_end ix) blockSize (wi_levels ix)"

lemma clear_index_ok [simp]: "index_ok s (clear_index ix)"
  by (simp add: index_ok_def clear_index_def)

lemma new_index_ok [simp]: "index_ok s new_WaveSummaryIndex"
  by (simp add: index_ok_def new_WaveSummaryIndex_def)

lemma synchronize_ok:
  assumes "index_ok s ix" "window s offset (offset + length samples) samples"
  shows "index_ok s (synchronize_index samples offset digital ix)"
proof -
  define ix1 where "ix1 = (if wi_digital ix \<noteq> digital then clear_index ix else ix)\<lparr>wi_digital := digital\<rparr>"
  have ok1: "index_ok s ix1" "wi_digital ix1 = digital"
    using assms(1) by (auto simp: ix1_def index_ok_def clear_index_def)
  show ?thesis
  proof (cases "samples = []")
    case True
    then show ?thesis by (simp add: synchronize_index_def Let_def)
  next
    case False
    let ?hi = "offset + length samples"
    define ix2 where "ix2 = (if offset < wi_begin ix1 \<or> ?hi < wi_end ix1 \<or> wi_end ix1 \<le> offset then clear_index ix1 else ix1)"
    have ok2: "levels_ok s digital (wi_begin ix2) (wi_end ix2) blockSize (wi_levels ix2)" "wi_digital ix2 = digital"
      using ok1 by (auto simp: ix2_def index_ok_def clear_index_def)
    have le: "wi_begin ix2 \<le> offset" "wi_end ix2 \<le> ?hi" "offset < ?hi" "0 < blockSize"
      using False by (auto simp: ix2_def clear_index_def blockSize_def)
    have "levels_ok s digital offset ?hi blockSize
        (sync_levels digital samples offset ?hi (wi_end ix2) blockSize None (wi_levels ix2))"
      by (rule sync_levels_ok [OF ok2(1) le(4,1,2,3)])
        (simp_all only: rebuild_summary_scan [OF assms(2)] rebuild_counts_scan [OF assms(2)])
    moreover have "synchronize_index samples offset digital ix =
        ix2\<lparr>wi_begin := offset, wi_end := ?hi,
          wi_levels := sync_levels digital samples offset ?hi (wi_end ix2) blockSize None (wi_levels ix2)\<rparr>"
      using False by (simp only: synchronize_index_def Let_def ix1_def [symmetric] ix2_def if_False)
    ultimately show ?thesis using ok2(2) by (simp add: index_ok_def)
  qed
qed

section \<open>Queries\<close>

text \<open>A block of the level that starts at \<open>b\<close> and ends before \<open>e\<close>.\<close>

definition block_at :: "(nat \<Rightarrow> WaveSample) \<Rightarrow> bool \<Rightarrow> nat \<Rightarrow> nat \<Rightarrow> nat \<Rightarrow> nat \<Rightarrow> nat \<Rightarrow> Level \<Rightarrow> bool" where
  "block_at s digital lo hi b e w lv \<longleftrightarrow>
     b mod w = 0 \<and> w \<le> e - b \<and> in_level lv (b div w) \<and> level_ok s digital lo hi w lv"

lemma select_level_Some:
  assumes "levels_ok s digital lo hi w lvs"
  shows "select_level lvs l w b e selected = Some k \<Longrightarrow>
    selected = Some k \<or> (\<exists>j < length lvs. k = l + j \<and> block_at s digital lo hi b e (w * 2 ^ j) (lvs ! j))"
  using assms
proof (induction lvs arbitrary: l w selected)
  case (Cons lv lvs)
  show ?case
  proof (cases "b mod w \<noteq> 0 \<or> e - b < w")
    case True
    then show ?thesis using Cons.prems(1) by simp
  next
    case False
    let ?new = "if in_level lv (b div w) \<and> ws_count (lv_blocks lv ! (b div w - lv_firstBlock lv)) = w then Some l else selected"
    have "select_level lvs (l + 1) (w * 2) b e ?new = Some k" using Cons.prems(1) False by (simp add: Let_def)
    then consider "?new = Some k"
      | j where "j < length lvs" "k = l + 1 + j" "block_at s digital lo hi b e (w * 2 * 2 ^ j) (lvs ! j)"
      using Cons.IH [of "l + 1" "w * 2" ?new] Cons.prems(2) by auto
    then show ?thesis
    proof cases
      case 1
      show ?thesis
      proof (cases "selected = Some k")
        case no: False
        then have "k = l" "in_level lv (b div w)" using 1 by (auto split: if_split_asm)
        then show ?thesis using False Cons.prems(2) by (intro disjI2 exI [of _ 0]) (simp add: block_at_def)
      qed simp
    next
      case (2 j)
      moreover have "w * 2 * 2 ^ j = w * 2 ^ Suc j" by simp
      ultimately show ?thesis by (intro disjI2 exI [of _ "Suc j"]) (simp del: power_Suc)
    qed
  qed
qed simp

text \<open>The block selected is the one of the next samples.\<close>

lemma selected_block:
  assumes "levels_ok s digital lo hi blockSize levels" "select_level levels 0 blockSize b e None = Some l" "lo \<le> b" "e \<le> hi" "b < e"
  defines "width \<equiv> blockSize * 2 ^ l" and "lv \<equiv> levels ! l"
  shows "b + width \<le> e" "0 < width" "lv_blocks lv ! (b div width - lv_firstBlock lv) = summary_of s b (b + width)"
    "digital \<Longrightarrow> the (lv_transitions lv) ! (b div width - lv_firstBlock lv) = flip_counts s b (b + width)"
proof -
  have l: "b mod width = 0" "width \<le> e - b" "in_level lv (b div width)" "level_ok s digital lo hi width lv"
    using select_level_Some [OF assms(1,2)] by (auto simp: width_def lv_def block_at_def)
  show w: "0 < width" and e: "b + width \<le> e" using l(2) assms(5) by (simp_all add: width_def blockSize_def)
  have b: "b div width * width = b" using div_mult_mod_eq [of b width] l(1) by simp
  have "max lo (b div width * width) = b" "min hi ((b div width + 1) * width) = b + width"
    using assms(3,4) e by (simp_all add: b)
  then show "lv_blocks lv ! (b div width - lv_firstBlock lv) = summary_of s b (b + width)"
    "digital \<Longrightarrow> the (lv_transitions lv) ! (b div width - lv_firstBlock lv) = flip_counts s b (b + width)"
    using level_block [OF l(4,3)] by (simp_all only: block_summary_def block_flips_def)
qed

lemma query_loop_summary:
  assumes ok: "levels_ok s digital lo hi blockSize levels" "window s lo hi samples"
  shows "lo \<le> b \<Longrightarrow> e \<le> hi \<Longrightarrow> summary_ok r \<Longrightarrow>
    fst (query_loop levels samples lo b e r c) = merge r (summary_of s b e)"
proof (induction "e - b" arbitrary: b r c rule: less_induct)
  case less
  have step: "fst (query_loop levels samples lo m e (merge r (summary_of s b m)) c') = merge r (summary_of s b e)"
    if "b < m" "m \<le> e" for m c'
  proof -
    have "fst (query_loop levels samples lo m e (merge r (summary_of s b m)) c') = merge (merge r (summary_of s b m)) (summary_of s m e)"
      using that less.prems by (intro less.hyps) simp_all
    also have "\<dots> = merge r (summary_of s b e)"
      using that less.prems(3) summary_of_split [of b m e s] by (simp add: merge_assoc)
    finally show ?thesis .
  qed
  show ?case
  proof (cases "b < e")
    case False
    then show ?thesis using less.prems(3) by (subst query_loop.simps) simp
  next
    case True
    show ?thesis
    proof (cases "select_level levels 0 blockSize b e None")
      case None
      let ?m = "min e ((b div blockSize + 1) * blockSize)"
      have m: "b < ?m" "?m \<le> e" using next_block [OF True] by simp_all
      have "scan samples lo b ?m = summary_of s b ?m" using less.prems m by (intro scan_window [OF ok(2)]) simp_all
      then show ?thesis using True None step [OF m] by (subst query_loop.simps) (simp add: Let_def)
    next
      case (Some l)
      note sel = selected_block [OF ok(1) Some less.prems(1,2) True]
      show ?thesis using True Some step [OF _ sel(1)] sel(2,3) by (subst query_loop.simps) (simp add: Let_def)
    qed
  qed
qed

text \<open>A query reads less than two blocks of samples.\<close>

lemma select_level_kept: "selected \<noteq> None \<Longrightarrow> select_level lvs l w b e selected \<noteq> None"
  by (induction lvs arbitrary: l w selected) (auto simp: Let_def)

lemma select_level_aligned:
  assumes "levels_ok s digital lo hi blockSize levels" "levels \<noteq> []" "lo \<le> b" "e \<le> hi" "b mod blockSize = 0" "b + blockSize \<le> e"
  shows "select_level levels 0 blockSize b e None \<noteq> None"
proof -
  obtain lv lvs where levels: "levels = lv # lvs" using assms(2) by (auto simp: neq_Nil_conv)
  then have lv: "lo < hi" "level_ok s digital lo hi blockSize lv" using assms(1) by simp_all
  have b: "b div blockSize * blockSize = b" using div_mult_mod_eq [of b blockSize] assms(5) by simp
  have "b \<le> hi - 1" using assms(4,6) lv(1) by (simp add: blockSize_def)
  then have "lo div blockSize \<le> b div blockSize" "b div blockSize \<le> (hi - 1) div blockSize"
    using assms(3) by (simp_all add: div_le_mono)
  then have i: "in_level lv (b div blockSize)" using level_range [OF lv(2,1)] by simp
  have "ws_count (lv_blocks lv ! (b div blockSize - lv_firstBlock lv)) = blockSize"
    using assms(3,4,6) b unfolding level_block(1) [OF lv(2) i] block_summary_def by simp
  then show ?thesis
    using i assms(5,6) select_level_kept [of "Some 0" lvs 1 "blockSize * 2" b e] by (auto simp: levels Let_def)
qed

lemma query_loop_aligned:
  assumes ok: "levels_ok s digital lo hi blockSize levels" "levels \<noteq> []"
  shows "lo \<le> b \<Longrightarrow> e \<le> hi \<Longrightarrow> b mod blockSize = 0 \<Longrightarrow>
    qc_rawSamples (snd (query_loop levels samples lo b e r c)) \<le> qc_rawSamples c + min (e - b) (blockSize - 1)"
proof (induction "e - b" arbitrary: b r c rule: less_induct)
  case less
  show ?case
  proof (cases "b < e")
    case False
    then show ?thesis by (subst query_loop.simps) simp
  next
    case True
    show ?thesis
    proof (cases "select_level levels 0 blockSize b e None")
      case None
      then have e: "\<not> b + blockSize \<le> e" using select_level_aligned [OF ok less.prems] by blast
      have "b = b div blockSize * blockSize" using div_mult_mod_eq [of b blockSize] less.prems(3) by simp
      then have m: "min e ((b div blockSize + 1) * blockSize) = e" using e by (simp add: algebra_simps)
      then show ?thesis
        using True None e query_loop.simps [of levels samples lo e e]
        by (subst query_loop.simps) (simp add: Let_def m min_def blockSize_def)
    next
      case (Some l)
      let ?w = "blockSize * 2 ^ l"
      note sel = selected_block [OF ok(1) Some less.prems(1,2) True]
      have "e - (b + ?w) < e - b" using sel(2) True by (intro diff_less_mono2) simp_all
      moreover have "(b + ?w) mod blockSize = 0" using less.prems(3) by simp
      ultimately have "qc_rawSamples (snd (query_loop levels samples lo (b + ?w) e r' c')) \<le>
          qc_rawSamples c' + min (e - (b + ?w)) (blockSize - 1)"
        for r' c' using less.prems by (intro less.hyps) simp_all
      then have rec: "qc_rawSamples (snd (query_loop levels samples lo (b + ?w) e r'
          (c\<lparr>qc_summaryHits := qc_summaryHits c + 1\<rparr>))) \<le> qc_rawSamples c + min (e - b) (blockSize - 1)" for r'
        by (rule order_trans) simp
      show ?thesis using True Some by (subst query_loop.simps) (simp add: Let_def rec [simplified])
    qed
  qed
qed

lemma query_loop_raw:
  assumes ok: "levels_ok s digital lo hi blockSize levels" "levels \<noteq> []" and le: "lo \<le> b" "e \<le> hi"
  shows "qc_rawSamples (snd (query_loop levels samples lo b e r c)) \<le> qc_rawSamples c + 2 * (blockSize - 1)"
proof (cases "b < e \<and> b mod blockSize \<noteq> 0")
  case False
  show ?thesis
  proof (cases "b < e")
    case True
    then show ?thesis using query_loop_aligned [OF ok le, of samples r c] False by simp
  next
    case False
    then show ?thesis by (subst query_loop.simps) simp
  qed
next
  case True
  let ?m = "min e ((b div blockSize + 1) * blockSize)"
  have none: "select_level levels 0 blockSize b e None = None" using True by (cases levels) simp_all
  have "0 < b mod blockSize" "b div blockSize * blockSize + b mod blockSize = b"
    "?m \<le> b div blockSize * blockSize + blockSize" using True by simp_all
  then have m: "?m - b \<le> blockSize - 1" "lo \<le> ?m" using le(1) True next_block [of b e] by linarith+
  have "qc_rawSamples (snd (query_loop levels samples lo ?m e r' c')) \<le> qc_rawSamples c' + (blockSize - 1)" for r' c'
  proof (cases "?m = e")
    case True
    then show ?thesis by (subst query_loop.simps) simp
  next
    case False
    then have "?m mod blockSize = 0" by (simp add: min_def del: mult_Suc split: if_splits)
    then show ?thesis using query_loop_aligned [OF ok m(2) le(2), of samples r' c'] by simp
  qed
  then have "qc_rawSamples (snd (query_loop levels samples lo ?m e r' (c\<lparr>qc_rawSamples := qc_rawSamples c + (?m - b)\<rparr>))) \<le>
      qc_rawSamples c + 2 * (blockSize - 1)" for r'
    by (rule order_trans) (use m(1) in simp)
  then show ?thesis using True none by (subst query_loop.simps) (simp add: Let_def)
qed

lemma flips_join:
  assumes "b < m" "m \<le> e"
  shows "flips s n b e = flips s n b m + flips s n (m - 1) e"
proof -
  have "[b + 1..<e] = [b + 1..<m] @ [m..<e]" using assms by (metis Suc_eq_plus1 Suc_leI le_add_diff_inverse upt_add_eq_append)
  then show ?thesis using assms by (simp add: flips_def)
qed

text \<open>The position from which transitions are counted: the sample before, where its bits are known.\<close>

definition count_from :: "(nat \<Rightarrow> WaveSample) \<Rightarrow> nat \<Rightarrow> u64 option \<Rightarrow> nat" where
  "count_from s b previous = (if previous = None then b else b - 1)"

definition previous_ok :: "(nat \<Rightarrow> WaveSample) \<Rightarrow> nat \<Rightarrow> u64 option \<Rightarrow> bool" where
  "previous_ok s b previous \<longleftrightarrow> (\<forall>p. previous = Some p \<longrightarrow> 0 < b \<and> p = waveRawBits (sm_value (s (b - 1))))"

lemma flips_from:
  assumes "previous_ok s b previous" "b < e"
  shows "flips s n (count_from s b previous) e =
    of_bool (case previous of None \<Rightarrow> False | Some p \<Rightarrow> bit (p XOR waveRawBits (sm_value (s b))) n) + flips s n b e"
  using assms flips_join [of "b - 1" b e s n] by (cases previous) (auto simp: count_from_def previous_ok_def flips_def upt_conv_Cons)

lemma transitions_loop_count:
  assumes ok: "levels_ok s digital lo hi blockSize levels" "window s lo hi samples" "n < 64"
  shows "lo \<le> b \<Longrightarrow> e \<le> hi \<Longrightarrow> previous_ok s b previous \<Longrightarrow>
    fst (transitions_loop digital levels samples lo n b e r previous c) =
      r + word_of_nat (flips s n (count_from s b previous) e)"
proof (induction "e - b" arbitrary: b r previous c rule: less_induct)
  case less
  let ?flip = "\<lambda>bits. case previous of None \<Rightarrow> False | Some p \<Rightarrow> bit (p XOR bits) n"
  have step: "fst (transitions_loop digital levels samples lo n m e (if ?flip bits then r + k + 1 else r + k) (Some bits') c') =
      r + word_of_nat (flips s n (count_from s b previous) e)"
    if "b < m" "m \<le> e" "bits = waveRawBits (sm_value (s b))" "bits' = waveRawBits (sm_value (s (m - 1)))"
      "k = word_of_nat (flips s n b m)" for m bits bits' k c'
  proof -
    have p: "previous_ok s m (Some bits')" using that(1,4) by (simp add: previous_ok_def)
    have "fst (transitions_loop digital levels samples lo n m e (if ?flip bits then r + k + 1 else r + k) (Some bits') c') =
        (if ?flip bits then r + k + 1 else r + k) + word_of_nat (flips s n (m - 1) e)"
      using less.hyps [OF _ _ less.prems(2) p] that(1,2) less.prems(1) by (simp add: count_from_def)
    also have "\<dots> = r + word_of_nat (flips s n (count_from s b previous) e)"
      using less_le_trans [OF that(1,2)] flips_from [OF less.prems(3), of e n] flips_join [OF that(1,2), of s n] unfolding that(3,5) by simp
    finally show ?thesis .
  qed
  show ?case
  proof (cases "b < e")
    case False
    then have "flips s n (count_from s b previous) e = 0"
      using less.prems(3) by (auto simp: count_from_def previous_ok_def)
    then show ?thesis using False by (subst transitions_loop.simps) simp
  next
    case True
    show ?thesis
    proof (cases "if digital then select_level levels 0 blockSize b e None else None")
      case None
      let ?B = "waveRawBits (sm_value (s b))"
      have "samples ! (b - lo) = s b" using ok(2) less.prems True by (simp add: window_def)
      then have "transitions_loop digital levels samples lo n b e r previous c =
          transitions_loop digital levels samples lo n (b + 1) e (if ?flip ?B then r + 0 + 1 else r + 0) (Some ?B)
            (c\<lparr>qc_rawSamples := qc_rawSamples c + 1\<rparr>)"
        using True None by (subst transitions_loop.simps) (simp add: Let_def)
      moreover have "fst (transitions_loop digital levels samples lo n (b + 1) e (if ?flip ?B then r + 0 + 1 else r + 0) (Some ?B)
          (c\<lparr>qc_rawSamples := qc_rawSamples c + 1\<rparr>)) = r + word_of_nat (flips s n (count_from s b previous) e)"
        by (rule step) (use True in simp_all)
      ultimately show ?thesis by (simp only:)
    next
      case (Some l)
      then have dg: "digital" and sl: "select_level levels 0 blockSize b e None = Some l" by (simp_all split: if_splits)
      let ?w = "blockSize * 2 ^ l"
      let ?F = "ws_firstBits (summary_of s b (b + ?w))" and ?L = "ws_lastBits (summary_of s b (b + ?w))"
      let ?k = "word_of_nat (flips s n b (b + ?w)) :: u64"
      note sel = selected_block [OF ok(1) sl less.prems(1,2) True]
      have "transitions_loop digital levels samples lo n b e r previous c =
          transitions_loop digital levels samples lo n (b + ?w) e (if ?flip ?F then r + ?k + 1 else r + ?k) (Some ?L)
            (c\<lparr>qc_summaryHits := qc_summaryHits c + 1\<rparr>)"
        using True sl dg sel(3) sel(4) [OF dg] ok(3) by (subst transitions_loop.simps) (simp add: Let_def)
      moreover have "fst (transitions_loop digital levels samples lo n (b + ?w) e (if ?flip ?F then r + ?k + 1 else r + ?k) (Some ?L)
          (c\<lparr>qc_summaryHits := qc_summaryHits c + 1\<rparr>)) = r + word_of_nat (flips s n (count_from s b previous) e)"
        by (rule step [OF _ sel(1)]) (use summary_of_ends [of b "b + ?w" s] sel(2) in simp_all)
      ultimately show ?thesis by (simp only:)
    qed
  qed
qed

section \<open>Runs\<close>

lemma synchronize_window:
  assumes "samples \<noteq> []"
  shows "wi_begin (synchronize_index samples offset digital ix) = offset"
    "wi_end (synchronize_index samples offset digital ix) = offset + length samples"
    "wi_digital (synchronize_index samples offset digital ix) = digital"
    "wi_levels (synchronize_index samples offset digital ix) \<noteq> []"
proof -
  have "sync_levels dg xs lo hi hi0 w child lvs \<noteq> []" for dg xs lo hi hi0 w child lvs
    by (subst sync_levels.simps) (simp add: Let_def)
  then show "wi_begin (synchronize_index samples offset digital ix) = offset"
    "wi_end (synchronize_index samples offset digital ix) = offset + length samples"
    "wi_digital (synchronize_index samples offset digital ix) = digital"
    "wi_levels (synchronize_index samples offset digital ix) \<noteq> []"
    using assms by (simp_all add: synchronize_index_def Let_def clear_index_def)
qed

text \<open>An index that answers for the samples of a channel.\<close>

definition answers_for :: "WaveSample list \<Rightarrow> nat \<Rightarrow> WaveSummaryIndex \<Rightarrow> bool" where
  "answers_for samples offset ix \<longleftrightarrow>
     index_ok (\<lambda>i. samples ! (i - offset)) ix \<and>
     (samples \<noteq> [] \<longrightarrow> wi_begin ix = offset \<and> wi_end ix = offset + length samples \<and> wi_levels ix \<noteq> []) \<and>
     (samples = [] \<longrightarrow> wi_levels ix = [] \<and> wi_begin ix = 0 \<and> wi_end ix = 0)"

lemma window_own: "window (\<lambda>i. samples ! (i - offset)) offset (offset + length samples) samples"
  by (simp add: window_def)

lemma answers_clear [simp]: "answers_for [] offset (clear_index ix)"
  by (simp add: answers_for_def) (simp add: clear_index_def)

lemma answers_new [simp]: "answers_for [] offset new_WaveSummaryIndex"
  by (simp add: answers_for_def) (simp add: new_WaveSummaryIndex_def)

lemma answers_levels:
  assumes "answers_for samples offset ix" "samples \<noteq> []"
  shows "levels_ok (\<lambda>i. samples ! (i - offset)) (wi_digital ix) offset (offset + length samples) blockSize (wi_levels ix)"
    "wi_levels ix \<noteq> []"
  using assms by (auto simp: answers_for_def index_ok_def)

lemma query_answers:
  assumes "answers_for samples offset ix"
  shows "fst (query_summary ix samples offset b e c) =
      scan samples offset (min b (length samples) + offset) (min e (length samples) + offset)"
    "qc_rawSamples (snd (query_summary ix samples offset b e c)) \<le> qc_rawSamples c + 2 * (blockSize - 1)"
proof -
  let ?b = "min b (length samples) + offset" and ?e = "min e (length samples) + offset"
  have "fst (query_summary ix samples offset b e c) = scan samples offset ?b ?e \<and>
    qc_rawSamples (snd (query_summary ix samples offset b e c)) \<le> qc_rawSamples c + 2 * (blockSize - 1)"
  proof (cases "samples = []")
    case True
    then show ?thesis by (simp add: query_summary_def scan_def, subst (1 2) query_loop.simps) simp
  next
    case False
    note lv = answers_levels [OF assms False]
    have "fst (query_loop (wi_levels ix) samples offset ?b ?e empty_summary c) =
        merge empty_summary (summary_of (\<lambda>i. samples ! (i - offset)) ?b ?e)"
      by (rule query_loop_summary [OF lv(1) window_own]) simp_all
    moreover have "qc_rawSamples (snd (query_loop (wi_levels ix) samples offset ?b ?e empty_summary c)) \<le>
        qc_rawSamples c + 2 * (blockSize - 1)"
      by (rule query_loop_raw [OF lv]) simp_all
    ultimately show ?thesis by (simp add: query_summary_def scan_summary)
  qed
  then show "fst (query_summary ix samples offset b e c) = scan samples offset ?b ?e"
    "qc_rawSamples (snd (query_summary ix samples offset b e c)) \<le> qc_rawSamples c + 2 * (blockSize - 1)" by simp_all
qed

lemma bitTransitions_answers:
  assumes "answers_for samples offset ix" "n < 64"
  shows "fst (bitTransitions ix samples offset b e n c) =
    word_of_nat (flips (\<lambda>i. samples ! (i - offset)) n (min b (length samples) + offset) (min e (length samples) + offset))"
proof (cases "samples = []")
  case True
  then show ?thesis using assms(2) by (simp add: bitTransitions_def, subst transitions_loop.simps) simp
next
  case False
  show ?thesis
    using transitions_loop_count [OF answers_levels(1) [OF assms(1) False] window_own assms(2), of
        "min b (length samples) + offset" "min e (length samples) + offset" None 0 c] assms(2)
    by (simp add: bitTransitions_def previous_ok_def count_from_def)
qed

text \<open>
  Synchronizing with the samples of a later time: the old ones that are still there are unchanged.
\<close>

lemma levels_ok_cong:
  assumes "\<And>i. lo \<le> i \<Longrightarrow> i < hi \<Longrightarrow> s i = t i"
  shows "levels_ok s digital lo hi w lvs \<longleftrightarrow> levels_ok t digital lo hi w lvs"
proof (induction lvs arbitrary: w)
  case (Cons lv lvs)
  have "block_summary s lo hi w b = block_summary t lo hi w b" "block_flips s lo hi w b = block_flips t lo hi w b" for b
    unfolding block_summary_def block_flips_def flip_counts_def
    using assms by (auto intro!: summary_of_cong flips_cong map_cong arg_cong [where f = word_of_nat])
  then have "level_ok s digital lo hi w lv \<longleftrightarrow> level_ok t digital lo hi w lv" by (simp add: level_ok_def)
  then show ?case using Cons by simp
qed simp

text \<open>The old samples and the new ones agree where both have them.\<close>

definition agree :: "nat \<Rightarrow> WaveSample list \<Rightarrow> nat \<Rightarrow> WaveSample list \<Rightarrow> bool" where
  "agree off0 old off new \<longleftrightarrow>
     (\<forall>i. off \<le> i \<and> i < off0 + length old \<and> off0 \<le> off \<and> off0 + length old \<le> off + length new \<longrightarrow> old ! (i - off0) = new ! (i - off))"

lemma synchronize_answers:
  assumes "answers_for old off0 ix" "agree off0 old off new"
  shows "answers_for new off (synchronize_index new off digital ix)"
proof (cases "new = []")
  case True
  then show ?thesis by (simp add: answers_for_def index_ok_def synchronize_index_def Let_def clear_index_def)
next
  case False
  let ?s = "\<lambda>i. new ! (i - off)"
  have "index_ok ?s (synchronize_index new off digital ix)"
  proof (cases "wi_digital ix \<noteq> digital \<or> off < wi_begin ix \<or> off + length new < wi_end ix \<or> wi_end ix \<le> off")
    case True
    then have "synchronize_index new off digital ix = synchronize_index new off digital (clear_index ix)"
      using False by (auto simp: synchronize_index_def Let_def clear_index_def)
    then show ?thesis using synchronize_ok [OF clear_index_ok window_own] by simp
  next
    case c: False
    then have old: "old \<noteq> []" "wi_begin ix = off0" "wi_end ix = off0 + length old"
      using assms(1) by (auto simp: answers_for_def)
    define s where "s = (\<lambda>i. if i < off then old ! (i - off0) else ?s i)"
    have "index_ok s ix"
      using assms c old unfolding answers_for_def index_ok_def
      by (subst levels_ok_cong [where t = "\<lambda>i. old ! (i - off0)"]) (auto simp: s_def agree_def)
    moreover have "window s off (off + length new) new" by (simp add: window_def s_def)
    ultimately have "index_ok s (synchronize_index new off digital ix)" by (rule synchronize_ok)
    then show ?thesis
      unfolding index_ok_def synchronize_window [OF False]
      by (subst levels_ok_cong [where t = s]) (simp_all add: s_def)
  qed
  then show ?thesis using False by (simp add: answers_for_def synchronize_window)
qed

end
