(* ===== verification/Oscilloscope.thy ===== *)
theory Oscilloscope
  imports Wave_Correct Number_Text
begin

text \<open>
  The sample histories behind the plots, \<open>OscilloscopeBuffer\<close> of \<open>plot/oscilloscope.hpp\<close> and
  \<open>plot/oscilloscope.cc\<close>: channels with their specifications, samples in the order of time, trimming to the
  history limits, the restart of a run at time zero, and the summary index of every channel. The order in
  which \<open>std::sort\<close> leaves samples of equal times is not determined by the code, so sorting is a parameter
  \<open>srt\<close>. The counter of data generations is shared by all buffers of the process; here it is part of the state.
  The readouts computed from samples (statistics, envelopes, measurements) are not modelled.
\<close>

section \<open>State\<close>

datatype WaveDataSource = Live | Imported

datatype WaveDisplayFormula = OffsetThenScale | ScaleThenOffset

record BitDisplaySpec =
  bd_enabled :: bool
  bd_firstBit :: nat
  bd_bitCount :: nat
  bd_yOffset :: f64
  bd_hoverReadout :: bool

record ChannelSpec =
  cs_label :: string
  cs_unit :: string
  cs_ratio :: f64
  cs_scale :: f64
  cs_offset :: f64
  cs_color :: "(f32 \<times> f32 \<times> f32 \<times> f32) option"
  cs_lineWidth :: "f32 option"
  cs_bitDisplay :: BitDisplaySpec

record ViewConfig =
  vc_timeScale :: f64
  vc_timeUnit :: string
  vc_verticalMin :: f64
  vc_verticalMax :: f64
  vc_verticalUnit :: string
  vc_historyLimit :: nat
  vc_displayFormula :: WaveDisplayFormula

record ChannelBuffer =
  ch_spec :: ChannelSpec
  ch_samples :: "WaveSample list"
  ch_sampleIndexOffset :: nat
  ch_summary :: WaveSummaryIndex
  ch_dataGeneration :: u64

record OscilloscopeBuffer =
  ob_source :: string
  ob_config :: ViewConfig
  ob_channels :: "ChannelBuffer list"
  ob_dataRevision :: u64
  ob_analysisRevision :: u64
  ob_historyEpoch :: u64
  ob_preservedHistoryLimit :: nat
  ob_maxTotalSamples :: nat
  ob_resetHistoryOnTimeReset :: bool
  ob_historyTrimSuspended :: bool
  ob_dataSource :: WaveDataSource
  ob_generation :: u64

definition kEpsilon :: f64 where
  "kEpsilon = ratio64 1 (10 ^ 12)"

definition double_one :: f64 where
  "double_one = ratio64 1 1"

definition new_BitDisplaySpec :: BitDisplaySpec where
  "new_BitDisplaySpec =
     \<lparr>bd_enabled = False, bd_firstBit = 0, bd_bitCount = 8, bd_yOffset = 0, bd_hoverReadout = False\<rparr>"

definition new_ChannelSpec :: ChannelSpec where
  "new_ChannelSpec =
     \<lparr>cs_label = [], cs_unit = [], cs_ratio = double_one, cs_scale = double_one, cs_offset = 0, cs_color = None,
      cs_lineWidth = None, cs_bitDisplay = new_BitDisplaySpec\<rparr>"

definition new_ViewConfig :: ViewConfig where
  "new_ViewConfig =
     \<lparr>vc_timeScale = double_one, vc_timeUnit = ''s'', vc_verticalMin = f64_negate double_one, vc_verticalMax = double_one,
      vc_verticalUnit = ''V'', vc_historyLimit = 0, vc_displayFormula = OffsetThenScale\<rparr>"

definition new_ChannelBuffer :: ChannelBuffer where
  "new_ChannelBuffer =
     \<lparr>ch_spec = new_ChannelSpec, ch_samples = [], ch_sampleIndexOffset = 0, ch_summary = new_WaveSummaryIndex,
      ch_dataGeneration = 0\<rparr>"

definition new_OscilloscopeBuffer :: OscilloscopeBuffer where
  "new_OscilloscopeBuffer =
     \<lparr>ob_source = [], ob_config = new_ViewConfig, ob_channels = [], ob_dataRevision = 0, ob_analysisRevision = 0,
      ob_historyEpoch = 0, ob_preservedHistoryLimit = 0, ob_maxTotalSamples = 0, ob_resetHistoryOnTimeReset = True,
      ob_historyTrimSuspended = False, ob_dataSource = Live, ob_generation = 0\<rparr>"

section \<open>Channel specifications\<close>

definition finite_or :: "f64 \<Rightarrow> f64 \<Rightarrow> f64" where
  "finite_or fallback value = (if f64_isfinite value then value else fallback)"

text \<open>\<open>static_cast<float>\<close> of a positive double in the normal range of floats, as the limits of the
  width ensure; the exponents of the two formats differ by 896.\<close>

definition f32_of_normal :: "f64 \<Rightarrow> f32" where
  "f32_of_normal d =
     word_of_nat ((f64_exponent d - 897) * 2 ^ 23 + round_half_even (2 ^ 52 + f64_mantissa d) (2 ^ 29))"

definition sanitizeChannelLineWidth :: "f64 \<Rightarrow> f32" where
  "sanitizeChannelLineWidth lineWidth =
     (if \<not> f64_isfinite lineWidth then 0x3FC00000
      else f32_of_normal (f64_clamp lineWidth (ratio64 1 2) (ratio64 8 1)))"

definition sanitizeBitDisplaySpec :: "BitDisplaySpec \<Rightarrow> BitDisplaySpec" where
  "sanitizeBitDisplaySpec spec =
     (let firstBit = (if 64 \<le> bd_firstBit spec then 0 else bd_firstBit spec);
          bitCount = min (if bd_bitCount spec = 0 then 8 else bd_bitCount spec) 64 in
      spec\<lparr>bd_yOffset := finite_or 0 (bd_yOffset spec), bd_firstBit := firstBit,
           bd_bitCount := (if 64 < firstBit + bitCount then 64 - firstBit else bitCount)\<rparr>)"

definition channel_label :: "nat \<Rightarrow> string" where
  "channel_label index = ''CH'' @ nat_text (index + 1)"

definition sanitize_spec :: "nat \<Rightarrow> ChannelSpec \<Rightarrow> ChannelSpec" where
  "sanitize_spec channelIndex spec =
     spec\<lparr>cs_label := (if cs_label spec = [] then channel_label channelIndex else cs_label spec),
          cs_ratio := finite_or double_one (cs_ratio spec), cs_scale := finite_or double_one (cs_scale spec),
          cs_offset := finite_or 0 (cs_offset spec),
          cs_lineWidth := map_option (\<lambda>w. sanitizeChannelLineWidth (f32_to_f64 w)) (cs_lineWidth spec),
          cs_bitDisplay := sanitizeBitDisplaySpec (cs_bitDisplay spec)\<rparr>"

text \<open>The comparisons of the members, as the operators of floats, doubles and optionals.\<close>

definition f32_equal :: "f32 \<Rightarrow> f32 \<Rightarrow> bool" where
  "f32_equal a b \<longleftrightarrow> f64_equal (f32_to_f64 a) (f32_to_f64 b)"

fun color_equal :: "(f32 \<times> f32 \<times> f32 \<times> f32) option \<Rightarrow> (f32 \<times> f32 \<times> f32 \<times> f32) option \<Rightarrow> bool" where
  "color_equal None None = True"
| "color_equal (Some (r, g, b, a)) (Some (r', g', b', a')) =
     (f32_equal r r' \<and> f32_equal g g' \<and> f32_equal b b' \<and> f32_equal a a')"
| "color_equal _ _ = False"

fun width_equal :: "f32 option \<Rightarrow> f32 option \<Rightarrow> bool" where
  "width_equal None None = True"
| "width_equal (Some a) (Some b) = f32_equal a b"
| "width_equal _ _ = False"

definition bit_display_equal :: "BitDisplaySpec \<Rightarrow> BitDisplaySpec \<Rightarrow> bool" where
  "bit_display_equal a b \<longleftrightarrow>
     bd_enabled a = bd_enabled b \<and> bd_firstBit a = bd_firstBit b \<and> bd_bitCount a = bd_bitCount b \<and>
     f64_equal (bd_yOffset a) (bd_yOffset b) \<and> bd_hoverReadout a = bd_hoverReadout b"

definition spec_equal :: "ChannelSpec \<Rightarrow> ChannelSpec \<Rightarrow> bool" where
  "spec_equal a b \<longleftrightarrow>
     cs_label a = cs_label b \<and> cs_unit a = cs_unit b \<and> f64_equal (cs_ratio a) (cs_ratio b) \<and>
     f64_equal (cs_scale a) (cs_scale b) \<and> f64_equal (cs_offset a) (cs_offset b) \<and> color_equal (cs_color a) (cs_color b) \<and>
     width_equal (cs_lineWidth a) (cs_lineWidth b) \<and> bit_display_equal (cs_bitDisplay a) (cs_bitDisplay b)"

section \<open>Requests\<close>

text \<open>\<open>sortSamplesByTime\<close>: samples that are already in order are left alone.\<close>

fun in_time_order :: "WaveSample list \<Rightarrow> bool" where
  "in_time_order (a # b # xs) \<longleftrightarrow> \<not> f64_less (sm_time b) (sm_time a) \<and> in_time_order (b # xs)"
| "in_time_order _ \<longleftrightarrow> True"

definition sortSamplesByTime :: "(WaveSample list \<Rightarrow> WaveSample list) \<Rightarrow> WaveSample list \<Rightarrow> WaveSample list" where
  "sortSamplesByTime srt samples = (if in_time_order samples then samples else srt samples)"

fun estimateTimeStep :: "WaveSample list \<Rightarrow> f64" where
  "estimateTimeStep (a # b # xs) =
     (if f64_isfinite (sm_time a) \<and> f64_isfinite (sm_time b) \<and> f64_less (sm_time a) (sm_time b)
      then f64_subtract (sm_time b) (sm_time a) else estimateTimeStep (b # xs))"
| "estimateTimeStep _ = kEpsilon"

fun startsAtHistoryOrigin :: "WaveSample list \<Rightarrow> f64 \<Rightarrow> bool" where
  "startsAtHistoryOrigin [] lastTime = False"
| "startsAtHistoryOrigin (a # xs) lastTime = (f64_le (sm_time a) lastTime \<and> f64_le (sm_time a) kEpsilon)"

fun shiftSamplesAfterLastTime :: "WaveSample list \<Rightarrow> f64 \<Rightarrow> WaveSample list" where
  "shiftSamplesAfterLastTime [] lastTime = []"
| "shiftSamplesAfterLastTime (a # xs) lastTime =
     (let offset = f64_subtract (f64_add lastTime (estimateTimeStep (a # xs))) (sm_time a) in
      map (\<lambda>s. s\<lparr>sm_time := f64_add (sm_time s) offset\<rparr>) (a # xs))"

definition dropSamplesNotAfterLastTime :: "WaveSample list \<Rightarrow> f64 \<Rightarrow> WaveSample list" where
  "dropSamplesNotAfterLastTime samples lastTime = filter (\<lambda>s. \<not> f64_le (sm_time s) lastTime) samples"

section \<open>Operations\<close>

definition effectiveHistoryLimit :: "OscilloscopeBuffer \<Rightarrow> nat" where
  "effectiveHistoryLimit b =
     (if vc_historyLimit (ob_config b) = 0 then ob_preservedHistoryLimit b
      else max (vc_historyLimit (ob_config b)) (ob_preservedHistoryLimit b))"

text \<open>Whether a channel is trimmed, and the channel afterwards.\<close>

definition trimHistory :: "OscilloscopeBuffer \<Rightarrow> ChannelBuffer \<Rightarrow> bool \<times> ChannelBuffer" where
  "trimHistory b ch =
     (let historyLimit = effectiveHistoryLimit b;
          effectiveLimit = (if 0 < historyLimit \<and> 0 < ob_maxTotalSamples b then min historyLimit (ob_maxTotalSamples b)
            else if 0 < historyLimit then historyLimit else ob_maxTotalSamples b) in
      if ob_historyTrimSuspended b \<or> (historyLimit = 0 \<and> ob_maxTotalSamples b = 0) \<or>
         length (ch_samples ch) \<le> effectiveLimit then (False, ch)
      else if effectiveLimit = 0 then
        (True, ch\<lparr>ch_sampleIndexOffset := ch_sampleIndexOffset ch + length (ch_samples ch), ch_samples := [],
                  ch_summary := clear_index (ch_summary ch)\<rparr>)
      else
        let keepOffset = length (ch_samples ch) - effectiveLimit; kept = drop keepOffset (ch_samples ch);
            offset = ch_sampleIndexOffset ch + keepOffset in
        (True, ch\<lparr>ch_sampleIndexOffset := offset, ch_samples := kept,
                  ch_summary := synchronize_index kept offset (bd_enabled (cs_bitDisplay (ch_spec ch))) (ch_summary ch)\<rparr>))"

definition clear_buffer :: "OscilloscopeBuffer \<Rightarrow> OscilloscopeBuffer" where
  "clear_buffer b =
     b\<lparr>ob_analysisRevision := ob_analysisRevision b + 1, ob_historyEpoch := ob_historyEpoch b + 1, ob_source := [],
       ob_channels := [], ob_config := new_ViewConfig, ob_preservedHistoryLimit := 0,
       ob_dataRevision := ob_dataRevision b + 1\<rparr>"

text \<open>A new channel takes the next generation; every channel without a label gets its default one.\<close>

definition label_channel :: "nat \<Rightarrow> ChannelBuffer \<Rightarrow> ChannelBuffer" where
  "label_channel index ch =
     (if cs_label (ch_spec ch) = [] then ch\<lparr>ch_spec := (ch_spec ch)\<lparr>cs_label := channel_label index\<rparr>\<rparr> else ch)"

definition configureChannels :: "nat \<Rightarrow> OscilloscopeBuffer \<Rightarrow> OscilloscopeBuffer" where
  "configureChannels channelCount b =
     (let previousCount = length (ob_channels b);
          added = map (\<lambda>k. new_ChannelBuffer\<lparr>ch_dataGeneration := ob_generation b + word_of_nat k\<rparr>)
            [1..<channelCount - previousCount + 1];
          channels = take channelCount (ob_channels b) @ added;
          b = b\<lparr>ob_channels := map2 label_channel [0..<length channels] channels,
                ob_generation := ob_generation b + word_of_nat (length added)\<rparr> in
      if length channels \<noteq> previousCount
      then b\<lparr>ob_dataRevision := ob_dataRevision b + 1, ob_analysisRevision := ob_analysisRevision b + 1\<rparr> else b)"

definition ensureChannel :: "nat \<Rightarrow> OscilloscopeBuffer \<Rightarrow> OscilloscopeBuffer" where
  "ensureChannel channelIndex b =
     (if length (ob_channels b) \<le> channelIndex then configureChannels (channelIndex + 1) b else b)"

definition update_channel :: "nat \<Rightarrow> (ChannelBuffer \<Rightarrow> ChannelBuffer) \<Rightarrow> OscilloscopeBuffer \<Rightarrow> OscilloscopeBuffer" where
  "update_channel channelIndex f b = b\<lparr>ob_channels := (ob_channels b)[channelIndex := f (ob_channels b ! channelIndex)]\<rparr>"

definition setChannelSpecImpl :: "nat \<Rightarrow> ChannelSpec \<Rightarrow> bool \<Rightarrow> OscilloscopeBuffer \<Rightarrow> OscilloscopeBuffer" where
  "setChannelSpecImpl channelIndex spec importing b =
     (let b = ensureChannel channelIndex b;
          channel = ob_channels b ! channelIndex; channelSpec = ch_spec channel;
          spec = sanitize_spec channelIndex spec;
          spec = (if ob_dataSource b = Imported \<and> \<not> importing then spec\<lparr>cs_label := cs_label channelSpec\<rparr> else spec);
          b = (if f64_equal (cs_ratio channelSpec) (cs_ratio spec) then b
               else b\<lparr>ob_analysisRevision := ob_analysisRevision b + 1\<rparr>) in
      if spec_equal channelSpec spec then b
      else
        let enabled = bd_enabled (cs_bitDisplay spec); digitalChanged = bd_enabled (cs_bitDisplay channelSpec) \<noteq> enabled in
        (update_channel channelIndex
          (\<lambda>ch. ch\<lparr>ch_spec := spec,
             ch_summary := (if digitalChanged
               then synchronize_index (ch_samples ch) (ch_sampleIndexOffset ch) enabled (ch_summary ch) else ch_summary ch)\<rparr>) b)
          \<lparr>ob_dataRevision := ob_dataRevision b + 1\<rparr>)"

definition setViewConfig :: "ViewConfig \<Rightarrow> OscilloscopeBuffer \<Rightarrow> OscilloscopeBuffer" where
  "setViewConfig config b =
     (let config = (if f64_le (f64_abs (vc_timeScale config)) kEpsilon then config\<lparr>vc_timeScale := double_one\<rparr> else config);
          b = b\<lparr>ob_config := config\<rparr>; trimmed = map (trimHistory b) (ob_channels b) in
      b\<lparr>ob_channels := map snd trimmed,
        ob_analysisRevision := ob_analysisRevision b + word_of_nat (length (filter fst trimmed)),
        ob_dataRevision := ob_dataRevision b + 1\<rparr>)"

definition setHistoryTrimSuspended :: "bool \<Rightarrow> OscilloscopeBuffer \<Rightarrow> OscilloscopeBuffer" where
  "setHistoryTrimSuspended suspended b = b\<lparr>ob_historyTrimSuspended := suspended\<rparr>"

definition setMaxTotalSamples :: "nat \<Rightarrow> OscilloscopeBuffer \<Rightarrow> OscilloscopeBuffer" where
  "setMaxTotalSamples maxTotalSamples b =
     (let b = b\<lparr>ob_maxTotalSamples := maxTotalSamples\<rparr>;
          trimmed = (if 0 < maxTotalSamples then map (trimHistory b) (ob_channels b) else map (Pair False) (ob_channels b));
          b = b\<lparr>ob_channels := map snd trimmed\<rparr> in
      if list_ex fst trimmed
      then b\<lparr>ob_dataRevision := ob_dataRevision b + 1, ob_analysisRevision := ob_analysisRevision b + 1\<rparr> else b)"

definition setResetHistoryOnTimeReset :: "bool \<Rightarrow> OscilloscopeBuffer \<Rightarrow> OscilloscopeBuffer" where
  "setResetHistoryOnTimeReset enabled b = b\<lparr>ob_resetHistoryOnTimeReset := enabled\<rparr>"

definition preserveHistoryLimitAtLeast :: "nat \<Rightarrow> OscilloscopeBuffer \<Rightarrow> OscilloscopeBuffer" where
  "preserveHistoryLimitAtLeast sampleCount b =
     b\<lparr>ob_preservedHistoryLimit := max (ob_preservedHistoryLimit b) sampleCount\<rparr>"

definition applyAppendSource :: "string \<Rightarrow> OscilloscopeBuffer \<Rightarrow> OscilloscopeBuffer" where
  "applyAppendSource source b = (if source = [] then b else b\<lparr>ob_source := source\<rparr>)"

definition append_channel :: "OscilloscopeBuffer \<Rightarrow> WaveSample list \<Rightarrow> ChannelBuffer \<Rightarrow> ChannelBuffer" where
  "append_channel b samples ch =
     (let ch = snd (trimHistory b (ch\<lparr>ch_samples := ch_samples ch @ samples\<rparr>)) in
      ch\<lparr>ch_summary := synchronize_index (ch_samples ch) (ch_sampleIndexOffset ch) (bd_enabled (cs_bitDisplay (ch_spec ch)))
           (ch_summary ch)\<rparr>)"

definition appendPreparedSamples :: "nat \<Rightarrow> WaveSample list \<Rightarrow> OscilloscopeBuffer \<Rightarrow> bool \<times> OscilloscopeBuffer" where
  "appendPreparedSamples channelIndex samples b =
     (if samples = [] then (False, b)
      else (True, (update_channel channelIndex (append_channel b samples) b)
        \<lparr>ob_dataRevision := ob_dataRevision b + 1, ob_analysisRevision := ob_analysisRevision b + 1\<rparr>))"

definition reset_channel :: "u64 \<Rightarrow> ChannelBuffer \<Rightarrow> ChannelBuffer" where
  "reset_channel generation ch =
     ch\<lparr>ch_samples := [], ch_dataGeneration := generation, ch_sampleIndexOffset := 0,
        ch_summary := clear_index (ch_summary ch)\<rparr>"

definition appendAfterHistoryReset :: "nat \<Rightarrow> string \<Rightarrow> WaveSample list \<Rightarrow> OscilloscopeBuffer \<Rightarrow> bool \<times> OscilloscopeBuffer" where
  "appendAfterHistoryReset channelIndex source samples b =
     (let n = length (ob_channels b) in
      appendPreparedSamples channelIndex samples
        (applyAppendSource source
          (ensureChannel channelIndex
            (b\<lparr>ob_historyEpoch := ob_historyEpoch b + 1,
               ob_channels := map2 (\<lambda>k. reset_channel (ob_generation b + word_of_nat k)) [1..<n + 1] (ob_channels b),
               ob_generation := ob_generation b + word_of_nat n, ob_preservedHistoryLimit := 0\<rparr>))))"

definition append_request ::
  "(WaveSample list \<Rightarrow> WaveSample list) \<Rightarrow> nat \<Rightarrow> string \<Rightarrow> WaveSample list \<Rightarrow> OscilloscopeBuffer \<Rightarrow> bool \<times> OscilloscopeBuffer" where
  "append_request srt channelIndex source samples b =
     (if samples = [] then (False, b)
      else
        let b = applyAppendSource source (ensureChannel channelIndex b);
            samples = sortSamplesByTime srt samples; old = ch_samples (ob_channels b ! channelIndex) in
        if old = [] then appendPreparedSamples channelIndex samples b
        else
          let lastTime = sm_time (last old); origin = startsAtHistoryOrigin samples lastTime in
          if origin \<and> ob_resetHistoryOnTimeReset b then appendAfterHistoryReset channelIndex source samples b
          else
            let samples = (if origin then shiftSamplesAfterLastTime samples lastTime else samples) in
            appendPreparedSamples channelIndex (dropSamplesNotAfterLastTime samples lastTime) b)"

definition appendImported :: "nat \<Rightarrow> WaveSample list \<Rightarrow> nat \<Rightarrow> OscilloscopeBuffer \<Rightarrow> bool \<times> OscilloscopeBuffer" where
  "appendImported channelIndex samples sampleIndexOffset b =
     (let b = update_channel channelIndex
            (\<lambda>ch. if ch_samples ch = [] then ch\<lparr>ch_sampleIndexOffset := sampleIndexOffset\<rparr> else ch)
            (ensureChannel channelIndex b) in
      appendPreparedSamples channelIndex samples (b\<lparr>ob_historyTrimSuspended := True\<rparr>))"

text \<open>\<open>latestTime\<close>, a readout.\<close>

definition latestTime :: "OscilloscopeBuffer \<Rightarrow> f64 option" where
  "latestTime b =
     foldl (\<lambda>latest ch.
        if ch_samples ch = [] then latest
        else let candidate = sm_time (last (ch_samples ch)) in
          case latest of None \<Rightarrow> Some candidate | Some t \<Rightarrow> if f64_less t candidate then Some candidate else latest)
       None (ob_channels b)"

section \<open>Runs\<close>

datatype OscilloscopeOp =
  OpClear
| OpConfigureChannels nat
| OpSetChannelSpec nat ChannelSpec bool
| OpSetViewConfig ViewConfig
| OpSetHistoryTrimSuspended bool
| OpSetMaxTotalSamples nat
| OpSetResetHistoryOnTimeReset bool
| OpPreserveHistoryLimitAtLeast nat
| OpAppend nat string "WaveSample list"
| OpAppendImported nat "WaveSample list" nat
| OpSetDataSource WaveDataSource
| OpSetImportedSource string

fun osc_step :: "(WaveSample list \<Rightarrow> WaveSample list) \<Rightarrow> OscilloscopeOp \<Rightarrow> OscilloscopeBuffer \<Rightarrow> OscilloscopeBuffer" where
  "osc_step srt OpClear b = clear_buffer b"
| "osc_step srt (OpConfigureChannels n) b = configureChannels n b"
| "osc_step srt (OpSetChannelSpec i spec importing) b = setChannelSpecImpl i spec importing b"
| "osc_step srt (OpSetViewConfig config) b = setViewConfig config b"
| "osc_step srt (OpSetHistoryTrimSuspended suspended) b = setHistoryTrimSuspended suspended b"
| "osc_step srt (OpSetMaxTotalSamples n) b = setMaxTotalSamples n b"
| "osc_step srt (OpSetResetHistoryOnTimeReset enabled) b = setResetHistoryOnTimeReset enabled b"
| "osc_step srt (OpPreserveHistoryLimitAtLeast n) b = preserveHistoryLimitAtLeast n b"
| "osc_step srt (OpAppend i source samples) b = snd (append_request srt i source samples b)"
| "osc_step srt (OpAppendImported i samples offset) b = snd (appendImported i samples offset b)"
| "osc_step srt (OpSetDataSource source) b = b\<lparr>ob_dataSource := source\<rparr>"
| "osc_step srt (OpSetImportedSource source) b = b\<lparr>ob_source := source\<rparr>"

definition osc_run :: "(WaveSample list \<Rightarrow> WaveSample list) \<Rightarrow> OscilloscopeOp list \<Rightarrow> OscilloscopeBuffer" where
  "osc_run srt ops = fold (osc_step srt) ops new_OscilloscopeBuffer"

end
