(* ===== verification/Wave_View.thy ===== *)
theory Wave_View
  imports Wave_Correct
begin

text \<open>
  Queries of one channel in a plot, from \<open>WaveQueryView\<close> of \<open>plot/wave_query.cc\<close>: the time of a sample on the
  chosen axis, the samples of a range of times by bisection, summaries, bit transitions and the search for a bit
  edge, which skips the ranges whose summary shows no change of the bit. A view borrows the samples and the index
  of a channel, which may have none.
\<close>

section \<open>Views\<close>

datatype WaveTimeAxisSource = ScriptTime | SampleFrequency | SampleIndex

record WaveQueryView =
  wv_samples :: "WaveSample list"
  wv_sampleIndexOffset :: nat
  wv_summaryIndex :: "WaveSummaryIndex option"
  wv_axis :: WaveTimeAxisSource
  wv_frequency :: f64

definition view_size :: "WaveQueryView \<Rightarrow> nat" where
  "view_size v = length (wv_samples v)"

text \<open>The number of a sample as a time, or the quotient by the frequency.\<close>

definition view_time :: "WaveQueryView \<Rightarrow> nat \<Rightarrow> f64" where
  "view_time v index =
     (if wv_axis v = ScriptTime then sm_time (wv_samples v ! index)
      else
        let global = f64_of_nat (wv_sampleIndexOffset v + index) in
        if wv_axis v = SampleFrequency \<and> f64_less 0 (wv_frequency v)
        then (if f64_isfinite (wv_frequency v) then f64_divide global (wv_frequency v) else 0)
        else global)"

function view_bound :: "WaveQueryView \<Rightarrow> f64 \<Rightarrow> bool \<Rightarrow> nat \<Rightarrow> nat \<Rightarrow> nat" where
  "view_bound v t upper lo hi =
     (if lo < hi then
        let mid = lo + (hi - lo) div 2 in
        if f64_less (view_time v mid) t \<or> upper \<and> f64_equal (view_time v mid) t
        then view_bound v t upper (mid + 1) hi else view_bound v t upper lo mid
      else lo)"
  by auto

termination
  by (relation "measure (\<lambda>(_, _, _, lo, hi). hi - lo)") auto

declare view_bound.simps [simp del]

definition view_range :: "WaveQueryView \<Rightarrow> f64 \<Rightarrow> f64 \<Rightarrow> bool \<Rightarrow> nat \<times> nat" where
  "view_range v minTime maxTime guards =
     (let (minTime, maxTime) = (if f64_less maxTime minTime then (maxTime, minTime) else (minTime, maxTime));
          begin = view_bound v minTime False 0 (view_size v); end' = view_bound v maxTime True 0 (view_size v) in
      (if guards \<and> 0 < begin then begin - 1 else begin, if guards \<and> end' < view_size v then end' + 1 else end'))"

definition view_summary :: "WaveQueryView \<Rightarrow> nat \<Rightarrow> nat \<Rightarrow> WaveQueryCounters \<Rightarrow> WaveSummary \<times> WaveQueryCounters" where
  "view_summary v begin end' counters =
     (case wv_summaryIndex v of
        Some ix \<Rightarrow> query_summary ix (wv_samples v) (wv_sampleIndexOffset v) begin end' counters
      | None \<Rightarrow>
          let begin = min begin (view_size v); end' = max begin (min end' (view_size v)) in
          (scan (wv_samples v) (wv_sampleIndexOffset v) (begin + wv_sampleIndexOffset v) (end' + wv_sampleIndexOffset v),
           counters\<lparr>qc_rawSamples := qc_rawSamples counters + (end' - begin)\<rparr>))"

definition raw_bits :: "WaveQueryView \<Rightarrow> nat \<Rightarrow> u64" where
  "raw_bits v i = waveRawBits (sm_value (wv_samples v ! i))"

definition view_bitTransitions :: "WaveQueryView \<Rightarrow> f64 \<Rightarrow> f64 \<Rightarrow> nat \<Rightarrow> WaveQueryCounters \<Rightarrow> u64 \<times> WaveQueryCounters" where
  "view_bitTransitions v minTime maxTime n counters =
     (let (begin, end') = view_range v minTime maxTime False in
      if 64 \<le> n \<or> view_size v < 2 \<or> end' \<le> begin then (0, counters)
      else
        let begin = (if 0 < begin then begin - 1 else begin) in
        case wv_summaryIndex v of
          Some ix \<Rightarrow> bitTransitions ix (wv_samples v) (wv_sampleIndexOffset v) begin end' n counters
        | None \<Rightarrow>
            (foldl (\<lambda>result i. if bit (raw_bits v (i - 1) XOR raw_bits v i) n then result + 1 else result) 0 [begin + 1..<end'],
             counters\<lparr>qc_rawSamples := qc_rawSamples counters + (end' - begin)\<rparr>))"

text \<open>A sample at which the bit changes to the state.\<close>

definition is_edge :: "WaveQueryView \<Rightarrow> nat \<Rightarrow> bool \<Rightarrow> nat \<Rightarrow> bool" where
  "is_edge v n state i \<longleftrightarrow>
     (let previous = bit (raw_bits v (i - 1)) n; current = bit (raw_bits v i) n in current \<noteq> previous \<and> current = state)"

text \<open>The counters a summary may have are not passed here.\<close>

definition no_counters :: WaveQueryCounters where
  "no_counters = \<lparr>qc_rawSamples = 0, qc_summaryHits = 0\<rparr>"

function search_edge :: "WaveQueryView \<Rightarrow> nat \<Rightarrow> bool \<Rightarrow> bool \<Rightarrow> nat \<Rightarrow> nat \<Rightarrow> nat option" where
  "search_edge v n state reverse left right =
     (if right \<le> left then None
      else
        let s = fst (view_summary v (left - 1) right no_counters) in
        if \<not> bit (ws_bitsAnd s XOR ws_bitsOr s) n then None
        else if blockSize < right - left then
          let mid = left + (right - left) div 2 in
          case (if reverse then search_edge v n state reverse mid right else search_edge v n state reverse left mid) of
            Some hit \<Rightarrow> Some hit
          | None \<Rightarrow> if reverse then search_edge v n state reverse left mid else search_edge v n state reverse mid right
        else find (is_edge v n state) (if reverse then rev [left..<right] else [left..<right]))"
  by auto

termination
  by (relation "measure (\<lambda>(_, _, _, _, left, right). right - left)") (auto simp: blockSize_def)

declare search_edge.simps [simp del]

definition bitEdge :: "WaveQueryView \<Rightarrow> f64 \<Rightarrow> f64 \<Rightarrow> nat \<Rightarrow> bool \<Rightarrow> bool \<Rightarrow> nat option" where
  "bitEdge v minTime maxTime n state reverse =
     (if 64 \<le> n \<or> view_size v < 2 then None
      else
        let (begin, end') = view_range v minTime maxTime False in search_edge v n state reverse (max 1 begin) end')"

section \<open>The search is exact\<close>

definition view_ok :: "WaveQueryView \<Rightarrow> bool" where
  "view_ok v \<longleftrightarrow> (\<forall>ix. wv_summaryIndex v = Some ix \<longrightarrow> answers_for (wv_samples v) (wv_sampleIndexOffset v) ix)"

lemma view_bound_le: "lo \<le> hi \<Longrightarrow> view_bound v t upper lo hi \<le> hi"
proof (induction v t upper lo hi rule: view_bound.induct)
  case (1 v t upper lo hi)
  show ?case
  proof (cases "lo < hi")
    case True
    let ?mid = "lo + (hi - lo) div 2"
    have "?mid < hi" using True by linarith
    then show ?thesis using 1 True by (subst view_bound.simps) (auto simp: Let_def)
  next
    case False
    then show ?thesis using 1 by (subst view_bound.simps) simp
  qed
qed

lemma view_summary_exact:
  assumes "view_ok v" "left \<le> right" "right \<le> view_size v"
  shows "fst (view_summary v left right c) = summary_of (\<lambda>i. wv_samples v ! (i - wv_sampleIndexOffset v))
    (left + wv_sampleIndexOffset v) (right + wv_sampleIndexOffset v)"
proof (cases "wv_summaryIndex v")
  case None
  then show ?thesis using assms(2,3) by (simp add: view_summary_def Let_def scan_summary view_size_def)
next
  case (Some ix)
  then have "answers_for (wv_samples v) (wv_sampleIndexOffset v) ix" using assms(1) by (simp add: view_ok_def)
  then show ?thesis using Some assms(2,3) query_answers(1) by (simp add: view_summary_def scan_summary view_size_def)
qed

lemma no_change_no_edge:
  assumes "view_ok v" "0 < left" "left < right" "right \<le> view_size v" "left \<le> i" "i < right"
    and "\<not> bit (ws_bitsAnd (fst (view_summary v (left - 1) right c)) XOR ws_bitsOr (fst (view_summary v (left - 1) right c))) n"
  shows "\<not> is_edge v n state i"
proof -
  let ?off = "wv_sampleIndexOffset v" and ?s = "\<lambda>i. wv_samples v ! (i - wv_sampleIndexOffset v)"
  have s: "fst (view_summary v (left - 1) right c) = summary_of ?s (left - 1 + ?off) (right + ?off)"
    using assms(1,3,4) by (intro view_summary_exact) simp_all
  have "left - 1 + ?off < right + ?off" using assms(3) by simp
  note bits = summary_of_bits [OF this, of ?s n]
  have "bit (raw_bits v i) n = bit (raw_bits v j) n" if "left - 1 \<le> j" "j < right" for j
  proof -
    have "i + ?off \<in> {left - 1 + ?off..<right + ?off}" "j + ?off \<in> {left - 1 + ?off..<right + ?off}" using that assms(5,6) by auto
    then have "bit (waveRawBits (sm_value (?s (i + ?off)))) n = bit (waveRawBits (sm_value (?s (j + ?off)))) n"
      using assms(7) bits unfolding s bit_xor_iff by blast
    then show ?thesis by (simp add: raw_bits_def)
  qed
  from this [of "i - 1"] show ?thesis using assms(2,5,6) by (simp add: is_edge_def Let_def)
qed

lemma find_append: "find P (xs @ ys) = (case find P xs of None \<Rightarrow> find P ys | Some x \<Rightarrow> Some x)"
  by (induction xs) simp_all

lemma find_none: "(\<And>x. x \<in> set xs \<Longrightarrow> \<not> P x) \<Longrightarrow> find P xs = None"
  by (induction xs) simp_all

lemma search_edge_find:
  assumes "view_ok v"
  shows "0 < left \<Longrightarrow> right \<le> view_size v \<Longrightarrow>
    search_edge v n state reverse left right = find (is_edge v n state) (if reverse then rev [left..<right] else [left..<right])"
proof (induction "right - left" arbitrary: left right rule: less_induct)
  case less
  let ?P = "is_edge v n state"
  show ?case
  proof (cases "left < right")
    case False
    then show ?thesis by (subst search_edge.simps) simp
  next
    case True
    let ?s = "fst (view_summary v (left - 1) right no_counters)"
    show ?thesis
    proof (cases "bit (ws_bitsAnd ?s XOR ws_bitsOr ?s) n")
      case False
      have "\<not> ?P i" if "i \<in> set [left..<right]" for i
        by (rule no_change_no_edge [OF assms less.prems(1) True less.prems(2) _ _ False]) (use that in auto)
      then have "find ?P (if reverse then rev [left..<right] else [left..<right]) = None" by (intro find_none) (auto split: if_splits)
      then show ?thesis using True False by (subst search_edge.simps) (simp add: Let_def)
    next
      case change: True
      let ?mid = "left + (right - left) div 2"
      show ?thesis
      proof (cases "blockSize < right - left")
        case False
        then show ?thesis using True change by (subst search_edge.simps) (simp add: Let_def)
      next
        case big: True
        then have mid: "left < ?mid" "?mid < right" by (simp_all add: blockSize_def)
        have parts: "[left..<right] = [left..<?mid] @ [?mid..<right]" using mid upt_add_eq_append [of left ?mid "right - ?mid"] by simp
        have 1: "search_edge v n state reverse left ?mid = find ?P (if reverse then rev [left..<?mid] else [left..<?mid])"
          using mid less.prems by (intro less.hyps) simp_all
        have 2: "search_edge v n state reverse ?mid right = find ?P (if reverse then rev [?mid..<right] else [?mid..<right])"
          using mid less.prems by (intro less.hyps) simp_all
        have "search_edge v n state reverse left right =
            (case (if reverse then search_edge v n state reverse ?mid right else search_edge v n state reverse left ?mid) of
               Some hit \<Rightarrow> Some hit
             | None \<Rightarrow> if reverse then search_edge v n state reverse left ?mid else search_edge v n state reverse ?mid right)"
          using True change big by (subst search_edge.simps) (simp add: Let_def)
        then show ?thesis unfolding 1 2 parts by (simp add: find_append split: option.splits)
      qed
    qed
  qed
qed

lemma view_range_size: "snd (view_range v minTime maxTime False) \<le> view_size v"
  by (simp add: view_range_def Let_def view_bound_le split: prod.splits)

lemma bitEdge_find:
  assumes "view_ok v" "n < 64" "view_range v minTime maxTime False = (b, e)"
  shows "bitEdge v minTime maxTime n state reverse =
    find (is_edge v n state) (if reverse then rev [max 1 b..<e] else [max 1 b..<e])"
proof (cases "view_size v < 2")
  case True
  have "e \<le> view_size v" using view_range_size [of v minTime maxTime] assms(3) by simp
  then have "e \<le> max 1 b" using True by linarith
  then show ?thesis using True by (simp add: bitEdge_def)
next
  case False
  have "e \<le> view_size v" using view_range_size [of v minTime maxTime] assms(3) by simp
  then show ?thesis using search_edge_find [OF assms(1)] False assms(2,3) by (simp add: bitEdge_def)
qed

end
