(* ===== verification/Ieee754_Sum.thy ===== *)
theory Ieee754_Sum
  imports Ieee754_Arithmetic
begin

text \<open>
  Sums and differences of doubles keep the order: rounding is monotone on signed values and leaves doubles as
  they are, so a sum grows with its summands, and adding what is not negative does not make a number smaller.
\<close>

section \<open>A finite double is its own rounding\<close>

lemma round_half_even_multiple: "0 < d \<Longrightarrow> round_half_even (k * d) d = k"
  by (simp add: round_half_even_def round_up_def)

lemma significand_exact:
  assumes "0 < d" "real n / real d * 2 powi (52 - e) = real k"
  shows "significand n d e = k"
proof -
  obtain n' d' where s: "significand n d e = round_half_even n' d'" "0 < d'" "real n' / real d' = real k"
    using significand_ratio [OF assms(1), of n e] assms(2) by metis
  then have "real n' = real (k * d')" by (simp add: field_simps)
  then have "n' = k * d'" by (simp only: of_nat_eq_iff)
  then show ?thesis using s round_half_even_multiple by simp
qed

lemma ratio_exponent_unique:
  assumes "0 < n" "0 < d" "- 1022 \<le> e" "real n / real d < 2 powi (e + 1)" "e = - 1022 \<or> 2 powi e \<le> real n / real d"
  shows "ratio_exponent n d = e"
proof -
  let ?r = "ratio_exponent n d"
  note b = ratio_exponent_bounds [OF assms(1,2)]
  have inc: "x < y \<Longrightarrow> (2::real) powi (x + 1) \<le> 2 powi y" for x y :: int by (intro power_int_increasing) simp_all
  have "\<not> ?r < e" using inc [of ?r e] b(1,2) assms(5) by linarith
  moreover have "\<not> e < ?r" using inc [of e ?r] b(3) assms(3,4) by linarith
  ultimately show ?thesis by simp
qed

lemma packed_exact:
  assumes "f64_isfinite a" "f64_ratio a = (n, d)" "0 < n"
  shows "packed n d = f64_magnitude a"
proof -
  let ?m = "f64_magnitude a"
  let ?E = "?m div 2 ^ 52" and ?f = "?m mod 2 ^ 52"
  have d: "0 < d" using f64_ratio_pos [of a] assms(2) by simp
  have v: "real n / real d = magnitude_value ?m" using f64_value_eq [of a] assms(2) by (simp add: f64_value_def)
  have f: "real ?f < 2 ^ 52" using mod_less_divisor [of "2 ^ 52" ?m] by (metis of_nat_less_numeral_power_cancel_iff pos2 zero_less_power)
  show ?thesis
  proof (cases "?E = 0")
    case True
    then have val: "real n / real d = real ?f * 2 powi - 1074" using v by (simp add: magnitude_value_def)
    have "real ?f * 2 powi - 1074 < 2 ^ 52 * 2 powi - 1074" using f by (intro mult_strict_right_mono) simp_all
    also have "(2::real) ^ 52 * 2 powi - 1074 = 2 powi - 1022"
      using power_int_add [of "2 :: real" 52 "- 1074"] power_int_of_nat [of "2 :: real" 52] by (simp only: of_nat_numeral) simp
    finally have "real n / real d < 2 powi - 1022" unfolding val .
    also have "(2::real) powi - 1022 \<le> 2 powi (- 1022 + 1)" by (rule power_int_increasing) simp_all
    finally have e: "ratio_exponent n d = - 1022"
      by (intro ratio_exponent_unique [OF assms(3) d] disjI1 refl order_refl)
    have "(2::real) powi - 1074 * 2 powi (52 - - 1022) = 1" by (simp flip: power_int_add)
    then have "real n / real d * 2 powi (52 - - 1022) = real ?f" unfolding val by (simp only: mult.assoc mult_1_right)
    then have "significand n d (- 1022) = ?f" by (rule significand_exact [OF d])
    then have "packed n d = ?f" unfolding packed_def e by simp
    then show ?thesis using True div_mult_mod_eq [of ?m "2 ^ 52"] by simp
  next
    case False
    let ?e = "int ?E - 1023"
    have val: "real n / real d = real (2 ^ 52 + ?f) * 2 powi (int ?E - 1075)" using v False by (simp add: magnitude_value_def)
    have p: "(2::real) powi (int ?E - 1075) * 2 ^ 52 = 2 powi ?e" "(2::real) powi (int ?E - 1075) * 2 powi (52 - ?e) = 1"
      "(2::real) powi (?e + 1) = 2 * 2 powi ?e"
      by (simp_all add: power_int_diff power_int_add)
    have pos: "(0::real) < 2 powi (int ?E - 1075)" by simp
    have "real (2 ^ 52 + ?f) < 2 * 2 ^ 52" using f by simp
    then have "real n / real d < 2 * 2 ^ 52 * 2 powi (int ?E - 1075)" unfolding val using pos by (rule mult_strict_right_mono)
    then have up: "real n / real d < 2 powi (?e + 1)" using p(1,3) by (simp add: mult.commute mult.left_commute)
    have "(2 ^ 52 :: real) \<le> real (2 ^ 52 + ?f)" by simp
    then have "2 ^ 52 * 2 powi (int ?E - 1075) \<le> real n / real d" unfolding val using pos by (intro mult_right_mono) simp_all
    then have low: "2 powi ?e \<le> real n / real d" using p(1) by (simp add: mult.commute)
    have e: "ratio_exponent n d = ?e" using False up low by (intro ratio_exponent_unique [OF assms(3) d]) simp_all
    have "real n / real d * 2 powi (52 - ?e) = real (2 ^ 52 + ?f)" unfolding val using p(2) by (simp add: mult.assoc)
    then have s: "significand n d ?e = 2 ^ 52 + ?f" by (rule significand_exact [OF d])
    have "nat (?e + 1022) = ?E - 1" using False by simp
    then have "packed n d = (?E - 1) * 2 ^ 52 + (2 ^ 52 + ?f)" unfolding packed_def e s by simp
    also have "\<dots> = ?E * 2 ^ 52 + ?f" using False by (cases ?E) simp_all
    finally show ?thesis by (simp only: div_mult_mod_eq)
  qed
qed

section \<open>Signed values\<close>

definition signed_value :: "f64 \<Rightarrow> real" where
  "signed_value a = (if f64_sign a then - f64_value a else f64_value a)"

lemma signed_value_ratio: "f64_signed a = (n, d) \<Longrightarrow> 0 < d \<and> real_of_int n / real d = signed_value a"
  using f64_ratio_pos [of a]
  by (cases "f64_ratio a") (auto simp: f64_signed_def signed_value_def f64_value_def split: if_splits)

lemma f64_value_nonneg: "0 \<le> f64_value a"
  by (simp add: f64_value_def)

lemma signed_value_mono:
  assumes "f64_key a \<le> f64_key b"
  shows "signed_value a \<le> signed_value b"
proof -
  have z: "f64_value c = 0" if "f64_magnitude c = 0" for c
    using that by (simp add: f64_value_eq magnitude_value_def)
  show ?thesis
    using assms f64_value_mono [of a b] f64_value_mono [of b a] f64_value_nonneg [of a] f64_value_nonneg [of b] z
    by (auto simp: signed_value_def f64_key_def split: if_splits)
qed

text \<open>The key of a rounded signed ratio.\<close>

lemma f64_of_ratio_signed:
  "f64_key (f64_of_ratio True n d) = - int (f64_magnitude (f64_of_ratio False n d))"
  "f64_magnitude (f64_of_ratio True n d) = f64_magnitude (f64_of_ratio False n d)"
proof -
  have w: "f64_magnitude (word_of_nat (2 ^ 63 + m)) = m \<and> f64_sign (word_of_nat (2 ^ 63 + m))" if "m \<le> 2047 * 2 ^ 52" for m
  proof -
    have "unat (word_of_nat k :: u64) = k" if "k < 2 ^ 64" for k using that by (simp add: unat_of_nat take_bit_nat_eq_self)
    from this [of "2 ^ 63 + m"] have "unat (word_of_nat (2 ^ 63 + m) :: u64) = 2 ^ 63 + m" using that by simp
    then show ?thesis using that by (simp add: f64_magnitude_def f64_sign_def)
  qed
  have "f64_magnitude (f64_of_ratio True n d) = f64_magnitude (f64_of_ratio False n d) \<and> f64_sign (f64_of_ratio True n d)"
    using w [of "min (packed n d) (2047 * 2 ^ 52)"] w [of 0] unfolding f64_of_ratio_fields
    by (simp add: f64_of_ratio_def f64_round_at_def f64_pack_def packed_def ratio_exponent_def del: min_less_iff_disj)
  then show "f64_key (f64_of_ratio True n d) = - int (f64_magnitude (f64_of_ratio False n d))"
    "f64_magnitude (f64_of_ratio True n d) = f64_magnitude (f64_of_ratio False n d)"
    by (simp_all add: f64_key_def)
qed

lemma f64_of_signed_key:
  "f64_key (f64_of_signed n d) =
     (if n < 0 then - int (f64_magnitude (f64_of_ratio False (nat \<bar>n\<bar>) d)) else int (f64_magnitude (f64_of_ratio False (nat \<bar>n\<bar>) d)))"
  by (cases "n < 0")
    (simp add: f64_of_signed_def f64_of_ratio_signed, simp add: f64_of_signed_def f64_key_def f64_of_ratio_fields(1))

lemma f64_of_signed_not_nan: "\<not> f64_isnan (f64_of_signed n d)"
  by (cases "n < 0") (simp_all add: f64_of_signed_def f64_isnan_def f64_of_ratio_signed f64_of_ratio_fields)

lemma f64_of_signed_mono:
  assumes "0 < d" "0 < d'" "real_of_int n / real d \<le> real_of_int n' / real d'"
  shows "f64_key (f64_of_signed n d) \<le> f64_key (f64_of_signed n' d')"
proof -
  have le: "n * int d' \<le> n' * int d"
  proof -
    have "real_of_int (n * int d') \<le> real_of_int (n' * int d)" using assms by (simp add: field_simps)
    then show ?thesis by (simp only: of_int_le_iff)
  qed
  consider "n < 0" "0 \<le> n'" | "0 \<le> n" "0 \<le> n'" | "n < 0" "n' < 0" | "0 \<le> n" "n' < 0" by linarith
  then show ?thesis
  proof cases
    case 1
    then show ?thesis by (simp add: f64_of_signed_key)
  next
    case 2
    then have "nat \<bar>n\<bar> * d' \<le> nat \<bar>n'\<bar> * d" using le by (simp flip: nat_mult_distrib zle_int)
    then show ?thesis using 2 f64_of_ratio_mono [OF assms(1,2)] by (simp add: f64_of_signed_key)
  next
    case 3
    then have "nat \<bar>n'\<bar> * d \<le> nat \<bar>n\<bar> * d'" using le by (simp flip: zle_int)
    then show ?thesis using 3 f64_of_ratio_mono [OF assms(2,1)] by (simp add: f64_of_signed_key)
  next
    case 4
    then have "n' * int d < 0" using assms(1) by (simp add: mult_neg_pos)
    moreover have "0 \<le> n * int d'" using 4 by simp
    ultimately show ?thesis using le by linarith
  qed
qed

lemma f64_of_signed_exact:
  assumes "f64_isfinite a" "f64_signed a = (n, d)"
  shows "f64_key (f64_of_signed n d) = f64_key a"
proof -
  obtain m where r: "f64_ratio a = (m, d)" and n: "n = (if f64_sign a then - int m else int m)"
    using assms(2) by (cases "f64_ratio a") (auto simp: f64_signed_def)
  have "f64_magnitude (f64_of_ratio False m d) = f64_magnitude a"
  proof (cases "m = 0")
    case True
    then have "f64_value a = 0" using r by (simp add: f64_value_def)
    moreover have z: "f64_magnitude (0 :: u64) = 0" by (simp add: f64_magnitude_def)
    moreover have "f64_value (0 :: u64) = 0" by (simp add: f64_value_eq magnitude_value_def z)
    ultimately have "f64_magnitude a = 0" using f64_value_strict [of 0 a] by (cases "f64_magnitude a") auto
    then show ?thesis using True by (simp add: f64_of_ratio_fields)
  next
    case False
    have "f64_magnitude a \<le> 2047 * 2 ^ 52" using f64_isfinite_not_nan [OF assms(1)] by (simp add: f64_isnan_def)
    then show ?thesis using packed_exact [OF assms(1) r] False by (simp add: f64_of_ratio_fields)
  qed
  then show ?thesis using n by (auto simp: f64_of_signed_key f64_key_def [of a] f64_of_ratio_fields)
qed

section \<open>Sums\<close>

lemma f64_add_finite:
  assumes "f64_isfinite a" "f64_isfinite b"
  obtains n d where "0 < d" "real_of_int n / real d = signed_value a + signed_value b"
    "f64_key (f64_add a b) = f64_key (f64_of_signed n d)" "\<not> f64_isnan (f64_add a b)"
proof -
  obtain na da nb db where r: "f64_signed a = (na, da)" "f64_signed b = (nb, db)" by (metis surj_pair)
  note v = signed_value_ratio [OF r(1)] signed_value_ratio [OF r(2)]
  let ?n = "na * int db + nb * int da" and ?d = "da * db"
  have add: "f64_add a b = (if ?n = 0 then f64_of_ratio (f64_sign a \<and> f64_sign b) 0 1 else f64_of_signed ?n ?d)"
    using assms f64_isfinite_not_nan by (simp add: f64_add_def r Let_def)
  have zero: "f64_key (f64_of_ratio s 0 e) = 0" "\<not> f64_isnan (f64_of_ratio s 0 e)" for s e
    by (cases s; simp add: f64_of_ratio_signed f64_of_ratio_fields f64_key_def f64_isnan_def)+
  show thesis
  proof
    show "0 < ?d" using v by simp
    show "real_of_int ?n / real ?d = signed_value a + signed_value b"
      using v(1)[THEN conjunct1] v(2)[THEN conjunct1] v(1)[THEN conjunct2, symmetric] v(2)[THEN conjunct2, symmetric]
      by (simp add: field_simps)
    show "f64_key (f64_add a b) = f64_key (f64_of_signed ?n ?d)"
      by (simp add: add zero f64_of_signed_key f64_of_ratio_fields)
    show "\<not> f64_isnan (f64_add a b)" by (simp add: add zero f64_of_signed_not_nan)
  qed
qed

lemma f64_add_mono:
  assumes "f64_isfinite a" "f64_isfinite b" "f64_isfinite c" "f64_key a \<le> f64_key b"
  shows "f64_key (f64_add a c) \<le> f64_key (f64_add b c)"
proof -
  obtain n d where 1: "0 < d" "real_of_int n / real d = signed_value a + signed_value c"
    "f64_key (f64_add a c) = f64_key (f64_of_signed n d)" by (rule f64_add_finite [OF assms(1,3)])
  obtain n' d' where 2: "0 < d'" "real_of_int n' / real d' = signed_value b + signed_value c"
    "f64_key (f64_add b c) = f64_key (f64_of_signed n' d')" by (rule f64_add_finite [OF assms(2,3)])
  show ?thesis unfolding 1(3) 2(3)
    by (rule f64_of_signed_mono [OF 1(1) 2(1)]) (simp add: 1(2) 2(2) signed_value_mono [OF assms(4)])
qed

lemma f64_add_increases:
  assumes "f64_isfinite a" "f64_isfinite c" "0 \<le> f64_key c"
  shows "f64_key a \<le> f64_key (f64_add a c)"
proof -
  obtain n d where 1: "0 < d" "real_of_int n / real d = signed_value a + signed_value c"
    "f64_key (f64_add a c) = f64_key (f64_of_signed n d)" by (rule f64_add_finite [OF assms(1,2)])
  obtain na da where r: "f64_signed a = (na, da)" by (metis surj_pair)
  note v = signed_value_ratio [OF r]
  have "0 \<le> signed_value c"
    using assms(3) f64_value_nonneg [of c] signed_value_mono [of 0 c]
    by (simp add: f64_key_def f64_sign_def f64_magnitude_def signed_value_def f64_value_eq magnitude_value_def split: if_splits)
  then have "real_of_int na / real da \<le> real_of_int n / real d" using v 1(2) by simp
  then have "f64_key (f64_of_signed na da) \<le> f64_key (f64_of_signed n d)" using v 1(1) by (intro f64_of_signed_mono) simp_all
  then show ?thesis using f64_of_signed_exact [OF assms(1) r] 1(3) by simp
qed

lemma f64_sign_bit: "f64_sign a \<longleftrightarrow> bit a 63"
proof -
  have "unat a div 2 ^ 63 < 2" using unsigned_less [of a, where 'a = nat] by (simp add: div_less_iff_less_mult)
  moreover have "odd k \<longleftrightarrow> 1 \<le> k" if "k < 2" for k :: nat using that by presburger
  ultimately have "odd (unat a div 2 ^ 63) \<longleftrightarrow> 1 \<le> unat a div 2 ^ 63" by blast
  also have "\<dots> \<longleftrightarrow> 2 ^ 63 \<le> unat a" by (simp add: less_eq_div_iff_mult_less_eq)
  finally have "bit (unat a) 63 \<longleftrightarrow> f64_sign a" by (simp only: bit_iff_odd f64_sign_def)
  then show ?thesis by (simp add: bit_unsigned_iff)
qed

lemma f64_magnitude_bits: "f64_magnitude a = unat (take_bit 63 a)"
  by (simp add: f64_magnitude_def take_bit_eq_mod unat_mod)

lemma f64_negate_fields:
  "f64_magnitude (f64_negate a) = f64_magnitude a" "f64_sign (f64_negate a) \<longleftrightarrow> \<not> f64_sign a"
proof -
  have m: "bit (0x8000000000000000 :: u64) n \<longleftrightarrow> n = 63" for n
    using bit_exp_iff [of 63 n, where 'a = "64 word"] by auto
  have "take_bit 63 (f64_negate a) = take_bit 63 a"
    by (intro bit_word_eqI) (auto simp: f64_negate_def bit_take_bit_iff bit_xor_iff m)
  then show "f64_magnitude (f64_negate a) = f64_magnitude a" by (simp add: f64_magnitude_bits)
  show "f64_sign (f64_negate a) \<longleftrightarrow> \<not> f64_sign a" by (simp add: f64_sign_bit f64_negate_def bit_xor_iff m)
qed

lemma f64_negate_finite [simp]: "f64_isfinite (f64_negate a) \<longleftrightarrow> f64_isfinite a" "f64_isnan (f64_negate a) \<longleftrightarrow> f64_isnan a"
  by (simp_all add: f64_isfinite_def f64_exponent_def f64_isnan_def f64_negate_fields)

text \<open>Times: not a NaN, not minus infinity.\<close>

definition above_minus_infinity :: "f64 \<Rightarrow> bool" where
  "above_minus_infinity t \<longleftrightarrow> \<not> f64_isnan t \<and> (f64_isfinite t \<or> \<not> f64_sign t)"

lemma infinity_key: "\<not> f64_isnan t \<Longrightarrow> \<not> f64_isfinite t \<Longrightarrow> f64_magnitude t = 2047 * 2 ^ 52"
  by (simp add: f64_isnan_def f64_isfinite_def f64_exponent_def less_eq_div_iff_mult_less_eq)

lemma f64_key_bound: "\<not> f64_isnan t \<Longrightarrow> f64_key t \<le> 2047 * 2 ^ 52"
  by (simp add: f64_isnan_def f64_key_def)

lemma not_below_finite: "f64_isfinite a \<Longrightarrow> \<not> f64_isnan t \<Longrightarrow> f64_key a \<le> f64_key t \<Longrightarrow> above_minus_infinity t"
proof -
  assume a: "f64_isfinite a" "\<not> f64_isnan t" "f64_key a \<le> f64_key t"
  have "f64_magnitude a < 2047 * 2 ^ 52" using a(1) by (simp add: f64_isfinite_def f64_exponent_def div_less_iff_less_mult)
  then have "- int (2047 * 2 ^ 52) < f64_key a" by (simp add: f64_key_def)
  then have "f64_isfinite t \<or> \<not> f64_sign t" using infinity_key [OF a(2)] a(3) by (auto simp: f64_key_def)
  then show ?thesis using a(2) by (simp add: above_minus_infinity_def)
qed

text \<open>Adding a number that is not negative, which may be infinite.\<close>

lemma f64_add_nonneg:
  assumes "above_minus_infinity a" "above_minus_infinity c" "0 \<le> f64_key c"
  shows "above_minus_infinity (f64_add a c)" "f64_key a \<le> f64_key (f64_add a c)"
proof -
  have "above_minus_infinity (f64_add a c) \<and> f64_key a \<le> f64_key (f64_add a c)"
  proof (cases "f64_isfinite a \<and> f64_isfinite c")
    case True
    then have "\<not> f64_isnan (f64_add a c)" by (metis f64_add_finite)
    then show ?thesis using f64_add_increases [of a c] assms(3) not_below_finite [of a] True by blast
  next
    case False
    define t where "t = (if f64_isfinite a then c else a)"
    have t: "\<not> f64_isnan t" "\<not> f64_sign t" "\<not> f64_isfinite t" "above_minus_infinity t"
      using False assms(1,2) by (auto simp: t_def above_minus_infinity_def)
    have "f64_add a c = t"
      using False assms(1,2) by (auto simp: t_def f64_add_def above_minus_infinity_def)
    moreover have "f64_key a \<le> f64_key t"
      using infinity_key [OF t(1,3)] t(2) f64_key_bound [of a] assms(1) by (simp add: f64_key_def [of t] above_minus_infinity_def)
    ultimately show ?thesis using t(4) by simp
  qed
  then show "above_minus_infinity (f64_add a c)" "f64_key a \<le> f64_key (f64_add a c)" by simp_all
qed

lemma finite_above [simp]: "f64_isfinite a \<Longrightarrow> above_minus_infinity a"
  by (simp add: above_minus_infinity_def f64_isfinite_not_nan)

lemma f64_add_nonneg_mono:
  assumes "f64_isfinite a" "f64_isfinite b" "above_minus_infinity c" "f64_key a \<le> f64_key b"
  shows "f64_key (f64_add a c) \<le> f64_key (f64_add b c)"
proof (cases "f64_isfinite c")
  case True
  then show ?thesis using assms f64_add_mono by blast
next
  case False
  then show ?thesis using assms f64_isfinite_not_nan by (auto simp: f64_add_def above_minus_infinity_def)
qed

text \<open>A difference is not negative where the first number is not below the second.\<close>

lemma f64_subtract_nonneg:
  assumes "f64_isfinite b" "above_minus_infinity a" "f64_key b \<le> f64_key a"
  shows "above_minus_infinity (f64_subtract a b)" "0 \<le> f64_key (f64_subtract a b)"
proof -
  have "above_minus_infinity (f64_subtract a b) \<and> 0 \<le> f64_key (f64_subtract a b)"
  proof (cases "f64_isfinite a")
    case True
    have nb: "f64_isfinite (f64_negate b)" using assms(1) by simp
    obtain n d where 1: "0 < d" "real_of_int n / real d = signed_value a + signed_value (f64_negate b)"
      "f64_key (f64_subtract a b) = f64_key (f64_of_signed n d)" "\<not> f64_isnan (f64_subtract a b)"
      by (rule f64_add_finite [OF True nb, folded f64_subtract_def])
    have "signed_value (f64_negate b) = - signed_value b"
      by (simp add: signed_value_def f64_value_eq f64_negate_fields)
    then have "0 \<le> real_of_int n / real d" using 1(2) signed_value_mono [OF assms(3)] by simp
    then have "0 \<le> n" using 1(1) by (simp add: zero_le_divide_iff)
    then have k: "0 \<le> f64_key (f64_subtract a b)" unfolding 1(3) by (simp add: f64_of_signed_key)
    have "f64_isfinite 0 \<and> f64_key 0 = 0" by (simp add: f64_isfinite_def f64_exponent_def f64_magnitude_def f64_key_def)
    then show ?thesis using not_below_finite [of 0, OF _ 1(4)] k by simp
  next
    case False
    then have a: "\<not> f64_isnan a" "\<not> f64_sign a" using assms(2) by (auto simp: above_minus_infinity_def)
    then have "f64_subtract a b = a"
      using assms(1) False f64_isfinite_not_nan [OF assms(1)] by (simp add: f64_subtract_def f64_add_def)
    then show ?thesis using assms(2) a by (simp add: f64_key_def)
  qed
  then show "above_minus_infinity (f64_subtract a b)" "0 \<le> f64_key (f64_subtract a b)" by simp_all
qed

end
