(* ===== verification/Oscilloscope_Properties.thy ===== *)
theory Oscilloscope_Properties
  imports Oscilloscope Wave_View Ieee754_Sum "HOL-Library.Multiset"
begin

text \<open>
  What holds after any operations on an oscilloscope buffer: the summary index of every channel answers exactly
  for its samples, and the samples are the end of the log of everything that was accepted.
\<close>

section \<open>The index of every channel is in step\<close>

definition channel_ok :: "ChannelBuffer \<Rightarrow> bool" where
  "channel_ok ch \<longleftrightarrow> answers_for (ch_samples ch) (ch_sampleIndexOffset ch) (ch_summary ch)"

definition buffer_ok :: "OscilloscopeBuffer \<Rightarrow> bool" where
  "buffer_ok b \<longleftrightarrow> list_all channel_ok (ob_channels b)"

lemma agree_same [simp]: "agree off xs off xs"
  by (simp add: agree_def)

lemma agree_append: "agree off old (off + k) (drop k (old @ new))"
  by (auto simp: agree_def nth_append)

lemma synchronized_ok:
  assumes "answers_for old off ix" "agree off old off' new"
  shows "answers_for new off' (synchronize_index new off' digital ix)"
  using assms by (rule synchronize_answers)

lemma answers_offset: "answers_for [] off ix \<Longrightarrow> answers_for [] off' ix"
  by (auto simp: answers_for_def index_ok_def)

text \<open>Trimming, of a channel whose index is behind by the samples appended.\<close>

definition drop_samples :: "nat \<Rightarrow> ChannelBuffer \<Rightarrow> ChannelBuffer" where
  "drop_samples k ch =
     ch\<lparr>ch_sampleIndexOffset := ch_sampleIndexOffset ch + k, ch_samples := drop k (ch_samples ch),
        ch_summary := synchronize_index (drop k (ch_samples ch)) (ch_sampleIndexOffset ch + k)
          (bd_enabled (cs_bitDisplay (ch_spec ch))) (ch_summary ch)\<rparr>"

text \<open>The number of samples kept, where there is a limit.\<close>

definition sample_limit :: "OscilloscopeBuffer \<Rightarrow> nat" where
  "sample_limit b =
     (let h = effectiveHistoryLimit b; m = ob_maxTotalSamples b in if 0 < h \<and> 0 < m then min h m else max h m)"

lemma trimHistory_drop:
  "trimHistory b ch =
     (if ob_historyTrimSuspended b \<or> sample_limit b = 0 \<or> length (ch_samples ch) \<le> sample_limit b then (False, ch)
      else (True, drop_samples (length (ch_samples ch) - sample_limit b) ch))"
proof -
  let ?h = "effectiveHistoryLimit b" and ?m = "ob_maxTotalSamples b"
  have limit: "(if 0 < ?h \<and> 0 < ?m then min ?h ?m else if 0 < ?h then ?h else ?m) = sample_limit b"
    "?h = 0 \<and> ?m = 0 \<longleftrightarrow> sample_limit b = 0"
    by (auto simp: sample_limit_def Let_def min_def)
  show ?thesis unfolding trimHistory_def Let_def limit drop_samples_def by simp
qed

lemma trimHistory_dropped:
  "snd (trimHistory b ch) = ch \<or> (\<exists>k < length (ch_samples ch). 0 < k \<and> snd (trimHistory b ch) = drop_samples k ch)"
  unfolding trimHistory_drop
  by (auto intro!: exI [of _ "length (ch_samples ch) - sample_limit b"] simp del: not_le)

text \<open>A channel of which the index knows the samples but not those appended since.\<close>

definition behind :: "ChannelBuffer \<Rightarrow> bool" where
  "behind ch \<longleftrightarrow> (\<exists>old new. ch_samples ch = old @ new \<and> answers_for old (ch_sampleIndexOffset ch) (ch_summary ch))"

lemma ok_behind: "channel_ok ch \<Longrightarrow> behind (ch\<lparr>ch_samples := ch_samples ch @ new\<rparr>)"
  by (auto simp: behind_def channel_ok_def)

lemma drop_samples_ok:
  assumes "behind ch"
  shows "channel_ok (drop_samples k ch)"
  using assms synchronize_answers [OF _ agree_append] by (auto simp: behind_def channel_ok_def drop_samples_def)

lemma behind_self: "channel_ok ch \<Longrightarrow> behind ch"
  using ok_behind [of ch "[]"] by simp

lemma trim_ok: "channel_ok ch \<Longrightarrow> channel_ok (snd (trimHistory b ch))"
  using trimHistory_dropped [of b ch] by (auto simp: drop_samples_ok behind_self)

lemma resynchronize_ok:
  assumes "behind ch"
  shows "channel_ok (ch\<lparr>ch_summary := synchronize_index (ch_samples ch) (ch_sampleIndexOffset ch) digital (ch_summary ch)\<rparr>)"
proof -
  obtain old new where "ch_samples ch = old @ new" "answers_for old (ch_sampleIndexOffset ch) (ch_summary ch)"
    using assms by (auto simp: behind_def)
  then show ?thesis
    using synchronize_answers [OF _ agree_append, of old "ch_sampleIndexOffset ch" _ 0 new] by (simp add: channel_ok_def)
qed

lemma append_channel_ok:
  assumes "channel_ok ch"
  shows "channel_ok (append_channel b samples ch)"
proof -
  let ?ch = "ch\<lparr>ch_samples := ch_samples ch @ samples\<rparr>"
  have "behind (snd (trimHistory b ?ch))"
    using trimHistory_dropped [of b ?ch] ok_behind [OF assms] by (auto simp: behind_self drop_samples_ok)
  then show ?thesis by (simp add: append_channel_def Let_def resynchronize_ok)
qed

section \<open>Every operation keeps the channels\<close>

lemma channels_update_channel:
  "list_all P (ob_channels b) \<Longrightarrow> (\<And>ch. P ch \<Longrightarrow> P (f ch)) \<Longrightarrow> list_all P (ob_channels (update_channel i f b))"
  by (cases "i < length (ob_channels b)")
    (auto simp: update_channel_def list_all_iff list_update_beyond dest: set_update_subset_insert [THEN subsetD])

lemma new_channel_ok [simp]: "channel_ok (new_ChannelBuffer\<lparr>ch_dataGeneration := g\<rparr>)"
  by (simp add: channel_ok_def new_ChannelBuffer_def)

lemma label_channel_ok [simp]: "channel_ok (label_channel i ch) \<longleftrightarrow> channel_ok ch"
  by (simp add: label_channel_def channel_ok_def)

lemma map2_all: "list_all P ys \<Longrightarrow> (\<And>x y. P y \<Longrightarrow> P (f x y)) \<Longrightarrow> list_all P (map2 f xs ys)"
  by (induction xs ys rule: list_induct2') simp_all

definition configured :: "nat \<Rightarrow> OscilloscopeBuffer \<Rightarrow> ChannelBuffer list" where
  "configured n b =
     take n (ob_channels b) @
     map (\<lambda>k. new_ChannelBuffer\<lparr>ch_dataGeneration := ob_generation b + word_of_nat k\<rparr>) [1..<n - length (ob_channels b) + 1]"

lemma configureChannels_channels:
  "ob_channels (configureChannels n b) = map2 label_channel [0..<length (configured n b)] (configured n b)"
  unfolding configureChannels_def Let_def configured_def by simp

lemma configureChannels_ok: "buffer_ok b \<Longrightarrow> buffer_ok (configureChannels n b)"
  unfolding buffer_ok_def configureChannels_channels
  by (rule map2_all) (auto simp: configured_def list_all_iff dest: in_set_takeD)

lemma ensureChannel_ok: "buffer_ok b \<Longrightarrow> buffer_ok (ensureChannel i b)"
  by (simp add: ensureChannel_def configureChannels_ok)

lemma applyAppendSource_ok [simp]: "buffer_ok (applyAppendSource source b) \<longleftrightarrow> buffer_ok b"
  by (simp add: applyAppendSource_def buffer_ok_def)

lemma appendPreparedSamples_ok: "buffer_ok b \<Longrightarrow> buffer_ok (snd (appendPreparedSamples i samples b))"
  by (simp add: appendPreparedSamples_def buffer_ok_def channels_update_channel append_channel_ok)

lemma reset_channel_ok [simp]: "channel_ok (reset_channel g ch)"
  by (simp add: channel_ok_def reset_channel_def)

lemma appendAfterHistoryReset_ok: "buffer_ok b \<Longrightarrow> buffer_ok (snd (appendAfterHistoryReset i source samples b))"
  unfolding appendAfterHistoryReset_def Let_def
  by (intro appendPreparedSamples_ok applyAppendSource_ok [THEN iffD2] ensureChannel_ok)
    (auto simp: buffer_ok_def intro: map2_all)

lemma append_request_ok: "buffer_ok b \<Longrightarrow> buffer_ok (snd (append_request srt i source samples b))"
  by (simp add: append_request_def Let_def appendPreparedSamples_ok appendAfterHistoryReset_ok ensureChannel_ok)

lemma appendImported_ok: "buffer_ok b \<Longrightarrow> buffer_ok (snd (appendImported i samples offset b))"
proof -
  assume b: "buffer_ok b"
  have "buffer_ok (update_channel i (\<lambda>ch. if ch_samples ch = [] then ch\<lparr>ch_sampleIndexOffset := offset\<rparr> else ch) (ensureChannel i b))"
    using ensureChannel_ok [OF b, of i] unfolding buffer_ok_def
    by (rule channels_update_channel) (auto simp: channel_ok_def intro: answers_offset)
  then show ?thesis unfolding appendImported_def Let_def by (intro appendPreparedSamples_ok) (simp add: buffer_ok_def)
qed

lemma trim_all_ok: "list_all channel_ok chs \<Longrightarrow> list_all channel_ok (map snd (map (trimHistory b) chs))"
  by (simp add: list_all_iff trim_ok)

lemma setChannelSpecImpl_ok: "buffer_ok b \<Longrightarrow> buffer_ok (setChannelSpecImpl i spec importing b)"
proof -
  assume "buffer_ok b"
  then have "list_all channel_ok (ob_channels (ensureChannel i b))" using ensureChannel_ok by (simp add: buffer_ok_def)
  moreover have "channel_ok (ch\<lparr>ch_spec := s, ch_summary :=
      (if c then synchronize_index (ch_samples ch) (ch_sampleIndexOffset ch) d (ch_summary ch) else ch_summary ch)\<rparr>)"
    if "channel_ok ch" for ch s c d
    using that resynchronize_ok [OF behind_self [OF that], of d] by (auto simp: channel_ok_def)
  ultimately show ?thesis
    unfolding setChannelSpecImpl_def Let_def buffer_ok_def
    by (auto intro!: channels_update_channel split: if_splits)
qed

lemma osc_step_ok: "buffer_ok b \<Longrightarrow> buffer_ok (osc_step srt op b)"
proof (cases op)
  case OpClear
  then show ?thesis by (simp add: clear_buffer_def buffer_ok_def)
next
  case (OpSetViewConfig config)
  then show "buffer_ok b \<Longrightarrow> ?thesis"
    using trim_all_ok by (simp add: setViewConfig_def buffer_ok_def Let_def del: map_map)
next
  case (OpSetMaxTotalSamples n)
  then show "buffer_ok b \<Longrightarrow> ?thesis"
    using trim_all_ok by (simp add: setMaxTotalSamples_def buffer_ok_def Let_def list_all_iff del: map_map)
qed (simp_all add: configureChannels_ok setChannelSpecImpl_ok append_request_ok appendImported_ok
    setHistoryTrimSuspended_def setResetHistoryOnTimeReset_def preserveHistoryLimitAtLeast_def, simp_all add: buffer_ok_def)

lemma osc_run_ok: "buffer_ok (osc_run srt ops)"
proof -
  have "buffer_ok b \<Longrightarrow> buffer_ok (fold (osc_step srt) ops b)" for b
    by (induction ops arbitrary: b) (simp_all add: osc_step_ok)
  then show ?thesis by (simp add: osc_run_def buffer_ok_def new_OscilloscopeBuffer_def)
qed

section \<open>The log of the accepted samples\<close>

text \<open>
  The specification: every channel has the number of its first sample and all samples accepted since the last
  reset. It knows nothing of limits, trimming, indices or revisions.
\<close>

type_synonym history = "nat \<times> WaveSample list"

definition ensure_logs :: "nat \<Rightarrow> history list \<Rightarrow> history list" where
  "ensure_logs i logs = (if length logs \<le> i then logs @ replicate (i + 1 - length logs) (0, []) else logs)"

definition log_append ::
  "(WaveSample list \<Rightarrow> WaveSample list) \<Rightarrow> bool \<Rightarrow> nat \<Rightarrow> WaveSample list \<Rightarrow> history list \<Rightarrow> history list" where
  "log_append srt reset i samples logs =
     (if samples = [] then logs
      else
        let logs = ensure_logs i logs; (base, entries) = logs ! i; samples = sortSamplesByTime srt samples;
            lastTime = sm_time (last entries); origin = entries \<noteq> [] \<and> startsAtHistoryOrigin samples lastTime in
        if origin \<and> reset then (map (\<lambda>_. (0, [])) logs)[i := (0, samples)]
        else if entries = [] then logs[i := (base, samples)]
        else logs[i := (base, entries @ dropSamplesNotAfterLastTime
          (if origin then shiftSamplesAfterLastTime samples lastTime else samples) lastTime)])"

fun log_step :: "(WaveSample list \<Rightarrow> WaveSample list) \<Rightarrow> OscilloscopeOp \<Rightarrow> bool \<times> history list \<Rightarrow> bool \<times> history list" where
  "log_step srt OpClear (reset, logs) = (reset, [])"
| "log_step srt (OpConfigureChannels n) (reset, logs) = (reset, take n logs @ replicate (n - length logs) (0, []))"
| "log_step srt (OpSetChannelSpec i spec importing) (reset, logs) = (reset, ensure_logs i logs)"
| "log_step srt (OpSetResetHistoryOnTimeReset enabled) (reset, logs) = (enabled, logs)"
| "log_step srt (OpAppend i source samples) (reset, logs) = (reset, log_append srt reset i samples logs)"
| "log_step srt (OpAppendImported i samples offset) (reset, logs) =
     (reset, let logs = ensure_logs i logs; (base, entries) = logs ! i in
        logs[i := (if entries = [] then (offset, samples) else (base, entries @ samples))])"
| "log_step srt op (reset, logs) = (reset, logs)"

definition log_run :: "(WaveSample list \<Rightarrow> WaveSample list) \<Rightarrow> OscilloscopeOp list \<Rightarrow> history list" where
  "log_run srt ops = snd (fold (log_step srt) ops (True, []))"

text \<open>The samples of a channel are the end of its log, and only an empty log leaves it empty.\<close>

definition ends_log :: "ChannelBuffer \<Rightarrow> history \<Rightarrow> bool" where
  "ends_log ch = (\<lambda>(base, entries).
     base \<le> ch_sampleIndexOffset ch \<and> ch_samples ch = drop (ch_sampleIndexOffset ch - base) entries \<and>
     (ch_sampleIndexOffset ch = base \<or> ch_sampleIndexOffset ch - base < length entries))"

lemma ends_log_empty: "ends_log ch (base, entries) \<Longrightarrow> ch_samples ch = [] \<longleftrightarrow> entries = []"
  by (auto simp: ends_log_def)

lemma ends_log_last: "ends_log ch (base, entries) \<Longrightarrow> entries \<noteq> [] \<Longrightarrow> last (ch_samples ch) = last entries"
  by (auto simp: ends_log_def)

lemma drop_samples_log: "ends_log ch h \<Longrightarrow> k < length (ch_samples ch) \<Longrightarrow> ends_log (drop_samples k ch) h"
  by (cases h) (auto simp: ends_log_def drop_samples_def add.commute)

lemma trim_log: "ends_log ch h \<Longrightarrow> ends_log (snd (trimHistory b ch)) h"
  using trimHistory_dropped [of b ch] by (auto intro: drop_samples_log)

lemma append_channel_log:
  assumes "ends_log ch (base, entries)"
  shows "ends_log (append_channel b samples ch) (base, entries @ samples)"
proof -
  have "ends_log (ch\<lparr>ch_samples := ch_samples ch @ samples\<rparr>) (base, entries @ samples)"
    using assms by (auto simp: ends_log_def)
  from trim_log [OF this, of b] show ?thesis by (simp add: append_channel_def Let_def) (simp add: ends_log_def)
qed

lemma new_channel_log [simp]: "ends_log (new_ChannelBuffer\<lparr>ch_dataGeneration := g\<rparr>) (0, [])"
  by (simp add: ends_log_def new_ChannelBuffer_def)

lemma reset_channel_log [simp]: "ends_log (reset_channel g ch) (0, [])"
  by (simp add: ends_log_def reset_channel_def)

lemma label_channel_log [simp]: "ends_log (label_channel i ch) h \<longleftrightarrow> ends_log ch h"
  by (simp add: label_channel_def ends_log_def)

abbreviation ends_logs :: "OscilloscopeBuffer \<Rightarrow> history list \<Rightarrow> bool" where
  "ends_logs b logs \<equiv> list_all2 ends_log (ob_channels b) logs"

lemma map2_log: "list_all2 P ys zs \<Longrightarrow> length xs = length ys \<Longrightarrow> (\<And>x y z. P y z \<Longrightarrow> P (f x y) z) \<Longrightarrow> list_all2 P (map2 f xs ys) zs"
  by (simp add: list_all2_conv_all_nth)

lemma configureChannels_log:
  assumes "ends_logs b logs"
  shows "ends_logs (configureChannels n b) (take n logs @ replicate (n - length logs) (0, []))"
proof -
  have l: "length logs = length (ob_channels b)" using assms by (simp add: list_all2_lengthD)
  have "list_all2 ends_log (map (\<lambda>k. new_ChannelBuffer\<lparr>ch_dataGeneration := ob_generation b + word_of_nat k\<rparr>)
      [1..<n - length (ob_channels b) + 1]) (replicate (n - length logs) (0, []))"
    by (simp add: list_all2_conv_all_nth l del: upt_Suc)
  then have "list_all2 ends_log (configured n b) (take n logs @ replicate (n - length logs) (0, []))"
    unfolding configured_def using assms by (intro list_all2_appendI list_all2_takeI)
  then show ?thesis unfolding configureChannels_channels by (rule map2_log) simp_all
qed

lemma ensureChannel_log:
  assumes "ends_logs b logs"
  shows "ends_logs (ensureChannel i b) (ensure_logs i logs)" "i < length (ensure_logs i logs)"
proof -
  have "length (ob_channels b) = length logs" using assms by (rule list_all2_lengthD)
  then show "ends_logs (ensureChannel i b) (ensure_logs i logs)"
    using assms configureChannels_log [OF assms, of "i + 1"] by (auto simp: ensureChannel_def ensure_logs_def)
  show "i < length (ensure_logs i logs)" by (simp add: ensure_logs_def)
qed

lemma update_channel_log:
  assumes "ends_logs b logs" "i < length logs" "ends_log (ob_channels b ! i) (logs ! i) \<Longrightarrow> ends_log (f (ob_channels b ! i)) h"
  shows "ends_logs (update_channel i f b) (logs[i := h])"
proof -
  have "ends_log (ob_channels b ! i) (logs ! i)" using assms(1,2) by (simp add: list_all2_conv_all_nth)
  then show ?thesis using assms by (simp add: update_channel_def list_all2_update_cong)
qed

lemma appendPreparedSamples_log:
  assumes "ends_logs b logs" "i < length logs" "logs ! i = (base, entries)"
  shows "ends_logs (snd (appendPreparedSamples i samples b)) (logs[i := (base, entries @ samples)])"
proof (cases "samples = []")
  case True
  then show ?thesis using assms list_update_id [of logs i] by (simp add: appendPreparedSamples_def)
next
  case False
  have "ends_logs (update_channel i (append_channel b samples) b) (logs[i := (base, entries @ samples)])"
    by (rule update_channel_log [OF assms(1,2)]) (simp add: assms(3) append_channel_log)
  then show ?thesis using False by (simp add: appendPreparedSamples_def)
qed

lemma applyAppendSource_fields [simp]:
  "ob_channels (applyAppendSource source b) = ob_channels b"
  "ob_resetHistoryOnTimeReset (applyAppendSource source b) = ob_resetHistoryOnTimeReset b"
  by (simp_all add: applyAppendSource_def)

lemma ensureChannel_reset [simp]: "ob_resetHistoryOnTimeReset (ensureChannel i b) = ob_resetHistoryOnTimeReset b"
  by (simp add: ensureChannel_def configureChannels_def Let_def)

lemma ensure_logs_same [simp]: "i < length logs \<Longrightarrow> ensure_logs i logs = logs"
  by (simp add: ensure_logs_def)

lemma appendAfterHistoryReset_log:
  assumes "ends_logs b logs" "i < length logs"
  shows "ends_logs (snd (appendAfterHistoryReset i source samples b)) ((map (\<lambda>_. (0, [])) logs)[i := (0, samples)])"
proof -
  let ?n = "length (ob_channels b)" and ?logs = "map (\<lambda>_. (0, [])) logs :: history list"
  let ?b = "b\<lparr>ob_historyEpoch := ob_historyEpoch b + 1,
      ob_channels := map2 (\<lambda>k. reset_channel (ob_generation b + word_of_nat k)) [1..<?n + 1] (ob_channels b),
      ob_generation := ob_generation b + word_of_nat ?n, ob_preservedHistoryLimit := 0\<rparr>"
  have n: "?n = length logs" using assms(1) by (rule list_all2_lengthD)
  have "ends_logs ?b ?logs" by (simp add: list_all2_conv_all_nth n del: upt_Suc)
  then have "ends_logs (applyAppendSource source (ensureChannel i ?b)) ?logs"
    using ensureChannel_log(1) [of ?b ?logs i] assms(2) by simp
  from appendPreparedSamples_log [OF this, of i 0 "[]" samples] assms(2)
  show ?thesis by (simp add: appendAfterHistoryReset_def Let_def)
qed

lemma append_request_log:
  assumes "ends_logs b logs"
  shows "ends_logs (snd (append_request srt i source samples b)) (log_append srt (ob_resetHistoryOnTimeReset b) i samples logs)"
proof (cases "samples = []")
  case True
  then show ?thesis using assms by (simp add: append_request_def log_append_def)
next
  case False
  let ?b = "applyAppendSource source (ensureChannel i b)" and ?logs = "ensure_logs i logs"
  let ?samples = "sortSamplesByTime srt samples"
  have b: "ends_logs ?b ?logs" and i: "i < length ?logs" using ensureChannel_log [OF assms, of i] by simp_all
  obtain base entries where h: "?logs ! i = (base, entries)" by (metis surj_pair)
  have ch: "ends_log (ob_channels ?b ! i) (base, entries)"
    using b i h by (metis list_all2_nthD2)
  note old = ends_log_empty [OF ch] ends_log_last [OF ch]
  note prepared = appendPreparedSamples_log [OF b i h]
  note reset = appendAfterHistoryReset_log [OF b i, of source]
  show ?thesis
  proof (cases "entries = []")
    case True
    then show ?thesis
      using False h old prepared [of ?samples] by (simp add: append_request_def log_append_def Let_def)
  next
    case nonempty: False
    let ?last = "sm_time (last entries)"
    show ?thesis
      using False nonempty h old(1) old(2) [OF nonempty] reset [of ?samples]
        prepared [of "dropSamplesNotAfterLastTime ?samples ?last"]
        prepared [of "dropSamplesNotAfterLastTime (shiftSamplesAfterLastTime ?samples ?last) ?last"]
      by (simp add: append_request_def log_append_def Let_def)
  qed
qed

lemma appendImported_log:
  assumes "ends_logs b logs"
  shows "ends_logs (snd (appendImported i samples offset b))
    (let logs = ensure_logs i logs; (base, entries) = logs ! i in
       logs[i := (if entries = [] then (offset, samples) else (base, entries @ samples))])"
proof -
  let ?logs = "ensure_logs i logs"
  have b: "ends_logs (ensureChannel i b) ?logs" and i: "i < length ?logs" using ensureChannel_log [OF assms, of i] by simp_all
  obtain base entries where h: "?logs ! i = (base, entries)" by (metis surj_pair)
  let ?h = "if entries = [] then (offset, []) else (base, entries)"
  let ?b = "update_channel i (\<lambda>ch. if ch_samples ch = [] then ch\<lparr>ch_sampleIndexOffset := offset\<rparr> else ch) (ensureChannel i b)"
  have "ends_logs ?b (?logs[i := ?h])"
    by (rule update_channel_log [OF b i]) (auto simp: h ends_log_def)
  then have "ends_logs (?b\<lparr>ob_historyTrimSuspended := True\<rparr>) (?logs[i := ?h])" by simp
  from appendPreparedSamples_log [OF this, of i "fst ?h" "snd ?h" samples] i
  show ?thesis by (simp add: appendImported_def Let_def h split: if_splits)
qed

lemma setChannelSpecImpl_log:
  assumes "ends_logs b logs"
  shows "ends_logs (setChannelSpecImpl i spec importing b) (ensure_logs i logs)"
proof -
  let ?b = "ensureChannel i b" and ?logs = "ensure_logs i logs"
  have b: "ends_logs ?b ?logs" and i: "i < length ?logs" using ensureChannel_log [OF assms, of i] by simp_all
  have "ends_logs (update_channel i (\<lambda>ch. ch\<lparr>ch_spec := s, ch_summary := g ch\<rparr>) c) ?logs"
    if "ob_channels c = ob_channels ?b" for s g c
    using update_channel_log [of c ?logs i _ "?logs ! i"] b i that by (simp add: ends_log_def)
  then show ?thesis using b unfolding setChannelSpecImpl_def Let_def by (auto split: if_splits)
qed

lemma configureChannels_reset [simp]: "ob_resetHistoryOnTimeReset (configureChannels n b) = ob_resetHistoryOnTimeReset b"
  by (simp add: configureChannels_def Let_def)

lemma update_channel_reset [simp]: "ob_resetHistoryOnTimeReset (update_channel i f b) = ob_resetHistoryOnTimeReset b"
  by (simp add: update_channel_def)

lemma appendPreparedSamples_reset [simp]:
  "ob_resetHistoryOnTimeReset (snd (appendPreparedSamples i samples b)) = ob_resetHistoryOnTimeReset b"
  by (simp add: appendPreparedSamples_def)

lemma append_request_reset [simp]:
  "ob_resetHistoryOnTimeReset (snd (append_request srt i source samples b)) = ob_resetHistoryOnTimeReset b"
  by (simp add: append_request_def appendAfterHistoryReset_def Let_def)

lemma trim_all_log: "list_all2 ends_log chs logs \<Longrightarrow> list_all2 ends_log (map snd (map (trimHistory b) chs)) logs"
  by (simp add: list_all2_conv_all_nth trim_log)

lemma osc_step_log:
  assumes "ends_logs b logs"
  shows "log_step srt op (ob_resetHistoryOnTimeReset b, logs) =
      (ob_resetHistoryOnTimeReset (osc_step srt op b), snd (log_step srt op (ob_resetHistoryOnTimeReset b, logs))) \<and>
    ends_logs (osc_step srt op b) (snd (log_step srt op (ob_resetHistoryOnTimeReset b, logs)))"
proof (cases op)
  case OpClear
  then show ?thesis by (simp add: clear_buffer_def)
next
  case (OpSetViewConfig config)
  then show ?thesis using trim_all_log [OF assms] by (simp add: setViewConfig_def Let_def del: map_map)
next
  case (OpSetMaxTotalSamples n)
  have "map (snd \<circ> Pair False) chs = chs" for chs :: "ChannelBuffer list" by (induction chs) simp_all
  then show ?thesis
    using OpSetMaxTotalSamples assms trim_all_log [OF assms] by (simp add: setMaxTotalSamples_def Let_def)
next
  case (OpSetChannelSpec i spec importing)
  then show ?thesis
    using setChannelSpecImpl_log [OF assms] by (simp add: setChannelSpecImpl_def Let_def)
next
  case (OpAppendImported i samples offset)
  then show ?thesis
    using appendImported_log [OF assms, of i samples offset] by (simp add: appendImported_def Let_def)
qed (use assms in \<open>simp_all add: configureChannels_log append_request_log
    setHistoryTrimSuspended_def setResetHistoryOnTimeReset_def preserveHistoryLimitAtLeast_def\<close>)

lemma osc_run_log: "ends_logs (osc_run srt ops) (log_run srt ops)"
proof -
  have "ends_logs b logs \<Longrightarrow>
    ends_logs (fold (osc_step srt) ops b) (snd (fold (log_step srt) ops (ob_resetHistoryOnTimeReset b, logs)))" for b logs
  proof (induction ops arbitrary: b logs)
    case (Cons op ops)
    then show ?case using osc_step_log [OF Cons.prems, of srt op] by (metis fold_simps(2))
  qed simp
  from this [of new_OscilloscopeBuffer "[]"] show ?thesis
    by (simp add: osc_run_def log_run_def) (simp add: new_OscilloscopeBuffer_def)
qed

section \<open>Times stay in order\<close>


abbreviation time_keys :: "WaveSample list \<Rightarrow> int list" where
  "time_keys xs \<equiv> map (\<lambda>s. f64_key (sm_time s)) xs"






text \<open>A log of a live channel.\<close>

definition log_sorted :: "history \<Rightarrow> bool" where
  "log_sorted = (\<lambda>(base, entries). sorted (time_keys entries) \<and> (\<forall>s \<in> set entries. above_minus_infinity (sm_time s)))"



lemma empty_log_sorted [simp]: "log_sorted (base, [])"
  by (simp add: log_sorted_def)








section \<open>Views of the channels\<close>

text \<open>The view of a channel as \<open>snapshot\<close> makes it.\<close>

definition channel_view :: "WaveTimeAxisSource \<Rightarrow> f64 \<Rightarrow> ChannelBuffer \<Rightarrow> WaveQueryView" where
  "channel_view axis frequency ch =
     \<lparr>wv_samples = ch_samples ch, wv_sampleIndexOffset = ch_sampleIndexOffset ch, wv_summaryIndex = Some (ch_summary ch),
      wv_axis = axis, wv_frequency = frequency\<rparr>"

lemma channel_view_ok: "channel_ok ch \<Longrightarrow> view_ok (channel_view axis frequency ch)"
  by (simp add: channel_view_def view_ok_def channel_ok_def)

lemma channel_of_run_ok: "ch \<in> set (ob_channels (osc_run srt ops)) \<Longrightarrow> channel_ok ch"
  using osc_run_ok by (auto simp: buffer_ok_def list_all_iff)

text \<open>A run for examples: a channel with three samples, at the times 0, 1 and 2.\<close>

definition sort_by_key :: "WaveSample list \<Rightarrow> WaveSample list" where
  "sort_by_key = sort_key (\<lambda>s. f64_key (sm_time s))"

definition sample_points :: "WaveSample list" where
  "sample_points =
     [\<lparr>sm_time = 0, sm_value = 0\<rparr>, \<lparr>sm_time = 0x3FF0000000000000, sm_value = 0x3FF0000000000000\<rparr>,
      \<lparr>sm_time = 0x4000000000000000, sm_value = 0\<rparr>]"

definition sample_ops :: "OscilloscopeOp list" where
  "sample_ops = [OpAppend 0 [] sample_points]"

lemma sample_points_order:
  "in_time_order sample_points" "\<forall>s \<in> set sample_points. f64_isfinite (sm_time s)" "sample_points \<noteq> []"
  by (simp_all add: sample_points_def f64_field_eval)

lemma sample_bits: "waveRawBits 0 = 0" "waveRawBits 0x3FF0000000000000 = 1"
  by (simp_all add: waveRawBits_def f64_to_nat_def size_max_def f64_field_eval f64_round_eval)

lemma sample_points_size: "length sample_points = 3"
  by (simp add: sample_points_def)

lemma first_append_samples:
  assumes "samples \<noteq> []" "in_time_order samples"
  shows "map ch_samples (ob_channels (osc_run srt [OpAppend 0 [] samples])) = [samples]"
  using assms
  by (simp add: osc_run_def append_request_def sortSamplesByTime_def Let_def ensureChannel_def
      applyAppendSource_def configureChannels_channels configured_def new_OscilloscopeBuffer_def appendPreparedSamples_def
      update_channel_def append_channel_def trimHistory_def effectiveHistoryLimit_def new_ViewConfig_def label_channel_def
      new_ChannelBuffer_def configureChannels_def)

lemma sample_channel:
  obtains ch where "ch \<in> set (ob_channels (osc_run srt sample_ops))" "ch_samples ch = sample_points"
proof -
  have "sample_points \<in> set (map ch_samples (ob_channels (osc_run srt sample_ops)))"
    unfolding sample_ops_def using first_append_samples [OF sample_points_order(3,1), of srt] by simp
  then show thesis using that by auto
qed

lemma flips_offset:
  "flips (\<lambda>i. xs ! (i - off)) n (lo + off) (hi + off) =
     length (filter (\<lambda>i. bit (waveRawBits (sm_value (xs ! (i - 1))) XOR waveRawBits (sm_value (xs ! i))) n) [lo + 1..<hi])"
proof (induction hi)
  case (Suc hi)
  then show ?case
  proof (cases "lo < hi")
    case True
    then have "hi + off - 1 - off = hi - 1" by simp
    with Suc True show ?thesis by (simp add: flips_Suc)
  qed simp
qed simp

lemma count_foldl:
  "foldl (\<lambda>r i. if P i then r + 1 else r) r is = r + (word_of_nat (length (filter P is)) :: u64)"
  by (induction "is" arbitrary: r) simp_all

lemma transitions_of_view:
  assumes "view_ok v" "n < 64" "view_range v t0 t1 False = (b, e)"
  shows "fst (view_bitTransitions v t0 t1 n c) =
    word_of_nat (length (filter (\<lambda>i. bit (raw_bits v (i - 1) XOR raw_bits v i) n) [max 1 b..<e]))"
proof (cases "view_size v < 2 \<or> e \<le> b")
  case True
  have "e \<le> view_size v" using view_range_size [of v t0 t1] assms(3) by simp
  then have "e \<le> max 1 b" using True by linarith
  then show ?thesis using True assms(3) by (auto simp: view_bitTransitions_def)
next
  case False
  let ?b = "if 0 < b then b - 1 else b"
  have e: "e \<le> view_size v" using view_range_size [of v t0 t1] assms(3) by simp
  have start: "?b + 1 = max 1 b" by simp
  show ?thesis
  proof (cases "wv_summaryIndex v")
    case None
    then have "fst (view_bitTransitions v t0 t1 n c) =
      foldl (\<lambda>r i. if bit (raw_bits v (i - 1) XOR raw_bits v i) n then r + 1 else r) 0 [?b + 1..<e]"
      using False assms(2,3) by (simp add: view_bitTransitions_def Let_def)
    then show ?thesis unfolding start count_foldl by simp
  next
    case (Some ix)
    then have ok: "answers_for (wv_samples v) (wv_sampleIndexOffset v) ix" using assms(1) by (simp add: view_ok_def)
    have "fst (view_bitTransitions v t0 t1 n c) = fst (bitTransitions ix (wv_samples v) (wv_sampleIndexOffset v) ?b e n c)"
      using False Some assms(2,3) by (simp add: view_bitTransitions_def Let_def)
    also have "\<dots> = word_of_nat (flips (\<lambda>i. wv_samples v ! (i - wv_sampleIndexOffset v)) n
        (?b + wv_sampleIndexOffset v) (e + wv_sampleIndexOffset v))"
      using bitTransitions_answers [OF ok assms(2), of ?b e c] False e
      by (auto simp: view_size_def min_def)
    finally show ?thesis unfolding flips_offset start by (simp add: raw_bits_def)
  qed
qed






section \<open>History limits\<close>

lemma trimmed_length:
  "\<not> ob_historyTrimSuspended b \<Longrightarrow> 0 < sample_limit b \<Longrightarrow> length (ch_samples (append_channel b samples ch)) \<le> sample_limit b"
  by (auto simp: append_channel_def Let_def trimHistory_drop drop_samples_def)

lemma appended_length:
  assumes "appendPreparedSamples i samples b = (True, b')" "i < length (ob_channels b)"
    and "\<not> ob_historyTrimSuspended b'" "0 < sample_limit b'"
  shows "length (ch_samples (ob_channels b' ! i)) \<le> sample_limit b'"
proof -
  have b': "b' = (update_channel i (append_channel b samples) b)
      \<lparr>ob_dataRevision := ob_dataRevision b + 1, ob_analysisRevision := ob_analysisRevision b + 1\<rparr>"
    using assms(1) by (auto simp: appendPreparedSamples_def split: if_splits)
  then have "sample_limit b' = sample_limit b" "ob_historyTrimSuspended b' = ob_historyTrimSuspended b"
    "ob_channels b' ! i = append_channel b samples (ob_channels b ! i)"
    using assms(2) by (simp_all add: update_channel_def sample_limit_def effectiveHistoryLimit_def)
  then show ?thesis using assms(3,4) trimmed_length by simp
qed


lemma prepared_channels: "length (ob_channels (snd (appendPreparedSamples i samples b))) = length (ob_channels b)"
  by (simp add: appendPreparedSamples_def update_channel_def)

lemma append_request_length:
  assumes "append_request srt i source samples b = (True, b')" "\<not> ob_historyTrimSuspended b'" "0 < sample_limit b'"
  shows "length (ch_samples (ob_channels b' ! i)) \<le> sample_limit b'"
proof -
  have ensured: "i < length (ob_channels (applyAppendSource source (ensureChannel i c)))" for c
    by (auto simp: ensureChannel_def applyAppendSource_def configureChannels_channels configured_def)
  obtain samples' c where "appendPreparedSamples i samples' c = (True, b')" "i < length (ob_channels c)"
    using assms(1) ensured
    by (auto simp: append_request_def appendAfterHistoryReset_def Let_def split: if_splits)
  then show ?thesis using appended_length assms(2,3) by blast
qed

section \<open>A time that is not a number\<close>

text \<open>A sample whose time is a NaN is accepted, and the order of the times is lost with the next samples.\<close>

lemma nan_time_breaks_order:
  "log_run srt
     [OpAppend 0 [] [\<lparr>sm_time = 0x3FF0000000000000, sm_value = 0\<rparr>], OpAppend 0 [] [\<lparr>sm_time = 0x7FF8000000000000, sm_value = 0\<rparr>],
      OpAppend 0 [] [\<lparr>sm_time = 0, sm_value = 0\<rparr>]] =
   [(0, [\<lparr>sm_time = 0x3FF0000000000000, sm_value = 0\<rparr>, \<lparr>sm_time = 0x7FF8000000000000, sm_value = 0\<rparr>, \<lparr>sm_time = 0, sm_value = 0\<rparr>])]"
  by (simp add: log_run_def log_append_def ensure_logs_def sortSamplesByTime_def Let_def dropSamplesNotAfterLastTime_def
      f64_isnan_def f64_magnitude_def f64_le_def)

section \<open>The properties\<close>

text \<open>What the examples compute with the view of the channel.\<close>

lemma sample_view:
  assumes "ch_samples ch = sample_points"
  shows "view_range (channel_view ScriptTime 0 ch) 0x3FF0000000000000 0x4000000000000000 False = (1, 3)"
    and "bit (raw_bits (channel_view ScriptTime 0 ch) 0) 0 = False"
    and "bit (raw_bits (channel_view ScriptTime 0 ch) 1) 0 = True"
    and "bit (raw_bits (channel_view ScriptTime 0 ch) 2) 0 = False"
proof -
  let ?v = "channel_view ScriptTime 0 ch"
  have v: "wv_axis ?v = ScriptTime" "wv_samples ?v = sample_points" using assms by (simp_all add: channel_view_def)
  then have t: "view_time ?v 0 = 0" "view_time ?v 1 = 0x3FF0000000000000" "view_time ?v 2 = 0x4000000000000000"
    by (simp_all add: view_time_def sample_points_def)
  have "view_bound ?v 0x3FF0000000000000 False 0 3 = 1" "view_bound ?v 0x4000000000000000 True 0 3 = 3"
    by (simp_all add: view_bound.simps t [unfolded One_nat_def numeral_2_eq_2] f64_field_eval f64_equal_def Let_def)
  then show "view_range ?v 0x3FF0000000000000 0x4000000000000000 False = (1, 3)"
    using v by (simp add: view_range_def view_size_def sample_points_size f64_field_eval)
  show "bit (raw_bits ?v 0) 0 = False" "bit (raw_bits ?v 1) 0 = True" "bit (raw_bits ?v 2) 0 = False"
    using v by (simp_all add: raw_bits_def sample_points_def sample_bits)
qed

text \<open>C32: Whatever is done with an oscilloscope buffer, the summary index of every channel, which is only ever updated
  at its two ends, answers a query of any range with the summary that a scan of the samples of the range gives, and
  reads at most 510 samples for it.\<close>

theorem oscilloscope_summaries_exact:
  assumes "ch \<in> set (ob_channels (osc_run srt ops))"
  shows "fst (query_summary (ch_summary ch) (ch_samples ch) (ch_sampleIndexOffset ch) b e c) =
      scan (ch_samples ch) (ch_sampleIndexOffset ch) (min b (length (ch_samples ch)) + ch_sampleIndexOffset ch)
        (min e (length (ch_samples ch)) + ch_sampleIndexOffset ch) \<and>
    qc_rawSamples (snd (query_summary (ch_summary ch) (ch_samples ch) (ch_sampleIndexOffset ch) b e c))
      \<le> qc_rawSamples c + 510"
  using query_answers [OF channel_of_run_ok [OF assms, unfolded channel_ok_def], of b e c] by (simp add: blockSize_def)

theorem oscilloscope_summaries_exact_witness:
  "\<exists>ch. ch \<in> set (ob_channels (osc_run sort_by_key sample_ops)) \<and> ch_samples ch = sample_points \<and>
     fst (query_summary (ch_summary ch) (ch_samples ch) (ch_sampleIndexOffset ch) 0 2 no_counters) =
       scan sample_points (ch_sampleIndexOffset ch) (0 + ch_sampleIndexOffset ch) (2 + ch_sampleIndexOffset ch)"
proof -
  obtain ch where ch: "ch \<in> set (ob_channels (osc_run sort_by_key sample_ops))" "ch_samples ch = sample_points"
    by (rule sample_channel)
  then show ?thesis
    using oscilloscope_summaries_exact [OF ch(1), of 0 2 no_counters] sample_points_size by (intro exI [of _ ch]) simp
qed

text \<open>C33: The samples of every channel are the end of its log, the accepted samples since the last reset, and its
  offset is the number of its first sample; and after a request that is accepted while trimming is not
  suspended, the channel has no more samples than the history limits allow.\<close>

theorem oscilloscope_history_refines_log:
  "list_all2 ends_log (ob_channels (osc_run srt ops)) (log_run srt ops) \<and>
   (append_request srt i source samples (osc_run srt ops) = (True, b) \<and> \<not> ob_historyTrimSuspended b \<and> 0 < sample_limit b \<longrightarrow>
      length (ch_samples (ob_channels b ! i)) \<le> sample_limit b)"
  using osc_run_log append_request_length by blast

theorem oscilloscope_history_refines_log_witness:
  "length (ch_samples (ob_channels (snd (append_request sort_by_key 0 [] sample_points (osc_run sort_by_key [OpSetMaxTotalSamples 2]))) ! 0)) \<le> 2"
proof -
  let ?b = "osc_run sort_by_key [OpSetMaxTotalSamples 2]" and ?r = "append_request sort_by_key 0 [] sample_points"
  have "?r ?b = (True, snd (?r ?b)) \<and> \<not> ob_historyTrimSuspended (snd (?r ?b)) \<and> sample_limit (snd (?r ?b)) = 2"
    using sample_points_order
    by (simp add: osc_run_def setMaxTotalSamples_def append_request_def sortSamplesByTime_def Let_def ensureChannel_def
        applyAppendSource_def configureChannels_channels configured_def new_OscilloscopeBuffer_def appendPreparedSamples_def
        update_channel_def effectiveHistoryLimit_def new_ViewConfig_def label_channel_def sample_limit_def
        new_ChannelBuffer_def configureChannels_def)
  then show ?thesis
    using oscilloscope_history_refines_log [of sort_by_key "[OpSetMaxTotalSamples 2]" 0 "[]" sample_points "snd (?r ?b)"] by simp
qed

text \<open>C34: For a view of any channel the transitions counted in a range of times are exactly the samples of the range
  at which the bit differs from the sample before, whatever blocks the count is taken from.\<close>

theorem bit_transitions_exact:
  assumes "ch \<in> set (ob_channels (osc_run srt ops))" "n < 64"
    and "view_range (channel_view axis frequency ch) t0 t1 False = (b, e)"
  shows "fst (view_bitTransitions (channel_view axis frequency ch) t0 t1 n c) =
    word_of_nat (length (filter (\<lambda>i. bit (raw_bits (channel_view axis frequency ch) (i - 1)
      XOR raw_bits (channel_view axis frequency ch) i) n) [max 1 b..<e]))"
  using channel_view_ok [OF channel_of_run_ok [OF assms(1)]] assms(2,3) by (rule transitions_of_view)

theorem bit_transitions_exact_witness:
  "\<exists>ch. ch \<in> set (ob_channels (osc_run sort_by_key sample_ops)) \<and>
     fst (view_bitTransitions (channel_view ScriptTime 0 ch) 0x3FF0000000000000 0x4000000000000000 0 no_counters) = 2"
proof -
  obtain ch where ch: "ch \<in> set (ob_channels (osc_run sort_by_key sample_ops))" "ch_samples ch = sample_points"
    by (rule sample_channel)
  note v = sample_view [OF ch(2)]
  have "[max 1 1..<3] = [1, 2 :: nat]" by (simp add: upt_rec)
  then show ?thesis
    using bit_transitions_exact [OF ch(1) _ v(1), of 0 no_counters] v ch(1)
    by (intro exI [of _ ch]) (simp add: bit_xor_iff)
qed

text \<open>C35: The search for a bit edge finds the first sample of a range of times at which the bit changes to the
  wanted state, and the last one when it searches backwards, although it skips the ranges whose summary shows no change.\<close>

theorem bit_edge_exact:
  assumes "ch \<in> set (ob_channels (osc_run srt ops))" "n < 64"
    and "view_range (channel_view axis frequency ch) t0 t1 False = (b, e)"
  shows "bitEdge (channel_view axis frequency ch) t0 t1 n state reverse =
    find (is_edge (channel_view axis frequency ch) n state) (if reverse then rev [max 1 b..<e] else [max 1 b..<e])"
  using channel_view_ok [OF channel_of_run_ok [OF assms(1)]] assms(2,3) by (rule bitEdge_find)

theorem bit_edge_exact_witness:
  "\<exists>ch. ch \<in> set (ob_channels (osc_run sort_by_key sample_ops)) \<and>
     bitEdge (channel_view ScriptTime 0 ch) 0x3FF0000000000000 0x4000000000000000 0 False False = Some 2"
proof -
  obtain ch where ch: "ch \<in> set (ob_channels (osc_run sort_by_key sample_ops))" "ch_samples ch = sample_points"
    by (rule sample_channel)
  note v = sample_view [OF ch(2)]
  have "[max 1 1..<3] = [1, 2 :: nat]" by (simp add: upt_rec)
  then show ?thesis
    using bit_edge_exact [OF ch(1) _ v(1), of 0 False False] v ch(1)
    by (intro exI [of _ ch]) (simp add: is_edge_def)
qed



end
