(* ===== verification/Session_Package.thy ===== *)
theory Session_Package
  imports Streams Number_Text "HOL-Library.Sublist"
begin

text \<open>
  Session packages (\<open>session/session_package.hpp\<close> and \<open>session/session_package.cc\<close>): named entries of arbitrary
  bytes with lengths, in one file. Modelled are the encoder, the decoder of a byte string, the reader of a file,
  which leaves the raw capture on disk when its caller asks for the position only, and the writer with its
  temporary file (\<open>DataFileOutput\<close> of \<open>data/file_output.hpp\<close>). The error texts are constructors. The cursor of
  the decoder is the bytes from it on.
\<close>

section \<open>Data\<close>

record SessionPackageEntry =
  pe_name :: string
  pe_bytes :: "u8 list"

record SessionPackageData =
  pk_createdAtMs :: u64
  pk_entries :: "SessionPackageEntry list"

record SessionRawCaptureSlice =
  rs_offset :: nat
  rs_size :: nat

datatype PackageError =
  NotAPackage | HeaderIncomplete | FieldMissing string | VersionUnknown string | CreatedAtInvalid | EntriesInvalid
| EntriesTooMany | EntryNameEmpty | EntrySizeInvalid string | EntryBlankLineMissing string | EntryTruncated string
| EntryNewlineMissing string | EntryMarkMissing string | TrailingBytes
| FileUnreadable | FileSizeUnknown | FileVersionUnknown | FileHeaderInvalid | FileEntryHeaderInvalid | FileEntryTruncated
| FileRawDuplicate | FileReadCancelled | FileEntryMarkMissing
| DirectoryFailed | FileUnwritable | FileWriteCancelled | FileWriteFailed | TaskCancelled | DataWriteFailed | CloseFailed
| ReplaceFailed

definition newline :: char where
  "newline = CHR 0x0A"

definition kMagic :: string where
  "kMagic = ''ProtoScopeSessionPackage''"

definition kVersion :: string where
  "kVersion = ''1''"

text \<open>The keys of the lines.\<close>

definition version_key :: string where
  "version_key = ''version: ''"

definition createdAt_key :: string where
  "createdAt_key = ''created_at_ms: ''"

definition entries_key :: string where
  "entries_key = ''entries: ''"

definition entry_key :: string where
  "entry_key = ''entry: ''"

definition size_key :: string where
  "size_key = ''size: ''"

definition entry_mark :: string where
  "entry_mark = ''endentry''"

lemmas key_defs = version_key_def createdAt_key_def entries_key_def entry_key_def size_key_def entry_mark_def
  kMagic_def kVersion_def

definition kMaxSessionPackageEntries :: nat where
  "kMaxSessionPackageEntries = 10000"

section \<open>Encoding\<close>

definition package_header :: "SessionPackageData \<Rightarrow> string" where
  "package_header p =
     kMagic @ [newline] @ version_key @ kVersion @ [newline] @
     createdAt_key @ nat_text (unat (pk_createdAtMs p)) @ [newline] @
     entries_key @ nat_text (length (pk_entries p)) @ [newline]"

definition entry_header :: "SessionPackageEntry \<Rightarrow> string" where
  "entry_header e =
     entry_key @ pe_name e @ [newline] @ size_key @ nat_text (length (pe_bytes e)) @ [newline, newline]"

definition entry_end :: string where
  "entry_end = [newline] @ entry_mark @ [newline]"

definition encodeSessionPackage :: "SessionPackageData \<Rightarrow> string" where
  "encodeSessionPackage p =
     package_header p @
     concat (map (\<lambda>e. entry_header e @ map char_of_byte (pe_bytes e) @ entry_end) (pk_entries p))"

section \<open>Decoding\<close>

definition parse_number :: "string \<Rightarrow> nat option" where
  "parse_number text = (case parse_uint64 text of Inl _ \<Rightarrow> None | Inr n \<Rightarrow> Some n)"

fun consumeLine :: "string \<Rightarrow> (string \<times> string) option" where
  "consumeLine [] = None"
| "consumeLine (c # cs) =
     (if c = newline then Some ([], cs) else map_option (\<lambda>(line, rest). (c # line, rest)) (consumeLine cs))"

definition consumePrefixedLine :: "string \<Rightarrow> string \<Rightarrow> PackageError + string \<times> string" where
  "consumePrefixedLine prefix' bytes =
     (case consumeLine bytes of
        None \<Rightarrow> Inl HeaderIncomplete
      | Some (line, rest) \<Rightarrow> if prefix prefix' line then Inr (drop (length prefix') line, rest) else Inl (FieldMissing prefix'))"

text \<open>A line that has to be exactly this one, with its error.\<close>

definition consumeExact :: "string \<Rightarrow> PackageError \<Rightarrow> string \<Rightarrow> PackageError + string" where
  "consumeExact expected e bytes =
     (case consumeLine bytes of
        None \<Rightarrow> Inl e | Some (line, rest) \<Rightarrow> if line = expected then Inr rest else Inl e)"

text \<open>A number after a prefix, where every failure has the same error.\<close>

definition consumeNumber :: "string \<Rightarrow> PackageError \<Rightarrow> string \<Rightarrow> PackageError + nat \<times> string" where
  "consumeNumber prefix' e bytes =
     (case consumePrefixedLine prefix' bytes of
        Inl _ \<Rightarrow> Inl e
      | Inr (value', rest) \<Rightarrow> case parse_number value' of None \<Rightarrow> Inl e | Some n \<Rightarrow> Inr (n, rest))"

abbreviation bindP :: "'e + 'a \<Rightarrow> ('a \<Rightarrow> 'e + 'b) \<Rightarrow> 'e + 'b" where
  "bindP m f \<equiv> (case m of Inl e \<Rightarrow> Inl e | Inr x \<Rightarrow> f x)"

definition decode_entry :: "string \<Rightarrow> PackageError + SessionPackageEntry \<times> string" where
  "decode_entry bytes =
     bindP (consumePrefixedLine entry_key bytes) (\<lambda>(name, bytes).
       if name = [] then Inl EntryNameEmpty
       else
         bindP (consumeNumber size_key (EntrySizeInvalid name) bytes) (\<lambda>(entrySize, bytes).
         bindP (consumeExact [] (EntryBlankLineMissing name) bytes) (\<lambda>bytes.
           if length bytes < entrySize then Inl (EntryTruncated name)
           else
             bindP (consumeExact [] (EntryNewlineMissing name) (drop entrySize bytes)) (\<lambda>rest.
             bindP (consumeExact entry_mark (EntryMarkMissing name) rest) (\<lambda>rest.
               Inr (\<lparr>pe_name = name, pe_bytes = map byte_of_char (take entrySize bytes)\<rparr>, rest))))))"

fun decode_entries :: "nat \<Rightarrow> string \<Rightarrow> PackageError + SessionPackageEntry list \<times> string" where
  "decode_entries 0 bytes = Inr ([], bytes)"
| "decode_entries (Suc n) bytes =
     bindP (decode_entry bytes) (\<lambda>(e, bytes). bindP (decode_entries n bytes) (\<lambda>(es, bytes). Inr (e # es, bytes)))"

text \<open>The four lines of the header: the time and the number of entries.\<close>

definition decode_header :: "string \<Rightarrow> PackageError + nat \<times> nat \<times> string" where
  "decode_header bytes =
     bindP (consumeExact kMagic NotAPackage bytes) (\<lambda>rest.
     bindP (consumePrefixedLine version_key rest) (\<lambda>(value', rest).
       if value' \<noteq> kVersion then Inl (VersionUnknown value')
       else
         bindP (consumeNumber createdAt_key CreatedAtInvalid rest) (\<lambda>(createdAt, rest).
         bindP (consumeNumber entries_key EntriesInvalid rest) (\<lambda>(entryCount, rest).
           if kMaxSessionPackageEntries < entryCount \<or> length bytes < entryCount then Inl EntriesTooMany
           else Inr (createdAt, entryCount, rest)))))"

definition decodeSessionPackage :: "string \<Rightarrow> PackageError + SessionPackageData" where
  "decodeSessionPackage bytes =
     bindP (decode_header bytes) (\<lambda>(createdAt, entryCount, rest).
     bindP (decode_entries entryCount rest) (\<lambda>(es, rest).
       if rest \<noteq> [] then Inl TrailingBytes
       else Inr \<lparr>pk_createdAtMs = word_of_nat createdAt, pk_entries = es\<rparr>))"

definition findSessionPackageEntry :: "SessionPackageData \<Rightarrow> string \<Rightarrow> SessionPackageEntry option" where
  "findSessionPackageEntry p name = find (\<lambda>e. pe_name e = name) (pk_entries p)"

section \<open>Reading a file\<close>

text \<open>\<open>std::getline\<close>: the characters up to a line feed, which is extracted, or to the end of the stream.\<close>

definition stream_getline :: "istream \<Rightarrow> string \<times> istream" where
  "stream_getline s =
     (if \<not> is_good s then ([], s\<lparr>is_fail := True\<rparr>)
      else case consumeLine (is_rest s) of
        Some (line, rest) \<Rightarrow> (line, s\<lparr>is_rest := rest\<rparr>)
      | None \<Rightarrow> (is_rest s, (is_end s)\<lparr>is_rest := [], is_fail := is_rest s = []\<rparr>))"

text \<open>What the reader works with: the stream, the stop token of the task and the slice it was given.\<close>

record PackageReader =
  pr_in :: istream
  pr_stop :: stop_token
  pr_slice :: "SessionRawCaptureSlice option"

type_synonym 'a read_result = "(PackageError + 'a) \<times> PackageReader"

definition bindR :: "'a read_result \<Rightarrow> ('a \<Rightarrow> PackageReader \<Rightarrow> 'b read_result) \<Rightarrow> 'b read_result" where
  "bindR m f = (case m of (Inl e, r) \<Rightarrow> (Inl e, r) | (Inr x, r) \<Rightarrow> f x r)"

definition read_exact :: "string \<Rightarrow> PackageError \<Rightarrow> PackageReader \<Rightarrow> unit read_result" where
  "read_exact expected e r =
     (let (line, s) = stream_getline (pr_in r); r = r\<lparr>pr_in := s\<rparr> in
      if is_usable s \<and> line = expected then (Inr (), r) else (Inl e, r))"

text \<open>The lambda \<open>field\<close>, for the callers that replace its error by one of their own.\<close>

definition read_field :: "string \<Rightarrow> PackageError \<Rightarrow> PackageReader \<Rightarrow> string read_result" where
  "read_field prefix' e r =
     (let (line, s) = stream_getline (pr_in r); r = r\<lparr>pr_in := s\<rparr> in
      if is_usable s \<and> prefix prefix' line then (Inr (drop (length prefix') line), r) else (Inl e, r))"

definition read_number :: "string \<Rightarrow> PackageError \<Rightarrow> PackageReader \<Rightarrow> nat read_result" where
  "read_number prefix' e r =
     bindR (read_field prefix' e r) (\<lambda>value' r.
       (case parse_number value' of None \<Rightarrow> Inl e | Some n \<Rightarrow> Inr n, r))"

text \<open>The content of an entry, in chunks of at most 65536 bytes.\<close>

function read_chunks :: "nat \<Rightarrow> PackageReader \<Rightarrow> string read_result" where
  "read_chunks size' r =
     (if size' = 0 then (Inr [], r)
      else
        let (stopped, stop) = poll_stop (pr_stop r); r = r\<lparr>pr_stop := stop\<rparr> in
        if stopped then (Inl FileReadCancelled, r)
        else
          let count = min 65536 size'; (chunk, s) = stream_read count (pr_in r); r = r\<lparr>pr_in := s\<rparr> in
          if length chunk \<noteq> count then (Inl FileEntryTruncated, r)
          else bindR (read_chunks (size' - count) r) (\<lambda>cs r. (Inr (chunk @ cs), r)))"
  by auto

termination
  by (relation "measure fst") auto

declare read_chunks.simps [simp del]

definition raw_capture_name :: string where
  "raw_capture_name = ''raw_capture.psraw''"

definition read_entry_header :: "PackageReader \<Rightarrow> (string \<times> nat) read_result" where
  "read_entry_header r =
     bindR (read_field entry_key FileEntryHeaderInvalid r) (\<lambda>name r.
       if name = [] then (Inl FileEntryHeaderInvalid, r)
       else
         bindR (read_number size_key FileEntryHeaderInvalid r) (\<lambda>size' r.
         bindR (read_exact [] FileEntryHeaderInvalid r) (\<lambda>_ r. (Inr (name, size'), r))))"

text \<open>The content is left on disk, and its place put into the slice, when the slice asks for it.\<close>

definition read_content :: "nat \<Rightarrow> string \<Rightarrow> nat \<Rightarrow> PackageReader \<Rightarrow> string read_result" where
  "read_content position name size' r =
     (if pr_slice r \<noteq> None \<and> name = raw_capture_name then
        if rs_size (the (pr_slice r)) \<noteq> 0 then (Inl FileRawDuplicate, r)
        else (Inr [], r\<lparr>pr_slice := Some \<lparr>rs_offset = position, rs_size = size'\<rparr>,
                        pr_in := (pr_in r)\<lparr>is_rest := drop size' (is_rest (pr_in r))\<rparr>\<rparr>)
      else read_chunks size' r)"

text \<open>The rest of an entry of a file with \<open>fileSize\<close> bytes of which \<open>opened\<close> were there when it was opened.\<close>

definition read_entry_body :: "nat \<Rightarrow> nat \<Rightarrow> string \<Rightarrow> nat \<Rightarrow> PackageReader \<Rightarrow> SessionPackageEntry read_result" where
  "read_entry_body opened fileSize name size' r =
     (let position = opened - length (is_rest (pr_in r)) in
      if \<not> is_good (pr_in r) \<or> fileSize < position \<or> fileSize - position < size' then (Inl FileEntryTruncated, r)
      else
        bindR (read_content position name size' r) (\<lambda>content r.
        bindR (read_exact [] FileEntryMarkMissing r) (\<lambda>_ r.
        bindR (read_exact entry_mark FileEntryMarkMissing r) (\<lambda>_ r.
          (Inr \<lparr>pe_name = name, pe_bytes = map byte_of_char content\<rparr>, r)))))"

definition read_entry :: "nat \<Rightarrow> nat \<Rightarrow> PackageReader \<Rightarrow> SessionPackageEntry read_result" where
  "read_entry opened fileSize r =
     bindR (read_entry_header r) (\<lambda>(name, size') r. read_entry_body opened fileSize name size' r)"

fun read_entries :: "nat \<Rightarrow> nat \<Rightarrow> nat \<Rightarrow> PackageReader \<Rightarrow> SessionPackageEntry list read_result" where
  "read_entries opened fileSize 0 r = (Inr [], r)"
| "read_entries opened fileSize (Suc n) r =
     bindR (read_entry opened fileSize r) (\<lambda>e r. bindR (read_entries opened fileSize n r) (\<lambda>es r. (Inr (e # es), r)))"

definition read_header :: "PackageReader \<Rightarrow> (nat \<times> nat) read_result" where
  "read_header r =
     bindR (read_exact kMagic NotAPackage r) (\<lambda>_ r.
     bindR (read_field version_key FileVersionUnknown r) (\<lambda>value' r.
       if value' \<noteq> kVersion then (Inl FileVersionUnknown, r)
       else
         bindR (read_number createdAt_key FileHeaderInvalid r) (\<lambda>createdAt r.
         bindR (read_number entries_key FileHeaderInvalid r) (\<lambda>entries r.
           if kMaxSessionPackageEntries < entries then (Inl FileHeaderInvalid, r) else (Inr (createdAt, entries), r)))))"

definition read_end :: "nat \<Rightarrow> SessionPackageEntry list \<Rightarrow> PackageReader \<Rightarrow> SessionPackageData read_result" where
  "read_end createdAt es r =
     (case stream_peek (pr_in r) of
        (Some _, s) \<Rightarrow> (Inl TrailingBytes, r\<lparr>pr_in := s\<rparr>)
      | (None, s) \<Rightarrow> (Inr \<lparr>pk_createdAtMs = word_of_nat createdAt, pk_entries = es\<rparr>, r\<lparr>pr_in := s\<rparr>))"

definition read_package :: "nat \<Rightarrow> nat \<Rightarrow> PackageReader \<Rightarrow> SessionPackageData read_result" where
  "read_package opened fileSize r =
     bindR (read_header r) (\<lambda>(createdAt, entries) r.
     bindR (read_entries opened fileSize entries r) (\<lambda>es r. read_end createdAt es r))"

text \<open>The stream of the file, where it can be opened, and its size, where it can be had. The caller's slice is
  what is left in the reader.\<close>

definition readSessionPackage ::
  "istream option \<Rightarrow> nat option \<Rightarrow> stop_token \<Rightarrow> SessionRawCaptureSlice option \<Rightarrow>
   (PackageError + SessionPackageData) \<times> SessionRawCaptureSlice option" where
  "readSessionPackage file fileSize stop rawSlice =
     (case file of
        None \<Rightarrow> (Inl FileUnreadable, rawSlice)
      | Some s \<Rightarrow>
          if \<not> is_good s then (Inl FileUnreadable, rawSlice)
          else
            case fileSize of
              None \<Rightarrow> (Inl FileSizeUnknown, rawSlice)
            | Some n \<Rightarrow>
                let (result, r) = read_package (length (is_rest s)) n \<lparr>pr_in = s, pr_stop = stop, pr_slice = rawSlice\<rparr> in
                (result, pr_slice r))"

section \<open>Writing a file\<close>

text \<open>
  The temporary file of \<open>DataFileOutput\<close>: whether the directory of the target can be made, its stream after it
  was opened, whether closing it and renaming it onto the target succeed. The target is what the file at the
  path holds, if there is one.
\<close>

record PackageDevice =
  pd_directory :: bool
  pd_stream :: ostream
  pd_closes :: bool
  pd_renames :: bool

function write_content :: "string \<Rightarrow> ostream \<times> stop_token \<Rightarrow> bool \<times> ostream \<times> stop_token" where
  "write_content cs (out, stop) =
     (if cs = [] then (False, out, stop)
      else
        let (stopped, stop) = poll_stop stop in
        if stopped then (True, out, stop)
        else write_content (drop 65536 cs) (stream_write (take 65536 cs) out, stop))"
  by pat_completeness auto

termination
  by (relation "measure (\<lambda>(cs, _). length cs)") auto

declare write_content.simps [simp del]

fun write_entries :: "SessionPackageEntry list \<Rightarrow> ostream \<times> stop_token \<Rightarrow> bool \<times> ostream \<times> stop_token" where
  "write_entries [] (out, stop) = (False, out, stop)"
| "write_entries (e # es) (out, stop) =
     (case write_content (map char_of_byte (pe_bytes e)) (stream_write (entry_header e) out, stop) of
        (True, out, stop) \<Rightarrow> (True, out, stop)
      | (False, out, stop) \<Rightarrow> write_entries es (stream_write entry_end out, stop))"

definition commit_output :: "PackageDevice \<Rightarrow> ostream \<Rightarrow> stop_token \<Rightarrow> string option \<Rightarrow> PackageError option \<times> string option" where
  "commit_output d out stop target =
     (if fst (poll_stop stop) then (Some TaskCancelled, target)
      else
        let out = stream_flush out in
        if \<not> os_ok out then (Some DataWriteFailed, target)
        else if \<not> pd_closes d then (Some CloseFailed, target)
        else if \<not> pd_renames d then (Some ReplaceFailed, target)
        else (None, Some (os_data out)))"

definition writeSessionPackage ::
  "PackageDevice \<Rightarrow> stop_token \<Rightarrow> SessionPackageData \<Rightarrow> string option \<Rightarrow> PackageError option \<times> string option" where
  "writeSessionPackage d stop p target =
     (if \<not> pd_directory d then (Some DirectoryFailed, target)
      else if \<not> os_ok (pd_stream d) then (Some FileUnwritable, target)
      else
        case write_entries (pk_entries p) (stream_write (package_header p) (pd_stream d), stop) of
          (True, out, stop) \<Rightarrow> (Some FileWriteCancelled, target)
        | (False, out, stop) \<Rightarrow>
            if \<not> os_ok out then (Some FileWriteFailed, target) else commit_output d out stop target)"

end
