(* ===== verification/Session_Package_Properties.thy ===== *)
theory Session_Package_Properties
  imports Session_Package
begin

text \<open>
  What session packages promise: the decoder accepts exactly the texts of a form (\<open>package_form\<close>), the encoder
  writes one of them, the reader of files accepts what the decoder accepts and a missing last line feed, the raw
  capture that is left on disk is found again, and a write replaces its target as a whole or not at all.
\<close>

section \<open>The form of a package\<close>

lemma consumeLine_iff: "consumeLine bs = Some (l, r) \<longleftrightarrow> bs = l @ newline # r \<and> newline \<notin> set l"
proof (induction bs arbitrary: l)
  case (Cons c cs)
  then show ?case by (cases l) auto
qed simp

lemma consumeLine_none: "consumeLine bs = None \<longleftrightarrow> newline \<notin> set bs"
  by (induction bs) auto

lemma case_InrD:
  "(case m of Inl e \<Rightarrow> Inl (g e) | Inr x \<Rightarrow> f x) = Inr y \<longleftrightarrow> (\<exists>x. m = Inr x \<and> f x = Inr y)"
  by (cases m) simp_all

lemma case_SomeD: "(case m of None \<Rightarrow> Inl e | Some x \<Rightarrow> f x) = Inr y \<longleftrightarrow> (\<exists>x. m = Some x \<and> f x = Inr y)"
  by (cases m) simp_all

lemma if_InrD: "(if b then Inl e else x) = Inr y \<longleftrightarrow> \<not> b \<and> x = Inr y" "(if b then x else Inl e) = Inr y \<longleftrightarrow> b \<and> x = Inr y"
  by simp_all

lemmas parse_cases = case_InrD case_SomeD if_InrD split_paired_Ex prod.case sum.inject Pair_inject

lemma consumePrefixedLine_iff:
  "consumePrefixedLine p bs = Inr (v, r) \<longleftrightarrow> bs = p @ v @ newline # r \<and> newline \<notin> set p \<and> newline \<notin> set v"
  unfolding consumePrefixedLine_def parse_cases consumeLine_iff by (auto simp: prefix_def)

lemma consumeExact_iff: "consumeExact x e bs = Inr r \<longleftrightarrow> bs = x @ newline # r \<and> newline \<notin> set x"
  unfolding consumeExact_def parse_cases consumeLine_iff by auto

lemma consumeNumber_iff:
  "consumeNumber p e bs = Inr (n, r) \<longleftrightarrow>
     (\<exists>t. bs = p @ t @ newline # r \<and> newline \<notin> set p \<and> newline \<notin> set t \<and> parse_number t = Some n)"
  unfolding consumeNumber_def parse_cases consumePrefixedLine_iff by auto

text \<open>The bytes of an entry, whose size may be written with zeros in front.\<close>

definition entry_form :: "SessionPackageEntry \<Rightarrow> string \<Rightarrow> bool" where
  "entry_form e bs \<longleftrightarrow>
     (\<exists>t payload. bs = entry_key @ pe_name e @ newline # size_key @ t @ newline # newline # payload @
        newline # entry_mark @ [newline] \<and>
      pe_name e \<noteq> [] \<and> newline \<notin> set (pe_name e) \<and> newline \<notin> set t \<and> parse_number t = Some (length payload) \<and>
      pe_bytes e = map byte_of_char payload)"

lemma no_newline [simp]:
  "newline \<notin> set entry_key" "newline \<notin> set size_key" "newline \<notin> set entry_mark" "newline \<notin> set kMagic"
  "newline \<notin> set version_key" "newline \<notin> set createdAt_key" "newline \<notin> set entries_key" "newline \<notin> set kVersion"
  by (simp_all add: newline_def key_defs)

lemma append_form: "(\<exists>h. bs = h @ r \<and> (\<exists>t u. h = F t u \<and> C t u)) \<longleftrightarrow> (\<exists>t u. bs = F t u @ r \<and> C t u)"
  by auto

lemma decode_entry_iff: "decode_entry bs = Inr (e, r) \<longleftrightarrow> (\<exists>a. bs = a @ r \<and> entry_form e a)"
proof -
  have "decode_entry bs = Inr (e, r) \<longleftrightarrow>
      (\<exists>t payload. bs = entry_key @ pe_name e @ newline # size_key @ t @ newline # newline # payload @
         newline # entry_mark @ newline # r \<and>
       pe_name e \<noteq> [] \<and> newline \<notin> set (pe_name e) \<and> newline \<notin> set t \<and> parse_number t = Some (length payload) \<and>
       pe_bytes e = map byte_of_char payload)" (is "?l \<longleftrightarrow> ?r")
  proof
    assume ?l
    then obtain name t n bs' where
        b: "bs = entry_key @ name @ newline # size_key @ t @ newline # newline # bs'" and
        n: "newline \<notin> set name" "name \<noteq> []" "newline \<notin> set t" "parse_number t = Some n" "n \<le> length bs'" and
        rest: "drop n bs' = newline # entry_mark @ newline # r" and
        e: "e = \<lparr>pe_name = name, pe_bytes = map byte_of_char (take n bs')\<rparr>"
      unfolding decode_entry_def parse_cases consumePrefixedLine_iff consumeExact_iff consumeNumber_iff
      by (auto simp: not_less)
    have "bs' = take n bs' @ newline # entry_mark @ newline # r" using rest by (metis append_take_drop_id)
    then show ?r using b n e by (intro exI [of _ t] exI [of _ "take n bs'"]) simp
  next
    assume ?r
    then obtain t payload where
        b: "bs = entry_key @ pe_name e @ newline # size_key @ t @ newline # newline # payload @
          newline # entry_mark @ newline # r" and
        n: "pe_name e \<noteq> []" "newline \<notin> set (pe_name e)" "newline \<notin> set t" "parse_number t = Some (length payload)"
          "pe_bytes e = map byte_of_char payload"
      by blast
    let ?content = "payload @ newline # entry_mark @ newline # r"
    have "consumePrefixedLine entry_key bs = Inr (pe_name e, size_key @ t @ newline # newline # ?content)"
      "\<And>e'. consumeNumber size_key e' (size_key @ t @ newline # newline # ?content) = Inr (length payload, newline # ?content)"
      "\<And>e'. consumeExact [] e' (newline # ?content) = Inr ?content"
      "\<And>e'. consumeExact [] e' (newline # entry_mark @ newline # r) = Inr (entry_mark @ newline # r)"
      "\<And>e'. consumeExact entry_mark e' (entry_mark @ newline # r) = Inr r"
      using n b by (simp_all add: consumePrefixedLine_iff consumeNumber_iff consumeExact_iff)
    then show ?l using n by (simp add: decode_entry_def)
  qed
  then show ?thesis unfolding entry_form_def append_form by simp
qed


fun entries_form :: "SessionPackageEntry list \<Rightarrow> string \<Rightarrow> bool" where
  "entries_form [] bs \<longleftrightarrow> bs = []"
| "entries_form (e # es) bs \<longleftrightarrow> (\<exists>a b. bs = a @ b \<and> entry_form e a \<and> entries_form es b)"

lemma decode_entries_iff:
  "decode_entries n bs = Inr (es, r) \<longleftrightarrow> (\<exists>a. bs = a @ r \<and> length es = n \<and> entries_form es a)"
proof (induction n arbitrary: bs es)
  case (Suc n)
  show ?case
  proof (cases es)
    case (Cons e es')
    have "decode_entries (Suc n) bs = Inr (es, r) \<longleftrightarrow>
        (\<exists>b. decode_entry bs = Inr (e, b) \<and> decode_entries n b = Inr (es', r))"
      unfolding decode_entries.simps parse_cases Cons by auto
    also have "\<dots> \<longleftrightarrow> (\<exists>a b. bs = a @ b @ r \<and> entry_form e a \<and> length es' = n \<and> entries_form es' b)"
      unfolding decode_entry_iff Suc.IH by auto
    also have "\<dots> \<longleftrightarrow> (\<exists>a. bs = a @ r \<and> length es = Suc n \<and> entries_form es a)"
    proof
      assume "\<exists>a b. bs = a @ b @ r \<and> entry_form e a \<and> length es' = n \<and> entries_form es' b"
      then obtain a b where "bs = (a @ b) @ r" "entry_form e a" "length es' = n" "entries_form es' b" by auto
      then show "\<exists>a. bs = a @ r \<and> length es = Suc n \<and> entries_form es a"
        unfolding Cons by (intro exI [of _ "a @ b"]) auto
    next
      assume "\<exists>a. bs = a @ r \<and> length es = Suc n \<and> entries_form es a"
      then obtain a b where "bs = (a @ b) @ r" "entry_form e a" "length es' = n" "entries_form es' b" by (auto simp: Cons)
      then show "\<exists>a b. bs = a @ b @ r \<and> entry_form e a \<and> length es' = n \<and> entries_form es' b"
        by (intro exI [of _ a] exI [of _ b]) simp
    qed
    finally show ?thesis .
  qed (simp split: sum.splits)
qed auto

definition header_form :: "nat \<Rightarrow> nat \<Rightarrow> string \<Rightarrow> bool" where
  "header_form createdAt n bs \<longleftrightarrow>
     (\<exists>t u. bs = kMagic @ newline # version_key @ kVersion @ newline # createdAt_key @ t @ newline #
        entries_key @ u @ [newline] \<and>
      newline \<notin> set t \<and> newline \<notin> set u \<and> parse_number t = Some createdAt \<and> parse_number u = Some n)"

lemma decode_header_iff:
  "decode_header bs = Inr (c, n, r) \<longleftrightarrow>
     (\<exists>h. bs = h @ r \<and> header_form c n h) \<and> n \<le> kMaxSessionPackageEntries \<and> n \<le> length bs"
proof -
  have "decode_header bs = Inr (c, n, r) \<longleftrightarrow>
      (\<exists>t u. bs = kMagic @ newline # version_key @ kVersion @ newline # createdAt_key @ t @ newline #
         entries_key @ u @ newline # r \<and>
       newline \<notin> set t \<and> newline \<notin> set u \<and> parse_number t = Some c \<and> parse_number u = Some n) \<and>
      n \<le> kMaxSessionPackageEntries \<and> n \<le> length bs" (is "?l \<longleftrightarrow> ?r")
  proof
    assume ?l
    then show ?r
      unfolding decode_header_def parse_cases consumePrefixedLine_iff consumeExact_iff consumeNumber_iff
      by (auto simp: not_less)
  next
    assume ?r
    then obtain t u where
        b: "bs = kMagic @ newline # version_key @ kVersion @ newline # createdAt_key @ t @ newline #
          entries_key @ u @ newline # r" and
        n: "newline \<notin> set t" "newline \<notin> set u" "parse_number t = Some c" "parse_number u = Some n"
          "n \<le> kMaxSessionPackageEntries" "n \<le> length bs"
      by blast
    let ?r2 = "entries_key @ u @ newline # r" let ?r1 = "createdAt_key @ t @ newline # ?r2"
    have "consumeExact kMagic NotAPackage bs = Inr (version_key @ kVersion @ newline # ?r1)"
      "consumePrefixedLine version_key (version_key @ kVersion @ newline # ?r1) = Inr (kVersion, ?r1)"
      "consumeNumber createdAt_key CreatedAtInvalid ?r1 = Inr (c, ?r2)"
      "consumeNumber entries_key EntriesInvalid ?r2 = Inr (n, r)"
      using n(1-4) by (simp_all add: b consumePrefixedLine_iff consumeNumber_iff consumeExact_iff)
    then show ?l using n(5,6) by (simp add: decode_header_def)
  qed
  then show ?thesis unfolding header_form_def append_form by simp
qed

lemma entry_form_nonempty: "\<not> entry_form e []"
  by (simp add: entry_form_def)

lemma entries_form_length: "entries_form es bs \<Longrightarrow> length es \<le> length bs"
proof (induction es arbitrary: bs)
  case (Cons e es)
  then obtain a b where "bs = a @ b" "entry_form e a" "entries_form es b" by auto
  moreover from this have "a \<noteq> []" using entry_form_nonempty by auto
  ultimately show ?case using Cons.IH [of b] by (cases a) auto
qed simp

text \<open>The files that hold a package.\<close>

definition package_form :: "SessionPackageData \<Rightarrow> string \<Rightarrow> bool" where
  "package_form p bs \<longleftrightarrow>
     (\<exists>c h a. bs = h @ a \<and> header_form c (length (pk_entries p)) h \<and> pk_createdAtMs p = word_of_nat c \<and>
      entries_form (pk_entries p) a \<and> length (pk_entries p) \<le> kMaxSessionPackageEntries)"

lemma decode_iff: "decodeSessionPackage bs = Inr p \<longleftrightarrow> package_form p bs"
proof -
  have "decodeSessionPackage bs = Inr p \<longleftrightarrow>
      (\<exists>c n r es. decode_header bs = Inr (c, n, r) \<and> decode_entries n r = Inr (es, []) \<and>
         p = \<lparr>pk_createdAtMs = word_of_nat c, pk_entries = es\<rparr>)"
    unfolding decodeSessionPackage_def parse_cases by auto
  also have "\<dots> \<longleftrightarrow> (\<exists>c h a. bs = h @ a \<and> header_form c (length (pk_entries p)) h \<and> pk_createdAtMs p = word_of_nat c \<and>
      entries_form (pk_entries p) a \<and> length (pk_entries p) \<le> kMaxSessionPackageEntries \<and> length (pk_entries p) \<le> length bs)"
    unfolding decode_header_iff decode_entries_iff by (cases p) auto
  also have "\<dots> \<longleftrightarrow> package_form p bs"
    unfolding package_form_def using entries_form_length by (fastforce intro: le_trans)
  finally show ?thesis .
qed

section \<open>Round trip and truncation\<close>

text \<open>The packages that are read back as they were written.\<close>

definition package_writable :: "SessionPackageData \<Rightarrow> bool" where
  "package_writable p \<longleftrightarrow>
     length (pk_entries p) \<le> kMaxSessionPackageEntries \<and>
     (\<forall>e \<in> set (pk_entries p). pe_name e \<noteq> [] \<and> newline \<notin> set (pe_name e) \<and> length (pe_bytes e) \<le> size_max)"

lemma parse_number_text: "n \<le> size_max \<Longrightarrow> parse_number (nat_text n) = Some n"
  by (simp add: parse_number_def parse_uint64_nat_text)

lemma parse_number_bound: "parse_number t = Some n \<Longrightarrow> n \<le> size_max"
  by (auto simp: parse_number_def parse_uint64_def bindE_def split: sum.splits if_splits)

lemma nat_text_no_newline [simp]: "newline \<notin> set (nat_text n)"
  using nat_text_props [of n] by (auto simp: list_all_iff is_digit_def newline_def char_code_def)

lemma unchar_bytes [simp]: "map byte_of_char (map char_of_byte bs) = bs"
  by (induction bs) (simp_all add: byte_of_char_def char_of_byte_def of_char_of)

lemma entry_form_encoded:
  assumes "pe_name e \<noteq> []" "newline \<notin> set (pe_name e)" "length (pe_bytes e) \<le> size_max"
  shows "entry_form e (entry_header e @ map char_of_byte (pe_bytes e) @ entry_end)"
  unfolding entry_form_def
  by (rule exI [of _ "nat_text (length (pe_bytes e))"], rule exI [of _ "map char_of_byte (pe_bytes e)"])
    (use assms in \<open>simp add: entry_header_def entry_end_def parse_number_text unchar_bytes del: map_map\<close>)

lemma entries_form_encoded:
  assumes "\<forall>e \<in> set es. pe_name e \<noteq> [] \<and> newline \<notin> set (pe_name e) \<and> length (pe_bytes e) \<le> size_max"
  shows "entries_form es (concat (map (\<lambda>e. entry_header e @ map char_of_byte (pe_bytes e) @ entry_end) es))"
  using assms
proof (induction es)
  case (Cons e es)
  then show ?case using entry_form_encoded [of e] by (auto simp del: append_assoc)
qed simp

lemma unat_lt_size_max: "unat (x :: u64) \<le> size_max"
proof -
  have "unat x < 2 ^ 64" using unsigned_less [of x] by simp
  then show ?thesis by (simp add: size_max_def)
qed

lemma header_form_encoded:
  assumes "length (pk_entries p) \<le> size_max"
  shows "header_form (unat (pk_createdAtMs p)) (length (pk_entries p)) (package_header p)"
proof -
  have "unat (pk_createdAtMs p) \<le> size_max" using unat_lt_size_max by simp
  then show ?thesis using assms unfolding header_form_def
    by (intro exI [of _ "nat_text (unat (pk_createdAtMs p))"] exI [of _ "nat_text (length (pk_entries p))"])
      (simp add: package_header_def parse_number_text)
qed

lemma encoded_form: "package_writable p \<Longrightarrow> package_form p (encodeSessionPackage p)"
proof -
  assume p: "package_writable p"
  then have "length (pk_entries p) \<le> size_max" by (simp add: package_writable_def kMaxSessionPackageEntries_def size_max_def)
  then show ?thesis
    using p header_form_encoded [of p] entries_form_encoded [of "pk_entries p"]
    unfolding package_form_def encodeSessionPackage_def package_writable_def
    by (intro exI conjI) (assumption | rule refl | simp)+
qed

lemma entries_form_writable:
  "entries_form es bs \<Longrightarrow> e \<in> set es \<Longrightarrow> pe_name e \<noteq> [] \<and> newline \<notin> set (pe_name e) \<and> length (pe_bytes e) \<le> size_max"
proof (induction es arbitrary: bs)
  case (Cons e' es)
  then show ?case by (auto simp: entry_form_def dest: parse_number_bound)
qed simp

lemma form_writable: "package_form p bs \<Longrightarrow> package_writable p"
  by (auto simp: package_form_def package_writable_def dest: entries_form_writable)

lemma form_prefix:
  assumes "package_form p bs" "package_form q (take k bs)"
  shows "length bs \<le> k"
proof -
  obtain c h a where p: "bs = h @ a" "header_form c (length (pk_entries p)) h" "entries_form (pk_entries p) a"
    "length (pk_entries p) \<le> kMaxSessionPackageEntries" using assms(1) by (auto simp: package_form_def)
  obtain c' h' a' where q: "take k bs = h' @ a'" "header_form c' (length (pk_entries q)) h'" "entries_form (pk_entries q) a'"
    "length (pk_entries q) \<le> kMaxSessionPackageEntries" using assms(2) by (auto simp: package_form_def)
  have bs: "bs = h' @ a' @ drop k bs" using q(1) by (metis append_assoc append_take_drop_id)
  have "decode_header bs = Inr (c, length (pk_entries p), a)"
    unfolding decode_header_iff using p entries_form_length [OF p(3)] by auto
  moreover have "decode_header bs = Inr (c', length (pk_entries q), a' @ drop k bs)"
    unfolding decode_header_iff using bs q entries_form_length [OF q(3)] by (metis length_append trans_le_add1 trans_le_add2)
  ultimately have a: "a = a' @ drop k bs" and n: "length (pk_entries q) = length (pk_entries p)" by simp_all
  have "decode_entries (length (pk_entries p)) a = Inr (pk_entries p, [])" unfolding decode_entries_iff using p(3) by simp
  moreover have "decode_entries (length (pk_entries p)) a = Inr (pk_entries q, drop k bs)"
    unfolding decode_entries_iff using q(3) a n by auto
  ultimately show ?thesis by simp
qed


section \<open>Reading a file decodes its bytes\<close>

lemma bindR_iff: "bindR m f = (Inr y, r') \<longleftrightarrow> (\<exists>x r. m = (Inr x, r) \<and> f x r = (Inr y, r'))"
  by (auto simp: bindR_def split: prod.splits sum.splits)

lemma bindR_Inr [simp]: "bindR (Inr x, r) f = f x r"
  by (simp add: bindR_def)

text \<open>A stream that ended with its last line.\<close>

definition ended :: istream where
  "ended = (istream_of [])\<lparr>is_eof := True\<rparr>"

lemma getline_iff:
  "(\<exists>s. stream_getline (istream_of bs) = (l, s) \<and> is_usable s \<and> s = s') \<longleftrightarrow>
     newline \<notin> set l \<and> ((\<exists>rest. bs = l @ newline # rest \<and> s' = istream_of rest) \<or> (bs = l \<and> l \<noteq> [] \<and> s' = ended))"
proof (cases "consumeLine bs")
  case None
  then have "newline \<notin> set bs" by (simp add: consumeLine_none)
  then show ?thesis using None
    by (auto simp: stream_getline_def is_usable_def is_good_def is_end_def istream_of_def ended_def)
next
  case (Some lr)
  obtain l' rest where lr: "lr = (l', rest)" by (cases lr)
  then have bs: "bs = l' @ newline # rest" "newline \<notin> set l'" using Some by (simp_all add: consumeLine_iff)
  have "newline \<notin> set l \<and> bs = l @ newline # x \<longleftrightarrow> l = l' \<and> x = rest" for x
    using consumeLine_iff [of bs l x] Some lr by auto
  then show ?thesis using Some lr bs
    by (auto simp: stream_getline_def is_usable_def is_good_def istream_of_def)
qed

lemma getline_ended: "\<not> is_usable (snd (stream_getline ended))"
  by (simp add: stream_getline_def ended_def is_good_def is_usable_def)

text \<open>Where a line that is read leaves the reader.\<close>

definition line_read :: "PackageReader \<Rightarrow> string \<Rightarrow> PackageReader \<Rightarrow> bool" where
  "line_read r l r' \<longleftrightarrow>
     newline \<notin> set l \<and> (\<exists>bs. pr_in r = istream_of bs \<and>
       ((\<exists>rest. bs = l @ newline # rest \<and> r' = r\<lparr>pr_in := istream_of rest\<rparr>) \<or> (bs = l \<and> l \<noteq> [] \<and> r' = r\<lparr>pr_in := ended\<rparr>)))"

definition reading :: "PackageReader \<Rightarrow> bool" where
  "reading r \<longleftrightarrow> (\<exists>bs. pr_in r = istream_of bs) \<or> pr_in r = ended"

lemma line_read_iff:
  assumes "reading r"
  shows "(\<exists>s. stream_getline (pr_in r) = (l, s) \<and> is_usable s \<and> r' = r\<lparr>pr_in := s\<rparr>) \<longleftrightarrow> line_read r l r'"
proof (cases "pr_in r = ended")
  case True
  moreover have "ended \<noteq> istream_of bs" for bs by (simp add: ended_def istream_of_def)
  ultimately show ?thesis using getline_ended by (auto simp: line_read_def)
next
  case False
  then obtain bs where bs: "pr_in r = istream_of bs" using assms by (auto simp: reading_def)
  have inj: "istream_of bs = istream_of cs \<longleftrightarrow> bs = cs" for cs by (simp add: istream_of_def)
  have "(\<exists>s. stream_getline (pr_in r) = (l, s) \<and> is_usable s \<and> r' = r\<lparr>pr_in := s\<rparr>) \<longleftrightarrow>
      (\<exists>s'. (\<exists>s. stream_getline (istream_of bs) = (l, s) \<and> is_usable s \<and> s = s') \<and> r' = r\<lparr>pr_in := s'\<rparr>)"
    unfolding bs by auto
  then show ?thesis unfolding getline_iff line_read_def bs inj by auto
qed

lemma read_exact_iff: "reading r \<Longrightarrow> read_exact x e r = (Inr u, r') \<longleftrightarrow> line_read r x r'"
  using line_read_iff [of r x r'] by (auto simp: read_exact_def Let_def split: prod.splits)

lemma read_field_iff: "reading r \<Longrightarrow> read_field p e r = (Inr v, r') \<longleftrightarrow> line_read r (p @ v) r'"
  using line_read_iff [of r "p @ v" r'] by (auto simp: read_field_def Let_def prefix_def split: prod.splits)

lemma read_number_iff:
  "reading r \<Longrightarrow> read_number p e r = (Inr n, r') \<longleftrightarrow> (\<exists>t. line_read r (p @ t) r' \<and> parse_number t = Some n)"
  by (auto simp: read_number_def bindR_iff read_field_iff split: option.splits)

lemma line_read_reading: "line_read r l r' \<Longrightarrow> reading r'"
  by (auto simp: line_read_def reading_def)


lemma reading_istream: "pr_in r = istream_of bs \<Longrightarrow> reading r"
  by (auto simp: reading_def)

lemma istream_of_inject [simp]: "istream_of bs = istream_of cs \<longleftrightarrow> bs = cs"
  by (simp add: istream_of_def)

lemma line_read_istream:
  "pr_in r = istream_of bs \<Longrightarrow> line_read r l r' \<longleftrightarrow>
     newline \<notin> set l \<and> ((\<exists>rest. bs = l @ newline # rest \<and> r' = r\<lparr>pr_in := istream_of rest\<rparr>) \<or>
       (bs = l \<and> l \<noteq> [] \<and> r' = r\<lparr>pr_in := ended\<rparr>))"
  by (auto simp: line_read_def)

lemma ended_not_istream [simp]: "ended \<noteq> istream_of bs" "istream_of bs \<noteq> ended"
  by (auto simp: ended_def istream_of_def)

lemma not_line_read_ended [simp]: "pr_in r = ended \<Longrightarrow> \<not> line_read r l r'"
  by (simp add: line_read_def)

text \<open>Lines one after the other.\<close>

lemma bind_lines:
  assumes "reading r"
  shows "bindR (read_field p e r) f = (Inr y, r') \<longleftrightarrow> (\<exists>v r1. line_read r (p @ v) r1 \<and> reading r1 \<and> f v r1 = (Inr y, r'))"
    and "bindR (read_number p e r) g = (Inr y, r') \<longleftrightarrow>
      (\<exists>t n r1. line_read r (p @ t) r1 \<and> reading r1 \<and> parse_number t = Some n \<and> g n r1 = (Inr y, r'))"
    and "bindR (read_exact x e r) h = (Inr y, r') \<longleftrightarrow> (\<exists>r1. line_read r x r1 \<and> reading r1 \<and> h () r1 = (Inr y, r'))"
  using assms by (auto simp: bindR_iff read_field_iff read_number_iff read_exact_iff, (use line_read_reading in blast)+)

lemma if_Inl: "(if b then (Inl e, r) else x) = (Inr y, r') \<longleftrightarrow> \<not> b \<and> x = (Inr y, r')"
  by simp

lemma line_read_intro:
  "pr_in r = istream_of (l @ newline # rest) \<Longrightarrow> newline \<notin> set l \<Longrightarrow> line_read r l (r\<lparr>pr_in := istream_of rest\<rparr>)"
  by (auto simp: line_read_def)

lemma line_read_next:
  assumes "line_read r l r1" "pr_in r = istream_of bs" "l = [] \<or> line_read r1 l' r'"
  obtains rest where "bs = l @ newline # rest" "newline \<notin> set l" "r1 = r\<lparr>pr_in := istream_of rest\<rparr>"
  using assms by (auto simp: line_read_def)

lemma read_entry_header_iff:
  assumes r: "pr_in r = istream_of bs"
  shows "read_entry_header r = (Inr (name, n), r') \<longleftrightarrow>
    name \<noteq> [] \<and> newline \<notin> set name \<and>
    (\<exists>t content. bs = entry_key @ name @ newline # size_key @ t @ newline # newline # content \<and>
       newline \<notin> set t \<and> parse_number t = Some n \<and> r' = r\<lparr>pr_in := istream_of content\<rparr>)"
proof -
  have "read_entry_header r = (Inr (name, n), r') \<longleftrightarrow>
      name \<noteq> [] \<and> (\<exists>t r1 r2. line_read r (entry_key @ name) r1 \<and> line_read r1 (size_key @ t) r2 \<and> line_read r2 [] r' \<and>
        parse_number t = Some n)"
    unfolding read_entry_header_def
    using reading_istream [OF r] by (simp add: bind_lines if_Inl cong: conj_cong) (use line_read_reading in blast)
  also have "\<dots> \<longleftrightarrow> name \<noteq> [] \<and> newline \<notin> set name \<and>
      (\<exists>t content. bs = entry_key @ name @ newline # size_key @ t @ newline # newline # content \<and>
         newline \<notin> set t \<and> parse_number t = Some n \<and> r' = r\<lparr>pr_in := istream_of content\<rparr>)" (is "?l \<longleftrightarrow> ?r")
  proof
    assume ?l
    then obtain t r1 r2 where l: "name \<noteq> []" "parse_number t = Some n" and
        1: "line_read r (entry_key @ name) r1" and 2: "line_read r1 (size_key @ t) r2" and 3: "line_read r2 [] r'"
      by auto
    obtain b1 where b1: "bs = (entry_key @ name) @ newline # b1" "newline \<notin> set (entry_key @ name)" "r1 = r\<lparr>pr_in := istream_of b1\<rparr>"
      using line_read_next [OF 1 r] 2 by blast
    then have "pr_in r1 = istream_of b1" by simp
    then obtain b2 where b2: "b1 = (size_key @ t) @ newline # b2" "newline \<notin> set (size_key @ t)" "r2 = r1\<lparr>pr_in := istream_of b2\<rparr>"
      using line_read_next [OF 2] 3 by blast
    then have "pr_in r2 = istream_of b2" by simp
    then obtain b3 where "b2 = [] @ newline # b3" "r' = r2\<lparr>pr_in := istream_of b3\<rparr>"
      using line_read_next [OF 3] by blast
    then show ?r using l b1 b2 by (intro conjI exI [of _ t] exI [of _ b3]) simp_all
  next
    assume ?r
    then obtain t content where bs: "bs = entry_key @ name @ newline # size_key @ t @ newline # newline # content" and
        l: "name \<noteq> []" "newline \<notin> set name" "newline \<notin> set t" "parse_number t = Some n" "r' = r\<lparr>pr_in := istream_of content\<rparr>"
      by auto
    let ?b1 = "size_key @ t @ newline # newline # content" and ?b2 = "newline # content"
    have "line_read r (entry_key @ name) (r\<lparr>pr_in := istream_of ?b1\<rparr>)"
      "line_read (r\<lparr>pr_in := istream_of ?b1\<rparr>) (size_key @ t) (r\<lparr>pr_in := istream_of ?b2\<rparr>)"
      "line_read (r\<lparr>pr_in := istream_of ?b2\<rparr>) [] r'"
      using line_read_intro [of r "entry_key @ name" ?b1] line_read_intro [of "r\<lparr>pr_in := istream_of ?b1\<rparr>" "size_key @ t" ?b2]
        line_read_intro [of "r\<lparr>pr_in := istream_of ?b2\<rparr>" "[]" content] r bs l by simp_all
    then show ?l using l by blast
  qed
  finally show ?thesis .
qed


text \<open>Where the bytes \<open>a\<close> are read, from the bytes \<open>bs\<close>: before others, or as the end, whose line feed may be missing.\<close>

definition bytes_read :: "PackageReader \<Rightarrow> string \<Rightarrow> string \<Rightarrow> PackageReader \<Rightarrow> bool" where
  "bytes_read r bs a r' \<longleftrightarrow>
     (\<exists>rest. bs = a @ rest \<and> r' = r\<lparr>pr_in := istream_of rest\<rparr>) \<or> (bs @ [newline] = a \<and> r' = r\<lparr>pr_in := ended\<rparr>)"

lemma last_lines:
  assumes "pr_in r = istream_of bs" "l \<noteq> []"
  shows "line_read r l r' \<longleftrightarrow> newline \<notin> set l \<and> bytes_read r bs (l @ [newline]) r'"
  using line_read_istream [OF assms(1)] assms(2) by (auto simp: bytes_read_def)

lemma read_chunks_record:
  "n \<le> length bs \<Longrightarrow> read_chunks n \<lparr>pr_in = istream_of bs, pr_stop = None, pr_slice = sl\<rparr> =
     (Inr (take n bs), \<lparr>pr_in = istream_of (drop n bs), pr_stop = None, pr_slice = sl\<rparr>)"
proof (induction n arbitrary: bs rule: less_induct)
  case (less n)
  show ?case
  proof (cases "n = 0")
    case False
    let ?k = "min 65536 n"
    have chunk: "stream_read ?k (istream_of bs) = (take ?k bs, istream_of (drop ?k bs))"
      using less.prems by (simp add: stream_read_def) (simp add: istream_of_def)
    have "read_chunks (n - ?k) \<lparr>pr_in = istream_of (drop ?k bs), pr_stop = None, pr_slice = sl\<rparr> =
        (Inr (take (n - ?k) (drop ?k bs)), \<lparr>pr_in = istream_of (drop (n - ?k) (drop ?k bs)), pr_stop = None, pr_slice = sl\<rparr>)"
      using less.prems False by (intro less.IH) auto
    moreover have "take ?k bs @ take (n - ?k) (drop ?k bs) = take n bs" "drop (n - ?k) (drop ?k bs) = drop n bs"
      by (simp_all flip: take_add)
    ultimately show ?thesis using False less.prems chunk
      by (subst read_chunks.simps) (simp add: bindR_def Let_def del: take_append)
  qed (simp add: read_chunks.simps)
qed

lemma read_chunks_whole:
  "pr_in r = istream_of bs \<Longrightarrow> pr_stop r = None \<Longrightarrow> n \<le> length bs \<Longrightarrow>
   read_chunks n r = (Inr (take n bs), r\<lparr>pr_in := istream_of (drop n bs)\<rparr>)"
  by (cases r) (simp add: read_chunks_record)

lemma is_rest_istream_of [simp]: "is_rest (istream_of bs) = bs"
  by (simp add: istream_of_def)

text \<open>The end of an entry, after its content.\<close>

lemma entry_end_lines:
  assumes "pr_in r = istream_of bs"
  shows "(\<exists>r1. line_read r [] r1 \<and> line_read r1 entry_mark r') \<longleftrightarrow> bytes_read r bs (newline # entry_mark @ [newline]) r'"
  (is "?l \<longleftrightarrow> ?r")
proof
  assume ?l
  then obtain r1 where 1: "line_read r [] r1" and 2: "line_read r1 entry_mark r'" by blast
  obtain b where b: "bs = newline # b" "r1 = r\<lparr>pr_in := istream_of b\<rparr>"
    using line_read_next [OF 1 assms] by (metis append_Nil)
  then have "bytes_read r1 b (entry_mark @ [newline]) r'"
    using last_lines [of r1 b entry_mark r'] 2 by (simp add: key_defs)
  then show ?r using b by (auto simp: bytes_read_def)
next
  assume r: ?r
  then obtain b where b: "bs = newline # b" by (auto simp: bytes_read_def entry_mark_def append_eq_Cons_conv)
  let ?r1 = "r\<lparr>pr_in := istream_of b\<rparr>"
  have "line_read r [] ?r1" using line_read_intro [of r "[]" b] assms b by simp
  moreover have "bytes_read ?r1 b (entry_mark @ [newline]) r'" using r b by (auto simp: bytes_read_def)
  then have "line_read ?r1 entry_mark r'" using last_lines [of ?r1 b entry_mark r'] by (simp add: key_defs newline_def)
  ultimately show ?l by blast
qed

lemma entry_end_read:
  assumes "pr_in r = istream_of bs"
  shows "bindR (read_exact [] x r) (\<lambda>_ r. bindR (read_exact entry_mark x r) (\<lambda>_ r. (Inr e, r))) = (Inr e', r') \<longleftrightarrow>
    bytes_read r bs (newline # entry_mark @ [newline]) r' \<and> e' = e"
proof -
  have "bindR (read_exact [] x r) (\<lambda>_ r. bindR (read_exact entry_mark x r) (\<lambda>_ r. (Inr e, r))) = (Inr e', r') \<longleftrightarrow>
      (\<exists>r1. line_read r [] r1 \<and> line_read r1 entry_mark r') \<and> e' = e"
    using reading_istream [OF assms] by (simp add: bind_lines cong: conj_cong) (use line_read_reading in blast)
  then show ?thesis unfolding entry_end_lines [OF assms] .
qed

lemma read_entry_body_iff:
  assumes "pr_in r = istream_of bs" "pr_stop r = None" "pr_slice r = None" "length bs \<le> opened"
  shows "read_entry_body opened opened name n r = (Inr e, r') \<longleftrightarrow>
    n \<le> length bs \<and> bytes_read (r\<lparr>pr_in := istream_of (drop n bs)\<rparr>) (drop n bs) (newline # entry_mark @ [newline]) r' \<and>
    e = \<lparr>pe_name = name, pe_bytes = map byte_of_char (take n bs)\<rparr>"
proof (cases "n \<le> length bs")
  case True
  then have "read_content position name n r = (Inr (take n bs), r\<lparr>pr_in := istream_of (drop n bs)\<rparr>)" for position
    using assms(1-3) by (simp add: read_content_def read_chunks_whole)
  moreover have "pr_in (r\<lparr>pr_in := istream_of (drop n bs)\<rparr>) = istream_of (drop n bs)" by simp
  note entry_end_read [OF this]
  moreover have "\<not> opened < opened - length bs" by simp
  ultimately show ?thesis
    using True assms by (simp add: read_entry_body_def Let_def)
next
  case False
  then show ?thesis using assms by (simp add: read_entry_body_def Let_def)
qed

lemma bytes_read_update: "bytes_read (r\<lparr>pr_in := s\<rparr>) bs a r' \<longleftrightarrow> bytes_read r bs a r'"
  by (simp add: bytes_read_def)

lemma bytes_read_drop: "bytes_read r (drop n bs) a r' \<Longrightarrow> n \<le> length bs \<Longrightarrow> bytes_read r bs (take n bs @ a) r'"
  unfolding bytes_read_def by (metis append.assoc append_take_drop_id)

lemma bytes_read_prefix: "bytes_read r (p @ bs) (p @ a) r' \<longleftrightarrow> bytes_read r bs a r'"
  by (simp add: bytes_read_def)

lemma read_entry_iff:
  assumes r: "pr_in r = istream_of bs" "pr_stop r = None" "pr_slice r = None" and n: "length bs \<le> opened"
  shows "read_entry opened opened r = (Inr e, r') \<longleftrightarrow> (\<exists>a. entry_form e a \<and> bytes_read r bs a r')"
proof -
  have step: "read_entry opened opened r = (Inr e, r') \<longleftrightarrow>
      (\<exists>name n t content. name \<noteq> [] \<and> newline \<notin> set name \<and>
         bs = entry_key @ name @ newline # size_key @ t @ newline # newline # content \<and> newline \<notin> set t \<and>
         parse_number t = Some n \<and>
         read_entry_body opened opened name n (r\<lparr>pr_in := istream_of content\<rparr>) = (Inr e, r'))"
    unfolding read_entry_def bindR_iff split_paired_Ex read_entry_header_iff [OF r(1)] prod.case by blast
  show ?thesis
  proof
    assume "read_entry opened opened r = (Inr e, r')"
    then obtain name n' t content where l: "name \<noteq> []" "newline \<notin> set name"
        "bs = entry_key @ name @ newline # size_key @ t @ newline # newline # content" "newline \<notin> set t"
        "parse_number t = Some n'" and
        body: "read_entry_body opened opened name n' (r\<lparr>pr_in := istream_of content\<rparr>) = (Inr e, r')"
      unfolding step by blast
    have "length content \<le> opened" using n l(3) by simp
    then have b: "n' \<le> length content" "bytes_read r (drop n' content) (newline # entry_mark @ [newline]) r'"
        "e = \<lparr>pe_name = name, pe_bytes = map byte_of_char (take n' content)\<rparr>"
      using body read_entry_body_iff [of "r\<lparr>pr_in := istream_of content\<rparr>" content opened name n' e r'] r(2,3)
      by (simp_all add: bytes_read_update)
    let ?head = "entry_key @ name @ newline # size_key @ t @ [newline, newline]"
    have "entry_form e (?head @ take n' content @ newline # entry_mark @ [newline])"
      unfolding entry_form_def using l b by (intro exI [of _ t] exI [of _ "take n' content"]) simp
    moreover have "bs = ?head @ content" using l(3) by simp
    then have "bytes_read r bs (?head @ take n' content @ newline # entry_mark @ [newline]) r'"
      using bytes_read_drop [OF b(2,1)] bytes_read_prefix by (simp only:)
    ultimately show "\<exists>a. entry_form e a \<and> bytes_read r bs a r'" by blast
  next
    assume "\<exists>a. entry_form e a \<and> bytes_read r bs a r'"
    then obtain t payload where l: "pe_name e \<noteq> []" "newline \<notin> set (pe_name e)" "newline \<notin> set t"
        "parse_number t = Some (length payload)" "pe_bytes e = map byte_of_char payload" and
        b: "bytes_read r bs ((entry_key @ pe_name e @ newline # size_key @ t @ newline # newline # payload) @
          newline # entry_mark @ [newline]) r'" (is "bytes_read r bs (?front @ ?tail) r'")
      unfolding entry_form_def by auto
    obtain tail where tail: "bs = ?front @ tail" "bytes_read r tail ?tail r'"
    proof -
      have "\<exists>tail. bs = ?front @ tail"
        using b unfolding bytes_read_def by (metis append.assoc append_Cons butlast_append butlast_snoc list.distinct(1) Nil_is_append_conv)
      then show thesis using that b bytes_read_prefix by blast
    qed
    then have "bs = entry_key @ pe_name e @ newline # size_key @ t @ newline # newline # (payload @ tail)" by simp
    moreover have "read_entry_body opened opened (pe_name e) (length payload) (r\<lparr>pr_in := istream_of (payload @ tail)\<rparr>) = (Inr e, r')"
      using read_entry_body_iff [of "r\<lparr>pr_in := istream_of (payload @ tail)\<rparr>" "payload @ tail" opened "pe_name e" "length payload" e r']
        n r(2,3) l(5) tail by (simp add: bytes_read_update)
    ultimately show "read_entry opened opened r = (Inr e, r')" unfolding step using l by blast
  qed
qed


lemma read_entry_ended: "pr_in r = ended \<Longrightarrow> read_entry opened fileSize r \<noteq> (Inr e, r')"
  by (auto simp: read_entry_def read_entry_header_def bindR_iff read_field_iff reading_def)

lemma entries_form_nonempty: "entries_form es [] \<longleftrightarrow> es = []"
  by (cases es) (auto simp: entry_form_nonempty)

text \<open>Where some entries are read: none of them leaves the stream where it was.\<close>

definition entries_read :: "PackageReader \<Rightarrow> string \<Rightarrow> SessionPackageEntry list \<Rightarrow> PackageReader \<Rightarrow> bool" where
  "entries_read r bs es r' \<longleftrightarrow>
     (\<exists>a rest. entries_form es a \<and> bs = a @ rest \<and> r' = r\<lparr>pr_in := istream_of rest\<rparr>) \<or>
     (es \<noteq> [] \<and> entries_form es (bs @ [newline]) \<and> r' = r\<lparr>pr_in := ended\<rparr>)"

lemma entries_read_Cons:
  assumes "pr_in r = istream_of bs"
  shows "entries_read r bs (e # es) r' \<longleftrightarrow>
    (\<exists>a rest. entry_form e a \<and> bs = a @ rest \<and> entries_read r rest es r') \<or>
    (es = [] \<and> entry_form e (bs @ [newline]) \<and> r' = r\<lparr>pr_in := ended\<rparr>)" (is "?l \<longleftrightarrow> ?r")
proof
  assume ?l
  then consider a b rest where "entry_form e a" "entries_form es b" "bs = (a @ b) @ rest" "r' = r\<lparr>pr_in := istream_of rest\<rparr>"
    | a b where "entry_form e a" "entries_form es b" "bs @ [newline] = a @ b" "r' = r\<lparr>pr_in := ended\<rparr>"
    by (auto simp: entries_read_def)
  then show ?r
  proof cases
    case 1
    then have "bs = a @ b @ rest" "entries_read r (b @ rest) es r'" by (auto simp: entries_read_def)
    then show ?thesis using 1(1) by blast
  next
    case 2
    show ?thesis
    proof (cases "es = []")
      case True
      then show ?thesis using 2 by simp
    next
      case False
      then have "b \<noteq> []" using 2(2) entries_form_nonempty by auto
      then have "bs = a @ butlast b" "b = butlast b @ [newline]"
        using 2(3) by (metis append_assoc append_butlast_last_id butlast_append butlast_snoc, metis 2(3) append_butlast_last_id last_appendR last_snoc)
      moreover from this have "entries_read r (butlast b) es r'" unfolding entries_read_def using 2(2,4) False by metis
      ultimately show ?thesis using 2(1) by blast
    qed
  qed
next
  assume ?r
  then consider a b rest where "entry_form e a" "entries_form es b" "bs = a @ b @ rest" "r' = r\<lparr>pr_in := istream_of rest\<rparr>"
    | a rest where "entry_form e a" "entries_form es (rest @ [newline])" "bs = a @ rest" "r' = r\<lparr>pr_in := ended\<rparr>"
    | "es = []" "entry_form e (bs @ [newline])" "r' = r\<lparr>pr_in := ended\<rparr>"
    by (auto simp: entries_read_def)
  then show ?l
  proof cases
    case 1
    then have "entries_form (e # es) (a @ b)" "bs = (a @ b) @ rest" by auto
    then show ?thesis unfolding entries_read_def using 1(4) by blast
  next
    case 2
    then have "entries_form (e # es) (bs @ [newline])" by auto
    then show ?thesis unfolding entries_read_def using 2(4) by blast
  next
    case 3
    then show ?thesis by (simp add: entries_read_def)
  qed
qed

lemma read_entries_iff:
  "pr_in r = istream_of bs \<Longrightarrow> pr_stop r = None \<Longrightarrow> pr_slice r = None \<Longrightarrow> length bs \<le> opened \<Longrightarrow>
   read_entries opened opened n r = (Inr es, r') \<longleftrightarrow> length es = n \<and> entries_read r bs es r'"
proof (induction n arbitrary: r bs es)
  case 0
  have "entries_read r bs [] r' \<longleftrightarrow> r' = r" using 0(1) by (cases r) (auto simp: entries_read_def)
  then show ?case by auto
next
  case (Suc n)
  have e: "read_entries opened opened (Suc n) r = (Inr es, r') \<longleftrightarrow>
      (\<exists>e es' r1. es = e # es' \<and> read_entry opened opened r = (Inr e, r1) \<and> read_entries opened opened n r1 = (Inr es', r'))"
    unfolding read_entries.simps bindR_iff prod.inject sum.inject by blast
  have rest: "read_entries opened opened n (r\<lparr>pr_in := istream_of rest\<rparr>) = (Inr es', r') \<longleftrightarrow>
      length es' = n \<and> entries_read r rest es' r'" if "bs = a @ rest" for a rest es'
    using Suc.IH [of "r\<lparr>pr_in := istream_of rest\<rparr>" rest es'] Suc.prems that by (simp add: entries_read_def)
  have at_end: "read_entries opened opened n (r\<lparr>pr_in := ended\<rparr>) = (Inr es', r') \<longleftrightarrow>
      n = 0 \<and> es' = [] \<and> r' = r\<lparr>pr_in := ended\<rparr>" for es'
    using read_entry_ended by (cases n) (auto simp: bindR_iff)
  show ?case
  proof (cases es)
    case (Cons e' es')
    have "read_entries opened opened (Suc n) r = (Inr es, r') \<longleftrightarrow>
        (\<exists>a r1. entry_form e' a \<and> bytes_read r bs a r1 \<and> read_entries opened opened n r1 = (Inr es', r'))"
      using Cons unfolding e read_entry_iff [OF Suc.prems] by auto
    also have "\<dots> \<longleftrightarrow> (\<exists>a rest. entry_form e' a \<and> bs = a @ rest \<and> length es' = n \<and> entries_read r rest es' r') \<or>
        (entry_form e' (bs @ [newline]) \<and> n = 0 \<and> es' = [] \<and> r' = r\<lparr>pr_in := ended\<rparr>)"
      unfolding bytes_read_def using rest at_end by blast
    also have "\<dots> \<longleftrightarrow> length es = Suc n \<and> entries_read r bs es r'"
      unfolding Cons entries_read_Cons [OF Suc.prems(1)] by auto
    finally show ?thesis .
  next
    case Nil
    then show ?thesis unfolding e by simp
  qed
qed


lemma read_header_iff:
  assumes r: "pr_in r = istream_of bs"
  shows "read_header r = (Inr (c, n), r') \<longleftrightarrow> n \<le> kMaxSessionPackageEntries \<and> (\<exists>h. header_form c n h \<and> bytes_read r bs h r')"
proof -
  have "read_header r = (Inr (c, n), r') \<longleftrightarrow> n \<le> kMaxSessionPackageEntries \<and>
      (\<exists>t u r1 r2 r3. line_read r kMagic r1 \<and> line_read r1 (version_key @ kVersion) r2 \<and> line_read r2 (createdAt_key @ t) r3 \<and>
        line_read r3 (entries_key @ u) r' \<and> parse_number t = Some c \<and> parse_number u = Some n)"
    unfolding read_header_def
    using reading_istream [OF r] by (simp add: bind_lines if_Inl not_less cong: conj_cong) (use line_read_reading in blast)
  also have "\<dots> \<longleftrightarrow> n \<le> kMaxSessionPackageEntries \<and> (\<exists>h. header_form c n h \<and> bytes_read r bs h r')" (is "?l \<longleftrightarrow> ?r")
  proof
    assume ?l
    then obtain t u r1 r2 r3 where l: "n \<le> kMaxSessionPackageEntries" "parse_number t = Some c" "parse_number u = Some n" and
        1: "line_read r kMagic r1" and 2: "line_read r1 (version_key @ kVersion) r2" and
        3: "line_read r2 (createdAt_key @ t) r3" and 4: "line_read r3 (entries_key @ u) r'"
      by auto
    obtain b1 where b1: "bs = kMagic @ newline # b1" "r1 = r\<lparr>pr_in := istream_of b1\<rparr>"
      using line_read_next [OF 1 r] 2 by blast
    then have "pr_in r1 = istream_of b1" by simp
    then obtain b2 where b2: "b1 = (version_key @ kVersion) @ newline # b2" "r2 = r1\<lparr>pr_in := istream_of b2\<rparr>"
      using line_read_next [OF 2] 3 by blast
    then have "pr_in r2 = istream_of b2" by simp
    then obtain b3 where b3: "b2 = (createdAt_key @ t) @ newline # b3" "newline \<notin> set (createdAt_key @ t)" "r3 = r2\<lparr>pr_in := istream_of b3\<rparr>"
      using line_read_next [OF 3] 4 by blast
    then have "newline \<notin> set (entries_key @ u)" "bytes_read r3 b3 ((entries_key @ u) @ [newline]) r'"
      using last_lines [of r3 b3 "entries_key @ u" r'] 4 by (simp_all add: key_defs)
    moreover from this b3(3) b2(2) b1(2) have "bytes_read r b3 (entries_key @ u @ [newline]) r'" by (simp add: bytes_read_update)
    moreover have "bs = (kMagic @ newline # version_key @ kVersion @ newline # createdAt_key @ t @ [newline]) @ b3"
      using b1(1) b2(1) b3(1) by simp
    ultimately have "bytes_read r bs ((kMagic @ newline # version_key @ kVersion @ newline # createdAt_key @ t @ [newline]) @
        entries_key @ u @ [newline]) r'" "newline \<notin> set u"
      using bytes_read_prefix by (simp_all only: set_append Un_iff simp_thms de_Morgan_disj)
    then show ?r using l b3(2) unfolding header_form_def by (intro conjI exI [where P = "\<lambda>h. _ h \<and> _ h"]) auto
  next
    assume ?r
    then obtain t u where l: "n \<le> kMaxSessionPackageEntries" "newline \<notin> set t" "newline \<notin> set u" "parse_number t = Some c"
        "parse_number u = Some n" and
        b: "bytes_read r bs (((kMagic @ newline # version_key @ kVersion @ newline # createdAt_key @ t @ [newline]) @
          entries_key @ u) @ [newline]) r'"
      unfolding header_form_def by auto
    have "\<exists>b3. bs = (kMagic @ newline # version_key @ kVersion @ newline # createdAt_key @ t @ [newline]) @ b3"
      using b unfolding bytes_read_def by (metis append.assoc append_same_eq)
    then obtain b3 where b3: "bs = (kMagic @ newline # version_key @ kVersion @ newline # createdAt_key @ t @ [newline]) @ b3" by blast
    then have tail: "bytes_read r b3 ((entries_key @ u) @ [newline]) r'" using b by (simp only: append_assoc bytes_read_prefix)
    let ?b2 = "createdAt_key @ t @ newline # b3"
    let ?b1 = "version_key @ kVersion @ newline # ?b2"
    let ?r = "\<lambda>b. r\<lparr>pr_in := istream_of b\<rparr>"
    have "line_read r kMagic (?r ?b1)" "line_read (?r ?b1) (version_key @ kVersion) (?r ?b2)" "line_read (?r ?b2) (createdAt_key @ t) (?r b3)"
      using line_read_intro [of r kMagic ?b1] line_read_intro [of "?r ?b1" "version_key @ kVersion" ?b2]
        line_read_intro [of "?r ?b2" "createdAt_key @ t" b3] r b3 l(2) by simp_all
    moreover have "line_read (?r b3) (entries_key @ u) r'"
      using last_lines [of "?r b3" b3 "entries_key @ u" r'] l(3) tail by (simp add: bytes_read_update key_defs newline_def)
    ultimately show ?l using l by blast
  qed
  finally show ?thesis .
qed

lemma peek_end: "fst (stream_peek (istream_of bs)) = None \<longleftrightarrow> bs = []" "fst (stream_peek ended) = None"
  by (auto simp: stream_peek_def ended_def is_good_def istream_of_def split: list.splits)

lemma read_end_iff:
  "(\<exists>r'. read_end c es r = (Inr p, r')) \<longleftrightarrow>
     fst (stream_peek (pr_in r)) = None \<and> p = \<lparr>pk_createdAtMs = word_of_nat c, pk_entries = es\<rparr>"
  by (auto simp: read_end_def split: prod.splits option.splits)

lemma read_package_steps:
  "(\<exists>r'. read_package opened fileSize r = (Inr p, r')) \<longleftrightarrow>
     (\<exists>c r1 r2. read_header r = (Inr (c, length (pk_entries p)), r1) \<and> pk_createdAtMs p = word_of_nat c \<and>
        read_entries opened fileSize (length (pk_entries p)) r1 = (Inr (pk_entries p), r2) \<and>
        fst (stream_peek (pr_in r2)) = None)"
proof -
  have len: "length es = n" if "read_entries opened fileSize n r1 = (Inr es, r2)" for n r1 es r2
    using that by (induction n arbitrary: r1 es) (auto simp: bindR_iff)
  have "(\<exists>r'. read_package opened fileSize r = (Inr p, r')) \<longleftrightarrow>
      (\<exists>c n r1 es r2. read_header r = (Inr (c, n), r1) \<and> read_entries opened fileSize n r1 = (Inr es, r2) \<and>
         (\<exists>r'. read_end c es r2 = (Inr p, r')))"
    unfolding read_package_def bindR_iff split_paired_Ex prod.case by blast
  also have "\<dots> \<longleftrightarrow> (\<exists>c n r1 es r2. read_header r = (Inr (c, n), r1) \<and> read_entries opened fileSize n r1 = (Inr es, r2) \<and>
      fst (stream_peek (pr_in r2)) = None \<and> pk_createdAtMs p = word_of_nat c \<and> pk_entries p = es)"
    unfolding read_end_iff by (cases p) simp
  also have "\<dots> \<longleftrightarrow> (\<exists>c r1 r2. read_header r = (Inr (c, length (pk_entries p)), r1) \<and> pk_createdAtMs p = word_of_nat c \<and>
      read_entries opened fileSize (length (pk_entries p)) r1 = (Inr (pk_entries p), r2) \<and>
      fst (stream_peek (pr_in r2)) = None)"
    using len by blast
  finally show ?thesis .
qed

text \<open>The two ways in which the rest of a file can be read.\<close>

lemma form_cases:
  assumes "\<And>h. (\<exists>b. bs' = h @ b \<and> E b) \<longleftrightarrow> (\<exists>b. bs = h @ b \<and> E' b) \<or> (bs' = h \<and> nil)"
  shows "(\<exists>c h. X c h \<and> ((\<exists>b. bs = h @ b \<and> (E b \<or> E' b)) \<or> (bs' = h \<and> nil))) \<longleftrightarrow>
    (\<exists>c h. X c h \<and> (\<exists>b. bs = h @ b \<and> E b)) \<or> (\<exists>c h. X c h \<and> (\<exists>b. bs' = h @ b \<and> E b))"
  unfolding assms by blast

lemma read_iff:
  "fst (readSessionPackage (Some (istream_of bs)) (Some (length bs)) None None) = Inr p \<longleftrightarrow>
     package_form p bs \<or> package_form p (bs @ [newline])"
proof -
  let ?r = "\<lparr>pr_in = istream_of bs, pr_stop = None, pr_slice = None\<rparr>" and ?es = "pk_entries p" and ?n = "length (pk_entries p)"
  let ?ok = "\<lambda>c. ?n \<le> kMaxSessionPackageEntries \<and> pk_createdAtMs p = word_of_nat c"
  have rest: "(\<exists>r2. read_entries (length bs) (length bs) ?n (?r\<lparr>pr_in := istream_of b\<rparr>) = (Inr ?es, r2) \<and> fst (stream_peek (pr_in r2)) = None) \<longleftrightarrow>
      entries_form ?es b \<or> (?es \<noteq> [] \<and> entries_form ?es (b @ [newline]))" if "bs = h @ b" for h b
    using read_entries_iff [of "?r\<lparr>pr_in := istream_of b\<rparr>" b "length bs" ?n ?es] that
    by (auto simp: entries_read_def peek_end)
  have at_end: "(\<exists>r2. read_entries (length bs) (length bs) ?n (?r\<lparr>pr_in := ended\<rparr>) = (Inr ?es, r2) \<and> fst (stream_peek (pr_in r2)) = None) \<longleftrightarrow>
      ?es = []"
    using read_entry_ended by (cases ?es) (auto simp: bindR_iff peek_end)
  have "fst (readSessionPackage (Some (istream_of bs)) (Some (length bs)) None None) = Inr p \<longleftrightarrow>
      (\<exists>r'. read_package (length bs) (length bs) ?r = (Inr p, r'))"
    by (auto simp: readSessionPackage_def split: prod.splits)
  also have "\<dots> \<longleftrightarrow> (\<exists>c h. ?ok c \<and> header_form c ?n h \<and>
      ((\<exists>b. bs = h @ b \<and> (entries_form ?es b \<or> (?es \<noteq> [] \<and> entries_form ?es (b @ [newline])))) \<or> (bs @ [newline] = h \<and> ?es = [])))"
  proof -
    let ?R = "\<lambda>r1. \<exists>r2. read_entries (length bs) (length bs) ?n r1 = (Inr ?es, r2) \<and> fst (stream_peek (pr_in r2)) = None"
    have "(\<exists>r'. read_package (length bs) (length bs) ?r = (Inr p, r')) \<longleftrightarrow>
        (\<exists>c h r1. ?ok c \<and> header_form c ?n h \<and> bytes_read ?r bs h r1 \<and> ?R r1)"
      unfolding read_package_steps using read_header_iff [of ?r bs _ ?n] by auto
    also have "\<dots> \<longleftrightarrow> (\<exists>c h. ?ok c \<and> header_form c ?n h \<and>
        ((\<exists>b. bs = h @ b \<and> ?R (?r\<lparr>pr_in := istream_of b\<rparr>)) \<or> (bs @ [newline] = h \<and> ?R (?r\<lparr>pr_in := ended\<rparr>))))"
      unfolding bytes_read_def by blast
    also have "\<dots> \<longleftrightarrow> (\<exists>c h. ?ok c \<and> header_form c ?n h \<and>
        ((\<exists>b. bs = h @ b \<and> (entries_form ?es b \<or> (?es \<noteq> [] \<and> entries_form ?es (b @ [newline])))) \<or> (bs @ [newline] = h \<and> ?es = [])))"
      unfolding at_end using rest by (simp cong: conj_cong)
    finally show ?thesis .
  qed
  also have "\<dots> \<longleftrightarrow> package_form p bs \<or> package_form p (bs @ [newline])"
  proof -
    have "(\<exists>b. bs @ [newline] = h @ b \<and> entries_form ?es b) \<longleftrightarrow>
        (\<exists>b. bs = h @ b \<and> ?es \<noteq> [] \<and> entries_form ?es (b @ [newline])) \<or> (bs @ [newline] = h \<and> ?es = [])" (is "?l h \<longleftrightarrow> ?m h") for h
    proof
      assume "?l h"
      then obtain b where b: "bs @ [newline] = h @ b" "entries_form ?es b" by blast
      show "?m h"
      proof (cases b rule: rev_cases)
        case Nil
        then show ?thesis using b entries_form_nonempty by simp
      next
        case (snoc b' x)
        then have "bs = h @ b'" "x = newline" using b(1) by (simp_all flip: append_assoc)
        moreover have "?es \<noteq> []" using snoc b(2) by (cases ?es) auto
        ultimately show ?thesis using snoc b(2) by auto
      qed
    qed (auto simp: entries_form_nonempty)
    from form_cases [OF this, of "\<lambda>c h. ?ok c \<and> header_form c ?n h"]
    have "(\<exists>c h. (?ok c \<and> header_form c ?n h) \<and>
        ((\<exists>b. bs = h @ b \<and> (entries_form ?es b \<or> (?es \<noteq> [] \<and> entries_form ?es (b @ [newline])))) \<or> (bs @ [newline] = h \<and> ?es = []))) \<longleftrightarrow>
      (\<exists>c h. (?ok c \<and> header_form c ?n h) \<and> (\<exists>b. bs = h @ b \<and> entries_form ?es b)) \<or>
      (\<exists>c h. (?ok c \<and> header_form c ?n h) \<and> (\<exists>b. bs @ [newline] = h @ b \<and> entries_form ?es b))" .
    moreover have "package_form p x \<longleftrightarrow> (\<exists>c h. (?ok c \<and> header_form c ?n h) \<and> (\<exists>b. x = h @ b \<and> entries_form ?es b))" for x
      unfolding package_form_def by blast
    ultimately show ?thesis by simp
  qed
  finally show ?thesis .
qed

section \<open>Leaving the raw capture on disk\<close>

definition slice_of :: "string \<Rightarrow> SessionRawCaptureSlice \<Rightarrow> u8 list" where
  "slice_of file sl = map byte_of_char (take (rs_size sl) (drop (rs_offset sl) file))"

definition without_raw :: "SessionPackageEntry \<Rightarrow> SessionPackageEntry" where
  "without_raw e = (if pe_name e = raw_capture_name then e\<lparr>pe_bytes := []\<rparr> else e)"

lemma header_slice:
  assumes "pr_in r = istream_of bs" "read_entry_header r = (Inr (name, n), r')"
  shows "read_entry_header (r\<lparr>pr_slice := sl\<rparr>) = (Inr (name, n), r'\<lparr>pr_slice := sl\<rparr>)"
proof -
  obtain t content where h: "name \<noteq> []" "newline \<notin> set name" "newline \<notin> set t" "parse_number t = Some n"
      "bs = entry_key @ name @ newline # size_key @ t @ newline # newline # content" "r' = r\<lparr>pr_in := istream_of content\<rparr>"
    using read_entry_header_iff [THEN iffD1, OF assms] by blast
  then show ?thesis
    using assms(1) by (intro read_entry_header_iff [where bs = bs, THEN iffD2] conjI exI [of _ t] exI [of _ content]) simp_all
qed

lemma bytes_read_slice: "bytes_read r bs a r' \<Longrightarrow> bytes_read (r\<lparr>pr_slice := sl\<rparr>) bs a (r'\<lparr>pr_slice := sl\<rparr>)"
  by (auto simp: bytes_read_def)

lemma body_other:
  assumes r: "pr_in r = istream_of bs" "pr_stop r = None" "pr_slice r = None" "length bs \<le> opened"
    and body: "read_entry_body opened opened name n r = (Inr e, r')" and other: "name \<noteq> raw_capture_name"
  shows "read_entry_body opened opened name n (r\<lparr>pr_slice := Some sl\<rparr>) = (Inr e, r'\<lparr>pr_slice := Some sl\<rparr>)"
proof -
  note b = read_entry_body_iff [THEN iffD1, OF r body]
  have "read_content position name n (r\<lparr>pr_slice := Some sl\<rparr>) =
      (Inr (take n bs), r\<lparr>pr_slice := Some sl, pr_in := istream_of (drop n bs)\<rparr>)" for position
    using r other b read_chunks_whole [of "r\<lparr>pr_slice := Some sl\<rparr>" bs n] by (simp add: read_content_def)
  moreover have "pr_in (r\<lparr>pr_slice := Some sl, pr_in := istream_of (drop n bs)\<rparr>) = istream_of (drop n bs)" by simp
  note entry_end_read [OF this, where e = e]
  moreover have "bytes_read (r\<lparr>pr_slice := Some sl, pr_in := istream_of (drop n bs)\<rparr>) (drop n bs) (newline # entry_mark @ [newline])
      (r'\<lparr>pr_slice := Some sl\<rparr>)"
    using bytes_read_slice [of r "drop n bs"] b by (simp add: bytes_read_update)
  moreover have "\<not> opened < opened - length bs" by simp
  ultimately show ?thesis using b r by (simp add: read_entry_body_def Let_def)
qed

lemma body_raw:
  assumes r: "pr_in r = istream_of bs" "pr_stop r = None" "pr_slice r = None" "opened = length file" "file = front @ bs"
    and body: "read_entry_body opened opened raw_capture_name n r = (Inr e, r')" and free: "rs_size sl = 0"
  obtains sl' where "slice_of file sl' = pe_bytes e"
    "read_entry_body opened opened raw_capture_name n (r\<lparr>pr_slice := Some sl\<rparr>) = (Inr (e\<lparr>pe_bytes := []\<rparr>), r'\<lparr>pr_slice := Some sl'\<rparr>)"
proof -
  have "length bs \<le> opened" using r by simp
  note b = read_entry_body_iff [THEN iffD1, OF r(1-3) this body]
  let ?sl = "\<lparr>rs_offset = opened - length bs, rs_size = n\<rparr>"
  have "read_content (opened - length bs) raw_capture_name n (r\<lparr>pr_slice := Some sl\<rparr>) =
      (Inr [], r\<lparr>pr_slice := Some ?sl, pr_in := istream_of (drop n bs)\<rparr>)"
    using r(1) free by (simp add: read_content_def) (simp add: istream_of_def)
  moreover have "pr_in (r\<lparr>pr_slice := Some ?sl, pr_in := istream_of (drop n bs)\<rparr>) = istream_of (drop n bs)" by simp
  note entry_end_read [OF this, where e = "e\<lparr>pe_bytes := []\<rparr>"]
  moreover have "bytes_read (r\<lparr>pr_slice := Some ?sl, pr_in := istream_of (drop n bs)\<rparr>) (drop n bs) (newline # entry_mark @ [newline])
      (r'\<lparr>pr_slice := Some ?sl\<rparr>)"
    using bytes_read_slice [of r "drop n bs"] b by (simp add: bytes_read_update)
  moreover have "\<not> opened < opened - length bs" by simp
  ultimately have "read_entry_body opened opened raw_capture_name n (r\<lparr>pr_slice := Some sl\<rparr>) =
      (Inr (e\<lparr>pe_bytes := []\<rparr>), r'\<lparr>pr_slice := Some ?sl\<rparr>)"
    using b r by (simp add: read_entry_body_def Let_def)
  moreover have "drop (opened - length bs) file = bs" using r(4,5) by simp
  then have "slice_of file ?sl = pe_bytes e" using b by (simp add: slice_of_def)
  ultimately show thesis using that by blast
qed

lemma read_entry_deferred:
  assumes r: "pr_in r = istream_of bs" "pr_stop r = None" "pr_slice r = None" "opened = length file" "file = front @ bs"
    and e: "read_entry opened opened r = (Inr e, r')" and free: "pe_name e = raw_capture_name \<longrightarrow> rs_size sl = 0"
  obtains sl' where "read_entry opened opened (r\<lparr>pr_slice := Some sl\<rparr>) = (Inr (without_raw e), r'\<lparr>pr_slice := Some sl'\<rparr>)"
    "if pe_name e = raw_capture_name then slice_of file sl' = pe_bytes e else sl' = sl"
proof -
  obtain name n r1 where h: "read_entry_header r = (Inr (name, n), r1)" and body: "read_entry_body opened opened name n r1 = (Inr e, r')"
    using e by (auto simp: read_entry_def bindR_iff)
  obtain t content where "bs = (entry_key @ name @ newline # size_key @ t @ [newline, newline]) @ content"
      "r1 = r\<lparr>pr_in := istream_of content\<rparr>"
    using read_entry_header_iff [THEN iffD1, OF r(1) h] by auto
  then obtain head where c: "bs = head @ content" "r1 = r\<lparr>pr_in := istream_of content\<rparr>" by blast
  have r1: "pr_in r1 = istream_of content" "pr_stop r1 = None" "pr_slice r1 = None" "length content \<le> opened"
    "file = (front @ head) @ content" using r c by simp_all
  note name = read_entry_body_iff [THEN iffD1, OF r1(1-4) body]
  have step: "read_entry opened opened (r\<lparr>pr_slice := Some sl\<rparr>) = read_entry_body opened opened name n (r1\<lparr>pr_slice := Some sl\<rparr>)"
    using header_slice [OF r(1) h] by (simp add: read_entry_def)
  show thesis
  proof (cases "name = raw_capture_name")
    case True
    with body have "read_entry_body opened opened raw_capture_name n r1 = (Inr e, r')" by simp
    moreover have "rs_size sl = 0" using free name True by simp
    ultimately obtain sl' where "slice_of file sl' = pe_bytes e"
        "read_entry_body opened opened raw_capture_name n (r1\<lparr>pr_slice := Some sl\<rparr>) = (Inr (e\<lparr>pe_bytes := []\<rparr>), r'\<lparr>pr_slice := Some sl'\<rparr>)"
      using body_raw [OF r1(1-3) r(4) r1(5)] by blast
    then show thesis using that [of sl'] step name True by (simp add: without_raw_def)
  next
    case False
    then show thesis using body_other [OF r1(1-4) body] name that step by (auto simp: without_raw_def)
  qed
qed

lemma read_entries_deferred:
  assumes "pr_in r = istream_of bs" "pr_stop r = None" "pr_slice r = None" "opened = length file" "file = front @ bs"
    and "read_entries opened opened n r = (Inr es, r')"
    and "length (filter (\<lambda>e. pe_name e = raw_capture_name) es) \<le> 1"
    and "rs_size sl = 0 \<or> filter (\<lambda>e. pe_name e = raw_capture_name) es = []"
  shows "\<exists>sl'. read_entries opened opened n (r\<lparr>pr_slice := Some sl\<rparr>) = (Inr (map without_raw es), r'\<lparr>pr_slice := Some sl'\<rparr>) \<and>
    (filter (\<lambda>e. pe_name e = raw_capture_name) es = [] \<longrightarrow> sl' = sl) \<and>
    (\<forall>e \<in> set es. pe_name e = raw_capture_name \<longrightarrow> slice_of file sl' = pe_bytes e)"
  using assms
proof (induction n arbitrary: r bs es front sl)
  case 0
  then show ?case by auto
next
  case (Suc n)
  let ?raws = "filter (\<lambda>e. pe_name e = raw_capture_name)"
  obtain e es' r1 where e: "es = e # es'" "read_entry opened opened r = (Inr e, r1)" "read_entries opened opened n r1 = (Inr es', r')"
    using Suc.prems(6) by (auto simp: bindR_iff)
  have free: "pe_name e = raw_capture_name \<longrightarrow> rs_size sl = 0" using Suc.prems(8) e(1) by auto
  obtain sl1 where step: "read_entry opened opened (r\<lparr>pr_slice := Some sl\<rparr>) = (Inr (without_raw e), r1\<lparr>pr_slice := Some sl1\<rparr>)"
    and sl1: "if pe_name e = raw_capture_name then slice_of file sl1 = pe_bytes e else sl1 = sl"
    by (rule read_entry_deferred [OF Suc.prems(1-5) e(2) free])
  have "length bs \<le> opened" using Suc.prems(4,5) by simp
  then obtain a where a: "bytes_read r bs a r1" using read_entry_iff [OF Suc.prems(1-3)] e(2) by blast
  have next': "length (?raws es') \<le> 1" "rs_size sl1 = 0 \<or> ?raws es' = []"
    using Suc.prems(7,8) e(1) sl1 by (auto split: if_splits)
  have "\<exists>sl'. read_entries opened opened n (r1\<lparr>pr_slice := Some sl1\<rparr>) = (Inr (map without_raw es'), r'\<lparr>pr_slice := Some sl'\<rparr>) \<and>
      (?raws es' = [] \<longrightarrow> sl' = sl1) \<and> (\<forall>e \<in> set es'. pe_name e = raw_capture_name \<longrightarrow> slice_of file sl' = pe_bytes e)"
  proof (cases "pr_in r1 = ended")
    case True
    then have "n = 0" "es' = []" "r' = r1" using e(3) read_entry_ended by (cases n; auto simp: bindR_iff)+
    then show ?thesis by auto
  next
    case False
    then obtain rest where rest: "bs = a @ rest" "r1 = r\<lparr>pr_in := istream_of rest\<rparr>" using a by (auto simp: bytes_read_def)
    show ?thesis
      by (rule Suc.IH [where bs = rest and front = "front @ a"]) (use rest Suc.prems e(3) next' in simp_all)
  qed
  then obtain sl' where sl': "read_entries opened opened n (r1\<lparr>pr_slice := Some sl1\<rparr>) = (Inr (map without_raw es'), r'\<lparr>pr_slice := Some sl'\<rparr>)"
    "?raws es' = [] \<longrightarrow> sl' = sl1" "\<forall>e \<in> set es'. pe_name e = raw_capture_name \<longrightarrow> slice_of file sl' = pe_bytes e" by blast
  moreover have "?raws es' = []" if "pe_name e = raw_capture_name" using Suc.prems(7) e(1) that by simp
  ultimately show ?case using step sl1 e(1) by (intro exI [of _ sl']) (auto simp: bindR_def split: if_splits)
qed

section \<open>What is written\<close>

lemma write_content_written: "write_content cs (out, stop) = (False, out', stop') \<Longrightarrow> out' = stream_write cs out"
proof (induction cs "(out, stop)" arbitrary: out stop rule: write_content.induct)
  case (1 cs out stop)
  show ?case
  proof (cases "cs = []")
    case False
    then have "out' = stream_write (drop 65536 cs) (stream_write (take 65536 cs) out)"
      using 1 by (subst (asm) write_content.simps) (auto split: prod.splits if_splits)
    then show ?thesis using stream_write_append [of "take 65536 cs" "drop 65536 cs" out] by simp
  qed (use 1 in \<open>simp add: write_content.simps\<close>)
qed

lemma write_content_never: "fst (write_content cs (out, None)) = False \<and> snd (snd (write_content cs (out, None))) = None"
proof (induction cs "(out, None :: stop_token)" arbitrary: out rule: write_content.induct)
  case (1 cs out)
  then show ?case by (subst (1 2) write_content.simps) simp
qed

definition entries_text :: "SessionPackageEntry list \<Rightarrow> string" where
  "entries_text es = concat (map (\<lambda>e. entry_header e @ map char_of_byte (pe_bytes e) @ entry_end) es)"

lemma write_entries_written:
  "write_entries es (out, stop) = (False, out', stop') \<Longrightarrow> out' = stream_write (entries_text es) out"
proof (induction es arbitrary: out stop)
  case (Cons e es)
  obtain out1 stop1 where 1: "write_content (map char_of_byte (pe_bytes e)) (stream_write (entry_header e) out, stop) = (False, out1, stop1)"
    and 2: "write_entries es (stream_write entry_end out1, stop1) = (False, out', stop')"
    using Cons.prems by (auto split: prod.splits bool.splits)
  have "out' = stream_write (entries_text es) (stream_write entry_end
      (stream_write (map char_of_byte (pe_bytes e)) (stream_write (entry_header e) out)))"
    using write_content_written [OF 1] Cons.IH [OF 2] by simp
  also have "\<dots> = stream_write (entry_header e @ map char_of_byte (pe_bytes e) @ entry_end @ entries_text es) out"
    by (simp only: stream_write_append)
  finally show ?case by (simp add: entries_text_def)
qed (simp add: entries_text_def)

lemma write_entries_never: "fst (write_entries es (out, None)) = False \<and> snd (snd (write_entries es (out, None))) = None"
proof (induction es arbitrary: out)
  case (Cons e es)
  let ?w = "write_content (map char_of_byte (pe_bytes e)) (stream_write (entry_header e) out, None)"
  obtain out1 where "?w = (False, out1, None)"
    using write_content_never [of "map char_of_byte (pe_bytes e)" "stream_write (entry_header e) out"] by (cases ?w) auto
  then show ?case using Cons.IH by simp
qed simp

lemma encode_text: "encodeSessionPackage p = package_header p @ entries_text (pk_entries p)"
  by (simp add: encodeSessionPackage_def entries_text_def)

lemma commit_cases:
  "commit_output d out stop target = (e, t) \<Longrightarrow>
     (e \<noteq> None \<and> t = target) \<or> (e = None \<and> os_ok (stream_flush out) \<and> t = Some (os_data out))"
  by (auto simp: commit_output_def Let_def stream_flush_def split: if_splits)

lemma write_cases:
  assumes "writeSessionPackage d stop p target = (e, t)" "os_data (pd_stream d) = []"
  shows "(e \<noteq> None \<and> t = target) \<or> (e = None \<and> t = Some (encodeSessionPackage p))"
proof (cases "pd_directory d \<and> os_ok (pd_stream d)")
  case True
  let ?w = "write_entries (pk_entries p) (stream_write (package_header p) (pd_stream d), stop)"
  obtain stopped out stop' where w: "?w = (stopped, out, stop')" by (metis prod.collapse)
  show ?thesis
  proof (cases "stopped \<or> \<not> os_ok out")
    case True
    then show ?thesis using assms(1) w \<open>pd_directory d \<and> _\<close> by (cases stopped) (auto simp: writeSessionPackage_def)
  next
    case False
    then have "out = stream_write (encodeSessionPackage p) (pd_stream d)"
      using write_entries_written [of "pk_entries p" _ stop out stop'] w by (simp only: encode_text stream_write_append) simp
    moreover from this have "os_data out = encodeSessionPackage p"
      using False assms(2) True stream_write_wrote [of "encodeSessionPackage p" "pd_stream d"] by (auto dest: wrote_data)
    moreover have "commit_output d out stop' target = (e, t)"
      using assms(1) w False True by (simp add: writeSessionPackage_def)
    ultimately show ?thesis using commit_cases by metis
  qed
next
  case False
  then show ?thesis using assms(1) by (auto simp: writeSessionPackage_def split: if_splits)
qed

text \<open>A device on which nothing fails, with room for the package.\<close>

definition device_ready :: "PackageDevice \<Rightarrow> nat \<Rightarrow> bool" where
  "device_ready d n \<longleftrightarrow>
     pd_directory d \<and> os_ok (pd_stream d) \<and> n \<le> os_room (pd_stream d) \<and> os_flushes (pd_stream d) \<and> pd_closes d \<and> pd_renames d"

lemma write_ready:
  assumes "device_ready d (length (encodeSessionPackage p))"
  shows "fst (writeSessionPackage d None p target) = None"
proof -
  let ?w = "write_entries (pk_entries p) (stream_write (package_header p) (pd_stream d), None)"
  obtain out where w: "?w = (False, out, None)"
    using write_entries_never [of "pk_entries p" "stream_write (package_header p) (pd_stream d)"] by (cases ?w) auto
  have "out = stream_write (encodeSessionPackage p) (pd_stream d)"
    using write_entries_written [OF w] by (simp only: encode_text stream_write_append)
  then have "os_ok out" "os_flushes out" using assms by (auto simp: device_ready_def stream_write_def)
  then show ?thesis using assms w by (simp add: writeSessionPackage_def commit_output_def device_ready_def stream_flush_def)
qed

text \<open>A package for examples.\<close>

definition sample_package :: SessionPackageData where
  "sample_package =
     \<lparr>pk_createdAtMs = 5,
      pk_entries = [\<lparr>pe_name = ''config.yaml'', pe_bytes = [97]\<rparr>, \<lparr>pe_name = raw_capture_name, pe_bytes = [1, 10]\<rparr>]\<rparr>"

lemma sample_package_writable: "package_writable sample_package"
  by (simp add: package_writable_def sample_package_def raw_capture_name_def newline_def kMaxSessionPackageEntries_def size_max_def)

lemma sample_package_read:
  "fst (readSessionPackage (Some (istream_of (encodeSessionPackage sample_package)))
     (Some (length (encodeSessionPackage sample_package))) None None) = Inr sample_package"
  unfolding read_iff using encoded_form [OF sample_package_writable] by simp

definition sample_device :: PackageDevice where
  "sample_device =
     \<lparr>pd_directory = True, pd_stream = \<lparr>os_data = [], os_room = 10000, os_ok = True, os_flushes = True\<rparr>, pd_closes = True,
      pd_renames = True\<rparr>"

lemma sample_device_ready: "device_ready sample_device (length (encodeSessionPackage sample_package))"
  by (simp add: device_ready_def sample_device_def encodeSessionPackage_def sample_package_def package_header_def key_defs
      entry_header_def entry_end_def raw_capture_name_def nat_text.simps)

section \<open>The properties\<close>

text \<open>C37: A package is read back from its encoding exactly when it has at most 10000 entries, no name is empty or
  holds a line feed, and the sizes are in the range of the machine; no proper prefix of a text that is decoded
  is decoded.\<close>

theorem session_package_roundtrip:
  "(decodeSessionPackage (encodeSessionPackage p) = Inr p \<longleftrightarrow> package_writable p) \<and>
   \<not> (decodeSessionPackage bs = Inr p \<and> k < length bs \<and> (\<exists>q. decodeSessionPackage (take k bs) = Inr q))"
  using encoded_form form_writable form_prefix by (force simp: decode_iff)

theorem session_package_roundtrip_witness: "decodeSessionPackage (encodeSessionPackage sample_package) = Inr sample_package"
  using session_package_roundtrip [of sample_package] sample_package_writable by simp

text \<open>C38: The reader of files accepts exactly the packages the decoder of texts accepts, and those whose last line
  feed is missing; both give the same package.\<close>

theorem session_file_decodes:
  "fst (readSessionPackage (Some (istream_of bs)) (Some (length bs)) None None) = Inr p \<longleftrightarrow>
     decodeSessionPackage bs = Inr p \<or> decodeSessionPackage (bs @ [newline]) = Inr p"
  unfolding decode_iff by (rule read_iff)

text \<open>C39: A caller that asks for the place of the raw capture gets the package without its bytes, and the place
  of exactly these bytes in the file.\<close>

theorem session_raw_deferred:
  assumes "fst (readSessionPackage (Some (istream_of bs)) (Some (length bs)) None None) = Inr p"
    and "length (filter (\<lambda>e. pe_name e = raw_capture_name) (pk_entries p)) \<le> 1"
  shows "\<exists>sl. readSessionPackage (Some (istream_of bs)) (Some (length bs)) None (Some \<lparr>rs_offset = 0, rs_size = 0\<rparr>) =
      (Inr (p\<lparr>pk_entries := map without_raw (pk_entries p)\<rparr>), Some sl) \<and>
    (\<forall>e \<in> set (pk_entries p). pe_name e = raw_capture_name \<longrightarrow> slice_of bs sl = pe_bytes e)"
proof -
  let ?r = "\<lparr>pr_in = istream_of bs, pr_stop = None, pr_slice = None\<rparr>" and ?sl = "\<lparr>rs_offset = 0, rs_size = 0\<rparr>"
  have "\<exists>r'. read_package (length bs) (length bs) ?r = (Inr p, r')"
    using assms(1) by (auto simp: readSessionPackage_def split: prod.splits)
  then obtain c r1 r2 where h: "read_header ?r = (Inr (c, length (pk_entries p)), r1)" and c: "pk_createdAtMs p = word_of_nat c"
    and es: "read_entries (length bs) (length bs) (length (pk_entries p)) r1 = (Inr (pk_entries p), r2)"
    and end': "fst (stream_peek (pr_in r2)) = None"
    unfolding read_package_steps by blast
  have in_r: "pr_in ?r = istream_of bs" "pr_in (?r\<lparr>pr_slice := Some ?sl\<rparr>) = istream_of bs" by simp_all
  obtain head where head: "header_form c (length (pk_entries p)) head" "bytes_read ?r bs head r1" "length (pk_entries p) \<le> kMaxSessionPackageEntries"
    using read_header_iff [THEN iffD1, OF in_r(1) h] by blast
  have "read_header (?r\<lparr>pr_slice := Some ?sl\<rparr>) = (Inr (c, length (pk_entries p)), r1\<lparr>pr_slice := Some ?sl\<rparr>)"
    using head bytes_read_slice [OF head(2)] by (intro read_header_iff [THEN iffD2, OF in_r(2)]) blast
  moreover have "\<exists>sl'. read_entries (length bs) (length bs) (length (pk_entries p)) (r1\<lparr>pr_slice := Some ?sl\<rparr>) =
        (Inr (map without_raw (pk_entries p)), r2\<lparr>pr_slice := Some sl'\<rparr>) \<and>
      (\<forall>e \<in> set (pk_entries p). pe_name e = raw_capture_name \<longrightarrow> slice_of bs sl' = pe_bytes e)"
  proof (cases "pr_in r1 = ended")
    case True
    then have "pk_entries p = []" "r2 = r1" using es read_entry_ended by (cases "pk_entries p"; auto simp: bindR_iff)+
    then show ?thesis by auto
  next
    case False
    then obtain rest where rest: "bs = head @ rest" "r1 = ?r\<lparr>pr_in := istream_of rest\<rparr>" using head(2) by (auto simp: bytes_read_def)
    show ?thesis
      using read_entries_deferred [of r1 rest "length bs" bs head _ "pk_entries p" r2 ?sl] rest es assms(2) by auto
  qed
  then obtain sl' where sl': "read_entries (length bs) (length bs) (length (pk_entries p)) (r1\<lparr>pr_slice := Some ?sl\<rparr>) =
        (Inr (map without_raw (pk_entries p)), r2\<lparr>pr_slice := Some sl'\<rparr>)"
      "\<forall>e \<in> set (pk_entries p). pe_name e = raw_capture_name \<longrightarrow> slice_of bs sl' = pe_bytes e" by blast
  ultimately have "read_package (length bs) (length bs) (?r\<lparr>pr_slice := Some ?sl\<rparr>) =
      read_end c (map without_raw (pk_entries p)) (r2\<lparr>pr_slice := Some sl'\<rparr>)"
    by (simp add: read_package_def)
  then have "readSessionPackage (Some (istream_of bs)) (Some (length bs)) None (Some ?sl) =
      (Inr (p\<lparr>pk_entries := map without_raw (pk_entries p)\<rparr>), Some sl')"
    using end' c by (cases p) (simp add: readSessionPackage_def read_end_def split: prod.splits option.splits)
  then show ?thesis using sl'(2) by blast
qed

theorem session_raw_deferred_witness:
  "\<exists>sl. slice_of (encodeSessionPackage sample_package) sl = [1, 10] \<and>
     snd (readSessionPackage (Some (istream_of (encodeSessionPackage sample_package)))
       (Some (length (encodeSessionPackage sample_package))) None (Some \<lparr>rs_offset = 0, rs_size = 0\<rparr>)) = Some sl"
  using session_raw_deferred [OF sample_package_read] by (auto simp: sample_package_def raw_capture_name_def)

text \<open>C40: Whatever fails, and whenever the task is stopped, a write either reports an error and leaves the file at
  the target as it was, or it reports none and the target holds the encoding of the package; on a device with
  room on which nothing fails a task that is not stopped succeeds.\<close>

theorem session_write_atomic:
  assumes "os_data (pd_stream d) = []"
  shows "(writeSessionPackage d stop p target = (None, Some (encodeSessionPackage p)) \<or>
      (\<exists>e. writeSessionPackage d stop p target = (Some e, target))) \<and>
    (device_ready d (length (encodeSessionPackage p)) \<and> stop = None \<longrightarrow>
      writeSessionPackage d stop p target = (None, Some (encodeSessionPackage p)))"
  using write_cases [of d stop p target] assms write_ready [of d p target] by (cases "writeSessionPackage d stop p target") auto

theorem session_write_atomic_witness:
  "writeSessionPackage sample_device None sample_package (Some ''old'') = (None, Some (encodeSessionPackage sample_package))"
proof -
  have "os_data (pd_stream sample_device) = []" by (simp add: sample_device_def)
  from session_write_atomic [OF this, of None sample_package "Some ''old''"] show ?thesis using sample_device_ready by simp
qed

end
