(* ===== verification/Spec2Isabelle.thy ===== *)
theory Spec2Isabelle
  imports Parser_Properties Psrec_Properties Record_Csv Dock_Store Store_Properties Adaptive_Performance Oscilloscope_Properties Session_Package_Properties
begin

text \<open>
  \<^bold>\<open>ProtoScope: a verification library of the program's core logic.\<close>

  ProtoScope reads byte streams from devices, cuts them into frames by a schema that a protocol script
  declares, turns frames into records, shows, stores, exports and imports records, and keeps a durable
  recording of them; it plots samples, adapts its work to the load, and packs a session into one file. This library
  models the C++ code of these parts. The paths below are relative to
  \<open>src/src\<close> and \<open>src/include/protoscope\<close> of the repository.

  \<^bold>\<open>Conventions.\<close> A class is a record of its data members, an enum or a variant a datatype, a byte a
  \<open>u8\<close>, an unsigned 64-bit number a \<open>u64\<close>; an \<open>int64_t\<close> is an \<open>int\<close> with the bounds written where the
  code can leave them, a \<open>size_t\<close> a \<open>nat\<close> with \<open>size_max\<close>, a \<open>double\<close> its bit pattern (theory Ieee754).
  A \<open>std::string\<close> is a list of characters, a \<open>std::map\<close> a list of pairs in the order of its keys
  (\<open>map_wf\<close>, \<open>map_emplace\<close>). An exception is the left side of a sum, of the type \<open>exn\<close>; a method that
  may throw and changes its object is a \<open>task\<close>, a function from the state to the result and the new
  state (theory Streams), so what an exception leaves behind is part of the model.

  \<^bold>\<open>1. Shared basis.\<close> PS_Base: machine types and bounded arithmetic. Data_Prelude: \<open>bindE\<close>, \<open>rejectE\<close>,
  ordered maps, little-endian bytes; locale \<open>ordered_map\<close>, interpreted on the maps of the
  code. Ieee754: doubles, their order and correctly rounded conversion; Ieee754_Order: rounding is monotone, and the
  exact value of a double; Ieee754_Arithmetic: sums, products and rounding to integers; Ieee754_Sum: rounding a
  value that is a double changes nothing, and sums are monotone. Number_Text: the conversions
  between numbers and text of the standard library the formats use. Streams: tasks, standard streams,
  stop tokens and the sink of the exporters.

  \<^bold>\<open>2. Frame parser\<close> (\<open>scripting/frame_stream_parser.cc\<close>, \<open>protocol_utils/codec.cc\<close>). Codec: HEX text and
  the three checksums; locale \<open>crc_engine\<close> (a bitwise step and the way a byte enters are injective) gives
  error detection for each of them. Ring_Buffer: \<open>ByteRingBuffer\<close>, with the locale \<open>byte_fifo\<close> for what the
  parser relies on. Stream_Types: value types and the decoding of fields. Count_Expr: the checked
  64-bit arithmetic of count expressions. Frame_Parser: schemas, compiled metadata, header search and the
  analysis of one frame. Frame_Stream: the loop of \<open>pushBytes\<close>, as \<open>partial_function (option)\<close>, so that
  termination is a theorem, and its specification \<open>parse_stream\<close>. Frame_Buckets holds the invariant of
  the object, Frame_Analysis, Stream_Correct and Stream_Chunks the lemmas on one frame, on a call and on
  calls in a row. Parser_Properties states the results: a call returns and refines \<open>parse_stream\<close>, no
  byte is lost, every frame returned is a checked slice of the stream, valid streams are parsed exactly,
  and the result does not depend on how the stream is cut.

  \<^bold>\<open>3. Data\<close> (\<open>data\<close>). Data_Model: values, schemas, records and their codec with its limits on depth,
  nodes and bytes; Data_Codec proves it against the layout. Query: conditions on records. Live_Table: the
  bounded table with its filtered and sorted view; the locale \<open>sort_contract\<close> states what the sorted view
  owes to any strict order. Data_Properties states the results. Csv and Record_Csv: rows, record files and
  mapped files in CSV form. Psrec: the binary record file; Psrec_Correct, Psrec_File and Psrec_Properties
  prove that a file is read back as written and that cut or altered files are refused.

  \<^bold>\<open>4. Docks\<close> (\<open>dock/docks.cc\<close>). Dock_Rows: rows, filters and texts. Dock_Store: the histories behind the
  docks, with the locale \<open>history_limiter\<close> for the policy class the code is parameterised over.

  \<^bold>\<open>5. Recording\<close> (\<open>storage\<close>). Storage_World: the index and the volume directories on disk together with the
  objects in memory, the rules of a small Hoare logic (\<open>triple\<close>, with a postcondition for the result and one
  for the exception) and the locale \<open>simulation\<close>, from single steps to runs. A database is the rows the
  code stores, and a transaction takes effect as a whole or not at all. Every durable step (a transaction,
  the creation, writing, renaming or removal of a file) consults \<open>st_faults\<close>, a list that says which of the
  next steps fail; a theorem for every list is a theorem for a failure at every step, and a crash is an
  operation that keeps the disk and drops the memory. Record_Session (\<open>record_session.cc\<close>), Record_Volume
  (\<open>record_volume.cc\<close>), Volume_Catalog and Volume_Retention (\<open>volume_catalog.cc\<close>), Legacy_Migration
  (\<open>legacy_record_migration.cc\<close>) and Record_Coordinator (\<open>record_volume_coordinator.cc\<close>, with the switch of
  the active volume of \<open>record_query.cc\<close> and the start and the write loop's publication of \<open>store.cc\<close>)
  model the code. Recording_Log and Recording_Tasks prove that every task keeps the invariant
  \<open>recorder_at\<close>: session, index and volumes hold one log with consecutive ids. Record_Store defines the
  operations of the store, the log that can be read from the disk alone, and the specification of an
  append-only log; \<open>simulation\<close> is interpreted on both the session and the store. Store_Properties states the
  results and runs a concrete store as their witness. It also proves that a rotation that is cut between
  the new directory and its database is never recovered, against the comment in \<open>finishPending\<close>.

  \<^bold>\<open>6. Adaptive performance\<close> (\<open>app/adaptive_performance.cc\<close>). Adaptive_Performance: the pressure of a sample, the
  level, which rises at once and falls one step after five calmer samples, and the budgets of a pump, computed in
  doubles as the code does; higher pressure never gets a larger rendering budget.

  \<^bold>\<open>7. Plots\<close> (\<open>plot/wave_query.cc\<close>, \<open>plot/oscilloscope.cc\<close>). Wave_Summary: samples and the summaries of their
  ranges; merging is associative, and the locale \<open>range_monoid\<close> draws from it that a range may be cut anywhere.
  Wave_Index: the index of a channel, levels of blocks of 256 times a power of two, kept up to date at its two ends.
  Wave_Correct: the invariant \<open>index_ok\<close> and the exactness of its answers. Wave_View: the queries of a channel by time.
  Oscilloscope: the channels with their samples, limits and resets, and runs of operations (\<open>osc_run\<close>).
  Oscilloscope_Properties: after any run every index answers exactly, every channel holds the end of the log of the
  accepted samples, and with finite times the samples are in the order of time, so that bisection is exact. It
  also shows that a time that is a NaN breaks this order.

  \<^bold>\<open>8. Session packages\<close> (\<open>session/session_package.cc\<close>, \<open>data/file_output.hpp\<close>). Session_Package: the encoder, the
  decoder, the reader of files and the writer. Session_Package_Properties: the round trip, the relation of the two
  readers, the raw capture that is left on disk, and the all-or-nothing replacement of the target.

  \<^bold>\<open>Bounds and fuel.\<close> No definition uses fuel. The only loop without a structural or measured recursion
  is \<open>push_loop\<close>; that it returns is part of \<open>push_returns_spec\<close>. The limits of the formats are the constants of
  the code (\<open>session_limits\<close>, \<open>volume_limits\<close>, the limits given to the codecs).

  \<^bold>\<open>Parameters.\<close> What is not in the repository or not determined by it is an argument: \<open>sizeof\<close> of the
  structures that enter memory budgets, the bytes of a volume on disk, random identities, the clock, the
  local time zone, the stop token's answers, which volumes are pinned by readers, what the file system answers to a
  writer of packages, and the order in which \<open>std::sort\<close> leaves samples of equal times: of it only the contract
  \<open>sorts\<close> is used, and \<open>sort_by_key\<close> shows that it can be met. The counter of data generations, which all
  buffers of the process share, is part of a buffer's state. The numbers of samples are \<open>nat\<close>: the code adds them in
  \<open>size_t\<close> and is followed up to the 2^64th sample.

  \<^bold>\<open>Not modelled.\<close> The user interface (\<open>ui\<close>), the sockets and serial ports (\<open>transport\<close>), the Lua virtual
  machine and its bindings (\<open>scripting/host\<close>), YAML (\<open>config\<close>) and logging are calls of third-party
  libraries. Of the plots, the readouts that only read samples (statistics, envelopes, measurements, spectra,
  downsampling, digital segments) and the formats of raw captures and CSV samples are left out. Of the store, the queues and threads, the key-value part, the merge of query results and the
  staging of imports are left out; retention is modelled as an operation of the catalogue but is not one of
  the operations of \<open>store_step\<close>, so the theorems on the log are about a recording from which nothing has
  been removed yet. Links and foreign files in the record directory, which the code refuses, are not part
  of the modelled disk.
\<close>

end
